(* ===== verification/Prelude.thy ===== *)
theory Prelude
  imports Main "HOL-Library.Word"
begin

text \<open>
  Shared vocabulary of the development: the machine integers of
  \<^verbatim>\<open>libk/include/types.h\<close>, the ways a piece of kernel code can fail to return
  (\<open>fault\<close>), sequencing of fallible code (\<open>res_bind\<close>), bounds-checked array access, and
  the generic facts on words and lists that several components use.  Three collections
  carry the component proofs: \<open>res_simps\<close> (sequencing), \<open>word_nat\<close> (moving words to
  \<open>nat\<close>) and \<open>bit_lems\<close> (single bits of masked and shifted words).
\<close>

unbundle bit_operations_syntax

named_theorems res_simps
named_theorems word_nat
named_theorems bit_lems

section \<open>Machine integers\<close>

type_synonym u8 = "8 word"
type_synonym u16 = "16 word"
type_synonym u32 = "32 word"
type_synonym u64 = "64 word"

text \<open>\<open>error_t\<close> of types.h: the enumeration is carried in a \<^verbatim>\<open>uint32_t\<close>.\<close>

type_synonym error_t = u32

definition ERROR_OK :: error_t where "ERROR_OK = 1"
definition ERROR_OCCUR :: error_t where "ERROR_OCCUR = 0"

lemma ERROR_distinct [simp]: "ERROR_OK \<noteq> ERROR_OCCUR" "ERROR_OCCUR \<noteq> ERROR_OK"
  by (simp_all add: ERROR_OK_def ERROR_OCCUR_def)

section \<open>Faults and fallible code\<close>

text \<open>
  A call of kernel code either returns or ends in one of these faults: \<open>Panic\<close> is the code's
  own \<^verbatim>\<open>PANIC\<close> (it halts the processor); \<open>NullDeref\<close> and \<open>OutOfBounds\<close> are accesses
  the C code makes outside the object it means to access; \<open>SpinForever\<close> is a spinlock
  acquired by the processor that already holds it; \<open>DivideByZero\<close> is the processor's
  \<^verbatim>\<open>#DE\<close>; \<open>Diverges\<close> is a loop that never ends; \<open>Uninitialised\<close> is a branch on
  memory that was never written.
\<close>

datatype fault =
    Panic string
  | NullDeref
  | OutOfBounds
  | SpinForever
  | DivideByZero
  | Diverges
  | Uninitialised

type_synonym 'a res = "fault + 'a"

definition res_bind :: "'a res \<Rightarrow> ('a \<Rightarrow> 'b res) \<Rightarrow> 'b res" where
  "res_bind m f = (case m of Inl e \<Rightarrow> Inl e | Inr x \<Rightarrow> f x)"

lemma res_bind_Inr [simp, res_simps]: "res_bind (Inr x) f = f x"
  by (simp add: res_bind_def)

lemma res_bind_Inl [simp, res_simps]: "res_bind (Inl e) f = Inl e"
  by (simp add: res_bind_def)

lemma res_bind_eq_Inr [res_simps]:
  "res_bind m f = Inr y \<longleftrightarrow> (\<exists>x. m = Inr x \<and> f x = Inr y)"
  by (cases m) auto

lemma res_bind_eq_Inl:
  "res_bind m f = Inl e \<longleftrightarrow> m = Inl e \<or> (\<exists>x. m = Inr x \<and> f x = Inl e)"
  by (cases m) auto

lemma res_bind_assoc: "res_bind (res_bind m f) g = res_bind m (\<lambda>x. res_bind (f x) g)"
  by (cases m) auto

lemma res_bind_cong [fundef_cong]:
  "m = m' \<Longrightarrow> (\<And>x. m' = Inr x \<Longrightarrow> f x = f' x) \<Longrightarrow> res_bind m f = res_bind m' f'"
  by (cases m') auto

text \<open>A loop that may not end is an \<open>option\<close>, where \<open>None\<close> is not ending.\<close>

definition returns :: "'a option \<Rightarrow> 'a res" where
  "returns x = (case x of None \<Rightarrow> Inl Diverges | Some y \<Rightarrow> Inr y)"

lemma returns_simps [simp, res_simps]: "returns (Some y) = Inr y" "returns None = Inl Diverges"
  by (simp_all add: returns_def)

text \<open>Reading and writing an array whose bound is the length of the list.\<close>

definition arr_get :: "'a list \<Rightarrow> nat \<Rightarrow> 'a res" where
  "arr_get xs i = (if i < length xs then Inr (xs ! i) else Inl OutOfBounds)"

definition arr_set :: "'a list \<Rightarrow> nat \<Rightarrow> 'a \<Rightarrow> 'a list res" where
  "arr_set xs i v = (if i < length xs then Inr (xs[i := v]) else Inl OutOfBounds)"

lemma arr_get_ok [simp]: "i < length xs \<Longrightarrow> arr_get xs i = Inr (xs ! i)"
  by (simp add: arr_get_def)

lemma arr_set_ok [simp]: "i < length xs \<Longrightarrow> arr_set xs i v = Inr (xs[i := v])"
  by (simp add: arr_set_def)

lemma arr_get_eq_Inr [res_simps]: "arr_get xs i = Inr y \<longleftrightarrow> i < length xs \<and> y = xs ! i"
  by (auto simp: arr_get_def)

lemma arr_set_eq_Inr [res_simps]:
  "arr_set xs i v = Inr ys \<longleftrightarrow> i < length xs \<and> ys = xs[i := v]"
  by (auto simp: arr_set_def)

section \<open>Words\<close>

lemma unat_Suc_less [word_nat]:
  fixes i n :: "'a::len word"
  assumes "i < n"
  shows "unat (i + 1) = Suc (unat i)"
proof -
  have "unat i < unat n" using assms by (simp add: word_less_nat_alt)
  from Suc_leI [OF this] have "Suc (unat i) < 2 ^ LENGTH('a)"
    by (rule le_less_trans) (rule unsigned_less)
  then show ?thesis by (simp add: unat_word_ariths)
qed

lemma unat_u8_less: "unat (x::u8) < 256"
  by (rule order_less_le_trans [OF unsigned_less]) simp

lemma unat_u16_less: "unat (x::u16) < 65536"
  by (rule order_less_le_trans [OF unsigned_less]) simp

lemma unat_u32_less: "unat (x::u32) < 4294967296"
  by (rule order_less_le_trans [OF unsigned_less]) simp

lemma unat_of_nat_u32 [simp]: "n < 4294967296 \<Longrightarrow> unat (of_nat n :: u32) = n"
  by (simp add: unat_of_nat)

lemma unat_div_numeral [word_nat]: "unat ((x::'a::len word) div y) = unat x div unat y"
  by (simp add: unat_div)

lemma unat_mod_word [word_nat]: "unat ((x::'a::len word) mod y) = unat x mod unat y"
  by (simp add: unat_mod)

lemma bit_push_one [bit_lems]:
  "bit (push_bit n (1::'a::len word)) m \<longleftrightarrow> m = n \<and> n < LENGTH('a)"
  by (auto simp: bit_simps)

lemma and_push_one_eq_0 [bit_lems]:
  fixes w :: "'a::len word"
  assumes "n < LENGTH('a)"
  shows "w AND push_bit n 1 = 0 \<longleftrightarrow> \<not> bit w n"
proof
  assume "w AND push_bit n 1 = 0"
  then have "\<not> bit (w AND push_bit n 1) n" by simp
  with assms show "\<not> bit w n" by (simp add: bit_simps)
next
  assume "\<not> bit w n"
  then show "w AND push_bit n 1 = 0"
    by (auto intro!: bit_word_eqI simp: bit_simps)
qed

lemma sint_nonneg_small:
  fixes b :: u32
  assumes "unat b < 2 ^ 31"
  shows "\<not> sint b < 0"
proof -
  have "\<not> bit (unat b) 31" using assms by (simp add: bit_iff_odd)
  then have "\<not> bit b 31" by (simp add: bit_unsigned_iff)
  then show ?thesis using bit_last_iff [of b] by simp
qed

lemma all_ones_u32: "(0xFFFFFFFF::u32) = - 1"
proof -
  have "(- 1 :: u32) = 0xFFFFFFFF" by simp
  then show ?thesis by (rule sym)
qed

lemma bit_all_ones_u32 [bit_lems]: "bit (0xFFFFFFFF::u32) k \<longleftrightarrow> k < 32"
  unfolding all_ones_u32 by (simp add: bit_simps)

lemma not_all_ones_clear_bit:
  fixes w :: "'a::len word"
  assumes "w \<noteq> - 1"
  obtains n where "n < LENGTH('a)" "\<not> bit w n"
  using assms by (metis bit_minus_1_iff bit_word_eqI possible_bit_word)

section \<open>Lists\<close>

lemma nth_list_update_if:
  "i < length xs \<Longrightarrow> xs[i := v] ! j = (if j = i then v else xs ! j)"
  by (simp add: nth_list_update)

end
