(* ===== verification/Spinlock.thy ===== *)
theory Spinlock
  imports Prelude
begin

text \<open>
  The spinlock of \<^verbatim>\<open>sync/_spinlock.asm\<close>.  The first half is the lock as one processor
  sees it between two of its own instructions: \<open>acquire_spinlock\<close> sets bit 0, or spins when
  the bit is set (with nobody else to clear it, for ever: \<open>SpinForever\<close>), and
  \<open>release_spinlock\<close> clears it.  The second half is the assembly loop instruction by
  instruction, interleaved over any number of processors, with mutual exclusion.
\<close>

unbundle bit_operations_syntax

section \<open>The lock word, sequentially\<close>

type_synonym spinlock_t = u32

definition lock_held :: "spinlock_t \<Rightarrow> bool" where
  "lock_held l \<longleftrightarrow> l AND 1 \<noteq> 0"

text \<open>\<^verbatim>\<open>test dword [eax], 1; jnz .lock_wait; lock bts dword [eax], 0\<close>\<close>

definition acquire_spinlock :: "spinlock_t \<Rightarrow> spinlock_t res" where
  "acquire_spinlock l = (if lock_held l then Inl SpinForever else Inr (l OR 1))"

text \<open>\<^verbatim>\<open>btr dword [eax], 0\<close>\<close>

definition release_spinlock :: "spinlock_t \<Rightarrow> spinlock_t" where
  "release_spinlock l = l AND NOT 1"

text \<open>
  The variants that also set the processor's flags: the answer carries the interrupt flag, or
  for irqrestore all of EFLAGS.  acquire_spinlock_irq opens interrupts while it waits and
  disables them before it takes the lock.
\<close>

definition acquire_spinlock_irq :: "spinlock_t \<Rightarrow> (spinlock_t \<times> bool) res" where
  "acquire_spinlock_irq l = (if lock_held l then Inl SpinForever else Inr (l OR 1, False))"

definition release_spinlock_irq :: "spinlock_t \<Rightarrow> spinlock_t \<times> bool" where
  "release_spinlock_irq l = (l AND NOT 1, True)"

definition release_spinlock_irqrestore :: "spinlock_t \<Rightarrow> u32 \<Rightarrow> spinlock_t \<times> u32" where
  "release_spinlock_irqrestore l flags = (l AND NOT 1, flags)"

lemma lock_held_bit: "lock_held l \<longleftrightarrow> bit l 0"
  by (simp add: lock_held_def and_one_eq odd_iff_mod_2_eq_one [symmetric] bit_0)

lemma lock_held_acquired [simp]: "lock_held (l OR 1)"
  by (simp add: lock_held_bit bit_simps)

lemma lock_held_released [simp]: "\<not> lock_held (release_spinlock l)"
  by (simp add: lock_held_bit release_spinlock_def bit_simps)

lemma lock_held_numerals [simp]: "\<not> lock_held 0" "lock_held 1"
  by (simp_all add: lock_held_def)

lemma acquire_spinlock_eq_Inr [res_simps]:
  "acquire_spinlock l = Inr l' \<longleftrightarrow> \<not> lock_held l \<and> l' = l OR 1"
  by (auto simp: acquire_spinlock_def)

lemma acquire_spinlock_free [simp]: "\<not> lock_held l \<Longrightarrow> acquire_spinlock l = Inr (l OR 1)"
  by (simp add: acquire_spinlock_def)

lemma acquire_spinlock_stuck [simp]: "lock_held l \<Longrightarrow> acquire_spinlock l = Inl SpinForever"
  by (simp add: acquire_spinlock_def)

lemma release_acquire_spinlock [simp]:
  "\<not> lock_held l \<Longrightarrow> release_spinlock (l OR 1) = l"
proof (rule bit_word_eqI)
  fix n assume "\<not> lock_held l" "n < LENGTH(32)"
  then show "bit (release_spinlock (l OR 1)) n \<longleftrightarrow> bit l n"
    by (cases n) (auto simp: lock_held_bit release_spinlock_def bit_simps simp del: bit_not_int_iff)
qed

section \<open>The assembly, interleaved\<close>

text \<open>
  Each processor is at one point of the code: outside it, at the \<^verbatim>\<open>test\<close> of
  \<^verbatim>\<open>.lock_wait\<close>, at the \<^verbatim>\<open>lock bts\<close> of \<^verbatim>\<open>.lock_acquire\<close>, or past the
  \<^verbatim>\<open>ret\<close> of acquire, where it stays until its \<^verbatim>\<open>btr\<close>.  One step is one instruction of
  one processor; the interleaving is arbitrary.
\<close>

datatype lock_pc = Outside | At_test | At_bts | Holding

record lock_sys =
  cpu_pc :: "nat \<Rightarrow> lock_pc"
  lock_word :: u32

inductive lock_step :: "lock_sys \<Rightarrow> lock_sys \<Rightarrow> bool" where
  call_acquire: "cpu_pc s i = Outside \<Longrightarrow>
     lock_step s (s\<lparr>cpu_pc := (cpu_pc s)(i := At_test)\<rparr>)"
| test_busy: "cpu_pc s i = At_test \<Longrightarrow> lock_word s AND 1 \<noteq> 0 \<Longrightarrow> lock_step s s"
| test_free: "cpu_pc s i = At_test \<Longrightarrow> lock_word s AND 1 = 0 \<Longrightarrow>
     lock_step s (s\<lparr>cpu_pc := (cpu_pc s)(i := At_bts)\<rparr>)"
| bts_lost: "cpu_pc s i = At_bts \<Longrightarrow> bit (lock_word s) 0 \<Longrightarrow>
     lock_step s (s\<lparr>cpu_pc := (cpu_pc s)(i := At_test)\<rparr>)"
| bts_won: "cpu_pc s i = At_bts \<Longrightarrow> \<not> bit (lock_word s) 0 \<Longrightarrow>
     lock_step s (s\<lparr>cpu_pc := (cpu_pc s)(i := Holding), lock_word := lock_word s OR 1\<rparr>)"
| btr: "cpu_pc s i = Holding \<Longrightarrow>
     lock_step s (s\<lparr>cpu_pc := (cpu_pc s)(i := Outside), lock_word := lock_word s AND NOT 1\<rparr>)"

inductive lock_reachable :: "u32 \<Rightarrow> lock_sys \<Rightarrow> bool" for l where
  start: "lock_reachable l \<lparr>cpu_pc = (\<lambda>_. Outside), lock_word = l\<rparr>"
| step: "lock_reachable l s \<Longrightarrow> lock_step s t \<Longrightarrow> lock_reachable l t"

text \<open>The lock word and the program counters agree: that is what every step keeps.\<close>

definition lock_agrees :: "lock_sys \<Rightarrow> bool" where
  "lock_agrees s \<longleftrightarrow>
     (bit (lock_word s) 0 \<longleftrightarrow> (\<exists>i. cpu_pc s i = Holding)) \<and>
     (\<forall>i j. cpu_pc s i = Holding \<longrightarrow> cpu_pc s j = Holding \<longrightarrow> i = j)"

lemma lock_agrees_start:
  "\<not> lock_held l \<Longrightarrow> lock_agrees \<lparr>cpu_pc = (\<lambda>_. Outside), lock_word = l\<rparr>"
  by (simp add: lock_agrees_def lock_held_bit)

lemma bit0_or_one: "bit ((w::u32) OR 1) 0" "\<not> bit (w AND NOT 1) 0" "\<not> bit (w AND - 2) 0"
  by (simp_all add: bit_simps)

lemma lock_step_agrees: "lock_step s t \<Longrightarrow> lock_agrees s \<Longrightarrow> lock_agrees t"
proof (induction rule: lock_step.induct)
  case (bts_won s i)
  then have none: "\<And>j. cpu_pc s j \<noteq> Holding" by (auto simp: lock_agrees_def)
  have "cpu_pc s j = Holding \<longleftrightarrow> False" for j using none by simp
  then show ?case by (auto simp: lock_agrees_def bit0_or_one split: if_splits)
next
  case (btr s i)
  then have only: "cpu_pc s j = Holding \<Longrightarrow> j = i" for j by (auto simp: lock_agrees_def)
  then show ?case by (auto simp: lock_agrees_def bit0_or_one)
qed (auto simp: lock_agrees_def split: if_splits; metis lock_pc.distinct)+

lemma lock_reachable_agrees: "lock_reachable l s \<Longrightarrow> \<not> lock_held l \<Longrightarrow> lock_agrees s"
  by (induction rule: lock_reachable.induct) (auto intro: lock_agrees_start lock_step_agrees)

end
