(* ===== verification/Libk_Memory.thy ===== *)
theory Libk_Memory
  imports Prelude
begin

text \<open>
  \<^verbatim>\<open>memset\<close>, \<^verbatim>\<open>memcpy\<close> and \<^verbatim>\<open>memcmp\<close> of libk over a byte-addressed 32-bit memory.
  The code treats \<^verbatim>\<open>length % 4\<close> bytes one at a time and the rest as 32-bit words; the
  lemmas show that the word-wise routines equal their byte-wise specification, wrap-around
  of the address included.
\<close>

unbundle bit_operations_syntax

section \<open>Byte-addressed memory\<close>

type_synonym memory = "u32 \<Rightarrow> u8"

text \<open>A 32-bit access through a \<^verbatim>\<open>uint32_t*\<close>; the processor is little-endian.\<close>

definition load32 :: "memory \<Rightarrow> u32 \<Rightarrow> u32" where
  "load32 m a = ucast (m a) OR push_bit 8 (ucast (m (a + 1)))
     OR push_bit 16 (ucast (m (a + 2))) OR push_bit 24 (ucast (m (a + 3)))"

definition store32 :: "memory \<Rightarrow> u32 \<Rightarrow> u32 \<Rightarrow> memory" where
  "store32 m a w = m(a := ucast w, a + 1 := ucast (drop_bit 8 w),
     a + 2 := ucast (drop_bit 16 w), a + 3 := ucast (drop_bit 24 w))"

section \<open>memset\<close>

text \<open>The first loop: \<^verbatim>\<open>*ptr = val; ptr++\<close>, \<open>n\<close> times.\<close>

primrec memset_bytes :: "nat \<Rightarrow> u32 \<Rightarrow> u8 \<Rightarrow> memory \<Rightarrow> memory" where
  "memset_bytes 0 ptr v m = m"
| "memset_bytes (Suc n) ptr v m = memset_bytes n (ptr + 1) v (m(ptr := v))"

text \<open>The second loop: \<^verbatim>\<open>new_ptr[i] = val32\<close>, \<open>n\<close> times.\<close>

primrec memset_words :: "nat \<Rightarrow> u32 \<Rightarrow> u32 \<Rightarrow> memory \<Rightarrow> memory" where
  "memset_words 0 ptr w m = m"
| "memset_words (Suc n) ptr w m = memset_words n (ptr + 4) w (store32 m ptr w)"

definition spread32 :: "u8 \<Rightarrow> u32" where
  "spread32 v =
     (let v32 = ucast v AND 0xFF;
          v32 = v32 OR (push_bit 8 (ucast v) AND 0xFF00);
          v32 = v32 OR (push_bit 16 (ucast v) AND 0xFF0000)
      in v32 OR (push_bit 24 (ucast v) AND 0xFF000000))"

definition memset :: "u32 \<Rightarrow> u8 \<Rightarrow> u32 \<Rightarrow> memory \<Rightarrow> memory" where
  "memset base v len m =
     (let index = len mod 4;
          m = memset_bytes (unat index) base v m;
          ptr = base + index;
          len = (len - index) div 4
      in memset_words (unat len) ptr (spread32 v) m)"

section \<open>memcpy\<close>

primrec memcpy_bytes :: "nat \<Rightarrow> u32 \<Rightarrow> u32 \<Rightarrow> memory \<Rightarrow> memory" where
  "memcpy_bytes 0 d s m = m"
| "memcpy_bytes (Suc n) d s m = memcpy_bytes n (d + 1) (s + 1) (m(d := m s))"

primrec memcpy_words :: "nat \<Rightarrow> u32 \<Rightarrow> u32 \<Rightarrow> memory \<Rightarrow> memory" where
  "memcpy_words 0 d s m = m"
| "memcpy_words (Suc n) d s m = memcpy_words n (d + 4) (s + 4) (store32 m d (load32 m s))"

definition memcpy :: "u32 \<Rightarrow> u32 \<Rightarrow> u32 \<Rightarrow> memory \<Rightarrow> memory" where
  "memcpy dest source len m =
     (let index = len mod 4;
          m = memcpy_bytes (unat index) dest source m;
          len = (len - index) div 4
      in memcpy_words (unat len) (dest + index) (source + index) m)"

section \<open>memcmp\<close>

text \<open>\<^verbatim>\<open>while (count-- > 0) if (*s1++ != *s2++) return s1[-1] < s2[-1] ? -1 : 1;\<close>\<close>

primrec memcmp_loop :: "nat \<Rightarrow> u32 \<Rightarrow> u32 \<Rightarrow> memory \<Rightarrow> int" where
  "memcmp_loop 0 s1 s2 m = 0"
| "memcmp_loop (Suc n) s1 s2 m =
     (if m s1 \<noteq> m s2 then (if m s1 < m s2 then - 1 else 1)
      else memcmp_loop n (s1 + 1) (s2 + 1) m)"

definition memcmp :: "u32 \<Rightarrow> u32 \<Rightarrow> u32 \<Rightarrow> memory \<Rightarrow> int" where
  "memcmp s1 s2 count m = memcmp_loop (unat count) s1 s2 m"

section \<open>Lemmas\<close>

lemma byte_masks:
  "(0xFF::u32) = mask 8" "(0xFF00::u32) = push_bit 8 (mask 8)"
  "(0xFF0000::u32) = push_bit 16 (mask 8)" "(0xFF000000::u32) = push_bit 24 (mask 8)"
  by (simp_all add: mask_eq_exp_minus_1 push_bit_eq_mult)

lemma ucast_spread32 [simp]:
  "ucast (spread32 v) = v" "ucast (drop_bit 8 (spread32 v)) = v"
  "ucast (drop_bit 16 (spread32 v)) = v" "ucast (drop_bit 24 (spread32 v)) = v"
  for v :: u8
  unfolding spread32_def Let_def byte_masks
  by (rule bit_word_eqI; auto simp: bit_simps dest: bit_imp_le_length)+

lemma ucast_load32 [simp]:
  "ucast (load32 m a) = m a" "ucast (drop_bit 8 (load32 m a)) = m (a + 1)"
  "ucast (drop_bit 16 (load32 m a)) = m (a + 2)" "ucast (drop_bit 24 (load32 m a)) = m (a + 3)"
  unfolding load32_def
  by (rule bit_word_eqI; auto simp: bit_simps dest: bit_imp_le_length)+

text \<open>The bytes a store writes, by their distance from its address.\<close>

lemma u32_less_4:
  fixes x :: u32
  shows "unat x < 4 \<longleftrightarrow> x = 0 \<or> x = 1 \<or> x = 2 \<or> x = 3"
  unfolding word_unat_eq_iff by (simp, arith)

lemma store32_apply:
  "store32 m p w a =
     (if a - p = 3 then ucast (drop_bit 24 w) else if a - p = 2 then ucast (drop_bit 16 w)
      else if a - p = 1 then ucast (drop_bit 8 w)
      else if a - p = 0 then ucast w else m a)"
proof -
  have "a = p + k \<longleftrightarrow> a - p = k" for k by (auto simp: algebra_simps)
  then show ?thesis by (simp add: store32_def fun_upd_apply)
qed

lemma unat_minus_less:
  fixes d k :: u32
  assumes "unat k + n \<le> 2 ^ 32"
  shows "unat (d - k) < n \<longleftrightarrow> unat k \<le> unat d \<and> unat d < unat k + n"
proof -
  have "unat d < 2 ^ 32" using unat_u32_less [of d] by simp
  then show ?thesis using assms by (auto simp: unat_sub_if_size word_size)
qed

lemma unat_minus_wrap:
  fixes e d :: u32
  assumes "k \<le> unat e" "unat e < unat d"
  shows "k \<le> unat (e - d)"
  using assms unat_u32_less [of d] by (simp add: unat_sub_if_size word_size)

lemma unat_dist_step:
  fixes a p k :: u32
  assumes "unat k + n \<le> 2 ^ 32"
  shows "unat (a - (p + k)) < n \<longleftrightarrow> unat k \<le> unat (a - p) \<and> unat (a - p) < unat k + n"
proof -
  have eq: "a - (p + k) = (a - p) - k" by (simp add: algebra_simps)
  show ?thesis unfolding eq by (rule unat_minus_less [OF assms])
qed

lemma memset_bytes_apply:
  "n < 2 ^ 32 \<Longrightarrow> memset_bytes n ptr v m a = (if unat (a - ptr) < n then v else m a)"
proof (induction n arbitrary: ptr m)
  case 0
  then show ?case by simp
next
  case (Suc n)
  have "unat (a - ptr) = 0 \<longleftrightarrow> a = ptr" by (simp add: unat_eq_zero)
  with Suc show ?case by (auto simp: unat_dist_step [where k = 1])
qed

lemma memset_words_apply:
  "4 * n \<le> 2 ^ 32 \<Longrightarrow>
   memset_words n ptr (spread32 v) m a = (if unat (a - ptr) < 4 * n then v else m a)"
proof (induction n arbitrary: ptr m)
  case 0
  then show ?case by simp
next
  case (Suc n)
  have "4 + 4 * n \<le> 2 ^ 32" using Suc.prems by simp
  then have "unat (a - (ptr + 4)) < 4 * n \<longleftrightarrow> 4 \<le> unat (a - ptr) \<and> unat (a - ptr) < 4 + 4 * n"
    by (subst unat_dist_step) simp_all
  with Suc show ?case using u32_less_4 [of "a - ptr"] by (auto simp: store32_apply not_le)
qed

text \<open>The length splits into the byte part and the word part.\<close>

lemma unat_len_split:
  fixes len :: u32
  shows "unat ((len - len mod 4) div 4) = unat len div 4" "unat (len mod 4) = unat len mod 4"
proof -
  have "len mod 4 \<le> len" by (simp add: word_le_nat_alt unat_mod)
  then show "unat ((len - len mod 4) div 4) = unat len div 4"
    by (simp add: unat_div unat_sub unat_mod)
       (metis minus_mod_eq_div_mult nonzero_mult_div_cancel_right zero_neq_numeral)
  show "unat (len mod 4) = unat len mod 4" by (simp add: unat_mod)
qed

lemma memset_apply: "memset base v len m a = (if unat (a - base) < unat len then v else m a)"
proof -
  let ?i = "unat len mod 4" and ?n = "unat len div 4"
  have lt: "unat len < 2 ^ 32" using unat_u32_less [of len] by simp
  have split: "?i + 4 * ?n = unat len" by simp
  have step: "unat (a - (base + len mod 4)) < 4 * ?n \<longleftrightarrow>
      ?i \<le> unat (a - base) \<and> unat (a - base) < unat len"
    using unat_dist_step [of "len mod 4" "4 * ?n" a base] lt split by (simp add: unat_len_split)
  have bytes: "memset_bytes ?i base v m a = (if unat (a - base) < ?i then v else m a)"
    by (rule memset_bytes_apply) (use lt in linarith)
  have words: "memset base v len m a =
      (if unat (a - (base + len mod 4)) < 4 * ?n then v else memset_bytes ?i base v m a)"
    using lt by (simp add: memset_def Let_def unat_len_split memset_words_apply)
  show ?thesis
  proof (cases "unat (a - base) < ?i")
    case True
    with split have "unat (a - base) < unat len" by linarith
    with True step bytes words show ?thesis by simp
  next
    case False
    with step bytes words show ?thesis by (simp add: not_less)
  qed
qed

text \<open>
  memcpy copies forwards, so it is right whenever the destination does not start inside the
  source; \<open>len \<le> unat (dest - source)\<close> says that, modulo \<open>2^32\<close>.
\<close>

lemma memcpy_source_kept:
  fixes a d s :: u32
  assumes "n \<le> unat (d - s)" "unat (a - d) < n"
  shows "s + (a - d) \<noteq> d"
proof
  assume "s + (a - d) = d"
  then have "a - d = d - s" by (simp add: algebra_simps)
  with assms show False by simp
qed

lemma memcpy_bytes_apply:
  "n \<le> unat (d - s) \<Longrightarrow>
   memcpy_bytes n d s m a = (if unat (a - d) < n then m (s + (a - d)) else m a)"
proof (induction n arbitrary: d s m)
  case 0
  then show ?case by simp
next
  case (Suc n)
  have lt: "Suc n < 2 ^ 32" using Suc.prems unat_u32_less [of "d - s"] by simp
  have shift: "(d + 1) - (s + 1) = d - s" "s + 1 + (a - (d + 1)) = s + (a - d)"
    by (simp_all add: algebra_simps)
  have zero: "unat (a - d) = 0 \<longleftrightarrow> a = d" by (simp add: unat_eq_zero)
  have step: "unat (a - (d + 1)) < n \<longleftrightarrow> 1 \<le> unat (a - d) \<and> unat (a - d) < Suc n"
    using unat_dist_step [of 1 n a d] lt by simp
  have "memcpy_bytes n (d + 1) (s + 1) (m(d := m s)) a =
      (if unat (a - (d + 1)) < n then (m(d := m s)) (s + (a - d)) else (m(d := m s)) a)"
    using Suc.IH [of "d + 1" "s + 1"] Suc.prems unfolding shift by simp
  then show ?case
    using step zero memcpy_source_kept [OF Suc.prems, of a] by (auto simp: fun_upd_apply)
qed

lemma store32_load32_apply:
  "store32 m d (load32 m s) a = (if unat (a - d) < 4 then m (s + (a - d)) else m a)"
  using u32_less_4 [of "a - d"] by (auto simp: store32_apply)

lemma memcpy_words_apply:
  "4 * n \<le> unat (d - s) \<Longrightarrow>
   memcpy_words n d s m a = (if unat (a - d) < 4 * n then m (s + (a - d)) else m a)"
proof (induction n arbitrary: d s m)
  case 0
  then show ?case by simp
next
  case (Suc n)
  have lt: "unat (d - s) < 2 ^ 32" using unat_u32_less [of "d - s"] by simp
  have shift: "(d + 4) - (s + 4) = d - s" "s + 4 + (a - (d + 4)) = s + (a - d)"
    "s + (a - d) - d = (a - d) - (d - s)"
    by (simp_all add: algebra_simps)
  have step: "unat (a - (d + 4)) < 4 * n \<longleftrightarrow> 4 \<le> unat (a - d) \<and> unat (a - d) < 4 + 4 * n"
    using unat_dist_step [of 4 "4 * n" a d] lt Suc.prems by simp
  have kept: "4 \<le> unat (a - d) \<Longrightarrow> unat (a - d) < 4 + 4 * n \<Longrightarrow> \<not> unat (s + (a - d) - d) < 4"
    unfolding shift using unat_minus_wrap [of 4 "a - d" "d - s"] Suc.prems by simp
  have "memcpy_words n (d + 4) (s + 4) (store32 m d (load32 m s)) a =
      (if unat (a - (d + 4)) < 4 * n then store32 m d (load32 m s) (s + (a - d))
       else store32 m d (load32 m s) a)"
    using Suc.IH [of "d + 4" "s + 4"] Suc.prems unfolding shift by simp
  then show ?case
    using step kept by (auto simp: store32_load32_apply)
qed

lemma memcpy_apply:
  assumes "unat len \<le> unat (dest - source)"
  shows "memcpy dest source len m a =
    (if unat (a - dest) < unat len then m (source + (a - dest)) else m a)"
proof -
  define e where "e = a - dest"
  let ?i = "unat len mod 4" and ?n = "unat len div 4" and ?m = "memcpy_bytes (unat len mod 4) dest source m"
  have lt: "unat len < 2 ^ 32" using unat_u32_less [of len] by simp
  have split: "?i + 4 * ?n = unat len" by simp
  have bytes: "?m x = (if unat (x - dest) < ?i then m (source + (x - dest)) else m x)" for x
    using memcpy_bytes_apply [of ?i dest source m x] assms split by linarith
  have bytes_a: "?m a = (if unat e < ?i then m (source + e) else m a)"
    unfolding e_def by (rule bytes)
  have shift: "(dest + len mod 4) - (source + len mod 4) = dest - source"
    "source + len mod 4 + (a - (dest + len mod 4)) = source + e"
    "source + e - dest = e - (dest - source)"
    by (simp_all add: e_def algebra_simps)
  have step: "unat (a - (dest + len mod 4)) < 4 * ?n \<longleftrightarrow> ?i \<le> unat e \<and> unat e < unat len"
    using unat_dist_step [of "len mod 4" "4 * ?n" a dest] lt split
    by (simp add: unat_len_split e_def)
  have kept: "?m (source + e) = m (source + e)" if "?i \<le> unat e" "unat e < unat len"
    using bytes [of "source + e"] unat_minus_wrap [of ?i e "dest - source"] that assms
    unfolding shift by simp
  have words: "memcpy dest source len m a =
      (if unat (a - (dest + len mod 4)) < 4 * ?n then ?m (source + e) else ?m a)"
    using memcpy_words_apply [of ?n "dest + len mod 4" "source + len mod 4" ?m a] assms split
    unfolding shift by (simp add: memcpy_def Let_def unat_len_split)
  have "memcpy dest source len m a = (if unat e < unat len then m (source + e) else m a)"
  proof (cases "unat e < ?i")
    case True
    with split have "unat e < unat len" by linarith
    with True step words bytes_a show ?thesis by simp
  next
    case False
    with step kept words bytes_a show ?thesis by (simp add: not_less)
  qed
  then show ?thesis unfolding e_def .
qed

text \<open>memcmp decides equality and the lexicographic order of the two ranges.\<close>

lemma memcmp_loop_zero:
  "memcmp_loop n s1 s2 m = 0 \<longleftrightarrow> (\<forall>i<n. m (s1 + of_nat i) = m (s2 + of_nat i))"
proof (induction n arbitrary: s1 s2)
  case 0
  then show ?case by simp
next
  case (Suc n)
  have shift: "s + of_nat (Suc i) = s + 1 + of_nat i" for s :: u32 and i
    by (simp add: add.assoc)
  have all: "(\<forall>i<Suc n. m (s1 + of_nat i) = m (s2 + of_nat i)) \<longleftrightarrow>
      m s1 = m s2 \<and> (\<forall>i<n. m (s1 + 1 + of_nat i) = m (s2 + 1 + of_nat i))"
    by (simp only: All_less_Suc2 shift) simp
  show ?case
  proof (cases "m s1 = m s2")
    case True
    with Suc.IH [of "s1 + 1" "s2 + 1"] show ?thesis unfolding all by simp
  next
    case False
    then show ?thesis unfolding all by simp
  qed
qed

lemma memcmp_loop_antisym: "memcmp_loop n s2 s1 m = - memcmp_loop n s1 s2 m"
proof (induction n arbitrary: s1 s2)
  case 0
  then show ?case by simp
next
  case (Suc n)
  from Suc.IH [of "s2 + 1" "s1 + 1"] less_linear [of "m s1" "m s2"] show ?case by fastforce
qed

lemma memcmp_eq_0:
  "memcmp s1 s2 n m = 0 \<longleftrightarrow> (\<forall>i<unat n. m (s1 + of_nat i) = m (s2 + of_nat i))"
  by (simp add: memcmp_def memcmp_loop_zero)


section \<open>Fields of structures in memory\<close>

definition load16 :: "memory \<Rightarrow> u32 \<Rightarrow> u16" where
  "load16 m a = ucast (m a) OR push_bit 8 (ucast (m (a + 1)))"

definition store16 :: "memory \<Rightarrow> u32 \<Rightarrow> u16 \<Rightarrow> memory" where
  "store16 m a w = m(a := ucast w, a + 1 := ucast (drop_bit 8 w))"

lemma load16_store16: "load16 (store16 m p w) p = w"
proof (rule bit_word_eqI)
  fix n assume "n < LENGTH(16)"
  then have "n < 8 \<or> 8 \<le> n \<and> n < 16" by auto
  then show "bit (load16 (store16 m p w) p) n = bit w n"
    by (auto simp: load16_def store16_def bit_simps)
qed

lemma load32_store32: "load32 (store32 m p w) p = w"
proof (rule bit_word_eqI)
  fix n assume "n < LENGTH(32)"
  then have "n < 8 \<or> 8 \<le> n \<and> n < 16 \<or> 16 \<le> n \<and> n < 24 \<or> 24 \<le> n \<and> n < 32" by auto
  then show "bit (load32 (store32 m p w) p) n = bit w n"
    by (elim disjE) (auto simp: load32_def store32_apply bit_simps)
qed

text \<open>
  \<open>only_in m m' S\<close>: the two memories differ at most at the addresses in \<open>S\<close>.  Reads outside
  \<open>S\<close> see no difference.
\<close>

definition only_in :: "memory \<Rightarrow> memory \<Rightarrow> nat set \<Rightarrow> bool" where
  "only_in m m' S \<longleftrightarrow> (\<forall>x. unat x \<notin> S \<longrightarrow> m' x = m x)"

lemma only_in_refl [simp]: "only_in m m S"
  by (simp add: only_in_def)

lemma only_in_trans: "only_in m m' S \<Longrightarrow> only_in m' m'' T \<Longrightarrow> only_in m m'' (S \<union> T)"
  by (simp add: only_in_def)

lemma only_in_mono: "only_in m m' S \<Longrightarrow> S \<subseteq> T \<Longrightarrow> only_in m m' T"
  by (auto simp: only_in_def)

lemma of_nat_u32_add_cancel: "of_nat a + of_nat k = (of_nat (a + k) :: u32)"
  by simp

lemma only_in_upd: "unat x \<in> S \<Longrightarrow> only_in m (m(x := v)) S"
  by (auto simp: only_in_def)

lemma only_in_store32:
  assumes "p + 4 \<le> 4294967296"
  shows "only_in m (store32 m (of_nat p) w) {p..<p + 4}"
  unfolding only_in_def
proof (intro allI impI)
  fix x :: u32
  assume out: "unat x \<notin> {p..<p + 4}"
  have "x \<noteq> of_nat (p + i)" if "i < 4" for i
    using out that assms by (auto simp del: of_nat_add)
  from this [of 0] this [of 1] this [of 2] this [of 3]
  show "store32 m (of_nat p) w x = m x"
    by (simp add: store32_def add.commute)
qed

lemma only_in_store16:
  assumes "p + 2 \<le> 4294967296"
  shows "only_in m (store16 m (of_nat p) w) {p..<p + 2}"
  unfolding only_in_def
proof (intro allI impI)
  fix x :: u32
  assume out: "unat x \<notin> {p..<p + 2}"
  have "x \<noteq> of_nat (p + i)" if "i < 2" for i
    using out that assms by (auto simp del: of_nat_add)
  from this [of 0] this [of 1]
  show "store16 m (of_nat p) w x = m x"
    by (simp add: store16_def add.commute)
qed

lemma load8_other:
  assumes "only_in m m' S" "a \<notin> S" "a < 4294967296"
  shows "m' (of_nat a) = m (of_nat a)"
  using assms by (auto simp: only_in_def)

lemma load32_other:
  assumes "only_in m m' S" "S \<inter> {a..<a + 4} = {}" "a + 4 \<le> 4294967296"
  shows "load32 m' (of_nat a) = load32 m (of_nat a)"
proof -
  have "m' (of_nat (a + i)) = m (of_nat (a + i))" if "i < 4" for i
    using that assms(2,3) by (intro load8_other [OF assms(1)]) auto
  from this [of 0] this [of 1] this [of 2] this [of 3] show ?thesis
    by (simp add: load32_def add.commute)
qed

lemma load16_other:
  assumes "only_in m m' S" "S \<inter> {a..<a + 2} = {}" "a + 2 \<le> 4294967296"
  shows "load16 m' (of_nat a) = load16 m (of_nat a)"
proof -
  have "m' (of_nat (a + i)) = m (of_nat (a + i))" if "i < 2" for i
    using that assms(2,3) by (intro load8_other [OF assms(1)]) auto
  from this [of 0] this [of 1] show ?thesis
    by (simp add: load16_def add.commute)
qed

end
