(* ===== verification/Libk_Utility.thy ===== *)
theory Libk_Utility
  imports Prelude
begin

text \<open>
  The arithmetic and number-conversion routines of \<^verbatim>\<open>libk/utility.c\<close>.  A character
  buffer is a list of bytes whose length is the space the caller gave; a store past it is the
  fault \<open>OutOfBounds\<close>.  \<^verbatim>\<open>char\<close> is signed on this target, so a byte is read with
  \<open>scast\<close> where the code does arithmetic on it.
\<close>

unbundle bit_operations_syntax

section \<open>pow, ceil_division, is_aligned\<close>

text \<open>\<^verbatim>\<open>for (i = 0; i < exp; i++) res *= base\<close>, with the number of rounds left.\<close>

primrec pow_loop :: "nat \<Rightarrow> u32 \<Rightarrow> u32 \<Rightarrow> u32" where
  "pow_loop 0 base res = res"
| "pow_loop (Suc n) base res = pow_loop n base (res * base)"

definition pow_u32 :: "u32 \<Rightarrow> u32 \<Rightarrow> u32" where
  "pow_u32 base exp = pow_loop (unat exp) base 1"

definition ceil_division :: "u32 \<Rightarrow> u32 \<Rightarrow> u32 res" where
  "ceil_division value divisor =
     (if divisor = 0 then Inl DivideByZero
      else let d = value div divisor; r = value mod divisor
           in Inr (if r \<noteq> 0 then d + 1 else d))"

definition is_aligned :: "u32 \<Rightarrow> u32 \<Rightarrow> bool res" where
  "is_aligned value w = (if w = 0 then Inl DivideByZero else Inr (value mod w = 0))"

lemma pow_loop_eq: "pow_loop n base res = res * base ^ n"
  by (induction n arbitrary: res) (simp_all add: mult.assoc)

lemma pow_u32_eq: "pow_u32 base exp = base ^ unat exp"
  by (simp add: pow_u32_def pow_loop_eq)

lemma unat_ceil_division:
  assumes "ceil_division v d = Inr q"
  shows "unat q = (unat v + unat d - 1) div unat d"
proof -
  from assms have d: "0 < unat d" by (simp add: ceil_division_def unat_gt_0 split: if_splits)
  have v: "unat v = unat d * (unat v div unat d) + unat v mod unat d" by simp
  show ?thesis
  proof (cases "unat v mod unat d = 0")
    case True
    then have "v mod d = 0" by (simp add: word_unat_eq_iff unat_mod)
    with assms have q: "unat q = unat v div unat d"
      by (auto simp: ceil_division_def unat_div split: if_splits)
    from v True have eq: "unat v + unat d - 1 = (unat d - 1) + unat d * (unat v div unat d)"
      using d by linarith
    have "((unat d - 1) + unat d * (unat v div unat d)) div unat d = unat v div unat d"
      using d by (subst div_mult_self2) simp_all
    then have "(unat v + unat d - 1) div unat d = unat v div unat d" unfolding eq .
    then show ?thesis using q by simp
  next
    case False
    then have nz: "v mod d \<noteq> 0" by (auto simp: word_unat_eq_iff unat_mod)
    have "unat v div unat d < unat v \<or> unat d = 1"
      using d False by (metis div_less_dividend less_one mod_by_1 mod_less not_less_iff_gr_or_eq
          nat_neq_iff unat_gt_0 gr_zeroI mod_0)
    with False have "unat v div unat d < unat v" by auto
    then have "unat (v div d + 1) = Suc (unat v div unat d)"
      using unat_Suc_less [of "v div d" v] by (simp add: word_less_nat_alt unat_div)
    with nz assms have q: "unat q = Suc (unat v div unat d)"
      by (auto simp: ceil_division_def split: if_splits)
    define r where "r = unat v mod unat d"
    have r: "0 < r" "r < unat d" using False d by (simp_all add: r_def)
    from v r have eq: "unat v + unat d - 1 = (r - 1) + unat d * Suc (unat v div unat d)"
      unfolding r_def [symmetric] by (simp add: algebra_simps)
    have "((r - 1) + unat d * Suc (unat v div unat d)) div unat d = Suc (unat v div unat d)"
      using r d by (subst div_mult_self2) simp_all
    then have "(unat v + unat d - 1) div unat d = Suc (unat v div unat d)" unfolding eq .
    then show ?thesis using q by simp
  qed
qed

section \<open>Number to text\<close>

text \<open>\<^verbatim>\<open>char hexes[] = "0123456789ABCDEF"\<close> and \<^verbatim>\<open>alphabet\<close>, with their final NUL.\<close>

definition hexes :: "u8 list" where
  "hexes = [48, 49, 50, 51, 52, 53, 54, 55, 56, 57, 65, 66, 67, 68, 69, 70, 0]"

definition alphabet :: "u8 list" where
  "alphabet = map (\<lambda>k. 97 + of_nat k) [0..<26] @ [0]"

text \<open>
  The digit loop of uitoa: \<^verbatim>\<open>do { buffer[i] = hexes[val % base]; i++; } while ((val /= base)
  != 0)\<close>.  The index stays below the length of the buffer, so its 16 bits never wrap for the
  buffers of this kernel.
\<close>

function uitoa_digits :: "u32 \<Rightarrow> u8 \<Rightarrow> nat \<Rightarrow> u8 list \<Rightarrow> (nat \<times> u8 list) res" where
  "uitoa_digits val base i buffer =
     (if base = 0 then Inl DivideByZero
      else res_bind (arr_get hexes (unat (val mod ucast base))) (\<lambda>c.
           res_bind (arr_set buffer i c) (\<lambda>buffer'.
             let val' = val div ucast base
             in if val' \<noteq> 0 then uitoa_digits val' base (Suc i) buffer' else Inr (Suc i, buffer'))))"
  by pat_completeness auto
termination
  by (relation "measure (\<lambda>(val, base, i, buffer). length buffer - i)") (auto simp: res_simps)

declare uitoa_digits.simps [simp del]

text \<open>strlen over a buffer; a buffer with no NUL is read past its end.\<close>

fun strlen_buf :: "u8 list \<Rightarrow> nat res" where
  "strlen_buf [] = Inl OutOfBounds"
| "strlen_buf (c # cs) = (if c = 0 then Inr 0 else res_bind (strlen_buf cs) (\<lambda>n. Inr (Suc n)))"

text \<open>\<^verbatim>\<open>for (; i < length / 2; i++) swap buffer[i], buffer[length - 1 - i]\<close>\<close>

function reverse_loop :: "nat \<Rightarrow> nat \<Rightarrow> u8 list \<Rightarrow> u8 list res" where
  "reverse_loop i len buffer =
     (if i < len div 2 then
        res_bind (arr_get buffer i) (\<lambda>temp.
        res_bind (arr_get buffer (len - 1 - i)) (\<lambda>c.
        res_bind (arr_set buffer i c) (\<lambda>buffer'.
        res_bind (arr_set buffer' (len - 1 - i) temp) (\<lambda>buffer''.
          reverse_loop (Suc i) len buffer''))))
      else Inr buffer)"
  by pat_completeness auto
termination
  by (relation "measure (\<lambda>(i, len, buffer). len div 2 - i)") auto

declare reverse_loop.simps [simp del]

definition uitoa :: "u32 \<Rightarrow> u8 list \<Rightarrow> u8 \<Rightarrow> u8 list res" where
  "uitoa val buffer base =
     res_bind (uitoa_digits val base 0 buffer) (\<lambda>(i, buffer).
     res_bind (arr_set buffer i 0) (\<lambda>buffer.
     res_bind (strlen_buf buffer) (\<lambda>len.
     res_bind (reverse_loop 0 len buffer) (\<lambda>buffer.
       arr_set buffer len 0))))"

function uitoalpha_digits :: "u32 \<Rightarrow> nat \<Rightarrow> u8 list \<Rightarrow> (nat \<times> u8 list) res" where
  "uitoalpha_digits val i buffer =
     res_bind (arr_get alphabet (unat (val mod 26))) (\<lambda>c.
     res_bind (arr_set buffer i c) (\<lambda>buffer'.
       let val' = val div 26
       in if val' \<noteq> 0 then uitoalpha_digits val' (Suc i) buffer' else Inr (Suc i, buffer')))"
  by pat_completeness auto
termination
  by (relation "measure (\<lambda>(val, i, buffer). length buffer - i)") (auto simp: res_simps)

declare uitoalpha_digits.simps [simp del]

definition uitoalpha :: "u32 \<Rightarrow> u8 list \<Rightarrow> u8 list res" where
  "uitoalpha val buffer =
     res_bind (uitoalpha_digits val 0 buffer) (\<lambda>(i, buffer).
     res_bind (arr_set buffer i 0) (\<lambda>buffer.
     res_bind (strlen_buf buffer) (\<lambda>len.
       reverse_loop 0 len buffer)))"

text \<open>
  itoa divides signed values: C truncates towards zero.  A negative value has been negated, so
  only \<^verbatim>\<open>INT_MIN\<close> is still negative in the loop, and its remainder is a negative index.
\<close>

definition c_div :: "int \<Rightarrow> int \<Rightarrow> int" where
  "c_div a b = sgn a * sgn b * (\<bar>a\<bar> div \<bar>b\<bar>)"

definition c_mod :: "int \<Rightarrow> int \<Rightarrow> int" where
  "c_mod a b = a - b * c_div a b"

function itoa_digits :: "u32 \<Rightarrow> u8 \<Rightarrow> nat \<Rightarrow> u8 list \<Rightarrow> (nat \<times> u8 list) res" where
  "itoa_digits val base i buffer =
     (let r = c_mod (sint val) (uint base)
      in if r < 0 then Inl OutOfBounds
         else res_bind (arr_get hexes (nat r)) (\<lambda>c.
              res_bind (arr_set buffer i c) (\<lambda>buffer'.
                let val' = word_of_int (c_div (sint val) (uint base))
                in if val' \<noteq> 0 then itoa_digits val' base (Suc i) buffer'
                   else Inr (Suc i, buffer'))))"
  by pat_completeness auto
termination
  by (relation "measure (\<lambda>(val, base, i, buffer). length buffer - i)") (auto simp: res_simps)

declare itoa_digits.simps [simp del]

definition itoa :: "u32 \<Rightarrow> u8 list \<Rightarrow> u8 \<Rightarrow> u8 list res" where
  "itoa val buffer base =
     (if base \<le> 1 \<or> base \<ge> 17 then Inr buffer
      else
        let neg = sint val < 0; val = (if neg then - val else val) in
        res_bind (itoa_digits val base 0 buffer) (\<lambda>(i, buffer).
        res_bind (if base = 16
                  then res_bind (arr_set buffer i 120) (\<lambda>b.
                       res_bind (arr_set b (Suc i) 48) (\<lambda>b. Inr (i + 2, b)))
                  else Inr (i, buffer)) (\<lambda>(i, buffer).
        res_bind (if neg then res_bind (arr_set buffer i 45) (\<lambda>b. Inr (Suc i, b))
                  else Inr (i, buffer)) (\<lambda>(i, buffer).
        res_bind (arr_set buffer i 0) (\<lambda>buffer.
        res_bind (strlen_buf buffer) (\<lambda>len.
        res_bind (reverse_loop 0 len buffer) (\<lambda>buffer.
          arr_set buffer len 0)))))))"

section \<open>Text to number\<close>

text \<open>The character macros of utility.h, on a \<^verbatim>\<open>char\<close> promoted to \<^verbatim>\<open>int\<close>.\<close>

definition c_isdigit :: "int \<Rightarrow> bool" where "c_isdigit c \<longleftrightarrow> 48 \<le> c \<and> c \<le> 57"
definition c_isalpha :: "int \<Rightarrow> bool" where
  "c_isalpha c \<longleftrightarrow> 97 \<le> c \<and> c \<le> 122 \<or> 65 \<le> c \<and> c \<le> 90"
definition c_isupper :: "int \<Rightarrow> bool" where "c_isupper c \<longleftrightarrow> 65 \<le> c \<and> c \<le> 90"
definition c_islower :: "int \<Rightarrow> bool" where "c_islower c \<longleftrightarrow> 97 \<le> c \<and> c \<le> 122"
definition c_tolower :: "int \<Rightarrow> int" where "c_tolower c = (if c_isupper c then c + 32 else c)"
definition c_toupper :: "int \<Rightarrow> int" where "c_toupper c = (if c_islower c then c - 32 else c)"

text \<open>The value atoui_hex gives a character: a \<^verbatim>\<open>uint32_t\<close>, so it wraps below '0'.\<close>

definition hex_mult :: "u8 \<Rightarrow> u32" where
  "hex_mult c = (if c_isalpha (sint c) then word_of_int (10 + c_tolower (sint c) - 97)
     else word_of_int (sint c - 48))"

text \<open>The loops from index \<open>i\<close> on, with the number of rounds left.\<close>

primrec atoui_hex_loop :: "nat \<Rightarrow> u32 \<Rightarrow> u8 list \<Rightarrow> u32 \<Rightarrow> u32 \<Rightarrow> u32 res" where
  "atoui_hex_loop 0 i input len res = Inr res"
| "atoui_hex_loop (Suc n) i input len res =
     res_bind (arr_get input (unat i)) (\<lambda>c.
       atoui_hex_loop n (i + 1) input len (res + hex_mult c * pow_u32 16 (len - 1 - i)))"

definition atoui_hex :: "u8 list \<Rightarrow> u16 \<Rightarrow> u32 res" where
  "atoui_hex input len = atoui_hex_loop (unat len) 0 input (ucast len) 0"

primrec atoui_dec_loop :: "nat \<Rightarrow> u32 \<Rightarrow> u8 list \<Rightarrow> u32 \<Rightarrow> u32 \<Rightarrow> u32 res" where
  "atoui_dec_loop 0 i input len res = Inr res"
| "atoui_dec_loop (Suc n) i input len res =
     res_bind (arr_get input (unat i)) (\<lambda>c.
       atoui_dec_loop n (i + 1) input len
         (res + word_of_int (sint c - 48) * pow_u32 10 (len - 1 - i)))"

definition atoui_dec :: "u8 list \<Rightarrow> u16 \<Rightarrow> u32 res" where
  "atoui_dec input len = atoui_dec_loop (unat len) 0 input (ucast len) 0"

definition atoui :: "u8 list \<Rightarrow> u32 res" where
  "atoui input =
     res_bind (arr_get input 0) (\<lambda>c0.
     res_bind (if sint c0 = 48 then res_bind (arr_get input 1) (\<lambda>c1. Inr (c_tolower (sint c1) = 120))
               else Inr False) (\<lambda>hex.
     res_bind (strlen_buf input) (\<lambda>n.
       if hex then atoui_hex (drop 2 input) (of_nat n - 2) else atoui_dec input (of_nat n))))"

end
