(* ===== verification/Libk_Digits.thy ===== *)
theory Libk_Digits
  imports Libk_Utility
begin

text \<open>
  What the number conversions of \<^verbatim>\<open>libk/utility.c\<close> compute: the digits of a number in
  a base (\<open>digs\<close>, least significant first), that \<open>uitoa\<close> writes them most significant
  first, exactly when the buffer has room, and that \<open>atoui_dec\<close> and \<open>atoui_hex\<close> read
  them back.
\<close>

unbundle bit_operations_syntax

section \<open>Digits\<close>

fun digs :: "nat \<Rightarrow> nat \<Rightarrow> nat list" where
  "digs b v = (if b \<le> 1 \<or> v < b then [v] else (v mod b) # digs b (v div b))"

declare digs.simps [simp del]

lemma digs_less: "v < b \<Longrightarrow> digs b v = [v]"
  by (simp add: digs.simps)

lemma digs_step: "2 \<le> b \<Longrightarrow> b \<le> v \<Longrightarrow> digs b v = (v mod b) # digs b (v div b)"
  by (subst digs.simps) simp

lemma digs_bound: "2 \<le> b \<Longrightarrow> d \<in> set (digs b v) \<Longrightarrow> d < b"
proof (induction b v rule: digs.induct)
  case (1 b v)
  then show ?case
    by (cases "v < b") (auto simp: digs_less digs_step)
qed

lemma digs_not_Nil [simp]: "digs b v \<noteq> []"
  by (subst digs.simps) simp

primrec value_lsf :: "nat \<Rightarrow> nat list \<Rightarrow> nat" where
  "value_lsf b [] = 0"
| "value_lsf b (d # ds) = d + b * value_lsf b ds"

lemma value_digs: "2 \<le> b \<Longrightarrow> value_lsf b (digs b v) = v"
proof (induction b v rule: digs.induct)
  case (1 b v)
  then show ?case by (cases "v < b") (auto simp: digs_less digs_step)
qed

lemma length_digs: "2 \<le> b \<Longrightarrow> v < b ^ Suc k \<Longrightarrow> length (digs b v) \<le> Suc k"
proof (induction k arbitrary: v)
  case 0
  then show ?case by (simp add: digs_less)
next
  case (Suc k)
  show ?case
  proof (cases "v < b")
    case True
    then show ?thesis by (simp add: digs_less)
  next
    case False
    have "v div b < b ^ Suc k" using Suc.prems by (simp add: div_less_iff_less_mult mult.commute)
    from Suc.IH [OF Suc.prems(1) this] False Suc.prems(1) show ?thesis by (simp add: digs_step)
  qed
qed

lemma length_digs_ge: "2 \<le> b \<Longrightarrow> b ^ k \<le> v \<Longrightarrow> k < length (digs b v)"
proof (induction k arbitrary: v)
  case 0
  then show ?case by simp
next
  case (Suc k)
  have "1 \<le> b ^ k" using Suc.prems(1) by simp
  then have "b * 1 \<le> b * b ^ k" by (rule mult_le_mono2)
  then have "b \<le> v" using le_trans Suc.prems(2) unfolding power_Suc mult_1_right by blast
  moreover have "b ^ k \<le> v div b"
    using Suc.prems by (simp add: less_eq_div_iff_mult_less_eq mult.commute)
  ultimately show ?case using Suc.IH Suc.prems(1) by (simp add: digs_step)
qed

section \<open>uitoa writes the digits\<close>

definition hexchar :: "nat \<Rightarrow> u8" where "hexchar d = hexes ! d"

lemma hexes_nth: "d < 16 \<Longrightarrow> arr_get hexes d = Inr (hexchar d)"
  by (simp add: hexchar_def hexes_def)

lemma hexchar_cases:
  assumes "d < 16"
  shows "hexchar d = (if d < 10 then 48 + of_nat d else 55 + of_nat d)"
proof -
  have "d \<in> set [0..<16]" using assms by simp
  moreover have "\<forall>d \<in> set [0..<16]. hexchar d = (if d < 10 then 48 + of_nat d else 55 + of_nat d)"
    by (simp add: upt_rec hexchar_def hexes_def)
  ultimately show ?thesis by blast
qed

lemma hexchar_nonzero: "d < 16 \<Longrightarrow> hexchar d \<noteq> 0"
proof -
  assume "d < 16"
  then have "d \<in> set [0..<16]" by simp
  moreover have "\<forall>d \<in> set [0..<16]. hexchar d \<noteq> 0" by (simp add: upt_rec hexchar_def hexes_def)
  ultimately show ?thesis by blast
qed

lemma unat_ucast_u8_u32: "unat (ucast (b::u8) :: u32) = unat b"
  using unat_u8_less [of b] by (simp add: unsigned_ucast_eq take_bit_nat_eq_self)

lemma overwrite_step:
  "i < length buf \<Longrightarrow> Suc i + length D \<le> length buf \<Longrightarrow>
   take (Suc i) (buf[i := c]) @ D @ drop (Suc i + length D) (buf[i := c]) =
   take i buf @ (c # D) @ drop (i + length (c # D)) buf"
  by (simp add: take_Suc_conv_app_nth)

lemma uitoa_digits_eq:
  assumes "2 \<le> unat base" "unat base \<le> 16"
  shows "i + length (digs (unat base) (unat val)) \<le> length buf \<Longrightarrow>
    uitoa_digits val base i buf = Inr (i + length (digs (unat base) (unat val)),
      take i buf @ map hexchar (digs (unat base) (unat val)) @
      drop (i + length (digs (unat base) (unat val))) buf)"
proof (induction "digs (unat base) (unat val)" arbitrary: val i buf)
  case Nil
  then show ?case using digs_not_Nil by metis
next
  case (Cons d ds)
  let ?b = "unat base" and ?v = "unat val"
  have nz: "base \<noteq> 0" using assms by auto
  have md: "unat (val mod ucast base) = ?v mod ?b" "unat (val div ucast base) = ?v div ?b"
    by (simp_all add: unat_mod unat_div unat_ucast_u8_u32)
  have len: "i < length buf" using Cons.hyps(2) Cons.prems by (metis le_trans length_greater_0_conv
        less_add_same_cancel1 digs_not_Nil order_less_le_trans)
  have dig: "?v mod ?b < 16" using assms mod_less_divisor [of ?b ?v] by linarith
  have zero: "val div ucast base = 0 \<longleftrightarrow> ?v < ?b"
    using md(2) assms by (simp add: word_unat_eq_iff div_eq_0_iff)
  show ?case
  proof (cases "?v < ?b")
    case True
    then have z: "val div ucast base = 0" and g: "digs ?b ?v = [?v]" by (simp_all add: zero digs_less)
    from len show ?thesis
      by (subst uitoa_digits.simps)
        (simp add: nz md True z g hexes_nth dig [unfolded mod_less [OF True]] take_Suc_conv_app_nth upd_conv_take_nth_drop)
  next
    case False
    then have g: "digs ?b ?v = (?v mod ?b) # digs ?b (?v div ?b)"
      using assms by (simp add: digs_step)
    with Cons.hyps(2) have ds: "ds = digs ?b (unat (val div ucast base))" by (simp add: md)
    from False have z: "val div ucast base \<noteq> 0" by (simp add: zero)
    have fit: "Suc i + length (digs ?b (unat (val div ucast base))) \<le> length (buf[i := hexchar (?v mod ?b)])"
      using Cons.prems by (simp add: g md)
    have "uitoa_digits val base i buf =
        uitoa_digits (val div ucast base) base (Suc i) (buf[i := hexchar (?v mod ?b)])"
      using len by (subst uitoa_digits.simps) (simp add: nz md hexes_nth dig z Let_def)
    also note Cons.hyps(1) [OF ds fit]
    finally show ?thesis
      using fit len overwrite_step [of i buf "map hexchar (digs ?b (?v div ?b))" "hexchar (?v mod ?b)"]
      by (simp add: md g)
  qed
qed

section \<open>uitoa\<close>

lemma strlen_prefix:
  "0 \<notin> set cs \<Longrightarrow> strlen_buf (cs @ 0 # rest) = Inr (length cs)"
  by (induction cs) auto

lemma strlen_eq_InrD:
  "strlen_buf buf = Inr n \<Longrightarrow> n < length buf \<and> buf ! n = 0 \<and> 0 \<notin> set (take n buf)"
proof (induction buf arbitrary: n rule: strlen_buf.induct)
  case (2 c cs)
  then show ?case by (cases n) (auto simp: res_simps split: if_splits)
qed simp

lemma reverse_loop_inv:
  assumes "i \<le> length xs div 2"
  shows "reverse_loop i (length xs) (rev (drop (length xs - i) xs) @ drop i (take (length xs - i) xs) @
      rev (take i xs) @ rest) = Inr (rev xs @ rest)"
  using assms
proof (induction "length xs div 2 - i" arbitrary: i)
  case 0
  then have i: "i = length xs div 2" by simp
  have "rev (drop (length xs - i) xs) @ drop i (take (length xs - i) xs) @ rev (take i xs) = rev xs"
  proof (cases "even (length xs)")
    case True
    then have "length xs - i = i" using i by auto
    then show ?thesis by (simp flip: rev_append)
  next
    case False
    then have l: "length xs - i = Suc i" "i < length xs" using i by (auto elim!: oddE)
    have "rev xs = rev (take i xs @ xs ! i # drop (Suc i) xs)" by (simp add: id_take_nth_drop [OF l(2), symmetric])
    then show ?thesis using l by (simp add: take_Suc_conv_app_nth)
  qed
  then show ?case using i by (subst reverse_loop.simps) (simp add: append_assoc [symmetric] del: append_assoc)
next
  case (Suc k)
  define j where "j = length xs - 1 - i"
  have ij: "i < j" "j < length xs" "i < length xs" "length xs - i = Suc j" "length xs - Suc i = j"
    using Suc.hyps(2) by (auto simp: j_def)
  define mid where "mid = drop (Suc i) (take j xs)"
  have m: "drop i (take (length xs - i) xs) = xs ! i # mid @ [xs ! j]"
    using ij by (simp add: mid_def take_Suc_conv_app_nth Cons_nth_drop_Suc [symmetric])
  have la: "length (rev (drop (length xs - i) xs)) = i" and lm: "length mid = j - Suc i"
    using ij by (auto simp: mid_def)
  let ?a = "rev (drop (length xs - i) xs)" and ?z = "rev (take i xs)"
  have d: "rev (drop j xs) = ?a @ [xs ! j]" "rev (take (Suc i) xs) = xs ! i # ?z"
    using ij by (simp_all add: Cons_nth_drop_Suc [symmetric] take_Suc_conv_app_nth)
  have n1: "(?a @ xs ! i # mid @ xs ! j # ?z @ rest) ! i = xs ! i"
    using la by (metis nth_append_length)
  have lj: "length (?a @ xs ! i # mid) = j" and lj2: "length (?a @ xs ! j # mid) = j"
    using la lm ij(1) by simp_all
  have n2: "(?a @ xs ! i # mid @ xs ! j # ?z @ rest) ! j = xs ! j"
    using nth_append_length [of "?a @ xs ! i # mid" "xs ! j" "?z @ rest"] unfolding lj by simp
  have u1: "(?a @ xs ! i # mid @ xs ! j # ?z @ rest)[i := xs ! j] = ?a @ xs ! j # mid @ xs ! j # ?z @ rest"
    using list_update_length [of ?a "xs ! i" "mid @ xs ! j # ?z @ rest" "xs ! j"] la by simp
  have u2: "(?a @ xs ! j # mid @ xs ! j # ?z @ rest)[j := xs ! i] = ?a @ xs ! j # mid @ xs ! i # ?z @ rest"
    using list_update_length [of "?a @ xs ! j # mid" "xs ! j" "?z @ rest" "xs ! i"] unfolding lj2 by simp
  have lt: "j < length (?a @ xs ! i # mid @ xs ! j # ?z @ rest)" "i < length (?a @ xs ! i # mid @ xs ! j # ?z @ rest)"
    "j < length (?a @ xs ! j # mid @ xs ! j # ?z @ rest)"
    using la lm ij by auto
  have lt0: "i < length xs div 2" using Suc.hyps(2) by simp
  have "reverse_loop i (length xs) (?a @ xs ! i # mid @ xs ! j # ?z @ rest) =
      reverse_loop (Suc i) (length xs) (?a @ xs ! j # mid @ xs ! i # ?z @ rest)"
    using lt0 lt
    by (subst reverse_loop.simps) (simp only: arr_get_ok arr_set_ok res_bind_Inr n1 n2 u1 u2 j_def [symmetric] if_True)
  also have "\<dots> = Inr (rev xs @ rest)"
  proof -
    have "k = length xs div 2 - Suc i" "Suc i \<le> length xs div 2" using Suc.hyps(2) by auto
    from Suc.hyps(1) [OF this] show ?thesis by (simp add: d ij(5) mid_def)
  qed
  finally show ?case by (simp add: m)
qed

lemma reverse_loop_eq: "reverse_loop 0 (length xs) (xs @ rest) = Inr (rev xs @ rest)"
  using reverse_loop_inv [of 0 xs rest] by simp

lemma uitoa_eq:
  fixes base :: u8
  assumes b: "2 \<le> unat base" "unat base \<le> 16"
    and fit: "length (digs (unat base) (unat val)) < length buf"
  shows "uitoa val buf base = Inr (rev (map hexchar (digs (unat base) (unat val))) @
    0 # drop (Suc (length (digs (unat base) (unat val)))) buf)"
proof -
  define ds where "ds = map hexchar (digs (unat base) (unat val))"
  define n where "n = length (digs (unat base) (unat val))"
  have n: "length ds = n" "n < length buf" using fit by (simp_all add: ds_def n_def)
  have dig: "uitoa_digits val base 0 buf = Inr (n, ds @ drop n buf)"
    using uitoa_digits_eq [OF b, of 0 val buf] fit by (simp add: ds_def n_def)
  have nz: "0 \<notin> set ds"
  proof
    assume "0 \<in> set ds"
    then obtain d where "d \<in> set (digs (unat base) (unat val))" "hexchar d = 0" by (auto simp: ds_def)
    then show False using digs_bound [OF b(1)] b(2) hexchar_nonzero [of d] less_le_trans by metis
  qed
  have "(ds @ drop n buf)[n := 0] = ds @ 0 # drop (Suc n) buf"
    using n by (simp add: list_update_append Cons_nth_drop_Suc [symmetric])
  then show ?thesis
    using dig n strlen_prefix [OF nz, of "drop (Suc n) buf"] reverse_loop_eq [of ds "0 # drop (Suc n) buf"]
    by (simp add: uitoa_def nth_append list_update_append ds_def [symmetric] n_def [symmetric])
qed

section \<open>Reading the digits back\<close>

text \<open>The value of digits, most significant first, in 32 bits.\<close>

lemma value_lsf_append: "value_lsf b (xs @ ys) = value_lsf b xs + b ^ length xs * value_lsf b ys"
  by (induction xs) (simp_all add: algebra_simps)

lemma dec_digit: "d < 10 \<Longrightarrow> (word_of_int (sint (hexchar d) - 48) :: u32) = of_nat d"
proof -
  assume "d < 10"
  then have "d \<in> set [0..<10]" by simp
  moreover have "\<forall>d \<in> set [0..<10]. (word_of_int (sint (hexchar d) - 48) :: u32) = of_nat d"
    by (simp add: upt_rec hexchar_def hexes_def)
  ultimately show ?thesis by blast
qed

lemma hex_digit: "d < 16 \<Longrightarrow> hex_mult (hexchar d) = of_nat d"
proof -
  assume "d < 16"
  then have "d \<in> set [0..<16]" by simp
  moreover have "\<forall>d \<in> set [0..<16]. hex_mult (hexchar d) = of_nat d"
    by (simp add: upt_rec hexchar_def hexes_def hex_mult_def c_isalpha_def c_tolower_def c_isupper_def)
  ultimately show ?thesis by blast
qed

text \<open>Both loops are one loop, with the digit's value and the base as parameters.\<close>

primrec base_loop :: "(u8 \<Rightarrow> u32) \<Rightarrow> u32 \<Rightarrow> nat \<Rightarrow> u32 \<Rightarrow> u8 list \<Rightarrow> u32 \<Rightarrow> u32 \<Rightarrow> u32 res" where
  "base_loop f b 0 i input len res = Inr res"
| "base_loop f b (Suc n) i input len res =
     res_bind (arr_get input (unat i)) (\<lambda>c.
       base_loop f b n (i + 1) input len (res + f c * pow_u32 b (len - 1 - i)))"

lemma atoui_dec_loop_base:
  "atoui_dec_loop n i input len res = base_loop (\<lambda>c. word_of_int (sint c - 48)) 10 n i input len res"
  by (induction n arbitrary: i res) simp_all

lemma atoui_hex_loop_base: "atoui_hex_loop n i input len res = base_loop hex_mult 16 n i input len res"
  by (induction n arbitrary: i res) simp_all

lemma base_loop_eq:
  assumes dig: "\<And>d. d \<in> set ds \<Longrightarrow> f (hexchar d) = of_nat d"
  shows "length ds = k + n \<Longrightarrow> length ds < 65536 \<Longrightarrow>
    base_loop f (of_nat b) n (of_nat k) (map hexchar ds @ rest) (of_nat (length ds)) res =
    Inr (res + of_nat (value_lsf b (rev (drop k ds))))"
proof (induction n arbitrary: k res)
  case 0
  then show ?case by simp
next
  case (Suc n)
  have k: "k < length ds" "k < 4294967296" "n < 4294967296" using Suc.prems by auto
  have d: "drop k ds = ds ! k # drop (Suc k) ds" "length (drop (Suc k) ds) = n"
    using k(1) Suc.prems by (auto simp: Cons_nth_drop_Suc)
  have e: "(of_nat (length ds) - 1 - of_nat k :: u32) = of_nat n"
    using Suc.prems(1) by (simp add: algebra_simps)
  have p: "pow_u32 (of_nat b) (of_nat n) = of_nat (b ^ n)" using k by (simp add: pow_u32_eq)
  have st: "(of_nat k + 1 :: u32) = of_nat (Suc k)" by simp
  have "base_loop f (of_nat b) (Suc n) (of_nat k) (map hexchar ds @ rest) (of_nat (length ds)) res =
      base_loop f (of_nat b) n (of_nat (Suc k)) (map hexchar ds @ rest) (of_nat (length ds))
        (res + of_nat (ds ! k) * of_nat (b ^ n))"
    using k by (simp add: nth_append e p dig del: of_nat_Suc of_nat_power)
      (simp add: st del: of_nat_Suc)
  also have "\<dots> = Inr (res + of_nat (ds ! k) * of_nat (b ^ n) + of_nat (value_lsf b (rev (drop (Suc k) ds))))"
    using Suc.prems by (intro Suc.IH) simp_all
  also have "\<dots> = Inr (res + of_nat (value_lsf b (rev (drop k ds))))"
    using d by (simp add: value_lsf_append)
  finally show ?case .
qed

text \<open>What uitoa wrote, both readers read back; \<open>len\<close> is the length strlen finds.\<close>

definition uitoa_text :: "nat \<Rightarrow> u32 \<Rightarrow> u8 list" where
  "uitoa_text b val = map hexchar (rev (digs b (unat val)))"

lemma length_uitoa_text [simp]: "length (uitoa_text b val) = length (digs b (unat val))"
  by (simp add: uitoa_text_def)

lemma uitoa_text_nonzero: "2 \<le> b \<Longrightarrow> b \<le> 16 \<Longrightarrow> 0 \<notin> set (uitoa_text b val)"
proof
  assume b: "2 \<le> b" "b \<le> 16" and "0 \<in> set (uitoa_text b val)"
  then obtain d where "d \<in> set (digs b (unat val))" "hexchar d = 0" by (auto simp: uitoa_text_def)
  then show False using digs_bound [OF b(1)] b(2) hexchar_nonzero [of d] less_le_trans by metis
qed

lemma uitoa_eq_text:
  fixes base :: u8
  assumes "2 \<le> unat base" "unat base \<le> 16" "length (digs (unat base) (unat val)) < length buf"
  shows "uitoa val buf base = Inr (uitoa_text (unat base) val @
    0 # drop (Suc (length (digs (unat base) (unat val)))) buf)"
  using uitoa_eq [OF assms] by (simp add: uitoa_text_def rev_map)

lemma length_digs_u32:
  "length (digs 10 (unat (v::u32))) \<le> 10" "length (digs 16 (unat v)) \<le> 8" "length (digs 2 (unat v)) \<le> 32"
  using unat_u32_less [of v] length_digs [of 10 "unat v" 9] length_digs [of 16 "unat v" 7]
    length_digs [of 2 "unat v" 31] by simp_all

lemma base_loop_text:
  assumes "2 \<le> b" "b \<le> 16" "\<And>d. d < b \<Longrightarrow> f (hexchar d) = of_nat d" "length (digs b (unat val)) < 65536"
  shows "base_loop f (of_nat b) (length (digs b (unat val))) 0 (uitoa_text b val @ rest)
    (of_nat (length (digs b (unat val)))) 0 = Inr val"
proof -
  have "f (hexchar d) = of_nat d" if "d \<in> set (rev (digs b (unat val)))" for d
    using that assms(3) digs_bound [OF assms(1)] by auto
  from base_loop_eq [OF this, of "rev (digs b (unat val))" 0 "length (digs b (unat val))" b rest 0] assms
  show ?thesis by (simp add: uitoa_text_def value_digs)
qed

lemma atoui_dec_text: "atoui_dec (uitoa_text 10 val @ rest) (of_nat (length (digs 10 (unat val)))) = Inr val"
proof -
  let ?n = "length (digs 10 (unat val))"
  have n: "?n \<le> 10" by (rule length_digs_u32)
  then have "unat (of_nat ?n :: u16) = ?n" "(ucast (of_nat ?n :: u16) :: u32) = of_nat ?n"
    by (simp_all add: unat_of_nat unsigned_of_nat take_bit_nat_eq_self)
  with n show ?thesis
    using base_loop_text [of 10 "\<lambda>c. word_of_int (sint c - 48)" val rest] dec_digit
    by (simp add: atoui_dec_def atoui_dec_loop_base)
qed

lemma atoui_hex_text: "atoui_hex (uitoa_text 16 val @ rest) (of_nat (length (digs 16 (unat val)))) = Inr val"
proof -
  let ?n = "length (digs 16 (unat val))"
  have n: "?n \<le> 8" by (rule length_digs_u32)
  then have "unat (of_nat ?n :: u16) = ?n" "(ucast (of_nat ?n :: u16) :: u32) = of_nat ?n"
    by (simp_all add: unat_of_nat unsigned_of_nat take_bit_nat_eq_self)
  with n show ?thesis
    using base_loop_text [of 16 hex_mult val rest] hex_digit
    by (simp add: atoui_hex_def atoui_hex_loop_base)
qed

section \<open>itoa\<close>

lemma sint_eq_uint_small: "0 \<le> sint (v::u32) \<Longrightarrow> sint v = uint v"
proof -
  assume "0 \<le> sint v"
  moreover have "sint v < 2 ^ 32" using sint_lt [of v] by simp
  ultimately show ?thesis using uint_sint [of v] by (simp add: take_bit_int_eq_self)
qed

lemma c_div_mod_nonneg:
  "0 \<le> a \<Longrightarrow> 0 < b \<Longrightarrow> c_div a b = a div b" "0 \<le> a \<Longrightarrow> 0 < b \<Longrightarrow> c_mod a b = a mod b"
  by (auto simp: c_div_def c_mod_def minus_mult_div_eq_mod sgn_if)

lemma uint_ucast_u8_u32: "uint (ucast (b::u8) :: u32) = uint b"
  by (metis unat_ucast_u8_u32 uint_nat)

lemma itoa_digits_nonneg:
  "0 \<le> sint val \<Longrightarrow> base \<noteq> 0 \<Longrightarrow> itoa_digits val base i buf = uitoa_digits val base i buf"
proof (induction "length buf - i" arbitrary: val i buf rule: less_induct)
  case less
  have b: "0 < uint base" using less.prems(2) by (simp add: word_neq_0_conv word_less_def)
  have s: "sint val = uint val" using less.prems(1) by (rule sint_eq_uint_small)
  have md: "c_mod (sint val) (uint base) = uint (val mod ucast base)"
    "word_of_int (c_div (sint val) (uint base)) = val div ucast base"
    using b by (simp_all add: s c_div_mod_nonneg uint_mod uint_div uint_ucast_u8_u32 word_div_def)
  have sd: "0 \<le> sint (val div ucast base)"
  proof -
    have "uint val < 2 ^ 31" using s sint_lt [of val] by simp
    then have "int (unat val) < int (2 ^ 31)" by simp
    then have "unat val < 2 ^ 31" by (simp only: of_nat_less_iff)
    moreover have "unat (val div ucast base) \<le> unat val" unfolding unat_div by (rule div_le_dividend)
    ultimately have "unat (val div ucast base) < 2 ^ 31" by (rule le_less_trans [rotated])
    from sint_nonneg_small [OF this] show ?thesis by simp
  qed
  have idx: "nat (uint (val mod ucast base)) = unat (val mod ucast base)" by (simp only: unat_eq_nat_uint)
  have ih: "itoa_digits (val div ucast base) base (Suc i) (buf[i := c]) =
      uitoa_digits (val div ucast base) base (Suc i) (buf[i := c])" if "i < length buf" for c
    using less.hyps [OF _ sd less.prems(2)] that by simp
  show ?case
  proof (cases "i < length buf")
    case True
    show ?thesis
      using less.prems(2)
      by (subst itoa_digits.simps, subst uitoa_digits.simps) (simp add: md idx True ih Let_def cong: if_cong)
  next
    case False
    show ?thesis
      using less.prems(2)
      by (subst itoa_digits.simps, subst uitoa_digits.simps) (simp add: md idx False arr_set_def Let_def)
  qed
qed

lemma itoa_digits_int_min:
  "0 < length buf \<Longrightarrow> itoa_digits 0x80000000 10 0 buf = Inl OutOfBounds"
  by (subst itoa_digits.simps) (simp add: c_mod_def c_div_def)

lemma itoa_nonneg:
  assumes v: "0 \<le> sint val" and len: "10 < length buf"
  shows "itoa val buf 10 =
    Inr (uitoa_text 10 val @ 0 # drop (Suc (length (digs 10 (unat val)))) buf)"
proof -
  have "length (digs 10 (unat val)) < length buf" using length_digs_u32(1) [of val] len by linarith
  then have "uitoa val buf 10 = Inr (uitoa_text 10 val @ 0 # drop (Suc (length (digs 10 (unat val)))) buf)"
    using uitoa_eq_text [of 10 val buf] by simp
  then show ?thesis
    using v itoa_digits_nonneg [of val 10 0 buf]
    by (simp add: itoa_def uitoa_def word_le_nat_alt)
qed

lemma itoa_int_min: "0 < length buf \<Longrightarrow> itoa 0x80000000 buf 10 = Inl OutOfBounds"
proof -
  assume len: "0 < length buf"
  have "- (0x80000000 :: u32) = 0x80000000" by simp
  then show ?thesis using itoa_digits_int_min [OF len]
    by (simp only: itoa_def) (simp add: word_le_nat_alt)
qed

lemma sint_minus_u32: "sint (v::u32) < 0 \<Longrightarrow> v \<noteq> 0x80000000 \<Longrightarrow> 0 \<le> sint (- v)"
proof -
  assume neg: "sint v < 0" and nm: "v \<noteq> 0x80000000"
  have "sint v \<noteq> - 2147483648"
  proof
    assume "sint v = - 2147483648"
    then have "word_of_int (sint v) = (word_of_int (- 2147483648) :: u32)" by (rule arg_cong)
    then show False using nm by simp
  qed
  then have "sint v > - 2147483648" using sint_ge [of v] by simp
  then have "sint (- v) = - sint v" using neg
    by (simp add: sint_word_minus signed_take_bit_int_eq_self)
  then show ?thesis using neg by simp
qed

lemma itoa_neg:
  assumes v: "sint val < 0" and len: "11 < length buf" and nm: "val \<noteq> 0x80000000"
  shows "itoa val buf 10 =
    Inr (45 # uitoa_text 10 (- val) @ 0 # drop (Suc (Suc (length (digs 10 (unat (- val)))))) buf)"
proof -
  define ds where "ds = map hexchar (digs 10 (unat (- val)))"
  define n where "n = length (digs 10 (unat (- val)))"
  have n: "length ds = n" "n \<le> 10" using length_digs_u32(1) [of "- val"] by (simp_all add: ds_def n_def)
  have "itoa_digits (- val) 10 0 buf = uitoa_digits (- val) 10 0 buf"
    using itoa_digits_nonneg [OF sint_minus_u32 [OF v nm]] by simp
  also have "\<dots> = Inr (n, ds @ drop n buf)"
    using uitoa_digits_eq [of 10 0 "- val" buf] n len by (simp add: ds_def n_def)
  finally have dig: "itoa_digits (- val) 10 0 buf = Inr (n, ds @ drop n buf)" .
  have nz: "0 \<notin> set (ds @ [45])"
    using uitoa_text_nonzero [of 10 "- val"] by (simp add: ds_def uitoa_text_def)
  have w: "(ds @ drop n buf)[n := 45, Suc n := 0] = (ds @ [45]) @ 0 # drop (Suc (Suc n)) buf"
    using n len by (simp add: list_update_append Cons_nth_drop_Suc [symmetric])
  have "itoa val buf 10 = Inr (rev (ds @ [45]) @ 0 # drop (Suc (Suc n)) buf)"
    using v dig n len w strlen_prefix [OF nz, of "drop (Suc (Suc n)) buf"]
      reverse_loop_eq [of "ds @ [45]" "0 # drop (Suc (Suc n)) buf"]
    by (simp add: itoa_def word_le_nat_alt nth_append list_update_append)
  then show ?thesis by (simp add: ds_def n_def uitoa_text_def rev_map)
qed

lemma atoui_dec_dispatch:
  assumes len: "strlen_buf (uitoa_text 10 val @ 0 # r) = Inr n"
  shows "atoui (uitoa_text 10 val @ 0 # r) = atoui_dec (uitoa_text 10 val @ 0 # r) (of_nat n)"
proof -
  obtain d ds where ds: "rev (digs 10 (unat val)) = d # ds"
    by (metis digs_not_Nil list.exhaust rev_is_Nil_conv)
  have t: "uitoa_text 10 val = hexchar d # map hexchar ds" by (simp add: uitoa_text_def ds)
  have digit: "c_tolower (sint (hexchar x)) \<noteq> 120" if "x < 10" for x
  proof -
    have "\<forall>x \<in> set [0..<10]. c_tolower (sint (hexchar x)) \<noteq> 120"
      by (simp add: upt_rec hexchar_def hexes_def c_tolower_def c_isupper_def)
    then show ?thesis using that by simp
  qed
  have "\<exists>c1. arr_get (uitoa_text 10 val @ 0 # r) 1 = Inr c1 \<and> c_tolower (sint c1) \<noteq> 120"
  proof (cases ds)
    case Nil
    then show ?thesis by (simp add: t c_tolower_def c_isupper_def)
  next
    case (Cons e es)
    then have "e \<in> set (digs 10 (unat val))" using ds by (metis list.set_intros(1,2) set_rev)
    then have "e < 10" using digs_bound [of 10 e "unat val"] by simp
    with Cons digit show ?thesis by (simp add: t)
  qed
  then show ?thesis using len by (auto simp: atoui_def t)
qed

lemma atoui_hex_dispatch:
  assumes len: "strlen_buf b = Inr n"
  shows "atoui (48 # 120 # b) = atoui_hex b (of_nat n)"
  using len by (simp add: atoui_def c_tolower_def c_isupper_def)

end
