(* ===== verification/Libk_String.thy ===== *)
theory Libk_String
  imports Libk_Digits
begin

text \<open>
  \<^verbatim>\<open>libk/string.c\<close>.  A C string is a buffer of bytes, the string ending at its first NUL;
  a pointer moving along a string is the rest of the buffer.  Reading or writing past the buffer
  is \<open>OutOfBounds\<close>.  \<^verbatim>\<open>char\<close> is signed: comparisons with promoted characters use
  \<open>sint\<close>, the final difference of strcmp is of unsigned bytes.
\<close>

section \<open>Operations\<close>

text \<open>\<^verbatim>\<open>while(*s1 && (*s1==*s2)) s1++,s2++;\<close>\<close>

fun strcmp :: "u8 list \<Rightarrow> u8 list \<Rightarrow> int res" where
  "strcmp (a # as) (b # bs) = (if a \<noteq> 0 \<and> a = b then strcmp as bs else Inr (uint a - uint b))"
| "strcmp _ _ = Inl OutOfBounds"

text \<open>\<^verbatim>\<open>while (!(res = tolower(*s1) - tolower(*s2)) && *s2)\<close>, then the sign of res.\<close>

fun strcmp_insensitive :: "u8 list \<Rightarrow> u8 list \<Rightarrow> int res" where
  "strcmp_insensitive (a # as) (b # bs) =
     (let res = c_tolower (sint a) - c_tolower (sint b) in
      if res = 0 \<and> b \<noteq> 0 then strcmp_insensitive as bs
      else Inr (if res < 0 then - 1 else if res > 0 then 1 else res))"
| "strcmp_insensitive _ _ = Inl OutOfBounds"

text \<open>\<^verbatim>\<open>while ((*destination = *s)) destination++, s++;\<close>, the destination at offset \<open>i\<close>.\<close>

fun strcpy_at :: "nat \<Rightarrow> u8 list \<Rightarrow> u8 list \<Rightarrow> u8 list res" where
  "strcpy_at i dest [] = Inl OutOfBounds"
| "strcpy_at i dest (c # cs) =
     res_bind (arr_set dest i c) (\<lambda>dest. if c = 0 then Inr dest else strcpy_at (Suc i) dest cs)"

definition strcpy :: "u8 list \<Rightarrow> u8 list \<Rightarrow> u8 list res" where
  "strcpy dest source = strcpy_at 0 dest source"

definition strcpy_s :: "u8 list \<Rightarrow> u32 \<Rightarrow> u8 list \<Rightarrow> (u8 \<times> u8 list) res" where
  "strcpy_s dest destsz source =
     res_bind (strlen_buf source) (\<lambda>len.
       if of_nat len > destsz then Inr (1, dest)
       else res_bind (strcpy dest source) (\<lambda>dest. Inr (0, dest)))"

text \<open>The answer is the offset of the character, \<open>None\<close> the null pointer.\<close>

fun strchr_at :: "nat \<Rightarrow> u8 list \<Rightarrow> int \<Rightarrow> nat option res" where
  "strchr_at i [] c = Inl OutOfBounds"
| "strchr_at i (x # xs) c =
     (if x = 0 then Inr None else if sint x = c then Inr (Some i) else strchr_at (Suc i) xs c)"

definition strchr :: "u8 list \<Rightarrow> int \<Rightarrow> nat option res" where "strchr str c = strchr_at 0 str c"

fun strupper :: "u8 list \<Rightarrow> u8 list res" where
  "strupper [] = Inl OutOfBounds"
| "strupper (x # xs) =
     (if x = 0 then Inr (x # xs)
      else res_bind (strupper xs) (\<lambda>ys. Inr (word_of_int (c_toupper (sint x)) # ys)))"

section \<open>C strings\<close>

text \<open>\<open>c_string buf = Some s\<close>: the buffer holds the string \<open>s\<close>, ended by a NUL.\<close>

fun c_string :: "u8 list \<Rightarrow> u8 list option" where
  "c_string [] = None"
| "c_string (x # xs) = (if x = 0 then Some [] else map_option ((#) x) (c_string xs))"

lemma strlen_c_string:
  "strlen_buf buf = (case c_string buf of None \<Rightarrow> Inl OutOfBounds | Some s \<Rightarrow> Inr (length s))"
  by (induction buf) (auto split: option.splits)

lemma c_string_prefix: "0 \<notin> set s \<Longrightarrow> c_string (s @ 0 # rest) = Some s"
  by (induction s) auto

lemma c_string_SomeD: "c_string buf = Some s \<Longrightarrow> \<exists>rest. buf = s @ 0 # rest \<and> 0 \<notin> set s"
proof (induction buf arbitrary: s rule: c_string.induct)
  case (2 x xs)
  then show ?case by (cases "x = 0") auto
qed simp

text \<open>The order strcmp decides: the first byte that differs, a NUL being below every other.\<close>

fun lex_less :: "u8 list \<Rightarrow> u8 list \<Rightarrow> bool" where
  "lex_less _ [] = False"
| "lex_less [] (b # bs) = True"
| "lex_less (a # as) (b # bs) = (a < b \<or> a = b \<and> lex_less as bs)"

lemma strcmp_c_string:
  assumes "c_string a = Some s" "c_string b = Some t"
  shows "\<exists>r. strcmp a b = Inr r \<and> (r = 0 \<longleftrightarrow> s = t) \<and> (r < 0 \<longleftrightarrow> lex_less s t)"
  using assms
proof (induction a b arbitrary: s t rule: strcmp.induct)
  case (1 x xs y ys)
  consider "x = 0" "y = 0" | "x = 0" "y \<noteq> 0" | "x \<noteq> 0" "y = 0" | "x \<noteq> 0" "y \<noteq> 0" "x = y"
    | "x \<noteq> 0" "y \<noteq> 0" "x \<noteq> y" by blast
  then show ?case
  proof cases
    case 4
    with 1 show ?thesis by auto
  next
    case 2
    then have "0 < uint y" by (simp add: word_neq_0_conv word_less_def)
    with 2 1 show ?thesis by auto
  next
    case 3
    then have "0 < uint x" by (simp add: word_neq_0_conv word_less_def)
    with 3 1 show ?thesis by auto
  next
    case 5
    then have "uint x \<noteq> uint y" by (simp add: word_uint_eq_iff)
    with 5 1 show ?thesis by (auto simp: word_less_def)
  qed (use 1 in auto)
qed simp_all

lemma strcpy_at_fits:
  "0 \<notin> set s \<Longrightarrow> i + length s < length dest \<Longrightarrow>
   strcpy_at i dest (s @ 0 # rest) = Inr (take i dest @ s @ 0 # drop (Suc (i + length s)) dest)"
proof (induction s arbitrary: i dest)
  case Nil
  then show ?case by (simp add: upd_conv_take_nth_drop)
next
  case (Cons c s)
  then show ?case by (simp add: take_Suc_conv_app_nth)
qed

lemma strcpy_at_overflow:
  "0 \<notin> set s \<Longrightarrow> i \<le> length dest \<Longrightarrow> length dest \<le> i + length s \<Longrightarrow>
   strcpy_at i dest (s @ 0 # rest) = Inl OutOfBounds"
proof (induction s arbitrary: i dest)
  case Nil
  then show ?case by (simp add: arr_set_def)
next
  case (Cons c s)
  show ?case
  proof (cases "i < length dest")
    case True
    with Cons.IH [of "Suc i" "dest[i := c]"] Cons.prems show ?thesis by simp
  qed (simp add: arr_set_def)
qed

lemma strcpy_s_fits:
  assumes "c_string source = Some s" "length s < length dest" "length dest < 4294967296"
  shows "strcpy_s dest (of_nat (length dest)) source = Inr (0, s @ 0 # drop (Suc (length s)) dest)"
proof -
  obtain rest where r: "source = s @ 0 # rest" "0 \<notin> set s" using c_string_SomeD [OF assms(1)] by blast
  have "\<not> of_nat (length s) > (of_nat (length dest) :: u32)"
    using assms(2,3) by (simp add: word_less_nat_alt)
  with assms r strcpy_at_fits [OF r(2), of 0 dest rest] show ?thesis
    by (simp add: strcpy_s_def strcpy_def strlen_c_string)
qed

lemma strcpy_s_refuses:
  assumes "c_string source = Some s" "length dest < length s" "length s < 4294967296"
  shows "strcpy_s dest (of_nat (length dest)) source = Inr (1, dest)"
  using assms by (simp add: strcpy_s_def strlen_c_string word_less_nat_alt)

lemma strcpy_s_overruns:
  assumes "c_string source = Some s" "length s = length dest"
  shows "strcpy_s dest (of_nat (length dest)) source = Inl OutOfBounds"
proof -
  obtain rest where r: "source = s @ 0 # rest" "0 \<notin> set s" using c_string_SomeD [OF assms(1)] by blast
  with assms strcpy_at_overflow [OF r(2), of 0 dest rest] show ?thesis
    by (simp add: strcpy_s_def strcpy_def strlen_c_string)
qed

end
