(* ===== verification/Libk_Props.thy ===== *)
theory Libk_Props
  imports Spinlock Libk_Memory Libk_String
begin

text \<open>
  The properties of the support library \<^verbatim>\<open>libk\<close> and of the spinlock: the word-at-a-time
  memset and memcpy do what a byte loop does, numbers survive being printed and read, the
  printing of signed numbers with its one failing value, the string routines at the edge of the
  buffer, mutual exclusion and progress of the lock.
\<close>

unbundle bit_operations_syntax

section \<open>Memory\<close>

text \<open>
  memset, which stores words where it can, leaves the memory that storing \<open>len\<close> single
  bytes leaves, for every start address, value and length, wrap-around included.
\<close>

theorem memset_bytewise: "memset base v len m = memset_bytes (unat len) base v m"
proof
  fix a
  have "unat len < 2 ^ 32" using unat_u32_less [of len] by simp
  then show "memset base v len m a = memset_bytes (unat len) base v m a"
    by (simp only: memset_apply memset_bytes_apply)
qed

lemma far_apart:
  fixes s d len :: u32
  assumes "unat len \<le> unat (s - d)" "unat len \<le> unat (d - s)" "i < unat len"
  shows "\<not> unat (s - d + of_nat i) < unat len"
proof -
  define e where "e = s - d"
  have e: "e \<noteq> 0" using assms unfolding e_def by auto
  have "unat (0 - e) = 4294967296 - unat e"
    unfolding unat_sub_if_size using e by (simp add: word_size unsigned_eq_0_iff)
  moreover have "d - s = 0 - e" by (simp add: e_def)
  ultimately have "unat e + unat len \<le> 4294967296" using assms(2) unat_u32_less [of e] by simp
  then have "unat e + i < 4294967296" using assms(3) by linarith
  then have "unat (e + of_nat i) = unat e + i" by (simp add: unat_word_ariths unat_of_nat)
  then show ?thesis using assms(1) by (simp add: e_def)
qed

text \<open>
  memcpy, which copies words where it can, does what the byte loop does whenever the
  destination does not start inside the source; and then the destination holds what the source
  held, so that memcmp of the copy with an untouched source answers 0.
\<close>

theorem memcpy_bytewise:
  assumes "unat len \<le> unat (dest - source)"
  shows "memcpy dest source len m = memcpy_bytes (unat len) dest source m \<and>
    (unat len \<le> unat (source - dest) \<longrightarrow> memcmp dest source len (memcpy dest source len m) = 0)"
proof -
  have "memcpy dest source len m = memcpy_bytes (unat len) dest source m"
    using assms by (intro ext) (simp add: memcpy_apply memcpy_bytes_apply)
  moreover have "memcmp dest source len (memcpy dest source len m) = 0"
    if far: "unat len \<le> unat (source - dest)"
  proof -
    have "memcpy dest source len m (dest + of_nat i) = memcpy dest source len m (source + of_nat i)"
      if i: "i < unat len" for i
    proof -
      have u: "unat (of_nat i :: u32) = i" using i unat_u32_less [of len] by simp
      have "\<not> unat (source + of_nat i - dest) < unat len"
        using far_apart [OF far assms i] by (simp add: algebra_simps)
      with i u show ?thesis using assms by (simp add: memcpy_apply)
    qed
    then show ?thesis by (simp add: memcmp_eq_0)
  qed
  ultimately show ?thesis by blast
qed

theorem memcpy_bytewise_witness:
  "memcpy 0x2000 0x1000 7 ucast = memcpy_bytes (unat (7::u32)) 0x2000 0x1000 ucast \<and>
   memcmp 0x2000 0x1000 7 (memcpy 0x2000 0x1000 7 ucast) = 0"
proof -
  have d: "unat (7::u32) \<le> unat (0x2000 - 0x1000 :: u32)" "unat (7::u32) \<le> unat (0x1000 - 0x2000 :: u32)"
    by simp_all
  from memcpy_bytewise [OF d(1), of ucast] d(2) show ?thesis by blast
qed

section \<open>Numbers and text\<close>

text \<open>
  C37. A number printed by uitoa into a buffer of more than ten bytes is read back by atoui in
  decimal, by atoui_hex in base 16, and by atoui in base 16 with the 0x prefix.
\<close>

theorem uitoa_atoui:
  assumes "10 < length buf"
  shows "\<exists>b10 b16 n. uitoa val buf 10 = Inr b10 \<and> atoui b10 = Inr val \<and>
    uitoa val buf 16 = Inr b16 \<and> strlen_buf b16 = Inr n \<and>
    atoui_hex b16 (of_nat n) = Inr val \<and> atoui (48 # 120 # b16) = Inr val"
proof -
  have nz: "0 \<notin> set (uitoa_text 10 val)" "0 \<notin> set (uitoa_text 16 val)" by (simp_all add: uitoa_text_nonzero)
  obtain r10 where t10: "uitoa val buf 10 = Inr (uitoa_text 10 val @ 0 # r10)"
    using uitoa_eq_text [of 10 val buf] length_digs_u32(1) [of val] assms by fastforce
  obtain r16 where t16: "uitoa val buf 16 = Inr (uitoa_text 16 val @ 0 # r16)"
    using uitoa_eq_text [of 16 val buf] length_digs_u32(2) [of val] assms by fastforce
  have l10: "strlen_buf (uitoa_text 10 val @ 0 # r10) = Inr (length (digs 10 (unat val)))"
    using strlen_prefix [OF nz(1)] by simp
  have l16: "strlen_buf (uitoa_text 16 val @ 0 # r16) = Inr (length (digs 16 (unat val)))"
    using strlen_prefix [OF nz(2)] by simp
  have "atoui (uitoa_text 10 val @ 0 # r10) = Inr val"
    using atoui_dec_dispatch [OF l10] atoui_dec_text by simp
  moreover have "atoui (48 # 120 # uitoa_text 16 val @ 0 # r16) = Inr val"
    using atoui_hex_dispatch [OF l16] atoui_hex_text by simp
  ultimately show ?thesis using t10 t16 l16 atoui_hex_text by blast
qed

theorem uitoa_atoui_witness:
  "\<exists>b10 b16 n. uitoa 48879 (replicate 20 0) 10 = Inr b10 \<and> atoui b10 = Inr 48879 \<and>
    uitoa 48879 (replicate 20 0) 16 = Inr b16 \<and> strlen_buf b16 = Inr n \<and>
    atoui_hex b16 (of_nat n) = Inr 48879 \<and> atoui (48 # 120 # b16) = Inr 48879"
  by (rule uitoa_atoui) simp

text \<open>
  itoa in base 10, into a buffer of more than eleven bytes, writes the digits of the
  magnitude, with a minus sign in front of a negative number; the one value it cannot print is
  the least 32-bit integer, for which it reads before the table of digits.
\<close>

theorem itoa_dec:
  assumes "11 < length buf"
  shows "itoa val buf 10 =
    (if val = 0x80000000 then Inl OutOfBounds
     else if sint val < 0
     then Inr (45 # uitoa_text 10 (- val) @ 0 # drop (Suc (Suc (length (digs 10 (unat (- val)))))) buf)
     else Inr (uitoa_text 10 val @ 0 # drop (Suc (length (digs 10 (unat val)))) buf))"
proof (cases "sint val < 0")
  case True
  have "0 < length buf" using assms by linarith
  with True show ?thesis using itoa_neg [OF True assms] itoa_int_min [of buf] by simp
next
  case False
  then have "val \<noteq> 0x80000000" by auto
  with False itoa_nonneg [of val buf] assms show ?thesis by simp
qed

theorem itoa_dec_witness:
  "itoa (- 42) (replicate 20 0) 10 = Inr (45 # uitoa_text 10 42 @ 0 # replicate 16 0) \<and>
   itoa 0x80000000 (replicate 20 0) 10 = Inl OutOfBounds"
proof -
  have n: "11 < length (replicate 20 (0::u8))" by simp
  have d: "length (digs 10 42) = 2" by (simp add: digs.simps)
  show ?thesis using itoa_dec [OF n, of "- 42"] itoa_dec [OF n, of "0x80000000"] d by simp
qed

section \<open>Strings\<close>

text \<open>
  On buffers that hold strings, strcmp answers, with sign and all, the order of the first
  bytes that differ; and strcpy_s copies a string that fits with its NUL, refuses a longer one,
  and for a string exactly as long as the destination writes its NUL past the end.
\<close>

theorem strings_spec:
  assumes "c_string a = Some s" "c_string b = Some t" "length b < 4294967296"
  shows "\<exists>r. strcmp a b = Inr r \<and> (r = 0 \<longleftrightarrow> s = t) \<and> (r < 0 \<longleftrightarrow> lex_less s t) \<and>
    strcpy_s b (of_nat (length b)) a =
      (if length s < length b then Inr (0, s @ 0 # drop (Suc (length s)) b)
       else if length s = length b then Inl OutOfBounds
       else if length s < 4294967296 then Inr (1, b) else strcpy_s b (of_nat (length b)) a)"
  using strcmp_c_string [OF assms(1,2)] strcpy_s_fits [OF assms(1) _ assms(3)]
    strcpy_s_refuses [OF assms(1)] strcpy_s_overruns [OF assms(1)] by auto

theorem strings_spec_witness:
  "\<exists>r. strcmp [104, 105, 0] [104, 0, 0] = Inr r \<and> r > 0 \<and>
    strcpy_s [104, 0, 0] (of_nat 3) [104, 105, 0] = Inr (0, [104, 105, 0]) \<and>
    strcpy_s [104, 0] (of_nat 2) [104, 105, 0] = Inl OutOfBounds"
proof -
  have "\<exists>r. strcmp [104, 105, 0] [104, 0, 0] = Inr r \<and> (r = 0 \<longleftrightarrow> [104::u8, 105] = [104]) \<and>
      (r < 0 \<longleftrightarrow> lex_less [104, 105] [104]) \<and>
      strcpy_s [104, 0, 0] (of_nat 3) [104, 105, 0] = Inr (0, [104, 105, 0])"
    using strings_spec [of "[104, 105, 0]" "[104, 105]" "[104, 0, 0]" "[104]"] by simp
  moreover have "strcpy_s [104, 0] (of_nat 2) [104, 105, 0] = Inl OutOfBounds"
    using strings_spec [of "[104, 105, 0]" "[104, 105]" "[104, 0]" "[104]"] by simp
  ultimately show ?thesis by auto
qed

section \<open>The spinlock\<close>

text \<open>
  C20. However the instructions of the processors interleave from a free lock, no two of them
  are between their acquire and their release, and the lock bit is set exactly while one is.
\<close>

theorem spinlock_exclusive:
  assumes "lock_reachable l s" "\<not> lock_held l"
  shows "(lock_held (lock_word s) \<longleftrightarrow> (\<exists>i. cpu_pc s i = Holding)) \<and>
    (\<forall>i j. cpu_pc s i = Holding \<longrightarrow> cpu_pc s j = Holding \<longrightarrow> i = j)"
  using lock_reachable_agrees [OF assms] by (simp add: lock_agrees_def lock_held_bit)

theorem spinlock_exclusive_witness:
  "\<exists>s. lock_reachable 0 s \<and> cpu_pc s 0 = Holding \<and> cpu_pc s 1 = At_test \<and> lock_held (lock_word s)"
proof -
  define s0 :: lock_sys where "s0 = \<lparr>cpu_pc = (\<lambda>_. Outside), lock_word = 0\<rparr>"
  define s1 where "s1 = s0\<lparr>cpu_pc := (cpu_pc s0)(0 := At_test)\<rparr>"
  define s2 where "s2 = s1\<lparr>cpu_pc := (cpu_pc s1)(0 := At_bts)\<rparr>"
  define s3 where "s3 = s2\<lparr>cpu_pc := (cpu_pc s2)(0 := Holding), lock_word := lock_word s2 OR 1\<rparr>"
  define s4 where "s4 = s3\<lparr>cpu_pc := (cpu_pc s3)(1 := At_test)\<rparr>"
  have "lock_reachable 0 s0" unfolding s0_def by (rule lock_reachable.start)
  moreover have "lock_step s0 s1" unfolding s1_def by (rule lock_step.call_acquire) (simp add: s0_def)
  moreover have "lock_step s1 s2"
    unfolding s2_def by (rule lock_step.test_free) (simp_all add: s1_def s0_def)
  moreover have "lock_step s2 s3"
    unfolding s3_def by (rule lock_step.bts_won) (simp_all add: s2_def s1_def s0_def)
  moreover have "lock_step s3 s4"
    unfolding s4_def by (rule lock_step.call_acquire) (simp add: s3_def s2_def s1_def s0_def)
  ultimately have r: "lock_reachable 0 s4" by (blast intro: lock_reachable.step)
  moreover have "cpu_pc s4 0 = Holding" "cpu_pc s4 1 = At_test" by (simp_all add: s4_def s3_def)
  ultimately show ?thesis using spinlock_exclusive [OF r] by auto
qed

text \<open>
  A processor waiting for a lock nobody holds gets it in at most two instructions of its
  own; and a holder's release is one instruction that frees the lock.
\<close>

theorem spinlock_progress:
  assumes "lock_reachable l s" "\<not> lock_held l"
  shows "(cpu_pc s i = At_test \<and> (\<forall>j. cpu_pc s j \<noteq> Holding) \<longrightarrow>
      (\<exists>s1 s2. lock_step s s1 \<and> lock_step s1 s2 \<and> cpu_pc s2 = (cpu_pc s)(i := Holding))) \<and>
    (cpu_pc s i = Holding \<longrightarrow>
      (\<exists>s1. lock_step s s1 \<and> cpu_pc s1 = (cpu_pc s)(i := Outside) \<and> \<not> lock_held (lock_word s1)))"
proof (intro conjI impI)
  assume w: "cpu_pc s i = At_test \<and> (\<forall>j. cpu_pc s j \<noteq> Holding)"
  then have free: "\<not> bit (lock_word s) 0"
    using lock_reachable_agrees [OF assms] by (simp add: lock_agrees_def)
  then have "lock_word s AND 1 = 0" using lock_held_bit [of "lock_word s"] by (simp add: lock_held_def)
  with w have s1: "lock_step s (s\<lparr>cpu_pc := (cpu_pc s)(i := At_bts)\<rparr>)" (is "lock_step s ?s1")
    by (blast intro: lock_step.test_free)
  have s2: "lock_step ?s1 (?s1\<lparr>cpu_pc := (cpu_pc ?s1)(i := Holding), lock_word := lock_word ?s1 OR 1\<rparr>)"
    by (rule lock_step.bts_won) (simp_all add: free)
  show "\<exists>s1 s2. lock_step s s1 \<and> lock_step s1 s2 \<and> cpu_pc s2 = (cpu_pc s)(i := Holding)"
    by (rule exI, rule exI, rule conjI [OF s1], rule conjI [OF s2]) simp
next
  assume "cpu_pc s i = Holding"
  from lock_step.btr [OF this] show
    "\<exists>s1. lock_step s s1 \<and> cpu_pc s1 = (cpu_pc s)(i := Outside) \<and> \<not> lock_held (lock_word s1)"
    by (intro exI [of _ "s\<lparr>cpu_pc := (cpu_pc s)(i := Outside), lock_word := lock_word s AND NOT 1\<rparr>"])
      (simp add: lock_held_bit bit0_or_one)
qed

theorem spinlock_progress_witness:
  "\<exists>s s1 s2. cpu_pc s 3 = At_test \<and> lock_step s s1 \<and> lock_step s1 s2 \<and> cpu_pc s2 3 = Holding"
proof -
  define s0 :: lock_sys where "s0 = \<lparr>cpu_pc = (\<lambda>_. Outside), lock_word = 0\<rparr>"
  define s where "s = s0\<lparr>cpu_pc := (cpu_pc s0)(3 := At_test)\<rparr>"
  have "lock_reachable 0 s0" unfolding s0_def by (rule lock_reachable.start)
  moreover have "lock_step s0 s" unfolding s_def by (rule lock_step.call_acquire) (simp add: s0_def)
  ultimately have r: "lock_reachable 0 s" by (rule lock_reachable.step)
  have "cpu_pc s 3 = At_test \<and> (\<forall>j. cpu_pc s j \<noteq> Holding)" by (simp add: s_def s0_def)
  with spinlock_progress [OF r, of 3] obtain s1 s2
    where "lock_step s s1" "lock_step s1 s2" "cpu_pc s2 = (cpu_pc s)(3 := Holding)" by auto
  moreover have "cpu_pc s2 3 = Holding" using calculation(3) by simp
  moreover have "cpu_pc s 3 = At_test" by (simp add: s_def)
  ultimately show ?thesis by blast
qed

end
