(* ===== verification/Frame_Allocator.thy ===== *)
theory Frame_Allocator
  imports Prelude
begin

text \<open>
  What the rest of the kernel relies on when it takes physical memory: an allocator hands out
  page frames nobody owns, takes owned ones back, and always returns.  \<open>owned\<close> is the set of
  frame numbers in use; \<open>ready\<close> says that the allocator can be called (its invariant holds and
  its lock is free).  The answer 0 means that no frame was found, and promises nothing else.
\<close>

abbreviation frame_of :: "u32 \<Rightarrow> nat" where
  "frame_of a \<equiv> unat a div 4096"

locale frame_allocator =
  fixes alloc :: "'s \<Rightarrow> (u32 \<times> 's) res"
    and dealloc :: "u32 \<Rightarrow> 's \<Rightarrow> (error_t \<times> 's) res"
    and ready :: "'s \<Rightarrow> bool"
    and owned :: "'s \<Rightarrow> nat set"
  assumes alloc_returns: "ready s \<Longrightarrow> \<exists>r s'. alloc s = Inr (r, s')"
    and alloc_takes: "ready s \<Longrightarrow> alloc s = Inr (r, s') \<Longrightarrow> r \<noteq> 0 \<Longrightarrow>
      ready s' \<and> unat r mod 4096 = 0 \<and> frame_of r \<notin> owned s \<and> owned s' = insert (frame_of r) (owned s)"
    and dealloc_gives: "ready s \<Longrightarrow> frame_of a \<in> owned s \<Longrightarrow>
      \<exists>s'. dealloc a s = Inr (ERROR_OK, s') \<and> ready s' \<and> owned s' = owned s - {frame_of a}"
begin

lemma alloc_ready: "ready s \<Longrightarrow> alloc s = Inr (r, s') \<Longrightarrow> r \<noteq> 0 \<Longrightarrow> ready s'"
  using alloc_takes by blast

lemma alloc_then_dealloc:
  assumes "ready s" "alloc s = Inr (r, s1)" "r \<noteq> 0"
  shows "\<exists>s2. dealloc r s1 = Inr (ERROR_OK, s2) \<and> ready s2 \<and> owned s2 = owned s"
  using alloc_takes [OF assms] dealloc_gives [of s1 r] by auto

text \<open>Two frames taken one after the other differ: nothing is handed out twice.\<close>

lemma alloc_twice:
  assumes "ready s" "alloc s = Inr (r, s1)" "r \<noteq> 0" "alloc s1 = Inr (r', s2)" "r' \<noteq> 0"
  shows "frame_of r \<noteq> frame_of r'"
  using alloc_takes [OF assms(1-3)] alloc_takes [of s1 r' s2] assms(4,5) by auto

text \<open>Two page-aligned frame addresses with disjoint frame numbers do not overlap.\<close>

lemma alloc_bytes_disjoint:
  assumes "ready s" "alloc s = Inr (r, s')" "r \<noteq> 0" "f \<in> owned s" "i < 4096" "j < 4096"
  shows "unat r + i \<noteq> f * 4096 + j"
proof
  assume eq: "unat r + i = f * 4096 + j"
  have al: "unat r mod 4096 = 0" and new: "frame_of r \<notin> owned s"
    using alloc_takes [OF assms(1-3)] by auto
  have "unat r = 4096 * frame_of r" using al by auto
  with eq assms(5,6) have "frame_of r = f" by linarith
  with new assms(4) show False by simp
qed

end

end
