(* ===== verification/Phys_Mem.thy ===== *)
theory Phys_Mem
  imports Spinlock Libk_Utility Frame_Allocator
begin

text \<open>
  The physical memory manager, \<^verbatim>\<open>mem_manager_phys.c\<close>: a bitmap with one bit per 4 KB block
  (set means in use), a count of the used blocks and a spinlock.  The bitmap is the list of the
  32-bit words of memory from its base address on; an access past the list is \<open>OutOfBounds\<close>.
\<close>

unbundle bit_operations_syntax

section \<open>State and operations\<close>

type_synonym physical_addr_t = u32

record phys_mem =
  phys_mem_memory_size :: u32
  phys_mem_used_blocks :: u32
  phys_mem_max_blocks :: u32
  phys_mem_bitmap_base :: physical_addr_t
  phys_mem_bitmap :: "u32 list"
  phys_mem_lock :: spinlock_t

text \<open>
  The parameter \<^verbatim>\<open>int bit\<close> of the bitmap functions is the 32-bit value read as signed: a
  negative one indexes below the array.
\<close>

definition bitmap_index :: "u32 \<Rightarrow> phys_mem \<Rightarrow> nat res" where
  "bitmap_index b s =
     (if sint b < 0 \<or> length (phys_mem_bitmap s) \<le> unat b div 32 then Inl OutOfBounds
      else Inr (unat b div 32))"

definition mmap_set :: "u32 \<Rightarrow> phys_mem \<Rightarrow> phys_mem res" where
  "mmap_set b s =
     res_bind (bitmap_index b s) (\<lambda>i.
       Inr (s\<lparr>phys_mem_bitmap := (phys_mem_bitmap s)
              [i := phys_mem_bitmap s ! i OR push_bit (unat b mod 32) 1]\<rparr>))"

definition mmap_unset :: "u32 \<Rightarrow> phys_mem \<Rightarrow> phys_mem res" where
  "mmap_unset b s =
     res_bind (bitmap_index b s) (\<lambda>i.
       Inr (s\<lparr>phys_mem_bitmap := (phys_mem_bitmap s)
              [i := phys_mem_bitmap s ! i AND NOT (push_bit (unat b mod 32) 1)]\<rparr>))"

definition mmap_test :: "u32 \<Rightarrow> phys_mem \<Rightarrow> u32 res" where
  "mmap_test b s =
     res_bind (bitmap_index b s) (\<lambda>i.
       Inr (phys_mem_bitmap s ! i AND push_bit (unat b mod 32) 1))"

definition phys_mem_get_memory_size :: "phys_mem \<Rightarrow> u32" where
  "phys_mem_get_memory_size s = phys_mem_memory_size s"

definition phys_mem_get_block_use_count :: "phys_mem \<Rightarrow> u32" where
  "phys_mem_get_block_use_count s = phys_mem_used_blocks s"

definition phys_mem_get_block_count :: "phys_mem \<Rightarrow> u32" where
  "phys_mem_get_block_count s = phys_mem_max_blocks s"

definition phys_mem_get_free_blocks_count :: "phys_mem \<Rightarrow> u32" where
  "phys_mem_get_free_blocks_count s = phys_mem_max_blocks s - phys_mem_used_blocks s"

definition phys_mem_get_bitmap_size :: "phys_mem \<Rightarrow> u32" where
  "phys_mem_get_bitmap_size s = phys_mem_get_block_count s div 8"

text \<open>
  The two loops of mmap_first_free.  The inner one walks \<^verbatim>\<open>bit = 1, 2, 4, ...\<close> over the word
  while \<open>j < 32\<close>; the outer one walks the words from \<open>i\<close> while
  \<^verbatim>\<open>i < phys_mem_get_block_count() / 32\<close>.
\<close>

function scan_word :: "u32 \<Rightarrow> u32 \<Rightarrow> nat \<Rightarrow> nat option" where
  "scan_word w b j =
     (if j < 32 then (if w AND b = 0 then Some j else scan_word w (push_bit 1 b) (Suc j))
      else None)"
  by pat_completeness auto
termination
  by (relation "measure (\<lambda>(w, b, j). 32 - j)") auto

declare scan_word.simps [simp del]

function mmap_first_free :: "u32 \<Rightarrow> phys_mem \<Rightarrow> u32 res" where
  "mmap_first_free i s =
     (if i < phys_mem_get_block_count s div 32 then
        res_bind (arr_get (phys_mem_bitmap s) (unat i)) (\<lambda>w.
          if w \<noteq> 0xFFFFFFFF then
            (case scan_word w 1 0 of
               Some j \<Rightarrow> Inr (i * 32 + of_nat j)
             | None \<Rightarrow> mmap_first_free (i + 1) s)
          else mmap_first_free (i + 1) s)
      else Inr 0)"
  by pat_completeness auto
termination
  by (relation "measure (\<lambda>(i, s). unat (phys_mem_get_block_count s div 32) - unat i)")
     (auto simp: unat_Suc_less word_less_nat_alt)

declare mmap_first_free.simps [simp del]

text \<open>
  phys_mem_init gets the memory words found at the bitmap's base and clears their first
  \<^verbatim>\<open>phys_mem_get_bitmap_size()\<close> bytes to \<^verbatim>\<open>0xff\<close>; \<open>fill_ff\<close> is that memset on a list of
  little-endian words.
\<close>

fun fill_ff :: "nat \<Rightarrow> u32 list \<Rightarrow> u32 list res" where
  "fill_ff n ws =
     (if n = 0 then Inr ws
      else case ws of
        [] \<Rightarrow> Inl OutOfBounds
      | w # ws' \<Rightarrow>
          if n < 4 then Inr ((w OR mask (8 * n)) # ws')
          else res_bind (fill_ff (n - 4) ws') (\<lambda>r. Inr (0xFFFFFFFF # r)))"

declare fill_ff.simps [simp del]

definition phys_mem_init :: "u32 \<Rightarrow> physical_addr_t \<Rightarrow> u32 list \<Rightarrow> phys_mem \<Rightarrow> phys_mem res" where
  "phys_mem_init kb base memory s =
     (let blocks = kb * 1024 div 4096;
          s = s\<lparr>phys_mem_memory_size := kb, phys_mem_bitmap_base := base,
                 phys_mem_bitmap := memory,
                 phys_mem_max_blocks := blocks, phys_mem_used_blocks := blocks\<rparr>
      in res_bind (fill_ff (unat (phys_mem_get_bitmap_size s)) memory) (\<lambda>bm.
           Inr (s\<lparr>phys_mem_bitmap := bm\<rparr>)))"

text \<open>The loop of phys_mem_reserve_region, with the rounds left: the cursor moves only when
  the block it is at was free.\<close>

primrec reserve_loop :: "nat \<Rightarrow> u32 \<Rightarrow> phys_mem \<Rightarrow> phys_mem res" where
  "reserve_loop 0 cursor s = Inr s"
| "reserve_loop (Suc n) cursor s =
     res_bind (mmap_test cursor s) (\<lambda>t.
       if t = 0 then
         res_bind (mmap_set cursor s) (\<lambda>s'.
           reserve_loop n (cursor + 1) (s'\<lparr>phys_mem_used_blocks := phys_mem_used_blocks s' + 1\<rparr>))
       else reserve_loop n cursor s)"

primrec free_loop :: "nat \<Rightarrow> u32 \<Rightarrow> phys_mem \<Rightarrow> phys_mem res" where
  "free_loop 0 cursor s = Inr s"
| "free_loop (Suc n) cursor s =
     res_bind (mmap_test cursor s) (\<lambda>t.
       if t \<noteq> 0 then
         res_bind (mmap_unset cursor s) (\<lambda>s'.
           free_loop n (cursor + 1) (s'\<lparr>phys_mem_used_blocks := phys_mem_used_blocks s' - 1\<rparr>))
       else free_loop n cursor s)"

definition pm_acquire :: "phys_mem \<Rightarrow> phys_mem res" where
  "pm_acquire s = res_bind (acquire_spinlock (phys_mem_lock s)) (\<lambda>l. Inr (s\<lparr>phys_mem_lock := l\<rparr>))"

definition pm_release :: "phys_mem \<Rightarrow> phys_mem" where
  "pm_release s = s\<lparr>phys_mem_lock := release_spinlock (phys_mem_lock s)\<rparr>"

definition phys_mem_reserve_region :: "u32 \<Rightarrow> u32 \<Rightarrow> phys_mem \<Rightarrow> (error_t \<times> phys_mem) res" where
  "phys_mem_reserve_region base len s =
     (if len mod 4096 \<noteq> 0 \<or> base mod 4096 \<noteq> 0 then Inl (Panic ''physical memory align error'')
      else
        let aligned_addr = base div 4096; aligned_size = len div 4096 in
        res_bind (pm_acquire s) (\<lambda>s.
        res_bind (reserve_loop (unat aligned_size) aligned_addr s) (\<lambda>s.
          Inr (ERROR_OK, pm_release s))))"

definition phys_mem_free_region :: "u32 \<Rightarrow> u32 \<Rightarrow> phys_mem \<Rightarrow> (error_t \<times> phys_mem) res" where
  "phys_mem_free_region base len s =
     (if len mod 4096 \<noteq> 0 \<or> base mod 4096 \<noteq> 0 then Inl (Panic ''physical memory align error'')
      else
        let aligned_addr = base div 4096; aligned_size = len div 4096 in
        res_bind (pm_acquire s) (\<lambda>s.
        res_bind (free_loop (unat aligned_size) aligned_addr s) (\<lambda>s.
          Inr (ERROR_OK, pm_release s))))"

text \<open>
  phys_mem_alloc_above: the second \<^verbatim>\<open>return 0\<close>, after the lock was acquired, returns with the
  lock still held.
\<close>

definition phys_mem_alloc_above :: "physical_addr_t \<Rightarrow> phys_mem \<Rightarrow> (physical_addr_t \<times> phys_mem) res" where
  "phys_mem_alloc_above addr s =
     (if phys_mem_get_free_blocks_count s \<le> 0 then Inr (0, s)
      else
        let addr_aligned = addr div 4096 * 4096 in
        res_bind (pm_acquire s) (\<lambda>s.
        res_bind (ceil_division addr_aligned (4096 * 32)) (\<lambda>i.
        res_bind (mmap_first_free i s) (\<lambda>frame.
          if frame = 0 then Inr (0, s)
          else
            res_bind (mmap_set frame s) (\<lambda>s.
              let ret_addr = frame * 4096;
                  s = s\<lparr>phys_mem_used_blocks := phys_mem_used_blocks s + 1\<rparr>
              in Inr (ret_addr, pm_release s))))))"

definition phys_mem_alloc :: "phys_mem \<Rightarrow> (physical_addr_t \<times> phys_mem) res" where
  "phys_mem_alloc s = phys_mem_alloc_above 0 s"

definition phys_mem_alloc_above_1mb :: "phys_mem \<Rightarrow> (physical_addr_t \<times> phys_mem) res" where
  "phys_mem_alloc_above_1mb s = phys_mem_alloc_above 0x100000 s"

definition phys_mem_dealloc :: "physical_addr_t \<Rightarrow> phys_mem \<Rightarrow> (error_t \<times> phys_mem) res" where
  "phys_mem_dealloc block s =
     (let frame = block div 4096 in
      res_bind (pm_acquire s) (\<lambda>s.
      res_bind (mmap_unset frame s) (\<lambda>s.
        let s = s\<lparr>phys_mem_used_blocks := phys_mem_used_blocks s - 1\<rparr>
        in Inr (ERROR_OK, pm_release s))))"

section \<open>What the bitmap says\<close>

definition block_used :: "phys_mem \<Rightarrow> nat \<Rightarrow> bool" where
  "block_used s b \<longleftrightarrow> b < 32 * length (phys_mem_bitmap s) \<and>
     bit (phys_mem_bitmap s ! (b div 32)) (b mod 32)"

definition used_below :: "phys_mem \<Rightarrow> nat set" where
  "used_below s = {b. b < unat (phys_mem_max_blocks s) \<and> block_used s b}"

text \<open>
  The invariant: the bitmap's memory covers every block and its indices are non-negative
  as \<^verbatim>\<open>int\<close>, the block count is what 32-bit sizes allow, and the counter counts.
\<close>

definition pm_inv :: "phys_mem \<Rightarrow> bool" where
  "pm_inv s \<longleftrightarrow> unat (phys_mem_max_blocks s) < 2 ^ 20 \<and>
     unat (phys_mem_max_blocks s) \<le> 32 * length (phys_mem_bitmap s) \<and>
     length (phys_mem_bitmap s) \<le> 2 ^ 26 \<and>
     unat (phys_mem_used_blocks s) = card (used_below s)"

lemma finite_used_below [simp]: "finite (used_below s)"
  by (simp add: used_below_def)

lemma block_used_fields [simp]:
  "block_used (s\<lparr>phys_mem_used_blocks := n\<rparr>) = block_used s"
  "block_used (s\<lparr>phys_mem_lock := l\<rparr>) = block_used s"
  "used_below (s\<lparr>phys_mem_used_blocks := n\<rparr>) = used_below s"
  "used_below (s\<lparr>phys_mem_lock := l\<rparr>) = used_below s"
  by (auto simp: block_used_def used_below_def fun_eq_iff)

lemma pm_inv_lock [simp]: "pm_inv (s\<lparr>phys_mem_lock := l\<rparr>) \<longleftrightarrow> pm_inv s"
  by (simp add: pm_inv_def)

subsection \<open>The bit operations\<close>

lemma bitmap_index_ok:
  assumes "length (phys_mem_bitmap s) \<le> 2 ^ 26" "unat b < 32 * length (phys_mem_bitmap s)"
  shows "bitmap_index b s = Inr (unat b div 32)"
proof -
  from assms have b: "unat b < 2 ^ 31" by simp
  have "\<not> sint b < 0" by (rule sint_nonneg_small [OF b])
  moreover from assms have "unat b div 32 < length (phys_mem_bitmap s)" by (simp add: div_less_iff_less_mult mult.commute)
  ultimately show ?thesis by (simp add: bitmap_index_def)
qed

lemma mmap_test_ok:
  assumes "length (phys_mem_bitmap s) \<le> 2 ^ 26" "unat b < 32 * length (phys_mem_bitmap s)"
  shows "\<exists>t. mmap_test b s = Inr t \<and> (t \<noteq> 0 \<longleftrightarrow> block_used s (unat b))"
  using assms by (simp add: mmap_test_def bitmap_index_ok block_used_def and_exp_eq_0_iff_not_bit)

definition with_bit :: "bool \<Rightarrow> nat \<Rightarrow> phys_mem \<Rightarrow> phys_mem" where
  "with_bit u b s = s\<lparr>phys_mem_bitmap := (phys_mem_bitmap s)
     [b div 32 := (if u then phys_mem_bitmap s ! (b div 32) OR push_bit (b mod 32) 1
                   else phys_mem_bitmap s ! (b div 32) AND NOT (push_bit (b mod 32) 1))]\<rparr>"

lemma with_bit_fields [simp]:
  "phys_mem_max_blocks (with_bit u b s) = phys_mem_max_blocks s"
  "phys_mem_used_blocks (with_bit u b s) = phys_mem_used_blocks s"
  "phys_mem_lock (with_bit u b s) = phys_mem_lock s"
  "length (phys_mem_bitmap (with_bit u b s)) = length (phys_mem_bitmap s)"
  "phys_mem_get_block_count (with_bit u b s) = phys_mem_get_block_count s"
  by (simp_all add: with_bit_def phys_mem_get_block_count_def)

lemma mmap_set_ok:
  assumes "length (phys_mem_bitmap s) \<le> 2 ^ 26" "unat b < 32 * length (phys_mem_bitmap s)"
  shows "mmap_set b s = Inr (with_bit True (unat b) s)"
    and "mmap_unset b s = Inr (with_bit False (unat b) s)"
  using assms by (simp_all add: mmap_set_def mmap_unset_def bitmap_index_ok with_bit_def)

lemma block_used_with_bit:
  assumes "b < 32 * length (phys_mem_bitmap s)"
  shows "block_used (with_bit u b s) x \<longleftrightarrow> (if x = b then u else block_used s x)"
proof -
  have len: "b div 32 < length (phys_mem_bitmap s)"
    using assms by (simp add: div_less_iff_less_mult mult.commute)
  have eq: "x = b \<longleftrightarrow> x div 32 = b div 32 \<and> x mod 32 = b mod 32"
    by (metis div_mod_decomp)
  show ?thesis
  proof (cases "x div 32 = b div 32")
    case True
    with len assms eq show ?thesis
      by (auto simp: block_used_def with_bit_def bit_simps)
  next
    case False
    with eq show ?thesis by (auto simp: block_used_def with_bit_def nth_list_update)
  qed
qed

lemma used_below_with_bit:
  assumes "b < 32 * length (phys_mem_bitmap s)"
  shows "used_below (with_bit u b s) =
    (if u \<and> b < unat (phys_mem_max_blocks s) then insert b (used_below s)
     else if u then used_below s else used_below s - {b})"
  using assms by (auto simp: used_below_def block_used_with_bit)

subsection \<open>The search\<close>

lemma scan_word_sound:
  "scan_word w (2 ^ j) j = Some k \<Longrightarrow> j \<le> k \<and> k < 32 \<and> \<not> bit w k"
proof (induction w "2 ^ j :: u32" j rule: scan_word.induct)
  case (1 w j)
  show ?case
  proof (cases "j < 32 \<and> w AND 2 ^ j \<noteq> 0")
    case True
    then have "scan_word w (2 ^ Suc j) (Suc j) = Some k"
      using "1.prems" by (simp add: scan_word.simps [of w "2 ^ j" j] mult.commute)
    with True "1.hyps" show ?thesis by simp
  next
    case False
    with "1.prems" show ?thesis
      by (auto simp: scan_word.simps [of w "2 ^ j" j] and_exp_eq_0_iff_not_bit split: if_splits)
  qed
qed

lemma scan_word_complete:
  "j \<le> k \<Longrightarrow> k < 32 \<Longrightarrow> \<not> bit w k \<Longrightarrow> scan_word w (2 ^ j) j \<noteq> None"
proof (induction w "2 ^ j :: u32" j rule: scan_word.induct)
  case (1 w j)
  show ?case
  proof (cases "w AND 2 ^ j = 0")
    case True
    with "1.prems" show ?thesis by (simp add: scan_word.simps [of w "2 ^ j" j] mult.commute)
  next
    case False
    then have "bit w j" by (auto simp: and_exp_eq_0_iff_not_bit)
    with "1.prems" have "j \<noteq> k" by auto
    with "1.prems" have "Suc j \<le> k" "j < 32" by auto
    with False "1.hyps" "1.prems" show ?thesis
      by (simp add: scan_word.simps [of w "2 ^ j" j] mult.commute)
  qed
qed

lemma scan_word_found:
  assumes "w \<noteq> 0xFFFFFFFF"
  obtains k where "scan_word w 1 0 = Some k" "k < 32" "\<not> bit w k"
proof -
  have "w \<noteq> - 1" using assms all_ones_u32 by metis
  then obtain n where "n < 32" "\<not> bit w n" by (rule not_all_ones_clear_bit) auto
  then obtain k where "scan_word w 1 0 = Some k"
    using scan_word_complete [of 0 n w] by auto
  moreover from this have "k < 32" "\<not> bit w k"
    using scan_word_sound [of w 0 k] by simp_all
  ultimately show thesis by (rule that)
qed

text \<open>
  The search never faults under the invariant.  A non-zero answer is a free block of the
  searched words; the answer 0 means block 0 itself, or that none of them is free.
\<close>

definition search_spec :: "phys_mem \<Rightarrow> nat \<Rightarrow> u32 \<Rightarrow> bool" where
  "search_spec s i f \<longleftrightarrow>
     (if f = 0 then
        (i = 0 \<and> \<not> block_used s 0) \<or>
        (\<forall>b. 32 * i \<le> b \<longrightarrow> b < 32 * (unat (phys_mem_max_blocks s) div 32) \<longrightarrow> block_used s b)
      else 32 * i \<le> unat f \<and> unat f < unat (phys_mem_max_blocks s) \<and> \<not> block_used s (unat f))"

lemma search_spec_lock [simp]: "search_spec (s\<lparr>phys_mem_lock := l\<rparr>) = search_spec s"
  by (intro ext) (simp add: search_spec_def)

lemma block_used_word:
  assumes "i < length (phys_mem_bitmap s)" "k < 32"
  shows "block_used s (32 * i + k) \<longleftrightarrow> bit (phys_mem_bitmap s ! i) k"
  using assms by (auto simp: block_used_def)

lemma mmap_first_free_spec:
  "pm_inv s \<Longrightarrow> \<exists>f. mmap_first_free i s = Inr f \<and> search_spec s (unat i) f"
proof (induction i s rule: mmap_first_free.induct)
  case (1 i s)
  let ?max = "unat (phys_mem_max_blocks s)"
  have bound: "?max < 2 ^ 20" "?max \<le> 32 * length (phys_mem_bitmap s)"
    using "1.prems" by (auto simp: pm_inv_def)
  show ?case
  proof (cases "i < phys_mem_get_block_count s div 32")
    case False
    then have "?max div 32 \<le> unat i"
      by (simp add: phys_mem_get_block_count_def word_less_nat_alt unat_div)
    with False show ?thesis
      by (auto simp: mmap_first_free.simps [of i s] search_spec_def)
  next
    case True
    then have i: "unat i < ?max div 32"
      by (simp add: phys_mem_get_block_count_def word_less_nat_alt unat_div)
    with bound have len: "unat i < length (phys_mem_bitmap s)" by linarith
    have suc: "unat (i + 1) = Suc (unat i)" using True by (rule unat_Suc_less)
    let ?w = "phys_mem_bitmap s ! unat i"
    show ?thesis
    proof (cases "?w = 0xFFFFFFFF")
      case False
      then obtain k where k: "scan_word ?w 1 0 = Some k" "k < 32" "\<not> bit ?w k"
        by (rule scan_word_found)
      define f where "f = i * 32 + (of_nat k :: u32)"
      have "unat i * 32 + k < 2 ^ 32" using i bound(1) k(2) by simp
      then have f: "unat f = 32 * unat i + k"
        by (simp add: f_def unat_word_ariths unat_of_nat)
      have res: "mmap_first_free i s = Inr f"
        using True False len k by (simp add: mmap_first_free.simps [of i s] f_def)
      have free: "\<not> block_used s (unat f)" using block_used_word [OF len k(2)] k(3) f by simp
      have "unat f < ?max" using f i k(2) by linarith
      with free f have "search_spec s (unat i) f"
        by (auto simp: search_spec_def)
      with res show ?thesis by blast
    next
      case full: True
      have "\<exists>f. mmap_first_free (i + 1) s = Inr f \<and> search_spec s (Suc (unat i)) f"
        using "1.IH" (2) [OF True _ _ "1.prems"] full len suc by simp
      then obtain f where f: "mmap_first_free (i + 1) s = Inr f" "search_spec s (Suc (unat i)) f"
        by blast
      have res: "mmap_first_free i s = Inr f"
        using True full len f by (simp add: mmap_first_free.simps [of i s])
      have here: "block_used s b" if "32 * unat i \<le> b" "b < 32 * Suc (unat i)" for b
      proof -
        define k where "k = b - 32 * unat i"
        have b: "b = 32 * unat i + k" and k: "k < 32" using that by (auto simp: k_def)
        have "bit ?w k" unfolding full using k by (simp only: bit_all_ones_u32)
        with b block_used_word [OF len k] show ?thesis by simp
      qed
      have "search_spec s (unat i) f"
      proof (cases "f = 0")
        case True
        have "block_used s b"
          if "32 * unat i \<le> b" "b < 32 * (?max div 32)" for b
          using f(2) here [of b] that True by (cases "b < 32 * Suc (unat i)") (auto simp: search_spec_def)
        with True show ?thesis by (simp add: search_spec_def)
      next
        case False
        with f(2) show ?thesis by (simp add: search_spec_def)
      qed
      with res show ?thesis by blast
    qed
  qed
qed

subsection \<open>Allocation\<close>

lemma unat_ceil_index:
  assumes "ceil_division (addr div 4096 * 4096) 131072 = Inr i"
  shows "unat addr div 4096 \<le> 32 * unat i"
proof -
  have a: "unat (addr div 4096 * 4096) = unat addr div 4096 * 4096"
    using unat_u32_less [of addr] by (simp add: unat_word_ariths unat_div)
  have "unat i = (unat addr div 4096 * 4096 + 131072 - 1) div 131072"
    using unat_ceil_division [OF assms] a by simp
  then show ?thesis by linarith
qed

lemma unat_frame_addr:
  assumes "unat frame < 2 ^ 20"
  shows "unat (frame * 4096 :: u32) = unat frame * 4096" "(frame * 4096 :: u32) div 4096 = frame"
proof -
  show eq: "unat (frame * 4096 :: u32) = unat frame * 4096"
    using assms by (simp add: unat_word_ariths)
  show "(frame * 4096 :: u32) div 4096 = frame"
    using eq by (simp add: word_unat_eq_iff unat_div)
qed

text \<open>Under the invariant with the lock free, an allocation returns in one of three ways.\<close>

lemma phys_mem_alloc_above_cases:
  assumes inv: "pm_inv s" and free: "\<not> lock_held (phys_mem_lock s)"
  obtains (none_left) "phys_mem_alloc_above addr s = Inr (0, s)"
        "phys_mem_get_free_blocks_count s = 0"
    | (none_found) i s' where
        "phys_mem_alloc_above addr s = Inr (0, s')"
        "s' = s\<lparr>phys_mem_lock := phys_mem_lock s OR 1\<rparr>"
        "ceil_division (addr div 4096 * 4096) 131072 = Inr i"
        "search_spec s (unat i) 0"
    | (found) i frame s' where
        "phys_mem_alloc_above addr s = Inr (frame * 4096, s')" "frame \<noteq> 0"
        "s' = (with_bit True (unat frame) s)\<lparr>phys_mem_used_blocks := phys_mem_used_blocks s + 1\<rparr>"
        "ceil_division (addr div 4096 * 4096) 131072 = Inr i"
        "search_spec s (unat i) frame"
proof (cases "phys_mem_get_free_blocks_count s \<le> 0")
  case True
  then show ?thesis using none_left by (simp add: phys_mem_alloc_above_def)
next
  case False
  let ?l = "phys_mem_lock s OR 1"
  let ?s1 = "s\<lparr>phys_mem_lock := ?l\<rparr>"
  obtain i where i: "ceil_division (addr div 4096 * 4096) 131072 = Inr i"
    by (simp add: ceil_division_def Let_def)
  from inv have inv1: "pm_inv ?s1" by simp
  obtain frame where frame: "mmap_first_free i ?s1 = Inr frame" "search_spec ?s1 (unat i) frame"
    using mmap_first_free_spec [OF inv1, of i] by blast
  have spec: "search_spec s (unat i) frame" using frame(2) by simp
  show ?thesis
  proof (cases "frame = 0")
    case True
    have "phys_mem_alloc_above addr s = Inr (0, ?s1)"
      using False free i frame True by (simp add: phys_mem_alloc_above_def pm_acquire_def)
    with spec True i none_found show ?thesis by blast
  next
    case nz: False
    with spec inv have "unat frame < 32 * length (phys_mem_bitmap s)"
      by (auto simp: search_spec_def pm_inv_def)
    moreover have "length (phys_mem_bitmap s) \<le> 2 ^ 26" using inv by (simp add: pm_inv_def)
    ultimately have set: "mmap_set frame ?s1 = Inr (with_bit True (unat frame) ?s1)"
      by (intro mmap_set_ok) simp_all
    let ?s' = "(with_bit True (unat frame) s)\<lparr>phys_mem_used_blocks := phys_mem_used_blocks s + 1\<rparr>"
    have "phys_mem_alloc_above addr s = Inr (frame * 4096, ?s')"
      using False free i frame nz set
      by (simp add: phys_mem_alloc_above_def pm_acquire_def pm_release_def with_bit_def)
    with nz i spec found show ?thesis by blast
  qed
qed

lemma pm_inv_take:
  assumes inv: "pm_inv s" and b: "b < unat (phys_mem_max_blocks s)" "\<not> block_used s b"
  shows "pm_inv ((with_bit True b s)\<lparr>phys_mem_used_blocks := phys_mem_used_blocks s + 1\<rparr>)"
proof -
  have lt: "b < 32 * length (phys_mem_bitmap s)" using inv b by (simp add: pm_inv_def)
  have sub: "used_below s \<subseteq> {..<unat (phys_mem_max_blocks s)} - {b}"
    using b by (auto simp: used_below_def)
  have "card (used_below s) \<le> card ({..<unat (phys_mem_max_blocks s)} - {b})"
    by (rule card_mono) (use sub in auto)
  then have "card (used_below s) < unat (phys_mem_max_blocks s)" using b by simp
  with inv have "unat (phys_mem_used_blocks s + 1) = Suc (card (used_below s))"
    by (simp add: pm_inv_def unat_word_ariths)
  moreover have "b \<notin> used_below s" using b by (simp add: used_below_def)
  ultimately show ?thesis
    using inv b(1) by (simp add: pm_inv_def used_below_with_bit [OF lt] card_insert_if)
qed

lemma pm_inv_give:
  assumes inv: "pm_inv s" and b: "b < unat (phys_mem_max_blocks s)" "block_used s b"
  shows "pm_inv ((with_bit False b s)\<lparr>phys_mem_used_blocks := phys_mem_used_blocks s - 1\<rparr>)"
proof -
  have lt: "b < 32 * length (phys_mem_bitmap s)" using inv b by (simp add: pm_inv_def)
  have mem: "b \<in> used_below s" using b by (simp add: used_below_def)
  then have pos: "0 < card (used_below s)" by (auto simp: card_gt_0_iff)
  with inv have "phys_mem_used_blocks s \<noteq> 0" by (auto simp: pm_inv_def)
  then have "unat (phys_mem_used_blocks s - 1) = unat (phys_mem_used_blocks s) - 1"
    by (rule unat_minus_one)
  with inv mem show ?thesis
    by (simp add: pm_inv_def used_below_with_bit [OF lt] card_Diff_singleton)
qed

text \<open>The same three cases seen through the result.\<close>

lemma phys_mem_alloc_above_total:
  assumes "pm_inv s" "\<not> lock_held (phys_mem_lock s)"
  shows "\<exists>r s'. phys_mem_alloc_above addr s = Inr (r, s')"
  using assms by (rule phys_mem_alloc_above_cases [of s addr]) blast+

lemma phys_mem_alloc_above_ok:
  assumes inv: "pm_inv s" and free: "\<not> lock_held (phys_mem_lock s)"
    and res: "phys_mem_alloc_above addr s = Inr (r, s')" and nz: "r \<noteq> 0"
  obtains frame where "r = frame * 4096" "unat r = unat frame * 4096"
    "unat addr div 4096 \<le> unat frame" "unat frame < unat (phys_mem_max_blocks s)"
    "\<not> block_used s (unat frame)"
    "s' = (with_bit True (unat frame) s)\<lparr>phys_mem_used_blocks := phys_mem_used_blocks s + 1\<rparr>"
  using inv free
proof (cases rule: phys_mem_alloc_above_cases [of s addr])
  case (found i frame s1)
  have bound: "unat frame < unat (phys_mem_max_blocks s)" "\<not> block_used s (unat frame)"
    "32 * unat i \<le> unat frame"
    using found by (auto simp: search_spec_def)
  moreover have "unat frame < 2 ^ 20" using bound inv by (auto simp: pm_inv_def)
  ultimately show thesis
    using that [of frame] found res unat_frame_addr unat_ceil_index [of addr i] by auto
qed (use res nz in auto)

lemma with_bit_restore:
  assumes "b < 32 * length (phys_mem_bitmap s)" "block_used s b = u"
  shows "with_bit u b (with_bit (\<not> u) b s) = s"
proof -
  have len: "b div 32 < length (phys_mem_bitmap s)"
    using assms by (simp add: div_less_iff_less_mult mult.commute)
  let ?w = "phys_mem_bitmap s ! (b div 32)"
  have "?w OR push_bit (b mod 32) 1 = ?w" if u
    using assms that by (auto intro!: bit_word_eqI simp: block_used_def bit_simps)
  moreover have "?w AND NOT (push_bit (b mod 32) 1) = ?w" if "\<not> u"
    using assms that by (auto intro!: bit_word_eqI simp: block_used_def bit_simps)
  moreover have "(?w AND NOT (push_bit (b mod 32) 1)) OR push_bit (b mod 32) 1 = ?w OR push_bit (b mod 32) 1"
    "(?w OR push_bit (b mod 32) 1) AND NOT (push_bit (b mod 32) 1) = ?w AND NOT (push_bit (b mod 32) 1)"
    by (auto intro!: bit_word_eqI simp: bit_simps)
  ultimately show ?thesis
    using len by (cases u) (simp_all add: with_bit_def)
qed

subsection \<open>Freeing a block\<close>

lemma phys_mem_dealloc_eq:
  assumes inv: "pm_inv s" and free: "\<not> lock_held (phys_mem_lock s)"
    and b: "unat block div 4096 < unat (phys_mem_max_blocks s)"
  shows "phys_mem_dealloc block s = Inr (ERROR_OK,
    (with_bit False (unat block div 4096) s)\<lparr>phys_mem_used_blocks := phys_mem_used_blocks s - 1\<rparr>)"
proof -
  let ?s1 = "s\<lparr>phys_mem_lock := phys_mem_lock s OR 1\<rparr>"
  have "length (phys_mem_bitmap ?s1) \<le> 2 ^ 26" "unat (block div 4096) < 32 * length (phys_mem_bitmap ?s1)"
    using inv b by (auto simp: pm_inv_def word_nat)
  then have "mmap_unset (block div 4096) ?s1 = Inr (with_bit False (unat (block div 4096)) ?s1)"
    by (rule mmap_set_ok)
  then show ?thesis
    using free by (simp add: phys_mem_dealloc_def pm_acquire_def pm_release_def with_bit_def word_nat)
qed

subsection \<open>Regions\<close>

text \<open>Block \<open>b\<close> belongs to the run of blocks from \<open>c\<close> on that are all used (all free).\<close>

definition in_run :: "bool \<Rightarrow> phys_mem \<Rightarrow> nat \<Rightarrow> nat \<Rightarrow> bool" where
  "in_run u s c b \<longleftrightarrow> c \<le> b \<and> (\<forall>x \<in> {c..b}. block_used s x = u)"

lemma in_run_start: "block_used s c \<noteq> u \<Longrightarrow> \<not> in_run u s c b"
  by (auto simp: in_run_def)

lemma in_run_step:
  assumes "block_used s c = u" "c < 32 * length (phys_mem_bitmap s)"
  shows "in_run u s c b \<longleftrightarrow> b = c \<or> in_run u (with_bit (\<not> u) c s) (Suc c) b"
proof (cases "b \<le> c")
  case True
  with assms show ?thesis by (auto simp: in_run_def)
next
  case False
  then have "{c..b} = insert c {Suc c..b}" by auto
  moreover have "block_used (with_bit (\<not> u) c s) x = block_used s x" if "x \<in> {Suc c..b}" for x
    using that assms by (simp add: block_used_with_bit)
  ultimately show ?thesis using assms False by (auto simp: in_run_def)
qed

lemma pm_inv_block:
  assumes "pm_inv s" "b < unat (phys_mem_max_blocks s)"
  shows "length (phys_mem_bitmap s) \<le> 2 ^ 26" "b < 32 * length (phys_mem_bitmap s)"
  using assms by (auto simp: pm_inv_def)

lemma reserve_loop_spec:
  "pm_inv s \<Longrightarrow> unat c + n \<le> unat (phys_mem_max_blocks s) \<Longrightarrow>
   \<exists>s'. reserve_loop n c s = Inr s' \<and> pm_inv s' \<and>
     phys_mem_max_blocks s' = phys_mem_max_blocks s \<and> phys_mem_lock s' = phys_mem_lock s \<and>
     (\<forall>b. block_used s' b \<longleftrightarrow> block_used s b \<or> b < unat c + n \<and> in_run False s (unat c) b)"
proof (induction n arbitrary: c s)
  case 0
  then show ?case by (auto simp: in_run_def)
next
  case (Suc n)
  then have c: "unat c < unat (phys_mem_max_blocks s)" by simp
  note blk = pm_inv_block [OF Suc.prems(1) c]
  obtain t where t: "mmap_test c s = Inr t" "t \<noteq> 0 \<longleftrightarrow> block_used s (unat c)"
    using mmap_test_ok [OF blk] by blast
  show ?case
  proof (cases "block_used s (unat c)")
    case True
    with t have "reserve_loop (Suc n) c s = reserve_loop n c s" by simp
    with Suc.IH [of s c] Suc.prems True show ?thesis by (simp add: in_run_start)
  next
    case False
    let ?s = "(with_bit True (unat c) s)\<lparr>phys_mem_used_blocks := phys_mem_used_blocks s + 1\<rparr>"
    have suc: "unat (c + 1) = Suc (unat c)" using c by (intro unat_Suc_less) (simp add: word_less_nat_alt)
    have "reserve_loop (Suc n) c s = reserve_loop n (c + 1) ?s"
      using t False blk by (simp add: mmap_set_ok)
    moreover have "pm_inv ?s" by (rule pm_inv_take [OF Suc.prems(1) c False])
    then have "\<exists>s'. reserve_loop n (c + 1) ?s = Inr s' \<and> pm_inv s' \<and>
      phys_mem_max_blocks s' = phys_mem_max_blocks ?s \<and> phys_mem_lock s' = phys_mem_lock ?s \<and>
      (\<forall>b. block_used s' b \<longleftrightarrow> block_used ?s b \<or>
         b < unat (c + 1) + n \<and> in_run False ?s (unat (c + 1)) b)"
      by (rule Suc.IH) (use Suc.prems suc in simp)
    moreover have "in_run False ?s = in_run False (with_bit True (unat c) s)"
      by (simp add: in_run_def fun_eq_iff)
    ultimately show ?thesis
      using suc in_run_step [of s "unat c" False] False blk
      by (auto simp: block_used_with_bit)
  qed
qed

lemma free_loop_spec:
  "pm_inv s \<Longrightarrow> unat c + n \<le> unat (phys_mem_max_blocks s) \<Longrightarrow>
   \<exists>s'. free_loop n c s = Inr s' \<and> pm_inv s' \<and>
     phys_mem_max_blocks s' = phys_mem_max_blocks s \<and> phys_mem_lock s' = phys_mem_lock s \<and>
     (\<forall>b. block_used s' b \<longleftrightarrow> block_used s b \<and> \<not> (b < unat c + n \<and> in_run True s (unat c) b))"
proof (induction n arbitrary: c s)
  case 0
  then show ?case by (auto simp: in_run_def)
next
  case (Suc n)
  then have c: "unat c < unat (phys_mem_max_blocks s)" by simp
  note blk = pm_inv_block [OF Suc.prems(1) c]
  obtain t where t: "mmap_test c s = Inr t" "t \<noteq> 0 \<longleftrightarrow> block_used s (unat c)"
    using mmap_test_ok [OF blk] by blast
  show ?case
  proof (cases "block_used s (unat c)")
    case False
    with t have "free_loop (Suc n) c s = free_loop n c s" by simp
    with Suc.IH [of s c] Suc.prems False show ?thesis by (simp add: in_run_start)
  next
    case True
    let ?s = "(with_bit False (unat c) s)\<lparr>phys_mem_used_blocks := phys_mem_used_blocks s - 1\<rparr>"
    have suc: "unat (c + 1) = Suc (unat c)" using c by (intro unat_Suc_less) (simp add: word_less_nat_alt)
    have "free_loop (Suc n) c s = free_loop n (c + 1) ?s"
      using t True blk by (simp add: mmap_set_ok)
    moreover have "pm_inv ?s" by (rule pm_inv_give [OF Suc.prems(1) c True])
    then have "\<exists>s'. free_loop n (c + 1) ?s = Inr s' \<and> pm_inv s' \<and>
      phys_mem_max_blocks s' = phys_mem_max_blocks ?s \<and> phys_mem_lock s' = phys_mem_lock ?s \<and>
      (\<forall>b. block_used s' b \<longleftrightarrow> block_used ?s b \<and>
         \<not> (b < unat (c + 1) + n \<and> in_run True ?s (unat (c + 1)) b))"
      by (rule Suc.IH) (use Suc.prems suc in simp)
    moreover have "in_run True ?s = in_run True (with_bit False (unat c) s)"
      by (simp add: in_run_def fun_eq_iff)
    ultimately show ?thesis
      using suc in_run_step [of s "unat c" True] True blk
      by (auto simp: block_used_with_bit)
  qed
qed

subsection \<open>Initialisation\<close>

lemma fill_ff_length: "fill_ff n ws = Inr r \<Longrightarrow> length r = length ws"
proof (induction n ws arbitrary: r rule: fill_ff.induct)
  case (1 n ws)
  then show ?case
    by (cases ws) (auto simp: fill_ff.simps [of n] res_simps split: if_splits)
qed

lemma fill_ff_total: "n \<le> 4 * length ws \<Longrightarrow> \<exists>r. fill_ff n ws = Inr r"
proof (induction n ws rule: fill_ff.induct)
  case (1 n ws)
  show ?case
  proof (cases ws)
    case Nil
    with "1.prems" show ?thesis by (simp add: fill_ff.simps)
  next
    case (Cons w ws')
    then have "\<exists>r. fill_ff (n - 4) ws' = Inr r" if "n \<noteq> 0" "\<not> n < 4"
      using that "1.prems" "1.IH" [of w ws'] by simp
    with Cons show ?thesis by (cases "n < 4") (auto simp: fill_ff.simps [of n])
  qed
qed

lemma fill_ff_bits:
  "fill_ff n ws = Inr r \<Longrightarrow> b < 32 * length ws \<Longrightarrow>
   bit (r ! (b div 32)) (b mod 32) \<longleftrightarrow> b < 8 * n \<or> bit (ws ! (b div 32)) (b mod 32)"
proof (induction n ws arbitrary: r b rule: fill_ff.induct)
  case (1 n ws)
  show ?case
  proof (cases "n = 0")
    case True
    with "1.prems" show ?thesis by (simp add: fill_ff.simps)
  next
    case n: False
    with "1.prems" obtain w ws' where ws: "ws = w # ws'" by (cases ws) auto
    show ?thesis
    proof (cases "b < 32")
      case True
      then have "b div 32 = 0" "b mod 32 = b" by auto
      moreover have "bit (0xFFFFFFFF :: u32) b" unfolding bit_all_ones_u32 by (rule True)
      ultimately show ?thesis using n ws "1.prems" True
        by (cases "n < 4") (auto simp: fill_ff.simps [of n] res_simps bit_simps)
    next
      case False
      then obtain b' where b': "b = b' + 32" by (metis le_Suc_ex add.commute not_le)
      then have idx: "b div 32 = Suc (b' div 32)" "b mod 32 = b' mod 32" by auto
      show ?thesis
      proof (cases "n < 4")
        case True
        with n ws "1.prems" idx b' show ?thesis by (auto simp: fill_ff.simps [of n])
      next
        case big: False
        with n ws "1.prems" obtain r' where r: "fill_ff (n - 4) ws' = Inr r'" "r = 0xFFFFFFFF # r'"
          by (auto simp: fill_ff.simps [of n] res_simps)
        have "bit (r' ! (b' div 32)) (b' mod 32) \<longleftrightarrow> b' < 8 * (n - 4) \<or> bit (ws' ! (b' div 32)) (b' mod 32)"
          using "1.IH" [OF n ws big r(1)] "1.prems" ws b' by simp
        with r ws idx b' big show ?thesis by auto
      qed
    qed
  qed
qed

section \<open>The manager as a frame allocator\<close>

definition pm_ready :: "phys_mem \<Rightarrow> bool" where
  "pm_ready s \<longleftrightarrow> pm_inv s \<and> \<not> lock_held (phys_mem_lock s)"

lemma pm_ready_fields [simp]:
  "pm_ready (s\<lparr>phys_mem_lock := release_spinlock l\<rparr>) \<longleftrightarrow> pm_inv s"
  by (simp add: pm_ready_def)

lemma pm_ready_alloc_above:
  assumes "pm_ready s" "phys_mem_alloc_above addr s = Inr (r, s')" "r \<noteq> 0"
  shows "pm_ready s' \<and> unat r mod 4096 = 0 \<and> frame_of r \<notin> used_below s \<and>
    used_below s' = insert (frame_of r) (used_below s)"
proof -
  from assms(1) have inv: "pm_inv s" and free: "\<not> lock_held (phys_mem_lock s)"
    by (simp_all add: pm_ready_def)
  obtain frame where f: "r = frame * 4096" "unat r = unat frame * 4096"
    "unat addr div 4096 \<le> unat frame" "unat frame < unat (phys_mem_max_blocks s)"
    "\<not> block_used s (unat frame)"
    "s' = (with_bit True (unat frame) s)\<lparr>phys_mem_used_blocks := phys_mem_used_blocks s + 1\<rparr>"
    by (rule phys_mem_alloc_above_ok [OF inv free assms(2,3)])
  have r: "frame_of r = unat frame" "unat r mod 4096 = 0" unfolding f(2) by simp_all
  have "pm_ready s'" using pm_inv_take [OF inv f(4,5)] free f(6) by (simp add: pm_ready_def)
  moreover have "used_below s' = insert (unat frame) (used_below s)"
    using used_below_with_bit [OF pm_inv_block(2) [OF inv f(4)], of True] f(4,6) by simp
  moreover have "unat frame \<notin> used_below s" using f(5) by (simp add: used_below_def)
  ultimately show ?thesis using r by simp
qed

lemma pm_ready_dealloc:
  assumes "pm_ready s" "frame_of a \<in> used_below s"
  shows "\<exists>s'. phys_mem_dealloc a s = Inr (ERROR_OK, s') \<and> pm_ready s' \<and>
    used_below s' = used_below s - {frame_of a}"
proof -
  from assms have inv: "pm_inv s" and free: "\<not> lock_held (phys_mem_lock s)"
    and b: "frame_of a < unat (phys_mem_max_blocks s)" "block_used s (frame_of a)"
    by (simp_all add: pm_ready_def used_below_def)
  show ?thesis
    using phys_mem_dealloc_eq [OF inv free b(1)] pm_inv_give [OF inv b] free
      used_below_with_bit [of "frame_of a" s False] pm_inv_block [OF inv b(1)]
    by (simp add: pm_ready_def)
qed

text \<open>Whole regions: \<open>region base len\<close> is the set of its blocks.\<close>

abbreviation region :: "u32 \<Rightarrow> u32 \<Rightarrow> nat set" where
  "region base len \<equiv> {frame_of base ..< frame_of base + frame_of len}"

lemma region_run:
  assumes "pm_ready s" "unat base mod 4096 = 0" "unat len mod 4096 = 0"
    "frame_of base + frame_of len \<le> unat (phys_mem_max_blocks s)"
  shows "\<exists>s'. phys_mem_reserve_region base len s = Inr (ERROR_OK, s') \<and> pm_ready s' \<and>
      phys_mem_max_blocks s' = phys_mem_max_blocks s \<and>
      (\<forall>b. block_used s' b \<longleftrightarrow> block_used s b \<or>
         b < frame_of base + frame_of len \<and> in_run False s (frame_of base) b)"
    and "\<exists>s'. phys_mem_free_region base len s = Inr (ERROR_OK, s') \<and> pm_ready s' \<and>
      phys_mem_max_blocks s' = phys_mem_max_blocks s \<and>
      (\<forall>b. block_used s' b \<longleftrightarrow> block_used s b \<and>
         \<not> (b < frame_of base + frame_of len \<and> in_run True s (frame_of base) b))"
proof -
  from assms(1) have inv: "pm_inv s" and free: "\<not> lock_held (phys_mem_lock s)"
    by (simp_all add: pm_ready_def)
  have al: "base mod 4096 = 0" "len mod 4096 = 0"
    using assms(2,3) by (simp_all add: word_unat_eq_iff word_nat)
  let ?s1 = "s\<lparr>phys_mem_lock := phys_mem_lock s OR 1\<rparr>"
  have fit: "pm_inv ?s1" "unat (base div 4096) + frame_of len \<le> unat (phys_mem_max_blocks ?s1)"
    using inv assms(4) by (simp_all add: word_nat)
  have run: "in_run u ?s1 = in_run u s" for u by (simp add: in_run_def fun_eq_iff)
  note defs = phys_mem_reserve_region_def phys_mem_free_region_def pm_acquire_def pm_release_def
    word_nat pm_ready_def
  show "\<exists>s'. phys_mem_reserve_region base len s = Inr (ERROR_OK, s') \<and> pm_ready s' \<and>
      phys_mem_max_blocks s' = phys_mem_max_blocks s \<and>
      (\<forall>b. block_used s' b \<longleftrightarrow> block_used s b \<or>
         b < frame_of base + frame_of len \<and> in_run False s (frame_of base) b)"
    using reserve_loop_spec [OF fit] al free unfolding run by (auto simp: defs)
  show "\<exists>s'. phys_mem_free_region base len s = Inr (ERROR_OK, s') \<and> pm_ready s' \<and>
      phys_mem_max_blocks s' = phys_mem_max_blocks s \<and>
      (\<forall>b. block_used s' b \<longleftrightarrow> block_used s b \<and>
         \<not> (b < frame_of base + frame_of len \<and> in_run True s (frame_of base) b))"
    using free_loop_spec [OF fit] al free unfolding run by (auto simp: defs)
qed

lemma init_result:
  assumes "unat kb < 2 ^ 22" "unat kb div 4 \<le> 32 * length memory" "length memory \<le> 2 ^ 26"
    "\<not> lock_held (phys_mem_lock s)"
  shows "\<exists>s'. phys_mem_init kb base memory s = Inr s' \<and>
    unat (phys_mem_max_blocks s') = unat kb div 4 \<and>
    phys_mem_get_free_blocks_count s' = 0 \<and>
    (\<forall>b < 8 * (unat kb div 4 div 8). block_used s' b) \<and>
    (unat kb div 4 mod 8 = 0 \<longrightarrow> pm_ready s')"
proof -
  let ?n = "unat kb div 4"
  have kb: "unat (kb * 1024) = unat kb * 1024"
    using assms(1) by (simp add: unat_word_ariths)
  then have blocks: "unat (kb * 1024 div 4096) = ?n" by (simp add: word_nat)
  have bytes: "unat (kb * 1024 div 4096 div 8) = ?n div 8" using blocks by (simp only: word_nat) simp
  have fit: "?n div 8 \<le> 4 * length memory" using assms(2) by linarith
  then obtain bm where bm: "fill_ff (?n div 8) memory = Inr bm" using fill_ff_total by blast
  define s' where "s' = s\<lparr>phys_mem_memory_size := kb, phys_mem_bitmap_base := base,
    phys_mem_bitmap := bm, phys_mem_max_blocks := kb * 1024 div 4096,
    phys_mem_used_blocks := kb * 1024 div 4096\<rparr>"
  have res: "phys_mem_init kb base memory s = Inr s'"
    using bm bytes by (simp add: phys_mem_init_def phys_mem_get_bitmap_size_def
        phys_mem_get_block_count_def s'_def Let_def)
  have max: "unat (phys_mem_max_blocks s') = ?n" "unat (phys_mem_used_blocks s') = ?n"
    using blocks by (simp_all add: s'_def)
  have used: "block_used s' b" if "b < 8 * (?n div 8)" for b
    using that fill_ff_bits [OF bm, of b] fill_ff_length [OF bm] assms(2)
    by (simp add: block_used_def s'_def)
  have "pm_ready s'" if "?n mod 8 = 0"
  proof -
    have "8 * (?n div 8) = ?n" using that by (simp add: mod_eq_0_iff_dvd)
    with used max have "used_below s' = {..< ?n}" by (auto simp: used_below_def)
    moreover have "?n < 2 ^ 20" using assms(1) by simp
    moreover have "length (phys_mem_bitmap s') = length memory" "phys_mem_lock s' = phys_mem_lock s"
      using fill_ff_length [OF bm] by (simp_all add: s'_def)
    ultimately show ?thesis unfolding pm_ready_def pm_inv_def max using assms(2-4) by simp
  qed
  moreover have "phys_mem_get_free_blocks_count s' = 0"
    by (simp add: phys_mem_get_free_blocks_count_def s'_def)
  ultimately show ?thesis using res max(1) used by (intro exI [of _ s'] conjI allI impI)
qed

interpretation pmem: frame_allocator phys_mem_alloc phys_mem_dealloc pm_ready used_below
proof
  show "\<exists>r s'. phys_mem_alloc s = Inr (r, s')" if "pm_ready s" for s
    using that by (simp add: phys_mem_alloc_def pm_ready_def phys_mem_alloc_above_total)
qed (simp add: phys_mem_alloc_def pm_ready_alloc_above, rule pm_ready_dealloc)

interpretation pmem_1mb: frame_allocator phys_mem_alloc_above_1mb phys_mem_dealloc pm_ready used_below
proof
  show "\<exists>r s'. phys_mem_alloc_above_1mb s = Inr (r, s')" if "pm_ready s" for s
    using that by (simp add: phys_mem_alloc_above_1mb_def pm_ready_def phys_mem_alloc_above_total)
qed (simp add: phys_mem_alloc_above_1mb_def pm_ready_alloc_above, rule pm_ready_dealloc)

section \<open>Properties\<close>

text \<open>The state the witnesses start from: 32 blocks, the first two in use.\<close>

definition pm_example :: phys_mem where
  "pm_example = \<lparr>phys_mem_memory_size = 128, phys_mem_used_blocks = 2, phys_mem_max_blocks = 32,
     phys_mem_bitmap_base = 0x1000, phys_mem_bitmap = [3], phys_mem_lock = 0\<rparr>"

lemma used_below_code:
  "used_below s = set (filter (block_used s) [0..<unat (phys_mem_max_blocks s)])"
  by (auto simp: used_below_def)

lemma pm_inv_code:
  "pm_inv s \<longleftrightarrow> unat (phys_mem_max_blocks s) < 2 ^ 20 \<and>
     unat (phys_mem_max_blocks s) \<le> 32 * length (phys_mem_bitmap s) \<and>
     length (phys_mem_bitmap s) \<le> 2 ^ 26 \<and>
     unat (phys_mem_used_blocks s) = length (filter (block_used s) [0..<unat (phys_mem_max_blocks s)])"
proof -
  have "card (used_below s) = length (filter (block_used s) [0..<unat (phys_mem_max_blocks s)])"
    unfolding used_below_code by (rule distinct_card) simp
  then show ?thesis by (simp add: pm_inv_def)
qed

lemma pm_ready_example: "pm_ready pm_example"
proof -
  have "block_used pm_example b \<longleftrightarrow> b < 2" if "b < 32" for b
    using that by (auto simp: pm_example_def block_used_def bit_numeral_rec numeral_2_eq_2 less_Suc_eq
      bit_0 split: nat.split)
  then have "used_below pm_example = {0, 1}"
    by (auto simp: used_below_def pm_example_def)
  then show ?thesis by (simp add: pm_ready_def pm_inv_def pm_example_def)
qed

text \<open>
  C5. An allocation above an address, started in a good state, returns.  A non-zero answer is a
  page-aligned address of a block that was free, that lies inside the memory and at or above the
  given address rounded down to a multiple of 4096 (so possibly below an address that is none);
  exactly that block becomes used, the counter moves by one, the invariant is kept and the lock is
  free again.  The answer 0 leaves every block as it was.
\<close>

theorem phys_mem_alloc_above_spec:
  assumes "pm_ready s"
  shows "\<exists>r s'. phys_mem_alloc_above addr s = Inr (r, s') \<and> pm_inv s' \<and>
    (if r = 0 then used_below s' = used_below s
     else \<not> lock_held (phys_mem_lock s') \<and> unat r mod 4096 = 0 \<and> frame_of addr \<le> frame_of r \<and>
       unat addr - unat addr mod 4096 \<le> unat r \<and> frame_of r < unat (phys_mem_max_blocks s) \<and> frame_of r \<notin> used_below s \<and>
       used_below s' = insert (frame_of r) (used_below s) \<and>
       phys_mem_used_blocks s' = phys_mem_used_blocks s + 1)"
proof -
  from assms have inv: "pm_inv s" and free: "\<not> lock_held (phys_mem_lock s)"
    by (simp_all add: pm_ready_def)
  obtain r s' where r: "phys_mem_alloc_above addr s = Inr (r, s')"
    using phys_mem_alloc_above_total [OF inv free] by blast
  show ?thesis
  proof (cases "r = 0")
    case True
    have "pm_inv s' \<and> used_below s' = used_below s"
      using inv free
    proof (cases rule: phys_mem_alloc_above_cases [of s addr])
      case (found i frame s1)
      have "unat frame < 2 ^ 20" using found inv by (auto simp: search_spec_def pm_inv_def)
      with found r True show ?thesis using unat_frame_addr [of frame] by auto
    qed (use r inv in auto)
    with r True show ?thesis by auto
  next
    case False
    obtain frame where f: "r = frame * 4096" "unat r = unat frame * 4096"
    "unat addr div 4096 \<le> unat frame" "unat frame < unat (phys_mem_max_blocks s)"
    "\<not> block_used s (unat frame)"
    "s' = (with_bit True (unat frame) s)\<lparr>phys_mem_used_blocks := phys_mem_used_blocks s + 1\<rparr>"
    by (rule phys_mem_alloc_above_ok [OF inv free r False])
    have "frame_of r = unat frame" unfolding f(2) by simp
    moreover have "unat addr - unat addr mod 4096 \<le> unat r"
      using f(3) unfolding f(2) by (simp add: minus_mod_eq_div_mult)
    ultimately show ?thesis using f pm_ready_alloc_above [OF assms r False] r False
      by (auto simp: pm_ready_def)
  qed
qed

text \<open>
  C26. Giving back the block an allocation just returned undoes the allocation completely: the
  whole state is the one before.
\<close>

theorem phys_mem_dealloc_alloc:
  assumes "pm_ready s" "phys_mem_alloc_above addr s = Inr (r, s')" "r \<noteq> 0"
  shows "phys_mem_dealloc r s' = Inr (ERROR_OK, s)"
proof -
  from assms(1) have inv: "pm_inv s" and free: "\<not> lock_held (phys_mem_lock s)"
    by (simp_all add: pm_ready_def)
  obtain frame where f: "r = frame * 4096" "unat r = unat frame * 4096"
    "unat addr div 4096 \<le> unat frame" "unat frame < unat (phys_mem_max_blocks s)"
    "\<not> block_used s (unat frame)"
    "s' = (with_bit True (unat frame) s)\<lparr>phys_mem_used_blocks := phys_mem_used_blocks s + 1\<rparr>"
    by (rule phys_mem_alloc_above_ok [OF inv free assms(2,3)])
  have fr: "frame_of r = unat frame" unfolding f(2) by simp
  have "pm_inv s'" "\<not> lock_held (phys_mem_lock s')"
    using pm_ready_alloc_above [OF assms] by (simp_all add: pm_ready_def)
  then have "phys_mem_dealloc r s' = Inr (ERROR_OK,
    (with_bit False (unat frame) s')\<lparr>phys_mem_used_blocks := phys_mem_used_blocks s' - 1\<rparr>)"
    using phys_mem_dealloc_eq [of s' r] f fr by simp
  moreover have "with_bit False (unat frame) (with_bit True (unat frame) s) = s"
    using with_bit_restore [OF pm_inv_block(2) [OF inv f(4)], of False] f(5) by simp
  then have "(with_bit False (unat frame) s')\<lparr>phys_mem_used_blocks := phys_mem_used_blocks s' - 1\<rparr> = s"
    unfolding f(6) by (simp add: with_bit_def)
  ultimately show ?thesis by simp
qed

text \<open>
  An allocation that finds the counter above zero but no free block in the words it searches
  answers 0 and keeps the lock: from then on freeing spins for ever, and so does allocating.
\<close>

theorem phys_mem_alloc_above_keeps_lock:
  assumes "pm_ready s" "phys_mem_get_free_blocks_count s \<noteq> 0"
    "phys_mem_alloc_above addr s = Inr (0, s')"
  shows "lock_held (phys_mem_lock s') \<and> phys_mem_dealloc block s' = Inl SpinForever \<and>
    phys_mem_alloc_above addr' s' = Inl SpinForever"
proof -
  from assms(1) have inv: "pm_inv s" and free: "\<not> lock_held (phys_mem_lock s)"
    by (simp_all add: pm_ready_def)
  from inv free have "s' = s\<lparr>phys_mem_lock := phys_mem_lock s OR 1\<rparr>"
  proof (cases rule: phys_mem_alloc_above_cases [of s addr])
    case (found i frame s1)
    have "unat frame < 2 ^ 20" using found inv by (auto simp: search_spec_def pm_inv_def)
    with found assms(3) show ?thesis using unat_frame_addr [of frame] by auto
  qed (use assms(2,3) in auto)
  with assms(2) show ?thesis
    by (simp add: phys_mem_dealloc_def phys_mem_alloc_above_def pm_acquire_def acquire_spinlock_def
        phys_mem_get_free_blocks_count_def Let_def)
qed

text \<open>
  What reserving and freeing a region really do, for a region inside the memory: only the run
  of blocks from its first block on that are all in the opposite state changes; the rest of the
  region stays as it was.  When the whole region is in that state, all of it changes.
\<close>

theorem phys_mem_region_run:
  assumes "pm_ready s" "unat base mod 4096 = 0" "unat len mod 4096 = 0"
    "frame_of base + frame_of len \<le> unat (phys_mem_max_blocks s)"
  shows "(\<exists>s'. phys_mem_reserve_region base len s = Inr (ERROR_OK, s') \<and> pm_ready s' \<and>
      (\<forall>b. block_used s' b \<longleftrightarrow> block_used s b \<or>
         b < frame_of base + frame_of len \<and> in_run False s (frame_of base) b)) \<and>
    (\<exists>s'. phys_mem_free_region base len s = Inr (ERROR_OK, s') \<and> pm_ready s' \<and>
      (\<forall>b. block_used s' b \<longleftrightarrow> block_used s b \<and>
         \<not> (b < frame_of base + frame_of len \<and> in_run True s (frame_of base) b)))"
  using region_run [OF assms] by blast

text \<open>
  After initialisation the counters say that every block is in use, and every block below the
  last multiple of 8 is marked in use; when the number of blocks is a multiple of 8 the manager is
  ready.
\<close>

theorem phys_mem_init_spec:
  assumes "unat kb < 2 ^ 22" "unat kb div 4 \<le> 32 * length memory" "length memory \<le> 2 ^ 26"
    "\<not> lock_held (phys_mem_lock s)"
  shows "\<exists>s'. phys_mem_init kb base memory s = Inr s' \<and>
    unat (phys_mem_max_blocks s') = unat kb div 4 \<and>
    phys_mem_get_free_blocks_count s' = 0 \<and>
    (\<forall>b < 8 * (unat kb div 4 div 8). block_used s' b) \<and>
    (unat kb div 4 mod 8 = 0 \<longrightarrow> pm_ready s')"
  using init_result [OF assms] .

section \<open>Witnesses\<close>

lemma phys_mem_alloc_above_spec_witness:
  "\<exists>r s'. phys_mem_alloc_above 0 pm_example = Inr (r, s') \<and> pm_inv s'"
  using phys_mem_alloc_above_spec [OF pm_ready_example, of 0] by blast

text \<open>The address asked for is rounded down: the block handed out may begin below it.\<close>

lemma phys_mem_alloc_above_rounds_down:
  "phys_mem_alloc_above 0x20001 (pm_example\<lparr>phys_mem_max_blocks := 64, phys_mem_bitmap := [3, 0]\<rparr>) =
     Inr (0x20000, pm_example\<lparr>phys_mem_max_blocks := 64, phys_mem_used_blocks := 3, phys_mem_bitmap := [3, 1]\<rparr>)"
  by code_simp

lemma pm_example_alloc:
  "phys_mem_alloc_above 0 pm_example =
     Inr (0x2000, pm_example\<lparr>phys_mem_used_blocks := 3, phys_mem_bitmap := [7]\<rparr>)"
  by code_simp

lemma phys_mem_dealloc_alloc_witness:
  "phys_mem_dealloc 0x2000 (pm_example\<lparr>phys_mem_used_blocks := 3, phys_mem_bitmap := [7]\<rparr>) =
     Inr (ERROR_OK, pm_example)"
  by (rule phys_mem_dealloc_alloc [OF pm_ready_example pm_example_alloc]) simp

lemma phys_mem_alloc_above_keeps_lock_witness:
  "phys_mem_dealloc 0 (pm_example\<lparr>phys_mem_lock := 1\<rparr>) = Inl SpinForever"
proof -
  have "phys_mem_get_free_blocks_count pm_example \<noteq> 0"
    by (simp add: phys_mem_get_free_blocks_count_def pm_example_def)
  moreover have "phys_mem_alloc_above 0x100000 pm_example = Inr (0, pm_example\<lparr>phys_mem_lock := 1\<rparr>)"
    by code_simp
  ultimately show ?thesis using phys_mem_alloc_above_keeps_lock [OF pm_ready_example] by blast
qed

lemma phys_mem_region_run_witness:
  "\<exists>s'. phys_mem_reserve_region 0x1000 0x3000 pm_example = Inr (ERROR_OK, s') \<and> pm_ready s'"
  using phys_mem_region_run [of pm_example "0x1000" "0x3000"] pm_ready_example
  by (auto simp: pm_example_def)

lemma phys_mem_init_spec_witness:
  "\<exists>s'. phys_mem_init 256 0x1000 [0, 0] (pm_example\<lparr>phys_mem_lock := 0\<rparr>) = Inr s' \<and> pm_ready s'"
  using phys_mem_init_spec [where kb = 256 and memory = "[0, 0]" and base = "0x1000"
    and s = "pm_example\<lparr>phys_mem_lock := 0\<rparr>"]
  by auto

end
