(* ===== verification/Block_Heap.thy ===== *)
theory Block_Heap
  imports Libk_Memory
begin

text \<open>
  What the clients of a heap rely on.  \<open>rep m L\<close>: the memory \<open>m\<close> holds a heap whose live
  blocks are \<open>L\<close>, pairs of an address and the number of bytes there.  Allocation always
  returns; it either answers 0 and changes no live block, or hands out a new block of at least
  the size asked for; live blocks do not overlap, keep their contents while others come and go,
  and may be written to by their owner.
\<close>

locale block_heap =
  fixes alloc :: "u32 \<Rightarrow> memory \<Rightarrow> (u32 \<times> memory) option"
    and dealloc :: "u32 \<Rightarrow> memory \<Rightarrow> u32 \<times> memory"
    and rep :: "memory \<Rightarrow> (nat \<times> nat) set \<Rightarrow> bool"
  assumes alloc_returns: "rep m L \<Longrightarrow> \<exists>p m'. alloc r m = Some (p, m')"
    and alloc_fails: "rep m L \<Longrightarrow> alloc r m = Some (0, m') \<Longrightarrow> rep m' L"
    and alloc_gives: "rep m L \<Longrightarrow> alloc r m = Some (p, m') \<Longrightarrow> p \<noteq> 0 \<Longrightarrow>
      \<exists>k. unat r \<le> k \<and> unat p \<notin> fst ` L \<and> rep m' (insert (unat p, k) L)"
    and alloc_keeps: "rep m L \<Longrightarrow> alloc r m = Some (p, m') \<Longrightarrow> (q, j) \<in> L \<Longrightarrow>
      q \<le> unat x \<Longrightarrow> unat x < q + j \<Longrightarrow> m' x = m x"
    and dealloc_takes: "rep m L \<Longrightarrow> (unat p, k) \<in> L \<Longrightarrow>
      \<exists>m'. dealloc p m = (0, m') \<and> rep m' (L - {(unat p, k)}) \<and>
        (\<forall>q j x. (q, j) \<in> L \<longrightarrow> q \<noteq> unat p \<longrightarrow> q \<le> unat x \<longrightarrow> unat x < q + j \<longrightarrow> m' x = m x)"
    and live_apart: "rep m L \<Longrightarrow> (a, k) \<in> L \<Longrightarrow> (q, j) \<in> L \<Longrightarrow> a < q \<Longrightarrow> a + k \<le> q"
    and live_size: "rep m L \<Longrightarrow> (a, k) \<in> L \<Longrightarrow> (a, j) \<in> L \<Longrightarrow> k = j"
    and live_write: "rep m L \<Longrightarrow> (a, k) \<in> L \<Longrightarrow> only_in m m' {a..<a + k} \<Longrightarrow> rep m' L"
begin

text \<open>A new block shares no byte with a live one.\<close>

lemma alloc_apart:
  assumes "rep m L" "alloc r m = Some (p, m')" "p \<noteq> 0" "(q, j) \<in> L"
  obtains k where "unat r \<le> k" "rep m' (insert (unat p, k) L)"
    "unat p + k \<le> q \<or> q + j \<le> unat p"
proof -
  obtain k where k: "unat r \<le> k" "unat p \<notin> fst ` L" "rep m' (insert (unat p, k) L)"
    using alloc_gives [OF assms(1-3)] by blast
  have "unat p \<noteq> q" using k(2) assms(4) by force
  then have "unat p + k \<le> q \<or> q + j \<le> unat p"
    using live_apart [OF k(3), of "unat p" k q j] live_apart [OF k(3), of q j "unat p" k] assms(4)
    by (meson insertI1 insertI2 nat_neq_iff)
  with k that show thesis by blast
qed

text \<open>Whatever the owner of a new block writes into it, the other live blocks keep their bytes.\<close>

lemma new_block_private:
  assumes "rep m L" "alloc r m = Some (p, m')" "p \<noteq> 0" "(q, j) \<in> L"
    and "only_in m' m'' {unat p..<unat p + unat r}" "q \<le> unat x" "unat x < q + j"
  shows "m'' x = m x"
proof -
  obtain k where k: "unat r \<le> k" "unat p + k \<le> q \<or> q + j \<le> unat p"
    using alloc_apart [OF assms(1-4)] by blast
  then have "m'' x = m' x" using assms(5-7) by (auto simp: only_in_def)
  with alloc_keeps [OF assms(1,2,4,6,7)] show ?thesis by simp
qed

lemma alloc_then_free:
  assumes "rep m L" "alloc r m = Some (p, m')" "p \<noteq> 0"
  shows "\<exists>m''. dealloc p m' = (0, m'') \<and> rep m'' L"
proof -
  obtain k where k: "unat p \<notin> fst ` L" "rep m' (insert (unat p, k) L)"
    using alloc_gives [OF assms] by blast
  have "(unat p, k) \<notin> L" using k(1) by force
  with dealloc_takes [OF k(2) insertI1] show ?thesis by auto
qed

end

end
