(* ===== verification/Heap_Manager.thy ===== *)
theory Heap_Manager
  imports Block_Heap
begin

text \<open>
  The kernel heap, \<^verbatim>\<open>heap_manager.c\<close>, over byte-addressed memory: the \<^verbatim>\<open>heap_t\<close> at the
  address \<open>h\<close> and the chain of \<^verbatim>\<open>heap_block_t\<close> headers are read and written in memory as
  the code does, so that a corrupted chain is a possible input.  The loops that follow
  \<^verbatim>\<open>next\<close> pointers may then not end and are \<open>partial_function\<close>s: \<open>None\<close> is not ending.

  The second half relates a well-formed chain to the list of its blocks (used or not, and how
  many bytes of payload) and every operation to a short function on such lists.
\<close>

unbundle bit_operations_syntax

section \<open>The structures in memory\<close>

text \<open>\<^verbatim>\<open>heap_block_t\<close>: magic (16 bits), used, flags, next; 8 bytes.\<close>

definition HEAP_BLOCK_MAGIC :: u16 where "HEAP_BLOCK_MAGIC = 0x1F2E"

definition blk_magic :: "memory \<Rightarrow> u32 \<Rightarrow> u16" where "blk_magic m b = load16 m b"
definition blk_used :: "memory \<Rightarrow> u32 \<Rightarrow> u8" where "blk_used m b = m (b + 2)"
definition blk_flags :: "memory \<Rightarrow> u32 \<Rightarrow> u8" where "blk_flags m b = m (b + 3)"
definition blk_next :: "memory \<Rightarrow> u32 \<Rightarrow> u32" where "blk_next m b = load32 m (b + 4)"

definition set_used :: "u32 \<Rightarrow> u8 \<Rightarrow> memory \<Rightarrow> memory" where "set_used b v m = m(b + 2 := v)"
definition set_next :: "u32 \<Rightarrow> u32 \<Rightarrow> memory \<Rightarrow> memory" where "set_next b n m = store32 m (b + 4) n"

text \<open>\<^verbatim>\<open>heap_t\<close>: start_address, size, current_blocks; 12 bytes.\<close>

definition heap_start_address :: "memory \<Rightarrow> u32 \<Rightarrow> u32" where "heap_start_address m h = load32 m h"
definition heap_size :: "memory \<Rightarrow> u32 \<Rightarrow> u32" where "heap_size m h = load32 m (h + 4)"
definition heap_current_blocks :: "memory \<Rightarrow> u32 \<Rightarrow> u32" where
  "heap_current_blocks m h = load32 m (h + 8)"

definition set_current_blocks :: "u32 \<Rightarrow> u32 \<Rightarrow> memory \<Rightarrow> memory" where
  "set_current_blocks h n m = store32 m (h + 8) n"

section \<open>Operations\<close>

definition heap_block_t_size :: "u32 \<Rightarrow> u32 \<Rightarrow> memory \<Rightarrow> u32" where
  "heap_block_t_size h b m =
     (if blk_next m b = 0 then heap_start_address m h + heap_size m h - b - 8
      else blk_next m b - b - 8)"

definition heap_block_t_start_address :: "u32 \<Rightarrow> u32" where
  "heap_block_t_start_address b = b + 8"

definition heap_front_merge_block :: "u32 \<Rightarrow> u32 \<Rightarrow> memory \<Rightarrow> memory" where
  "heap_front_merge_block h b m =
     (let m = set_next b (blk_next m (blk_next m b)) m
      in set_current_blocks h (heap_current_blocks m h - 1) m)"

definition heap_is_next_unused :: "u32 \<Rightarrow> memory \<Rightarrow> bool" where
  "heap_is_next_unused prev m \<longleftrightarrow> blk_next m prev \<noteq> 0 \<and> blk_used m (blk_next m prev) = 0"

definition heap_block_t_create :: "u32 \<Rightarrow> u32 \<Rightarrow> u8 \<Rightarrow> u32 \<Rightarrow> u8 \<Rightarrow> memory \<Rightarrow> memory" where
  "heap_block_t_create h base used nxt flags m =
     (let m = store16 m base HEAP_BLOCK_MAGIC;
          m = set_used base used m;
          m = set_next base nxt m;
          m = m(base + 3 := flags)
      in set_current_blocks h (heap_current_blocks m h + 1) m)"

partial_function (option) fit_loop :: "u32 \<Rightarrow> u32 \<Rightarrow> u32 \<Rightarrow> memory \<Rightarrow> memory option" where
  "fit_loop h prev r_size m =
     (if blk_next m prev \<noteq> 0 \<and> r_size > heap_block_t_size h prev m then
        (if heap_is_next_unused prev m then fit_loop h prev r_size (heap_front_merge_block h prev m)
         else Some m)
      else Some m)"

definition heap_front_merge_size_fit :: "u32 \<Rightarrow> u32 \<Rightarrow> u32 \<Rightarrow> memory \<Rightarrow> (bool \<times> memory) option" where
  "heap_front_merge_size_fit h prev r_size m =
     map_option (\<lambda>m. (r_size \<le> heap_block_t_size h prev m, m)) (fit_loop h prev r_size m)"

definition heap_create :: "u32 \<Rightarrow> u32 \<Rightarrow> memory \<Rightarrow> u32 \<times> memory" where
  "heap_create base sz m =
     (let m = store32 m base (base + 12);
          m = store32 m (base + 4) (sz - 12);
          m = set_current_blocks base 0 m
      in (base, heap_block_t_create base (heap_start_address m base) 0 0 0 m))"

text \<open>What heap_alloc does with the block that fits.\<close>

definition take_block :: "u32 \<Rightarrow> u32 \<Rightarrow> u32 \<Rightarrow> memory \<Rightarrow> u32 \<times> memory" where
  "take_block h block r_size m =
     (let size = heap_block_t_size h block m;
          m = (if r_size + 8 < size then
                 let new_block = block + 8 + r_size;
                     m = heap_block_t_create h new_block 0 (blk_next m block) (blk_flags m block) m
                 in set_next block new_block m
               else m)
      in (heap_block_t_start_address block, set_used block 1 m))"

partial_function (option) alloc_loop :: "u32 \<Rightarrow> u32 \<Rightarrow> u32 \<Rightarrow> memory \<Rightarrow> (u32 \<times> memory) option" where
  "alloc_loop h block r_size m =
     (if block = 0 then Some (0, m)
      else if blk_magic m block \<noteq> HEAP_BLOCK_MAGIC then Some (0, m)
      else if blk_used m block = 1 then alloc_loop h (blk_next m block) r_size m
      else Option.bind (heap_front_merge_size_fit h block r_size m) (\<lambda>(fits, m).
             if fits then Some (take_block h block r_size m)
             else alloc_loop h (blk_next m block) r_size m))"

definition heap_alloc :: "u32 \<Rightarrow> u32 \<Rightarrow> memory \<Rightarrow> (u32 \<times> memory) option" where
  "heap_alloc h r_size m =
     (if h = 0 \<or> r_size = 0 then Some (0, m)
      else alloc_loop h (heap_start_address m h) r_size m)"

definition heap_free :: "u32 \<Rightarrow> u32 \<Rightarrow> memory \<Rightarrow> u32 \<times> memory" where
  "heap_free h address m =
     (if h = 0 \<or> address = 0 then (1, m)
      else let block = address - 8 in
        if blk_magic m block \<noteq> HEAP_BLOCK_MAGIC then (1, m)
        else
          let m = set_used block 0 m;
              m = (if blk_next m block \<noteq> 0 \<and> blk_used m (blk_next m block) = 0
                   then let m = set_next block (blk_next m (blk_next m block)) m
                        in set_current_blocks h (heap_current_blocks m h - 1) m
                   else m)
          in (0, m))"

partial_function (option) defrag_loop :: "u32 \<Rightarrow> u32 \<Rightarrow> u32 \<Rightarrow> memory \<Rightarrow> (u32 \<times> memory) option" where
  "defrag_loop h block blocks_merged m =
     (if block = 0 then Some (blocks_merged, m)
      else if blk_used m block = 0 \<and> blk_next m block \<noteq> 0 \<and> blk_used m (blk_next m block) = 0 then
        defrag_loop h block (blocks_merged + 1) (heap_front_merge_block h block m)
      else defrag_loop h (blk_next m block) blocks_merged m)"

definition heap_defrag :: "u32 \<Rightarrow> memory \<Rightarrow> (u32 \<times> memory) option" where
  "heap_defrag h m = (if h = 0 then Some (0, m) else defrag_loop h (heap_start_address m h) 0 m)"

text \<open>
  heap_alloc_a does not look at the answer of heap_alloc.  \<^verbatim>\<open>align = 0\<close> divides by zero.
\<close>

definition heap_alloc_a :: "u32 \<Rightarrow> u32 \<Rightarrow> u32 \<Rightarrow> memory \<Rightarrow> (u32 \<times> memory) res" where
  "heap_alloc_a h r_size align m =
     res_bind (returns (heap_alloc h (r_size + align + 4) m)) (\<lambda>(mem, m).
       if align = 0 then Inl DivideByZero
       else
         let padding = (if (mem + 4) mod align \<noteq> 0 then align - (mem + 4) mod align else 0);
             ret_ptr = mem + 4 + padding
         in Inr (ret_ptr, store32 m (ret_ptr - 4) padding))"

definition heap_free_a :: "u32 \<Rightarrow> u32 \<Rightarrow> memory \<Rightarrow> u32 \<times> memory" where
  "heap_free_a h address m =
     (let pad = load32 m (address - 4); block = address - pad - 4
      in heap_free h block m)"

section \<open>Chains\<close>

text \<open>
  A block is described by whether it is used and by the size of its payload.  \<open>chain m e a bs\<close>:
  the headers in memory from \<open>a\<close> on describe exactly the blocks \<open>bs\<close>, the payload of the last
  one ending at \<open>e\<close>.
\<close>

type_synonym blocks = "(bool \<times> nat) list"

definition hdr :: "memory \<Rightarrow> nat \<Rightarrow> bool \<Rightarrow> nat \<Rightarrow> bool" where
  "hdr m a u n \<longleftrightarrow> blk_magic m (of_nat a) = HEAP_BLOCK_MAGIC \<and>
     blk_used m (of_nat a) = (if u then 1 else 0) \<and> blk_next m (of_nat a) = of_nat n"

fun span :: "blocks \<Rightarrow> nat" where
  "span [] = 0"
| "span ((u, n) # bs) = 8 + n + span bs"

text \<open>\<open>linked m a bs z\<close>: the same for a part of the chain whose last block points to \<open>z\<close>.\<close>

fun linked :: "memory \<Rightarrow> nat \<Rightarrow> blocks \<Rightarrow> nat \<Rightarrow> bool" where
  "linked m a [] z \<longleftrightarrow> True"
| "linked m a ((u, n) # bs) z \<longleftrightarrow>
     hdr m a u (if bs = [] then z else a + 8 + n) \<and> linked m (a + 8 + n) bs z"

definition chain :: "memory \<Rightarrow> nat \<Rightarrow> nat \<Rightarrow> blocks \<Rightarrow> bool" where
  "chain m e a bs \<longleftrightarrow> bs \<noteq> [] \<and> linked m a bs 0 \<and> a + span bs = e"

text \<open>The whole heap at \<open>h\<close>: its master, then the chain from \<open>s\<close> to \<open>e\<close>.\<close>

definition master :: "memory \<Rightarrow> u32 \<Rightarrow> nat \<Rightarrow> nat \<Rightarrow> nat \<Rightarrow> bool" where
  "master m h s e c \<longleftrightarrow> heap_start_address m h = of_nat s \<and> heap_size m h = of_nat (e - s) \<and>
     heap_current_blocks m h = of_nat c"

definition heap_ok :: "memory \<Rightarrow> u32 \<Rightarrow> nat \<Rightarrow> nat \<Rightarrow> blocks \<Rightarrow> bool" where
  "heap_ok m h s e bs \<longleftrightarrow> h \<noteq> 0 \<and> unat h + 12 \<le> s \<and> e < 4294967296 \<and>
     master m h s e (length bs) \<and> chain m e s bs"

text \<open>The payloads in use, and the bytes of the free blocks (headers included).\<close>

fun payloads :: "nat \<Rightarrow> blocks \<Rightarrow> (nat \<times> nat) list" where
  "payloads a [] = []"
| "payloads a ((u, n) # bs) =
     (if u then (a + 8, n) # payloads (a + 8 + n) bs else payloads (a + 8 + n) bs)"

fun free_bytes :: "nat \<Rightarrow> blocks \<Rightarrow> nat set" where
  "free_bytes a [] = {}"
| "free_bytes a ((u, n) # bs) =
     (if u then {} else {a..<a + 8 + n}) \<union> free_bytes (a + 8 + n) bs"

lemma span_append [simp]: "span (bs @ cs) = span bs + span cs"
  by (induction bs) auto

lemma span_pos: "bs \<noteq> [] \<Longrightarrow> 8 \<le> span bs"
  by (cases bs) auto

lemma linked_append:
  "linked m a (bs @ cs) z \<longleftrightarrow>
     linked m a bs (if cs = [] then z else a + span bs) \<and> linked m (a + span bs) cs z"
proof (induction bs arbitrary: a)
  case (Cons b bs)
  obtain u n where "b = (u, n)" by (cases b)
  with Cons [of "a + 8 + n"] show ?case by (cases "bs = []") (auto simp: add.assoc)
qed simp

lemma free_bytes_append [simp]:
  "free_bytes a (bs @ cs) = free_bytes a bs \<union> free_bytes (a + span bs) cs"
  by (induction bs arbitrary: a) (auto simp: add.assoc)

lemma payloads_append [simp]:
  "payloads a (bs @ cs) = payloads a bs @ payloads (a + span bs) cs"
  by (induction bs arbitrary: a) (auto simp: add.assoc)

lemma free_bytes_range: "free_bytes a bs \<subseteq> {a..<a + span bs}"
proof (induction bs arbitrary: a)
  case (Cons b bs)
  obtain u n where "b = (u, n)" by (cases b)
  with Cons [of "a + 8 + n"] show ?case by (auto simp: subset_iff)
qed simp

section \<open>Reading and writing headers\<close>

lemma hdr_frame:
  assumes "only_in m m' S" "S \<inter> {a..<a + 8} = {}" "a + 8 \<le> 4294967296"
  shows "hdr m' a u n \<longleftrightarrow> hdr m a u n"
proof -
  have "load16 m' (of_nat a) = load16 m (of_nat a)"
    by (rule load16_other [OF assms(1)]) (use assms in auto)
  moreover have "load32 m' (of_nat (a + 4)) = load32 m (of_nat (a + 4))"
    by (rule load32_other [OF assms(1)]) (use assms in auto)
  moreover have "m' (of_nat (a + 2)) = m (of_nat (a + 2))"
    by (rule load8_other [OF assms(1)]) (use assms in auto)
  ultimately show ?thesis
    by (simp add: hdr_def blk_magic_def blk_next_def blk_used_def add.commute)
qed

lemma linked_frame:
  assumes "only_in m m' S" "S \<inter> {a..<a + span bs} = {}" "a + span bs \<le> 4294967296"
  shows "linked m' a bs z \<longleftrightarrow> linked m a bs z"
  using assms(2,3)
proof (induction bs arbitrary: a)
  case (Cons b bs)
  obtain u n where b: "b = (u, n)" by (cases b)
  have "S \<inter> {a..<a + 8} = {}" "S \<inter> {a + 8 + n..<a + 8 + n + span bs} = {}"
    using Cons.prems b by fastforce+
  then show ?case
    using Cons.IH [of "a + 8 + n"] Cons.prems b hdr_frame [OF assms(1), of a] by simp
qed simp

lemma master_frame:
  assumes "only_in m m' S" "S \<inter> {unat h..<unat h + 12} = {}" "unat h + 12 \<le> 4294967296"
  shows "master m' h s e c \<longleftrightarrow> master m h s e c"
proof -
  have "load32 m' (of_nat (unat h + k)) = load32 m (of_nat (unat h + k))" if "k \<le> 8" for k
    by (rule load32_other [OF assms(1)]) (use assms that in auto)
  from this [of 0] this [of 4] this [of 8] show ?thesis
    by (simp add: master_def heap_start_address_def heap_size_def heap_current_blocks_def add.commute)
qed

lemma set_next_effect:
  assumes "a + 8 \<le> 4294967296"
  shows "only_in m (set_next (of_nat a) x m) {a + 4..<a + 8}"
    and "hdr m a u n0 \<Longrightarrow> hdr (set_next (of_nat a) (of_nat n) m) a u n"
proof -
  have st: "set_next (of_nat a) y m = store32 m (of_nat (a + 4)) y" for y
    by (simp add: set_next_def add.commute)
  have only: "only_in m (set_next (of_nat a) y m) {a + 4..<a + 8}" for y
    unfolding st by (rule only_in_mono [OF only_in_store32]) (use assms in auto)
  then show "only_in m (set_next (of_nat a) x m) {a + 4..<a + 8}" .
  let ?m = "set_next (of_nat a) (of_nat n) m"
  have "load16 ?m (of_nat a) = load16 m (of_nat a)"
    by (rule load16_other [OF only]) (use assms in auto)
  moreover have "?m (of_nat (a + 2)) = m (of_nat (a + 2))"
    by (rule load8_other [OF only]) (use assms in auto)
  moreover have "load32 ?m (of_nat a + 4) = of_nat n"
    unfolding set_next_def by (rule load32_store32)
  ultimately show "hdr ?m a u n" if "hdr m a u n0"
    using that by (simp add: hdr_def blk_magic_def blk_next_def blk_used_def add.commute)
qed

lemma set_used_effect:
  assumes "a + 8 \<le> 4294967296"
  shows "only_in m (set_used (of_nat a) x m) {a + 2..<a + 3}"
    and "hdr m a u n \<Longrightarrow> hdr (set_used (of_nat a) (if v then 1 else 0) m) a v n"
proof -
  have st: "set_used (of_nat a) y m = m(of_nat (a + 2) := y)" for y
    by (simp add: set_used_def add.commute)
  have "unat (of_nat (a + 2) :: u32) = a + 2" by (rule unat_of_nat_u32) (use assms in simp)
  then have only: "only_in m (set_used (of_nat a) y m) {a + 2..<a + 3}" for y
    unfolding st by (intro only_in_upd) (simp only: atLeastLessThan_iff, simp)
  then show "only_in m (set_used (of_nat a) x m) {a + 2..<a + 3}" .
  let ?m = "set_used (of_nat a) (if v then 1 else 0) m"
  have "load16 ?m (of_nat a) = load16 m (of_nat a)"
    by (rule load16_other [OF only]) (use assms in auto)
  moreover have "load32 ?m (of_nat (a + 4)) = load32 m (of_nat (a + 4))"
    by (rule load32_other [OF only]) (use assms in auto)
  moreover have "blk_used ?m (of_nat a) = (if v then 1 else 0)"
    by (simp add: blk_used_def set_used_def)
  ultimately show "hdr ?m a v n" if "hdr m a u n"
    using that by (simp add: hdr_def blk_magic_def blk_next_def add.commute)
qed

lemma set_current_blocks_effect:
  assumes "unat h + 12 \<le> 4294967296"
  shows "only_in m (set_current_blocks h x m) {unat h + 8..<unat h + 12}"
    and "master m h s e c0 \<Longrightarrow> master (set_current_blocks h (of_nat c) m) h s e c"
proof -
  have st: "set_current_blocks h y m = store32 m (of_nat (unat h + 8)) y" for y
    by (simp add: set_current_blocks_def add.commute)
  have only: "only_in m (set_current_blocks h y m) {unat h + 8..<unat h + 12}" for y
    unfolding st by (rule only_in_mono [OF only_in_store32]) (use assms in auto)
  then show "only_in m (set_current_blocks h x m) {unat h + 8..<unat h + 12}" .
  let ?m = "set_current_blocks h (of_nat c) m"
  have "load32 ?m (of_nat (unat h + k)) = load32 m (of_nat (unat h + k))" if "k \<le> 4" for k
    by (rule load32_other [OF only]) (use assms that in auto)
  from this [of 0] this [of 4]
  have "heap_start_address ?m h = heap_start_address m h" "heap_size ?m h = heap_size m h"
    by (simp_all add: heap_start_address_def heap_size_def add.commute)
  moreover have "heap_current_blocks ?m h = of_nat c"
    by (simp add: heap_current_blocks_def set_current_blocks_def load32_store32)
  ultimately show "master ?m h s e c" if "master m h s e c0"
    using that by (simp add: master_def)
qed

lemma create_effect:
  assumes a: "a + 8 \<le> 4294967296" and h: "unat h + 12 \<le> a"
    and m: "master m h s e c"
  shows "only_in m (heap_block_t_create h (of_nat a) (if u then 1 else 0) (of_nat n) f m)
      ({a..<a + 8} \<union> {unat h + 8..<unat h + 12})"
    and "hdr (heap_block_t_create h (of_nat a) (if u then 1 else 0) (of_nat n) f m) a u n"
    and "master (heap_block_t_create h (of_nat a) (if u then 1 else 0) (of_nat n) f m) h s e (Suc c)"
proof -
  let ?v = "if u then 1 else (0::u8)"
  define m1 where "m1 = store16 m (of_nat a) HEAP_BLOCK_MAGIC"
  define m2 where "m2 = set_used (of_nat a) ?v m1"
  define m3 where "m3 = set_next (of_nat a) (of_nat n) m2"
  define m4 where "m4 = m3(of_nat (a + 3) := f)"
  define m5 where "m5 = set_current_blocks h (heap_current_blocks m4 h + 1) m4"
  have eq: "heap_block_t_create h (of_nat a) ?v (of_nat n) f m = m5"
    unfolding heap_block_t_create_def Let_def m1_def m2_def m3_def m4_def m5_def
    by (simp only: of_nat_add of_nat_numeral)
  have o1: "only_in m m1 {a..<a + 2}"
    unfolding m1_def by (rule only_in_store16) (use a in simp)
  have o2: "only_in m1 m2 {a + 2..<a + 3}" unfolding m2_def by (rule set_used_effect(1) [OF a])
  have o3: "only_in m2 m3 {a + 4..<a + 8}" unfolding m3_def by (rule set_next_effect(1) [OF a])
  have "unat (of_nat (a + 3) :: u32) = a + 3" by (rule unat_of_nat_u32) (use a in simp)
  then have o4: "only_in m3 m4 {a + 3..<a + 4}"
    unfolding m4_def by (intro only_in_upd) (simp only: atLeastLessThan_iff, simp)
  have o: "only_in m m4 {a..<a + 8}"
    by (rule only_in_mono [OF only_in_trans [OF only_in_trans [OF only_in_trans [OF o1 o2] o3] o4]]) auto
  have h12: "unat h + 12 \<le> 4294967296" using a h by simp
  have o5: "only_in m4 m5 {unat h + 8..<unat h + 12}"
    unfolding m5_def by (rule set_current_blocks_effect(1) [OF h12])
  show "only_in m (heap_block_t_create h (of_nat a) ?v (of_nat n) f m)
      ({a..<a + 8} \<union> {unat h + 8..<unat h + 12})"
    unfolding eq by (rule only_in_trans [OF o o5])
  have "load16 m1 (of_nat a) = HEAP_BLOCK_MAGIC" by (simp add: m1_def load16_store16)
  moreover have "load16 m2 (of_nat a) = load16 m1 (of_nat a)"
    by (rule load16_other [OF o2]) (use a in auto)
  moreover have "load16 m3 (of_nat a) = load16 m2 (of_nat a)"
    by (rule load16_other [OF o3]) (use a in auto)
  moreover have "m3 (of_nat (a + 2)) = m2 (of_nat (a + 2))"
    by (rule load8_other [OF o3]) (use a in auto)
  moreover have "m2 (of_nat (a + 2)) = ?v" by (simp add: m2_def set_used_def add.commute)
  moreover have "load32 m3 (of_nat a + 4) = of_nat n"
    unfolding m3_def set_next_def by (rule load32_store32)
  ultimately have "hdr m3 a u n"
    by (simp add: hdr_def blk_magic_def blk_used_def blk_next_def add.commute)
  moreover have "load16 m4 (of_nat a) = load16 m3 (of_nat a)"
    by (rule load16_other [OF o4]) (use a in auto)
  moreover have "m4 (of_nat (a + 2)) = m3 (of_nat (a + 2))"
    by (rule load8_other [OF o4]) (use a in auto)
  moreover have "load32 m4 (of_nat (a + 4)) = load32 m3 (of_nat (a + 4))"
    by (rule load32_other [OF o4]) (use a in auto)
  ultimately have "hdr m4 a u n"
    by (simp add: hdr_def blk_magic_def blk_used_def blk_next_def add.commute)
  then show "hdr (heap_block_t_create h (of_nat a) ?v (of_nat n) f m) a u n"
    unfolding eq using hdr_frame [OF o5, of a] a h by auto
  have "master m4 h s e c" using m master_frame [OF o, of h] h h12 by auto
  then have "heap_current_blocks m4 h = of_nat c" "master m4 h s e c" by (simp_all add: master_def)
  with set_current_blocks_effect(2) [OF h12, of m4 s e c "Suc c"]
  show "master (heap_block_t_create h (of_nat a) ?v (of_nat n) f m) h s e (Suc c)"
    unfolding eq by (simp add: m5_def add.commute)
qed

lemma heap_replace:
  assumes ok: "heap_ok m h s e (pre @ old @ bs)" and new: "old \<noteq> []" "new \<noteq> []" "span new = span old"
    and only: "only_in m m1 ({unat h + 8..<unat h + 12} \<union> {s + span pre..<s + span pre + span old})"
    and lnk: "linked m1 (s + span pre) new (if bs = [] then 0 else s + span pre + span old)"
    and mas: "master m1 h s e (length (pre @ new @ bs))"
  shows "heap_ok m1 h s e (pre @ new @ bs)"
proof -
  let ?a = "s + span pre"
  let ?S = "{unat h + 8..<unat h + 12} \<union> {?a..<?a + span old}"
  from ok have b: "h \<noteq> 0" "unat h + 12 \<le> s" "e < 4294967296" "s + span (pre @ old @ bs) = e"
    and l: "linked m s (pre @ old @ bs) 0"
    by (auto simp: heap_ok_def chain_def)
  have dis: "?S \<inter> {s..<?a} = {}" "?S \<inter> {?a + span old..<?a + span old + span bs} = {}"
    using b by auto
  have "linked m1 s pre ?a"
    using l new(1) linked_frame [OF only dis(1), of ?a] b by (auto simp: linked_append)
  moreover have "linked m1 (?a + span old) bs 0"
    using l new(1) linked_frame [OF only dis(2), of 0] b
    by (auto simp: linked_append add.assoc)
  ultimately have "linked m1 s (pre @ new @ bs) 0"
    using lnk new by (cases "bs = []") (simp_all add: linked_append)
  with b new mas show ?thesis by (simp add: heap_ok_def chain_def)
qed

section \<open>The operations on lists of blocks\<close>

fun merge_fit :: "nat \<Rightarrow> nat \<Rightarrow> blocks \<Rightarrow> nat \<times> blocks" where
  "merge_fit r n [] = (n, [])"
| "merge_fit r n ((u, k) # bs) =
     (if n < r \<and> \<not> u then merge_fit r (n + 8 + k) bs else (n, (u, k) # bs))"

lemma merge_fit_length: "length (snd (merge_fit r n bs)) \<le> length bs"
  by (induction r n bs rule: merge_fit.induct) auto

definition split_block :: "nat \<Rightarrow> nat \<Rightarrow> blocks" where
  "split_block r n = (if r + 8 < n then [(True, r), (False, n - 8 - r)] else [(True, n)])"

function alloc_blocks :: "nat \<Rightarrow> nat \<Rightarrow> blocks \<Rightarrow> nat option \<times> blocks" where
  "alloc_blocks r a [] = (None, [])"
| "alloc_blocks r a ((u, n) # bs) =
     (if u then (let (p, bs') = alloc_blocks r (a + 8 + n) bs in (p, (u, n) # bs'))
      else
        let n' = fst (merge_fit r n bs); bs' = snd (merge_fit r n bs) in
        if r \<le> n' then (Some (a + 8), split_block r n' @ bs')
        else (let (p, bs'') = alloc_blocks r (a + 8 + n') bs' in (p, (False, n') # bs'')))"
  by pat_completeness auto
termination
  by (relation "measure (\<lambda>(r, a, bs). length bs)") (auto simp: merge_fit_length le_imp_less_Suc)

fun free_block :: "nat \<Rightarrow> nat \<Rightarrow> blocks \<Rightarrow> blocks" where
  "free_block p a [] = []"
| "free_block p a ((u, n) # bs) =
     (if a + 8 = p then
        (case bs of (False, k) # bs' \<Rightarrow> (False, n + 8 + k) # bs' | _ \<Rightarrow> (False, n) # bs)
      else (u, n) # free_block p (a + 8 + n) bs)"

fun defrag_blocks :: "blocks \<Rightarrow> blocks" where
  "defrag_blocks ((False, n) # (False, k) # bs) = defrag_blocks ((False, n + 8 + k) # bs)"
| "defrag_blocks (b # bs) = b # defrag_blocks bs"
| "defrag_blocks [] = []"

section \<open>The operations refine them\<close>

text \<open>The block at position \<open>pre\<close>, seen through the code's accessors.\<close>

lemma heap_ok_at:
  assumes ok: "heap_ok m h s e (pre @ (u, n) # bs)" and a: "a = s + span pre"
  shows "0 < a" "unat h + 12 \<le> a" "a + 8 + n + span bs = e" "e < 4294967296"
    "blk_magic m (of_nat a) = HEAP_BLOCK_MAGIC"
    "blk_used m (of_nat a) = (if u then 1 else 0)"
    "blk_next m (of_nat a) = of_nat (if bs = [] then 0 else a + 8 + n)"
    "blk_next m (of_nat a) = 0 \<longleftrightarrow> bs = []"
    "heap_block_t_size h (of_nat a) m = of_nat n"
proof -
  from ok a have b: "h \<noteq> 0" "unat h + 12 \<le> s" "e < 4294967296" "a + 8 + n + span bs = e"
    and hd: "hdr m a u (if bs = [] then 0 else a + 8 + n)"
    and mas: "master m h s e (length (pre @ (u, n) # bs))"
    by (auto simp: heap_ok_def chain_def linked_append split: if_splits)
  show "0 < a" "unat h + 12 \<le> a" "a + 8 + n + span bs = e" "e < 4294967296"
    using b a by simp_all
  show "blk_magic m (of_nat a) = HEAP_BLOCK_MAGIC"
    "blk_used m (of_nat a) = (if u then 1 else 0)"
    and nxt: "blk_next m (of_nat a) = of_nat (if bs = [] then 0 else a + 8 + n)"
    using hd by (simp_all only: hdr_def)
  have "unat (of_nat (a + 8 + n) :: u32) = a + 8 + n"
    by (rule unat_of_nat_u32) (use b in simp)
  then have "(of_nat (a + 8 + n) :: u32) \<noteq> 0"
    by (metis add_eq_0_iff_both_eq_0 unat_0 zero_neq_numeral)
  then show eq0: "blk_next m (of_nat a) = 0 \<longleftrightarrow> bs = []" unfolding nxt by (cases "bs = []") simp_all
  show "heap_block_t_size h (of_nat a) m = of_nat n"
  proof (cases "bs = []")
    case True
    have "s \<le> e" using b a by simp
    have "heap_start_address m h + heap_size m h = of_nat s + of_nat (e - s)"
      using mas by (simp add: master_def)
    also have "\<dots> = of_nat (s + (e - s))" by (simp only: of_nat_add)
    also have "s + (e - s) = a + 8 + n" using b a True by simp
    finally have end_eq: "heap_start_address m h + heap_size m h = of_nat (a + 8 + n)" .
    show ?thesis unfolding heap_block_t_size_def eq0 end_eq using True by simp
  next
    case False
    then show ?thesis using nxt eq0 by (simp add: heap_block_t_size_def)
  qed
qed

lemma heap_ok_next:
  "heap_ok m h s e (pre @ b # bs) = heap_ok m h s e ((pre @ [b]) @ bs)"
  by simp

text \<open>One merge.\<close>

lemma merge_ok:
  assumes ok: "heap_ok m h s e (pre @ (u, n) # (v, k) # bs)" and a: "a = s + span pre"
  shows "heap_ok (heap_front_merge_block h (of_nat a) m) h s e (pre @ (u, n + 8 + k) # bs)"
    and "only_in m (heap_front_merge_block h (of_nat a) m) ({unat h + 8..<unat h + 12} \<union> {a..<a + 8})"
proof -
  note at = heap_ok_at [OF ok a]
  let ?pre' = "pre @ [(u, n)]"
  have ok': "heap_ok m h s e (?pre' @ (v, k) # bs)" using ok by simp
  have a': "a + 8 + n = s + span ?pre'" using a by simp
  note at' = heap_ok_at [OF ok' a']
  have a8: "a + 8 \<le> 4294967296" using at(3,4) by simp
  have h12: "unat h + 12 \<le> 4294967296" using at(2) a8 by simp
  define z where "z = (if bs = [] then 0 else a + 8 + n + 8 + k)"
  define m1 where "m1 = set_next (of_nat a) (of_nat z) m"
  have "blk_next m (blk_next m (of_nat a)) = of_nat z"
    using at(7) at'(7) by (simp add: z_def)
  then have eq: "heap_front_merge_block h (of_nat a) m =
      set_current_blocks h (heap_current_blocks m1 h - 1) m1"
    by (simp add: heap_front_merge_block_def m1_def Let_def)
  have o1: "only_in m m1 {a + 4..<a + 8}" unfolding m1_def by (rule set_next_effect(1) [OF a8])
  have mas: "master m h s e (Suc (Suc (length pre + length bs)))"
    and hd: "hdr m a u (a + 8 + n)"
    using ok a by (auto simp: heap_ok_def chain_def linked_append)
  have mas1: "master m1 h s e (Suc (Suc (length pre + length bs)))"
    using mas master_frame [OF o1 _ h12] at(2) by auto
  then have eq2: "heap_front_merge_block h (of_nat a) m =
      set_current_blocks h (of_nat (Suc (length pre + length bs))) m1"
    unfolding eq by (simp add: master_def)
  let ?m2 = "heap_front_merge_block h (of_nat a) m"
  have mas2: "master ?m2 h s e (Suc (length pre + length bs))"
    unfolding eq2 by (rule set_current_blocks_effect(2) [OF h12 mas1])
  have o2: "only_in m1 ?m2 {unat h + 8..<unat h + 12}"
    unfolding eq2 by (rule set_current_blocks_effect(1) [OF h12])
  show only: "only_in m ?m2 ({unat h + 8..<unat h + 12} \<union> {a..<a + 8})"
    by (rule only_in_mono [OF only_in_trans [OF o1 o2]]) auto
  have "hdr m1 a u z" unfolding m1_def by (rule set_next_effect(2) [OF a8 hd])
  then have hd2: "hdr ?m2 a u z" using hdr_frame [OF o2 _ a8] at(2) by auto
  have "only_in m ?m2 ({unat h + 8..<unat h + 12} \<union> {a..<a + (16 + (n + k))})"
    by (rule only_in_mono [OF only]) auto
  then have "heap_ok ?m2 h s e (pre @ [(u, n + 8 + k)] @ bs)"
    using ok hd2 mas2 by - (rule heap_replace [where old = "[(u, n), (v, k)]" and m = m],
      simp_all add: a [symmetric] add.assoc z_def split: if_splits)
  then show "heap_ok ?m2 h s e (pre @ (u, n + 8 + k) # bs)" by simp
qed

text \<open>The merge loop, and the fit test after it.\<close>

lemma fit_loop_ok:
  assumes "heap_ok m h s e (pre @ (u, n) # bs)" "a = s + span pre"
  shows "\<exists>m'. fit_loop h (of_nat a) r_size m = Some m' \<and>
    heap_ok m' h s e (pre @ (u, fst (merge_fit (unat r_size) n bs)) # snd (merge_fit (unat r_size) n bs)) \<and>
    only_in m m' ({unat h + 8..<unat h + 12} \<union> {a..<a + 8})"
  using assms
proof (induction "unat r_size" n bs arbitrary: m rule: merge_fit.induct)
  case (1 n)
  have "fit_loop h (of_nat a) r_size m = Some m"
    using heap_ok_at(8) [OF "1.prems"] by (subst fit_loop.simps) simp
  with "1.prems" show ?case by simp
next
  case (2 n v k bs)
  let ?r = "unat r_size"
  note at = heap_ok_at [OF "2.prems"]
  have n: "n < 4294967296" using at(3,4) by simp
  have gt: "heap_block_t_size h (of_nat a) m < r_size \<longleftrightarrow> n < ?r"
    unfolding at(9) using n by (simp add: word_less_nat_alt)
  have "heap_ok m h s e ((pre @ [(u, n)]) @ (v, k) # bs)" using "2.prems" by simp
  from heap_ok_at [OF this refl]
  have used: "heap_is_next_unused (of_nat a) m \<longleftrightarrow> \<not> v"
    using at(7,8) "2.prems"(2) by (simp add: heap_is_next_unused_def add.assoc)
  show ?case
  proof (cases "n < ?r \<and> \<not> v")
    case True
    note mrg = merge_ok [OF "2.prems"]
    let ?m = "heap_front_merge_block h (of_nat a) m"
    obtain m' where "fit_loop h (of_nat a) r_size ?m = Some m'"
      "heap_ok m' h s e (pre @ (u, fst (merge_fit ?r (n + 8 + k) bs)) # snd (merge_fit ?r (n + 8 + k) bs))"
      "only_in ?m m' ({unat h + 8..<unat h + 12} \<union> {a..<a + 8})"
      using "2.hyps" [OF True mrg(1) "2.prems"(2)] by blast
    moreover have "fit_loop h (of_nat a) r_size m = fit_loop h (of_nat a) r_size ?m"
      using True gt used at(8) by (subst fit_loop.simps) simp
    moreover have "only_in m m' ({unat h + 8..<unat h + 12} \<union> {a..<a + 8})"
      if "only_in ?m m' ({unat h + 8..<unat h + 12} \<union> {a..<a + 8})" for m'
      using only_in_trans [OF mrg(2) that] by simp
    ultimately show ?thesis using True by auto
  next
    case False
    then have "fit_loop h (of_nat a) r_size m = Some m"
      using gt used by (subst fit_loop.simps) auto
    with False "2.prems" show ?thesis by auto
  qed
qed

lemma take_block_ok:
  assumes ok: "heap_ok m h s e (pre @ (False, n) # bs)" and a: "a = s + span pre"
    and r: "unat r_size \<le> n"
  shows "\<exists>m'. take_block h (of_nat a) r_size m = (of_nat (a + 8), m') \<and>
    heap_ok m' h s e (pre @ split_block (unat r_size) n @ bs) \<and>
    only_in m m' ({unat h + 8..<unat h + 12} \<union> {a..<a + 8 + n})"
proof -
  let ?r = "unat r_size"
  note at = heap_ok_at [OF ok a]
  have a8: "a + 8 \<le> 4294967296" using at(3,4) by simp
  have h12: "unat h + 12 \<le> 4294967296" using at(2) a8 by simp
  let ?z = "if bs = [] then 0 else a + 8 + n"
  have hd: "hdr m a False ?z" and mas: "master m h s e (Suc (length pre + length bs))"
    using ok a by (auto simp: heap_ok_def chain_def linked_append split: if_splits)
  have "?r + 8 < 4294967296" using r at(3,4) by simp
  then have r8: "unat (r_size + 8) = ?r + 8" by (simp add: unat_word_ariths)
  have n: "unat (of_nat n :: u32) = n" by (rule unat_of_nat_u32) (use at(3,4) in simp)
  have split: "r_size + 8 < heap_block_t_size h (of_nat a) m \<longleftrightarrow> ?r + 8 < n"
    unfolding at(9) by (simp add: word_less_nat_alt r8 n)
  show ?thesis
  proof (cases "?r + 8 < n")
    case False
    let ?m = "set_used (of_nat a) 1 m"
    have eq: "take_block h (of_nat a) r_size m = (of_nat (a + 8), ?m)"
      using False split by (simp add: take_block_def heap_block_t_start_address_def add.commute)
    have o: "only_in m ?m {a + 2..<a + 3}" by (rule set_used_effect(1) [OF a8])
    have "hdr ?m a True ?z" using set_used_effect(2) [OF a8 hd, of True] by simp
    moreover have "master ?m h s e (Suc (length pre + length bs))"
      using mas master_frame [OF o _ h12] at(2) by auto
    moreover have o': "only_in m ?m ({unat h + 8..<unat h + 12} \<union> {a..<a + 8 + n})"
      by (rule only_in_mono [OF o]) auto
    ultimately have "heap_ok ?m h s e (pre @ [(True, n)] @ bs)"
      using ok by - (rule heap_replace [where old = "[(False, n)]" and m = m],
        simp_all add: a [symmetric] add.assoc split: if_splits)
    with False eq o' show ?thesis by (simp add: split_block_def)
  next
    case True
    define b where "b = a + 8 + ?r"
    have ob: "(of_nat b :: u32) = of_nat a + 8 + r_size" by (simp add: b_def)
    have b8: "b + 8 \<le> 4294967296" "unat h + 12 \<le> b" using True at(2,3,4) by (auto simp: b_def)
    define f where "f = blk_flags m (of_nat a)"
    define m1 where "m1 = heap_block_t_create h (of_nat b) (if False then 1 else 0) (of_nat ?z) f m"
    define m2 where "m2 = set_next (of_nat a) (of_nat b) m1"
    define m3 where "m3 = set_used (of_nat a) 1 m2"
    have eq: "take_block h (of_nat a) r_size m = (of_nat (a + 8), m3)"
      using True split at(7) by (simp add: take_block_def Let_def m3_def m2_def m1_def f_def ob
          heap_block_t_start_address_def add.commute)
    note cr = create_effect [OF b8 mas, of False ?z f, folded m1_def]
    have o1: "only_in m m1 ({b..<b + 8} \<union> {unat h + 8..<unat h + 12})" by (rule cr(1))
    have o2: "only_in m1 m2 {a + 4..<a + 8}" unfolding m2_def by (rule set_next_effect(1) [OF a8])
    have o3: "only_in m2 m3 {a + 2..<a + 3}" unfolding m3_def by (rule set_used_effect(1) [OF a8])
    have o: "only_in m m3 ({unat h + 8..<unat h + 12} \<union> {a..<a + 8 + n})"
      by (rule only_in_mono [OF only_in_trans [OF only_in_trans [OF o1 o2] o3]]) (use True in \<open>auto simp: b_def\<close>)
    have "({b..<b + 8} \<union> {unat h + 8..<unat h + 12}) \<inter> {a..<a + 8} = {}"
      using at(2) by (auto simp: b_def)
    then have "hdr m1 a False ?z" using hdr_frame [OF o1 _ a8] hd by blast
    then have "hdr m2 a False b" unfolding m2_def by (rule set_next_effect(2) [OF a8])
    then have h3: "hdr m3 a True b" unfolding m3_def using set_used_effect(2) [OF a8, of m2 False b True] by simp
    have "hdr m2 b False ?z" using hdr_frame [OF o2 _ b8(1)] cr(2) b_def by auto
    then have hb: "hdr m3 b False ?z" using hdr_frame [OF o3 _ b8(1)] b_def by auto
    have "master m2 h s e (Suc (Suc (length pre + length bs)))"
      using cr(3) master_frame [OF o2 _ h12] at(2) by auto
    then have mas3: "master m3 h s e (Suc (Suc (length pre + length bs)))"
      using master_frame [OF o3 _ h12] at(2) by auto
    have len: "b + 8 + (n - 8 - ?r) = a + 8 + n" using True by (simp add: b_def)
    have "heap_ok m3 h s e (pre @ [(True, ?r), (False, n - 8 - ?r)] @ bs)"
      using ok o mas3 h3 hb True by - (rule heap_replace [where old = "[(False, n)]" and m = m],
        simp_all add: a [symmetric] add.assoc b_def split: if_splits)
    with True eq o show ?thesis by (simp add: split_block_def)
  qed
qed

text \<open>The allocation loop.\<close>

lemma alloc_loop_ok:
  assumes "heap_ok m h s e (pre @ bs)" "a = s + span pre" "0 < unat r_size"
  shows "\<exists>m'. alloc_loop h (if bs = [] then 0 else of_nat a) r_size m =
      Some (case fst (alloc_blocks (unat r_size) a bs) of None \<Rightarrow> 0 | Some p \<Rightarrow> of_nat p, m') \<and>
    heap_ok m' h s e (pre @ snd (alloc_blocks (unat r_size) a bs)) \<and>
    only_in m m' ({unat h + 8..<unat h + 12} \<union> free_bytes a bs)"
  using assms
proof (induction "unat r_size" a bs arbitrary: m pre rule: alloc_blocks.induct)
  case (1 a)
  have "alloc_loop h 0 r_size m = Some (0, m)" by (subst alloc_loop.simps) simp
  with "1.prems" show ?case by simp
next
  case (2 a u n bs)
  let ?r = "unat r_size"
  note at = heap_ok_at [OF "2.prems"(1,2)]
  have a0: "of_nat a \<noteq> (0::u32)"
    using at(1,3,4) unat_of_nat_u32 [of a] by (metis add_lessD1 less_numeral_extra(3) unat_0)
  show ?case
  proof (cases u)
    case True
    have step: "alloc_loop h (of_nat a) r_size m =
        alloc_loop h (if bs = [] then 0 else of_nat (a + 8 + n)) r_size m"
      using True a0 at(5,6,7) by (subst alloc_loop.simps) simp
    have ok': "heap_ok m h s e ((pre @ [(u, n)]) @ bs)" using "2.prems"(1) by simp
    obtain m' where "alloc_loop h (if bs = [] then 0 else of_nat (a + 8 + n)) r_size m =
        Some (case fst (alloc_blocks ?r (a + 8 + n) bs) of None \<Rightarrow> 0 | Some p \<Rightarrow> of_nat p, m')"
      "heap_ok m' h s e ((pre @ [(u, n)]) @ snd (alloc_blocks ?r (a + 8 + n) bs))"
      "only_in m m' ({unat h + 8..<unat h + 12} \<union> free_bytes (a + 8 + n) bs)"
      using "2.hyps"(1) [OF True ok'] "2.prems"(2,3) by (auto simp: add.assoc)
    with True step show ?thesis by (auto simp: split_beta)
  next
    case False
    let ?n = "fst (merge_fit ?r n bs)" and ?bs = "snd (merge_fit ?r n bs)"
    obtain m1 where fit: "fit_loop h (of_nat a) r_size m = Some m1"
      and ok1: "heap_ok m1 h s e (pre @ (u, ?n) # ?bs)"
      and o1: "only_in m m1 ({unat h + 8..<unat h + 12} \<union> {a..<a + 8})"
      using fit_loop_ok [OF "2.prems"(1,2)] by blast
    note at1 = heap_ok_at [OF ok1 "2.prems"(2)]
    have n1: "unat (of_nat ?n :: u32) = ?n" by (rule unat_of_nat_u32) (use at1(3,4) in simp)
    have fits: "r_size \<le> heap_block_t_size h (of_nat a) m1 \<longleftrightarrow> ?r \<le> ?n"
      unfolding at1(9) by (simp add: word_le_nat_alt n1)
    have step: "alloc_loop h (of_nat a) r_size m =
        (if ?r \<le> ?n then Some (take_block h (of_nat a) r_size m1)
         else alloc_loop h (if ?bs = [] then 0 else of_nat (a + 8 + ?n)) r_size m1)"
      using False a0 at(5,6) fit fits at1(7)
      by (subst alloc_loop.simps) (simp add: heap_front_merge_size_fit_def)
    have tot: "a + 8 + ?n + span ?bs = a + 8 + n + span bs" using at(3) at1(3) by simp
    have free: "free_bytes (a + 8 + ?n) ?bs \<subseteq> free_bytes (a + 8 + n) bs" 
      and grow: "{a..<a + 8 + ?n} \<subseteq> {a..<a + 8 + n} \<union> free_bytes (a + 8 + n) bs"
    proof -
      have "{a..<a + 8 + fst (merge_fit r n bs)} \<union> free_bytes (a + 8 + fst (merge_fit r n bs)) (snd (merge_fit r n bs))
        = {a..<a + 8 + n} \<union> free_bytes (a + 8 + n) bs" for r
      proof (induction r n bs rule: merge_fit.induct)
        case (2 r n u k bs)
        have "{a..<a + 8 + (n + 8 + k)} = {a..<a + 8 + n} \<union> {a + 8 + n..<a + 8 + n + 8 + k}"
          by auto
        with 2 show ?case by (auto simp: add.assoc)
      qed simp
      from this [of ?r] show "{a..<a + 8 + ?n} \<subseteq> {a..<a + 8 + n} \<union> free_bytes (a + 8 + n) bs" by blast
      show "free_bytes (a + 8 + ?n) ?bs \<subseteq> free_bytes (a + 8 + n) bs"
      proof (induction ?r n bs rule: merge_fit.induct)
        case (2 n v k bs)
        then show ?case by (auto simp: add.assoc)
      qed simp
    qed
    show ?thesis
    proof (cases "?r \<le> ?n")
      case True
      obtain m2 where t: "take_block h (of_nat a) r_size m1 = (of_nat (a + 8), m2)"
        "heap_ok m2 h s e (pre @ split_block ?r ?n @ ?bs)"
        "only_in m1 m2 ({unat h + 8..<unat h + 12} \<union> {a..<a + 8 + ?n})"
        using take_block_ok [of m1 h s e pre ?n ?bs a r_size] "2.prems"(2) True ok1 False by auto
      have "only_in m m2 ({unat h + 8..<unat h + 12} \<union> free_bytes a ((u, n) # bs))"
        by (rule only_in_mono [OF only_in_trans [OF o1 t(3)]]) (use False grow in auto)
      with True False step t show ?thesis by simp
    next
      case nofit: False
      have ok2: "heap_ok m1 h s e ((pre @ [(False, ?n)]) @ ?bs)" using ok1 False by simp
      have a2: "a + 8 + ?n = s + span (pre @ [(False, ?n)])" using "2.prems"(2) by simp
      obtain m2 where t: "alloc_loop h (if ?bs = [] then 0 else of_nat (a + 8 + ?n)) r_size m1 =
          Some (case fst (alloc_blocks ?r (a + 8 + ?n) ?bs) of None \<Rightarrow> 0 | Some p \<Rightarrow> of_nat p, m2)"
        "heap_ok m2 h s e ((pre @ [(False, ?n)]) @ snd (alloc_blocks ?r (a + 8 + ?n) ?bs))"
        "only_in m1 m2 ({unat h + 8..<unat h + 12} \<union> free_bytes (a + 8 + ?n) ?bs)"
        using "2.hyps"(2) [OF False refl refl nofit ok2 a2 "2.prems"(3)] by blast
      have "only_in m m2 ({unat h + 8..<unat h + 12} \<union> free_bytes a ((u, n) # bs))"
        by (rule only_in_mono [OF only_in_trans [OF o1 t(3)]]) (use False free in auto)
      with nofit False step t show ?thesis by (simp add: split_beta Let_def)
    qed
  qed
qed

section \<open>What the list operations promise\<close>

lemma merge_fit_payloads:
  "payloads (a + 8 + fst (merge_fit r n bs)) (snd (merge_fit r n bs)) = payloads (a + 8 + n) bs"
  "fst (merge_fit r n bs) + span (snd (merge_fit r n bs)) = n + span bs"
  "fst (merge_fit r n bs) < r \<Longrightarrow> snd (merge_fit r n bs) = [] \<or> fst (hd (snd (merge_fit r n bs)))"
  by (induction r n bs rule: merge_fit.induct) (auto simp: add.assoc split: if_splits)

lemma payloads_range: "(p, k) \<in> set (payloads a bs) \<Longrightarrow> a + 8 \<le> p \<and> p + k \<le> a + span bs"
  by (induction bs arbitrary: a) (fastforce split: if_splits)+

lemma payloads_disjoint:
  "(p, k) \<in> set (payloads a bs) \<Longrightarrow> (q, j) \<in> set (payloads a bs) \<Longrightarrow> p < q \<Longrightarrow> p + k + 8 \<le> q"
proof (induction bs arbitrary: a)
  case (Cons b bs)
  obtain u n where b: "b = (u, n)" by (cases b)
  show ?case
    using Cons.prems Cons.IH [of "a + 8 + n"] payloads_range [of _ _ "a + 8 + n" bs] b
    by (fastforce split: if_splits)
qed simp

lemma payloads_distinct: "distinct (map fst (payloads a bs))"
proof (induction bs arbitrary: a)
  case (Cons b bs)
  obtain u n where b: "b = (u, n)" by (cases b)
  have "a + 8 \<notin> fst ` set (payloads (a + 8 + n) bs)"
    using payloads_range [of _ _ "a + 8 + n" bs] by fastforce
  with Cons b show ?case by simp
qed simp

lemma payloads_used_bytes:
  "(p, k) \<in> set (payloads a bs) \<Longrightarrow> {p - 8..<p + k} \<inter> free_bytes a bs = {}"
proof (induction bs arbitrary: a)
  case (Cons b bs)
  obtain u n where b: "b = (u, n)" by (cases b)
  show ?case
  proof (cases "(p, k) \<in> set (payloads (a + 8 + n) bs)")
    case True
    with Cons.IH [OF True] payloads_range [OF True] b show ?thesis by auto
  next
    case False
    with Cons.prems b have "p = a + 8" "k = n" u by (auto split: if_splits)
    with b free_bytes_range [of "a + 8 + n" bs] show ?thesis by fastforce
  qed
qed simp

lemma alloc_blocks_None:
  "alloc_blocks r a bs = (None, bs') \<Longrightarrow>
   payloads a bs' = payloads a bs \<and> span bs' = span bs \<and> (bs' = [] \<longleftrightarrow> bs = []) \<and>
   (\<forall>(u, n) \<in> set bs'. \<not> u \<longrightarrow> n < r) \<and> successively (\<lambda>b c. fst b \<or> fst c) bs' \<and>
   (bs \<noteq> [] \<longrightarrow> fst (hd bs') = fst (hd bs))"
proof (induction r a bs arbitrary: bs' rule: alloc_blocks.induct)
  case (2 r a u n bs)
  show ?case
  proof (cases u)
    case True
    with "2.prems" obtain cs where cs: "alloc_blocks r (a + 8 + n) bs = (None, cs)" "bs' = (u, n) # cs"
      by (auto simp: split_beta prod_eq_iff)
    from "2.IH"(1) [OF True cs(1)] True cs(2) show ?thesis
      by (cases cs) (auto simp: successively_Cons)
  next
    case False
    let ?n = "fst (merge_fit r n bs)" and ?bs = "snd (merge_fit r n bs)"
    from "2.prems" False have lt: "\<not> r \<le> ?n" by (auto simp: Let_def split: if_splits)
    with "2.prems" False obtain cs where cs: "alloc_blocks r (a + 8 + ?n) ?bs = (None, cs)"
      "bs' = (False, ?n) # cs"
      by (auto simp: Let_def split_beta prod_eq_iff)
    note IH = "2.IH"(2) [OF False refl refl lt cs(1)]
    have "cs = [] \<or> fst (hd cs)"
      using merge_fit_payloads(3) [of r n bs] lt IH by (cases "?bs = []") (auto simp: cs(1))
    with IH cs(2) False lt merge_fit_payloads(1,2) [where r = r and n = n and bs = bs]
    show ?thesis by (cases cs) (auto simp: successively_Cons)
  qed
qed auto

lemma alloc_blocks_Some:
  "alloc_blocks r a bs = (Some p, bs') \<Longrightarrow>
   (\<exists>xs ys k. payloads a bs = xs @ ys \<and> payloads a bs' = xs @ (p, k) # ys \<and> r \<le> k) \<and>
   span bs' = span bs"
proof (induction r a bs arbitrary: bs' rule: alloc_blocks.induct)
  case (2 r a u n bs)
  show ?case
  proof (cases u)
    case True
    with "2.prems" obtain cs where cs: "alloc_blocks r (a + 8 + n) bs = (Some p, cs)" "bs' = (u, n) # cs"
      by (auto simp: split_beta prod_eq_iff)
    then obtain xs ys k where "payloads (a + 8 + n) bs = xs @ ys"
      "payloads (a + 8 + n) cs = xs @ (p, k) # ys" "r \<le> k" "span cs = span bs"
      using "2.IH"(1) [OF True] by blast
    with True cs(2) have "payloads a ((u, n) # bs) = ((a + 8, n) # xs) @ ys \<and>
      payloads a bs' = ((a + 8, n) # xs) @ (p, k) # ys \<and> r \<le> k \<and> span bs' = span ((u, n) # bs)"
      by simp
    then show ?thesis by blast
  next
    case False
    let ?n = "fst (merge_fit r n bs)" and ?bs = "snd (merge_fit r n bs)"
    note mf = merge_fit_payloads(1,2) [where r = r and n = n and bs = bs]
    show ?thesis
    proof (cases "r \<le> ?n")
      case True
      with "2.prems" False have r: "p = a + 8" "bs' = split_block r ?n @ ?bs"
        by (auto simp: Let_def)
      have pl: "payloads (a + 8 + ?n) ?bs = payloads (a + 8 + n) bs" by (rule mf(1))
      have "payloads a bs' = (a + 8, if r + 8 < ?n then r else ?n) # payloads (a + 8 + ?n) ?bs"
        using r(2) by (auto simp: split_block_def add.assoc)
      moreover have "span bs' = 8 + ?n + span ?bs" using r(2) by (auto simp: split_block_def)
      ultimately have "payloads a ((u, n) # bs) = [] @ payloads (a + 8 + n) bs \<and>
        payloads a bs' = [] @ (p, if r + 8 < ?n then r else ?n) # payloads (a + 8 + n) bs \<and>
        r \<le> (if r + 8 < ?n then r else ?n) \<and> span bs' = span ((u, n) # bs)"
        using False True r(1) mf(2) pl by simp
      then show ?thesis by blast
    next
      case lt: False
      with "2.prems" False obtain cs where cs: "alloc_blocks r (a + 8 + ?n) ?bs = (Some p, cs)"
        "bs' = (False, ?n) # cs"
        by (auto simp: Let_def split_beta prod_eq_iff)
      note IH = "2.IH"(2) [OF False refl refl lt cs(1)]
      with cs(2) False mf show ?thesis by auto
    qed
  qed
qed auto

text \<open>Freeing the block of a live payload.\<close>

lemma free_block_props:
  "(p, k) \<in> set (payloads a bs) \<Longrightarrow>
   payloads a (free_block p a bs) = filter (\<lambda>q. fst q \<noteq> p) (payloads a bs) \<and>
   span (free_block p a bs) = span bs"
proof (induction p a bs rule: free_block.induct)
  case (2 p a u n bs)
  have keep: "filter (\<lambda>q. fst q \<noteq> a + 8) (payloads (a + 8 + n) bs) = payloads (a + 8 + n) bs"
    by (rule filter_True) (use payloads_range [of _ _ "a + 8 + n" bs] in fastforce)
  show ?case
  proof (cases "a + 8 = p")
    case True
    then have "payloads a (free_block p a ((u, n) # bs)) = payloads (a + 8 + n) bs"
      "span (free_block p a ((u, n) # bs)) = 8 + n + span bs"
      by (auto split: list.split prod.split bool.split simp: add.assoc)
    with True keep show ?thesis by auto
  next
    case False
    with "2.prems" have "(p, k) \<in> set (payloads (a + 8 + n) bs)" by (auto split: if_splits)
    with "2.IH" [OF False] False show ?thesis by auto
  qed
qed simp

text \<open>Where the live block sits in the list.\<close>

lemma payload_split:
  "(p, k) \<in> set (payloads a bs) \<Longrightarrow>
   \<exists>pre cs. bs = pre @ (True, k) # cs \<and> p = a + span pre + 8 \<and>
     free_block p a bs = pre @ (case cs of (False, j) # ds \<Rightarrow> (False, k + 8 + j) # ds | _ \<Rightarrow> (False, k) # cs)"
proof (induction p a bs rule: free_block.induct)
  case (2 p a u n bs)
  show ?case
  proof (cases "a + 8 = p")
    case True
    with "2.prems" payloads_range [of p k "a + 8 + n" bs] have u and kn: "k = n"
      by (auto split: if_splits)
    with True have "(u, n) # bs = [] @ (True, k) # bs \<and> p = a + span [] + 8 \<and>
      free_block p a ((u, n) # bs) =
        [] @ (case bs of (False, j) # ds \<Rightarrow> (False, k + 8 + j) # ds | _ \<Rightarrow> (False, k) # bs)"
      unfolding kn by simp
    then show ?thesis by blast
  next
    case False
    with "2.prems" have "(p, k) \<in> set (payloads (a + 8 + n) bs)" by (auto split: if_splits)
    from "2.IH" [OF False this] obtain pre cs where "bs = pre @ (True, k) # cs"
      "p = a + 8 + n + span pre + 8"
      "free_block p (a + 8 + n) bs =
        pre @ (case cs of (False, j) # ds \<Rightarrow> (False, k + 8 + j) # ds | _ \<Rightarrow> (False, k) # cs)" by blast
    with False have "(u, n) # bs = ((u, n) # pre) @ (True, k) # cs \<and> p = a + span ((u, n) # pre) + 8 \<and>
      free_block p a ((u, n) # bs) =
        ((u, n) # pre) @ (case cs of (False, j) # ds \<Rightarrow> (False, k + 8 + j) # ds | _ \<Rightarrow> (False, k) # cs)"
      by simp
    then show ?thesis by blast
  qed
qed simp

lemma heap_free_ok:
  assumes ok: "heap_ok m h s e bs" and live: "(unat address, k) \<in> set (payloads s bs)"
  shows "\<exists>m'. heap_free h address m = (0, m') \<and> heap_ok m' h s e (free_block (unat address) s bs) \<and>
    only_in m m' ({unat h + 8..<unat h + 12} \<union> {unat address - 8..<unat address})"
proof -
  obtain pre cs where sp: "bs = pre @ (True, k) # cs" "unat address = s + span pre + 8"
    "free_block (unat address) s bs =
      pre @ (case cs of (False, j) # ds \<Rightarrow> (False, k + 8 + j) # ds | _ \<Rightarrow> (False, k) # cs)"
    using payload_split [OF live] by blast
  define a where "a = s + span pre"
  have ok1: "heap_ok m h s e (pre @ (True, k) # cs)" using ok sp(1) by simp
  note at = heap_ok_at [OF ok1 a_def]
  have a8: "a + 8 \<le> 4294967296" using at(3,4) by simp
  have h12: "unat h + 12 \<le> 4294967296" using at(2) a8 by simp
  have adr: "unat address = a + 8" using sp(2) by (simp add: a_def)
  have "address = of_nat (unat address)" by simp
  also have "\<dots> = of_nat a + 8" unfolding adr by simp
  finally have blk: "address - 8 = of_nat a" "address \<noteq> 0" using adr by auto
  have h0: "h \<noteq> 0" using ok by (simp add: heap_ok_def)
  let ?z = "if cs = [] then 0 else a + 8 + k"
  define m1 where "m1 = set_used (of_nat a) (if False then 1 else 0) m"
  have hd: "hdr m a True ?z" and mas: "master m h s e (Suc (length pre + length cs))"
    using ok1 by (auto simp: heap_ok_def chain_def linked_append a_def split: if_splits)
  have o1: "only_in m m1 {a + 2..<a + 3}" unfolding m1_def by (rule set_used_effect(1) [OF a8])
  have "hdr m1 a False ?z" unfolding m1_def by (rule set_used_effect(2) [OF a8 hd])
  moreover have "master m1 h s e (Suc (length pre + length cs))"
    using mas master_frame [OF o1 _ h12] at(2) by auto
  moreover have "only_in m m1 ({unat h + 8..<unat h + 12} \<union> {a..<a + (8 + k)})"
    by (rule only_in_mono [OF o1]) auto
  ultimately have "heap_ok m1 h s e (pre @ [(False, k)] @ cs)"
    using ok1 by - (rule heap_replace [where old = "[(True, k)]" and m = m],
      simp_all add: a_def [symmetric] add.assoc split: if_splits)
  then have ok2: "heap_ok m1 h s e (pre @ (False, k) # cs)" by simp
  note at1 = heap_ok_at [OF ok2 a_def]
  have o: "only_in m m1 ({unat h + 8..<unat h + 12} \<union> {a..<a + 8})"
    by (rule only_in_mono [OF o1]) auto
  have base: "heap_free h address m =
     (0, if heap_is_next_unused (of_nat a) m1 then heap_front_merge_block h (of_nat a) m1 else m1)"
    using h0 blk at(5) by (simp add: heap_free_def Let_def m1_def heap_is_next_unused_def
        heap_front_merge_block_def)
  show ?thesis
  proof (cases "\<exists>j ds. cs = (False, j) # ds")
    case True
    then obtain j ds where cs: "cs = (False, j) # ds" by blast
    have ok3: "heap_ok m1 h s e (pre @ (False, k) # (False, j) # ds)" using ok2 cs by simp
    have "heap_ok m1 h s e ((pre @ [(False, k)]) @ (False, j) # ds)" using ok3 by simp
    from heap_ok_at [OF this refl] have "heap_is_next_unused (of_nat a) m1"
      using at1(7,8) cs by (simp add: heap_is_next_unused_def a_def add.assoc)
    with base merge_ok [OF ok3 a_def] only_in_trans [OF o merge_ok(2) [OF ok3 a_def]] sp(3) cs adr
    show ?thesis by simp
  next
    case False
    have "\<not> heap_is_next_unused (of_nat a) m1"
    proof (cases cs)
      case Nil
      with at1(8) show ?thesis by (simp add: heap_is_next_unused_def)
    next
      case (Cons c ds)
      with False obtain j where c: "c = (True, j)" by (cases c) (auto split: bool.splits)
      have "heap_ok m1 h s e ((pre @ [(False, k)]) @ (True, j) # ds)" using ok2 Cons c by simp
      from heap_ok_at [OF this refl] show ?thesis
        using at1(7,8) Cons by (simp add: heap_is_next_unused_def a_def add.assoc)
    qed
    moreover have "(case cs of (False, j) # ds \<Rightarrow> (False, k + 8 + j) # ds | _ \<Rightarrow> (False, k) # cs) = (False, k) # cs"
      using False by (auto split: list.split prod.split bool.split)
    ultimately show ?thesis using base ok2 o sp(3) adr by simp
  qed
qed

section \<open>Defragmentation and creation\<close>

lemma defrag_blocks_props:
  "payloads a (defrag_blocks bs) = payloads a bs \<and> span (defrag_blocks bs) = span bs \<and>
   successively (\<lambda>b c. fst b \<or> fst c) (defrag_blocks bs) \<and>
   (defrag_blocks bs = [] \<longleftrightarrow> bs = []) \<and> fst (hd (defrag_blocks bs)) = fst (hd bs) \<and>
   length (defrag_blocks bs) \<le> length bs"
proof (induction "length bs" arbitrary: a bs rule: less_induct)
  case less
  show ?case
  proof (cases bs)
    case (Cons b cs)
    obtain u n where b: "b = (u, n)" by (cases b)
    show ?thesis
    proof (cases "\<exists>k ds. \<not> u \<and> cs = (False, k) # ds")
      case True
      then obtain k ds where cs: "cs = (False, k) # ds" "u = False" by blast
      have "a + 8 + (n + 8 + k) = a + 8 + n + 8 + k" by simp
      with less [of "(False, n + 8 + k) # ds" a] Cons b cs show ?thesis by simp
    next
      case False
      have eq: "defrag_blocks bs = (u, n) # defrag_blocks cs"
        using False Cons b by (cases u; cases cs) (auto split: prod.splits bool.splits)
      have "cs \<noteq> [] \<Longrightarrow> u \<or> fst (hd cs)" using False by (cases cs) auto
      with less [of cs "a + 8 + n"] Cons b eq show ?thesis
        by (auto simp: successively_Cons)
    qed
  qed simp
qed

lemma defrag_loop_ok:
  assumes "heap_ok m h s e (pre @ bs)"
  shows "\<exists>m'. defrag_loop h (if bs = [] then 0 else of_nat (s + span pre)) c m =
      Some (c + of_nat (length bs - length (defrag_blocks bs)), m') \<and>
    heap_ok m' h s e (pre @ defrag_blocks bs)"
  using assms
proof (induction "length bs" arbitrary: bs pre m c rule: less_induct)
  case less
  show ?case
  proof (cases bs)
    case Nil
    have "defrag_loop h 0 c m = Some (c, m)" by (subst defrag_loop.simps) simp
    with Nil less.prems show ?thesis by simp
  next
    case (Cons b cs)
    obtain u n where b: "b = (u, n)" by (cases b)
    define a where "a = s + span pre"
    have ok: "heap_ok m h s e (pre @ (u, n) # cs)" using less.prems Cons b by simp
    note at = heap_ok_at [OF ok a_def]
    have a0: "of_nat a \<noteq> (0::u32)"
      using at(1,3,4) unat_of_nat_u32 [of a] by (metis add_lessD1 less_numeral_extra(3) unat_0)
    show ?thesis
    proof (cases "\<exists>k ds. \<not> u \<and> cs = (False, k) # ds")
      case True
      then obtain k ds where cs: "cs = (False, k) # ds" and u: "u = False" by blast
      have ok2: "heap_ok m h s e (pre @ (False, n) # (False, k) # ds)" using ok cs u by simp
      note mrg = merge_ok [OF ok2 a_def]
      have "heap_ok m h s e ((pre @ [(False, n)]) @ (False, k) # ds)" using ok2 by simp
      from heap_ok_at [OF this refl]
      have step: "defrag_loop h (of_nat a) c m =
          defrag_loop h (of_nat a) (c + 1) (heap_front_merge_block h (of_nat a) m)"
        using a0 at(6,7,8) cs u by (subst defrag_loop.simps) (simp add: a_def add.assoc)
      have len: "length (defrag_blocks ((False, n + 8 + k) # ds)) \<le> length ds + 1"
        using defrag_blocks_props [of 0 "(False, n + 8 + k) # ds"] by simp
      have "\<exists>m'. defrag_loop h (of_nat a) (c + 1) (heap_front_merge_block h (of_nat a) m) =
          Some (c + 1 + of_nat (length ((False, n + 8 + k) # ds) - length (defrag_blocks ((False, n + 8 + k) # ds))), m') \<and>
          heap_ok m' h s e (pre @ defrag_blocks ((False, n + 8 + k) # ds))"
        using less.hyps [of "(False, n + 8 + k) # ds" _ pre "c + 1", OF _ mrg(1)] Cons cs
        by (simp add: a_def)
      moreover have "c + 1 + of_nat (length ds + 1 - x) = c + of_nat (length ds + 2 - x)"
        if "x \<le> length ds + 1" for x
        using that by (simp add: of_nat_diff Suc_diff_le)
      ultimately show ?thesis
        using step len Cons b cs u by (simp add: a_def [symmetric] algebra_simps)
    next
      case False
      have eq: "defrag_blocks bs = (u, n) # defrag_blocks cs"
        using False Cons b by (cases u; cases cs) (auto split: prod.splits bool.splits)
      have okn: "heap_ok m h s e ((pre @ [(u, n)]) @ cs)" using ok by simp
      have step: "defrag_loop h (of_nat a) c m =
          defrag_loop h (if cs = [] then 0 else of_nat (a + 8 + n)) c m"
      proof (cases cs)
        case Nil
        then show ?thesis using a0 at(6,7,8) by (subst defrag_loop.simps) simp
      next
        case (Cons d ds)
        obtain v k where d: "d = (v, k)" by (cases d)
        have "heap_ok m h s e ((pre @ [(u, n)]) @ (v, k) # ds)" using okn Cons d by simp
        from heap_ok_at [OF this refl] show ?thesis
          using a0 at(6,7,8) False Cons d
          by (subst defrag_loop.simps) (auto simp: a_def add.assoc)
      qed
      have "\<exists>m'. defrag_loop h (if cs = [] then 0 else of_nat (s + span (pre @ [(u, n)]))) c m =
          Some (c + of_nat (length cs - length (defrag_blocks cs)), m') \<and>
          heap_ok m' h s e ((pre @ [(u, n)]) @ defrag_blocks cs)"
        by (rule less.hyps [OF _ okn]) (use Cons in simp)
      with step eq Cons b show ?thesis by (cases "cs = []") (simp_all add: a_def add.assoc)
    qed
  qed
qed

lemma heap_create_ok:
  assumes "base \<noteq> 0" "20 \<le> unat sz" "unat base + unat sz < 4294967296"
  shows "\<exists>m'. heap_create base sz m = (base, m') \<and>
    heap_ok m' base (unat base + 12) (unat base + unat sz) [(False, unat sz - 20)]"
proof -
  let ?s = "unat base + 12" and ?e = "unat base + unat sz"
  define m1 where "m1 = store32 m base (base + 12)"
  define m2 where "m2 = store32 m1 (base + 4) (sz - 12)"
  define m3 where "m3 = set_current_blocks base (of_nat 0) m2"
  have h12: "unat base + 12 \<le> 4294967296" using assms by simp
  have b4: "of_nat (unat base + 4) = base + 4" by simp
  have o2: "only_in m1 m2 {unat base + 4..<unat base + 4 + 4}"
    using only_in_store32 [of "unat base + 4" m1 "sz - 12"] assms unfolding m2_def b4 by simp
  have "load32 m2 (of_nat (unat base)) = load32 m1 (of_nat (unat base))"
    by (rule load32_other [OF o2]) (use assms in auto)
  then have s2: "heap_start_address m2 base = of_nat ?s"
    by (simp add: heap_start_address_def m1_def load32_store32)
  have "heap_size m2 base = of_nat (?e - ?s)"
    using assms by (simp add: heap_size_def m2_def load32_store32 of_nat_diff)
  with s2 have "master m2 base ?s ?e (unat (heap_current_blocks m2 base))" by (simp add: master_def)
  then have mas: "master m3 base ?s ?e 0"
    unfolding m3_def by (rule set_current_blocks_effect(2) [OF h12])
  then have st: "heap_start_address m3 base = of_nat ?s" by (simp add: master_def)
  define m4 where "m4 = heap_block_t_create base (of_nat ?s) (if False then 1 else 0) (of_nat 0) 0 m3"
  have a: "?s + 8 \<le> 4294967296" "unat base + 12 \<le> ?s" using assms by simp_all
  note cr = create_effect [OF a mas, of False 0 0, folded m4_def]
  have "heap_create base sz m = (base, m4)"
    unfolding heap_create_def Let_def m1_def [symmetric] m2_def [symmetric]
    using st by (simp add: m3_def m4_def)
  moreover have "heap_ok m4 base ?s ?e [(False, unat sz - 20)]"
    using cr(2,3) assms by (simp add: heap_ok_def chain_def)
  ultimately show ?thesis by blast
qed

section \<open>The heap as a block heap\<close>

definition heap_rep :: "u32 \<Rightarrow> nat \<Rightarrow> nat \<Rightarrow> memory \<Rightarrow> (nat \<times> nat) set \<Rightarrow> bool" where
  "heap_rep h s e m L \<longleftrightarrow> (\<exists>bs. heap_ok m h s e bs \<and> L = set (payloads s bs))"

lemma heap_alloc_ok:
  assumes ok: "heap_ok m h s e bs"
  shows "\<exists>m'. heap_alloc h r_size m =
      Some (if r_size = 0 then 0 else
        case fst (alloc_blocks (unat r_size) s bs) of None \<Rightarrow> 0 | Some p \<Rightarrow> of_nat p, m') \<and>
    heap_ok m' h s e (if r_size = 0 then bs else snd (alloc_blocks (unat r_size) s bs)) \<and>
    only_in m m' ({unat h + 8..<unat h + 12} \<union> free_bytes s bs)"
proof (cases "r_size = 0")
  case True
  then show ?thesis using ok by (simp add: heap_alloc_def)
next
  case False
  then have "0 < unat r_size" by (simp add: unat_gt_0)
  moreover have "h \<noteq> 0" "heap_start_address m h = of_nat s" "bs \<noteq> []"
    using ok by (auto simp: heap_ok_def master_def chain_def)
  ultimately show ?thesis
    using alloc_loop_ok [of m h s e "[]" bs s r_size] ok False by (simp add: heap_alloc_def)
qed

lemma heap_ok_bounds:
  "heap_ok m h s e bs \<Longrightarrow> unat h + 12 \<le> s \<and> s + span bs = e \<and> e < 4294967296"
  by (simp add: heap_ok_def chain_def)

lemma payload_of_nat:
  assumes "heap_ok m h s e bs" "(p, k) \<in> set (payloads s bs)"
  shows "unat (of_nat p :: u32) = p" "0 < p"
  using heap_ok_bounds [OF assms(1)] payloads_range [OF assms(2)] by simp_all

lemma linked_payload_write:
  assumes "linked m a bs z" "(p, k) \<in> set (payloads a bs)" "only_in m m' {p..<p + k}"
    "a + span bs \<le> 4294967296"
  shows "linked m' a bs z"
  using assms(1,2,4)
proof (induction bs arbitrary: a)
  case (Cons b bs)
  obtain u n where b: "b = (u, n)" by (cases b)
  have hd: "hdr m' a u x = hdr m a u x" for x
    using Cons.prems payloads_range [OF Cons.prems(2)] b by (intro hdr_frame [OF assms(3)]) auto
  show ?case
  proof (cases "(p, k) \<in> set (payloads (a + 8 + n) bs)")
    case True
    with Cons.IH [of "a + 8 + n"] Cons.prems b hd show ?thesis by simp
  next
    case False
    with Cons.prems b have "p = a + 8" "k = n" by (auto split: if_splits)
    then have "linked m' (a + 8 + n) bs z = linked m (a + 8 + n) bs z"
      using Cons.prems b by (intro linked_frame [OF assms(3)]) auto
    with Cons.prems b hd show ?thesis by simp
  qed
qed simp

lemma heap_ok_payload_write:
  assumes ok: "heap_ok m h s e bs" and "(p, k) \<in> set (payloads s bs)" "only_in m m' {p..<p + k}"
  shows "heap_ok m' h s e bs"
proof -
  note b = heap_ok_bounds [OF ok]
  have "linked m' s bs 0"
    by (rule linked_payload_write [OF _ assms(2,3)]) (use ok b in \<open>auto simp: heap_ok_def chain_def\<close>)
  moreover have "{p..<p + k} \<inter> {unat h..<unat h + 12} = {}"
    using payloads_range [OF assms(2)] b by auto
  then have "master m' h s e (length bs) = master m h s e (length bs)"
    using b payloads_range [OF assms(2)] by (intro master_frame [OF assms(3)]) auto
  ultimately show ?thesis using ok by (simp add: heap_ok_def chain_def)
qed

lemma only_in_keeps: "only_in m m' S \<Longrightarrow> unat x \<notin> S \<Longrightarrow> m' x = m x"
  by (simp add: only_in_def)

lemma heap_alloc_cases:
  assumes ok: "heap_ok m h s e bs" and al: "heap_alloc h r_size m = Some (p, m')"
  obtains (zero) bs' where "p = 0" "heap_ok m' h s e bs'" "payloads s bs' = payloads s bs"
      "r_size \<noteq> 0 \<Longrightarrow> (\<forall>(u, n) \<in> set bs'. \<not> u \<longrightarrow> n < unat r_size)"
      "r_size \<noteq> 0 \<Longrightarrow> successively (\<lambda>b c. fst b \<or> fst c) bs'"
    | (block) bs' xs ys k where "p \<noteq> 0" "r_size \<noteq> 0" "heap_ok m' h s e bs'" "payloads s bs = xs @ ys"
      "payloads s bs' = xs @ (unat p, k) # ys" "unat r_size \<le> k"
proof (cases "r_size = 0")
  case True
  with heap_alloc_ok [OF ok, of r_size] al ok zero [of bs] show ?thesis by auto
next
  case False
  note spec = heap_alloc_ok [OF ok, of r_size]
  show ?thesis
  proof (cases "alloc_blocks (unat r_size) s bs")
    case (Pair q bs')
    show ?thesis
    proof (cases q)
      case None
      with spec al False Pair have "p = 0" "heap_ok m' h s e bs'" by auto
      with zero [of bs'] alloc_blocks_None [of "unat r_size" s bs bs'] Pair None show ?thesis by auto
    next
      case (Some a)
      with spec al False Pair have pa: "p = of_nat a" "heap_ok m' h s e bs'" by auto
      obtain xs ys k where k: "payloads s bs = xs @ ys" "payloads s bs' = xs @ (a, k) # ys"
        "unat r_size \<le> k"
        using alloc_blocks_Some [of "unat r_size" s bs a bs'] Pair Some by auto
      have "unat p = a" "0 < a" using payload_of_nat [OF pa(2), of a k] pa(1) k(2) by auto
      then have "p \<noteq> 0" by (metis less_numeral_extra(3) unat_0)
      with \<open>unat p = a\<close> show ?thesis using block [of bs' xs ys k] k pa False by auto
    qed
  qed
qed

interpretation kheap: block_heap "heap_alloc h" "heap_free h" "heap_rep h s e" for h s e
proof
  fix m L r
  assume rep: "heap_rep h s e m L"
  then obtain bs where ok: "heap_ok m h s e bs" and L: "L = set (payloads s bs)"
    by (auto simp: heap_rep_def)
  show "\<exists>p m'. heap_alloc h r m = Some (p, m')" using heap_alloc_ok [OF ok, of r] by blast
  show "heap_rep h s e m' L" if "heap_alloc h r m = Some (0, m')" for m'
    using heap_alloc_cases [OF ok that] L by (metis heap_rep_def)
  show "\<exists>k. unat r \<le> k \<and> unat p \<notin> fst ` L \<and> heap_rep h s e m' (insert (unat p, k) L)"
    if al: "heap_alloc h r m = Some (p, m')" and nz: "p \<noteq> 0" for p m'
    using ok al
  proof (cases rule: heap_alloc_cases)
    case (block bs' xs ys k)
    have "unat p \<notin> fst ` L" using payloads_distinct [of s bs'] block(4,5) L by auto
    moreover have "insert (unat p, k) L = set (payloads s bs')" using block(4,5) L by auto
    ultimately show ?thesis unfolding heap_rep_def
      using block(3,6) by (intro exI [of _ k] conjI exI [of _ bs'])
  qed (use nz in simp)
  show "m' x = m x" if "heap_alloc h r m = Some (p, m')" "(q, j) \<in> L" "q \<le> unat x" "unat x < q + j"
    for p m' q j x
  proof -
    have o: "only_in m m' ({unat h + 8..<unat h + 12} \<union> free_bytes s bs)"
      using heap_alloc_ok [OF ok, of r] that(1) by auto
    have "unat x \<in> {q - 8..<q + j}" using that by auto
    then have "unat x \<notin> free_bytes s bs" using payloads_used_bytes [of q j s bs] that(2) L by blast
    moreover have "unat h + 12 \<le> unat x"
      using heap_ok_bounds [OF ok] payloads_range [of q j s bs] that L by simp
    ultimately show ?thesis using only_in_keeps [OF o] by auto
  qed
  show "a + k \<le> q" if "(a, k) \<in> L" "(q, j) \<in> L" "a < q" for a k q j
    using payloads_disjoint [of a k s bs q j] that L by simp
  show "k = j" if "(a, k) \<in> L" "(a, j) \<in> L" for a k j
    using payloads_distinct [of s bs] that L by (auto dest: eq_key_imp_eq_value)
  show "heap_rep h s e m' L" if "(a, k) \<in> L" "only_in m m' {a..<a + k}" for a k m'
    using heap_ok_payload_write [OF ok] that L by (auto simp: heap_rep_def)
  show "\<exists>m'. heap_free h p m = (0, m') \<and> heap_rep h s e m' (L - {(unat p, k)}) \<and>
      (\<forall>q j x. (q, j) \<in> L \<longrightarrow> q \<noteq> unat p \<longrightarrow> q \<le> unat x \<longrightarrow> unat x < q + j \<longrightarrow> m' x = m x)"
    if live: "(unat p, k) \<in> L" for p k
  proof -
    have lv: "(unat p, k) \<in> set (payloads s bs)" using live L by simp
    obtain m' where m': "heap_free h p m = (0, m')" "heap_ok m' h s e (free_block (unat p) s bs)"
      "only_in m m' ({unat h + 8..<unat h + 12} \<union> {unat p - 8..<unat p})"
      using heap_free_ok [OF ok lv] by blast
    have "set (payloads s (free_block (unat p) s bs)) = L - {(unat p, k)}"
      using free_block_props [OF lv] payloads_distinct [of s bs] lv L
      by (auto dest: eq_key_imp_eq_value)
    moreover have "m' x = m x" if q: "(q, j) \<in> L" "q \<noteq> unat p" "q \<le> unat x" "unat x < q + j" for q j x
    proof (rule only_in_keeps [OF m'(3)])
      have qj: "(q, j) \<in> set (payloads s bs)" using q(1) L by simp
      have "q + j + 8 \<le> unat p \<or> unat p < q"
        using payloads_disjoint [OF qj lv] q(2) by (cases "q < unat p") auto
      then show "unat x \<notin> {unat h + 8..<unat h + 12} \<union> {unat p - 8..<unat p}"
        using q heap_ok_bounds [OF ok] payloads_range [OF qj] by auto
    qed
    ultimately show ?thesis using m' by (auto simp: heap_rep_def)
  qed
qed

section \<open>Aligned allocation\<close>

lemma heap_rep_bound: "heap_rep h s e m L \<Longrightarrow> (q, j) \<in> L \<Longrightarrow> 8 \<le> q \<and> q + j < 4294967296"
  using heap_ok_bounds payloads_range by (fastforce simp: heap_rep_def)

lemma padding_props:
  fixes p align :: u32
  defines "pad \<equiv> (if (p + 4) mod align \<noteq> 0 then align - (p + 4) mod align else 0)"
  assumes "align \<noteq> 0" "unat p + 4 + unat align < 4294967296"
  shows "unat pad < unat align" "unat (p + 4 + pad) = unat p + 4 + unat pad"
    "unat (p + 4 + pad) mod unat align = 0"
proof -
  let ?x = "unat p + 4" and ?a = "unat align"
  have a: "0 < ?a" using assms(2) by (simp add: unat_gt_0)
  have x: "unat (p + 4) = ?x" using assms(3) by (simp add: unat_word_ariths)
  have md: "unat ((p + 4) mod align) = ?x mod ?a" by (simp add: unat_mod x)
  have lt: "?x mod ?a < ?a" using a by simp
  have pad: "unat pad = (if ?x mod ?a \<noteq> 0 then ?a - ?x mod ?a else 0)"
  proof (cases "?x mod ?a = 0")
    case True
    then have "(p + 4) mod align = 0" using md by (simp add: word_unat_eq_iff)
    with True show ?thesis by (simp add: pad_def)
  next
    case False
    then have "(p + 4) mod align \<noteq> 0" using md by (metis unat_0)
    moreover have "unat (align - (p + 4) mod align) = ?a - ?x mod ?a"
      using lt md by (simp add: unat_sub_if_size)
    ultimately show ?thesis using False by (simp add: pad_def)
  qed
  then show "unat pad < ?a" using a by (auto simp: )
  then have "unat (p + 4) + unat pad < 4294967296" using x assms(3) by simp
  then show sum: "unat (p + 4 + pad) = ?x + unat pad" using x by (simp add: unat_word_ariths)
  show "unat (p + 4 + pad) mod ?a = 0"
  proof (cases "?x mod ?a = 0")
    case True
    then show ?thesis unfolding sum pad by simp
  next
    case False
    have "?x + (?a - ?x mod ?a) = ?a * (?x div ?a) + ?a"
      using lt mult_div_mod_eq [of ?a ?x] by linarith
    then have "(?x + (?a - ?x mod ?a)) mod ?a = 0" by simp
    with False show ?thesis unfolding sum pad by simp
  qed
qed

lemma heap_alloc_a_ok:
  assumes rep: "heap_rep h s e m L" and al: "align \<noteq> 0"
    and nowrap: "unat r_size + unat align + 4 < 4294967296"
    and res: "heap_alloc h (r_size + align + 4) m = Some (p, m1)" and nz: "p \<noteq> 0"
  shows "\<exists>ret m' k. heap_alloc_a h r_size align m = Inr (ret, m') \<and> unat ret mod unat align = 0 \<and>
    unat p \<notin> fst ` L \<and> heap_rep h s e m' (insert (unat p, k) L) \<and>
    unat p \<le> unat ret \<and> unat ret + unat r_size \<le> unat p + k \<and>
    heap_free_a h ret m' = heap_free h p m' \<and> only_in m1 m' {unat p..<unat p + k}"
proof -
  let ?r = "r_size + align + 4"
  have r: "unat ?r = unat r_size + unat align + 4" using nowrap by (simp add: unat_word_ariths)
  obtain k where k: "unat ?r \<le> k" "unat p \<notin> fst ` L" "heap_rep h s e m1 (insert (unat p, k) L)"
    using kheap.alloc_gives [OF rep res nz] by blast
  have pk: "unat p + k < 4294967296" using heap_rep_bound [OF k(3)] by simp
  define pad where "pad = (if (p + 4) mod align \<noteq> 0 then align - (p + 4) mod align else 0)"
  have fit: "unat p + 4 + unat align < 4294967296" using pk k(1) r by simp
  note pp = padding_props [OF al fit, folded pad_def]
  define ret where "ret = p + 4 + pad"
  define m' where "m' = store32 m1 (ret - 4) pad"
  have eq: "heap_alloc_a h r_size align m = Inr (ret, m')"
    using res al by (simp add: heap_alloc_a_def pad_def ret_def m'_def Let_def)
  have at: "ret - 4 = of_nat (unat p + unat pad)" by (simp add: ret_def)
  have o: "only_in m1 m' {unat p..<unat p + k}"
    unfolding m'_def at by (rule only_in_mono [OF only_in_store32]) (use pk k(1) r pp(1) in auto)
  have rep': "heap_rep h s e m' (insert (unat p, k) L)"
    by (rule kheap.live_write [OF k(3) insertI1 o])
  have "load32 m' (ret - 4) = pad" by (simp add: m'_def load32_store32)
  then have "heap_free_a h ret m' = heap_free h p m'"
    by (simp add: heap_free_a_def ret_def)
  moreover have "unat ret mod unat align = 0" "unat p \<le> unat ret"
    using pp by (simp_all add: ret_def)
  moreover have "unat ret + unat r_size \<le> unat p + k"
    using pp(1,2) k(1) r by (simp add: ret_def)
  ultimately show ?thesis using eq rep' k(2) o by (intro exI conjI)
qed

end
