(* ===== verification/Heap_Props.thy ===== *)
theory Heap_Props
  imports Heap_Manager
begin

text \<open>
  The properties of the kernel heap, over the code's operations on memory.  The witnesses run
  on a heap that heap_create lays out in a memory of zeros.
\<close>

text \<open>
  C3. On a well-formed heap, heap_alloc returns.  A non-zero answer is a new block of at least
  the size asked for that overlaps no live block; the answer 0 leaves the live blocks as they
  were.  Either way the heap stays well-formed and no byte of a live block changes.
\<close>

theorem heap_alloc_spec:
  assumes "heap_rep h s e m L"
  shows "\<exists>p m'. heap_alloc h r_size m = Some (p, m') \<and>
    (if p = 0 then heap_rep h s e m' L
     else \<exists>k. unat r_size \<le> k \<and> heap_rep h s e m' (insert (unat p, k) L) \<and>
       (\<forall>(q, j) \<in> L. unat p + k \<le> q \<or> q + j \<le> unat p)) \<and>
    (\<forall>(q, j) \<in> L. \<forall>x. q \<le> unat x \<and> unat x < q + j \<longrightarrow> m' x = m x)"
proof -
  obtain p m' where al: "heap_alloc h r_size m = Some (p, m')"
    using kheap.alloc_returns [OF assms] by blast
  have keep: "\<forall>(q, j) \<in> L. \<forall>x. q \<le> unat x \<and> unat x < q + j \<longrightarrow> m' x = m x"
    using kheap.alloc_keeps [OF assms al] by blast
  show ?thesis
  proof (cases "p = 0")
    case True
    with al keep kheap.alloc_fails [OF assms, of r_size m'] show ?thesis by auto
  next
    case False
    obtain k where k: "unat r_size \<le> k" "heap_rep h s e m' (insert (unat p, k) L)" "unat p \<notin> fst ` L"
      using kheap.alloc_gives [OF assms al False] by blast
    have "unat p + k \<le> q \<or> q + j \<le> unat p" if "(q, j) \<in> L" for q j
    proof -
      have "unat p \<noteq> q" using k(3) that by force
      then show ?thesis
        using kheap.live_apart [OF k(2), of "unat p" k q j] kheap.live_apart [OF k(2), of q j "unat p" k] that
        by (meson insertI1 insertI2 nat_neq_iff)
    qed
    then have "\<forall>(q, j) \<in> L. unat p + k \<le> q \<or> q + j \<le> unat p" by blast
    with al keep False k(1,2) show ?thesis by auto
  qed
qed

text \<open>
  C24. heap_alloc is complete: when it answers 0 to a non-zero request, the heap it leaves has no
  two neighbouring free blocks, and every free block is smaller than the request.  So the answer
  0 is never due to fragmentation into adjacent free blocks.
\<close>

theorem heap_alloc_complete:
  assumes "heap_ok m h s e bs" "heap_alloc h r_size m = Some (0, m')" "r_size \<noteq> 0"
  shows "\<exists>bs'. heap_ok m' h s e bs' \<and> payloads s bs' = payloads s bs \<and>
    (\<forall>(u, n) \<in> set bs'. u \<or> n < unat r_size) \<and> successively (\<lambda>b c. fst b \<or> fst c) bs'"
  using assms(1,2)
proof (cases rule: heap_alloc_cases)
  case (zero bs')
  have "\<forall>(u, n) \<in> set bs'. u \<or> n < unat r_size" using zero(4) [OF assms(3)] by blast
  with zero(2,3) zero(5) [OF assms(3)] show ?thesis by blast
qed simp

text \<open>
  C23. Freeing the block heap_alloc returned gives back a well-formed heap with exactly the live
  blocks there were before, all of them with their contents.
\<close>

theorem heap_free_alloc:
  assumes "heap_rep h s e m L" "heap_alloc h r_size m = Some (p, m')" "p \<noteq> 0"
  shows "\<exists>m''. heap_free h p m' = (0, m'') \<and> heap_rep h s e m'' L \<and>
    (\<forall>(q, j) \<in> L. \<forall>x. q \<le> unat x \<and> unat x < q + j \<longrightarrow> m'' x = m x)"
proof -
  obtain k where k: "unat p \<notin> fst ` L" "heap_rep h s e m' (insert (unat p, k) L)"
    using kheap.alloc_gives [OF assms] by blast
  obtain m'' where m'': "heap_free h p m' = (0, m'')"
    "heap_rep h s e m'' (insert (unat p, k) L - {(unat p, k)})"
    "\<And>q j x. (q, j) \<in> insert (unat p, k) L \<Longrightarrow> q \<noteq> unat p \<Longrightarrow> q \<le> unat x \<Longrightarrow> unat x < q + j \<Longrightarrow> m'' x = m' x"
    using kheap.dealloc_takes [OF k(2) insertI1] by blast
  have "insert (unat p, k) L - {(unat p, k)} = L" using k(1) by force
  moreover have "m'' x = m x" if "(q, j) \<in> L" "q \<le> unat x" "unat x < q + j" for q j x
    using m''(3) [of q j x] kheap.alloc_keeps [OF assms(1,2) that] that k(1) by force
  ultimately show ?thesis using m'' by auto
qed

text \<open>
  heap_alloc_a, when heap_alloc finds memory, returns an address that is a multiple of the
  alignment and has the bytes asked for inside a new live block, and heap_free_a on that address
  frees the block again: the live blocks are the ones before.
\<close>

theorem heap_alloc_a_free_a:
  assumes "heap_rep h s e m L" "align \<noteq> 0" "unat r_size + unat align + 4 < 4294967296"
    "heap_alloc h (r_size + align + 4) m = Some (p, m1)" "p \<noteq> 0"
  shows "\<exists>ret m' m''. heap_alloc_a h r_size align m = Inr (ret, m') \<and>
    unat ret mod unat align = 0 \<and>
    (\<exists>k. heap_rep h s e m' (insert (unat p, k) L) \<and> unat p \<le> unat ret \<and>
       unat ret + unat r_size \<le> unat p + k) \<and>
    heap_free_a h ret m' = (0, m'') \<and> heap_rep h s e m'' L"
proof -
  obtain ret m' k where a: "heap_alloc_a h r_size align m = Inr (ret, m')"
    "unat ret mod unat align = 0" "unat p \<notin> fst ` L" "heap_rep h s e m' (insert (unat p, k) L)"
    "unat p \<le> unat ret" "unat ret + unat r_size \<le> unat p + k"
    "heap_free_a h ret m' = heap_free h p m'"
    using heap_alloc_a_ok [OF assms] by - (elim exE conjE, rule that)
  obtain m'' where "heap_free h p m' = (0, m'')"
    "heap_rep h s e m'' (insert (unat p, k) L - {(unat p, k)})"
    using kheap.dealloc_takes [OF a(4) insertI1] by blast
  moreover have "insert (unat p, k) L - {(unat p, k)} = L" using a(3) by force
  ultimately show ?thesis using a by auto
qed

text \<open>
  heap_alloc_a never answers 0 and never reports failure: when heap_alloc fails it still
  returns a small non-zero address and writes four bytes just below it.
\<close>

theorem heap_alloc_a_failure:
  assumes "heap_alloc h (r_size + align + 4) m = Some (0, m1)" "align \<noteq> 0" "unat align < 2 ^ 31"
  shows "\<exists>ret. heap_alloc_a h r_size align m = Inr (ret, store32 m1 (ret - 4) (ret - 4)) \<and>
    ret \<noteq> 0 \<and> unat ret < unat align + 4 \<and> unat ret mod unat align = 0"
proof -
  define pad :: u32 where "pad = (if (0 + 4) mod align \<noteq> 0 then align - (0 + 4) mod align else 0)"
  have fit: "unat (0::u32) + 4 + unat align < 4294967296" using assms(3) by simp
  note pp = padding_props [OF assms(2) fit, folded pad_def]
  have "heap_alloc_a h r_size align m = Inr (4 + pad, store32 m1 pad pad)"
    using assms(1,2) by (simp add: heap_alloc_a_def pad_def Let_def)
  moreover have "4 + pad \<noteq> 0" using pp(2) by (auto simp: word_unat_eq_iff)
  ultimately show ?thesis using pp by (intro exI [of _ "4 + pad"]) simp
qed

text \<open>
  C25. heap_defrag returns and merges all neighbouring free blocks; it keeps the live blocks,
  and its answer is the number of blocks that disappeared.
\<close>

theorem heap_defrag_spec:
  assumes "heap_ok m h s e bs"
  shows "\<exists>c m' bs'. heap_defrag h m = Some (c, m') \<and> heap_ok m' h s e bs' \<and>
    payloads s bs' = payloads s bs \<and> successively (\<lambda>b c. fst b \<or> fst c) bs' \<and>
    length bs' \<le> length bs \<and> c = of_nat (length bs - length bs')"
proof -
  have h: "h \<noteq> 0" "heap_start_address m h = of_nat s" "bs \<noteq> []"
    using assms by (auto simp: heap_ok_def master_def chain_def)
  obtain m' where "defrag_loop h (of_nat s) 0 m =
      Some (0 + of_nat (length bs - length (defrag_blocks bs)), m')"
    "heap_ok m' h s e (defrag_blocks bs)"
    using defrag_loop_ok [of m h s e "[]" bs 0] assms h(3) by auto
  with h defrag_blocks_props [of s bs] show ?thesis by (auto simp: heap_defrag_def)
qed

section \<open>Witnesses\<close>

definition heap_example :: memory where
  "heap_example = snd (heap_create 0x1000 0x100 (\<lambda>_. 0))"

lemma heap_example_ok: "heap_ok heap_example 0x1000 0x100C 0x1100 [(False, 236)]"
  using heap_create_ok [of "0x1000" "0x100" "\<lambda>_. 0"] by (auto simp: heap_example_def)

lemma heap_example_rep: "heap_rep 0x1000 0x100C 0x1100 heap_example {}"
  using heap_example_ok by (auto simp: heap_rep_def intro!: exI [of _ "[(False, 236)]"])

lemma heap_example_alloc:
  assumes "0 < unat r" "unat r \<le> 236"
  shows "\<exists>m'. heap_alloc 0x1000 r heap_example = Some (0x1014, m')"
  using heap_alloc_ok [OF heap_example_ok, of r] assms by (auto simp: unat_gt_0)

lemma heap_alloc_spec_witness:
  "\<exists>p m'. heap_alloc 0x1000 16 heap_example = Some (p, m')"
  using heap_alloc_spec [OF heap_example_rep, of 16] by blast

lemma heap_alloc_complete_witness:
  "\<exists>m' bs'. heap_alloc 0x1000 300 heap_example = Some (0, m') \<and> heap_ok m' 0x1000 0x100C 0x1100 bs' \<and>
    (\<forall>(u, n) \<in> set bs'. u \<or> n < 300)"
proof -
  obtain m' where "heap_alloc 0x1000 300 heap_example = Some (0, m')"
    using heap_alloc_ok [OF heap_example_ok, of 300] by auto
  with heap_alloc_complete [OF heap_example_ok this] show ?thesis by auto
qed

lemma heap_free_alloc_witness:
  "\<exists>m' m''. heap_alloc 0x1000 16 heap_example = Some (0x1014, m') \<and>
    heap_free 0x1000 0x1014 m' = (0, m'')"
proof -
  obtain m' where a: "heap_alloc 0x1000 16 heap_example = Some (0x1014, m')"
    using heap_example_alloc [of 16] by auto
  with heap_free_alloc [OF heap_example_rep a] show ?thesis by auto
qed

lemma heap_alloc_a_free_a_witness:
  "\<exists>ret m' m''. heap_alloc_a 0x1000 24 16 heap_example = Inr (ret, m') \<and> unat ret mod 16 = 0 \<and>
    heap_free_a 0x1000 ret m' = (0, m'')"
proof -
  obtain m' where a: "heap_alloc 0x1000 44 heap_example = Some (0x1014, m')"
    using heap_example_alloc [of 44] by auto
  with heap_alloc_a_free_a [OF heap_example_rep, of 16 24 "0x1014" m'] show ?thesis by auto
qed

lemma heap_alloc_a_failure_witness:
  "\<exists>ret m'. heap_alloc_a 0x1000 300 4 heap_example = Inr (ret, m') \<and> ret \<noteq> 0"
proof -
  obtain m' where "heap_alloc 0x1000 308 heap_example = Some (0, m')"
    using heap_alloc_ok [OF heap_example_ok, of 308] by auto
  with heap_alloc_a_failure [of "0x1000" 300 4 heap_example m'] show ?thesis by auto
qed

lemma heap_defrag_spec_witness:
  "\<exists>c m'. heap_defrag 0x1000 heap_example = Some (c, m')"
  using heap_defrag_spec [OF heap_example_ok] by blast

end
