(* ===== verification/Vm_Area.thy ===== *)
theory Vm_Area
  imports Prelude
begin

text \<open>Virtual memory areas, \<^verbatim>\<open>vm_area.c\<close>: inclusive address ranges with flags.\<close>

record vm_area =
  start_addr :: u32
  end_addr :: u32
  flags :: u32
  fd :: u32
  offset :: u64

definition vm_area_check_bounds :: "u32 \<Rightarrow> u32 \<Rightarrow> bool" where
  "vm_area_check_bounds st en \<longleftrightarrow>
     \<not> (st mod 4096 \<noteq> 0 \<or> (en - st + 1) mod 4096 \<noteq> 0 \<or> st \<ge> en)"

text \<open>Bad bounds give the area of zeros that memset left.\<close>

definition vm_area_create :: "u32 \<Rightarrow> u32 \<Rightarrow> u32 \<Rightarrow> u32 \<Rightarrow> u64 \<Rightarrow> vm_area" where
  "vm_area_create st en fl f off =
     (let a = \<lparr>start_addr = 0, end_addr = 0, flags = 0, fd = 0, offset = 0\<rparr>
      in if \<not> vm_area_check_bounds st en then a
         else a\<lparr>start_addr := st, end_addr := en, flags := fl, fd := f, offset := off\<rparr>)"

definition vm_area_intersect :: "vm_area \<Rightarrow> vm_area \<Rightarrow> bool" where
  "vm_area_intersect a b \<longleftrightarrow> \<not> (end_addr a < start_addr b \<or> start_addr a > end_addr b)"

definition vm_area_get_length :: "vm_area \<Rightarrow> u32" where
  "vm_area_get_length area = end_addr area - start_addr area + 1"

definition vm_area_is_removable :: "vm_area \<Rightarrow> bool" where
  "vm_area_is_removable area = True"

definition vm_area_grows_down :: "vm_area \<Rightarrow> bool" where
  "vm_area_grows_down area = False"

definition vm_area_is_ok :: "vm_area \<Rightarrow> bool" where
  "vm_area_is_ok area \<longleftrightarrow> start_addr area < end_addr area"

text \<open>The addresses of an area, and what intersection means for them.\<close>

definition in_area :: "vm_area \<Rightarrow> u32 \<Rightarrow> bool" where
  "in_area a x \<longleftrightarrow> start_addr a \<le> x \<and> x \<le> end_addr a"

lemma vm_area_intersect_iff:
  assumes "start_addr a \<le> end_addr a" "start_addr b \<le> end_addr b"
  shows "vm_area_intersect a b \<longleftrightarrow> (\<exists>x. in_area a x \<and> in_area b x)"
proof
  assume "vm_area_intersect a b"
  then have "in_area a (max (start_addr a) (start_addr b))" "in_area b (max (start_addr a) (start_addr b))"
    using assms by (auto simp: vm_area_intersect_def in_area_def not_less max_def)
  then show "\<exists>x. in_area a x \<and> in_area b x" by blast
next
  assume "\<exists>x. in_area a x \<and> in_area b x"
  then show "vm_area_intersect a b"
    by (auto simp: vm_area_intersect_def in_area_def not_less)
qed

lemma vm_area_intersect_sym: "vm_area_intersect a b = vm_area_intersect b a"
  by (auto simp: vm_area_intersect_def)

text \<open>A created area is usable exactly when its bounds are good; it is then a whole number of
  pages.\<close>

lemma vm_area_create_ok:
  "vm_area_is_ok (vm_area_create st en fl f off) \<longleftrightarrow> vm_area_check_bounds st en"
  by (auto simp: vm_area_create_def vm_area_is_ok_def vm_area_check_bounds_def Let_def)

lemma vm_area_create_length:
  assumes "vm_area_check_bounds st en"
  shows "vm_area_get_length (vm_area_create st en fl f off) mod 4096 = 0"
  using assms by (simp add: vm_area_create_def vm_area_get_length_def vm_area_check_bounds_def)

end
