(* ===== verification/Vm_Tree.thy ===== *)
theory Vm_Tree
  imports Vm_Area "HOL-Library.Multiset"
begin

text \<open>
  The AVL interval tree of \<^verbatim>\<open>vm_contract.c\<close>: memory areas ordered by start address,
  each node storing its height and the highest end address below it.  A node carries the address
  of its heap block; reading through a null pointer is the fault \<open>NullDeref\<close>.
\<close>

section \<open>Nodes\<close>

datatype vm_area_node =
    Null
  | Vm_node (node_addr: u32) (left_child: vm_area_node) (right_child: vm_area_node)
      (height: u32) (max_end: u32) (area: vm_area)

definition get_node_height :: "vm_area_node \<Rightarrow> u32" where
  "get_node_height n = (case n of Null \<Rightarrow> 0 | Vm_node p l r h m a \<Rightarrow> h)"

definition get_node_max :: "vm_area_node \<Rightarrow> u32" where
  "get_node_max n = (case n of Null \<Rightarrow> 0 | Vm_node p l r h m a \<Rightarrow> m)"

text \<open>The difference of two unsigned heights, returned as \<^verbatim>\<open>int\<close>.\<close>

definition get_node_balance :: "vm_area_node \<Rightarrow> int" where
  "get_node_balance n =
     (case n of Null \<Rightarrow> 0
      | Vm_node p l r h m a \<Rightarrow> sint (get_node_height l - get_node_height r))"

fun get_node_min_value :: "vm_area_node \<Rightarrow> (u32 \<times> vm_area) option" where
  "get_node_min_value Null = None"
| "get_node_min_value (Vm_node p l r h m a) =
     (if l = Null then Some (p, a) else get_node_min_value l)"

text \<open>The two assignments that recompute the height and the maximum of a node.\<close>

definition update_node :: "u32 \<Rightarrow> vm_area_node \<Rightarrow> vm_area_node \<Rightarrow> vm_area \<Rightarrow> vm_area_node" where
  "update_node p l r a =
     Vm_node p l r (1 + max (get_node_height l) (get_node_height r))
       (max (end_addr a) (max (get_node_max l) (get_node_max r))) a"

definition avl_rotate_right :: "vm_area_node \<Rightarrow> vm_area_node res" where
  "avl_rotate_right n =
     (case n of Null \<Rightarrow> Inl NullDeref
      | Vm_node p l r h m a \<Rightarrow>
          (case l of Null \<Rightarrow> Inl NullDeref
           | Vm_node x xl T2 xh xm xa \<Rightarrow> Inr (update_node x xl (update_node p T2 r a) xa)))"

definition avl_rotate_left :: "vm_area_node \<Rightarrow> vm_area_node res" where
  "avl_rotate_left n =
     (case n of Null \<Rightarrow> Inl NullDeref
      | Vm_node p l r h m a \<Rightarrow>
          (case r of Null \<Rightarrow> Inl NullDeref
           | Vm_node y T2 yr yh ym ya \<Rightarrow> Inr (update_node y (update_node p l T2 a) yr ya)))"

text \<open>\<^verbatim>\<open>n->area.start_addr\<close>\<close>

definition start_key :: "vm_area_node \<Rightarrow> u32 res" where
  "start_key n = (case n of Null \<Rightarrow> Inl NullDeref | Vm_node p l r h m a \<Rightarrow> Inr (start_addr a))"

section \<open>Insertion\<close>

text \<open>The end of avl_insert, from the balance on, for the node with its children replaced.\<close>

definition insert_rebalance :: "u32 \<Rightarrow> u32 \<Rightarrow> vm_area_node \<Rightarrow> vm_area_node \<Rightarrow> vm_area \<Rightarrow> vm_area_node res" where
  "insert_rebalance key p l r a =
     (let tree = update_node p l r a; balance = get_node_balance tree in
      if balance > 1 then
        res_bind (start_key l) (\<lambda>k.
          if key < k then avl_rotate_right tree
          else if key > k then
            res_bind (avl_rotate_left l) (\<lambda>l'. avl_rotate_right (Vm_node p l' r (height tree) (max_end tree) a))
          else Inr tree)
      else if balance < - 1 then
        res_bind (start_key r) (\<lambda>k.
          if key > k then avl_rotate_left tree
          else if key < k then
            res_bind (avl_rotate_right r) (\<lambda>r'. avl_rotate_left (Vm_node p l r' (height tree) (max_end tree) a))
          else Inr tree)
      else Inr tree)"

fun avl_insert :: "vm_area_node \<Rightarrow> vm_area_node \<Rightarrow> vm_area_node res" where
  "avl_insert Null ins = Inr ins"
| "avl_insert (Vm_node p l r h m a) ins =
     res_bind (start_key ins) (\<lambda>key.
       if key < start_addr a then
         res_bind (avl_insert l ins) (\<lambda>l'. insert_rebalance key p l' r a)
       else if key > start_addr a then
         res_bind (avl_insert r ins) (\<lambda>r'. insert_rebalance key p l r' a)
       else Inr (Vm_node p l r h m a))"

section \<open>Removal\<close>

text \<open>
  The end of avl_remove.  Its last branch rotates \<^verbatim>\<open>root->left\<close> where the mirror image of the
  branch above it would rotate \<^verbatim>\<open>root\<close>.
\<close>

definition remove_rebalance :: "u32 \<Rightarrow> vm_area_node \<Rightarrow> vm_area_node \<Rightarrow> vm_area \<Rightarrow> vm_area_node res" where
  "remove_rebalance p l r a =
     (let root = update_node p l r a; balance = get_node_balance root in
      if balance > 1 \<and> get_node_balance l \<ge> 0 then avl_rotate_right root
      else if balance > 1 \<and> get_node_balance l < 0 then
        res_bind (avl_rotate_left l) (\<lambda>l'. avl_rotate_right (Vm_node p l' r (height root) (max_end root) a))
      else if balance < - 1 \<and> get_node_balance r \<le> 0 then avl_rotate_left root
      else if balance < - 1 \<and> get_node_balance r > 0 then
        res_bind (avl_rotate_right r) (\<lambda>r'. avl_rotate_left l)
      else Inr root)"

text \<open>
  avl_remove returns the new subtree and the node it took out: the address of its block and the
  area it holds in the end.  With two children the removed node is the one that held the minimum
  of the right subtree, and it receives the area of the node where the key was found.
\<close>

fun avl_remove :: "vm_area_node \<Rightarrow> u32 \<Rightarrow> (vm_area_node \<times> (u32 \<times> vm_area) option) res" where
  "avl_remove Null key = Inr (Null, None)"
| "avl_remove (Vm_node p l r h m a) key =
     (if key < start_addr a then
        res_bind (avl_remove l key) (\<lambda>(l', removed).
        res_bind (remove_rebalance p l' r a) (\<lambda>t. Inr (t, removed)))
      else if key > start_addr a then
        res_bind (avl_remove r key) (\<lambda>(r', removed).
        res_bind (remove_rebalance p l r' a) (\<lambda>t. Inr (t, removed)))
      else if l = Null \<and> r = Null then Inr (Null, Some (p, a))
      else if l = Null \<or> r = Null then
        (case (if l \<noteq> Null then l else r) of
           Null \<Rightarrow> Inl NullDeref
         | Vm_node q ql qr qh qm b \<Rightarrow>
             res_bind (remove_rebalance p ql qr b) (\<lambda>t. Inr (t, Some (q, a))))
      else
        (case get_node_min_value r of
           None \<Rightarrow> Inl NullDeref
         | Some (mp, ma) \<Rightarrow>
             res_bind (avl_remove r (start_addr ma)) (\<lambda>(r', removed).
               case removed of
                 None \<Rightarrow> Inl NullDeref
               | Some (q, b) \<Rightarrow>
                   res_bind (remove_rebalance p l r' ma) (\<lambda>t. Inr (t, Some (q, a))))))"

section \<open>Search\<close>

fun interval_intersect :: "vm_area_node \<Rightarrow> vm_area \<Rightarrow> (u32 \<times> vm_area) option" where
  "interval_intersect Null ar = None"
| "interval_intersect (Vm_node p l r h m a) ar =
     (if vm_area_intersect a ar then Some (p, a)
      else if l \<noteq> Null \<and> max_end l \<ge> start_addr ar then interval_intersect l ar
      else interval_intersect r ar)"

text \<open>The areas in the order vm_contract_print prints them.\<close>

fun vm_contract_print_rec :: "vm_area_node \<Rightarrow> vm_area list" where
  "vm_contract_print_rec Null = []"
| "vm_contract_print_rec (Vm_node p l r h m a) =
     vm_contract_print_rec l @ [a] @ vm_contract_print_rec r"

section \<open>Well-formed trees\<close>

text \<open>The true height and maximum, and the nodes in order.\<close>

fun ht :: "vm_area_node \<Rightarrow> nat" where
  "ht Null = 0"
| "ht (Vm_node p l r h m a) = Suc (max (ht l) (ht r))"

fun mx :: "vm_area_node \<Rightarrow> u32" where
  "mx Null = 0"
| "mx (Vm_node p l r h m a) = max (end_addr a) (max (mx l) (mx r))"

fun items :: "vm_area_node \<Rightarrow> (u32 \<times> vm_area) list" where
  "items Null = []"
| "items (Vm_node p l r h m a) = items l @ (p, a) # items r"

abbreviation areas :: "vm_area_node \<Rightarrow> vm_area list" where
  "areas t \<equiv> map snd (items t)"

abbreviation addrs :: "vm_area_node \<Rightarrow> u32 list" where
  "addrs t \<equiv> map fst (items t)"

text \<open>The stored fields are right; the tree is balanced; the areas are sorted and apart.\<close>

fun stored :: "vm_area_node \<Rightarrow> bool" where
  "stored Null \<longleftrightarrow> True"
| "stored (Vm_node p l r h m a) \<longleftrightarrow> stored l \<and> stored r \<and>
     h = of_nat (Suc (max (ht l) (ht r))) \<and> m = max (end_addr a) (max (mx l) (mx r))"

fun avl :: "vm_area_node \<Rightarrow> bool" where
  "avl Null \<longleftrightarrow> True"
| "avl (Vm_node p l r h m a) \<longleftrightarrow> avl l \<and> avl r \<and> ht l \<le> ht r + 1 \<and> ht r \<le> ht l + 1"

definition good :: "vm_area_node \<Rightarrow> bool" where
  "good t \<longleftrightarrow> avl t \<and> stored t"

definition apart :: "vm_area list \<Rightarrow> bool" where
  "apart as \<longleftrightarrow> sorted_wrt (\<lambda>a b. end_addr a < start_addr b) as \<and>
     (\<forall>a \<in> set as. start_addr a \<le> end_addr a)"

lemma good_simps [simp]:
  "good Null"
  "good (Vm_node p l r h m a) \<longleftrightarrow> good l \<and> good r \<and> ht l \<le> ht r + 1 \<and> ht r \<le> ht l + 1 \<and>
     h = of_nat (Suc (max (ht l) (ht r))) \<and> m = max (end_addr a) (max (mx l) (mx r))"
  by (auto simp: good_def)

lemma print_rec_areas: "vm_contract_print_rec t = areas t"
  by (induction t) auto

lemma ht_0_iff [simp]: "ht t = 0 \<longleftrightarrow> t = Null" "0 < ht t \<longleftrightarrow> t \<noteq> Null"
  by (cases t; simp)+

lemma get_node_height_ok: "stored t \<Longrightarrow> get_node_height t = of_nat (ht t)"
  by (cases t) (auto simp: get_node_height_def)

lemma get_node_max_ok: "stored t \<Longrightarrow> get_node_max t = mx t"
  by (cases t) (auto simp: get_node_max_def)

lemma max_end_ok: "stored t \<Longrightarrow> t \<noteq> Null \<Longrightarrow> max_end t = mx t"
  by (cases t) auto

lemma of_nat_max_u32:
  assumes "x < 2 ^ 31" "y < 2 ^ 31"
  shows "max (of_nat x :: u32) (of_nat y) = of_nat (max x y)"
  using assms by (simp add: max_def word_le_nat_alt)

lemma balance_of_nat:
  assumes "x < 2 ^ 31" "y < 2 ^ 31"
  shows "sint (of_nat x - of_nat y :: u32) = int x - int y"
proof -
  have "(of_nat x - of_nat y :: u32) = word_of_int (int x - int y)" by simp
  then have "sint (of_nat x - of_nat y :: u32) = sint (word_of_int (int x - int y) :: u32)"
    by (rule arg_cong)
  also have "\<dots> = signed_take_bit 31 (int x - int y)"
    by (simp only: sint_sbintrunc') simp
  also have "\<dots> = int x - int y"
    by (rule signed_take_bit_int_eq_self) (use assms in auto)
  finally show ?thesis .
qed

lemma update_node_ok:
  assumes "stored l" "stored r" "ht l < 2 ^ 31" "ht r < 2 ^ 31"
  shows "update_node p l r a =
    Vm_node p l r (of_nat (Suc (max (ht l) (ht r)))) (max (end_addr a) (max (mx l) (mx r))) a"
  using assms by (simp add: update_node_def get_node_height_ok get_node_max_ok of_nat_max_u32)

lemma get_node_balance_ok:
  assumes "stored l" "stored r" "ht l < 2 ^ 31" "ht r < 2 ^ 31"
  shows "get_node_balance (Vm_node p l r h m a) = int (ht l) - int (ht r)"
  using assms by (simp add: get_node_balance_def get_node_height_ok balance_of_nat)

lemma update_node_facts [simp]:
  "ht (update_node p l r a) = Suc (max (ht l) (ht r))"
  "items (update_node p l r a) = items l @ (p, a) # items r"
  "mx (update_node p l r a) = max (end_addr a) (max (mx l) (mx r))"
  "update_node p l r a \<noteq> Null"
  by (simp_all add: update_node_def)

lemma good_update_node:
  "good l \<Longrightarrow> good r \<Longrightarrow> ht l \<le> ht r + 1 \<Longrightarrow> ht r \<le> ht l + 1 \<Longrightarrow> ht l < 2 ^ 31 \<Longrightarrow> ht r < 2 ^ 31 \<Longrightarrow>
   good (update_node p l r a)"
  by (simp add: update_node_ok good_def)

section \<open>The height of a balanced tree\<close>

lemma avl_size: "avl t \<Longrightarrow> 2 ^ (ht t div 2) \<le> length (items t) + 1"
proof (induction t)
  case (Vm_node p l r h m a)
  show ?case
  proof (cases "ht l = 0 \<or> ht r = 0")
    case True
    with Vm_node.prems have "ht (Vm_node p l r h m a) \<le> 2" by auto
    then have "ht (Vm_node p l r h m a) div 2 \<le> 1" by linarith
    then have "(2::nat) ^ (ht (Vm_node p l r h m a) div 2) \<le> 2 ^ 1"
      by (rule power_increasing) simp
    then show ?thesis by simp
  next
    case False
    define k where "k = min (ht l) (ht r)"
    have "(Suc (max (ht l) (ht r))) div 2 \<le> Suc (k div 2)"
      using Vm_node.prems by (auto simp: k_def min_def max_def)
    then have "(2::nat) ^ (ht (Vm_node p l r h m a) div 2) \<le> 2 ^ Suc (k div 2)"
      by (intro power_increasing) simp_all
    moreover have "(2::nat) ^ (k div 2) \<le> 2 ^ (ht l div 2)" "(2::nat) ^ (k div 2) \<le> 2 ^ (ht r div 2)"
      by (intro power_increasing; simp add: k_def div_le_mono)+
    moreover have "(2::nat) ^ (ht l div 2) \<le> length (items l) + 1"
      "(2::nat) ^ (ht r div 2) \<le> length (items r) + 1"
      using Vm_node.IH Vm_node.prems by simp_all
    moreover have "length (items (Vm_node p l r h m a)) = length (items l) + length (items r) + 1" by simp
    ultimately show ?thesis unfolding power_Suc by linarith
  qed
qed simp

lemma distinct_words_length:
  assumes "distinct (xs :: u32 list)"
  shows "length xs \<le> 2 ^ 32"
proof -
  have "card (set xs) \<le> card (UNIV :: u32 set)" by (rule card_mono) simp_all
  also have "card (UNIV :: u32 set) = 2 ^ 32" by (simp add: card_word)
  finally show ?thesis using distinct_card [OF assms] by simp
qed

text \<open>Nodes at different addresses: the tree is at most 65 high, so no height overflows.\<close>

lemma avl_height_bound:
  assumes "avl t" "distinct (addrs t)"
  shows "ht t < 66"
proof -
  have "length (items t) \<le> 2 ^ 32" using distinct_words_length [OF assms(2)] by simp
  then have "(2::nat) ^ (ht t div 2) < 2 ^ 33" using avl_size [OF assms(1)] by simp
  then have "ht t div 2 < 33" by (rule power_less_imp_less_exp [rotated]) simp
  then show ?thesis by simp
qed

section \<open>Insertion is correct\<close>

text \<open>A subtree that grew: the new key is on its higher side.\<close>

definition grown :: "u32 \<Rightarrow> vm_area_node \<Rightarrow> bool" where
  "grown key t \<longleftrightarrow> (case t of Null \<Rightarrow> False | Vm_node p l r h m a \<Rightarrow>
     key < start_addr a \<and> ht l = ht r + 1 \<or> key > start_addr a \<and> ht r = ht l + 1)"

text \<open>The four rotations on balanced parts, with all the heights spelled out.\<close>

lemma rotate_node [simp]:
  "avl_rotate_right (Vm_node p (Vm_node q ll lr h m b) r h' m' a) =
     Inr (update_node q ll (update_node p lr r a) b)"
  "avl_rotate_left (Vm_node p l (Vm_node q rl rr h m b) h' m' a) =
     Inr (update_node q (update_node p l rl a) rr b)"
  "avl_rotate_right (update_node p (Vm_node q ll lr h m b) r a) =
     Inr (update_node q ll (update_node p lr r a) b)"
  "avl_rotate_left (update_node p l (Vm_node q rl rr h m b) a) =
     Inr (update_node q (update_node p l rl a) rr b)"
  "avl_rotate_right (Vm_node p (update_node q ll lr b) r h' m' a) =
     Inr (update_node q ll (update_node p lr r a) b)"
  "avl_rotate_left (Vm_node p l (update_node q rl rr b) h' m' a) =
     Inr (update_node q (update_node p l rl a) rr b)"
  by (simp_all add: avl_rotate_right_def avl_rotate_left_def update_node_def)

lemma rotate_right_good:
  assumes "good ll" "good lr" "good r" "ht ll = Suc n" "ht lr = n \<or> ht lr = Suc n" "ht r = n" "n < 2 ^ 30"
  shows "good (update_node q ll (update_node p lr r a) b)"
    "ht (update_node q ll (update_node p lr r a) b) = (if ht lr = n then n + 2 else n + 3)"
  using assms(5) assms(1-4,6,7) by (auto intro!: good_update_node)

lemma rotate_left_good:
  assumes "good l" "good rl" "good rr" "ht rr = Suc n" "ht rl = n \<or> ht rl = Suc n" "ht l = n" "n < 2 ^ 30"
  shows "good (update_node q (update_node p l rl a) rr b)"
    "ht (update_node q (update_node p l rl a) rr b) = (if ht rl = n then n + 2 else n + 3)"
  using assms(5) assms(1-4,6,7) by (auto intro!: good_update_node)

lemma rotate_double_good:
  assumes "good t1" "good t2" "good t3" "good t4" "ht t1 = n" "ht t4 = n" "n < 2 ^ 30"
    and "Suc (max (ht t2) (ht t3)) = Suc n" "ht t2 \<le> ht t3 + 1" "ht t3 \<le> ht t2 + 1"
  shows "good (update_node x (update_node q t1 t2 b) (update_node p t3 t4 a) c)"
    "ht (update_node x (update_node q t1 t2 b) (update_node p t3 t4 a) c) = n + 2"
proof -
  have h: "ht t2 \<le> n" "ht t3 \<le> n" "n \<le> ht t2 + 1" "n \<le> ht t3 + 1" using assms(8-10) by auto
  have g1: "good (update_node q t1 t2 b)" and g2: "good (update_node p t3 t4 a)"
    using assms h by (auto intro!: good_update_node)
  have e: "ht (update_node q t1 t2 b) = Suc n" "ht (update_node p t3 t4 a) = Suc n"
    using assms h by auto
  show "good (update_node x (update_node q t1 t2 b) (update_node p t3 t4 a) c)"
    by (rule good_update_node [OF g1 g2]) (use e assms(7) in auto)
  show "ht (update_node x (update_node q t1 t2 b) (update_node p t3 t4 a) c) = n + 2"
    unfolding update_node_facts(1) [of x] e by simp
qed

lemma update_node_balance:
  assumes "good l" "good r" "ht l < 2 ^ 31" "ht r < 2 ^ 31"
  shows "get_node_balance (update_node p l r a) = int (ht l) - int (ht r)"
  using assms by (simp add: update_node_def get_node_balance_ok good_def)

text \<open>Insertion: the left subtree became too high.\<close>

lemma insert_rebalance_left:
  assumes l: "l = Vm_node q ll lr h m b" and g: "good l" "good r" and n: "ht r = n" "n < 2 ^ 30"
    and high: "ht l = n + 2"
    and key: "key < start_addr b \<and> ht ll = ht lr + 1 \<or> key > start_addr b \<and> ht lr = ht ll + 1"
  shows "\<exists>t. insert_rebalance key p l r a = Inr t \<and> good t \<and> items t = items l @ (p, a) # items r \<and> ht t = n + 2"
proof -
  have bal: "get_node_balance (update_node p l r a) = 2"
    using g n high by (simp add: update_node_balance)
  have gl: "good ll" "good lr" using g(1) l by simp_all
  from key show ?thesis
  proof
    assume k: "key < start_addr b \<and> ht ll = ht lr + 1"
    with high l have h: "ht lr = n" "ht ll = Suc n" by auto
    have "insert_rebalance key p l r a = Inr (update_node q ll (update_node p lr r a) b)"
      using bal k l by (simp add: insert_rebalance_def start_key_def)
    with rotate_right_good [OF gl g(2) h(2) disjI1 [OF h(1)] n] h l show ?thesis by auto
  next
    assume k: "key > start_addr b \<and> ht lr = ht ll + 1"
    with high l have h: "ht ll = n" "ht lr = Suc n" by auto
    then obtain x t2 t3 h2 m2 c where lr: "lr = Vm_node x t2 t3 h2 m2 c" by (cases lr) auto
    have "insert_rebalance key p l r a = Inr (update_node x (update_node q ll t2 b) (update_node p t3 r a) c)"
      using bal k l lr by (auto simp: insert_rebalance_def start_key_def Let_def)
    moreover have "good t2" "good t3" "Suc (max (ht t2) (ht t3)) = Suc n" "ht t2 \<le> ht t3 + 1" "ht t3 \<le> ht t2 + 1"
      using gl(2) lr h(2) by simp_all
    note rotate_double_good [OF gl(1) this(1,2) g(2) h(1) n this(3-5)]
    ultimately show ?thesis using l lr by auto
  qed
qed

lemma insert_rebalance_right:
  assumes r: "r = Vm_node q rl rr h m b" and g: "good l" "good r" and n: "ht l = n" "n < 2 ^ 30"
    and high: "ht r = n + 2"
    and key: "key < start_addr b \<and> ht rl = ht rr + 1 \<or> key > start_addr b \<and> ht rr = ht rl + 1"
  shows "\<exists>t. insert_rebalance key p l r a = Inr t \<and> good t \<and> items t = items l @ (p, a) # items r \<and> ht t = n + 2"
proof -
  have bal: "get_node_balance (update_node p l r a) = - 2"
    using g n high by (simp add: update_node_balance)
  have gr: "good rl" "good rr" using g(2) r by simp_all
  from key show ?thesis
  proof
    assume k: "key > start_addr b \<and> ht rr = ht rl + 1"
    with high r have h: "ht rl = n" "ht rr = Suc n" by auto
    have "insert_rebalance key p l r a = Inr (update_node q (update_node p l rl a) rr b)"
      using bal k r by (simp add: insert_rebalance_def start_key_def)
    with rotate_left_good [OF g(1) gr h(2) disjI1 [OF h(1)] n] h r show ?thesis by auto
  next
    assume k: "key < start_addr b \<and> ht rl = ht rr + 1"
    with high r have h: "ht rr = n" "ht rl = Suc n" by auto
    then obtain x t2 t3 h2 m2 c where rl: "rl = Vm_node x t2 t3 h2 m2 c" by (cases rl) auto
    have "insert_rebalance key p l r a = Inr (update_node x (update_node p l t2 a) (update_node q t3 rr b) c)"
      using bal k r rl by (auto simp: insert_rebalance_def start_key_def Let_def)
    moreover have "good t2" "good t3" "Suc (max (ht t2) (ht t3)) = Suc n" "ht t2 \<le> ht t3 + 1" "ht t3 \<le> ht t2 + 1"
      using gr(1) rl h(2) by simp_all
    note rotate_double_good [OF g(1) this(1,2) gr(2) n(1) h(1) n(2) this(3-5)]
    ultimately show ?thesis using r rl by auto
  qed
qed

lemma insert_rebalance_none:
  assumes "good l" "good r" "ht l \<le> ht r + 1" "ht r \<le> ht l + 1" "ht l < 2 ^ 30" "ht r < 2 ^ 30"
  shows "insert_rebalance key p l r a = Inr (update_node p l r a)" "good (update_node p l r a)"
proof -
  show "insert_rebalance key p l r a = Inr (update_node p l r a)"
    using assms by (simp add: insert_rebalance_def update_node_balance)
  show "good (update_node p l r a)" using assms by (intro good_update_node) simp_all
qed

text \<open>
  Insertion of a node with a new key: it returns, the tree stays balanced with right stored
  fields, the new node lies between the smaller and the larger keys, and the height grows by at
  most one; a tree that grew is higher on the side of the new key.
\<close>

abbreviation below :: "u32 \<Rightarrow> (u32 \<times> vm_area) list \<Rightarrow> (u32 \<times> vm_area) list" where
  "below k xs \<equiv> filter (\<lambda>x. start_addr (snd x) < k) xs"

abbreviation above :: "u32 \<Rightarrow> (u32 \<times> vm_area) list \<Rightarrow> (u32 \<times> vm_area) list" where
  "above k xs \<equiv> filter (\<lambda>x. k < start_addr (snd x)) xs"

abbreviation by_start :: "(u32 \<times> vm_area) list \<Rightarrow> bool" where
  "by_start xs \<equiv> sorted_wrt (\<lambda>x y. start_addr (snd x) < start_addr (snd y)) xs"

definition new_node :: "u32 \<Rightarrow> vm_area \<Rightarrow> vm_area_node" where
  "new_node p ar = Vm_node p Null Null 1 (end_addr ar) ar"

lemma new_node_facts [simp]:
  "good (new_node p ar)" "ht (new_node p ar) = 1" "items (new_node p ar) = [(p, ar)]"
  "start_key (new_node p ar) = Inr (start_addr ar)"
  by (simp_all add: new_node_def start_key_def max_def)

lemma filter_all_none:
  "\<forall>x \<in> set xs. start_addr (snd x) < k \<Longrightarrow> below k xs = xs \<and> above k xs = []"
  "\<forall>x \<in> set xs. k < start_addr (snd x) \<Longrightarrow> below k xs = [] \<and> above k xs = xs"
  by (auto simp: filter_empty_conv intro!: filter_True)

lemma avl_insert_ok:
  assumes "good t" "ht t < 2 ^ 29" "by_start (items t)" "\<forall>x \<in> set (items t). start_addr (snd x) \<noteq> start_addr ar"
  shows "\<exists>t'. avl_insert t (new_node p ar) = Inr t' \<and> good t' \<and>
    items t' = below (start_addr ar) (items t) @ (p, ar) # above (start_addr ar) (items t) \<and>
    ht t \<le> ht t' \<and> ht t' \<le> ht t + 1 \<and>
    (t \<noteq> Null \<longrightarrow> ht t' = ht t + 1 \<longrightarrow> grown (start_addr ar) t')"
  using assms
proof (induction t)
  case Null
  then show ?case by simp
next
  case (Vm_node q l r h m b)
  let ?k = "start_addr ar"
  have gl: "good l" and gr: "good r" and bal: "ht l \<le> ht r + 1" "ht r \<le> ht l + 1"
    and hl: "ht l < 2 ^ 29" "ht r < 2 ^ 29"
    using Vm_node.prems by auto
  have so: "by_start (items l)" "by_start (items r)"
    "\<forall>x \<in> set (items l). start_addr (snd x) < start_addr b"
    "\<forall>x \<in> set (items r). start_addr b < start_addr (snd x)"
    using Vm_node.prems(3) by (auto simp: sorted_wrt_append)
  have new: "\<forall>x \<in> set (items l). start_addr (snd x) \<noteq> ?k" "\<forall>x \<in> set (items r). start_addr (snd x) \<noteq> ?k"
    "start_addr b \<noteq> ?k"
    using Vm_node.prems(4) by auto
  show ?case
  proof (cases "?k < start_addr b")
    case True
    have rside: "below ?k (items r) = [] \<and> above ?k (items r) = items r"
      by (rule filter_all_none) (use so(4) True in auto)
    obtain l' where l': "avl_insert l (new_node p ar) = Inr l'" "good l'"
      "items l' = below ?k (items l) @ (p, ar) # above ?k (items l)"
      "ht l \<le> ht l'" "ht l' \<le> ht l + 1" "l \<noteq> Null \<longrightarrow> ht l' = ht l + 1 \<longrightarrow> grown ?k l'"
      using Vm_node.IH(1) [OF gl hl(1) so(1) new(1)] by blast
    have step: "avl_insert (Vm_node q l r h m b) (new_node p ar) = insert_rebalance ?k q l' r b"
      using True l'(1) by simp
    have its: "items l' @ (q, b) # items r = below ?k (items (Vm_node q l r h m b)) @
        (p, ar) # above ?k (items (Vm_node q l r h m b))"
      using l'(3) rside True by (simp add: less_not_sym)
    show ?thesis
    proof (cases "ht l' = ht r + 2")
      case high: True
      then have "l \<noteq> Null" "ht l' = ht l + 1" using bal l'(4,5) by auto
      with l'(6) have "grown ?k l'" by simp
      then obtain q2 ll lr h2 m2 c where l2: "l' = Vm_node q2 ll lr h2 m2 c"
        "?k < start_addr c \<and> ht ll = ht lr + 1 \<or> ?k > start_addr c \<and> ht lr = ht ll + 1"
        by (auto simp: grown_def split: vm_area_node.splits)
      have "ht r < 2 ^ 30" using hl by simp
      from insert_rebalance_left [OF l2(1) l'(2) gr refl this high l2(2), of q b]
      show ?thesis using step its high \<open>ht l' = ht l + 1\<close> by auto
    next
      case False
      then have b2: "ht l' \<le> ht r + 1" "ht r \<le> ht l' + 1" using bal l'(4,5) by auto
      have hs: "ht l' < 2 ^ 30" "ht r < 2 ^ 30" using hl l'(5) by simp_all
      note none = insert_rebalance_none [OF l'(2) gr b2 hs]
      have "grown ?k (update_node q l' r b)"
        if "Suc (max (ht l') (ht r)) = ht (Vm_node q l r h m b) + 1"
        using that True l'(4,5) b2 by (auto simp: grown_def update_node_def)
      then show ?thesis using step its none l'(4,5) by auto
    qed
  next
    case False
    with new(3) have gt: "start_addr b < ?k" by auto
    have lside: "below ?k (items l) = items l \<and> above ?k (items l) = []"
      by (rule filter_all_none) (use so(3) gt in auto)
    obtain r' where r': "avl_insert r (new_node p ar) = Inr r'" "good r'"
      "items r' = below ?k (items r) @ (p, ar) # above ?k (items r)"
      "ht r \<le> ht r'" "ht r' \<le> ht r + 1" "r \<noteq> Null \<longrightarrow> ht r' = ht r + 1 \<longrightarrow> grown ?k r'"
      using Vm_node.IH(2) [OF gr hl(2) so(2) new(2)] by blast
    have step: "avl_insert (Vm_node q l r h m b) (new_node p ar) = insert_rebalance ?k q l r' b"
      using gt False r'(1) by simp
    have its: "items l @ (q, b) # items r' = below ?k (items (Vm_node q l r h m b)) @
        (p, ar) # above ?k (items (Vm_node q l r h m b))"
      using r'(3) lside gt False by simp
    show ?thesis
    proof (cases "ht r' = ht l + 2")
      case high: True
      then have "r \<noteq> Null" "ht r' = ht r + 1" using bal r'(4,5) by auto
      with r'(6) have "grown ?k r'" by simp
      then obtain q2 rl rr h2 m2 c where r2: "r' = Vm_node q2 rl rr h2 m2 c"
        "?k < start_addr c \<and> ht rl = ht rr + 1 \<or> ?k > start_addr c \<and> ht rr = ht rl + 1"
        by (auto simp: grown_def split: vm_area_node.splits)
      have "ht l < 2 ^ 30" using hl by simp
      from insert_rebalance_right [OF r2(1) gl r'(2) refl this high r2(2), of q b]
      show ?thesis using step its high \<open>ht r' = ht r + 1\<close> by auto
    next
      case no: False
      then have b2: "ht l \<le> ht r' + 1" "ht r' \<le> ht l + 1" using bal r'(4,5) by auto
      have hs: "ht l < 2 ^ 30" "ht r' < 2 ^ 30" using hl r'(5) by simp_all
      note none = insert_rebalance_none [OF gl r'(2) b2 hs]
      have "grown ?k (update_node q l r' b)"
        if "Suc (max (ht l) (ht r')) = ht (Vm_node q l r h m b) + 1"
        using that gt r'(4,5) b2 by (auto simp: grown_def update_node_def)
      then show ?thesis using step its none r'(4,5) by auto
    qed
  qed
qed

section \<open>Search is correct\<close>

lemma mx_upper: "a \<in> set (areas t) \<Longrightarrow> end_addr a \<le> mx t"
  by (induction t) (auto simp: le_max_iff_disj)

lemma mx_attained: "t \<noteq> Null \<Longrightarrow> \<exists>a \<in> set (areas t). mx t = end_addr a"
proof (induction t)
  case (Vm_node p l r h m a)
  show ?case
  proof (cases "mx (Vm_node p l r h m a) = end_addr a")
    case False
    then have "mx (Vm_node p l r h m a) = mx l \<and> l \<noteq> Null \<or> mx (Vm_node p l r h m a) = mx r \<and> r \<noteq> Null"
      by (cases "l = Null"; cases "r = Null") (auto simp: max_def split: if_splits)
    with Vm_node.IH show ?thesis by auto
  qed simp
qed simp

lemma apart_append:
  "apart (xs @ a # ys) \<longleftrightarrow> apart xs \<and> apart ys \<and> start_addr a \<le> end_addr a \<and>
     (\<forall>x \<in> set xs. end_addr x < start_addr a) \<and> (\<forall>y \<in> set ys. end_addr a < start_addr y) \<and>
     (\<forall>x \<in> set xs. \<forall>y \<in> set ys. end_addr x < start_addr y)"
  by (auto simp: apart_def sorted_wrt_append)

lemma interval_intersect_sound:
  "interval_intersect t q = Some (p, a) \<Longrightarrow> (p, a) \<in> set (items t) \<and> vm_area_intersect a q"
  by (induction t q rule: interval_intersect.induct) (auto split: if_splits)

lemma interval_intersect_complete:
  assumes "stored t" "apart (areas t)" "start_addr q \<le> end_addr q" "interval_intersect t q = None"
  shows "\<forall>a \<in> set (areas t). \<not> vm_area_intersect a q"
  using assms(1,2,4)
proof (induction t)
  case (Vm_node p l r h m b)
  have st: "stored l" "stored r" using Vm_node.prems(1) by simp_all
  have ap: "apart (areas l)" "apart (areas r)" "start_addr b \<le> end_addr b"
    "\<forall>x \<in> set (areas l). end_addr x < start_addr b" "\<forall>y \<in> set (areas r). end_addr b < start_addr y"
    using Vm_node.prems(2) by (auto simp: apart_append)
  have here: "\<not> vm_area_intersect b q" using Vm_node.prems(3) by (auto split: if_splits)
  show ?case
  proof (cases "l \<noteq> Null \<and> start_addr q \<le> max_end l")
    case True
    with here Vm_node.prems(3) have "interval_intersect l q = None" by simp
    with Vm_node.IH(1) [OF st(1) ap(1)] have left: "\<forall>a \<in> set (areas l). \<not> vm_area_intersect a q" by blast
    obtain y where y: "y \<in> set (areas l)" "mx l = end_addr y"
      using mx_attained [of l] True by blast
    then have yq: "start_addr q \<le> end_addr y" using True st max_end_ok [of l] by simp
    with left y have "end_addr q < start_addr y" by (auto simp: vm_area_intersect_def)
    moreover have "start_addr y \<le> end_addr y" using y(1) ap(1) by (auto simp: apart_def)
    moreover have "end_addr y < start_addr b" using y(1) ap(4) by blast
    ultimately have "end_addr q < start_addr b" by order
    then have "\<forall>a \<in> set (areas r). end_addr q < start_addr a" using ap(3,5) by (meson less_trans order_less_le_trans)
    then have "\<forall>a \<in> set (areas r). \<not> vm_area_intersect a q" by (auto simp: vm_area_intersect_def)
    with left here show ?thesis by auto
  next
    case False
    with here Vm_node.prems(3) have "interval_intersect r q = None" by (auto split: if_splits)
    with Vm_node.IH(2) [OF st(2) ap(2)] have right: "\<forall>a \<in> set (areas r). \<not> vm_area_intersect a q" by blast
    have "end_addr a < start_addr q" if "a \<in> set (areas l)" for a
    proof -
      from that have "l \<noteq> Null" by auto
      with False st have "mx l < start_addr q" by (simp add: max_end_ok)
      with mx_upper [OF that] show ?thesis by order
    qed
    then have "\<forall>a \<in> set (areas l). \<not> vm_area_intersect a q" by (auto simp: vm_area_intersect_def)
    with right here show ?thesis by auto
  qed
qed simp

lemma apart_by_start: "apart (areas t) \<Longrightarrow> by_start (items t)"
  unfolding apart_def sorted_wrt_map
  by (elim conjE, rule sorted_wrt_mono_rel [rotated], assumption) (auto intro: le_less_trans)

section \<open>Removal\<close>

text \<open>
  The branch of avl_remove that rotates the wrong node is taken at a node whose right subtree is
  higher by one, leans to the left, and whose left subtree loses a level.  \<open>safe_shape\<close> excludes
  the lean.
\<close>

definition left_heavy :: "vm_area_node \<Rightarrow> bool" where
  "left_heavy t = (case t of Null \<Rightarrow> False | Vm_node p l r h m a \<Rightarrow> ht r < ht l)"

fun safe_shape :: "vm_area_node \<Rightarrow> bool" where
  "safe_shape Null \<longleftrightarrow> True"
| "safe_shape (Vm_node p l r h m a) \<longleftrightarrow>
     safe_shape l \<and> safe_shape r \<and> (ht l < ht r \<longrightarrow> \<not> left_heavy r)"

lemma node_balance:
  assumes "good (Vm_node p l r h m a)" "ht (Vm_node p l r h m a) < 2 ^ 30"
  shows "get_node_balance (Vm_node p l r h m a) = int (ht l) - int (ht r)"
proof (rule get_node_balance_ok)
  show "stored l" "stored r" using assms(1) by (simp_all add: good_def)
  show "ht l < 2 ^ 31" "ht r < 2 ^ 31" using assms(2) by simp_all
qed

lemma remove_rebalance_none:
  assumes "good l" "good r" "ht l \<le> ht r + 1" "ht r \<le> ht l + 1" "ht l < 2 ^ 30" "ht r < 2 ^ 30"
  shows "remove_rebalance p l r a = Inr (update_node p l r a)" "good (update_node p l r a)"
proof -
  show "remove_rebalance p l r a = Inr (update_node p l r a)"
    using assms by (simp add: remove_rebalance_def update_node_balance)
  show "good (update_node p l r a)" using assms by (intro good_update_node) simp_all
qed

lemma remove_rebalance_left:
  assumes g: "good l" "good r" and n: "ht r = n" "n < 2 ^ 29" and high: "ht l = n + 2"
  shows "\<exists>t. remove_rebalance p l r a = Inr t \<and> good t \<and> items t = items l @ (p, a) # items r \<and>
    (ht t = n + 2 \<or> ht t = n + 3)"
proof -
  obtain q ll lr h m b where l: "l = Vm_node q ll lr h m b" using high by (cases l) auto
  have gl: "good ll" "good lr" "ht ll \<le> ht lr + 1" "ht lr \<le> ht ll + 1" using g(1) l by simp_all
  have bal: "get_node_balance (update_node p l r a) = 2"
    using g n high by (simp add: update_node_balance)
  have ball: "get_node_balance l = int (ht ll) - int (ht lr)"
    unfolding l by (rule node_balance) (use g l high n in simp_all)
  have n30: "n < 2 ^ 30" using n(2) by simp
  show ?thesis
  proof (cases "ht lr \<le> ht ll")
    case True
    with high l gl have h: "ht ll = Suc n" "ht lr = n \<or> ht lr = Suc n" by auto
    have "remove_rebalance p l r a = Inr (update_node q ll (update_node p lr r a) b)"
      using bal ball True l by (simp add: remove_rebalance_def)
    with rotate_right_good [OF gl(1,2) g(2) h n(1) n30] l show ?thesis by auto
  next
    case False
    with high l gl have h: "ht ll = n" "ht lr = Suc n" by auto
    then obtain x t2 t3 h2 m2 c where lr: "lr = Vm_node x t2 t3 h2 m2 c" by (cases lr) auto
    have "remove_rebalance p l r a = Inr (update_node x (update_node q ll t2 b) (update_node p t3 r a) c)"
      using bal ball False l lr by (simp add: remove_rebalance_def Let_def)
    moreover have "good t2" "good t3" "Suc (max (ht t2) (ht t3)) = Suc n" "ht t2 \<le> ht t3 + 1" "ht t3 \<le> ht t2 + 1"
      using gl(2) lr h(2) by simp_all
    note rotate_double_good [OF gl(1) this(1,2) g(2) h(1) n(1) n30 this(3-5)]
    ultimately show ?thesis using l lr by auto
  qed
qed

lemma remove_rebalance_right:
  assumes g: "good l" "good r" and n: "ht l = n" "n < 2 ^ 29" and high: "ht r = n + 2"
    and safe: "\<not> left_heavy r"
  shows "\<exists>t. remove_rebalance p l r a = Inr t \<and> good t \<and> items t = items l @ (p, a) # items r \<and>
    (ht t = n + 2 \<or> ht t = n + 3)"
proof -
  obtain q rl rr h m b where r: "r = Vm_node q rl rr h m b" using high by (cases r) auto
  have gr: "good rl" "good rr" "ht rl \<le> ht rr + 1" "ht rr \<le> ht rl + 1" using g(2) r by simp_all
  have le: "ht rl \<le> ht rr" using safe r by (simp add: left_heavy_def)
  have bal: "get_node_balance (update_node p l r a) = - 2"
    using g n high by (simp add: update_node_balance)
  have balr: "get_node_balance r = int (ht rl) - int (ht rr)"
    unfolding r by (rule node_balance) (use g r high n in simp_all)
  have n30: "n < 2 ^ 30" using n(2) by simp
  from high r gr le have h: "ht rr = Suc n" "ht rl = n \<or> ht rl = Suc n" by auto
  have "remove_rebalance p l r a = Inr (update_node q (update_node p l rl a) rr b)"
    using bal balr le r by (simp add: remove_rebalance_def)
  with rotate_left_good [OF g(1) gr(1,2) h n(1) n30] r show ?thesis by auto
qed

text \<open>Any rebalancing after one subtree lost at most a level.\<close>

lemma remove_rebalance_ok:
  assumes g: "good l" "good r" and b: "ht l \<le> ht r + 2" "ht r \<le> ht l + 2"
    and hs: "ht l < 2 ^ 29" "ht r < 2 ^ 29" and safe: "ht r = ht l + 2 \<Longrightarrow> \<not> left_heavy r"
  shows "\<exists>t. remove_rebalance p l r a = Inr t \<and> good t \<and> items t = items l @ (p, a) # items r \<and>
    max (ht l) (ht r) \<le> ht t \<and> ht t \<le> Suc (max (ht l) (ht r)) \<and>
    (ht l \<le> ht r + 1 \<longrightarrow> ht r \<le> ht l + 1 \<longrightarrow> ht t = Suc (max (ht l) (ht r)))"
proof -
  consider "ht l = ht r + 2" | "ht r = ht l + 2" | "ht l \<le> ht r + 1" "ht r \<le> ht l + 1"
    using b by linarith
  then show ?thesis
  proof cases
    case 1
    from remove_rebalance_left [OF g refl hs(2) 1, of p a] show ?thesis using 1 by auto
  next
    case 2
    from remove_rebalance_right [OF g refl hs(1) 2 safe [OF 2], of p a] show ?thesis using 2 by auto
  next
    case 3
    have "ht l < 2 ^ 30" "ht r < 2 ^ 30" using hs by simp_all
    from remove_rebalance_none [OF g 3 this, of p a] show ?thesis by auto
  qed
qed

lemma min_value_items: "get_node_min_value t = Some (p, a) \<Longrightarrow> \<exists>xs. items t = (p, a) # xs"
  by (induction t) (auto split: if_splits)

lemma min_value_exists: "t \<noteq> Null \<Longrightarrow> \<exists>p a. get_node_min_value t = Some (p, a)"
  by (induction t) auto

abbreviation without :: "u32 \<Rightarrow> vm_area list \<Rightarrow> vm_area list" where
  "without k as \<equiv> filter (\<lambda>a. start_addr a \<noteq> k) as"

lemma without_other:
  "\<forall>x \<in> set xs. start_addr (snd x) \<noteq> k \<Longrightarrow> without k (map snd xs) = map snd xs"
  by (auto intro!: filter_True)

definition removed_ok :: "u32 \<Rightarrow> vm_area_node \<Rightarrow> vm_area_node \<Rightarrow> (u32 \<times> vm_area) option \<Rightarrow> bool" where
  "removed_ok k t t' rm \<longleftrightarrow>
     (case rm of None \<Rightarrow> (\<forall>a \<in> set (areas t). start_addr a \<noteq> k) \<and> mset (addrs t') = mset (addrs t)
      | Some (q, b) \<Rightarrow> b \<in> set (areas t) \<and> start_addr b = k \<and>
          mset (addrs t) = add_mset q (mset (addrs t')))"

lemma avl_remove_ok:
  assumes "good t" "ht t < 2 ^ 29" "by_start (items t)" "safe_shape t"
  shows "\<exists>t' rm. avl_remove t k = Inr (t', rm) \<and> good t' \<and> areas t' = without k (areas t) \<and>
    ht t' \<le> ht t \<and> ht t \<le> ht t' + 1 \<and> removed_ok k t t' rm"
  using assms
proof (induction t arbitrary: k)
  case Null
  then show ?case by (simp add: removed_ok_def)
next
  case (Vm_node p l r h m a)
  have g: "good l" "good r" and bal: "ht l \<le> ht r + 1" "ht r \<le> ht l + 1"
    and hs: "ht l < 2 ^ 29" "ht r < 2 ^ 29"
    using Vm_node.prems by auto
  have so: "by_start (items l)" "by_start (items r)"
    "\<forall>x \<in> set (items l). start_addr (snd x) < start_addr a"
    "\<forall>x \<in> set (items r). start_addr a < start_addr (snd x)"
    using Vm_node.prems(3) by (auto simp: sorted_wrt_append)
  have sf: "safe_shape l" "safe_shape r" "ht l < ht r \<Longrightarrow> \<not> left_heavy r"
    using Vm_node.prems(4) by auto
  consider (less) "k < start_addr a" | (greater) "start_addr a < k" | (found) "k = start_addr a"
    by (metis linorder_less_linear)
  then show ?case
  proof cases
    case less
    obtain l' rm where l': "avl_remove l k = Inr (l', rm)" "good l'" "areas l' = without k (areas l)"
      "ht l' \<le> ht l" "ht l \<le> ht l' + 1" "removed_ok k l l' rm"
      using Vm_node.IH(1) [OF g(1) hs(1) so(1) sf(1)] by blast
    have "ht l' \<le> ht r + 2" "ht r \<le> ht l' + 2" "ht l' < 2 ^ 29" using l'(4,5) bal hs by simp_all
    moreover have "ht r = ht l' + 2 \<Longrightarrow> \<not> left_heavy r" using l'(5) bal by (intro sf(3)) simp
    ultimately obtain t where t: "remove_rebalance p l' r a = Inr t" "good t"
      "items t = items l' @ (p, a) # items r" "max (ht l') (ht r) \<le> ht t"
      "ht t \<le> Suc (max (ht l') (ht r))"
      "ht l' \<le> ht r + 1 \<longrightarrow> ht r \<le> ht l' + 1 \<longrightarrow> ht t = Suc (max (ht l') (ht r))"
      using remove_rebalance_ok [OF l'(2) g(2), of p a] hs(2) by blast
    have "without k (areas r) = areas r" by (rule without_other) (use so(4) less in auto)
    then have "areas t = without k (areas (Vm_node p l r h m a))" using t(3) l'(3) less by auto
    moreover have "removed_ok k (Vm_node p l r h m a) t rm"
      using l'(6) t(3) so(4) less by (auto simp: removed_ok_def split: option.splits)
    moreover have "ht t \<le> ht (Vm_node p l r h m a)" "ht (Vm_node p l r h m a) \<le> ht t + 1"
      using t(4-6) l'(4,5) bal by (auto simp: max_def split: if_splits)
    ultimately show ?thesis using l'(1) t(1,2) less by auto
  next
    case greater
    obtain r' rm where r': "avl_remove r k = Inr (r', rm)" "good r'" "areas r' = without k (areas r)"
      "ht r' \<le> ht r" "ht r \<le> ht r' + 1" "removed_ok k r r' rm"
      using Vm_node.IH(2) [OF g(2) hs(2) so(2) sf(2)] by blast
    have "ht l \<le> ht r' + 2" "ht r' \<le> ht l + 2" "ht r' < 2 ^ 29" using r'(4,5) bal hs by simp_all
    moreover have "ht r' = ht l + 2 \<Longrightarrow> \<not> left_heavy r'" using r'(4) bal by simp
    ultimately obtain t where t: "remove_rebalance p l r' a = Inr t" "good t"
      "items t = items l @ (p, a) # items r'" "max (ht l) (ht r') \<le> ht t"
      "ht t \<le> Suc (max (ht l) (ht r'))"
      "ht l \<le> ht r' + 1 \<longrightarrow> ht r' \<le> ht l + 1 \<longrightarrow> ht t = Suc (max (ht l) (ht r'))"
      using remove_rebalance_ok [OF g(1) r'(2), of p a] hs(1) by blast
    have "without k (areas l) = areas l" by (rule without_other) (use so(3) greater in auto)
    then have "areas t = without k (areas (Vm_node p l r h m a))" using t(3) r'(3) greater by auto
    moreover have "removed_ok k (Vm_node p l r h m a) t rm"
      using r'(6) t(3) so(3) greater by (auto simp: removed_ok_def split: option.splits)
    moreover have "ht t \<le> ht (Vm_node p l r h m a)" "ht (Vm_node p l r h m a) \<le> ht t + 1"
      using t(4-6) r'(4,5) bal by (auto simp: max_def split: if_splits)
    ultimately show ?thesis using r'(1) t(1,2) greater less_not_sym by auto
  next
    case found
    have wl: "without k (areas l) = areas l" by (rule without_other) (use so(3) found in auto)
    have wr: "without k (areas r) = areas r" by (rule without_other) (use so(4) found in auto)
    have wt: "without k (areas (Vm_node p l r h m a)) = areas l @ areas r" using wl wr found by simp
    show ?thesis
    proof (cases "l = Null \<or> r = Null")
      case True
      show ?thesis
      proof (cases "l = Null \<and> r = Null")
        case True
        with found show ?thesis by (simp add: removed_ok_def)
      next
        case False
        define c where "c = (if l \<noteq> Null then l else r)"
        obtain q ql qr qh qm b where c: "c = Vm_node q ql qr qh qm b"
          using False by (cases c) (auto simp: c_def split: if_splits)
        have gc: "good c" "ht c < 2 ^ 29" "items l @ items r = items c" "ht c = max (ht l) (ht r)"
          using g hs True by (auto simp: c_def)
        have "good ql" "good qr" "ht ql \<le> ht qr + 1" "ht qr \<le> ht ql + 1" "ht ql < 2 ^ 30" "ht qr < 2 ^ 30"
          using gc(1,2) c by auto
        note none = remove_rebalance_none [OF this]
        have "avl_remove (Vm_node p l r h m a) k = Inr (update_node p ql qr b, Some (q, a))"
          using found True False c none(1) by (auto simp: c_def [symmetric])
        moreover have "areas (update_node p ql qr b) = without k (areas (Vm_node p l r h m a))"
        proof -
          have "areas l @ areas r = areas c" using gc(3) by (metis map_append)
          with wt c show ?thesis by simp
        qed
        moreover have "removed_ok k (Vm_node p l r h m a) (update_node p ql qr b) (Some (q, a))"
        proof -
          have "mset (addrs l) + mset (addrs r) = mset (addrs c)"
            using gc(3) by (metis map_append mset_append)
          then show ?thesis using found c by (simp add: removed_ok_def)
        qed
        ultimately show ?thesis using none(2) gc(4) c by auto
      qed
    next
      case False
      obtain mp ma where mv: "get_node_min_value r = Some (mp, ma)" using min_value_exists False by blast
      then obtain xs where xs: "items r = (mp, ma) # xs" using min_value_items by blast
      obtain r' rm where r': "avl_remove r (start_addr ma) = Inr (r', rm)" "good r'"
        "areas r' = without (start_addr ma) (areas r)"
        "ht r' \<le> ht r" "ht r \<le> ht r' + 1" "removed_ok (start_addr ma) r r' rm"
        using Vm_node.IH(2) [OF g(2) hs(2) so(2) sf(2)] by blast
      from r'(6) xs obtain q b where rm: "rm = Some (q, b)" "mset (addrs r) = add_mset q (mset (addrs r'))"
        by (auto simp: removed_ok_def split: option.splits)
      have "without (start_addr ma) (map snd xs) = map snd xs"
        by (rule without_other) (use so(2) xs in auto)
      then have ar: "areas r = ma # areas r'" using r'(3) xs by simp
      have "ht l \<le> ht r' + 2" "ht r' \<le> ht l + 2" "ht r' < 2 ^ 29" using r'(4,5) bal hs by simp_all
      moreover have "ht r' = ht l + 2 \<Longrightarrow> \<not> left_heavy r'" using r'(4) bal by simp
      ultimately obtain t where t: "remove_rebalance p l r' ma = Inr t" "good t"
        "items t = items l @ (p, ma) # items r'" "max (ht l) (ht r') \<le> ht t"
        "ht t \<le> Suc (max (ht l) (ht r'))"
        "ht l \<le> ht r' + 1 \<longrightarrow> ht r' \<le> ht l + 1 \<longrightarrow> ht t = Suc (max (ht l) (ht r'))"
        using remove_rebalance_ok [OF g(1) r'(2), of p ma] hs(1) by blast
      have "avl_remove (Vm_node p l r h m a) k = Inr (t, Some (q, a))"
        using found False mv r'(1) rm(1) t(1) by simp
      moreover have "areas t = without k (areas (Vm_node p l r h m a))" using wt t(3) ar by simp
      moreover have "removed_ok k (Vm_node p l r h m a) t (Some (q, a))"
        using found t(3) rm(2) by (simp add: removed_ok_def)
      moreover have "ht t \<le> ht (Vm_node p l r h m a)" "ht (Vm_node p l r h m a) \<le> ht t + 1"
        using t(4-6) r'(4,5) bal by (auto simp: max_def split: if_splits)
      ultimately show ?thesis using t(2) by blast
    qed
  qed
qed

text \<open>
  The faulty branch.  Under a right subtree that leans to the left, taking the single node of the
  left subtree reads through a null pointer; and when the left subtree survives, the result is
  that subtree alone: the node itself and everything to its right are gone.
\<close>

lemma remove_rebalance_fault:
  assumes g: "good l" "good r" and n: "ht l = n" "n < 2 ^ 29" and high: "ht r = n + 2"
    and lean: "left_heavy r"
  shows "remove_rebalance p l r a = avl_rotate_left l"
proof -
  obtain q rl rr h m b where r: "r = Vm_node q rl rr h m b" using high by (cases r) auto
  have gr: "good rl" "good rr" "ht rl \<le> ht rr + 1" using g(2) r by simp_all
  have lt: "ht rr < ht rl" using lean r by (simp add: left_heavy_def)
  have bal: "get_node_balance (update_node p l r a) = - 2"
    using g n high by (simp add: update_node_balance)
  have balr: "get_node_balance r = int (ht rl) - int (ht rr)"
    unfolding r by (rule node_balance) (use g r high n in simp_all)
  obtain x t2 t3 h2 m2 c where rl: "rl = Vm_node x t2 t3 h2 m2 c" using lt by (cases rl) auto
  show ?thesis using bal balr lt r rl by (simp add: remove_rebalance_def)
qed

end
