(* ===== verification/Vm_Contract.thy ===== *)
theory Vm_Contract
  imports Vm_Tree Heap_Manager
begin

text \<open>
  The address-space contract of a process, \<^verbatim>\<open>vm_contract.c\<close>: the interval tree together with
  the kernel heap its nodes are allocated in.  The fields of a node live in its heap block; the
  tree keeps them, and they are not written into the memory that holds the heap's headers.
\<close>

section \<open>The contract\<close>

record vm_contract =
  root :: vm_area_node

text \<open>sizeof(vm_area_node_t) is 40.  The node comes with the memory in which its block was taken.\<close>

definition vm_area_node_create :: "u32 \<Rightarrow> vm_area \<Rightarrow> memory \<Rightarrow> (vm_area_node \<times> memory) res" where
  "vm_area_node_create kheap ar m =
     res_bind (returns (heap_alloc kheap 40 m)) (\<lambda>(p, m).
       if p = 0 then Inr (Null, m)
       else Inr (Vm_node p Null Null 1 (end_addr ar) ar, m))"

definition vm_contract_init :: "vm_contract \<Rightarrow> vm_contract" where
  "vm_contract_init c = c\<lparr>root := Null\<rparr>"

definition vm_contract_add_node :: "vm_contract \<Rightarrow> vm_area_node \<Rightarrow> vm_contract res" where
  "vm_contract_add_node c node = res_bind (avl_insert (root c) node) (\<lambda>t. Inr (c\<lparr>root := t\<rparr>))"

definition vm_contract_add_area ::
    "u32 \<Rightarrow> vm_contract \<Rightarrow> vm_area \<Rightarrow> memory \<Rightarrow> (error_t \<times> vm_contract \<times> memory) res" where
  "vm_contract_add_area kheap c new_area m =
     (if \<not> vm_area_is_ok new_area then Inr (ERROR_OCCUR, c, m)
      else if interval_intersect (root c) new_area \<noteq> None then Inr (ERROR_OCCUR, c, m)
      else
        res_bind (vm_area_node_create kheap new_area m) (\<lambda>(new_node, m).
          if new_node = Null then Inr (ERROR_OCCUR, c, m)
          else res_bind (vm_contract_add_node c new_node) (\<lambda>c. Inr (ERROR_OK, c, m))))"

definition vm_contract_remove_area ::
    "u32 \<Rightarrow> vm_contract \<Rightarrow> vm_area \<Rightarrow> memory \<Rightarrow> (error_t \<times> vm_contract \<times> memory) res" where
  "vm_contract_remove_area kheap c ar m =
     (if \<not> vm_area_is_removable ar then Inr (ERROR_OCCUR, c, m)
      else
        res_bind (avl_remove (root c) (start_addr ar)) (\<lambda>(t, removed_node).
          let m = (case removed_node of None \<Rightarrow> m | Some (q, b) \<Rightarrow> snd (heap_free kheap q m))
          in Inr (ERROR_OK, c\<lparr>root := t\<rparr>, m)))"

definition vm_contract_expand_area :: "vm_contract \<Rightarrow> vm_area \<Rightarrow> u32 \<Rightarrow> error_t" where
  "vm_contract_expand_area c ar len = ERROR_OK"

definition vm_contract_find_area :: "vm_contract \<Rightarrow> u32 \<Rightarrow> vm_area option" where
  "vm_contract_find_area c address =
     (let temp = \<lparr>start_addr = address, end_addr = address, flags = 0, fd = 0, offset = 0\<rparr>
      in map_option snd (interval_intersect (root c) temp))"

definition vm_contract_get_area_for_length :: "vm_contract \<Rightarrow> u32 \<Rightarrow> u32" where
  "vm_contract_get_area_for_length c len = 0"

section \<open>The invariant\<close>

text \<open>
  \<open>contract_ok\<close>: the heap at \<open>h\<close> is well-formed with live blocks \<open>L\<close>; the tree is a balanced
  interval tree of disjoint areas whose stored fields are right; its nodes are different live
  blocks of at least 40 bytes.
\<close>

definition contract_ok ::
    "u32 \<Rightarrow> nat \<Rightarrow> nat \<Rightarrow> memory \<Rightarrow> (nat \<times> nat) set \<Rightarrow> vm_contract \<Rightarrow> bool" where
  "contract_ok h s e m L c \<longleftrightarrow> heap_rep h s e m L \<and> good (root c) \<and> apart (areas (root c)) \<and>
     distinct (addrs (root c)) \<and> (\<forall>p \<in> set (addrs (root c)). p \<noteq> 0 \<and> (\<exists>k \<ge> 40. (unat p, k) \<in> L))"

lemma contract_ok_height: "contract_ok h s e m L c \<Longrightarrow> ht (root c) < 66"
  by (simp add: contract_ok_def good_def avl_height_bound)

lemma contract_init_ok:
  "heap_rep h s e m L \<Longrightarrow> contract_ok h s e m L (vm_contract_init c)"
  by (simp add: contract_ok_def vm_contract_init_def apart_def)

text \<open>Putting an area into a sorted list of disjoint ones.\<close>

lemma apart_insert:
  assumes "apart (map snd xs)" "\<forall>b \<in> set (map snd xs). \<not> vm_area_intersect b a" "start_addr a \<le> end_addr a"
  shows "apart (map snd (below (start_addr a) xs @ (p, a) # above (start_addr a) xs))"
    and "\<forall>x \<in> set xs. start_addr (snd x) \<noteq> start_addr a"
proof -
  have so: "sorted_wrt (\<lambda>x y. end_addr (snd x) < start_addr (snd y)) xs"
    and ok: "\<forall>x \<in> set xs. start_addr (snd x) \<le> end_addr (snd x)"
    using assms(1) by (simp_all add: apart_def sorted_wrt_map)
  have no: "end_addr (snd x) < start_addr a \<or> end_addr a < start_addr (snd x)" if "x \<in> set xs" for x
    using assms(2) that by (auto simp: vm_area_intersect_def)
  show "\<forall>x \<in> set xs. start_addr (snd x) \<noteq> start_addr a"
    using no ok assms(3) by fastforce
  have lo: "end_addr (snd x) < start_addr a" if "x \<in> set xs" "start_addr (snd x) < start_addr a" for x
    using no [OF that(1)]
  proof
    assume "end_addr a < start_addr (snd x)"
    with that(2) assms(3) have False by order
    then show ?thesis ..
  qed
  have hi: "end_addr a < start_addr (snd x)" if "x \<in> set xs" "start_addr a < start_addr (snd x)" for x
  proof -
    have "start_addr (snd x) \<le> end_addr (snd x)" using ok that(1) by blast
    then have "\<not> end_addr (snd x) < start_addr a" using that(2) by order
    with no [OF that(1)] show ?thesis by blast
  qed
  have cross: "end_addr (snd x) < start_addr (snd y)"
    if "x \<in> set (below (start_addr a) xs)" "y \<in> set (above (start_addr a) xs)" for x y
    using lo [of x] that by (auto intro: less_trans)
  have "sorted_wrt (\<lambda>x y. end_addr (snd x) < start_addr (snd y))
      (below (start_addr a) xs @ (p, a) # above (start_addr a) xs)"
    using so lo hi cross by (auto simp: sorted_wrt_append sorted_wrt_filter)
  then show "apart (map snd (below (start_addr a) xs @ (p, a) # above (start_addr a) xs))"
    using ok assms(3) unfolding apart_def sorted_wrt_map by auto
qed

lemma below_above_mset:
  "\<forall>x \<in> set xs. start_addr (snd x) \<noteq> k \<Longrightarrow> mset (below k xs) + mset (above k xs) = mset xs"
  by (induction xs) auto

lemma below_above_set:
  "\<forall>x \<in> set xs. start_addr (snd x) \<noteq> k \<Longrightarrow> set (below k xs) \<union> set (above k xs) = set xs"
  by auto

lemma vm_contract_add_area_cases:
  assumes ok: "contract_ok h s e m L c" and good_area: "vm_area_is_ok ar"
    and free: "\<forall>b \<in> set (areas (root c)). \<not> vm_area_intersect b ar"
    and al: "heap_alloc h 40 m = Some (p, m')" and nz: "p \<noteq> 0"
  shows "\<exists>c' k. vm_contract_add_area h c ar m = Inr (ERROR_OK, c', m') \<and>
    contract_ok h s e m' (insert (unat p, k) L) c' \<and>
    set (areas (root c')) = insert ar (set (areas (root c)))"
proof -
  let ?t = "root c"
  from ok have rep: "heap_rep h s e m L" and g: "good ?t" and ap: "apart (areas ?t)"
    and d: "distinct (addrs ?t)" and live: "\<forall>p \<in> set (addrs ?t). p \<noteq> 0 \<and> (\<exists>k \<ge> 40. (unat p, k) \<in> L)"
    by (simp_all add: contract_ok_def)
  have le: "start_addr ar \<le> end_addr ar" using good_area by (simp add: vm_area_is_ok_def)
  have none: "interval_intersect ?t ar = None"
    using interval_intersect_sound [of ?t ar] free by (cases "interval_intersect ?t ar") force+
  note ins = apart_insert [OF ap free le]
  have "ht ?t < 2 ^ 29" using contract_ok_height [OF ok] by simp
  from avl_insert_ok [OF g this apart_by_start [OF ap] ins(2), of p]
  obtain t' where t': "avl_insert ?t (new_node p ar) = Inr t'" "good t'"
    "items t' = below (start_addr ar) (items ?t) @ (p, ar) # above (start_addr ar) (items ?t)" by blast
  obtain k where k: "40 \<le> k" "unat p \<notin> fst ` L" "heap_rep h s e m' (insert (unat p, k) L)"
    using kheap.alloc_gives [OF rep al nz] by auto
  have res: "vm_contract_add_area h c ar m = Inr (ERROR_OK, c\<lparr>root := t'\<rparr>, m')"
    using good_area none al nz t'(1)
    by (simp add: vm_contract_add_area_def vm_area_node_create_def vm_contract_add_node_def new_node_def)
  have fresh: "p \<notin> set (addrs ?t)" using live k(2) by force
  have "mset (addrs t') = add_mset p (mset (addrs ?t))"
  proof -
    have "mset (below (start_addr ar) (items ?t)) + mset (above (start_addr ar) (items ?t)) = mset (items ?t)"
      by (rule below_above_mset [OF ins(2)])
    then have "image_mset fst (mset (below (start_addr ar) (items ?t))) +
        image_mset fst (mset (above (start_addr ar) (items ?t))) = image_mset fst (mset (items ?t))"
      by (simp flip: image_mset_union)
    then show ?thesis unfolding t'(3) by simp
  qed
  then have "mset (addrs t') = mset (p # addrs ?t)" by simp
  then have d': "distinct (addrs t')" "set (addrs t') = insert p (set (addrs ?t))"
    using d fresh mset_eq_imp_distinct_iff [of "addrs t'" "p # addrs ?t"] mset_eq_setD by fastforce+
  have "contract_ok h s e m' (insert (unat p, k) L) (c\<lparr>root := t'\<rparr>)"
    unfolding contract_ok_def vm_contract.simps using k t'(2) d' ins(1) live nz t'(3) by auto
  moreover have "set (areas t') = insert ar (set (areas ?t))"
  proof -
    have "set (items t') = insert (p, ar) (set (items ?t))"
      using below_above_set [OF ins(2)] unfolding t'(3) by auto
    then show ?thesis by auto
  qed
  ultimately show ?thesis using res by auto
qed

text \<open>Taking an area out.\<close>

lemma apart_without: "apart as \<Longrightarrow> apart (without k as)"
  by (auto simp: apart_def sorted_wrt_filter)

lemma vm_contract_remove_area_cases:
  assumes ok: "contract_ok h s e m L c" and safe: "safe_shape (root c)"
  shows "\<exists>c' m' L'. vm_contract_remove_area h c ar m = Inr (ERROR_OK, c', m') \<and>
    contract_ok h s e m' L' c' \<and>
    areas (root c') = without (start_addr ar) (areas (root c)) \<and>
    (if \<exists>b \<in> set (areas (root c)). start_addr b = start_addr ar
     then \<exists>q k. q \<in> set (addrs (root c)) \<and> (unat q, k) \<in> L \<and> L' = L - {(unat q, k)}
     else L' = L \<and> m' = m)"
proof -
  let ?t = "root c"
  from ok have rep: "heap_rep h s e m L" and g: "good ?t" and ap: "apart (areas ?t)"
    and d: "distinct (addrs ?t)" and live: "\<forall>p \<in> set (addrs ?t). p \<noteq> 0 \<and> (\<exists>k \<ge> 40. (unat p, k) \<in> L)"
    by (simp_all add: contract_ok_def)
  have "ht ?t < 2 ^ 29" using contract_ok_height [OF ok] by simp
  from avl_remove_ok [OF g this apart_by_start [OF ap] safe, of "start_addr ar"]
  obtain t' rm where t': "avl_remove ?t (start_addr ar) = Inr (t', rm)" "good t'"
    "areas t' = without (start_addr ar) (areas ?t)" "removed_ok (start_addr ar) ?t t' rm" by blast
  have ap': "apart (areas t')" using t'(3) apart_without [OF ap] by simp
  show ?thesis
  proof (cases rm)
    case None
    with t'(4) have same: "mset (addrs t') = mset (addrs ?t)"
      and no: "\<forall>a \<in> set (areas ?t). start_addr a \<noteq> start_addr ar"
      by (simp_all add: removed_ok_def)
    have d': "distinct (addrs t')" "set (addrs t') = set (addrs ?t)"
      using d same mset_eq_imp_distinct_iff mset_eq_setD by blast+
    have "contract_ok h s e m L (c\<lparr>root := t'\<rparr>)"
      unfolding contract_ok_def vm_contract.simps using rep t'(2) ap' d' live by simp
    moreover have "vm_contract_remove_area h c ar m = Inr (ERROR_OK, c\<lparr>root := t'\<rparr>, m)"
      using t'(1) None by (simp add: vm_contract_remove_area_def vm_area_is_removable_def)
    ultimately show ?thesis using t'(3) no
      by (intro exI [of _ "c\<lparr>root := t'\<rparr>"] exI [of _ m] exI [of _ L]) auto
  next
    case (Some qb)
    obtain q b where qb: "qb = (q, b)" by (cases qb)
    with Some t'(4) have r: "b \<in> set (areas ?t)" "start_addr b = start_addr ar"
      "mset (addrs ?t) = mset (q # addrs t')"
      by (simp_all add: removed_ok_def)
    have d': "distinct (q # addrs t')" "set (q # addrs t') = set (addrs ?t)"
      using d r(3) mset_eq_imp_distinct_iff mset_eq_setD by metis+
    then have q: "q \<in> set (addrs ?t)" by auto
    then obtain k where k: "(unat q, k) \<in> L" using live by blast
    obtain m' where m': "heap_free h q m = (0, m')" "heap_rep h s e m' (L - {(unat q, k)})"
      using kheap.dealloc_takes [OF rep k] by blast
    have live': "\<forall>p \<in> set (addrs t'). p \<noteq> 0 \<and> (\<exists>k \<ge> 40. (unat p, k) \<in> L - {(unat q, k')})" for k'
    proof
      fix p assume "p \<in> set (addrs t')"
      then have "p \<noteq> q" "p \<in> set (addrs ?t)" using d' by auto
      with live show "p \<noteq> 0 \<and> (\<exists>k \<ge> 40. (unat p, k) \<in> L - {(unat q, k')})"
        by (auto simp: word_unat_eq_iff)
    qed
    have "contract_ok h s e m' (L - {(unat q, k)}) (c\<lparr>root := t'\<rparr>)"
      unfolding contract_ok_def vm_contract.simps using m'(2) t'(2) ap' d'(1) live' by simp
    moreover have "vm_contract_remove_area h c ar m = Inr (ERROR_OK, c\<lparr>root := t'\<rparr>, m')"
      using t'(1) Some qb m'(1) by (simp add: vm_contract_remove_area_def vm_area_is_removable_def)
    moreover have ex: "\<exists>b \<in> set (areas ?t). start_addr b = start_addr ar" using r by blast
    ultimately show ?thesis using t'(3) q k
      by (intro exI [of _ "c\<lparr>root := t'\<rparr>"] exI [of _ m'] exI [of _ "L - {(unat q, k)}"]) auto
  qed
qed

end
