(* ===== verification/Vm_Props.thy ===== *)
theory Vm_Props
  imports Vm_Contract Heap_Props
begin

text \<open>The properties of the address-space contract.\<close>

text \<open>
  C28. Looking up an address in a contract finds an area exactly when some area of the contract
  contains the address, and then it is that area: there is only one.
\<close>

theorem vm_contract_find_area_spec:
  assumes "contract_ok h s e m L c"
  shows "vm_contract_find_area c address = Some a \<longleftrightarrow> a \<in> set (areas (root c)) \<and> in_area a address"
proof -
  let ?q = "\<lparr>start_addr = address, end_addr = address, flags = 0, fd = 0, offset = 0\<rparr>"
  from assms have st: "stored (root c)" and ap: "apart (areas (root c))"
    by (simp_all add: contract_ok_def good_def)
  have hit: "vm_area_intersect b ?q \<longleftrightarrow> in_area b address" for b
    by (auto simp: vm_area_intersect_def in_area_def not_less)
  have uniq: "b = b'" if "b \<in> set (areas (root c))" "b' \<in> set (areas (root c))"
    "in_area b address" "in_area b' address" for b b'
  proof (rule ccontr)
    assume ne: "b \<noteq> b'"
    have so: "sorted_wrt (\<lambda>a b. end_addr a < start_addr b) (areas (root c))" using ap by (simp add: apart_def)
    from that(1,2) obtain i j where "i < length (areas (root c))" "j < length (areas (root c))"
      "b = areas (root c) ! i" "b' = areas (root c) ! j" by (metis in_set_conv_nth)
    with so ne have "end_addr b < start_addr b' \<or> end_addr b' < start_addr b"
      by (metis nat_neq_iff sorted_wrt_nth_less)
    with that(3,4) show False unfolding in_area_def by (elim disjE conjE; order)
  qed
  show ?thesis
  proof (cases "interval_intersect (root c) ?q")
    case None
    with interval_intersect_complete [OF st ap, of ?q] hit
    show ?thesis by (auto simp: vm_contract_find_area_def)
  next
    case (Some pb)
    obtain p b where pb: "pb = (p, b)" by (cases pb)
    with Some interval_intersect_sound [of "root c" ?q p b] hit
    have b: "b \<in> set (areas (root c))" "in_area b address" by force+
    with Some pb uniq show ?thesis by (auto simp: vm_contract_find_area_def)
  qed
qed

text \<open>What adding an area does, in every case.\<close>

lemma vm_contract_add_area_all:
  assumes ok: "contract_ok h s e m L c"
  shows "\<exists>err c' m' L'. vm_contract_add_area h c ar m = Inr (err, c', m') \<and>
    contract_ok h s e m' L' c' \<and>
    (if vm_area_is_ok ar \<and> (\<forall>b \<in> set (areas (root c)). \<not> vm_area_intersect b ar)
     then err = ERROR_OK \<and> set (areas (root c')) = insert ar (set (areas (root c))) \<or>
       err = ERROR_OCCUR \<and> c' = c \<and> heap_alloc h 40 m = Some (0, m')
     else err = ERROR_OCCUR \<and> c' = c \<and> m' = m)"
proof (cases "vm_area_is_ok ar \<and> (\<forall>b \<in> set (areas (root c)). \<not> vm_area_intersect b ar)")
  case True
  from ok have rep: "heap_rep h s e m L" by (simp add: contract_ok_def)
  obtain p m' where al: "heap_alloc h 40 m = Some (p, m')" using kheap.alloc_returns [OF rep] by blast
  show ?thesis
  proof (cases "p = 0")
    case False
    obtain c' k where "vm_contract_add_area h c ar m = Inr (ERROR_OK, c', m')"
      "contract_ok h s e m' (insert (unat p, k) L) c'"
      "set (areas (root c')) = insert ar (set (areas (root c)))"
      using vm_contract_add_area_cases [OF ok conjunct1 [OF True] conjunct2 [OF True] al False] by blast
    with True show ?thesis
      by (intro exI [of _ ERROR_OK] exI [of _ c'] exI [of _ m'] exI [of _ "insert (unat p, k) L"]) auto
  next
    case p0: True
    have none: "interval_intersect (root c) ar = None"
      using interval_intersect_sound [of "root c" ar] True by (cases "interval_intersect (root c) ar") force+
    have "vm_contract_add_area h c ar m = Inr (ERROR_OCCUR, c, m')"
      using True none al p0 by (simp add: vm_contract_add_area_def vm_area_node_create_def)
    moreover have "contract_ok h s e m' L c"
      using ok kheap.alloc_fails [OF rep] al p0 by (simp add: contract_ok_def)
    ultimately show ?thesis using True al p0 by auto
  qed
next
  case False
  have "vm_contract_add_area h c ar m = Inr (ERROR_OCCUR, c, m)"
  proof (cases "vm_area_is_ok ar")
    case True
    with False obtain b where b: "b \<in> set (areas (root c))" "vm_area_intersect b ar" by blast
    have "stored (root c)" "apart (areas (root c))" "start_addr ar \<le> end_addr ar"
      using ok True by (simp_all add: contract_ok_def good_def vm_area_is_ok_def)
    with b interval_intersect_complete [of "root c" ar] have "interval_intersect (root c) ar \<noteq> None" by blast
    with True show ?thesis by (simp add: vm_contract_add_area_def)
  qed (simp add: vm_contract_add_area_def)
  with ok False show ?thesis by auto
qed

text \<open>
  C6. Adding an area returns, whatever the area.  It answers ERROR_OK only for an area with
  start below end that overlaps no area of the contract, and then exactly this area is added; in
  every other case, lack of heap memory included, the answer is ERROR_OCCUR and the contract is
  the one before.  The invariant is kept: balance, stored heights and maxima, order, disjointness,
  and nodes in different live heap blocks.
\<close>

theorem vm_contract_add_area_spec:
  assumes ok: "contract_ok h s e m L c"
  shows "\<exists>err c' m' L'. vm_contract_add_area h c ar m = Inr (err, c', m') \<and>
    contract_ok h s e m' L' c' \<and>
    (if vm_area_is_ok ar \<and> (\<forall>b \<in> set (areas (root c)). \<not> vm_area_intersect b ar)
     then err = ERROR_OK \<and> set (areas (root c')) = insert ar (set (areas (root c))) \<or>
       err = ERROR_OCCUR \<and> c' = c \<and> heap_alloc h 40 m = Some (0, m')
     else err = ERROR_OCCUR \<and> c' = c \<and> m' = m)"
  by (rule vm_contract_add_area_all [OF ok])

text \<open>
  C27. Removing an area from a contract whose nodes that are higher on the right have no right
  child that is higher on the left: the call answers ERROR_OK, exactly the area with that start
  address is gone, the invariant is kept, and the heap block of one former node, which is no
  longer part of the tree, was given back.
\<close>

theorem vm_contract_remove_area_spec:
  assumes "contract_ok h s e m L c" "safe_shape (root c)"
  shows "\<exists>c' m' L'. vm_contract_remove_area h c ar m = Inr (ERROR_OK, c', m') \<and>
    contract_ok h s e m' L' c' \<and>
    areas (root c') = without (start_addr ar) (areas (root c)) \<and>
    (if \<exists>b \<in> set (areas (root c)). start_addr b = start_addr ar
     then \<exists>q k. q \<in> set (addrs (root c)) \<and> (unat q, k) \<in> L \<and> L' = L - {(unat q, k)}
     else L' = L \<and> m' = m)"
  using assms by (rule vm_contract_remove_area_cases)

text \<open>
  Without that shape removal is wrong: if the left subtree of the root is the single node to
  be removed and the right subtree leans to the left, avl_remove rotates the empty left subtree
  and reads through a null pointer.
\<close>

theorem vm_contract_remove_area_fault:
  assumes "contract_ok h s e m L c"
    and "root c = Vm_node p (Vm_node q Null Null lh lm b) r rh rm a" "left_heavy r" "ht r = 2"
    and "start_addr ar = start_addr b"
  shows "vm_contract_remove_area h c ar m = Inl NullDeref"
proof -
  from assms(1,2) have g: "good r" and "apart (areas (root c))" by (simp_all add: contract_ok_def)
  then have so: "by_start (items (root c))" by (simp add: apart_by_start)
  have lt: "start_addr b < start_addr a" using so assms(2) by simp
  have "remove_rebalance p Null r a = avl_rotate_left Null"
    by (rule remove_rebalance_fault [OF _ g, of _ 0]) (use assms(3,4) in simp_all)
  then have "remove_rebalance p Null r a = Inl NullDeref" by (simp add: avl_rotate_left_def)
  with assms(2,5) lt show ?thesis
    by (simp add: vm_contract_remove_area_def vm_area_is_removable_def)
qed

section \<open>Any sequence of calls\<close>

text \<open>
  Areas are added and removed in any order, starting from an empty contract.  A removal is asked
  for only on a tree of the shape it can handle; what an addition answers is not looked at.
\<close>

datatype vm_call = Map_area vm_area | Unmap_area vm_area

primrec vm_call_run :: "u32 \<Rightarrow> vm_call \<Rightarrow> vm_contract \<times> memory \<Rightarrow> (vm_contract \<times> memory) res" where
  "vm_call_run h (Map_area ar) s = res_bind (vm_contract_add_area h (fst s) ar (snd s)) (\<lambda>(_, c, m). Inr (c, m))"
| "vm_call_run h (Unmap_area ar) s = res_bind (vm_contract_remove_area h (fst s) ar (snd s)) (\<lambda>(_, c, m). Inr (c, m))"

primrec vm_calls_run :: "u32 \<Rightarrow> vm_call list \<Rightarrow> vm_contract \<times> memory \<Rightarrow> (vm_contract \<times> memory) res" where
  "vm_calls_run h [] s = Inr s"
| "vm_calls_run h (k # ks) s = res_bind (vm_call_run h k s) (vm_calls_run h ks)"

primrec call_safe :: "vm_call \<Rightarrow> vm_area_node \<Rightarrow> bool" where
  "call_safe (Map_area ar) t = True"
| "call_safe (Unmap_area ar) t = safe_shape t"

primrec calls_safe :: "u32 \<Rightarrow> vm_call list \<Rightarrow> vm_contract \<times> memory \<Rightarrow> bool" where
  "calls_safe h [] s = True"
| "calls_safe h (k # ks) s = (call_safe k (root (fst s)) \<and>
     (case vm_call_run h k s of Inl e \<Rightarrow> True | Inr s' \<Rightarrow> calls_safe h ks s'))"

definition mapped :: "vm_call list \<Rightarrow> vm_area list" where
  "mapped ks = concat (map (\<lambda>k. case k of Map_area ar \<Rightarrow> [ar] | Unmap_area ar \<Rightarrow> []) ks)"

lemma mapped_simps [simp]:
  "mapped [] = []" "mapped (Map_area ar # ks) = ar # mapped ks" "mapped (Unmap_area ar # ks) = mapped ks"
  by (simp_all add: mapped_def)

lemma apart_distinct: "apart xs \<Longrightarrow> distinct xs"
  by (induction xs) (auto simp: apart_def dest: leD)

lemma areas_length: "contract_ok h s e m L c \<Longrightarrow> length (areas (root c)) = card (set (areas (root c)))"
  unfolding contract_ok_def by (metis apart_distinct distinct_card)

lemma vm_call_run_ok:
  assumes "contract_ok h s e m L c" "call_safe k (root c)"
  shows "\<exists>c' m' L'. vm_call_run h k (c, m) = Inr (c', m') \<and> contract_ok h s e m' L' c' \<and>
    set (areas (root c')) \<subseteq> set (areas (root c)) \<union> set (mapped [k])"
proof (cases k)
  case (Map_area ar)
  obtain err c' m' L' where r: "vm_contract_add_area h c ar m = Inr (err, c', m')" "contract_ok h s e m' L' c'"
    "if vm_area_is_ok ar \<and> (\<forall>b \<in> set (areas (root c)). \<not> vm_area_intersect b ar)
     then err = ERROR_OK \<and> set (areas (root c')) = insert ar (set (areas (root c))) \<or>
       err = ERROR_OCCUR \<and> c' = c \<and> heap_alloc h 40 m = Some (0, m')
     else err = ERROR_OCCUR \<and> c' = c \<and> m' = m"
    using vm_contract_add_area_all [OF assms(1), of ar] by blast
  then have "set (areas (root c')) \<subseteq> insert ar (set (areas (root c)))" by (auto split: if_splits)
  with r(1,2) Map_area show ?thesis by auto
next
  case (Unmap_area ar)
  with assms(2) have "safe_shape (root c)" by simp
  from vm_contract_remove_area_cases [OF assms(1) this, of ar] obtain c' m' L' where
    "vm_contract_remove_area h c ar m = Inr (ERROR_OK, c', m')" "contract_ok h s e m' L' c'"
    and w: "areas (root c') = without (start_addr ar) (areas (root c))" by blast
  moreover have "set (areas (root c')) \<subseteq> set (areas (root c))" unfolding w by (rule filter_is_subset)
  ultimately show ?thesis using Unmap_area by (intro exI [of _ c'] exI [of _ m'] exI [of _ L']) simp
qed

lemma vm_calls_run_ok:
  assumes "contract_ok h s e m L c" "calls_safe h ks (c, m)"
  shows "\<exists>c' m' L'. vm_calls_run h ks (c, m) = Inr (c', m') \<and> contract_ok h s e m' L' c' \<and>
    set (areas (root c')) \<subseteq> set (areas (root c)) \<union> set (mapped ks)"
  using assms
proof (induction ks arbitrary: c m L)
  case (Cons k ks)
  obtain c1 m1 L1 where s1: "vm_call_run h k (c, m) = Inr (c1, m1)" "contract_ok h s e m1 L1 c1"
    "set (areas (root c1)) \<subseteq> set (areas (root c)) \<union> set (mapped [k])"
    using vm_call_run_ok [OF Cons.prems(1), of k] Cons.prems(2) by auto
  have "calls_safe h ks (c1, m1)" using Cons.prems(2) s1(1) by simp
  from Cons.IH [OF s1(2) this] obtain c' m' L' where s2: "vm_calls_run h ks (c1, m1) = Inr (c', m')"
    "contract_ok h s e m' L' c'" "set (areas (root c')) \<subseteq> set (areas (root c1)) \<union> set (mapped ks)" by blast
  have "set (mapped (k # ks)) = set (mapped [k]) \<union> set (mapped ks)" by (cases k) simp_all
  then have "set (areas (root c')) \<subseteq> set (areas (root c)) \<union> set (mapped (k # ks))" using s1(3) s2(3) by blast
  with s1(1) s2(1,2) show ?case by (intro exI [of _ c'] exI [of _ m'] exI [of _ L']) simp
qed auto

text \<open>
  C29. Start from an empty contract over a good heap and add and remove areas in any order, removing
  only on trees of the shape of C27.  Every call returns, the contract satisfies the invariant
  afterwards, and it holds only areas that were added.  Its tree is low: at most 65 levels, and with
  \<open>n\<close> additions made so far the number of levels \<open>l\<close> satisfies \<open>2 ^ (l div 2) \<le> n + 1\<close>; so the
  recursions of vm_contract.c are bounded, and the height a node stores in 32 bits is the true one.
\<close>

theorem vm_contract_height:
  assumes "heap_rep h s e m L" "calls_safe h ks (vm_contract_init c0, m)"
  shows "\<exists>c m' L'. vm_calls_run h ks (vm_contract_init c0, m) = Inr (c, m') \<and> contract_ok h s e m' L' c \<and>
    set (areas (root c)) \<subseteq> set (mapped ks) \<and> ht (root c) \<le> 65 \<and>
    2 ^ (ht (root c) div 2) \<le> length (mapped ks) + 1 \<and> get_node_height (root c) = of_nat (ht (root c))"
proof -
  obtain c m' L' where r: "vm_calls_run h ks (vm_contract_init c0, m) = Inr (c, m')" and ok: "contract_ok h s e m' L' c"
    and sub: "set (areas (root c)) \<subseteq> set (mapped ks)"
    using vm_calls_run_ok [OF contract_init_ok [OF assms(1)] assms(2)] by (auto simp: vm_contract_init_def)
  have g: "avl (root c)" "stored (root c)" using ok by (simp_all add: contract_ok_def good_def)
  have "length (areas (root c)) \<le> length (mapped ks)"
    using card_mono [OF _ sub] card_length [of "mapped ks"] areas_length [OF ok] by simp
  then have "2 ^ (ht (root c) div 2) \<le> length (mapped ks) + 1" using avl_size [OF g(1)] by simp
  then show ?thesis
    using r ok sub contract_ok_height [OF ok] get_node_height_ok [OF g(2)]
    by (intro exI [of _ c] exI [of _ m'] exI [of _ L']) simp
qed

section \<open>Witnesses\<close>

text \<open>Four areas in nodes at the first four blocks of the example heap.\<close>

definition area_at :: "u32 \<Rightarrow> vm_area" where
  "area_at a = \<lparr>start_addr = a, end_addr = a + 0xFFF, flags = 0, fd = 0, offset = 0\<rparr>"

definition vm_example :: vm_contract where
  "vm_example = \<lparr>root =
     Vm_node 0x1014 (Vm_node 0x1044 Null Null 1 0x1FFF (area_at 0x1000))
       (Vm_node 0x1074 (Vm_node 0x10A4 Null Null 1 0x3FFF (area_at 0x3000)) Null 2 0x4FFF (area_at 0x4000))
       3 0x4FFF (area_at 0x2000)\<rparr>"

lemma heap_four_blocks:
  "\<exists>m. heap_ok m 0x1000 0x100C 0x1100
     [(True, 40), (True, 40), (True, 40), (True, 40), (False, 44)]"
proof -
  have step: "\<exists>m'. heap_ok m' 0x1000 0x100C 0x1100 (snd (alloc_blocks 40 0x100C bs))"
    if "heap_ok m 0x1000 0x100C 0x1100 bs" for m bs
    using heap_alloc_ok [OF that, of 40] by auto
  obtain m1 where "heap_ok m1 0x1000 0x100C 0x1100 [(True, 40), (False, 188)]"
    using step [OF heap_example_ok] by (auto simp: split_block_def)
  then obtain m2 where "heap_ok m2 0x1000 0x100C 0x1100 [(True, 40), (True, 40), (False, 140)]"
    using step by (fastforce simp: split_block_def)
  then obtain m3 where "heap_ok m3 0x1000 0x100C 0x1100 [(True, 40), (True, 40), (True, 40), (False, 92)]"
    using step by (fastforce simp: split_block_def)
  from step [OF this] show ?thesis by (auto simp: split_block_def)
qed

lemma vm_example_ok:
  obtains m L where "contract_ok 0x1000 0x100C 0x1100 m L vm_example"
proof -
  obtain m where "heap_ok m 0x1000 0x100C 0x1100
     [(True, 40), (True, 40), (True, 40), (True, 40), (False, 44)]"
    using heap_four_blocks by blast
  then have "heap_rep 0x1000 0x100C 0x1100 m
     (set (payloads 0x100C [(True, 40), (True, 40), (True, 40), (True, 40), (False, 44)]))"
    unfolding heap_rep_def by blast
  then have "contract_ok 0x1000 0x100C 0x1100 m
     (set (payloads 0x100C [(True, 40), (True, 40), (True, 40), (True, 40), (False, 44)])) vm_example"
    by (auto simp: contract_ok_def vm_example_def area_at_def apart_def max_def)
  then show thesis by (rule that)
qed

lemma vm_contract_find_area_spec_witness:
  "vm_contract_find_area vm_example 0x3800 = Some (area_at 0x3000)"
proof -
  obtain m L where "contract_ok 0x1000 0x100C 0x1100 m L vm_example" by (rule vm_example_ok)
  from vm_contract_find_area_spec [OF this, of "0x3800"] show ?thesis
    by (auto simp: vm_example_def in_area_def area_at_def)
qed

lemma vm_contract_add_area_spec_witness:
  "\<exists>m err c' m'. vm_contract_add_area 0x1000 vm_example (area_at 0x8000) m = Inr (err, c', m')"
proof -
  obtain m L where "contract_ok 0x1000 0x100C 0x1100 m L vm_example" by (rule vm_example_ok)
  from vm_contract_add_area_spec [OF this, of "area_at 0x8000"] show ?thesis by blast
qed

text \<open>Two of them alone make a contract from which areas can be removed.\<close>

definition vm_example_small :: vm_contract where
  "vm_example_small = \<lparr>root =
     Vm_node 0x1014 (Vm_node 0x1044 Null Null 1 0x1FFF (area_at 0x1000)) Null 2 0x2FFF (area_at 0x2000)\<rparr>"

lemma vm_contract_remove_area_spec_witness:
  "\<exists>m c' m'. vm_contract_remove_area 0x1000 vm_example_small (area_at 0x2000) m =
     Inr (ERROR_OK, c', m') \<and> areas (root c') = [area_at 0x1000]"
proof -
  obtain m L where "contract_ok 0x1000 0x100C 0x1100 m L vm_example" by (rule vm_example_ok)
  then have ok: "contract_ok 0x1000 0x100C 0x1100 m L vm_example_small"
    by (auto simp: contract_ok_def vm_example_def vm_example_small_def area_at_def apart_def max_def)
  have "safe_shape (root vm_example_small)" by (simp add: vm_example_small_def)
  from vm_contract_remove_area_spec [OF ok this, of "area_at 0x2000"]
  obtain c' m' where "vm_contract_remove_area 0x1000 vm_example_small (area_at 0x2000) m = Inr (ERROR_OK, c', m')"
    "areas (root c') = without (start_addr (area_at 0x2000)) (areas (root vm_example_small))" by blast
  moreover have "without (start_addr (area_at 0x2000)) (areas (root vm_example_small)) = [area_at 0x1000]"
    by (simp add: vm_example_small_def area_at_def)
  ultimately show ?thesis by (intro exI conjI) (assumption, rule trans)
qed

lemma vm_contract_remove_area_fault_witness:
  "\<exists>m. vm_contract_remove_area 0x1000 vm_example (area_at 0x1000) m = Inl NullDeref"
proof -
  obtain m L where ok: "contract_ok 0x1000 0x100C 0x1100 m L vm_example" by (rule vm_example_ok)
  have "root vm_example = Vm_node 0x1014 (Vm_node 0x1044 Null Null 1 0x1FFF (area_at 0x1000))
      (right_child (root vm_example)) 3 0x4FFF (area_at 0x2000)"
    "left_heavy (right_child (root vm_example))" "ht (right_child (root vm_example)) = 2"
    by (simp_all add: vm_example_def left_heavy_def)
  from vm_contract_remove_area_fault [OF ok this refl] show ?thesis by blast
qed

text \<open>Four areas added from left to right.\<close>

lemma vm_contract_height_witness:
  "\<exists>c m'. vm_calls_run 0x1000 [Map_area (area_at 0x1000), Map_area (area_at 0x2000), Map_area (area_at 0x3000),
      Map_area (area_at 0x4000)] (vm_contract_init vm_example, heap_example) = Inr (c, m') \<and>
    ht (root c) div 2 \<le> 2"
proof -
  let ?ks = "[Map_area (area_at 0x1000), Map_area (area_at 0x2000), Map_area (area_at 0x3000), Map_area (area_at 0x4000)]"
  obtain L where rep: "heap_rep 0x1000 0x100C 0x1100 heap_example L"
    using heap_example_ok by (auto simp: heap_rep_def)
  have "calls_safe 0x1000 ?ks (vm_contract_init vm_example, heap_example)" by (simp split: sum.splits)
  from vm_contract_height [OF rep this] obtain c m' where
    r: "vm_calls_run 0x1000 ?ks (vm_contract_init vm_example, heap_example) = Inr (c, m')"
    and "2 ^ (ht (root c) div 2) \<le> length (mapped ?ks) + 1" by blast
  then have p: "(2 :: nat) ^ (ht (root c) div 2) \<le> 5" by simp
  have "ht (root c) div 2 \<le> 2"
  proof (rule ccontr)
    assume "\<not> ht (root c) div 2 \<le> 2"
    then have "(2 :: nat) ^ 3 \<le> 2 ^ (ht (root c) div 2)" by (intro power_increasing) simp_all
    with p show False by simp
  qed
  with r show ?thesis by blast
qed

end
