(* ===== verification/Paging.thy ===== *)
theory Paging
  imports Prelude
begin

text \<open>
  Page table and page directory entries (\<^verbatim>\<open>vmmngr_pte.c\<close>, \<^verbatim>\<open>vmmngr_pde.c\<close>), the address
  arithmetic of \<^verbatim>\<open>mem_manager_virt_aux.c\<close>, and the processor's walk from cr3 over the
  directory and the table that \<^verbatim>\<open>mem_manager_virt.h\<close> describes.

  Physical memory is a function from the address of each aligned 32-bit word to its value: every
  access of these files is to an aligned word.  The walk reads the tables at every access; the
  translation cache is not modelled.
\<close>

unbundle bit_operations_syntax

type_synonym pt_entry = u32
type_synonym pd_entry = u32
type_synonym vrec_table_t = u32
type_synonym virtual_addr_t = u32
type_synonym phys_ram = "u32 \<Rightarrow> u32"

section \<open>Entries\<close>

definition I86_PTE_PRESENT :: u32 where "I86_PTE_PRESENT = 1"
definition I86_PTE_WRITABLE :: u32 where "I86_PTE_WRITABLE = 2"
definition I86_PTE_USER :: u32 where "I86_PTE_USER = 4"
definition I86_PTE_FRAME :: u32 where "I86_PTE_FRAME = 0xFFFFF000"
definition I86_PDE_PRESENT :: u32 where "I86_PDE_PRESENT = 1"
definition I86_PDE_WRITABLE :: u32 where "I86_PDE_WRITABLE = 2"
definition I86_PDE_USER :: u32 where "I86_PDE_USER = 4"
definition I86_PDE_4MB :: u32 where "I86_PDE_4MB = 0x80"
definition I86_PDE_FRAME :: u32 where "I86_PDE_FRAME = 0xFFFFF000"

definition VIRT_MEM_DEFAULT_PDE_FLAGS :: u32 where
  "VIRT_MEM_DEFAULT_PDE_FLAGS = I86_PDE_PRESENT OR I86_PDE_WRITABLE"
definition VIRT_MEM_DEFAULT_PTE_FLAGS :: u32 where
  "VIRT_MEM_DEFAULT_PTE_FLAGS = I86_PTE_PRESENT OR I86_PTE_WRITABLE"

definition pt_entry_add_attrib :: "pt_entry \<Rightarrow> u32 \<Rightarrow> pt_entry" where
  "pt_entry_add_attrib entry attrib = entry OR attrib"
definition pt_entry_del_attrib :: "pt_entry \<Rightarrow> u32 \<Rightarrow> pt_entry" where
  "pt_entry_del_attrib entry attrib = entry AND NOT attrib"
definition pt_entry_test_attrib :: "pt_entry \<Rightarrow> u32 \<Rightarrow> bool" where
  "pt_entry_test_attrib entry attrib \<longleftrightarrow> entry AND attrib = attrib"
definition pt_entry_set_frame :: "pt_entry \<Rightarrow> u32 \<Rightarrow> pt_entry" where
  "pt_entry_set_frame entry addr = (entry AND NOT I86_PTE_FRAME) OR addr"
definition pt_entry_is_present :: "pt_entry \<Rightarrow> u32" where
  "pt_entry_is_present entry = entry AND I86_PTE_PRESENT"
definition pt_entry_is_writable :: "pt_entry \<Rightarrow> u32" where
  "pt_entry_is_writable entry = entry AND I86_PTE_WRITABLE"
definition pt_entry_get_frame :: "pt_entry \<Rightarrow> u32" where
  "pt_entry_get_frame entry = entry AND I86_PTE_FRAME"

definition pd_entry_add_attrib :: "pd_entry \<Rightarrow> u32 \<Rightarrow> pd_entry" where
  "pd_entry_add_attrib e attrib = e OR attrib"
definition pd_entry_del_attrib :: "pd_entry \<Rightarrow> u32 \<Rightarrow> pd_entry" where
  "pd_entry_del_attrib e attrib = e AND NOT attrib"
definition pd_entry_test_attrib :: "pd_entry \<Rightarrow> u32 \<Rightarrow> bool" where
  "pd_entry_test_attrib e attrib \<longleftrightarrow> e AND attrib = attrib"
definition pd_entry_set_frame :: "pd_entry \<Rightarrow> u32 \<Rightarrow> pd_entry" where
  "pd_entry_set_frame e addr = (e AND NOT I86_PDE_FRAME) OR addr"
definition pd_entry_is_present :: "pd_entry \<Rightarrow> u32" where
  "pd_entry_is_present e = e AND I86_PDE_PRESENT"
definition pd_entry_is_writable :: "pd_entry \<Rightarrow> u32" where
  "pd_entry_is_writable e = e AND I86_PDE_WRITABLE"
definition pd_entry_is_user :: "pd_entry \<Rightarrow> u32" where
  "pd_entry_is_user e = e AND I86_PDE_USER"
definition pd_entry_is_4mb :: "pd_entry \<Rightarrow> u32" where
  "pd_entry_is_4mb e = e AND I86_PDE_4MB"
definition pd_entry_get_frame :: "pd_entry \<Rightarrow> u32" where
  "pd_entry_get_frame e = e AND I86_PDE_FRAME"

section \<open>Addresses of entries\<close>

definition virt_mem_get_self_recursive_table :: vrec_table_t where
  "virt_mem_get_self_recursive_table = 0xC0000000"

definition virt_mem_get_foreign_recursive_table :: vrec_table_t where
  "virt_mem_get_foreign_recursive_table = 0xC0400000"

definition virt_mem_get_page_index :: "virtual_addr_t \<Rightarrow> u32" where
  "virt_mem_get_page_index addr = drop_bit 12 (addr AND 0x003FF000)"

definition virt_mem_get_page_table_index :: "virtual_addr_t \<Rightarrow> u32" where
  "virt_mem_get_page_table_index addr = drop_bit 22 (addr AND 0xFFC00000)"

definition virt_mem_get_page_table :: "vrec_table_t \<Rightarrow> virtual_addr_t \<Rightarrow> u32" where
  "virt_mem_get_page_table base address =
     (let index = virt_mem_get_page_table_index address in base + push_bit 12 index)"

definition virt_mem_get_directory :: "vrec_table_t \<Rightarrow> u32" where
  "virt_mem_get_directory base = virt_mem_get_page_table base base"

definition virt_mem_get_current_directory :: u32 where
  "virt_mem_get_current_directory =
     virt_mem_get_page_table virt_mem_get_self_recursive_table virt_mem_get_self_recursive_table"

definition virt_mem_get_foreign_directory :: u32 where
  "virt_mem_get_foreign_directory =
     virt_mem_get_page_table virt_mem_get_self_recursive_table virt_mem_get_foreign_recursive_table"

text \<open>Pointers to entries; the null pointer is the address 0.\<close>

definition virt_mem_get_page_directory_entry :: "u32 \<Rightarrow> virtual_addr_t \<Rightarrow> u32" where
  "virt_mem_get_page_directory_entry p addr =
     (if p \<noteq> 0 then p + 4 * virt_mem_get_page_table_index addr else 0)"

definition virt_mem_get_page_table_entry :: "u32 \<Rightarrow> virtual_addr_t \<Rightarrow> u32" where
  "virt_mem_get_page_table_entry p addr =
     (if p \<noteq> 0 then p + 4 * virt_mem_get_page_index addr else 0)"

definition virt_mem_get_page_directory_entry_by_addr :: "vrec_table_t \<Rightarrow> virtual_addr_t \<Rightarrow> u32" where
  "virt_mem_get_page_directory_entry_by_addr base addr =
     virt_mem_get_page_directory_entry (virt_mem_get_directory base) addr"

definition virt_mem_get_page_table_entry_by_addr :: "vrec_table_t \<Rightarrow> virtual_addr_t \<Rightarrow> u32" where
  "virt_mem_get_page_table_entry_by_addr base addr =
     virt_mem_get_page_table_entry (virt_mem_get_page_table base addr) addr"

section \<open>The walk of the processor\<close>

definition pde_at :: "phys_ram \<Rightarrow> u32 \<Rightarrow> nat \<Rightarrow> u32" where
  "pde_at ram dir i = ram (pd_entry_get_frame dir + 4 * of_nat i)"

definition pte_at :: "phys_ram \<Rightarrow> u32 \<Rightarrow> nat \<Rightarrow> u32" where
  "pte_at ram pde j = ram (pd_entry_get_frame pde + 4 * of_nat j)"

definition dir_index :: "u32 \<Rightarrow> nat" where "dir_index va = unat va div 4194304"
definition tab_index :: "u32 \<Rightarrow> nat" where "tab_index va = unat va div 4096 mod 1024"

definition translate :: "phys_ram \<Rightarrow> u32 \<Rightarrow> virtual_addr_t \<Rightarrow> u32 option" where
  "translate ram dir va =
     (let pde = pde_at ram dir (dir_index va) in
      if pd_entry_is_present pde = 0 then None
      else let pte = pte_at ram pde (tab_index va) in
        if pt_entry_is_present pte = 0 then None
        else Some (pt_entry_get_frame pte + (va AND 0xFFF)))"

section \<open>Lemmas on entries\<close>

lemma frame_mask: "I86_PTE_FRAME = NOT (mask 12)" "I86_PDE_FRAME = NOT (mask 12)"
  by (simp_all add: I86_PTE_FRAME_def I86_PDE_FRAME_def mask_eq_exp_minus_1)

lemma present_iff:
  "pd_entry_is_present e = 0 \<longleftrightarrow> \<not> bit e 0" "pt_entry_is_present e = 0 \<longleftrightarrow> \<not> bit e 0"
  by (simp_all add: pd_entry_is_present_def pt_entry_is_present_def I86_PDE_PRESENT_def
      I86_PTE_PRESENT_def and_one_eq bit_0 even_iff_mod_2_eq_zero)

definition frame_aligned :: "u32 \<Rightarrow> bool" where
  "frame_aligned a \<longleftrightarrow> a AND mask 12 = 0"

lemma frame_aligned_bits: "frame_aligned a \<Longrightarrow> n < 12 \<Longrightarrow> \<not> bit a n"
  by (metis bit_0_eq bit_and_iff bit_mask_iff bot_apply bot_bool_def frame_aligned_def possible_bit_word
      bit_imp_le_length)

lemma frame_alignedI: "(\<And>n. n < 12 \<Longrightarrow> \<not> bit a n) \<Longrightarrow> frame_aligned a"
  by (auto intro!: bit_word_eqI simp: frame_aligned_def bit_simps)

lemma get_frame_aligned [simp]: "frame_aligned (pd_entry_get_frame e)" "frame_aligned (pt_entry_get_frame e)"
  by (auto intro!: frame_alignedI simp: pd_entry_get_frame_def pt_entry_get_frame_def frame_mask bit_simps)

lemma get_frame_id [simp]: "frame_aligned a \<Longrightarrow> pd_entry_get_frame a = a"
  by (rule bit_word_eqI) (auto simp: pd_entry_get_frame_def frame_mask bit_simps dest: frame_aligned_bits)

text \<open>An entry built from an aligned frame and flags below 4096 gives both back.\<close>

lemma entry_frame_flags:
  assumes "frame_aligned a" "unat f < 4096"
  shows "pd_entry_get_frame (a OR f) = a" "pt_entry_get_frame (a OR f) = a"
    "bit (a OR f) 0 \<longleftrightarrow> bit f 0"
proof -
  have f: "\<not> bit f n" if "12 \<le> n" for n
  proof -
    have "unat f < 2 ^ n" using assms(2) power_increasing [OF that, of "2::nat"] by simp
    then have "\<not> bit (unat f) n" by (simp add: bit_iff_odd)
    then show ?thesis by (simp add: bit_unsigned_iff)
  qed
  have a: "12 \<le> n" if "bit a n" for n using frame_aligned_bits [OF assms(1), of n] that by (cases "n < 12") auto
  have "(a OR f) AND NOT (mask 12) = a"
    by (rule bit_word_eqI) (use f in \<open>auto simp: bit_simps not_le dest: a\<close>)
  then show "pd_entry_get_frame (a OR f) = a" "pt_entry_get_frame (a OR f) = a"
    by (simp_all add: pd_entry_get_frame_def pt_entry_get_frame_def frame_mask)
  show "bit (a OR f) 0 \<longleftrightarrow> bit f 0"
    using frame_aligned_bits [OF assms(1), of 0] by (simp add: bit_or_iff)
qed

section \<open>Lemmas on addresses\<close>

lemma dir_index_less [simp]: "dir_index va < 1024"
  using unat_u32_less [of va] by (simp add: dir_index_def div_less_iff_less_mult)

lemma tab_index_less [simp]: "tab_index va < 1024"
  by (simp add: tab_index_def)

lemma page_table_index_eq: "virt_mem_get_page_table_index addr = of_nat (dir_index addr)"
proof -
  have m: "(0xFFC00000::u32) = NOT (mask 22)" by (simp add: mask_eq_exp_minus_1)
  have "drop_bit 22 (addr AND NOT (mask 22)) = drop_bit 22 addr"
    by (rule bit_word_eqI) (auto simp: bit_simps dest: bit_imp_le_length)
  then have "unat (virt_mem_get_page_table_index addr) = dir_index addr"
    by (simp add: virt_mem_get_page_table_index_def m dir_index_def drop_bit_eq_div word_nat)
  moreover have "dir_index addr < 4294967296" using dir_index_less [of addr] by linarith
  ultimately show ?thesis by (simp add: word_unat_eq_iff)
qed

lemma page_index_eq: "virt_mem_get_page_index addr = of_nat (tab_index addr)"
proof -
  have m: "(0x003FF000::u32) = push_bit 12 (mask 10)" by (simp add: mask_eq_exp_minus_1 push_bit_eq_mult)
  have "drop_bit 12 (addr AND push_bit 12 (mask 10)) = take_bit 10 (drop_bit 12 addr)"
    by (rule bit_word_eqI) (auto simp: bit_simps)
  then have "unat (virt_mem_get_page_index addr) = tab_index addr"
    by (simp add: virt_mem_get_page_index_def m tab_index_def unat_drop_bit_eq drop_bit_eq_div
        unsigned_take_bit_eq take_bit_eq_mod word_nat)
  moreover have "tab_index addr < 4294967296" using tab_index_less [of addr] by linarith
  ultimately show ?thesis by (simp add: word_unat_eq_iff)
qed

lemma unat_entry:
  assumes "frame_aligned f" "k < 1024"
  shows "unat (f + 4 * of_nat k) = unat f + 4 * k" "unat f mod 4096 = 0"
proof -
  have "unat (f AND mask 12) = 0" using assms(1) by (simp add: frame_aligned_def)
  then have "unat (take_bit 12 f) = 0" by (simp add: take_bit_eq_mask)
  then show md: "unat f mod 4096 = 0" by (simp add: take_bit_eq_mod word_nat)
  then have "unat f \<le> 4294963200" using unat_u32_less [of f] by auto
  moreover have "unat (4 * of_nat k :: u32) = 4 * k" using assms(2) by (simp add: unat_word_ariths)
  ultimately show "unat (f + 4 * of_nat k) = unat f + 4 * k"
    using assms(2) by (simp add: unat_word_ariths)
qed

lemma entry_eq_iff:
  assumes "frame_aligned f" "frame_aligned g" "k < 1024" "l < 1024"
  shows "f + 4 * of_nat k = g + 4 * of_nat l \<longleftrightarrow> f = g \<and> k = l"
proof
  assume "f + 4 * of_nat k = g + 4 * of_nat l"
  then have "unat (f + 4 * of_nat k) = unat (g + 4 * of_nat l)" by (rule arg_cong)
  then have e: "unat f + 4 * k = unat g + 4 * l"
    unfolding unat_entry(1) [OF assms(1,3)] unat_entry(1) [OF assms(2,4)] .
  have "unat f mod 4096 = 0" "unat g mod 4096 = 0" using unat_entry(2) assms by blast+
  then have fg: "unat f = 4096 * (unat f div 4096)" "unat g = 4096 * (unat g div 4096)" by auto
  with e assms(3,4) have "unat f div 4096 = unat g div 4096" by linarith
  with fg have "unat f = unat g" by simp
  with e show "f = g \<and> k = l" by (simp add: word_unat_eq_iff)
qed simp

text \<open>The windows of the recursive mapping, as sums.\<close>

definition window :: "nat \<Rightarrow> nat \<Rightarrow> u32" where
  "window i j = 0xC0000000 + 4096 * of_nat i + 4 * of_nat j"

lemma unat_window:
  assumes "i < 1024" "j < 1024"
  shows "unat (window i j) = 3221225472 + 4096 * i + 4 * j"
proof -
  have "unat (4096 * of_nat i :: u32) = 4096 * i" "unat (4 * of_nat j :: u32) = 4 * j"
    using assms by (simp_all add: unat_word_ariths)
  moreover have "unat (0xC0000000 + 4096 * of_nat i :: u32) = 3221225472 + 4096 * i"
    using assms calculation(1) by (simp add: unat_word_ariths)
  ultimately show ?thesis using assms unfolding window_def by (simp add: unat_word_ariths)
qed

lemma window_index:
  assumes "i < 1024" "j < 1024"
  shows "dir_index (window i j) = 768" "tab_index (window i j) = i" "window i j AND 0xFFF = 4 * of_nat j"
proof -
  note u = unat_window [OF assms]
  show "dir_index (window i j) = 768" unfolding dir_index_def u
    by (rule div_nat_eqI) (use assms in simp_all)
  have "(3221225472 + 4096 * i + 4 * j) div 4096 = i + 1024 * 768"
    by (rule div_nat_eqI) (use assms in simp_all)
  then show "tab_index (window i j) = i"
    unfolding tab_index_def u using assms(1) by (simp only: mod_mult_self2 mod_less)
  have m: "(0xFFF :: u32) = mask 12" by (simp add: mask_eq_exp_minus_1)
  have eq: "3221225472 + 4096 * i + 4 * j = 4 * j + 4096 * (786432 + i)" by simp
  have "unat (window i j AND 0xFFF) = unat (window i j) mod 4096"
    unfolding m by (simp flip: take_bit_eq_mask add: take_bit_eq_mod word_nat)
  also have "\<dots> = 4 * j mod 4096" unfolding u eq by (rule mod_mult_self2)
  also have "\<dots> = 4 * j" using assms(2) by simp
  finally show "window i j AND 0xFFF = 4 * of_nat j"
    using assms by (simp add: word_unat_eq_iff unat_word_ariths)
qed

lemma window_next: "window i j + 4 = window i (Suc j)"
  by (simp add: window_def)

lemma page_table_window: "virt_mem_get_page_table 0xC0000000 va = window (dir_index va) 0"
  by (simp add: virt_mem_get_page_table_def page_table_index_eq window_def push_bit_eq_mult)

lemma directory_window: "virt_mem_get_directory 0xC0000000 = window 768 0"
  by (simp add: virt_mem_get_directory_def page_table_window dir_index_def)

lemma window_nonzero: "i < 1024 \<Longrightarrow> j < 1024 \<Longrightarrow> window i j \<noteq> 0"
  using unat_window [of i j] by (auto simp: word_unat_eq_iff)

text \<open>In an address space whose directory is its own entry 768, the windows show the tables.\<close>

definition recursive :: "phys_ram \<Rightarrow> u32 \<Rightarrow> bool" where
  "recursive ram dir \<longleftrightarrow> frame_aligned dir \<and> pd_entry_get_frame (pde_at ram dir 768) = dir \<and>
     bit (pde_at ram dir 768) 0"

lemma translate_window:
  assumes "recursive ram dir" "i < 1024" "j < 1024"
  shows "translate ram dir (window i j) =
    (if bit (pde_at ram dir i) 0 then Some (pd_entry_get_frame (pde_at ram dir i) + 4 * of_nat j) else None)"
proof -
  have "pte_at ram (pde_at ram dir 768) i = pde_at ram dir i"
    using assms(1) get_frame_id [of dir] by (simp only: pte_at_def pde_at_def recursive_def)
  then show ?thesis
    using assms window_index [OF assms(2,3)]
    by (simp add: translate_def present_iff recursive_def pt_entry_get_frame_def pd_entry_get_frame_def
        I86_PTE_FRAME_def I86_PDE_FRAME_def)
qed

lemma translate_directory_window:
  assumes "recursive ram dir" "j < 1024"
  shows "translate ram dir (window 768 j) = Some (dir + 4 * of_nat j)"
  using translate_window [OF assms(1) _ assms(2), of 768] assms(1) by (simp add: recursive_def)

end
