(* ===== verification/Virt_Mem.thy ===== *)
theory Virt_Mem
  imports Paging Phys_Mem
begin

text \<open>
  The virtual memory manager, \<^verbatim>\<open>mem_manager_virt.c\<close>, and the permanent kernel allocator of
  \<^verbatim>\<open>mem_alloc.c\<close>.  The state is physical memory, the cr3 register and the physical memory
  manager.  The code reaches page tables through the recursive mapping, that is through virtual
  addresses: every load and store here goes through the walk, and a missing translation is the
  page fault whose handler panics.
\<close>

unbundle bit_operations_syntax

section \<open>State and memory access\<close>

record vm_state =
  ram :: phys_ram
  cr3 :: u32
  pmem :: phys_mem

definition page_fault_error_is_page_present :: "u32 \<Rightarrow> u32" where
  "page_fault_error_is_page_present error = error AND 1"
definition page_fault_error_is_write :: "u32 \<Rightarrow> u32" where
  "page_fault_error_is_write error = error AND 2"
definition page_fault_error_is_user :: "u32 \<Rightarrow> u32" where
  "page_fault_error_is_user error = error AND 4"

definition page_fault_handler :: "u32 \<Rightarrow> 'a res" where
  "page_fault_handler err_code =
     (if page_fault_error_is_user err_code \<noteq> 0 then Inl (Panic (CHR 0x0A # ''SIGSEGV''))
      else Inl (Panic ''KERNEL ERROR! BSOD''))"

text \<open>Loads and stores of the kernel; error code 0 is a supervisor read, 2 a supervisor write
  of a page that is not present.\<close>

definition vread :: "virtual_addr_t \<Rightarrow> vm_state \<Rightarrow> u32 res" where
  "vread va st =
     (case translate (ram st) (cr3 st) va of None \<Rightarrow> page_fault_handler 0 | Some pa \<Rightarrow> Inr (ram st pa))"

definition vwrite :: "virtual_addr_t \<Rightarrow> u32 \<Rightarrow> vm_state \<Rightarrow> vm_state res" where
  "vwrite va w st =
     (case translate (ram st) (cr3 st) va of
        None \<Rightarrow> page_fault_handler 2
      | Some pa \<Rightarrow> Inr (st\<lparr>ram := (ram st)(pa := w)\<rparr>))"

text \<open>memset and memcpy of whole pages: 1024 words each.\<close>

primrec vmemset_words :: "nat \<Rightarrow> virtual_addr_t \<Rightarrow> u32 \<Rightarrow> vm_state \<Rightarrow> vm_state res" where
  "vmemset_words 0 ptr w st = Inr st"
| "vmemset_words (Suc n) ptr w st = res_bind (vwrite ptr w st) (vmemset_words n (ptr + 4) w)"

primrec vmemcpy_words :: "nat \<Rightarrow> virtual_addr_t \<Rightarrow> virtual_addr_t \<Rightarrow> vm_state \<Rightarrow> vm_state res" where
  "vmemcpy_words 0 d s st = Inr st"
| "vmemcpy_words (Suc n) d s st =
     res_bind (vread s st) (\<lambda>w. res_bind (vwrite d w st) (vmemcpy_words n (d + 4) (s + 4)))"

section \<open>Operations\<close>

definition virt_mem_get_page_size :: u32 where "virt_mem_get_page_size = 4096"

text \<open>\<^verbatim>\<open>*e = f(*e)\<close>\<close>

definition vupdate :: "virtual_addr_t \<Rightarrow> (u32 \<Rightarrow> u32) \<Rightarrow> vm_state \<Rightarrow> vm_state res" where
  "vupdate va f st = res_bind (vread va st) (\<lambda>w. vwrite va (f w) st)"

definition virt_mem_create_table ::
    "vrec_table_t \<Rightarrow> virtual_addr_t \<Rightarrow> u32 \<Rightarrow> vm_state \<Rightarrow> (error_t \<times> vm_state) res" where
  "virt_mem_create_table base addr flags st =
     (let pdir = virt_mem_get_directory base;
          entry = virt_mem_get_page_directory_entry pdir addr in
      if entry = 0 then Inr (ERROR_OCCUR, st)
      else
        res_bind (phys_mem_alloc_above_1mb (pmem st)) (\<lambda>(table_phys, pm).
          let st = st\<lparr>pmem := pm\<rparr> in
          if table_phys = 0 then Inr (ERROR_OCCUR, st)
          else
            res_bind (vupdate entry (\<lambda>e. pd_entry_set_frame e table_phys) st) (\<lambda>st.
            res_bind (vupdate entry (\<lambda>e. pd_entry_add_attrib e flags) st) (\<lambda>st.
              let table = virt_mem_get_page_table base addr in
              res_bind (vmemset_words 1024 table 0 st) (\<lambda>st. Inr (ERROR_OK, st))))))"

definition virt_mem_set_recursive_table ::
    "vrec_table_t \<Rightarrow> vrec_table_t \<Rightarrow> u32 \<Rightarrow> vm_state \<Rightarrow> vm_state res" where
  "virt_mem_set_recursive_table current target pdir st =
     (let pd = virt_mem_get_page_directory_entry_by_addr current target in
      res_bind (vupdate pd (\<lambda>e. pd_entry_add_attrib e VIRT_MEM_DEFAULT_PDE_FLAGS) st) (\<lambda>st.
        vupdate pd (\<lambda>e. pd_entry_set_frame e pdir) st))"

text \<open>The second half of virt_mem_map_page, once the table is there.\<close>

definition set_page :: "vrec_table_t \<Rightarrow> u32 \<Rightarrow> virtual_addr_t \<Rightarrow> u32 \<Rightarrow> vm_state \<Rightarrow> (error_t \<times> vm_state) res" where
  "set_page base phys virt flags st =
     (let table = virt_mem_get_page_table base virt;
          page = virt_mem_get_page_table_entry table virt in
      if page = 0 then Inr (ERROR_OCCUR, st)
      else
        res_bind (vwrite page 0 st) (\<lambda>st.
        res_bind (vupdate page (\<lambda>e. pt_entry_set_frame e phys) st) (\<lambda>st.
        res_bind (vupdate page (\<lambda>e. pt_entry_add_attrib e flags) st) (\<lambda>st.
          Inr (ERROR_OK, st)))))"

definition virt_mem_map_page ::
    "vrec_table_t \<Rightarrow> u32 \<Rightarrow> virtual_addr_t \<Rightarrow> u32 \<Rightarrow> vm_state \<Rightarrow> (error_t \<times> vm_state) res" where
  "virt_mem_map_page base phys virt flags st =
     (let pdir = virt_mem_get_directory base;
          e = virt_mem_get_page_directory_entry pdir virt in
      res_bind (vread e st) (\<lambda>pde.
        if pd_entry_is_present pde = 0 then
          res_bind (virt_mem_create_table base virt flags st) (\<lambda>(err, st).
            if err \<noteq> ERROR_OK then Inr (ERROR_OCCUR, st) else set_page base phys virt flags st)
        else set_page base phys virt flags st))"

definition virt_mem_unmap_page :: "vrec_table_t \<Rightarrow> virtual_addr_t \<Rightarrow> vm_state \<Rightarrow> (error_t \<times> vm_state) res" where
  "virt_mem_unmap_page base virt st =
     (let table = virt_mem_get_page_table base virt;
          page = virt_mem_get_page_table_entry table virt
      in res_bind (vwrite page 0 st) (\<lambda>st. Inr (ERROR_OK, st)))"

definition virt_mem_alloc_page_f :: "virtual_addr_t \<Rightarrow> u32 \<Rightarrow> vm_state \<Rightarrow> (error_t \<times> vm_state) res" where
  "virt_mem_alloc_page_f addr flags st =
     res_bind (phys_mem_alloc_above_1mb (pmem st)) (\<lambda>(phys, pm).
       let st = st\<lparr>pmem := pm\<rparr> in
       if phys = 0 then Inr (ERROR_OCCUR, st)
       else
         res_bind (virt_mem_map_page virt_mem_get_self_recursive_table phys addr flags st) (\<lambda>(err, st).
           if err \<noteq> ERROR_OK then Inr (ERROR_OCCUR, st) else Inr (ERROR_OK, st)))"

definition virt_mem_alloc_page :: "virtual_addr_t \<Rightarrow> vm_state \<Rightarrow> (error_t \<times> vm_state) res" where
  "virt_mem_alloc_page addr st = virt_mem_alloc_page_f addr VIRT_MEM_DEFAULT_PTE_FLAGS st"

definition virt_mem_get_phys_addr :: "virtual_addr_t \<Rightarrow> vm_state \<Rightarrow> u32 res" where
  "virt_mem_get_phys_addr addr st =
     (let e = virt_mem_get_page_directory_entry virt_mem_get_current_directory addr in
      if e = 0 then Inr 0
      else
        let table = virt_mem_get_page_table virt_mem_get_self_recursive_table addr;
            page = virt_mem_get_page_table_entry table addr in
        if page = 0 then Inr 0
        else res_bind (vread page st) (\<lambda>p. Inr (pt_entry_get_frame p + (addr AND 0xFFF))))"

definition virt_mem_is_page_present :: "virtual_addr_t \<Rightarrow> vm_state \<Rightarrow> bool res" where
  "virt_mem_is_page_present addr st =
     (let e = virt_mem_get_page_directory_entry virt_mem_get_current_directory addr in
      if e = 0 then Inr False
      else
        res_bind (vread e st) (\<lambda>pde.
          if pd_entry_is_present pde = 0 then Inr False
          else
            let table = virt_mem_get_page_table virt_mem_get_self_recursive_table addr in
            if table = 0 then Inr False
            else
              let page = virt_mem_get_page_table_entry table addr in
              if page = 0 then Inr False
              else res_bind (vread page st) (\<lambda>p. Inr (pt_entry_is_present p \<noteq> 0))))"

definition virt_mem_free_page :: "virtual_addr_t \<Rightarrow> vm_state \<Rightarrow> (error_t \<times> vm_state) res" where
  "virt_mem_free_page addr st =
     res_bind (virt_mem_get_phys_addr addr st) (\<lambda>phys.
       if phys = 0 then Inr (ERROR_OCCUR, st)
       else
         res_bind (virt_mem_unmap_page virt_mem_get_self_recursive_table addr st) (\<lambda>(err, st).
           if err \<noteq> ERROR_OK then Inr (ERROR_OCCUR, st)
           else
             res_bind (phys_mem_dealloc phys (pmem st)) (\<lambda>(err, pm).
               if err \<noteq> ERROR_OK then Inr (ERROR_OCCUR, st\<lparr>pmem := pm\<rparr>)
               else Inr (ERROR_OK, st\<lparr>pmem := pm\<rparr>))))"

definition virt_mem_switch_directory :: "u32 \<Rightarrow> vm_state \<Rightarrow> error_t \<times> vm_state" where
  "virt_mem_switch_directory new_dir st = (ERROR_OK, st\<lparr>cr3 := new_dir\<rparr>)"

text \<open>The loop of virt_mem_deep_clone_directory over the entries from \<open>i\<close> on.\<close>

primrec clone_tables :: "nat \<Rightarrow> u32 \<Rightarrow> u32 \<Rightarrow> vm_state \<Rightarrow> vm_state res" where
  "clone_tables 0 i new_dir st = Inr st"
| "clone_tables (Suc n) i new_dir st =
     res_bind (vread (new_dir + 4 * i) st) (\<lambda>e.
       if pd_entry_is_present e \<noteq> 0 then
         res_bind (phys_mem_alloc_above_1mb (pmem st)) (\<lambda>(new_table, pm).
         res_bind (vmemcpy_words 1024 new_table (pd_entry_get_frame e) (st\<lparr>pmem := pm\<rparr>)) (\<lambda>st.
         res_bind (vupdate (new_dir + 4 * i) (\<lambda>e. pd_entry_set_frame e new_table) st) (\<lambda>st.
           clone_tables n (i + 1) new_dir st)))
       else clone_tables n (i + 1) new_dir st)"

definition virt_mem_deep_clone_directory :: "u32 \<Rightarrow> vm_state \<Rightarrow> (u32 \<times> vm_state) res" where
  "virt_mem_deep_clone_directory dir st =
     res_bind (phys_mem_alloc_above_1mb (pmem st)) (\<lambda>(new_dir, pm).
     res_bind (vmemcpy_words 1024 new_dir dir (st\<lparr>pmem := pm\<rparr>)) (\<lambda>st.
     res_bind (clone_tables 1024 0 new_dir st) (\<lambda>st. Inr (new_dir, st))))"

text \<open>virt_mem_init also registers page_fault_handler for interrupt 14.\<close>

definition virt_mem_init :: "u32 \<Rightarrow> vm_state \<Rightarrow> (u32 \<times> vm_state) res" where
  "virt_mem_init old_directory st =
     res_bind (virt_mem_deep_clone_directory old_directory st) (\<lambda>(new_dir, st).
       if new_dir = 0 then Inr (0, st)
       else
         let entry = new_dir + 4 * virt_mem_get_page_table_index 0xC0000000 in
         res_bind (vupdate entry (\<lambda>e. pd_entry_add_attrib e VIRT_MEM_DEFAULT_PDE_FLAGS) st) (\<lambda>st.
         res_bind (vupdate entry (\<lambda>e. pd_entry_set_frame e new_dir) st) (\<lambda>st.
           Inr (new_dir, snd (virt_mem_switch_directory new_dir st)))))"

definition virt_mem_ptable_clear :: "u32 \<Rightarrow> vm_state \<Rightarrow> (error_t \<times> vm_state) res" where
  "virt_mem_ptable_clear table st =
     res_bind (vmemset_words 1024 table 0 st) (\<lambda>st.
     res_bind (phys_mem_dealloc table (pmem st)) (\<lambda>(err, pm). Inr (ERROR_OK, st\<lparr>pmem := pm\<rparr>)))"

primrec clear_tables :: "nat \<Rightarrow> u32 \<Rightarrow> u32 \<Rightarrow> vm_state \<Rightarrow> (error_t \<times> vm_state) res" where
  "clear_tables 0 i pdir st = Inr (ERROR_OK, st)"
| "clear_tables (Suc n) i pdir st =
     res_bind (vread (pdir + 4 * i) st) (\<lambda>e.
     res_bind (virt_mem_ptable_clear (pd_entry_get_frame e) st) (\<lambda>(err, st).
       if err \<noteq> ERROR_OK then Inr (ERROR_OCCUR, st) else clear_tables n (i + 1) pdir st))"

definition virt_mem_pdirectory_clear :: "u32 \<Rightarrow> vm_state \<Rightarrow> (error_t \<times> vm_state) res" where
  "virt_mem_pdirectory_clear pdir st =
     res_bind (clear_tables 1024 0 pdir st) (\<lambda>(err, st).
       if err \<noteq> ERROR_OK then Inr (ERROR_OCCUR, st)
       else
         res_bind (vmemset_words 1024 pdir 0 st) (\<lambda>st.
         res_bind (phys_mem_dealloc pdir (pmem st)) (\<lambda>(err, pm). Inr (ERROR_OK, st\<lparr>pmem := pm\<rparr>))))"

definition virt_mem_create_address_space :: "vm_state \<Rightarrow> (u32 \<times> vm_state) res" where
  "virt_mem_create_address_space st =
     res_bind (phys_mem_alloc_above_1mb (pmem st)) (\<lambda>(dir, pm).
       let st = st\<lparr>pmem := pm\<rparr> in
       if dir = 0 then Inr (0, st)
       else
         res_bind (virt_mem_set_recursive_table virt_mem_get_self_recursive_table
             virt_mem_get_foreign_recursive_table dir st) (\<lambda>st.
         res_bind (vmemcpy_words 1024 virt_mem_get_foreign_directory
             (virt_mem_get_directory virt_mem_get_self_recursive_table) st) (\<lambda>st.
         res_bind (virt_mem_set_recursive_table virt_mem_get_foreign_recursive_table
             virt_mem_get_self_recursive_table dir st) (\<lambda>st. Inr (dir, st)))))"

primrec count_tables :: "nat \<Rightarrow> u32 \<Rightarrow> u32 \<Rightarrow> u32 \<Rightarrow> vm_state \<Rightarrow> u32 res" where
  "count_tables 0 i count pdir st = Inr count"
| "count_tables (Suc n) i count pdir st =
     res_bind (vread (pdir + 4 * i) st) (\<lambda>e.
       count_tables n (i + 1) (if pd_entry_is_present e \<noteq> 0 then count + 1 else count) pdir st)"

definition virt_mem_count_present_tables :: "u32 \<Rightarrow> vm_state \<Rightarrow> u32 res" where
  "virt_mem_count_present_tables pdir st = count_tables 1024 0 0 pdir st"

text \<open>
  alloc_perm of mem_alloc.c: \<open>mem_current\<close> is its static variable, \<open>kernel_end\<close> the linker's
  symbol.
\<close>

definition alloc_perm :: "u32 \<Rightarrow> u32 \<Rightarrow> vm_state \<Rightarrow> (u32 \<times> u32 \<times> vm_state) res" where
  "alloc_perm kernel_end mem_current st =
     res_bind (if mem_current = 0
               then res_bind (ceil_division kernel_end virt_mem_get_page_size)
                      (\<lambda>q. Inr (q * virt_mem_get_page_size))
               else Inr mem_current) (\<lambda>temp.
       let mem_current = temp + virt_mem_get_page_size in
       res_bind (virt_mem_alloc_page temp st) (\<lambda>(err, st).
         if err \<noteq> ERROR_OK then Inl (Panic ''Cannot allocate kernel memory'')
         else Inr (temp, mem_current, st)))"

end
