(* ===== verification/Virt_Props.thy ===== *)
theory Virt_Props
  imports Virt_Mem
begin

text \<open>
  The virtual memory manager keeps the page tables it works on: what mapping, unmapping and
  allocating a page do to the translation of every address.
\<close>

section \<open>The invariant of an address space\<close>

text \<open>
  The directory is its own entry 768; it and the tables it points to are different frames that
  the physical memory manager counts as used; the physical memory manager is ready.
\<close>

abbreviation pde :: "vm_state \<Rightarrow> nat \<Rightarrow> u32" where
  "pde st i \<equiv> pde_at (ram st) (cr3 st) i"

abbreviation table_frame :: "vm_state \<Rightarrow> nat \<Rightarrow> u32" where
  "table_frame st i \<equiv> pd_entry_get_frame (pde st i)"

definition pt_inv :: "vm_state \<Rightarrow> bool" where
  "pt_inv st \<longleftrightarrow> recursive (ram st) (cr3 st) \<and> pm_ready (pmem st) \<and>
     frame_of (cr3 st) \<in> used_below (pmem st) \<and>
     (\<forall>i < 1024. i \<noteq> 768 \<longrightarrow> bit (pde st i) 0 \<longrightarrow>
        frame_of (table_frame st i) \<in> used_below (pmem st) \<and> table_frame st i \<noteq> cr3 st) \<and>
     (\<forall>i < 1024. \<forall>j < 1024. i \<noteq> 768 \<longrightarrow> j \<noteq> 768 \<longrightarrow> bit (pde st i) 0 \<longrightarrow> bit (pde st j) 0 \<longrightarrow>
        table_frame st i = table_frame st j \<longrightarrow> i = j)"

lemma pt_inv_recursive: "pt_inv st \<Longrightarrow> recursive (ram st) (cr3 st) \<and> frame_aligned (cr3 st)"
  by (simp add: pt_inv_def recursive_def)

lemma pt_inv_table:
  "pt_inv st \<Longrightarrow> l < 1024 \<Longrightarrow> l \<noteq> 768 \<Longrightarrow> bit (pde st l) 0 \<Longrightarrow>
   frame_of (table_frame st l) \<in> used_below (pmem st) \<and> table_frame st l \<noteq> cr3 st"
  unfolding pt_inv_def by blast

lemma pt_inv_inj:
  "pt_inv st \<Longrightarrow> l < 1024 \<Longrightarrow> k < 1024 \<Longrightarrow> l \<noteq> 768 \<Longrightarrow> k \<noteq> 768 \<Longrightarrow> bit (pde st l) 0 \<Longrightarrow>
   bit (pde st k) 0 \<Longrightarrow> table_frame st l = table_frame st k \<Longrightarrow> l = k"
  unfolding pt_inv_def by blast

text \<open>
  Frames that hold no table.  An operation on the tables leaves those as they are which it did
  not take for itself.
\<close>

definition data_frame :: "vm_state \<Rightarrow> u32 \<Rightarrow> bool" where
  "data_frame st f \<longleftrightarrow> frame_aligned f \<and> f \<noteq> cr3 st \<and>
     (\<forall>i < 1024. i \<noteq> 768 \<longrightarrow> bit (pde st i) 0 \<longrightarrow> table_frame st i \<noteq> f)"

definition keeps_data :: "vm_state \<Rightarrow> vm_state \<Rightarrow> bool" where
  "keeps_data st st' \<longleftrightarrow> (\<forall>f. data_frame st f \<longrightarrow> frame_of f \<notin> used_below (pmem st') - used_below (pmem st) \<longrightarrow>
     data_frame st' f \<and> (\<forall>k < 1024. ram st' (f + 4 * of_nat k) = ram st (f + 4 * of_nat k)))"

lemma keeps_data_trans:
  assumes "keeps_data st st1" "keeps_data st1 st2" "used_below (pmem st) \<subseteq> used_below (pmem st1)"
    "used_below (pmem st1) \<subseteq> used_below (pmem st2)"
  shows "keeps_data st st2"
  unfolding keeps_data_def
proof (intro allI impI)
  fix f assume f: "data_frame st f" "frame_of f \<notin> used_below (pmem st2) - used_below (pmem st)"
  then have "frame_of f \<notin> used_below (pmem st1) - used_below (pmem st)" using assms(4) by blast
  then have one: "data_frame st1 f" "\<forall>k < 1024. ram st1 (f + 4 * of_nat k) = ram st (f + 4 * of_nat k)"
    using assms(1) f(1) unfolding keeps_data_def by blast+
  moreover have "frame_of f \<notin> used_below (pmem st2) - used_below (pmem st1)" using f(2) assms(3) by blast
  ultimately show "data_frame st2 f \<and> (\<forall>k < 1024. ram st2 (f + 4 * of_nat k) = ram st (f + 4 * of_nat k))"
    using assms(2) unfolding keeps_data_def by simp
qed

lemma keeps_data_used:
  assumes "keeps_data st st'" "data_frame st f" "frame_of f \<in> used_below (pmem st)"
  shows "data_frame st' f" "k < 1024 \<Longrightarrow> ram st' (f + 4 * of_nat k) = ram st (f + 4 * of_nat k)"
  using assms unfolding keeps_data_def by auto

lemma frame_aligned_mod: "frame_aligned a \<longleftrightarrow> unat a mod 4096 = 0"
proof -
  have "frame_aligned a \<longleftrightarrow> take_bit 12 a = 0" by (simp add: frame_aligned_def take_bit_eq_mask)
  also have "\<dots> \<longleftrightarrow> unat a mod 4096 = 0"
    by (simp add: take_bit_eq_mod word_unat_eq_iff word_nat)
  finally show ?thesis .
qed

lemma frame_of_eq: "frame_aligned a \<Longrightarrow> frame_aligned b \<Longrightarrow> frame_of a = frame_of b \<Longrightarrow> a = b"
  unfolding frame_aligned_mod word_unat_eq_iff by (metis div_mod_decomp)

lemma same_page: "frame_of va = frame_of vb \<longleftrightarrow> dir_index va = dir_index vb \<and> tab_index va = tab_index vb"
proof -
  have d: "dir_index x = frame_of x div 1024" for x
    by (simp add: dir_index_def flip: div_mult2_eq)
  have f: "frame_of x = dir_index x * 1024 + tab_index x" for x
    by (simp add: d tab_index_def)
  show ?thesis
  proof
    assume "frame_of va = frame_of vb"
    then show "dir_index va = dir_index vb \<and> tab_index va = tab_index vb"
      unfolding d tab_index_def by simp
  next
    assume "dir_index va = dir_index vb \<and> tab_index va = tab_index vb"
    then show "frame_of va = frame_of vb" unfolding f by simp
  qed
qed

section \<open>Accesses through the windows\<close>

lemma pde_write:
  assumes "frame_aligned f" "frame_aligned dir" "k < 1024" "l < 1024"
  shows "pde_at (r(f + 4 * of_nat k := w)) dir l = (if f = dir \<and> k = l then w else pde_at r dir l)"
  using entry_eq_iff [OF assms(1,2,3,4)] assms(2) by (auto simp: pde_at_def)

lemma recursive_write:
  assumes "frame_aligned f" "k < 1024" "f \<noteq> dir \<or> k \<noteq> 768" "recursive r dir"
  shows "recursive (r(f + 4 * of_nat k := w)) dir"
  using assms by (auto simp: recursive_def pde_write)

lemma vread_window:
  assumes "recursive (ram st) (cr3 st)" "i < 1024" "j < 1024" "bit (pde st i) 0"
  shows "vread (window i j) st = Inr (ram st (table_frame st i + 4 * of_nat j))"
  using assms by (simp add: vread_def translate_window)

lemma vwrite_window:
  assumes "recursive (ram st) (cr3 st)" "i < 1024" "j < 1024" "bit (pde st i) 0"
  shows "vwrite (window i j) w st =
    Inr (st\<lparr>ram := (ram st)(table_frame st i + 4 * of_nat j := w)\<rparr>)"
  using assms by (simp add: vwrite_def translate_window)

lemma vread_directory:
  assumes "recursive (ram st) (cr3 st)" "j < 1024"
  shows "vread (window 768 j) st = Inr (pde st j)"
  using translate_directory_window [OF assms] assms(1) by (simp add: vread_def pde_at_def recursive_def)

lemma vwrite_directory:
  assumes "recursive (ram st) (cr3 st)" "j < 1024"
  shows "vwrite (window 768 j) w st = Inr (st\<lparr>ram := (ram st)(cr3 st + 4 * of_nat j := w)\<rparr>)"
  using assms by (simp add: vwrite_def translate_directory_window)

lemma entry_pointers:
  "virt_mem_get_page_table_entry (virt_mem_get_page_table 0xC0000000 va) va = window (dir_index va) (tab_index va)"
  "virt_mem_get_page_directory_entry (virt_mem_get_directory 0xC0000000) va = window 768 (dir_index va)"
proof -
  show "virt_mem_get_page_table_entry (virt_mem_get_page_table 0xC0000000 va) va = window (dir_index va) (tab_index va)"
    using window_nonzero [of "dir_index va" 0]
    by (simp add: virt_mem_get_page_table_entry_def page_table_window page_index_eq) (simp add: window_def)
  show "virt_mem_get_page_directory_entry (virt_mem_get_directory 0xC0000000) va = window 768 (dir_index va)"
    using window_nonzero [of 768 0]
    by (simp add: virt_mem_get_page_directory_entry_def directory_window page_table_index_eq) (simp add: window_def)
qed

text \<open>The second half of a mapping: one entry of one table changes.\<close>

lemma set_page_ok:
  assumes rec: "recursive (ram st) (cr3 st)" and p: "bit (pde st (dir_index va)) 0"
    and ne: "table_frame st (dir_index va) \<noteq> cr3 st"
    and ph: "frame_aligned phys" and fl: "unat fl < 4096"
  shows "set_page 0xC0000000 phys va fl st = Inr (ERROR_OK,
    st\<lparr>ram := (ram st)(table_frame st (dir_index va) + 4 * of_nat (tab_index va) := phys OR fl)\<rparr>)"
proof -
  let ?i = "dir_index va" and ?j = "tab_index va"
  let ?a = "table_frame st ?i + 4 * of_nat ?j"
  have al: "frame_aligned (cr3 st)" using rec by (simp add: recursive_def)
  have step: "recursive ((ram st)(?a := w)) (cr3 st)"
    "pde_at ((ram st)(?a := w)) (cr3 st) ?i = pde st ?i" for w
    using recursive_write [of "table_frame st ?i" ?j "cr3 st" "ram st"] rec ne al
    by (simp_all add: pde_write)
  have acc: "vread (window ?i ?j) (st\<lparr>ram := (ram st)(?a := w)\<rparr>) = Inr w"
    "vwrite (window ?i ?j) x (st\<lparr>ram := (ram st)(?a := w)\<rparr>) = Inr (st\<lparr>ram := (ram st)(?a := x)\<rparr>)" for w x
    using step [of w] p vread_window [of "st\<lparr>ram := (ram st)(?a := w)\<rparr>" ?i ?j]
      vwrite_window [of "st\<lparr>ram := (ram st)(?a := w)\<rparr>" ?i ?j x] by simp_all
  show ?thesis
    using rec p acc by (simp add: set_page_def entry_pointers window_nonzero vwrite_window vupdate_def
        pt_entry_set_frame_def pt_entry_add_attrib_def Let_def)
qed

text \<open>Clearing a fresh table.\<close>

definition zeroed :: "u32 \<Rightarrow> nat \<Rightarrow> nat \<Rightarrow> phys_ram \<Rightarrow> phys_ram" where
  "zeroed t j n r = (\<lambda>a. if \<exists>k. j \<le> k \<and> k < j + n \<and> a = t + 4 * of_nat k then 0 else r a)"

lemma zeroed_0 [simp]: "zeroed t j 0 r = r"
  unfolding zeroed_def by (rule ext) auto

lemma zeroed_Suc: "zeroed t (Suc j) n (r(t + 4 * of_nat j := 0)) = zeroed t j (Suc n) r"
proof
  fix a
  have "(\<exists>k. j \<le> k \<and> k < j + Suc n \<and> a = t + 4 * of_nat k) \<longleftrightarrow>
      a = t + 4 * of_nat j \<or> (\<exists>k. Suc j \<le> k \<and> k < Suc j + n \<and> a = t + 4 * of_nat k)"
    by (metis Suc_leD Suc_leI add_Suc_right add_Suc_shift le_add1 le_imp_less_Suc le_neq_implies_less order_refl)
  then show "zeroed t (Suc j) n (r(t + 4 * of_nat j := 0)) a = zeroed t j (Suc n) r a"
    by (auto simp: zeroed_def)
qed

lemma vmemset_table:
  assumes "recursive (ram st) (cr3 st)" "i < 1024" "bit (pde st i) 0" "table_frame st i = t" "t \<noteq> cr3 st"
    "j + n \<le> 1024"
  shows "vmemset_words n (window i j) 0 st = Inr (st\<lparr>ram := zeroed t j n (ram st)\<rparr>)"
  using assms
proof (induction n arbitrary: j st)
  case (Suc n)
  define r where "r = (ram st)(t + 4 * of_nat j := 0)"
  have t: "frame_aligned t" using Suc.prems(4) by auto
  have al: "frame_aligned (cr3 st)" using Suc.prems(1) by (simp add: recursive_def)
  have rec: "recursive r (cr3 st)"
    unfolding r_def by (rule recursive_write [OF t]) (use Suc.prems in simp_all)
  have same: "pde_at r (cr3 st) i = pde st i"
    unfolding r_def using pde_write [OF t al, of j i "ram st" 0] Suc.prems by simp
  have "vmemset_words n (window i (Suc j)) 0 (st\<lparr>ram := r\<rparr>) =
      Inr (st\<lparr>ram := r\<rparr>\<lparr>ram := zeroed t (Suc j) n (ram (st\<lparr>ram := r\<rparr>))\<rparr>)"
    by (rule Suc.IH) (use Suc.prems rec same in simp_all)
  moreover have "vwrite (window i j) 0 st = Inr (st\<lparr>ram := r\<rparr>)"
    using vwrite_window [of st i j 0] Suc.prems by (simp add: r_def)
  moreover have "zeroed t (Suc j) n r = zeroed t j (Suc n) (ram st)"
    unfolding r_def by (rule zeroed_Suc)
  ultimately show ?case by (simp add: window_next)
qed simp

section \<open>Creating a table\<close>

definition new_pde :: "u32 \<Rightarrow> u32 \<Rightarrow> u32 \<Rightarrow> u32" where
  "new_pde e t fl = pd_entry_add_attrib (pd_entry_set_frame e t) fl"

lemma new_pde_props:
  assumes "frame_aligned t" "unat fl < 4096" "bit fl 0"
  shows "pd_entry_get_frame (new_pde e t fl) = t" "bit (new_pde e t fl) 0"
proof -
  have eq: "new_pde e t fl = t OR ((e AND mask 12) OR fl)"
    unfolding new_pde_def pd_entry_add_attrib_def pd_entry_set_frame_def frame_mask
    by (rule bit_word_eqI) (auto simp: bit_simps)
  have "(e AND mask 12) OR fl = take_bit 12 ((e AND mask 12) OR fl)"
  proof -
    have "take_bit 12 fl = fl"
      using assms(2) by (simp add: take_bit_eq_mod word_unat_eq_iff word_nat)
    then show ?thesis by (simp add: take_bit_or flip: take_bit_eq_mask)
  qed
  moreover have "unat (take_bit 12 x) < 4096" for x :: u32
    by (simp add: take_bit_eq_mod word_nat)
  ultimately have "unat ((e AND mask 12) OR fl) < 4096" by metis
  with assms entry_frame_flags [OF assms(1), of "(e AND mask 12) OR fl"]
  show "pd_entry_get_frame (new_pde e t fl) = t" "bit (new_pde e t fl) 0"
    unfolding eq by (simp_all add: bit_or_iff)
qed

lemma create_table_ok:
  assumes inv: "pt_inv st" and i: "dir_index va \<noteq> 768" and np: "\<not> bit (pde st (dir_index va)) 0"
    and al: "phys_mem_alloc_above_1mb (pmem st) = Inr (t, pm)" "t \<noteq> 0"
    and fl: "unat fl < 4096" "bit fl 0"
  shows "virt_mem_create_table 0xC0000000 va fl st = Inr (ERROR_OK,
    st\<lparr>pmem := pm, ram := zeroed t 0 1024
      ((ram st)(cr3 st + 4 * of_nat (dir_index va) := new_pde (pde st (dir_index va)) t fl))\<rparr>)"
    and "frame_aligned t" "frame_of t \<notin> used_below (pmem st)" "t \<noteq> cr3 st"
    "pm_ready pm" "used_below pm = insert (frame_of t) (used_below (pmem st))"
proof -
  let ?i = "dir_index va" and ?e = "pde st (dir_index va)"
  have ready: "pm_ready (pmem st)" using inv by (simp add: pt_inv_def)
  from pmem_1mb.alloc_takes [OF ready al] have t: "unat t mod 4096 = 0"
    and fresh: "frame_of t \<notin> used_below (pmem st)"
    and pm: "pm_ready pm" "used_below pm = insert (frame_of t) (used_below (pmem st))" by auto
  show ta: "frame_aligned t" using t by (simp add: frame_aligned_mod)
  show "frame_of t \<notin> used_below (pmem st)" "pm_ready pm"
    "used_below pm = insert (frame_of t) (used_below (pmem st))" by fact+
  show tc: "t \<noteq> cr3 st" using fresh inv by (auto simp: pt_inv_def)
  have rec: "recursive (ram st) (cr3 st)" "frame_aligned (cr3 st)" using pt_inv_recursive [OF inv] by simp_all
  note e' = new_pde_props [OF ta fl, of ?e]
  let ?a = "cr3 st + 4 * of_nat ?i"
  define r where "r w = (ram st)(?a := w)" for w
  have recr: "recursive (r w) (cr3 st)" for w
    unfolding r_def by (rule recursive_write [OF rec(2)]) (use i rec in simp_all)
  have pder: "pde_at (r w) (cr3 st) ?i = w" for w
    unfolding r_def using pde_write [OF rec(2,2), of ?i ?i "ram st" w] by simp
  have rr: "(r w)(?a := x) = r x" for w x by (simp add: r_def)
  let ?s = "\<lambda>w. st\<lparr>pmem := pm, ram := r w\<rparr>"
  have rd: "vread (window 768 ?i) (?s w) = Inr w" for w
    using vread_directory [of "?s w" ?i] recr pder by simp
  have wr: "vwrite (window 768 ?i) x (?s w) = Inr (?s x)" for w x
    using vwrite_directory [of "?s w" ?i x] recr by (simp add: rr)
  have rd0: "vread (window 768 ?i) (st\<lparr>pmem := pm\<rparr>) = Inr ?e"
    using vread_directory [of "st\<lparr>pmem := pm\<rparr>" ?i] rec by simp
  have wr0: "vwrite (window 768 ?i) x (st\<lparr>pmem := pm\<rparr>) = Inr (?s x)" for x
    using vwrite_directory [of "st\<lparr>pmem := pm\<rparr>" ?i x] rec by (simp add: r_def)
  have ms: "vmemset_words 1024 (window ?i 0) 0 (?s (new_pde ?e t fl)) =
      Inr ((?s (new_pde ?e t fl))\<lparr>ram := zeroed t 0 1024 (ram (?s (new_pde ?e t fl)))\<rparr>)"
    by (rule vmemset_table) (use recr pder e' tc in simp_all)
  show "virt_mem_create_table 0xC0000000 va fl st = Inr (ERROR_OK,
    st\<lparr>pmem := pm, ram := zeroed t 0 1024 ((ram st)(?a := new_pde ?e t fl))\<rparr>)"
    using al ms
    by (simp add: virt_mem_create_table_def entry_pointers window_nonzero vupdate_def rd0 wr0 rd wr
        page_table_window flip: new_pde_def r_def)
qed

section \<open>Mapping a page\<close>

lemma zeroed_read:
  assumes "frame_aligned t" "frame_aligned f" "k < 1024"
  shows "zeroed t 0 1024 r (f + 4 * of_nat k) = (if f = t then 0 else r (f + 4 * of_nat k))"
  using assms entry_eq_iff [OF assms(2,1,3)] by (auto simp: zeroed_def)

lemma translate_eq:
  "translate r dir va = (let e = pde_at r dir (dir_index va) in
     if \<not> bit e 0 then None
     else let p = pte_at r e (tab_index va) in
       if \<not> bit p 0 then None else Some (pt_entry_get_frame p + (va AND 0xFFF)))"
  by (simp add: translate_def present_iff Let_def)

text \<open>Setting one entry of an existing table changes the translation of one page.\<close>

lemma set_page_inv:
  fixes w :: u32
  assumes inv: "pt_inv st" and i: "i < 1024" "i \<noteq> 768" "bit (pde st i) 0" and j: "j < 1024"
  defines "st' \<equiv> st\<lparr>ram := (ram st)(table_frame st i + 4 * of_nat j := w)\<rparr>"
  shows "pt_inv st'"
    and "dir_index va \<noteq> 768 \<Longrightarrow> translate (ram st') (cr3 st) va =
      (if dir_index va = i \<and> tab_index va = j
       then (if bit w 0 then Some (pt_entry_get_frame w + (va AND 0xFFF)) else None)
       else translate (ram st) (cr3 st) va)"
    and "keeps_data st st'"
proof -
  let ?f = "table_frame st i"
  have rec: "recursive (ram st) (cr3 st)" "frame_aligned (cr3 st)" using pt_inv_recursive [OF inv] by simp_all
  have ne: "?f \<noteq> cr3 st" using inv i by (simp add: pt_inv_def)
  have same: "pde st' l = pde st l" if "l < 1024" for l
    unfolding st'_def using pde_write [of ?f "cr3 st" j l "ram st" w] rec ne j that by simp
  have rec': "recursive (ram st') (cr3 st')"
    unfolding st'_def using recursive_write [of ?f j "cr3 st" "ram st" w] rec ne j by simp
  show "pt_inv st'"
    using inv rec' same unfolding pt_inv_def by (simp add: st'_def)
  have "ram st' (f + 4 * of_nat k) = ram st (f + 4 * of_nat k)" if "data_frame st f" "k < 1024" for f k
    using that i entry_eq_iff [of f ?f k j] j by (auto simp: data_frame_def st'_def)
  moreover have "data_frame st' f \<longleftrightarrow> data_frame st f" for f using same by (simp add: data_frame_def st'_def)
  ultimately show "keeps_data st st'" by (simp add: keeps_data_def)
  show "translate (ram st') (cr3 st) va =
      (if dir_index va = i \<and> tab_index va = j
       then (if bit w 0 then Some (pt_entry_get_frame w + (va AND 0xFFF)) else None)
       else translate (ram st) (cr3 st) va)" if d: "dir_index va \<noteq> 768"
  proof -
    have pd: "pde_at (ram st') (cr3 st) (dir_index va) = pde st (dir_index va)"
      using same [of "dir_index va"] by (simp add: st'_def)
    have pt: "pte_at (ram st') (pde st (dir_index va)) (tab_index va) =
        (if dir_index va = i \<and> tab_index va = j then w
         else pte_at (ram st) (pde st (dir_index va)) (tab_index va))"
      if "bit (pde st (dir_index va)) 0"
    proof -
      have "table_frame st (dir_index va) = ?f \<longleftrightarrow> dir_index va = i"
        using inv i d that dir_index_less [of va] unfolding pt_inv_def by blast
      then show ?thesis
        using entry_eq_iff [of "table_frame st (dir_index va)" ?f "tab_index va" j] j
        by (auto simp: pte_at_def st'_def)
    qed
    show ?thesis using pd pt i(3) by (auto simp: translate_eq Let_def)
  qed
qed

text \<open>A fresh table changes no translation.\<close>

lemma create_table_inv:
  assumes inv: "pt_inv st" and i: "i < 1024" "i \<noteq> 768" "\<not> bit (pde st i) 0"
    and t: "frame_aligned t" "frame_of t \<notin> used_below (pmem st)" "t \<noteq> cr3 st"
    and pm: "pm_ready pm" "used_below pm = insert (frame_of t) (used_below (pmem st))"
    and e: "pd_entry_get_frame e = t" "bit e 0"
  defines "st' \<equiv> st\<lparr>pmem := pm, ram := zeroed t 0 1024 ((ram st)(cr3 st + 4 * of_nat i := e))\<rparr>"
  shows "pt_inv st'" "pde st' i = e"
    and "dir_index va \<noteq> 768 \<Longrightarrow> translate (ram st') (cr3 st) va = translate (ram st) (cr3 st) va"
    and "keeps_data st st'"
proof -
  have rec: "recursive (ram st) (cr3 st)" "frame_aligned (cr3 st)" using pt_inv_recursive [OF inv] by simp_all
  have read: "ram st' (f + 4 * of_nat k) =
      (if f = t then 0 else if f = cr3 st \<and> k = i then e else ram st (f + 4 * of_nat k))"
    if "frame_aligned f" "k < 1024" for f k
    using zeroed_read [OF t(1) that] entry_eq_iff [OF that(1) rec(2) that(2) i(1)]
    by (simp add: st'_def)
  have pd: "pde_at (ram st') (cr3 st) l = (if l = i then e else pde st l)" if "l < 1024" for l
    using read [OF rec(2) that] rec(2) t(3) by (simp add: pde_at_def)
  have cr: "cr3 st' = cr3 st" "pmem st' = pm" by (simp_all add: st'_def)
  show "pde st' i = e" using pd [OF i(1)] cr by simp
  have fresh: "table_frame st l \<noteq> t" if "l < 1024" "l \<noteq> 768" "bit (pde st l) 0" for l
    using inv that t(2) by (auto simp: pt_inv_def)
  show "keeps_data st st'"
    unfolding keeps_data_def
  proof (intro allI impI)
    fix f assume f: "data_frame st f" "frame_of f \<notin> used_below (pmem st') - used_below (pmem st)"
    then have "frame_of f \<noteq> frame_of t" using t(2) unfolding cr pm(2) by auto
    then have ne: "f \<noteq> t" "f \<noteq> cr3 st" "frame_aligned f" using f(1) by (auto simp: data_frame_def)
    have eq: "pde st' l = (if l = i then e else pde st l)" if "l < 1024" for l using pd [OF that] cr by simp
    have "table_frame st' l \<noteq> f" if l: "l < 1024" "l \<noteq> 768" "bit (pde st' l) 0" for l
      using f(1) ne(1) e l unfolding data_frame_def eq [OF l(1)] by (cases "l = i") auto
    then have "data_frame st' f" using ne cr by (simp add: data_frame_def)
    moreover have "ram st' (f + 4 * of_nat k) = ram st (f + 4 * of_nat k)" if "k < 1024" for k
      using read [OF ne(3) that] ne(1,2) by simp
    ultimately show "data_frame st' f \<and> (\<forall>k < 1024. ram st' (f + 4 * of_nat k) = ram st (f + 4 * of_nat k))" by blast
  qed
  have "recursive (ram st') (cr3 st)" using rec i by (simp add: recursive_def pd)
  moreover have "frame_of (cr3 st) \<in> used_below pm" using inv pm(2) by (simp add: pt_inv_def)
  moreover have "frame_of (table_frame st' l) \<in> used_below pm \<and> table_frame st' l \<noteq> cr3 st"
    if "l < 1024" "l \<noteq> 768" "bit (pde st' l) 0" for l
  proof (cases "l = i")
    case True
    with e t(3) pm(2) pd [OF that(1)] show ?thesis by (simp add: cr)
  next
    case False
    have eq: "pde st' l = pde st l" using False pd [OF that(1)] by (simp add: cr)
    show ?thesis using pt_inv_table [OF inv that(1,2)] that(3) pm(2) unfolding eq by simp
  qed
  moreover have "l = k" if "l < 1024" "k < 1024" "l \<noteq> 768" "k \<noteq> 768" "bit (pde st' l) 0" "bit (pde st' k) 0"
    "table_frame st' l = table_frame st' k" for l k
  proof -
    have eq: "pde st' x = pde st x" if "x < 1024" "x \<noteq> i" for x using pd [OF that(1)] that(2) by (simp add: cr)
    have new: "table_frame st' i = t" using pd [OF i(1)] e(1) by (simp add: cr)
    have other: "table_frame st' x \<noteq> t" if x: "x < 1024" "x \<noteq> 768" "bit (pde st' x) 0" "x \<noteq> i" for x
      using fresh [OF x(1,2)] x(3) unfolding eq [OF x(1,4)] by simp
    show ?thesis
    proof (cases "l = i \<or> k = i")
      case True
      with that other [of l] other [of k] new show ?thesis by metis
    next
      case False
      then have "l \<noteq> i" "k \<noteq> i" by simp_all
      with that show ?thesis
        using pt_inv_inj [OF inv that(1-4)] eq [of l] eq [of k] by simp
    qed
  qed
  ultimately show "pt_inv st'" using pm(1) unfolding pt_inv_def cr by blast
  show "translate (ram st') (cr3 st) va = translate (ram st) (cr3 st) va" if d: "dir_index va \<noteq> 768"
  proof (cases "dir_index va = i")
    case True
    have "pte_at (ram st') e (tab_index va) = 0"
      using read [OF t(1), of "tab_index va"] e(1) by (simp add: pte_at_def)
    moreover have "pde_at (ram st') (cr3 st) i = e" using pd [OF i(1)] by simp
    ultimately have "translate (ram st') (cr3 st) va = None"
      unfolding translate_eq Let_def True by (simp only: bit_0_eq bot_apply) simp
    moreover have "translate (ram st) (cr3 st) va = None"
      using True i(3) by (simp add: translate_eq Let_def)
    ultimately show ?thesis by simp
  next
    case False
    have "pte_at (ram st') (pde st (dir_index va)) (tab_index va) =
        pte_at (ram st) (pde st (dir_index va)) (tab_index va)" if "bit (pde st (dir_index va)) 0"
    proof -
      have "table_frame st (dir_index va) \<noteq> t" "table_frame st (dir_index va) \<noteq> cr3 st"
        using fresh [of "dir_index va"] inv d that by (auto simp: pt_inv_def)
      then show ?thesis using read [of "table_frame st (dir_index va)" "tab_index va"]
        by (simp add: pte_at_def)
    qed
    with False show ?thesis by (auto simp: translate_eq pd Let_def)
  qed
qed

text \<open>Mapping takes at most one frame, for the table.\<close>

lemma map_page_frames:
  assumes inv: "pt_inv st" and v: "dir_index virt \<noteq> 768" and ph: "frame_aligned phys"
    and fl: "unat fl < 4096" "bit fl 0"
  shows "\<exists>err st'. virt_mem_map_page 0xC0000000 phys virt fl st = Inr (err, st') \<and> cr3 st' = cr3 st \<and>
    (if err = ERROR_OK
     then pt_inv st' \<and> used_below (pmem st) \<subseteq> used_below (pmem st') \<and>
       (pmem st' = pmem st \<or> (\<exists>t. t \<noteq> 0 \<and> phys_mem_alloc_above_1mb (pmem st) = Inr (t, pmem st'))) \<and> keeps_data st st' \<and>
       (\<forall>va. dir_index va \<noteq> 768 \<longrightarrow> translate (ram st') (cr3 st) va =
         (if frame_of va = frame_of virt then Some (phys + (va AND 0xFFF))
          else translate (ram st) (cr3 st) va))
     else err = ERROR_OCCUR \<and> ram st' = ram st \<and>
       phys_mem_alloc_above_1mb (pmem st) = Inr (0, pmem st') \<and> \<not> bit (pde st (dir_index virt)) 0)"
proof -
  let ?i = "dir_index virt" and ?j = "tab_index virt"
  have rec: "recursive (ram st) (cr3 st)" using pt_inv_recursive [OF inv] by simp
  have rd: "vread (window 768 ?i) st = Inr (pde st ?i)" using vread_directory [OF rec] by simp
  note w = entry_frame_flags [OF ph fl(1)]
  have finish: "\<exists>st'. set_page 0xC0000000 phys virt fl s = Inr (ERROR_OK, st') \<and> cr3 st' = cr3 s \<and> pt_inv st' \<and>
      pmem st' = pmem s \<and> keeps_data s st' \<and> (\<forall>va. dir_index va \<noteq> 768 \<longrightarrow> translate (ram st') (cr3 s) va =
         (if frame_of va = frame_of virt then Some (phys + (va AND 0xFFF)) else translate (ram s) (cr3 s) va))"
    if s: "pt_inv s" "bit (pde s ?i) 0" for s
  proof -
    let ?s = "s\<lparr>ram := (ram s)(table_frame s ?i + 4 * of_nat ?j := phys OR fl)\<rparr>"
    have "table_frame s ?i \<noteq> cr3 s" using s v by (simp add: pt_inv_def)
    then have "set_page 0xC0000000 phys virt fl s = Inr (ERROR_OK, ?s)"
      using set_page_ok [OF _ s(2) _ ph fl(1)] pt_inv_recursive [OF s(1)] by blast
    moreover note sp = set_page_inv [OF s(1) dir_index_less v s(2) tab_index_less [of virt], where w = "phys OR fl"]
    have "pt_inv ?s" "keeps_data s ?s" using sp(1,3) by simp_all
    moreover have "translate (ram ?s) (cr3 s) va =
        (if frame_of va = frame_of virt then Some (phys + (va AND 0xFFF)) else translate (ram s) (cr3 s) va)"
      if "dir_index va \<noteq> 768" for va
      using sp(2) [OF that] w fl(2) by (simp add: same_page)
    ultimately show ?thesis by (intro exI [of _ ?s]) simp
  qed
  show ?thesis
  proof (cases "bit (pde st ?i) 0")
    case True
    have "virt_mem_map_page 0xC0000000 phys virt fl st = set_page 0xC0000000 phys virt fl st"
      using rd True by (simp add: virt_mem_map_page_def entry_pointers present_iff)
    with finish [OF inv True] show ?thesis by auto
  next
    case False
    have ready: "pm_ready (pmem st)" using inv by (simp add: pt_inv_def)
    obtain t pm where al: "phys_mem_alloc_above_1mb (pmem st) = Inr (t, pm)"
      using pmem_1mb.alloc_returns [OF ready] by blast
    show ?thesis
    proof (cases "t = 0")
      case True
      have "virt_mem_map_page 0xC0000000 phys virt fl st = Inr (ERROR_OCCUR, st\<lparr>pmem := pm\<rparr>)"
        using rd False al True
        by (simp add: virt_mem_map_page_def entry_pointers present_iff virt_mem_create_table_def
            window_nonzero)
      with True al False show ?thesis by (intro exI [of _ ERROR_OCCUR] exI [of _ "st\<lparr>pmem := pm\<rparr>"]) simp
    next
      case nz: False
      note ct = create_table_ok [OF inv v False al nz fl]
      note e = new_pde_props [OF ct(2) fl, of "pde st ?i"]
      let ?s = "st\<lparr>pmem := pm, ram := zeroed t 0 1024
        ((ram st)(cr3 st + 4 * of_nat ?i := new_pde (pde st ?i) t fl))\<rparr>"
      note ci = create_table_inv [OF inv _ v False ct(2-6) e]
      have p: "bit (pde ?s ?i) 0" using ci(2) e(2) by simp
      have s: "pt_inv ?s" using ci(1) by simp
      have "virt_mem_map_page 0xC0000000 phys virt fl st = set_page 0xC0000000 phys virt fl ?s"
        using rd False ct(1) by (simp add: virt_mem_map_page_def entry_pointers present_iff)
      moreover obtain st' where st': "set_page 0xC0000000 phys virt fl ?s = Inr (ERROR_OK, st')"
        "cr3 st' = cr3 ?s" "pt_inv st'" "pmem st' = pmem ?s" "keeps_data ?s st'"
        "\<forall>va. dir_index va \<noteq> 768 \<longrightarrow> translate (ram st') (cr3 ?s) va =
         (if frame_of va = frame_of virt then Some (phys + (va AND 0xFFF)) else translate (ram ?s) (cr3 ?s) va)"
        using finish [OF s p] by blast
      moreover have "translate (ram ?s) (cr3 st) va = translate (ram st) (cr3 st) va"
        if "dir_index va \<noteq> 768" for va using ci(3) that by simp
      moreover have "keeps_data st st'"
        by (rule keeps_data_trans [OF ci(4) st'(5)]) (use ct(6) st'(4) in auto)
      ultimately show ?thesis using ct(6) al nz
        by (intro exI [of _ ERROR_OK] exI [of _ st']) auto
    qed
  qed
qed

lemma map_page_ok:
  assumes "pt_inv st" "dir_index virt \<noteq> 768" "frame_aligned phys" "unat fl < 4096" "bit fl 0"
  shows "\<exists>err st'. virt_mem_map_page 0xC0000000 phys virt fl st = Inr (err, st') \<and> cr3 st' = cr3 st \<and>
    (if err = ERROR_OK
     then pt_inv st' \<and> used_below (pmem st) \<subseteq> used_below (pmem st') \<and>
       (\<forall>va. dir_index va \<noteq> 768 \<longrightarrow> translate (ram st') (cr3 st) va =
         (if frame_of va = frame_of virt then Some (phys + (va AND 0xFFF))
          else translate (ram st) (cr3 st) va))
     else err = ERROR_OCCUR \<and> ram st' = ram st \<and>
       phys_mem_alloc_above_1mb (pmem st) = Inr (0, pmem st') \<and> \<not> bit (pde st (dir_index virt)) 0)"
proof -
  obtain err st' where r: "virt_mem_map_page 0xC0000000 phys virt fl st = Inr (err, st')" "cr3 st' = cr3 st"
    "if err = ERROR_OK
     then pt_inv st' \<and> used_below (pmem st) \<subseteq> used_below (pmem st') \<and>
       (pmem st' = pmem st \<or> (\<exists>t. t \<noteq> 0 \<and> phys_mem_alloc_above_1mb (pmem st) = Inr (t, pmem st'))) \<and> keeps_data st st' \<and>
       (\<forall>va. dir_index va \<noteq> 768 \<longrightarrow> translate (ram st') (cr3 st) va =
         (if frame_of va = frame_of virt then Some (phys + (va AND 0xFFF))
          else translate (ram st) (cr3 st) va))
     else err = ERROR_OCCUR \<and> ram st' = ram st \<and>
       phys_mem_alloc_above_1mb (pmem st) = Inr (0, pmem st') \<and> \<not> bit (pde st (dir_index virt)) 0"
    using map_page_frames [OF assms] by blast
  then show ?thesis by (intro exI [of _ err] exI [of _ st']) (simp split: if_splits)
qed

section \<open>Looking up and unmapping\<close>

lemma current_directory: "virt_mem_get_current_directory = window 768 0"
  by (simp add: virt_mem_get_current_directory_def virt_mem_get_self_recursive_table_def
      page_table_window dir_index_def)

lemma directory_pointer: "virt_mem_get_page_directory_entry (window 768 0) va = window 768 (dir_index va)"
  using entry_pointers(2) [of va] by (simp add: directory_window)

lemma table_pointer: "virt_mem_get_page_table_entry (window (dir_index va) 0) va = window (dir_index va) (tab_index va)"
  using entry_pointers(1) [of va] by (simp add: page_table_window)

lemma get_phys_addr_eq:
  assumes rec: "recursive (ram st) (cr3 st)"
  shows "virt_mem_get_phys_addr va st =
    (if bit (pde st (dir_index va)) 0
     then Inr (pt_entry_get_frame (pte_at (ram st) (pde st (dir_index va)) (tab_index va)) + (va AND 0xFFF))
     else Inl (Panic ''KERNEL ERROR! BSOD''))"
proof -
  have "vread (window (dir_index va) (tab_index va)) st =
    (if bit (pde st (dir_index va)) 0
     then Inr (pte_at (ram st) (pde st (dir_index va)) (tab_index va))
     else Inl (Panic ''KERNEL ERROR! BSOD''))"
    using rec by (simp add: vread_def translate_window pte_at_def page_fault_handler_def
        page_fault_error_is_user_def)
  then show ?thesis
    by (simp add: virt_mem_get_phys_addr_def current_directory directory_pointer window_nonzero
        virt_mem_get_self_recursive_table_def page_table_window table_pointer Let_def)
qed

lemma is_page_present_eq:
  assumes rec: "recursive (ram st) (cr3 st)"
  shows "virt_mem_is_page_present va st = Inr (translate (ram st) (cr3 st) va \<noteq> None)"
proof -
  have "vread (window 768 (dir_index va)) st = Inr (pde st (dir_index va))"
    by (rule vread_directory [OF rec]) simp
  moreover have "vread (window (dir_index va) (tab_index va)) st =
      Inr (pte_at (ram st) (pde st (dir_index va)) (tab_index va))" if "bit (pde st (dir_index va)) 0"
    using vread_window [OF rec _ _ that] by (simp add: pte_at_def)
  ultimately show ?thesis
    by (simp add: virt_mem_is_page_present_def current_directory directory_pointer window_nonzero
        virt_mem_get_self_recursive_table_def page_table_window table_pointer present_iff translate_eq Let_def)
qed

lemma unmap_page_ok:
  assumes inv: "pt_inv st" and v: "dir_index virt \<noteq> 768" and p: "bit (pde st (dir_index virt)) 0"
  shows "\<exists>st'. virt_mem_unmap_page 0xC0000000 virt st = Inr (ERROR_OK, st') \<and> pt_inv st' \<and>
    cr3 st' = cr3 st \<and> pmem st' = pmem st \<and>
    (\<forall>va. dir_index va \<noteq> 768 \<longrightarrow> translate (ram st') (cr3 st) va =
      (if frame_of va = frame_of virt then None else translate (ram st) (cr3 st) va))"
proof -
  let ?s = "st\<lparr>ram := (ram st)(table_frame st (dir_index virt) + 4 * of_nat (tab_index virt) := 0)\<rparr>"
  have rec: "recursive (ram st) (cr3 st)" using pt_inv_recursive [OF inv] by simp
  have "virt_mem_unmap_page 0xC0000000 virt st = Inr (ERROR_OK, ?s)"
    using vwrite_window [OF rec dir_index_less tab_index_less p]
    by (simp add: virt_mem_unmap_page_def entry_pointers)
  moreover note sp = set_page_inv [OF inv dir_index_less v p tab_index_less [of virt], where w = 0]
  have "pt_inv ?s" by (rule sp(1))
  moreover have "translate (ram ?s) (cr3 st) va =
      (if frame_of va = frame_of virt then None else translate (ram st) (cr3 st) va)"
    if "dir_index va \<noteq> 768" for va
    using sp(2) [OF that] by (simp add: same_page)
  ultimately show ?thesis by (intro exI [of _ ?s]) simp
qed

lemma translate_cong_pmem: "pt_inv (st\<lparr>pmem := pm\<rparr>)"
  if "pt_inv st" "pm_ready pm" "used_below (pmem st) \<subseteq> used_below pm"
proof -
  have "frame_of (table_frame st l) \<in> used_below pm \<and> table_frame st l \<noteq> cr3 st"
    if "l < 1024" "l \<noteq> 768" "bit (pde st l) 0" for l
    using pt_inv_table [OF \<open>pt_inv st\<close> that] \<open>used_below (pmem st) \<subseteq> used_below pm\<close> by blast
  moreover have "frame_of (cr3 st) \<in> used_below pm" using that by (auto simp: pt_inv_def)
  ultimately show ?thesis
    using \<open>pm_ready pm\<close> pt_inv_recursive [OF \<open>pt_inv st\<close>] pt_inv_inj [OF \<open>pt_inv st\<close>]
    unfolding pt_inv_def by simp
qed

section \<open>Properties\<close>

text \<open>
  C4. Mapping a page into the current address space, outside the recursive window, returns.  On
  success exactly the addresses of that page change: they translate to the frame given, every
  other address translates as before, whether or not a page table had to be created; the page
  tables stay well-formed.  It fails only when there is no frame for a needed table.
\<close>

theorem virt_mem_map_page_spec:
  assumes "pt_inv st" "dir_index virt \<noteq> 768" "unat phys mod 4096 = 0" "unat flags < 4096" "bit flags 0"
  shows "\<exists>err st'. virt_mem_map_page virt_mem_get_self_recursive_table phys virt flags st = Inr (err, st') \<and>
    cr3 st' = cr3 st \<and>
    (if err = ERROR_OK
     then pt_inv st' \<and> used_below (pmem st) \<subseteq> used_below (pmem st') \<and>
       (\<forall>va. dir_index va \<noteq> 768 \<longrightarrow> translate (ram st') (cr3 st) va =
         (if frame_of va = frame_of virt then Some (phys + (va AND 0xFFF))
          else translate (ram st) (cr3 st) va))
     else err = ERROR_OCCUR \<and> ram st' = ram st \<and>
       phys_mem_alloc_above_1mb (pmem st) = Inr (0, pmem st') \<and> \<not> bit (pde st (dir_index virt)) 0)"
proof -
  have "frame_aligned phys" using assms(3) by (simp add: frame_aligned_mod)
  from map_page_ok [OF assms(1,2) this assms(4,5)] show ?thesis
    by (simp add: virt_mem_get_self_recursive_table_def)
qed

text \<open>
  C21. Allocating a page, when it succeeds, maps it to a frame that nobody used before and that
  now is used; no other address outside the window changes its translation.  Asked afterwards,
  the kernel reports the page as present and its physical address in that frame.
\<close>

theorem virt_mem_alloc_page_spec:
  assumes inv: "pt_inv st" and v: "dir_index addr \<noteq> 768"
  shows "\<exists>err st'. virt_mem_alloc_page addr st = Inr (err, st') \<and>
    (err = ERROR_OK \<longrightarrow> pt_inv st' \<and>
      (\<exists>phys. unat phys mod 4096 = 0 \<and> frame_of phys \<notin> used_below (pmem st) \<and>
        frame_of phys \<in> used_below (pmem st') \<and>
        (\<forall>va. dir_index va \<noteq> 768 \<longrightarrow> translate (ram st') (cr3 st') va =
          (if frame_of va = frame_of addr then Some (phys + (va AND 0xFFF))
           else translate (ram st) (cr3 st) va)) \<and>
        virt_mem_is_page_present addr st' = Inr True \<and>
        virt_mem_get_phys_addr addr st' = Inr (phys + (addr AND 0xFFF))))"
proof -
  have ready: "pm_ready (pmem st)" using inv by (simp add: pt_inv_def)
  obtain phys pm where al: "phys_mem_alloc_above_1mb (pmem st) = Inr (phys, pm)"
    using pmem_1mb.alloc_returns [OF ready] by blast
  show ?thesis
  proof (cases "phys = 0")
    case True
    with al show ?thesis
      by (simp add: virt_mem_alloc_page_def virt_mem_alloc_page_f_def)
  next
    case False
    have p: "unat phys mod 4096 = 0" "frame_of phys \<notin> used_below (pmem st)" "pm_ready pm"
      "used_below pm = insert (frame_of phys) (used_below (pmem st))"
      using pmem_1mb.alloc_takes [OF ready al False] by auto
    have inv1: "pt_inv (st\<lparr>pmem := pm\<rparr>)" by (rule translate_cong_pmem [OF inv p(3)]) (use p(4) in auto)
    have fl: "unat VIRT_MEM_DEFAULT_PTE_FLAGS < 4096" "bit VIRT_MEM_DEFAULT_PTE_FLAGS 0"
      by (simp_all add: VIRT_MEM_DEFAULT_PTE_FLAGS_def I86_PTE_PRESENT_def I86_PTE_WRITABLE_def bit_simps)
    have fa: "frame_aligned phys" using p(1) by (simp add: frame_aligned_mod)
    from map_page_ok [OF inv1 v fa fl, folded virt_mem_get_self_recursive_table_def] obtain err st'
      where m1: "virt_mem_map_page virt_mem_get_self_recursive_table phys addr
        VIRT_MEM_DEFAULT_PTE_FLAGS (st\<lparr>pmem := pm\<rparr>) = Inr (err, st')" "cr3 st' = cr3 (st\<lparr>pmem := pm\<rparr>)"
      and m2: "if err = ERROR_OK
        then pt_inv st' \<and> used_below (pmem (st\<lparr>pmem := pm\<rparr>)) \<subseteq> used_below (pmem st') \<and>
          (\<forall>va. dir_index va \<noteq> 768 \<longrightarrow> translate (ram st') (cr3 (st\<lparr>pmem := pm\<rparr>)) va =
            (if frame_of va = frame_of addr then Some (phys + (va AND 0xFFF))
             else translate (ram (st\<lparr>pmem := pm\<rparr>)) (cr3 (st\<lparr>pmem := pm\<rparr>)) va))
        else err = ERROR_OCCUR \<and> ram st' = ram (st\<lparr>pmem := pm\<rparr>) \<and>
          phys_mem_alloc_above_1mb (pmem (st\<lparr>pmem := pm\<rparr>)) = Inr (0, pmem st') \<and>
          \<not> bit (pde (st\<lparr>pmem := pm\<rparr>) (dir_index addr)) 0" by blast
    have m: "virt_mem_map_page virt_mem_get_self_recursive_table phys addr
        VIRT_MEM_DEFAULT_PTE_FLAGS (st\<lparr>pmem := pm\<rparr>) = Inr (err, st')" "cr3 st' = cr3 st"
      "err = ERROR_OK \<Longrightarrow> pt_inv st'" "err = ERROR_OK \<Longrightarrow> used_below pm \<subseteq> used_below (pmem st')"
      "err = ERROR_OK \<Longrightarrow> dir_index va \<noteq> 768 \<Longrightarrow> translate (ram st') (cr3 st) va =
         (if frame_of va = frame_of addr then Some (phys + (va AND 0xFFF)) else translate (ram st) (cr3 st) va)" for va
      using m1 m2 by simp_all
    show ?thesis
    proof (cases "err = ERROR_OK")
      case True
      have rec: "recursive (ram st') (cr3 st')" using pt_inv_recursive [OF m(3) [OF True]] by simp
      have tr: "translate (ram st') (cr3 st') addr = Some (phys + (addr AND 0xFFF))"
        using m(2) m(5) [OF True v] by simp
      have "virt_mem_get_phys_addr addr st' = Inr (phys + (addr AND 0xFFF))"
        using tr by (auto simp: get_phys_addr_eq [OF rec] translate_eq Let_def split: if_splits)
      moreover have "virt_mem_is_page_present addr st' = Inr True"
        using tr by (simp add: is_page_present_eq [OF rec])
      moreover have "frame_of phys \<in> used_below (pmem st')" using m(4) [OF True] p(4) by auto
      moreover have "virt_mem_alloc_page addr st = Inr (ERROR_OK, st')"
        using al False m(1) True by (simp add: virt_mem_alloc_page_def virt_mem_alloc_page_f_def)
      ultimately show ?thesis using p(1,2) m(2,3,5) True
        by (intro exI [of _ ERROR_OK] exI [of _ st'] conjI impI exI [of _ phys]) auto
    next
      case False
      then show ?thesis using al \<open>phys \<noteq> 0\<close> m(1)
        by (simp add: virt_mem_alloc_page_def virt_mem_alloc_page_f_def)
    qed
  qed
qed

text \<open>
  C22. Freeing a mapped page whose frame is in use removes exactly that page from the
  translation and gives exactly its frame back.
\<close>

theorem virt_mem_free_page_spec:
  assumes inv: "pt_inv st" and v: "dir_index addr \<noteq> 768"
    and tr: "translate (ram st) (cr3 st) addr = Some pa" "pa \<noteq> 0" "frame_of pa \<in> used_below (pmem st)"
  shows "\<exists>st'. virt_mem_free_page addr st = Inr (ERROR_OK, st') \<and> cr3 st' = cr3 st \<and>
    used_below (pmem st') = used_below (pmem st) - {frame_of pa} \<and> pm_ready (pmem st') \<and>
    (\<forall>va. dir_index va \<noteq> 768 \<longrightarrow> translate (ram st') (cr3 st') va =
      (if frame_of va = frame_of addr then None else translate (ram st) (cr3 st) va))"
proof -
  have rec: "recursive (ram st) (cr3 st)" using pt_inv_recursive [OF inv] by simp
  have p: "bit (pde st (dir_index addr)) 0" using tr(1) by (auto simp: translate_eq Let_def split: if_splits)
  have ph: "virt_mem_get_phys_addr addr st = Inr pa"
    using tr(1) p by (auto simp: get_phys_addr_eq [OF rec] translate_eq Let_def split: if_splits)
  obtain st1 where u: "virt_mem_unmap_page 0xC0000000 addr st = Inr (ERROR_OK, st1)"
    "cr3 st1 = cr3 st" "pmem st1 = pmem st"
    "\<And>va. dir_index va \<noteq> 768 \<Longrightarrow> translate (ram st1) (cr3 st) va =
      (if frame_of va = frame_of addr then None else translate (ram st) (cr3 st) va)"
    using unmap_page_ok [OF inv v p] by blast
  have "pm_ready (pmem st)" using inv by (simp add: pt_inv_def)
  then obtain pm where d: "phys_mem_dealloc pa (pmem st) = Inr (ERROR_OK, pm)" "pm_ready pm"
    "used_below pm = used_below (pmem st) - {frame_of pa}"
    using pmem.dealloc_gives [OF _ tr(3)] by blast
  have "virt_mem_free_page addr st = Inr (ERROR_OK, st1\<lparr>pmem := pm\<rparr>)"
    using ph tr(2) u(1,3) d(1)
    by (simp add: virt_mem_free_page_def virt_mem_get_self_recursive_table_def)
  then show ?thesis using u(2,4) d(2,3) by (intro exI [of _ "st1\<lparr>pmem := pm\<rparr>"]) simp
qed

text \<open>
  Asking for the physical address of an address whose page table does not exist does not
  answer 0: the lookup reads the missing table and ends in the kernel's page fault panic.
\<close>

theorem virt_mem_get_phys_addr_no_table:
  assumes "pt_inv st" "\<not> bit (pde st (dir_index addr)) 0"
  shows "virt_mem_get_phys_addr addr st = Inl (Panic ''KERNEL ERROR! BSOD'') \<and>
    virt_mem_free_page addr st = Inl (Panic ''KERNEL ERROR! BSOD'') \<and>
    virt_mem_is_page_present addr st = Inr False"
  using pt_inv_recursive [OF assms(1)] assms(2)
  by (simp add: get_phys_addr_eq is_page_present_eq virt_mem_free_page_def translate_eq)

section \<open>Witnesses\<close>

text \<open>
  A machine with 512 blocks: the directory in block 256, a table for the second 4 MB in block
  257, and one page mapped to block 258.
\<close>

definition vm_machine :: vm_state where
  "vm_machine = \<lparr>ram = (\<lambda>_. 0)(0x100C00 := 0x100003, 0x100004 := 0x101003, 0x101000 := 0x102003),
     cr3 = 0x100000,
     pmem = \<lparr>phys_mem_memory_size = 2048, phys_mem_used_blocks = 3, phys_mem_max_blocks = 512,
       phys_mem_bitmap_base = 0x200000, phys_mem_bitmap = (replicate 16 0)[8 := 7], phys_mem_lock = 0\<rparr>\<rparr>"

lemma bit_seven_u32: "bit (7::u32) k \<longleftrightarrow> k < 3"
proof -
  have "bit (mask 3 :: u32) k \<longleftrightarrow> k < 3" unfolding bit_mask_iff possible_bit_word by auto
  moreover have "mask 3 = (7::u32)" by (simp add: mask_eq_exp_minus_1)
  ultimately show ?thesis by (simp only:)
qed

lemma vm_machine_used: "used_below (pmem vm_machine) = {256, 257, 258}"
proof -
  have "block_used (pmem vm_machine) b \<longleftrightarrow> b \<in> {256, 257, 258}" if "b < 512" for b
  proof (cases "b div 32 = 8")
    case True
    then have "b = 256 + b mod 32" using div_mult_mod_eq [of b 32] by simp
    moreover have "block_used (pmem vm_machine) b \<longleftrightarrow> b mod 32 < 3"
      using True that bit_seven_u32 [of "b mod 32"] by (simp add: block_used_def vm_machine_def)
    ultimately show ?thesis by auto
  next
    case False
    then have "b \<notin> {256, 257, 258}" by auto
    moreover have "b div 32 < 16" using that by (simp add: div_less_iff_less_mult)
    ultimately show ?thesis using False by (auto simp: block_used_def vm_machine_def nth_list_update)
  qed
  then show ?thesis by (auto simp: used_below_def) (simp_all add: vm_machine_def)
qed

lemma vm_machine_ready: "pm_ready (pmem vm_machine)"
  unfolding pm_ready_def pm_inv_def vm_machine_used by (simp add: vm_machine_def)

text \<open>The same machine with the page at another place: entry \<open>t\<close> of the table of directory entry \<open>d\<close>.\<close>

definition small_machine :: "nat \<Rightarrow> nat \<Rightarrow> vm_state" where
  "small_machine d t = vm_machine\<lparr>ram := (\<lambda>_. 0)(0x100C00 := 0x100003, 0x100000 + 4 * of_nat d := 0x101003,
     0x101000 + 4 * of_nat t := 0x102003)\<rparr>"

lemma vm_machine_small: "vm_machine = small_machine 1 0"
  by (simp add: small_machine_def vm_machine_def)

lemma small_machine_simps [simp]:
  "pmem (small_machine d t) = pmem vm_machine" "cr3 (small_machine d t) = 0x100000"
  by (simp_all add: small_machine_def vm_machine_def)

lemma small_machine_ram: "ram (small_machine d t) = (\<lambda>_. 0)(0x100C00 := 0x100003,
    0x100000 + 4 * of_nat d := 0x101003, 0x101000 + 4 * of_nat t := 0x102003)"
  by (simp add: small_machine_def)

lemma small_machine_pde:
  assumes d: "d < 1024" "d \<noteq> 768" "t < 1024" and l: "l < 1024"
  shows "pde (small_machine d t) l = (if l = 768 then 0x100003 else if l = d then 0x101003 else 0)"
proof -
  have al: "frame_aligned 0x100000" "frame_aligned 0x101000" by (simp_all add: frame_aligned_mod)
  have i: "0x100000 + 4 * of_nat l = (0x100C00 :: u32) \<longleftrightarrow> l = 768"
    "0x100000 + 4 * of_nat l = (0x100000 + 4 * of_nat d :: u32) \<longleftrightarrow> l = d"
    "(0x100000 + 4 * of_nat l = (0x101000 + 4 * of_nat t :: u32)) = False"
    using entry_eq_iff [OF al(1,1) l, of 768] entry_eq_iff [OF al(1,1) l d(1)] entry_eq_iff [OF al l d(3)] by simp_all
  have "ram (small_machine d t) (0x100000 + 4 * of_nat l) = (if l = d then 0x101003 else if l = 768 then 0x100003 else 0)"
    by (simp only: small_machine_ram fun_upd_apply i if_False)
  moreover have "pd_entry_get_frame (0x100000::u32) = 0x100000" using al(1) by simp
  ultimately show ?thesis using d(2) by (simp add: pde_at_def)
qed

lemma vm_machine_frames:
  "pd_entry_get_frame 0x100003 = 0x100000" "pd_entry_get_frame 0x101003 = 0x101000"
  by (simp_all add: pd_entry_get_frame_def I86_PDE_FRAME_def)

lemma small_machine_present:
  assumes d: "d < 1024" "d \<noteq> 768" "t < 1024" and l: "l < 1024" "l \<noteq> 768" "bit (pde (small_machine d t) l) 0"
  shows "l = d" "table_frame (small_machine d t) l = 0x101000"
proof -
  show "l = d" using l(2,3) unfolding small_machine_pde [OF d l(1)] by (auto split: if_splits)
  then show "table_frame (small_machine d t) l = 0x101000"
    using l(2) unfolding small_machine_pde [OF d l(1)] by (simp add: vm_machine_frames)
qed

lemma small_machine_inv:
  assumes d: "d < 1024" "d \<noteq> 768" "t < 1024"
  shows "pt_inv (small_machine d t)" "data_frame (small_machine d t) 0x102000"
proof -
  note pres = small_machine_present [OF d]
  have "recursive (ram (small_machine d t)) (cr3 (small_machine d t))"
    using small_machine_pde [OF d, of 768] unfolding recursive_def
    by (simp add: vm_machine_frames frame_aligned_mod bit_0)
  moreover have "frame_of (table_frame (small_machine d t) l) \<in> {256, 257, 258} \<and> table_frame (small_machine d t) l \<noteq> 0x100000"
    if "l < 1024" "l \<noteq> 768" "bit (pde (small_machine d t) l) 0" for l
    using pres(2) [OF that] by simp
  moreover have "l = k" if "l < 1024" "l \<noteq> 768" "bit (pde (small_machine d t) l) 0"
    "k < 1024" "k \<noteq> 768" "bit (pde (small_machine d t) k) 0" for l k
    using pres(1) [OF that(1-3)] pres(1) [OF that(4-6)] by simp
  moreover have "frame_of (cr3 (small_machine d t)) \<in> {256, 257, 258}" by simp
  ultimately show "pt_inv (small_machine d t)"
    using vm_machine_ready unfolding pt_inv_def small_machine_simps vm_machine_used by blast
  have "table_frame (small_machine d t) l \<noteq> 0x102000" if "l < 1024" "l \<noteq> 768" "bit (pde (small_machine d t) l) 0" for l
    using pres(2) [OF that] by simp
  then show "data_frame (small_machine d t) 0x102000" by (simp add: data_frame_def frame_aligned_mod)
qed

lemma small_machine_translate:
  assumes d: "d < 1024" "d \<noteq> 768" "t < 1024" and va: "dir_index va \<noteq> 768"
  shows "translate (ram (small_machine d t)) (cr3 (small_machine d t)) va =
    (if dir_index va = d \<and> tab_index va = t then Some (0x102000 + (va AND 0xFFF)) else None)"
proof -
  have al: "frame_aligned 0x100000" "frame_aligned 0x101000" by (simp_all add: frame_aligned_mod)
  have e: "pte_at (ram (small_machine d t)) 0x101003 k = (if k = t then 0x102003 else 0)" if k: "k < 1024" for k
  proof -
    have i: "(0x101000 + 4 * of_nat k = (0x100C00 :: u32)) = False"
      "(0x101000 + 4 * of_nat k = (0x100000 + 4 * of_nat d :: u32)) = False"
      "0x101000 + 4 * of_nat k = (0x101000 + 4 * of_nat t :: u32) \<longleftrightarrow> k = t"
      using entry_eq_iff [OF al(2,1) k, of 768] entry_eq_iff [OF al(2,1) k d(1)] entry_eq_iff [OF al(2,2) k d(3)] by simp_all
    have "ram (small_machine d t) (0x101000 + 4 * of_nat k) = (if k = t then 0x102003 else 0)"
      by (simp only: small_machine_ram fun_upd_apply i if_False)
    then show ?thesis by (simp add: pte_at_def vm_machine_frames)
  qed
  have f: "pt_entry_get_frame 0x102003 = 0x102000" by (simp add: pt_entry_get_frame_def I86_PTE_FRAME_def)
  show ?thesis
    using small_machine_pde [OF d dir_index_less, of va] e [OF tab_index_less, of va] va
    by (auto simp: translate_eq Let_def f bit_0)
qed

lemma vm_machine_pde:
  "l < 1024 \<Longrightarrow> pde vm_machine l = (if l = 768 then 0x100003 else if l = 1 then 0x101003 else 0)"
  unfolding vm_machine_small by (rule small_machine_pde) simp_all

lemma vm_machine_inv: "pt_inv vm_machine" "data_frame vm_machine 0x102000"
  unfolding vm_machine_small by (rule small_machine_inv; simp)+

lemma vm_machine_translate:
  "dir_index va = 1 \<Longrightarrow> tab_index va = 0 \<Longrightarrow> translate (ram vm_machine) (cr3 vm_machine) va = Some (0x102000 + (va AND 0xFFF))"
  unfolding vm_machine_small by (subst small_machine_translate) simp_all

lemma virt_mem_map_page_spec_witness:
  "\<exists>err st'. virt_mem_map_page virt_mem_get_self_recursive_table 0x3000 0x800000 3 vm_machine = Inr (err, st')"
  using virt_mem_map_page_spec [OF vm_machine_inv(1), of "0x800000" "0x3000" 3]
  by (auto simp: dir_index_def bit_0)

lemma virt_mem_alloc_page_spec_witness:
  "\<exists>err st'. virt_mem_alloc_page 0x800000 vm_machine = Inr (err, st')"
  using virt_mem_alloc_page_spec [OF vm_machine_inv(1), of "0x800000"] by (auto simp: dir_index_def)

lemma virt_mem_free_page_spec_witness:
  "\<exists>st'. virt_mem_free_page 0x400000 vm_machine = Inr (ERROR_OK, st') \<and>
     used_below (pmem st') = {256, 257}"
proof -
  have ix: "dir_index 0x400000 = 1" "tab_index 0x400000 = 0" by (simp_all add: dir_index_def tab_index_def)
  have "translate (ram vm_machine) (cr3 vm_machine) 0x400000 = Some 0x102000"
    using vm_machine_translate [OF ix] by simp
  from virt_mem_free_page_spec [OF vm_machine_inv(1) _ this] show ?thesis
    by (auto simp: ix vm_machine_used)
qed

lemma virt_mem_get_phys_addr_no_table_witness:
  "virt_mem_get_phys_addr 0x800000 vm_machine = Inl (Panic ''KERNEL ERROR! BSOD'')"
proof -
  have "\<not> bit (pde vm_machine (dir_index 0x800000)) 0"
    using vm_machine_pde [of 2] by (simp add: dir_index_def)
  from virt_mem_get_phys_addr_no_table [OF vm_machine_inv(1) this] show ?thesis by blast
qed

end
