(* ===== verification/Descriptors.thy ===== *)
theory Descriptors
  imports Prelude
begin

text \<open>
  Segment, task and interrupt descriptors: \<^verbatim>\<open>gdt.c\<close>, \<^verbatim>\<open>tss.c\<close> and
  \<^verbatim>\<open>idt.c\<close>.  A table is a list of packed entries; \<open>gdt_gate\<close> and \<open>idt_gate\<close> read an
  entry the way the processor does (the first is also what gdt_print_gate prints).  The
  addresses of the assembly stubs are a parameter of \<open>idt_init\<close>, as functions of the number
  in their name.  Loading the registers (\<^verbatim>\<open>lgdt\<close>, \<^verbatim>\<open>lidt\<close>, \<^verbatim>\<open>ltr\<close>) is the value
  loaded.
\<close>

unbundle bit_operations_syntax

section \<open>Bytes of a word\<close>

lemma word_of_bytes:
  "(ucast (ucast (w::u32) :: u16) :: u32) OR push_bit 16 (ucast (ucast (drop_bit 16 w) :: u8)) OR
   push_bit 24 (ucast (ucast (drop_bit 24 w) :: u8)) = w"
proof (rule bit_word_eqI)
  fix n assume "n < LENGTH(32)"
  then consider "n < 16" | "16 \<le> n" "n < 24" | "24 \<le> n" "n < 32" by fastforce
  then show "bit ((ucast (ucast (w::u32) :: u16) :: u32) OR push_bit 16 (ucast (ucast (drop_bit 16 w) :: u8)) OR
      push_bit 24 (ucast (ucast (drop_bit 24 w) :: u8))) n \<longleftrightarrow> bit w n"
    by cases (auto simp: bit_simps)
qed

lemma and_low_mask:
  "w AND 0xFFFF = take_bit 16 (w::u32)" "w AND 0xFF = take_bit 8 w" "w AND 0x0F = take_bit 4 w"
  by (simp_all add: take_bit_eq_mask mask_eq_exp_minus_1)

section \<open>The global descriptor table\<close>

definition GDT_GENERAL_ENTRIES :: u32 where "GDT_GENERAL_ENTRIES = 5"
definition GDT_ENTRIES_PER_CPU :: u32 where "GDT_ENTRIES_PER_CPU = 3"
definition GDT_SS_ENTRY :: "u32 \<Rightarrow> u32" where
  "GDT_SS_ENTRY cpu = GDT_GENERAL_ENTRIES + GDT_ENTRIES_PER_CPU * cpu"
definition GDT_GS_ENTRY :: "u32 \<Rightarrow> u32" where
  "GDT_GS_ENTRY cpu = GDT_GENERAL_ENTRIES + GDT_ENTRIES_PER_CPU * cpu + 1"
definition GDT_TSS_ENTRY :: "u32 \<Rightarrow> u32" where
  "GDT_TSS_ENTRY cpu = GDT_GENERAL_ENTRIES + GDT_ENTRIES_PER_CPU * cpu + 2"
definition GDT_USER_CS :: u32 where "GDT_USER_CS = 0x1B"
definition GDT_USER_DS :: u32 where "GDT_USER_DS = 0x23"

definition GDT_SZ :: u8 where "GDT_SZ = 0x40"
definition GDT_GRAN :: u8 where "GDT_GRAN = 0x80"
definition GDT_RW :: u8 where "GDT_RW = 0x02"
definition GDT_EX :: u8 where "GDT_EX = 0x08"
definition GDT_USER :: u8 where "GDT_USER = 0x60"

record gdt_entry =
  gdt_limit_low :: u16
  gdt_base_low :: u16
  gdt_base_middle :: u8
  gdt_access :: u8
  gdt_flags :: u8
  gdt_base_high :: u8

record gdt_ptr =
  gdtr_limit :: u16
  gdtr_base :: u32

definition gdt_set_gate ::
    "gdt_entry list \<Rightarrow> u16 \<Rightarrow> u32 \<Rightarrow> u32 \<Rightarrow> u8 \<Rightarrow> u8 \<Rightarrow> gdt_entry list res" where
  "gdt_set_gate gdt_base num base limit access flags =
     arr_set gdt_base (unat num)
       \<lparr>gdt_limit_low = ucast (limit AND 0xFFFF),
        gdt_base_low = ucast (base AND 0x0000FFFF),
        gdt_base_middle = ucast (drop_bit 16 base AND 0x000000FF),
        gdt_access = access OR 0x80 OR 0x10,
        gdt_flags = ucast (drop_bit 16 limit AND 0x0F) OR (flags AND 0xF0),
        gdt_base_high = ucast (drop_bit 24 base AND 0x000000FF)\<rparr>"

definition gdtr_install :: "u32 \<Rightarrow> u32 \<Rightarrow> gdt_ptr" where
  "gdtr_install gdt_base count = \<lparr>gdtr_limit = ucast (count * 8 - 1), gdtr_base = gdt_base\<rparr>"

text \<open>The base, limit, access and flags that gdt_print_gate computes and prints.\<close>

definition gdt_print_gate :: "gdt_entry list \<Rightarrow> u16 \<Rightarrow> (u32 \<times> u32 \<times> u32 \<times> u32) res" where
  "gdt_print_gate gdt_base num =
     res_bind (arr_get gdt_base (unat num)) (\<lambda>e. Inr
       (ucast (gdt_base_low e) OR push_bit 16 (ucast (gdt_base_middle e)) OR push_bit 24 (ucast (gdt_base_high e)),
        ucast (gdt_limit_low e) OR push_bit 16 (ucast (gdt_flags e AND 0x0F)),
        ucast (gdt_access e),
        drop_bit 4 (ucast (gdt_flags e AND 0xF0))))"

section \<open>Task state segments\<close>

record tss_entry =
  prev_tss :: u32
  tss_esp0 :: u32
  tss_ss0 :: u32
  tss_stacks :: "u32 list"
  tss_regs :: "u32 list"
  tss_es :: u32
  tss_cs :: u32
  tss_ss :: u32
  tss_ds :: u32
  tss_fs :: u32
  tss_gs :: u32
  tss_ldt :: u32
  tss_trap :: u16
  tss_iomap_base :: u16

text \<open>
  \<open>tss_stacks\<close> are the fields esp1, ss1, esp2, ss2, and \<open>tss_regs\<close> the fields cr3, eip, eflags,
  eax, ecx, edx, ebx, esp, ebp, esi, edi, in this order.  The memset to 0 and the size of the
  packed structure, 104 bytes:
\<close>

definition tss_zero :: tss_entry where
  "tss_zero = \<lparr>prev_tss = 0, tss_esp0 = 0, tss_ss0 = 0, tss_stacks = replicate 4 0,
     tss_regs = replicate 11 0, tss_es = 0, tss_cs = 0, tss_ss = 0, tss_ds = 0, tss_fs = 0,
     tss_gs = 0, tss_ldt = 0, tss_trap = 0, tss_iomap_base = 0\<rparr>"

definition sizeof_tss :: u32 where "sizeof_tss = 104"

text \<open>tss_init_entry of the structure at address \<open>tss\<close>: the table and the structure after it.\<close>

definition tss_init_entry :: "gdt_entry list \<Rightarrow> u32 \<Rightarrow> u16 \<Rightarrow> (gdt_entry list \<times> tss_entry) res" where
  "tss_init_entry gdt_base tss num =
     (let base = tss; limit = base + sizeof_tss in
      res_bind (arr_set gdt_base (unat num)
         \<lparr>gdt_limit_low = ucast (limit AND 0xFFFF),
          gdt_base_low = ucast (base AND 0x0000FFFF),
          gdt_base_middle = ucast (drop_bit 16 base AND 0x000000FF),
          gdt_access = 0xE9,
          gdt_flags = ucast (drop_bit 16 limit AND 0x0F),
          gdt_base_high = ucast (drop_bit 24 base AND 0x000000FF)\<rparr>) (\<lambda>gdt.
        Inr (gdt, tss_zero\<lparr>tss_cs := 0x0B, tss_ss := 0x13, tss_ds := 0x13, tss_es := 0x13,
          tss_fs := 0x13, tss_gs := 0x13\<rparr>)))"

text \<open>The selector loaded into the task register.\<close>

definition tss_install :: "u16 \<Rightarrow> u32" where
  "tss_install num = ucast num * 8 + 3"

definition tss_set_kernel_stack :: "tss_entry \<Rightarrow> u32 \<Rightarrow> u32 \<Rightarrow> tss_entry" where
  "tss_set_kernel_stack tss stack_top ss = tss\<lparr>tss_ss0 := ss, tss_esp0 := stack_top\<rparr>"

section \<open>The interrupt descriptor table\<close>

definition IDT_INT :: u8 where "IDT_INT = 14"

record idt_entry =
  idt_base_low :: u16
  idt_selector :: u16
  idt_always0 :: u8
  idt_flags :: u8
  idt_base_high :: u16

record idt_ptr =
  idtr_limit :: u16
  idtr_base :: u32

definition idt_zero :: idt_entry where
  "idt_zero = \<lparr>idt_base_low = 0, idt_selector = 0, idt_always0 = 0, idt_flags = 0, idt_base_high = 0\<rparr>"

definition idt_set_gate :: "u8 \<Rightarrow> u32 \<Rightarrow> u16 \<Rightarrow> u8 \<Rightarrow> idt_entry list \<Rightarrow> idt_entry list" where
  "idt_set_gate num base selector flags idt_entries = idt_entries[unat num :=
     \<lparr>idt_base_low = ucast (base AND 0x0000FFFF), idt_selector = selector, idt_always0 = 0,
      idt_flags = flags OR 0x80, idt_base_high = ucast (drop_bit 16 base AND 0xFFFF)\<rparr>]"

text \<open>The calls of idt_init in their order: vector, handler, flags; the selector is always 8.\<close>

definition idt_init_gates ::
    "(nat \<Rightarrow> u32) \<Rightarrow> (nat \<Rightarrow> u32) \<Rightarrow> (nat \<Rightarrow> u32) \<Rightarrow> (nat \<times> u32 \<times> u8) list" where
  "idt_init_gates isr irq apic_irq =
     map (\<lambda>i. (i, isr i, IDT_INT)) [0..<32] @
     [(0x80, isr 128, 0xEE)] @
     map (\<lambda>i. (64 + i, apic_irq i, IDT_INT)) [0..<16] @
     [(100, apic_irq 16, IDT_INT)] @
     map (\<lambda>i. (224 + i, irq i, IDT_INT)) [0..<16]"

definition idt_init :: "(nat \<Rightarrow> u32) \<Rightarrow> (nat \<Rightarrow> u32) \<Rightarrow> (nat \<Rightarrow> u32) \<Rightarrow> idt_entry list" where
  "idt_init isr irq apic_irq =
     fold (\<lambda>(num, base, flags). idt_set_gate (of_nat num) base 0x08 flags)
       (idt_init_gates isr irq apic_irq) (replicate 256 idt_zero)"

definition idtr_install :: "u32 \<Rightarrow> idt_ptr" where
  "idtr_install idt_entries = \<lparr>idtr_limit = 256 * 8 - 1, idtr_base = idt_entries\<rparr>"

section \<open>Reading entries back\<close>

text \<open>Handler address, selector, privilege level and present bit of an interrupt gate.\<close>

definition idt_gate :: "idt_entry \<Rightarrow> u32 \<times> u16 \<times> u8 \<times> bool" where
  "idt_gate e = (ucast (idt_base_low e) OR push_bit 16 (ucast (idt_base_high e)), idt_selector e,
     drop_bit 5 (idt_flags e) AND 3, bit (idt_flags e) 7)"

lemma word_of_halves:
  "(ucast (ucast (w::u32) :: u16) :: u32) OR push_bit 16 (ucast (ucast (drop_bit 16 w) :: u16)) = w"
  by (rule bit_word_eqI) (auto simp: bit_simps)

lemma ucast_take_bit:
  "(ucast (take_bit 16 (w::u32)) :: u16) = ucast w" "(ucast (take_bit 8 w) :: u8) = ucast w"
  by (rule bit_word_eqI; simp add: bit_simps)+

lemma gate_entry_print:
  assumes "unat num < length gdt"
  shows "gdt_print_gate (gdt[unat num :=
       \<lparr>gdt_limit_low = ucast (limit AND 0xFFFF), gdt_base_low = ucast (base AND 0x0000FFFF),
        gdt_base_middle = ucast (drop_bit 16 base AND 0x000000FF), gdt_access = a,
        gdt_flags = ucast (drop_bit 16 limit AND 0x0F) OR (flags AND 0xF0),
        gdt_base_high = ucast (drop_bit 24 base AND 0x000000FF)\<rparr>]) num =
     Inr (base, limit AND 0xFFFFF, ucast a, ucast (drop_bit 4 flags))"
proof -
  have b: "ucast (ucast (base AND 0xFFFF) :: u16) OR push_bit 16 (ucast (ucast (drop_bit 16 base AND 0xFF) :: u8)) OR
      push_bit 24 (ucast (ucast (drop_bit 24 base AND 0xFF) :: u8)) = base"
    by (simp only: and_low_mask ucast_take_bit word_of_bytes)
  have n: "(15::u8) = mask 4" "(0xF0::u8) = push_bit 4 (mask 4)" "(0xFFFFF::u32) = mask 20"
      "(0xFFFF::u32) = mask 16" "(15::u32) = mask 4"
    by (simp_all add: mask_eq_exp_minus_1 push_bit_eq_mult)
  have l: "ucast (ucast (limit AND 0xFFFF) :: u16) OR
      push_bit 16 (ucast ((ucast (drop_bit 16 limit AND 15) OR (flags AND 0xF0)) AND 15 :: u8)) = limit AND 0xFFFFF"
    unfolding n by (rule bit_word_eqI) (auto simp: bit_simps)
  have f: "drop_bit 4 (ucast ((ucast (drop_bit 16 limit AND 15) OR (flags AND 0xF0)) AND 0xF0 :: u8)) =
      (ucast (drop_bit 4 flags) :: u32)"
    unfolding n by (rule bit_word_eqI) (auto simp: bit_simps dest: bit_imp_le_length)
  show ?thesis using assms by (simp add: gdt_print_gate_def b l f)
qed

lemma idt_set_gate_gate:
  assumes "unat num < length idt"
  shows "idt_gate (idt_set_gate num base sel flags idt ! unat num) =
    (base, sel, drop_bit 5 flags AND 3, True)"
proof -
  have b: "ucast (ucast (base AND 0xFFFF) :: u16) OR push_bit 16 (ucast (ucast (drop_bit 16 base AND 0xFFFF) :: u16)) = base"
    by (simp only: and_low_mask ucast_take_bit word_of_halves)
  have n: "(3::u8) = mask 2" "(0x80::u8) = push_bit 7 1" by (simp_all add: mask_eq_exp_minus_1 push_bit_eq_mult)
  have f: "(drop_bit 5 flags OR 4) AND 3 = drop_bit 5 flags AND 3" "bit (flags OR 0x80) 7"
    unfolding n by (rule bit_word_eqI) (auto simp: bit_simps less_2_cases_iff)
  show "idt_gate (idt_set_gate num base sel flags idt ! unat num) = (base, sel, drop_bit 5 flags AND 3, True)"
    using assms by (simp add: idt_set_gate_def idt_gate_def b f)
qed

lemma idt_set_gate_other [simp]:
  "i \<noteq> unat num \<Longrightarrow> idt_set_gate num base sel flags idt ! i = idt ! i"
  "length (idt_set_gate num base sel flags idt) = length idt"
  by (simp_all add: idt_set_gate_def)

text \<open>A run of idt_set_gate over distinct vectors sets each of them and nothing else.\<close>

abbreviation set_gates :: "(nat \<times> u32 \<times> u8) list \<Rightarrow> idt_entry list \<Rightarrow> idt_entry list" where
  "set_gates \<equiv> fold (\<lambda>(num, base, flags). idt_set_gate (of_nat num) base 0x08 flags)"

lemma unat_of_nat_u8: "n < 256 \<Longrightarrow> unat (of_nat n :: u8) = n"
  by (simp add: unat_of_nat)

lemma length_set_gates [simp]: "length (set_gates gs idt) = length idt"
  by (induction gs arbitrary: idt) (auto simp: idt_set_gate_other(2))

lemma set_gates_other:
  "v \<notin> fst ` set gs \<Longrightarrow> \<forall>g \<in> set gs. fst g < 256 \<Longrightarrow> set_gates gs idt ! v = idt ! v"
  by (induction gs arbitrary: idt) (auto simp: idt_set_gate_other(1) unat_of_nat_u8)

lemma set_gates_gate:
  "distinct (map fst gs) \<Longrightarrow> \<forall>g \<in> set gs. fst g < 256 \<Longrightarrow> length idt = 256 \<Longrightarrow> (v, h, f) \<in> set gs \<Longrightarrow>
   idt_gate (set_gates gs idt ! v) = (h, 8, drop_bit 5 f AND 3, True)"
proof (induction gs arbitrary: idt)
  case Nil
  then show ?case by simp
next
  case (Cons g gs)
  let ?idt = "idt_set_gate (of_nat (fst g)) (fst (snd g)) 8 (snd (snd g)) idt"
  have st: "set_gates (g # gs) idt = set_gates gs ?idt" by (simp split: prod.split)
  have len: "length ?idt = 256" using Cons.prems(3) by (simp add: idt_set_gate_other(2))
  show ?case
  proof (cases "(v, h, f) \<in> set gs")
    case True
    with Cons.IH [OF _ _ len] Cons.prems show ?thesis unfolding st by simp
  next
    case False
    with Cons.prems(4) have g: "g = (v, h, f)" by simp
    have "v \<notin> fst ` set gs" using Cons.prems(1) g by simp
    moreover have "v < 256" using Cons.prems(2) g by simp
    ultimately show ?thesis
      using Cons.prems idt_set_gate_gate [of "of_nat v" idt h 8 f] g unfolding st
      by (simp add: set_gates_other unat_of_nat_u8)
  qed
qed

lemma idt_init_vectors:
  "map fst (idt_init_gates isr irq apic_irq) =
     [0..<32] @ [128] @ [64..<80] @ [100] @ [224..<240]"
proof -
  have "map (\<lambda>i. 64 + i) [0..<16] = [64..<80::nat]" "map (\<lambda>i. 224 + i) [0..<16] = [224..<240::nat]"
    by (simp_all add: map_add_upt add.commute del: upt_rec_numeral)
  then show ?thesis by (simp add: idt_init_gates_def o_def del: upt_rec_numeral)
qed

section \<open>Properties\<close>

text \<open>
  The entry gdt_set_gate writes reads back as the base, the low 20 bits of the limit, the
  access byte with the present bit, and the flags it was given, and no other entry changes.  A
  task descriptor reads back as the address of its structure, but its limit is the end address
  of the structure, where the processor takes a size minus one.
\<close>

theorem gdt_gate_roundtrip:
  assumes "unat num < length gdt"
  shows "(\<exists>gdt'. gdt_set_gate gdt num base limit access flags = Inr gdt' \<and> length gdt' = length gdt \<and>
      (\<forall>i. i \<noteq> unat num \<longrightarrow> gdt' ! i = gdt ! i) \<and>
      gdt_print_gate gdt' num = Inr (base, limit AND 0xFFFFF, ucast (access OR 0x90), ucast (drop_bit 4 flags))) \<and>
    (\<exists>gdt' t. tss_init_entry gdt tss num = Inr (gdt', t) \<and>
      gdt_print_gate gdt' num = Inr (tss, (tss + 104) AND 0xFFFFF, 0xE9, 0))"
proof -
  have a: "access OR 0x80 OR 0x10 = access OR (0x90::u8)" by (simp add: or.assoc)
  have "\<exists>gdt'. gdt_set_gate gdt num base limit access flags = Inr gdt' \<and> length gdt' = length gdt \<and>
      (\<forall>i. i \<noteq> unat num \<longrightarrow> gdt' ! i = gdt ! i) \<and>
      gdt_print_gate gdt' num = Inr (base, limit AND 0xFFFFF, ucast (access OR 0x90), ucast (drop_bit 4 flags))"
    using assms by (simp add: gdt_set_gate_def gate_entry_print a)
  moreover have "\<exists>gdt' t. tss_init_entry gdt tss num = Inr (gdt', t) \<and>
      gdt_print_gate gdt' num = Inr (tss, (tss + 104) AND 0xFFFFF, 0xE9, 0)"
    using assms gate_entry_print [OF assms, of "tss + 104" tss "0xE9" 0]
    by (simp add: tss_init_entry_def sizeof_tss_def Let_def)
  ultimately show ?thesis by blast
qed

theorem gdt_gate_roundtrip_witness:
  "\<exists>gdt' t. tss_init_entry (replicate 3 \<lparr>gdt_limit_low = 0, gdt_base_low = 0, gdt_base_middle = 0,
      gdt_access = 0, gdt_flags = 0, gdt_base_high = 0\<rparr>) 0x00105000 2 = Inr (gdt', t) \<and>
    gdt_print_gate gdt' 2 = Inr (0x00105000, 0x05068, 0xE9, 0)"
proof -
  have n: "unat (2::u16) < length (replicate 3 \<lparr>gdt_limit_low = 0, gdt_base_low = 0, gdt_base_middle = 0,
      gdt_access = 0, gdt_flags = 0, gdt_base_high = 0\<rparr>)" by simp
  have l: "(0x00105000 + 104) AND 0xFFFFF = (0x05068 :: u32)" by simp
  from gdt_gate_roundtrip [OF n, of 0 0 0 0 "0x00105000"] show ?thesis unfolding l by blast
qed

lemma idt_init_vector:
  "length (idt_init isr irq apic_irq) = 256 \<and>
   (\<forall>i < 256. idt_gate (idt_init isr irq apic_irq ! i) =
     (if i < 32 then (isr i, 8, 0, True) else if i = 128 then (isr 128, 8, 3, True)
      else if 64 \<le> i \<and> i < 80 then (apic_irq (i - 64), 8, 0, True)
      else if i = 100 then (apic_irq 16, 8, 0, True)
      else if 224 \<le> i \<and> i < 240 then (irq (i - 224), 8, 0, True) else (0, 0, 0, False)))"
proof (intro conjI allI impI)
  show "length (idt_init isr irq apic_irq) = 256" by (simp add: idt_init_def)
  fix i :: nat assume i: "i < 256"
  let ?gs = "idt_init_gates isr irq apic_irq"
  let ?z = "replicate 256 idt_zero"
  have d: "distinct (map fst ?gs)" unfolding idt_init_vectors by (auto simp del: upt_rec_numeral)
  have b: "\<forall>g \<in> set ?gs. fst g < 256"
  proof
    fix g assume "g \<in> set ?gs"
    then have "fst g \<in> set (map fst ?gs)" by simp
    then show "fst g < 256" unfolding idt_init_vectors by (auto simp del: upt_rec_numeral)
  qed
  have hit: "idt_gate (set_gates ?gs ?z ! i) = (h, 8, drop_bit 5 f AND 3, True)" if "(i, h, f) \<in> set ?gs" for h f
    by (rule set_gates_gate [OF d b _ that]) simp
  have dpl: "drop_bit 5 IDT_INT AND 3 = (0 :: u8)" "drop_bit 5 0xEE AND 3 = (3 :: u8)" by (simp_all add: IDT_INT_def)
  consider "i < 32" | "i = 128" | "64 \<le> i" "i < 80" | "i = 100" | "224 \<le> i" "i < 240"
    | "i \<notin> fst ` set ?gs" "\<not> i < 32" "i \<noteq> 128" "\<not> (64 \<le> i \<and> i < 80)" "i \<noteq> 100" "\<not> (224 \<le> i \<and> i < 240)"
  proof -
    have "fst ` set ?gs = set (map fst ?gs)" by simp
    also have "\<dots> = {0..<32} \<union> {128} \<union> {64..<80} \<union> {100} \<union> {224..<240}"
      unfolding idt_init_vectors by (auto simp del: upt_rec_numeral)
    finally show thesis using that by auto
  qed
  then show "idt_gate (idt_init isr irq apic_irq ! i) =
     (if i < 32 then (isr i, 8, 0, True) else if i = 128 then (isr 128, 8, 3, True)
      else if 64 \<le> i \<and> i < 80 then (apic_irq (i - 64), 8, 0, True)
      else if i = 100 then (apic_irq 16, 8, 0, True)
      else if 224 \<le> i \<and> i < 240 then (irq (i - 224), 8, 0, True) else (0, 0, 0, False))"
  proof cases
    case 1
    then show ?thesis using hit [of "isr i" IDT_INT] dpl by (simp add: idt_init_def idt_init_gates_def)
  next
    case 2
    then show ?thesis using hit [of "isr 128" "0xEE"] dpl by (simp add: idt_init_def idt_init_gates_def)
  next
    case 3
    then have "(i, apic_irq (i - 64), IDT_INT) \<in> set ?gs"
      by (auto simp: idt_init_gates_def image_iff intro!: bexI [of _ "i - 64"])
    with 3 show ?thesis using hit dpl by (simp add: idt_init_def)
  next
    case 4
    then show ?thesis using hit [of "apic_irq 16" IDT_INT] dpl by (simp add: idt_init_def idt_init_gates_def)
  next
    case 5
    then have "(i, irq (i - 224), IDT_INT) \<in> set ?gs"
      by (auto simp: idt_init_gates_def image_iff intro!: bexI [of _ "i - 224"])
    with 5 show ?thesis using hit dpl by (simp add: idt_init_def)
  next
    case 6
    then show ?thesis using i set_gates_other [OF 6(1) b, of ?z]
      by (simp add: idt_init_def idt_gate_def idt_zero_def)
  qed
qed

text \<open>
  idt_init installs, for every vector it names, the stub's address under selector 8 as a
  present gate; all other vectors stay empty; and the system call gate 0x80 is the only one that
  ring 3 may call.
\<close>

theorem idt_init_spec:
  "length (idt_init isr irq apic_irq) = 256 \<and>
   idt_gate (idt_init isr irq apic_irq ! unat (n :: u8)) =
     (let i = unat n in
      if i < 32 then (isr i, 8, 0, True) else if i = 128 then (isr 128, 8, 3, True)
      else if 64 \<le> i \<and> i < 80 then (apic_irq (i - 64), 8, 0, True)
      else if i = 100 then (apic_irq 16, 8, 0, True)
      else if 224 \<le> i \<and> i < 240 then (irq (i - 224), 8, 0, True) else (0, 0, 0, False))"
  unfolding Let_def using idt_init_vector [of isr irq apic_irq] unat_u8_less [of n] by simp

end
