(* ===== verification/Trap_Frame.thy ===== *)
theory Trap_Frame
  imports Descriptors
begin

text \<open>
  The trap frame of \<^verbatim>\<open>trap_frame.h\<close>, its initialisation in \<^verbatim>\<open>trap_frame.c\<close>, and how
  the processor consumes a frame.  One record serves both C structures: the kernel frame is the
  user frame without its last two words, and a TCB holds them in a union.  Stack memory is a map
  from byte addresses to words, read and written at addresses that differ by multiples of four.
\<close>

unbundle bit_operations_syntax

record trap_frame =
  tf_gs :: u32
  tf_fs :: u32
  tf_es :: u32
  tf_ds :: u32
  tf_edi :: u32
  tf_esi :: u32
  tf_ebp :: u32
  tf_kernel_esp :: u32
  tf_ebx :: u32
  tf_edx :: u32
  tf_ecx :: u32
  tf_eax :: u32
  tf_int_no :: u32
  tf_err_code :: u32
  tf_eip :: u32
  tf_cs :: u32
  tf_flags :: u32
  tf_esp :: u32
  tf_ss :: u32

text \<open>memset to 0 of the user frame, and of the kernel frame inside the union.\<close>

definition trap_frame_zero :: trap_frame where
  "trap_frame_zero = \<lparr>tf_gs = 0, tf_fs = 0, tf_es = 0, tf_ds = 0, tf_edi = 0, tf_esi = 0, tf_ebp = 0,
     tf_kernel_esp = 0, tf_ebx = 0, tf_edx = 0, tf_ecx = 0, tf_eax = 0, tf_int_no = 0, tf_err_code = 0,
     tf_eip = 0, tf_cs = 0, tf_flags = 0, tf_esp = 0, tf_ss = 0\<rparr>"

definition sizeof_trap_frame :: u32 where "sizeof_trap_frame = 76"
definition sizeof_trap_frame_kernel :: u32 where "sizeof_trap_frame_kernel = 68"

definition trap_frame_init_user :: "u32 \<Rightarrow> u32 \<Rightarrow> u32 \<Rightarrow> trap_frame" where
  "trap_frame_init_user entry_point kernel_stack_top stack_top = trap_frame_zero
     \<lparr>tf_ebx := 0xDEADBABA, tf_eax := 0x1BADB002, tf_ecx := 0x2BADB002, tf_edx := 0x3BADB002,
      tf_cs := GDT_USER_CS,
      tf_ds := GDT_USER_DS, tf_es := GDT_USER_DS, tf_fs := GDT_USER_DS, tf_gs := GDT_USER_DS,
      tf_ss := GDT_USER_DS,
      tf_eip := entry_point, tf_esp := stack_top,
      tf_kernel_esp := kernel_stack_top - sizeof_trap_frame + 16,
      tf_flags := 0x200\<rparr>"

definition trap_frame_init_kernel :: "trap_frame \<Rightarrow> u32 \<Rightarrow> u32 \<Rightarrow> u8 \<Rightarrow> trap_frame" where
  "trap_frame_init_kernel frame entry_point kernel_stack_top exec_cpu = trap_frame_zero
     \<lparr>tf_esp := tf_esp frame, tf_ss := tf_ss frame,
      tf_cs := 0x8,
      tf_ds := 0x10, tf_es := 0x10, tf_fs := 0x10,
      tf_gs := GDT_GS_ENTRY (ucast exec_cpu) * 8,
      tf_eip := entry_point,
      tf_kernel_esp := kernel_stack_top - sizeof_trap_frame_kernel + 16,
      tf_flags := 0x200\<rparr>"

section \<open>Frames in memory\<close>

definition kframe_words :: "trap_frame \<Rightarrow> u32 list" where
  "kframe_words f = [tf_gs f, tf_fs f, tf_es f, tf_ds f, tf_edi f, tf_esi f, tf_ebp f,
     tf_kernel_esp f, tf_ebx f, tf_edx f, tf_ecx f, tf_eax f, tf_int_no f, tf_err_code f,
     tf_eip f, tf_cs f, tf_flags f]"

definition frame_words :: "trap_frame \<Rightarrow> u32 list" where
  "frame_words f = kframe_words f @ [tf_esp f, tf_ss f]"

text \<open>memcpy of a structure to memory, a word at a time.\<close>

fun put_words :: "u32 \<Rightarrow> u32 list \<Rightarrow> (u32 \<Rightarrow> u32) \<Rightarrow> (u32 \<Rightarrow> u32)" where
  "put_words a [] m = m"
| "put_words a (w # ws) m = put_words (a + 4) ws (m(a := w))"

section \<open>What the processor makes of a frame\<close>

record cpu_regs =
  r_gs :: u32
  r_fs :: u32
  r_es :: u32
  r_ds :: u32
  r_edi :: u32
  r_esi :: u32
  r_ebp :: u32
  r_ebx :: u32
  r_edx :: u32
  r_ecx :: u32
  r_eax :: u32
  r_eip :: u32
  r_cs :: u32
  r_eflags :: u32
  r_esp :: u32
  r_ss :: u32

text \<open>
  The end of scheduler_current_execute, from \<^verbatim>\<open>movl frame_base, %esp\<close>: four segment pops,
  \<^verbatim>\<open>popal\<close> (which skips the saved esp), \<^verbatim>\<open>add $8, %esp\<close> and \<^verbatim>\<open>iret\<close>, which takes
  esp and ss from the frame only when it returns to ring 3.  \<open>kss\<close> is the stack segment loaded
  before, if any.
\<close>

definition iret_frame :: "(u32 \<Rightarrow> u32) \<Rightarrow> u32 \<Rightarrow> u32 \<Rightarrow> cpu_regs" where
  "iret_frame m b kss =
     \<lparr>r_gs = m b, r_fs = m (b + 4), r_es = m (b + 8), r_ds = m (b + 12),
      r_edi = m (b + 16), r_esi = m (b + 20), r_ebp = m (b + 24),
      r_ebx = m (b + 32), r_edx = m (b + 36), r_ecx = m (b + 40), r_eax = m (b + 44),
      r_eip = m (b + 56), r_cs = m (b + 60), r_eflags = m (b + 64),
      r_esp = (if m (b + 60) AND 3 = 3 then m (b + 68) else b + 68),
      r_ss = (if m (b + 60) AND 3 = 3 then m (b + 72) else kss)\<rparr>"

text \<open>What the program of a frame sees when it goes on.\<close>

definition frame_regs :: "trap_frame \<Rightarrow> u32 \<Rightarrow> u32 \<Rightarrow> cpu_regs" where
  "frame_regs f kesp kss =
     \<lparr>r_gs = tf_gs f, r_fs = tf_fs f, r_es = tf_es f, r_ds = tf_ds f,
      r_edi = tf_edi f, r_esi = tf_esi f, r_ebp = tf_ebp f,
      r_ebx = tf_ebx f, r_edx = tf_edx f, r_ecx = tf_ecx f, r_eax = tf_eax f,
      r_eip = tf_eip f, r_cs = tf_cs f, r_eflags = tf_flags f,
      r_esp = (if tf_cs f AND 3 = 3 then tf_esp f else kesp),
      r_ss = (if tf_cs f AND 3 = 3 then tf_ss f else kss)\<rparr>"

lemma put_words_other:
  "4 * length ws \<le> 4294967296 \<Longrightarrow> \<not> unat (x - a) < 4 * length ws \<Longrightarrow> put_words a ws m x = m x"
proof (induction ws arbitrary: a m)
  case Nil
  then show ?case by simp
next
  case (Cons w ws)
  have ne: "x \<noteq> a" using Cons.prems(2) by auto
  have "\<not> unat (x - (a + 4)) < 4 * length ws"
  proof
    assume lt: "unat (x - (a + 4)) < 4 * length ws"
    have "x - a = (x - (a + 4)) + 4" by simp
    moreover have "unat ((x - (a + 4)) + 4) = unat (x - (a + 4)) + 4"
      using lt Cons.prems(1) by (subst unat_word_ariths) simp
    ultimately have "unat (x - a) = unat (x - (a + 4)) + 4" by metis
    then show False using lt Cons.prems(2) by simp
  qed
  then have "put_words (a + 4) ws (m(a := w)) x = (m(a := w)) x"
    using Cons.prems(1) by (intro Cons.IH) simp_all
  then show ?case using ne by simp
qed

lemma put_words_nth:
  "4 * length ws \<le> 4294967296 \<Longrightarrow> i < length ws \<Longrightarrow> put_words a ws m (a + 4 * of_nat i) = ws ! i"
proof (induction ws arbitrary: a m i)
  case Nil
  then show ?case by simp
next
  case (Cons w ws)
  show ?case
  proof (cases i)
    case 0
    have "unat (a - (a + 4)) = 4294967292" by simp
    moreover have "4 * length ws \<le> 4294967292" using Cons.prems(1) by simp
    ultimately have "\<not> unat (a - (a + 4)) < 4 * length ws" by linarith
    then have "put_words (a + 4) ws (m(a := w)) a = (m(a := w)) a"
      using Cons.prems(1) by (intro put_words_other) simp_all
    with 0 show ?thesis by simp
  next
    case (Suc j)
    have "put_words (a + 4) ws (m(a := w)) (a + 4 + 4 * of_nat j) = ws ! j"
      using Cons.prems Suc by (intro Cons.IH) simp_all
    moreover have "a + 4 * of_nat i = a + 4 + 4 * of_nat j" by (simp add: Suc algebra_simps)
    ultimately have "put_words (a + 4) ws (m(a := w)) (a + 4 * of_nat i) = ws ! j" by (simp only:)
    then show ?thesis using Suc by (simp only: put_words.simps nth_Cons_Suc)
  qed
qed

text \<open>A frame put in memory and consumed there gives its program what it had.\<close>

lemma iret_put_kframe:
  "put_words b (kframe_words f) m = m' \<Longrightarrow> tf_cs f AND 3 \<noteq> 3 \<Longrightarrow>
   iret_frame m' b kss = frame_regs f (b + 68) kss"
proof -
  assume m': "put_words b (kframe_words f) m = m'" and cs: "tf_cs f AND 3 \<noteq> 3"
  have w: "m' (b + 4 * of_nat i) = kframe_words f ! i" if "i < 17" for i
    using put_words_nth [of "kframe_words f" i b m] that unfolding m' [symmetric] by (simp add: kframe_words_def)
  show ?thesis
    using w [of 0] w [of 1] w [of 2] w [of 3] w [of 4] w [of 5] w [of 6] w [of 8] w [of 9] w [of 10]
      w [of 11] w [of 14] w [of 15] w [of 16] cs
    by (simp add: iret_frame_def frame_regs_def kframe_words_def)
qed

lemma iret_put_frame:
  "put_words b (frame_words f) m = m' \<Longrightarrow> iret_frame m' b kss = frame_regs f (b + 68) kss"
proof -
  assume m': "put_words b (frame_words f) m = m'"
  have w: "m' (b + 4 * of_nat i) = frame_words f ! i" if "i < 19" for i
    using put_words_nth [of "frame_words f" i b m] that unfolding m' [symmetric]
    by (simp add: frame_words_def kframe_words_def)
  show ?thesis
    using w [of 0] w [of 1] w [of 2] w [of 3] w [of 4] w [of 5] w [of 6] w [of 8] w [of 9] w [of 10]
      w [of 11] w [of 14] w [of 15] w [of 16] w [of 17] w [of 18]
    by (simp add: iret_frame_def frame_regs_def frame_words_def kframe_words_def)
qed

end
