(* ===== verification/Kernel_State.thy ===== *)
theory Kernel_State
  imports Trap_Frame Spinlock Vm_Contract Libk_String
begin

text \<open>
  The state the processors share: thread, process and mailbox tables, semaphores, the data of
  each processor (\<^verbatim>\<open>process.h\<close>, \<^verbatim>\<open>semaphore.h\<close>, \<^verbatim>\<open>mailbox.h\<close>,
  \<^verbatim>\<open>message.h\<close>, \<^verbatim>\<open>thread_sched.h\<close>, \<^verbatim>\<open>per_cpu_data.h\<close>, \<^verbatim>\<open>gst.h\<close>).
  A pointer into a table is the index of its slot, a null pointer \<open>None\<close>; a \<^verbatim>\<open>void*\<close> says
  which kind of object it points to.  The running processor's \<^verbatim>\<open>get_cpu_id\<close> is a parameter of
  the operations that read it.
\<close>

unbundle bit_operations_syntax

section \<open>Constants\<close>

definition MAX_PROCESS_SLOTS :: nat where "MAX_PROCESS_SLOTS = 32767"
definition MAX_THREAD_SLOTS :: nat where "MAX_THREAD_SLOTS = 65535"
definition MAX_MAILBOX_SLOTS :: nat where "MAX_MAILBOX_SLOTS = 65535"
definition KERNEL_PROCESS_SLOT :: u16 where "KERNEL_PROCESS_SLOT = 0"
definition NUMBER_PRIORITIES :: nat where "NUMBER_PRIORITIES = 8"

definition PROCESS_SLOT_EMPTY :: u32 where "PROCESS_SLOT_EMPTY = 1"
definition PROCESS_NEW :: u32 where "PROCESS_NEW = 2"
definition THREAD_SLOT_EMPTY :: u32 where "THREAD_SLOT_EMPTY = 1"
definition THREAD_NEW :: u32 where "THREAD_NEW = 2"

definition MAILBOX_NONE :: u16 where "MAILBOX_NONE = 0"
definition MAILBOX_CPU :: u16 where "MAILBOX_CPU = 1"
definition MAILBOX_ABOVE_SEMAPHORE :: u16 where "MAILBOX_ABOVE_SEMAPHORE = 2"
definition MAILBOX_THREAD :: u16 where "MAILBOX_THREAD = 3"

definition CM_RESCHEDULE :: u8 where "CM_RESCHEDULE = 1"
definition CM_SEM_WAIT :: u8 where "CM_SEM_WAIT = 2"
definition CM_AWAKEN_THREAD :: u8 where "CM_AWAKEN_THREAD = 3"

definition TM_FORK :: u8 where "TM_FORK = 1"

section \<open>Objects\<close>

text \<open>Where a semaphore lies: in a mailbox, or at some address.\<close>

datatype sem_ref = Sem_rdy nat | Sem_recv nat | Sem_at u32

datatype ptr = Null_ptr | Tcb_ptr nat | Cpu_ptr nat | Sem_ptr sem_ref

record semaphore =
  sem_lock :: spinlock_t
  sem_count :: u32
  waiting_head :: "nat option"
  waiting_tail :: "nat option"

text \<open>The payload is the union's pointer; the other two variants of the union are never used.\<close>

record message =
  msg_src :: u16
  msg_dst :: u16
  msg_func :: u8
  msg_type :: u8
  msg_ptr :: ptr

text \<open>
  The lock of a mailbox is a union of the two semaphores with a spinlock, whose word is the first
  word of the first semaphore: its lock.
\<close>

record mailbox =
  mb_mid :: u16
  mb_type :: u16
  mb_owner :: ptr
  mb_message :: message
  sem_rdy :: semaphore
  sem_recv :: semaphore

abbreviation msg_lock :: "mailbox \<Rightarrow> spinlock_t" where
  "msg_lock mb \<equiv> sem_lock (sem_rdy mb)"

definition set_msg_lock :: "spinlock_t \<Rightarrow> mailbox \<Rightarrow> mailbox" where
  "set_msg_lock l mb = mb\<lparr>sem_rdy := (sem_rdy mb)\<lparr>sem_lock := l\<rparr>\<rparr>"

record tcb =
  t_flags :: u32
  t_frame :: trap_frame
  t_tid :: u16
  t_is_kernel :: u8
  t_exec_cpu :: u8
  t_parent :: "nat option"
  t_priotity :: u32
  t_mailbox :: "nat option"
  t_prev :: "nat option"
  t_next :: "nat option"

record pcb =
  p_flags :: u32
  p_pid :: u16
  p_page_directory :: u32
  p_lock :: spinlock_t
  p_parent :: "nat option"
  p_name :: "u8 list"
  memory_contract :: vm_contract

record thread_sched =
  ready_heads :: "nat \<Rightarrow> nat option"
  ready_tails :: "nat \<Rightarrow> nat option"
  sched_lock :: u32
  current_thread :: "nat option"

record per_cpu_data =
  pc_id :: u32
  pc_enabled :: u32
  pc_test_data :: u32
  pc_lapic_period :: u32
  pc_lapic_count :: u32
  pc_common_stack_top :: u32
  pc_tss_entry :: tss_entry
  pc_scheduler :: thread_sched
  pc_mailbox :: "nat option"

record ktime =
  kt_msec :: u16
  kt_sec :: u8
  kt_min :: u8
  kt_hour :: u8
  kt_day :: u8
  kt_month :: u8
  kt_year :: u16
  kt_weekday :: u8

text \<open>\<open>per_cpu_ptrs\<close> holds indices into \<open>per_cpu_data_base\<close>.\<close>

record gst =
  processor_count :: u32
  ioapic_count :: u32
  lapic_base :: u32
  ioapic_base :: u32
  gst_gdtr :: gdt_ptr
  gst_idtr :: idt_ptr
  BSP_dir :: u32
  RSDP_base :: u32
  ioapic_overrides :: "u8 list"
  system_time :: ktime
  gst_gdt_entries :: "gdt_entry list"
  per_cpu_ptrs :: "nat option list"
  per_cpu_data_base :: "per_cpu_data list"

text \<open>
  The whole state.  \<open>cpu_cr3\<close> and \<open>cpu_run\<close> are the registers of each processor, the second as
  set by its last \<^verbatim>\<open>iret\<close>; \<open>stack_mem\<close> is the memory of kernel stacks; \<open>ipis\<close> are the
  interrupts sent and not delivered yet, target and vector; \<open>eois\<close> counts ends of interrupt.
\<close>

record kstate =
  thread_slots :: "nat \<Rightarrow> tcb"
  process_slots :: "nat \<Rightarrow> pcb"
  mailbox_slots :: "nat \<Rightarrow> mailbox"
  ps_lock :: spinlock_t
  ts_lock :: spinlock_t
  ms_lock :: spinlock_t
  other_sems :: "u32 \<Rightarrow> semaphore"
  gst :: gst
  cpu_cr3 :: "nat \<Rightarrow> u32"
  cpu_run :: "nat \<Rightarrow> cpu_regs"
  stack_mem :: "u32 \<Rightarrow> u32"
  ipis :: "(u8 \<times> u8) list"
  eois :: nat

section \<open>Access\<close>

abbreviation threads :: "kstate \<Rightarrow> nat \<Rightarrow> tcb" where "threads \<equiv> thread_slots"

definition upd_thread :: "nat \<Rightarrow> (tcb \<Rightarrow> tcb) \<Rightarrow> kstate \<Rightarrow> kstate" where
  "upd_thread t f st = st\<lparr>thread_slots := (thread_slots st)(t := f (thread_slots st t))\<rparr>"

definition upd_mailbox :: "nat \<Rightarrow> (mailbox \<Rightarrow> mailbox) \<Rightarrow> kstate \<Rightarrow> kstate" where
  "upd_mailbox m f st = st\<lparr>mailbox_slots := (mailbox_slots st)(m := f (mailbox_slots st m))\<rparr>"

definition upd_process :: "nat \<Rightarrow> (pcb \<Rightarrow> pcb) \<Rightarrow> kstate \<Rightarrow> kstate" where
  "upd_process p f st = st\<lparr>process_slots := (process_slots st)(p := f (process_slots st p))\<rparr>"

text \<open>Dereferencing a TCB pointer.\<close>

definition deref :: "nat option \<Rightarrow> nat res" where
  "deref p = (case p of None \<Rightarrow> Inl NullDeref | Some t \<Rightarrow> Inr t)"

lemma deref_simps [simp]: "deref (Some t) = Inr t" "deref None = Inl NullDeref"
  by (simp_all add: deref_def)

text \<open>\<^verbatim>\<open>get_cpu_storage(id)\<close> of gst.c: an index into the array, without a bound check.\<close>

definition get_cpu_storage :: "nat \<Rightarrow> kstate \<Rightarrow> per_cpu_data res" where
  "get_cpu_storage cpu st = arr_get (per_cpu_data_base (gst st)) cpu"

definition upd_cpu :: "nat \<Rightarrow> (per_cpu_data \<Rightarrow> per_cpu_data) \<Rightarrow> kstate \<Rightarrow> kstate" where
  "upd_cpu c f st = st\<lparr>gst := (gst st)\<lparr>per_cpu_data_base :=
     (per_cpu_data_base (gst st))[c := f (per_cpu_data_base (gst st) ! c)]\<rparr>\<rparr>"

abbreviation cpus :: "kstate \<Rightarrow> per_cpu_data list" where
  "cpus st \<equiv> per_cpu_data_base (gst st)"

abbreviation sched :: "nat \<Rightarrow> kstate \<Rightarrow> thread_sched" where
  "sched c st \<equiv> pc_scheduler (cpus st ! c)"

definition upd_sched :: "nat \<Rightarrow> (thread_sched \<Rightarrow> thread_sched) \<Rightarrow> kstate \<Rightarrow> kstate" where
  "upd_sched c f = upd_cpu c (\<lambda>d. d\<lparr>pc_scheduler := f (pc_scheduler d)\<rparr>)"

primrec get_sem :: "sem_ref \<Rightarrow> kstate \<Rightarrow> semaphore" where
  "get_sem (Sem_rdy m) st = sem_rdy (mailbox_slots st m)"
| "get_sem (Sem_recv m) st = sem_recv (mailbox_slots st m)"
| "get_sem (Sem_at a) st = other_sems st a"

primrec set_sem :: "sem_ref \<Rightarrow> semaphore \<Rightarrow> kstate \<Rightarrow> kstate" where
  "set_sem (Sem_rdy m) s st = upd_mailbox m (\<lambda>mb. mb\<lparr>sem_rdy := s\<rparr>) st"
| "set_sem (Sem_recv m) s st = upd_mailbox m (\<lambda>mb. mb\<lparr>sem_recv := s\<rparr>) st"
| "set_sem (Sem_at a) s st = st\<lparr>other_sems := (other_sems st)(a := s)\<rparr>"

definition upd_sem :: "sem_ref \<Rightarrow> (semaphore \<Rightarrow> semaphore) \<Rightarrow> kstate \<Rightarrow> kstate" where
  "upd_sem r f st = set_sem r (f (get_sem r st)) st"

section \<open>What updates leave alone\<close>

named_theorems kstate_simps

lemma get_sem_set_sem [simp, kstate_simps]:
  "get_sem r (set_sem r' s st) = (if r = r' then s else get_sem r st)"
  by (cases r; cases r') (auto simp: upd_mailbox_def)

lemma get_sem_upd_sem [simp, kstate_simps]:
  "get_sem r (upd_sem r' f st) = (if r = r' then f (get_sem r st) else get_sem r st)"
  by (auto simp: upd_sem_def)

lemma set_sem_parts [simp, kstate_simps]:
  "thread_slots (set_sem r s st) = thread_slots st" "process_slots (set_sem r s st) = process_slots st"
  "gst (set_sem r s st) = gst st" "stack_mem (set_sem r s st) = stack_mem st" "ipis (set_sem r s st) = ipis st"
  "cpu_cr3 (set_sem r s st) = cpu_cr3 st" "cpu_run (set_sem r s st) = cpu_run st"
  by (cases r; simp add: upd_mailbox_def)+

lemma upd_sem_parts [simp, kstate_simps]:
  "thread_slots (upd_sem r f st) = thread_slots st" "process_slots (upd_sem r f st) = process_slots st"
  "gst (upd_sem r f st) = gst st" "stack_mem (upd_sem r f st) = stack_mem st" "ipis (upd_sem r f st) = ipis st"
  "cpu_cr3 (upd_sem r f st) = cpu_cr3 st" "cpu_run (upd_sem r f st) = cpu_run st"
  by (simp_all add: upd_sem_def)

lemma get_sem_cong:
  "mailbox_slots st = mailbox_slots st' \<Longrightarrow> other_sems st = other_sems st' \<Longrightarrow> get_sem r st = get_sem r st'"
  by (cases r) simp_all

lemma upd_thread_parts [simp, kstate_simps]:
  "thread_slots (upd_thread t f st) = (thread_slots st)(t := f (thread_slots st t))"
  "process_slots (upd_thread t f st) = process_slots st" "mailbox_slots (upd_thread t f st) = mailbox_slots st"
  "gst (upd_thread t f st) = gst st" "other_sems (upd_thread t f st) = other_sems st"
  "ipis (upd_thread t f st) = ipis st" "stack_mem (upd_thread t f st) = stack_mem st"
  by (simp_all add: upd_thread_def)

lemma get_sem_upd_thread [simp, kstate_simps]: "get_sem r (upd_thread t f st) = get_sem r st"
  by (rule get_sem_cong) simp_all

lemma upd_cpu_parts [simp, kstate_simps]:
  "thread_slots (upd_cpu c f st) = thread_slots st" "process_slots (upd_cpu c f st) = process_slots st"
  "mailbox_slots (upd_cpu c f st) = mailbox_slots st" "other_sems (upd_cpu c f st) = other_sems st"
  "ipis (upd_cpu c f st) = ipis st" "stack_mem (upd_cpu c f st) = stack_mem st"
  "cpus (upd_cpu c f st) = (cpus st)[c := f (cpus st ! c)]"
  by (simp_all add: upd_cpu_def)

lemma get_sem_upd_cpu [simp, kstate_simps]: "get_sem r (upd_cpu c f st) = get_sem r st"
  by (rule get_sem_cong) simp_all

lemma upd_sched_parts [simp, kstate_simps]:
  "thread_slots (upd_sched c f st) = thread_slots st" "process_slots (upd_sched c f st) = process_slots st"
  "mailbox_slots (upd_sched c f st) = mailbox_slots st" "other_sems (upd_sched c f st) = other_sems st"
  "ipis (upd_sched c f st) = ipis st" "stack_mem (upd_sched c f st) = stack_mem st"
  "length (cpus (upd_sched c f st)) = length (cpus st)"
  by (simp_all add: upd_sched_def)

lemma sched_upd_sched [simp, kstate_simps]:
  "c < length (cpus st) \<Longrightarrow> sched c' (upd_sched c f st) = (if c' = c then f (sched c st) else sched c' st)"
  by (simp add: upd_sched_def nth_list_update_if)

lemma get_sem_upd_sched [simp, kstate_simps]: "get_sem r (upd_sched c f st) = get_sem r st"
  by (rule get_sem_cong) simp_all

lemma get_cpu_storage_ok [simp]: "c < length (cpus st) \<Longrightarrow> get_cpu_storage c st = Inr (cpus st ! c)"
  by (simp add: get_cpu_storage_def)

end
