(* ===== verification/Thread_Sched.thy ===== *)
theory Thread_Sched
  imports Kernel_State
begin

text \<open>
  The scheduler, \<^verbatim>\<open>thread_sched.c\<close>: per processor, eight doubly linked queues of ready
  threads with head and tail pointers, and the running thread.  A scheduler pointer is the
  number of its processor; an answered thread pointer comes with the state after the call.
\<close>

unbundle bit_operations_syntax

section \<open>Private functions\<close>

primrec first_non_empty :: "nat \<Rightarrow> nat \<Rightarrow> thread_sched \<Rightarrow> nat" where
  "first_non_empty 0 i s = NUMBER_PRIORITIES"
| "first_non_empty (Suc n) i s = (if ready_heads s i \<noteq> None then i else first_non_empty n (Suc i) s)"

definition scheduler_get_first_non_empty :: "thread_sched \<Rightarrow> nat" where
  "scheduler_get_first_non_empty s = first_non_empty NUMBER_PRIORITIES 0 s"

definition set_head :: "nat \<Rightarrow> nat option \<Rightarrow> thread_sched \<Rightarrow> thread_sched" where
  "set_head q p s = s\<lparr>ready_heads := (ready_heads s)(q := p)\<rparr>"

definition set_tail :: "nat \<Rightarrow> nat option \<Rightarrow> thread_sched \<Rightarrow> thread_sched" where
  "set_tail q p s = s\<lparr>ready_tails := (ready_tails s)(q := p)\<rparr>"

definition scheduler_remove_ready :: "nat \<Rightarrow> nat \<Rightarrow> kstate \<Rightarrow> (nat \<times> kstate) res" where
  "scheduler_remove_ready c q st =
     res_bind (deref (ready_heads (sched c st) q)) (\<lambda>head.
       let nxt = t_next (threads st head);
           st = upd_sched c (set_head q nxt) st;
           st = (case nxt of
                   None \<Rightarrow> upd_sched c (set_head q None \<circ> set_tail q None) st
                 | Some n \<Rightarrow> upd_thread n (\<lambda>t. t\<lparr>t_prev := None\<rparr>) st);
           st = upd_thread head (\<lambda>t. t\<lparr>t_prev := None, t_next := None\<rparr>) st
       in Inr (head, st))"

definition scheduler_remove_running :: "nat \<Rightarrow> kstate \<Rightarrow> nat option \<times> kstate" where
  "scheduler_remove_running c st =
     (current_thread (sched c st), upd_sched c (\<lambda>s. s\<lparr>current_thread := None\<rparr>) st)"

definition scheduler_save_thread :: "nat \<Rightarrow> trap_frame \<Rightarrow> kstate \<Rightarrow> kstate" where
  "scheduler_save_thread th current_frame st = upd_thread th (\<lambda>t.
     if t_is_kernel t \<noteq> 0
     then t\<lparr>t_frame := current_frame\<lparr>tf_esp := tf_esp (t_frame t), tf_ss := tf_ss (t_frame t)\<rparr>\<rparr>
     else t\<lparr>t_frame := current_frame\<rparr>) st"

definition scheduler_restore_thread :: "nat \<Rightarrow> kstate \<Rightarrow> u32 \<times> kstate" where
  "scheduler_restore_thread th st =
     (let f = t_frame (threads st th) in
      if t_is_kernel (threads st th) \<noteq> 0 then
        let frame_base = tf_kernel_esp f - 48
        in (frame_base, st\<lparr>stack_mem := put_words frame_base (kframe_words f) (stack_mem st)\<rparr>)
      else
        let frame_base = tf_kernel_esp f - 56
        in (frame_base, st\<lparr>stack_mem := put_words frame_base (frame_words f) (stack_mem st)\<rparr>))"

section \<open>Public functions\<close>

definition scheduler_zero :: thread_sched where
  "scheduler_zero = \<lparr>ready_heads = \<lambda>_. None, ready_tails = \<lambda>_. None, sched_lock = 0, current_thread = None\<rparr>"

definition scheduler_init :: "nat \<Rightarrow> kstate \<Rightarrow> kstate" where
  "scheduler_init c st = upd_sched c (\<lambda>_. scheduler_zero) st"

text \<open>
  The queue arrays have \<open>NUMBER_PRIORITIES\<close> entries and the priority of a thread is any 32-bit
  number: a greater one is an access outside the arrays.
\<close>

definition scheduler_add_ready :: "nat \<Rightarrow> kstate \<Rightarrow> kstate res" where
  "scheduler_add_ready th st =
     (let c = unat (t_exec_cpu (threads st th)); p = unat (t_priotity (threads st th)) in
      res_bind (get_cpu_storage c st) (\<lambda>_.
        if p \<ge> NUMBER_PRIORITIES then Inl OutOfBounds
        else
          case ready_tails (sched c st) p of
            None \<Rightarrow>
              Inr (upd_thread th (\<lambda>t. t\<lparr>t_prev := None, t_next := None\<rparr>)
                (upd_sched c (set_head p (Some th) \<circ> set_tail p (Some th)) st))
          | Some tail \<Rightarrow>
              (let st = upd_thread tail (\<lambda>t. t\<lparr>t_next := Some th\<rparr>) st;
                   st = upd_thread th (\<lambda>t. t\<lparr>t_prev := Some tail, t_next := None\<rparr>) st
               in Inr (upd_sched c (set_tail p (Some th)) st))))"

definition scheduler_evict_thread :: "nat \<Rightarrow> trap_frame \<Rightarrow> kstate \<Rightarrow> nat option \<times> kstate" where
  "scheduler_evict_thread c current_frame st =
     (case scheduler_remove_running c st of
        (None, _) \<Rightarrow> (None, st)
      | (Some old_thread, st) \<Rightarrow> (Some old_thread, scheduler_save_thread old_thread current_frame st))"

definition scheduler_preempt_thread :: "nat \<Rightarrow> trap_frame \<Rightarrow> kstate \<Rightarrow> (nat option \<times> kstate) res" where
  "scheduler_preempt_thread c current_frame st =
     (case scheduler_evict_thread c current_frame st of
        (None, st) \<Rightarrow> Inr (None, st)
      | (Some thread, st) \<Rightarrow> res_bind (scheduler_add_ready thread st) (\<lambda>st. Inr (Some thread, st)))"

definition scheduler_schedule_thread :: "nat \<Rightarrow> kstate \<Rightarrow> (nat \<times> kstate) res" where
  "scheduler_schedule_thread c st =
     (let q_index = scheduler_get_first_non_empty (sched c st) in
      if q_index \<ge> NUMBER_PRIORITIES then Inl (Panic ''invalid scheduling queue received'')
      else
        res_bind (scheduler_remove_ready c q_index st) (\<lambda>(to_run, st).
          Inr (to_run, upd_sched c (\<lambda>s. s\<lparr>current_thread := Some to_run\<rparr>) st)))"

definition scheduler_current_schedule_thread :: "nat \<Rightarrow> kstate \<Rightarrow> (nat \<times> kstate) res" where
  "scheduler_current_schedule_thread me st =
     res_bind (get_cpu_storage me st) (\<lambda>_. scheduler_schedule_thread me st)"

definition scheduler_current_execute :: "nat \<Rightarrow> kstate \<Rightarrow> kstate res" where
  "scheduler_current_execute me st =
     res_bind (get_cpu_storage me st) (\<lambda>_.
     case current_thread (sched me st) of
       None \<Rightarrow> Inl (Panic ''scheduler received null thread to execute'')
     | Some thread \<Rightarrow>
         res_bind (deref (t_parent (threads st thread))) (\<lambda>parent.
           let st = st\<lparr>cpu_cr3 := (cpu_cr3 st)(me := p_page_directory (process_slots st parent))\<rparr>;
               (frame_base, st) = scheduler_restore_thread thread st;
               kss = (if t_is_kernel (threads st thread) \<noteq> 0 then GDT_SS_ENTRY (of_nat me) * 8
                      else r_ss (cpu_run st me))
           in Inr (st\<lparr>cpu_run := (cpu_run st)(me := iret_frame (stack_mem st) frame_base kss)\<rparr>)))"

definition scheduler_current_start :: "nat \<Rightarrow> kstate \<Rightarrow> kstate res" where
  "scheduler_current_start me st =
     res_bind (get_cpu_storage me st) (\<lambda>_.
     res_bind (scheduler_schedule_thread me st) (\<lambda>(_, st). scheduler_current_execute me st))"

definition get_current_thread :: "nat \<Rightarrow> kstate \<Rightarrow> nat option res" where
  "get_current_thread me st = res_bind (get_cpu_storage me st) (\<lambda>d. Inr (current_thread (pc_scheduler d)))"

end
