(* ===== verification/Fifo_Queue.thy ===== *)
theory Fifo_Queue
  imports Main
begin

text \<open>
  The contract of a first-in first-out queue of threads, which the ready queues and the wait
  queues of semaphores fulfil, and what a client may conclude from it: threads leave in the order
  they came, and moving the first thread to the end again and again serves every thread in turn.
\<close>

locale fifo_queue =
  fixes rep :: "'s \<Rightarrow> nat list \<Rightarrow> bool"
    and enq :: "nat \<Rightarrow> 's \<Rightarrow> 's"
    and deq :: "'s \<Rightarrow> nat \<times> 's"
  assumes rep_enq: "rep s xs \<Longrightarrow> x \<notin> set xs \<Longrightarrow> rep (enq x s) (xs @ [x])"
    and rep_deq: "rep s (x # xs) \<Longrightarrow> fst (deq s) = x \<and> rep (snd (deq s)) xs"
    and rep_distinct: "rep s xs \<Longrightarrow> distinct xs"
begin

primrec deqs :: "nat \<Rightarrow> 's \<Rightarrow> nat list \<times> 's" where
  "deqs 0 s = ([], s)"
| "deqs (Suc n) s = (let (x, s') = deq s; (xs, s'') = deqs n s' in (x # xs, s''))"

lemma in_order: "rep s (xs @ ys) \<Longrightarrow> fst (deqs (length xs) s) = xs \<and> rep (snd (deqs (length xs) s)) ys"
proof (induction xs arbitrary: s)
  case Nil
  then show ?case by simp
next
  case (Cons x xs)
  then have "fst (deq s) = x" "rep (snd (deq s)) (xs @ ys)" using rep_deq by auto
  with Cons.IH [of "snd (deq s)"] show ?case by (simp add: split_beta)
qed

definition rotate_q :: "'s \<Rightarrow> 's" where
  "rotate_q s = enq (fst (deq s)) (snd (deq s))"

lemma rep_rotate_q:
  assumes "rep s (x # xs)"
  shows "rep (rotate_q s) (xs @ [x])"
  using rep_deq [OF assms] rep_distinct [OF assms] rep_enq by (simp add: rotate_q_def)

lemma rep_rotations:
  assumes "rep s xs" "xs \<noteq> []"
  shows "rep ((rotate_q ^^ k) s) (rotate k xs)"
proof (induction k)
  case 0
  then show ?case using assms by simp
next
  case (Suc k)
  obtain y ys where y: "rotate k xs = y # ys" using assms(2) by (cases "rotate k xs") auto
  have "rep (rotate_q ((rotate_q ^^ k) s)) (ys @ [y])" using rep_rotate_q Suc y by metis
  moreover have "rotate (Suc k) xs = ys @ [y]" by (simp add: y)
  ultimately show ?case by simp
qed

text \<open>The thread at position \<open>k\<close> is the one served after \<open>k\<close> rotations.\<close>

lemma every_thread_served:
  assumes "rep s xs" "k < length xs"
  shows "fst (deq ((rotate_q ^^ k) s)) = xs ! k"
proof -
  have "xs \<noteq> []" using assms(2) by auto
  then obtain y ys where y: "rotate k xs = y # ys" by (cases "rotate k xs") auto
  have "rep ((rotate_q ^^ k) s) (y # ys)" using rep_rotations [OF assms(1) \<open>xs \<noteq> []\<close>, of k] y by simp
  then have "fst (deq ((rotate_q ^^ k) s)) = hd (rotate k xs)" using rep_deq y by auto
  also have "\<dots> = xs ! k" using assms(2) \<open>xs \<noteq> []\<close> by (simp add: hd_rotate_conv_nth)
  finally show ?thesis .
qed

end

end
