(* ===== verification/Thread_Queues.thy ===== *)
theory Thread_Queues
  imports Thread_Sched Fifo_Queue
begin

text \<open>
  Linked lists of threads.  A ready queue is the doubly linked list of thread_sched.c: a map of
  threads with a head and a tail pointer; a wait queue is the singly linked list of a semaphore.
  \<open>ready_rep\<close> and \<open>wait_rep\<close> say which list of threads such pointers stand for; both kinds
  fulfil the contract of a first-in first-out queue.
\<close>

type_synonym tmap = "nat \<Rightarrow> tcb"
type_synonym queue = "tmap \<times> nat option \<times> nat option"

definition first :: "nat list \<Rightarrow> nat option" where
  "first xs = (case xs of [] \<Rightarrow> None | x # _ \<Rightarrow> Some x)"

definition final :: "nat list \<Rightarrow> nat option" where
  "final xs = (if xs = [] then None else Some (last xs))"

lemma first_simps [simp]: "first [] = None" "first (x # xs) = Some x" "first xs = None \<longleftrightarrow> xs = []"
  by (simp_all add: first_def split: list.split)

lemma final_simps [simp]: "final [] = None" "final (xs @ [x]) = Some x" "final [x] = Some x" "final xs = None \<longleftrightarrow> xs = []"
  by (simp_all add: final_def)

lemma final_Cons: "final (x # xs) = (if xs = [] then Some x else final xs)"
  by (simp add: final_def)

lemma final_SomeD: "final xs = Some x \<Longrightarrow> \<exists>ys. xs = ys @ [x]"
  by (metis append_butlast_last_id final_def option.distinct(1) option.inject)

section \<open>Segments\<close>

fun dseg :: "tmap \<Rightarrow> nat option \<Rightarrow> nat list \<Rightarrow> bool" where
  "dseg T p [] = True"
| "dseg T p (x # xs) = (t_prev (T x) = p \<and> t_next (T x) = first xs \<and> dseg T (Some x) xs)"

fun sseg :: "tmap \<Rightarrow> nat list \<Rightarrow> bool" where
  "sseg T [] = True"
| "sseg T (x # xs) = (t_next (T x) = first xs \<and> sseg T xs)"

lemma dseg_cong:
  "(\<And>x. x \<in> set xs \<Longrightarrow> t_prev (T x) = t_prev (T' x) \<and> t_next (T x) = t_next (T' x)) \<Longrightarrow> dseg T p xs = dseg T' p xs"
  by (induction xs arbitrary: p) auto

lemma sseg_cong: "(\<And>x. x \<in> set xs \<Longrightarrow> t_next (T x) = t_next (T' x)) \<Longrightarrow> sseg T xs = sseg T' xs"
  by (induction xs) auto

lemma dseg_upd_other: "x \<notin> set xs \<Longrightarrow> dseg (T(x := t)) p xs = dseg T p xs"
  by (rule dseg_cong) auto

lemma sseg_upd_other: "x \<notin> set xs \<Longrightarrow> sseg (T(x := t)) xs = sseg T xs"
  by (rule sseg_cong) auto

definition ready_rep :: "queue \<Rightarrow> nat list \<Rightarrow> bool" where
  "ready_rep q xs \<longleftrightarrow> (case q of (T, h, t) \<Rightarrow>
     distinct xs \<and> h = first xs \<and> t = final xs \<and> dseg T None xs)"

definition wait_rep :: "queue \<Rightarrow> nat list \<Rightarrow> bool" where
  "wait_rep q xs \<longleftrightarrow> (case q of (T, h, t) \<Rightarrow>
     distinct xs \<and> h = first xs \<and> t = final xs \<and> sseg T xs)"

section \<open>Operations on one queue\<close>

definition ready_enq :: "nat \<Rightarrow> queue \<Rightarrow> queue" where
  "ready_enq x q = (case q of (T, h, t) \<Rightarrow>
     (case t of
        None \<Rightarrow> (T(x := (T x)\<lparr>t_prev := None, t_next := None\<rparr>), Some x, Some x)
      | Some u \<Rightarrow>
          let T = T(u := (T u)\<lparr>t_next := Some x\<rparr>); T = T(x := (T x)\<lparr>t_prev := Some u, t_next := None\<rparr>)
          in (T, h, Some x)))"

definition ready_deq :: "queue \<Rightarrow> nat \<times> queue" where
  "ready_deq q = (case q of (T, h, t) \<Rightarrow>
     (case h of
        None \<Rightarrow> (0, q)
      | Some x \<Rightarrow>
          (case t_next (T x) of
             None \<Rightarrow> (x, T(x := (T x)\<lparr>t_prev := None, t_next := None\<rparr>), None, None)
           | Some n \<Rightarrow>
               let T = T(n := (T n)\<lparr>t_prev := None\<rparr>)
               in (x, T(x := (T x)\<lparr>t_prev := None, t_next := None\<rparr>), Some n, t))))"

definition wait_enq :: "nat \<Rightarrow> queue \<Rightarrow> queue" where
  "wait_enq x q = (case q of (T, h, t) \<Rightarrow>
     (case t of
        None \<Rightarrow> (T(x := (T x)\<lparr>t_next := None\<rparr>), Some x, Some x)
      | Some u \<Rightarrow>
          let T = T(u := (T u)\<lparr>t_next := Some x\<rparr>)
          in (T(x := (T x)\<lparr>t_next := None\<rparr>), h, Some x)))"

definition wait_deq :: "queue \<Rightarrow> nat \<times> queue" where
  "wait_deq q = (case q of (T, h, t) \<Rightarrow>
     (case h of
        None \<Rightarrow> (0, q)
      | Some x \<Rightarrow>
          if h = t then (x, T, None, None)
          else (x, T(x := (T x)\<lparr>t_next := None\<rparr>), t_next (T x), t)))"

lemma dseg_append_enq:
  "dseg T p (xs @ [u]) \<Longrightarrow> x \<notin> set (xs @ [u]) \<Longrightarrow> distinct (xs @ [u]) \<Longrightarrow> T' u = (T u)\<lparr>t_next := Some x\<rparr> \<Longrightarrow>
   t_prev (T' x) = Some u \<Longrightarrow> t_next (T' x) = None \<Longrightarrow> (\<And>y. y \<noteq> u \<Longrightarrow> y \<noteq> x \<Longrightarrow> T' y = T y) \<Longrightarrow>
   dseg T' p (xs @ [u, x])"
proof (induction xs arbitrary: p)
  case Nil
  then show ?case by simp
next
  case (Cons y xs)
  have "first (xs @ [u, x]) = first (xs @ [u])" by (cases xs) simp_all
  with Cons show ?case by (simp del: dseg_cong)
qed

lemma ready_enq_rep:
  assumes "ready_rep q xs" "x \<notin> set xs"
  shows "ready_rep (ready_enq x q) (xs @ [x])"
proof -
  obtain T h t where q: "q = (T, h, t)" by (cases q)
  show ?thesis
  proof (cases xs rule: rev_exhaust)
    case Nil
    with assms q show ?thesis by (simp add: ready_rep_def ready_enq_def)
  next
    case (snoc ys u)
    have "first ((ys @ [u]) @ [x]) = first (ys @ [u])" by (cases ys) simp_all
    moreover have "dseg (T(u := (T u)\<lparr>t_next := Some x\<rparr>, x := (T x)\<lparr>t_prev := Some u, t_next := None\<rparr>)) None (ys @ [u, x])"
      by (rule dseg_append_enq [of T]) (use assms q snoc in \<open>auto simp: ready_rep_def\<close>)
    moreover have "x \<noteq> u" using assms(2) snoc by auto
    moreover have "final (ys @ [u, x]) = Some x" using final_simps(2) [of "ys @ [u]" x] by simp
    ultimately show ?thesis using assms q snoc by (simp add: ready_rep_def ready_enq_def Let_def)
  qed
qed

lemma ready_deq_rep:
  assumes "ready_rep q (x # xs)"
  shows "fst (ready_deq q) = x \<and> ready_rep (snd (ready_deq q)) xs"
proof -
  obtain T h t where q: "q = (T, h, t)" by (cases q)
  have h: "h = Some x" "t_next (T x) = first xs" "dseg T (Some x) xs" "distinct xs" "x \<notin> set xs" "t = final (x # xs)"
    using assms q by (auto simp: ready_rep_def)
  show ?thesis
  proof (cases xs)
    case Nil
    with h q show ?thesis by (simp add: ready_deq_def ready_rep_def)
  next
    case (Cons y ys)
    have "dseg (T(y := (T y)\<lparr>t_prev := None\<rparr>, x := (T x)\<lparr>t_prev := None, t_next := None\<rparr>)) (Some y) ys = dseg T (Some y) ys"
      using h Cons by (intro dseg_cong) auto
    with h q Cons show ?thesis by (auto simp: ready_deq_def ready_rep_def final_Cons Let_def)
  qed
qed

lemma sseg_append_enq:
  "sseg T (xs @ [u]) \<Longrightarrow> x \<notin> set (xs @ [u]) \<Longrightarrow> distinct (xs @ [u]) \<Longrightarrow> t_next (T' u) = Some x \<Longrightarrow>
   t_next (T' x) = None \<Longrightarrow> (\<And>y. y \<noteq> u \<Longrightarrow> y \<noteq> x \<Longrightarrow> T' y = T y) \<Longrightarrow> sseg T' (xs @ [u, x])"
proof (induction xs)
  case Nil
  then show ?case by simp
next
  case (Cons y xs)
  have "first (xs @ [u, x]) = first (xs @ [u])" by (cases xs) simp_all
  with Cons show ?case by simp
qed

lemma wait_enq_rep:
  assumes "wait_rep q xs" "x \<notin> set xs"
  shows "wait_rep (wait_enq x q) (xs @ [x])"
proof -
  obtain T h t where q: "q = (T, h, t)" by (cases q)
  show ?thesis
  proof (cases xs rule: rev_exhaust)
    case Nil
    with assms q show ?thesis by (simp add: wait_rep_def wait_enq_def)
  next
    case (snoc ys u)
    have "first ((ys @ [u]) @ [x]) = first (ys @ [u])" by (cases ys) simp_all
    moreover have "sseg (T(u := (T u)\<lparr>t_next := Some x\<rparr>, x := (T x)\<lparr>t_next := None\<rparr>)) (ys @ [u, x])"
      by (rule sseg_append_enq [of T]) (use assms q snoc in \<open>auto simp: wait_rep_def\<close>)
    moreover have "x \<noteq> u" using assms(2) snoc by auto
    moreover have "final (ys @ [u, x]) = Some x" using final_simps(2) [of "ys @ [u]" x] by simp
    ultimately show ?thesis using assms q snoc by (simp add: wait_rep_def wait_enq_def Let_def)
  qed
qed

lemma wait_deq_rep:
  assumes "wait_rep q (x # xs)"
  shows "fst (wait_deq q) = x \<and> wait_rep (snd (wait_deq q)) xs"
proof -
  obtain T h t where q: "q = (T, h, t)" by (cases q)
  have h: "h = Some x" "t_next (T x) = first xs" "sseg T xs" "distinct xs" "x \<notin> set xs" "t = final (x # xs)"
    using assms q by (auto simp: wait_rep_def)
  show ?thesis
  proof (cases xs)
    case Nil
    with h q show ?thesis by (simp add: wait_deq_def wait_rep_def final_Cons)
  next
    case (Cons y ys)
    have "final xs \<noteq> Some x" using h(5) by (metis final_SomeD in_set_conv_decomp)
    moreover have "sseg (T(x := (T x)\<lparr>t_next := None\<rparr>)) xs" using h(3,5) sseg_upd_other by simp
    ultimately show ?thesis using h q Cons
      by (simp add: wait_deq_def wait_rep_def final_Cons split: if_splits)
  qed
qed

interpretation ready: fifo_queue ready_rep ready_enq ready_deq
  by unfold_locales (rule ready_enq_rep, assumption+, rule ready_deq_rep, assumption, auto simp: ready_rep_def)

interpretation waiting: fifo_queue wait_rep wait_enq wait_deq
  by unfold_locales (rule wait_enq_rep, assumption+, rule wait_deq_rep, assumption, auto simp: wait_rep_def)

lemma ready_rep_cong:
  "(\<And>x. x \<in> set xs \<Longrightarrow> t_prev (T x) = t_prev (T' x) \<and> t_next (T x) = t_next (T' x)) \<Longrightarrow>
   ready_rep (T, h, t) xs = ready_rep (T', h, t) xs"
  unfolding ready_rep_def prod.case using dseg_cong [of xs T T' None] by metis

lemma wait_rep_cong:
  "(\<And>x. x \<in> set xs \<Longrightarrow> t_next (T x) = t_next (T' x)) \<Longrightarrow> wait_rep (T, h, t) xs = wait_rep (T', h, t) xs"
  unfolding wait_rep_def prod.case using sseg_cong [of xs T T'] by metis

end
