(* ===== verification/Slot_Table.thy ===== *)
theory Slot_Table
  imports Prelude
begin

text \<open>
  Tables of slots.  The process, thread and mailbox tables share a scheme: one operation tries to
  take a given slot and answers a null pointer when it is taken, another tries the slots in
  order.  The locale states what the first promises and derives what the second does.
\<close>

text \<open>\<^verbatim>\<open>for (i; ...; i++) if (x = create(i)) return x;\<close> with \<open>n\<close> slots to go.\<close>

primrec try_slots :: "(nat \<Rightarrow> 's \<Rightarrow> (nat option \<times> 's) res) \<Rightarrow> nat \<Rightarrow> nat \<Rightarrow> 's \<Rightarrow> (nat option \<times> 's) res" where
  "try_slots create 0 i st = Inr (None, st)"
| "try_slots create (Suc n) i st =
     res_bind (create i st) (\<lambda>(x, st). if x \<noteq> None then Inr (x, st) else try_slots create n (Suc i) st)"

locale slot_table =
  fixes create :: "nat \<Rightarrow> 's \<Rightarrow> (nat option \<times> 's) res"
    and used :: "'s \<Rightarrow> nat \<Rightarrow> bool"
    and idle :: "'s \<Rightarrow> bool"
    and slots :: nat
  assumes create_used: "\<And>i st. idle st \<Longrightarrow> i < slots \<Longrightarrow> used st i \<Longrightarrow> create i st = Inr (None, st)"
    and create_free: "\<And>i st. idle st \<Longrightarrow> i < slots \<Longrightarrow> \<not> used st i \<Longrightarrow>
      \<exists>st'. create i st = Inr (Some i, st') \<and> idle st' \<and> (\<forall>j. used st' j \<longleftrightarrow> j = i \<or> used st j)"
begin

lemma try_skip:
  "idle st \<Longrightarrow> i + k + n = slots \<Longrightarrow> \<forall>j. i \<le> j \<and> j < i + k \<longrightarrow> used st j \<Longrightarrow>
   try_slots create (k + n) i st = try_slots create n (i + k) st"
proof (induction k arbitrary: i)
  case (Suc k)
  have "create i st = Inr (None, st)" using Suc.prems by (intro create_used) auto
  then show ?case using Suc.IH [of "Suc i"] Suc.prems by simp
qed simp

lemma try_full:
  assumes "idle st" "\<forall>j < slots. used st j"
  shows "try_slots create slots 0 st = Inr (None, st)"
  using try_skip [OF assms(1), of 0 slots 0] assms(2) by simp

lemma try_first:
  assumes st: "idle st" and i: "i < slots" "\<not> used st i" "\<forall>j < i. used st j"
  shows "try_slots create slots 0 st = create i st \<and>
    (\<exists>st'. create i st = Inr (Some i, st') \<and> idle st' \<and> (\<forall>j. used st' j \<longleftrightarrow> j = i \<or> used st j))"
proof -
  obtain st' where c: "create i st = Inr (Some i, st')" "idle st'" "\<forall>j. used st' j \<longleftrightarrow> j = i \<or> used st j"
    using create_free [OF st i(1,2)] by blast
  have "try_slots create (i + Suc (slots - Suc i)) 0 st = try_slots create (Suc (slots - Suc i)) i st"
    using try_skip [OF st, of 0 i "Suc (slots - Suc i)"] i by simp
  with c i show ?thesis by simp
qed

text \<open>Two creations never answer the same slot.\<close>

lemma try_twice:
  assumes "idle st" "try_slots create slots 0 st = Inr (Some i, st1)" "try_slots create slots 0 st1 = Inr (Some j, st2)"
  shows "i < j \<and> \<not> used st i \<and> \<not> used st j"
proof -
  have least: "\<exists>i < slots. \<not> used s i \<and> (\<forall>j < i. used s j)" if "\<not> (\<forall>j < slots. used s j)" for s
  proof -
    define i where "i = (LEAST i. \<not> used s i)"
    from that obtain k where k: "k < slots" "\<not> used s k" by blast
    have "\<not> used s i" unfolding i_def by (rule LeastI [of "\<lambda>i. \<not> used s i", OF k(2)])
    moreover have "i \<le> k" unfolding i_def by (rule Least_le) (rule k(2))
    moreover have "\<forall>j < i. used s j" unfolding i_def using not_less_Least by blast
    ultimately show ?thesis using k(1) by (intro exI [of _ i]) simp
  qed
  have "\<not> (\<forall>j < slots. used st j)" using try_full [OF assms(1)] assms(2) by auto
  from least [OF this] obtain a where a: "a < slots" "\<not> used st a" "\<forall>j < a. used st j" by blast
  from try_first [OF assms(1) this] assms(2) have st1: "a = i" "idle st1" "\<forall>j. used st1 j \<longleftrightarrow> j = i \<or> used st j" by auto
  have "\<not> (\<forall>j < slots. used st1 j)" using try_full [OF st1(2)] assms(3) by auto
  from least [OF this] obtain b where b: "b < slots" "\<not> used st1 b" "\<forall>j < b. used st1 j" by blast
  from try_first [OF st1(2) this] assms(3) have "b = j" by auto
  moreover have "\<not> b < a" using a(3) b(2) st1(3) by blast
  moreover have "b \<noteq> a" using b(2) st1(1,3) by blast
  ultimately show ?thesis using a b st1 by auto
qed

end

end
