(* ===== verification/Ipc.thy ===== *)
theory Ipc
  imports Thread_Sched Slot_Table
begin

text \<open>
  Semaphores, mailboxes and messages: \<^verbatim>\<open>sync/semaphore.c\<close>, \<^verbatim>\<open>ipc/mailbox.c\<close>,
  \<^verbatim>\<open>ipc/ipc.c\<close> and \<^verbatim>\<open>ipc/cpu_messages.c\<close>.

  semaphore_wait on a count of 0 sends the message CM_SEM_WAIT to its own processor and returns
  with the semaphore's lock held, whatever send answered: the outcome \<open>Posted\<close>.  What stops the
  caller is the interrupt this message raises, whose handler takes the running thread off the
  processor.  The C code relies on it coming before the next statement of the caller and nothing
  makes sure of that.  So the functions that wait have an argument \<open>now\<close>, the choice of the
  hardware: with \<open>True\<close> the processor takes the interrupt under way to it at once and the function
  is left in the middle, with \<open>False\<close> the function runs on.  The code behind the wait is a
  definition of its own, named after its function with \<open>_after\<close>: it runs at once, or when the
  thread runs again.  A lock that is held is \<open>SpinForever\<close>: the processor waits until another one
  lets go.

  semaphore_wait and semaphore_signal call send, and send to a thread's mailbox calls them: the
  recursion is bounded by a fuel argument of send.  Two levels are enough whenever the mailboxes
  with the processors' numbers are processor mailboxes, which is how they are created.
\<close>

unbundle bit_operations_syntax

section \<open>Interrupts between processors\<close>

text \<open>
  lapic_send_ipi_std keeps four bits of the target (\<^verbatim>\<open>target_id & 0x0F\<close>); the register
  values it writes are in the theory of the local APIC.
\<close>

definition send_ipi :: "u8 \<Rightarrow> u8 \<Rightarrow> kstate \<Rightarrow> kstate" where
  "send_ipi target vector st = st\<lparr>ipis := ipis st @ [(target AND 0x0F, vector)]\<rparr>"

definition send_eoi :: "kstate \<Rightarrow> kstate" where "send_eoi st = st\<lparr>eois := eois st + 1\<rparr>"

section \<open>Semaphores\<close>

text \<open>The count was taken, or the message that asks for the wait was sent.\<close>

datatype wait_outcome = Passed | Posted

definition semaphore_init :: "sem_ref \<Rightarrow> u32 \<Rightarrow> kstate \<Rightarrow> kstate" where
  "semaphore_init sem val st = upd_sem sem
     (\<lambda>s. s\<lparr>sem_count := val, sem_lock := 0, waiting_head := None, waiting_tail := None\<rparr>) st"

text \<open>The type of the messages built here is never set and never read.\<close>

definition cpu_message :: "nat \<Rightarrow> u16 \<Rightarrow> u8 \<Rightarrow> ptr \<Rightarrow> message" where
  "cpu_message me dst func p = \<lparr>msg_src = of_nat me, msg_dst = dst, msg_func = func, msg_type = 0, msg_ptr = p\<rparr>"

definition semaphore_wait_by ::
    "(message \<Rightarrow> kstate \<Rightarrow> (error_t \<times> kstate) res) \<Rightarrow> nat \<Rightarrow> sem_ref \<Rightarrow> kstate \<Rightarrow> (wait_outcome \<times> kstate) res" where
  "semaphore_wait_by snd_fn me sem st =
     res_bind (acquire_spinlock (sem_lock (get_sem sem st))) (\<lambda>l.
       let st = upd_sem sem (\<lambda>s. s\<lparr>sem_lock := l\<rparr>) st in
       if sem_count (get_sem sem st) \<le> 0 then
         res_bind (snd_fn (cpu_message me (of_nat me) CM_SEM_WAIT (Sem_ptr sem)) st) (\<lambda>(_, st).
           Inr (Posted, st))
       else
         let st = upd_sem sem (\<lambda>s. s\<lparr>sem_count := sem_count s - 1\<rparr>) st
         in Inr (Passed, upd_sem sem (\<lambda>s. s\<lparr>sem_lock := release_spinlock (sem_lock s)\<rparr>) st))"

definition semaphore_signal_by ::
    "(message \<Rightarrow> kstate \<Rightarrow> (error_t \<times> kstate) res) \<Rightarrow> nat \<Rightarrow> sem_ref \<Rightarrow> kstate \<Rightarrow> kstate res" where
  "semaphore_signal_by snd_fn me sem st =
     res_bind (acquire_spinlock (sem_lock (get_sem sem st))) (\<lambda>l.
       let st = upd_sem sem (\<lambda>s. s\<lparr>sem_lock := l\<rparr>) st in
       if waiting_tail (get_sem sem st) \<noteq> None then
         res_bind (if waiting_head (get_sem sem st) = waiting_tail (get_sem sem st)
                   then res_bind (deref (waiting_head (get_sem sem st))) (\<lambda>thread.
                     Inr (thread, upd_sem sem (\<lambda>s. s\<lparr>waiting_head := None, waiting_tail := None\<rparr>) st))
                   else res_bind (deref (waiting_head (get_sem sem st))) (\<lambda>thread.
                     let nxt = t_next (threads st thread);
                         st = upd_sem sem (\<lambda>s. s\<lparr>waiting_head := nxt\<rparr>) st
                     in Inr (thread, upd_thread thread (\<lambda>t. t\<lparr>t_next := None\<rparr>) st))) (\<lambda>(thread, st).
           let st = upd_sem sem (\<lambda>s. s\<lparr>sem_lock := release_spinlock (sem_lock s)\<rparr>) st in
           res_bind (snd_fn (cpu_message me (ucast (t_exec_cpu (threads st thread))) CM_AWAKEN_THREAD
                              (Tcb_ptr thread)) st) (\<lambda>(_, st). Inr st))
       else
         let st = upd_sem sem (\<lambda>s. s\<lparr>sem_count := sem_count s + 1\<rparr>) st
         in Inr (upd_sem sem (\<lambda>s. s\<lparr>sem_lock := release_spinlock (sem_lock s)\<rparr>) st))"

section \<open>Mailboxes\<close>

definition mailbox_create_static :: "u16 \<Rightarrow> u16 \<Rightarrow> ptr \<Rightarrow> kstate \<Rightarrow> (nat option \<times> kstate) res" where
  "mailbox_create_static mid type owner st =
     res_bind (acquire_spinlock (ms_lock st)) (\<lambda>l.
       let st = st\<lparr>ms_lock := l\<rparr>; m = unat mid in
       if m \<ge> MAX_MAILBOX_SLOTS then Inl OutOfBounds
       else if mb_type (mailbox_slots st m) \<noteq> 0
       then Inr (None, st\<lparr>ms_lock := release_spinlock (ms_lock st)\<rparr>)
       else
         let st = upd_mailbox m (\<lambda>mb. mb\<lparr>mb_type := type\<rparr>) st;
             st = st\<lparr>ms_lock := release_spinlock (ms_lock st)\<rparr>;
             st = upd_mailbox m (\<lambda>mb. mb\<lparr>mb_owner := owner\<rparr>) st;
             st = (if type > MAILBOX_ABOVE_SEMAPHORE
                   then semaphore_init (Sem_recv m) 0 (semaphore_init (Sem_rdy m) 1 st)
                   else upd_mailbox m (set_msg_lock 0) st)
         in Inr (Some m, st))"

definition mailbox_create :: "u16 \<Rightarrow> ptr \<Rightarrow> kstate \<Rightarrow> (nat option \<times> kstate) res" where
  "mailbox_create type owner st = 
     try_slots (\<lambda>i. mailbox_create_static (of_nat i) type owner) MAX_MAILBOX_SLOTS 0 st"

definition get_mailbox :: "u16 \<Rightarrow> kstate \<Rightarrow> nat option res" where
  "get_mailbox mid st =
     (if unat mid \<ge> MAX_MAILBOX_SLOTS then Inl OutOfBounds
      else if mb_type (mailbox_slots st (unat mid)) = 0 then Inr None else Inr (Some (unat mid)))"

section \<open>Sending and receiving\<close>

definition send_mail_cpu :: "nat \<Rightarrow> message \<Rightarrow> kstate \<Rightarrow> (error_t \<times> kstate) res" where
  "send_mail_cpu dest msg st =
     res_bind (acquire_spinlock (msg_lock (mailbox_slots st dest))) (\<lambda>l.
       let st = upd_mailbox dest (set_msg_lock l) st;
           st = upd_mailbox dest (\<lambda>mb. mb\<lparr>mb_message := msg\<rparr>) st in
       case mb_owner (mailbox_slots st dest) of
         Cpu_ptr c \<Rightarrow>
           res_bind (get_cpu_storage c st) (\<lambda>d. Inr (ERROR_OK, send_ipi (ucast (pc_id d)) 100 st))
       | Null_ptr \<Rightarrow> Inl NullDeref
       | _ \<Rightarrow> Inl OutOfBounds)"

text \<open>
  The processor leaves a function that has just returned from semaphore_wait: it had to wait and
  the interrupt under way to this processor is taken now.
\<close>

definition left_at_wait :: "bool \<Rightarrow> nat \<Rightarrow> wait_outcome \<Rightarrow> kstate \<Rightarrow> bool" where
  "left_at_wait now me w st \<longleftrightarrow> now \<and> w = Posted \<and> (of_nat me AND 0x0F, 100) \<in> set (ipis st)"

text \<open>What __send_mail_thread and __recv_mail_thread do behind their wait.\<close>

definition send_mail_thread_after ::
    "(message \<Rightarrow> kstate \<Rightarrow> (error_t \<times> kstate) res) \<Rightarrow> nat \<Rightarrow> nat \<Rightarrow> message \<Rightarrow> kstate \<Rightarrow> (error_t \<times> kstate) res" where
  "send_mail_thread_after snd_fn me dest msg st =
     (let st = upd_mailbox dest (\<lambda>mb. mb\<lparr>mb_message := msg\<rparr>) st in
      res_bind (semaphore_signal_by snd_fn me (Sem_recv dest) st) (\<lambda>st. Inr (ERROR_OK, st)))"

definition send_mail_thread ::
    "(message \<Rightarrow> kstate \<Rightarrow> (error_t \<times> kstate) res) \<Rightarrow> nat \<Rightarrow> bool \<Rightarrow> nat \<Rightarrow> message \<Rightarrow> kstate \<Rightarrow>
     (error_t option \<times> kstate) res" where
  "send_mail_thread snd_fn me now dest msg st =
     res_bind (semaphore_wait_by snd_fn me (Sem_rdy dest) st) (\<lambda>(w, st).
       if left_at_wait now me w st then Inr (None, st)
       else res_bind (send_mail_thread_after snd_fn me dest msg st) (\<lambda>(e, st). Inr (Some e, st)))"

definition recv_mail_cpu :: "nat \<Rightarrow> kstate \<Rightarrow> message" where
  "recv_mail_cpu mbox st = mb_message (mailbox_slots st mbox)"

definition recv_mail_thread_after ::
    "(message \<Rightarrow> kstate \<Rightarrow> (error_t \<times> kstate) res) \<Rightarrow> nat \<Rightarrow> nat \<Rightarrow> kstate \<Rightarrow> (message \<times> kstate) res" where
  "recv_mail_thread_after snd_fn me mbox st =
     (let msg = mb_message (mailbox_slots st mbox) in
      res_bind (semaphore_signal_by snd_fn me (Sem_rdy mbox) st) (\<lambda>st. Inr (msg, st)))"

definition recv_mail_thread ::
    "(message \<Rightarrow> kstate \<Rightarrow> (error_t \<times> kstate) res) \<Rightarrow> nat \<Rightarrow> bool \<Rightarrow> nat \<Rightarrow> kstate \<Rightarrow>
     (message option \<times> kstate) res" where
  "recv_mail_thread snd_fn me now mbox st =
     res_bind (semaphore_wait_by snd_fn me (Sem_recv mbox) st) (\<lambda>(w, st).
       if left_at_wait now me w st then Inr (None, st)
       else res_bind (recv_mail_thread_after snd_fn me mbox st) (\<lambda>(msg, st). Inr (Some msg, st)))"

text \<open>
  send; the answer \<open>None\<close> is a caller taken off its processor.  A send nested in a semaphore's
  own message goes to a processor's mailbox, where nothing waits; it always answers.
\<close>

primrec send :: "nat \<Rightarrow> nat \<Rightarrow> bool \<Rightarrow> message \<Rightarrow> kstate \<Rightarrow> (error_t option \<times> kstate) res" where
  "send 0 me now msg st = Inl Diverges"
| "send (Suc n) me now msg st =
     res_bind (get_mailbox (msg_dst msg) st) (\<lambda>mb.
       case mb of
         None \<Rightarrow> Inr (Some ERROR_OCCUR, st)
       | Some m \<Rightarrow>
           let nested = (\<lambda>msg st. res_bind (send n me False msg st) (\<lambda>(e, st).
                           Inr (case e of Some e \<Rightarrow> e | None \<Rightarrow> ERROR_OK, st))) in
           if mb_type (mailbox_slots st m) = MAILBOX_CPU then
             res_bind (send_mail_cpu m msg st) (\<lambda>(e, st). Inr (Some e, st))
           else if mb_type (mailbox_slots st m) = MAILBOX_THREAD then
             send_mail_thread nested me now m msg st
           else Inr (Some ERROR_OCCUR, st))"

text \<open>The send a semaphore calls, with \<open>n\<close> levels.\<close>

definition send_by :: "nat \<Rightarrow> nat \<Rightarrow> message \<Rightarrow> kstate \<Rightarrow> (error_t \<times> kstate) res" where
  "send_by n me msg st = res_bind (send n me False msg st) (\<lambda>(e, st).
     Inr (case e of Some e \<Rightarrow> e | None \<Rightarrow> ERROR_OK, st))"

definition semaphore_wait :: "nat \<Rightarrow> nat \<Rightarrow> sem_ref \<Rightarrow> kstate \<Rightarrow> (wait_outcome \<times> kstate) res" where
  "semaphore_wait n me = semaphore_wait_by (send_by n me) me"

definition semaphore_signal :: "nat \<Rightarrow> nat \<Rightarrow> sem_ref \<Rightarrow> kstate \<Rightarrow> kstate res" where
  "semaphore_signal n me = semaphore_signal_by (send_by n me) me"

datatype received = Got error_t "message option" | Suspended

definition receive :: "nat \<Rightarrow> nat \<Rightarrow> bool \<Rightarrow> nat option \<Rightarrow> kstate \<Rightarrow> (received \<times> kstate) res" where
  "receive n me now recv_mbox st =
     (case recv_mbox of
        None \<Rightarrow> Inr (Got ERROR_OCCUR None, st)
      | Some m \<Rightarrow>
          if mb_type (mailbox_slots st m) = MAILBOX_CPU then
            Inr (Got ERROR_OK (Some (recv_mail_cpu m st)), st)
          else if mb_type (mailbox_slots st m) = MAILBOX_THREAD then
            res_bind (recv_mail_thread (send_by n me) me now m st) (\<lambda>(msg, st).
              Inr (case msg of None \<Rightarrow> Suspended | Some msg \<Rightarrow> Got ERROR_OK (Some msg), st))
          else Inr (Got ERROR_OCCUR None, st))"

definition receive_current :: "nat \<Rightarrow> nat \<Rightarrow> bool \<Rightarrow> kstate \<Rightarrow> (received \<times> kstate) res" where
  "receive_current n me now st =
     res_bind (get_current_thread me st) (\<lambda>p.
     res_bind (deref p) (\<lambda>thread. receive n me now (t_mailbox (threads st thread)) st))"

definition acknowledge :: "message \<Rightarrow> kstate \<Rightarrow> (error_t \<times> kstate) res" where
  "acknowledge msg st =
     res_bind (get_mailbox (msg_dst msg) st) (\<lambda>mb.
     res_bind (deref mb) (\<lambda>m.
       if mb_type (mailbox_slots st m) \<noteq> MAILBOX_CPU then Inr (ERROR_OCCUR, st)
       else Inr (ERROR_OK, upd_mailbox m (\<lambda>mb. set_msg_lock (release_spinlock (msg_lock mb)) mb) st)))"

section \<open>Messages to a processor\<close>

text \<open>The common tail of the handlers: schedule, acknowledge, end of interrupt, execute.\<close>

definition switch_thread :: "nat \<Rightarrow> message \<Rightarrow> kstate \<Rightarrow> kstate res" where
  "switch_thread me msg st =
     res_bind (scheduler_schedule_thread me st) (\<lambda>(_, st).
     res_bind (acknowledge msg st) (\<lambda>(_, st).
       scheduler_current_execute me (send_eoi st)))"

definition handle_reschedule :: "nat \<Rightarrow> message \<Rightarrow> trap_frame \<Rightarrow> kstate \<Rightarrow> kstate res" where
  "handle_reschedule me msg frame st =
     res_bind (get_cpu_storage me st) (\<lambda>_.
     res_bind (scheduler_preempt_thread me frame st) (\<lambda>(_, st). switch_thread me msg st))"

text \<open>The thread at the end of the wait queue; it was running, so it is in no other queue.\<close>

definition sem_enqueue :: "sem_ref \<Rightarrow> nat option \<Rightarrow> kstate \<Rightarrow> kstate res" where
  "sem_enqueue sem thread st =
     (case waiting_tail (get_sem sem st) of
        None \<Rightarrow> Inr (upd_sem sem (\<lambda>s. s\<lparr>waiting_head := thread, waiting_tail := thread\<rparr>) st)
      | Some tail \<Rightarrow>
          let st = upd_thread tail (\<lambda>t. t\<lparr>t_next := thread\<rparr>) st;
              st = upd_sem sem (\<lambda>s. s\<lparr>waiting_tail := thread\<rparr>) st
          in res_bind (deref thread) (\<lambda>th. Inr (upd_thread th (\<lambda>t. t\<lparr>t_next := None\<rparr>) st)))"

definition handle_sem_wait :: "nat \<Rightarrow> message \<Rightarrow> trap_frame \<Rightarrow> kstate \<Rightarrow> kstate res" where
  "handle_sem_wait me msg frame st =
     res_bind (get_current_thread me st) (\<lambda>cur. res_bind (deref cur) (\<lambda>_.
       case msg_ptr msg of
         Sem_ptr sem \<Rightarrow>
           (let (thread, st) = scheduler_evict_thread me frame st in
            res_bind (sem_enqueue sem thread st) (\<lambda>st.
              let st = upd_sem sem (\<lambda>s. s\<lparr>sem_lock := release_spinlock (sem_lock s)\<rparr>) st
              in switch_thread me msg st))
       | Null_ptr \<Rightarrow> Inl NullDeref
       | _ \<Rightarrow> Inl OutOfBounds))"

definition handle_awaken :: "nat \<Rightarrow> message \<Rightarrow> trap_frame \<Rightarrow> kstate \<Rightarrow> kstate res" where
  "handle_awaken me msg frame st =
     res_bind (get_cpu_storage me st) (\<lambda>_.
       case msg_ptr msg of
         Tcb_ptr thread \<Rightarrow>
           res_bind (scheduler_add_ready thread st) (\<lambda>st.
           res_bind (scheduler_preempt_thread me frame st) (\<lambda>(_, st). switch_thread me msg st))
       | Null_ptr \<Rightarrow> Inl NullDeref
       | _ \<Rightarrow> Inl OutOfBounds)"

text \<open>
  The handler of vector 100.  The three known functions end in another thread and do not come
  back; any other message is acknowledged and the interrupted code goes on.  The handler runs with
  interrupts off, so nothing is taken while it receives.
\<close>

definition cpu_message_handler :: "nat \<Rightarrow> nat \<Rightarrow> trap_frame \<Rightarrow> kstate \<Rightarrow> kstate res" where
  "cpu_message_handler n me regs st =
     res_bind (get_cpu_storage me st) (\<lambda>d.
     res_bind (receive n me False (pc_mailbox d) st) (\<lambda>(got, st).
       case got of
         Got _ (Some msg) \<Rightarrow>
           if msg_func msg = CM_RESCHEDULE then handle_reschedule me msg regs st
           else if msg_func msg = CM_SEM_WAIT then handle_sem_wait me msg regs st
           else if msg_func msg = CM_AWAKEN_THREAD then handle_awaken me msg regs st
           else res_bind (acknowledge msg st) (\<lambda>(_, st). Inr st)
       | Got _ None \<Rightarrow> Inl Uninitialised
       | Suspended \<Rightarrow> Inr st))"

end
