(* ===== verification/Sched_View.thy ===== *)
theory Sched_View
  imports Thread_Queues Ipc
begin

text \<open>
  The abstract view of scheduling: for every processor and priority a list of ready threads, the
  running thread, for every semaphore the list of waiting threads, and for every thread the one
  place it is in.  \<open>sys_rep\<close> relates the kernel's pointers to a view, and the lemmas below show
  that the code's operations are the list operations on it: the refinement on which the
  properties of the handlers rest.
\<close>

datatype place = Away | Ready nat nat | Running nat | Waiting sem_ref

record view =
  v_ready :: "nat \<Rightarrow> nat \<Rightarrow> nat list"
  v_running :: "nat \<Rightarrow> nat option"
  v_waiting :: "sem_ref \<Rightarrow> nat list"
  v_place :: "nat \<Rightarrow> place"

abbreviation ncpus :: "kstate \<Rightarrow> nat" where "ncpus st \<equiv> length (cpus st)"

definition queues :: "kstate \<Rightarrow> view \<Rightarrow> bool" where
  "queues st v \<longleftrightarrow>
     (\<forall>c p. c < ncpus st \<longrightarrow> p < 8 \<longrightarrow>
        ready_rep (threads st, ready_heads (sched c st) p, ready_tails (sched c st) p) (v_ready v c p)) \<and>
     (\<forall>c. c < ncpus st \<longrightarrow> current_thread (sched c st) = v_running v c) \<and>
     (\<forall>r. wait_rep (threads st, waiting_head (get_sem r st), waiting_tail (get_sem r st)) (v_waiting v r))"

definition cpu_of :: "kstate \<Rightarrow> nat \<Rightarrow> nat" where "cpu_of st x = unat (t_exec_cpu (threads st x))"
definition prio_of :: "kstate \<Rightarrow> nat \<Rightarrow> nat" where "prio_of st x = unat (t_priotity (threads st x))"

definition placed :: "kstate \<Rightarrow> view \<Rightarrow> bool" where
  "placed st v \<longleftrightarrow>
     (\<forall>c p x. x \<in> set (v_ready v c p) \<longleftrightarrow> v_place v x = Ready c p) \<and>
     (\<forall>c x. v_running v c = Some x \<longleftrightarrow> v_place v x = Running c) \<and>
     (\<forall>r x. x \<in> set (v_waiting v r) \<longleftrightarrow> v_place v x = Waiting r) \<and>
     (\<forall>x. v_place v x \<noteq> Away \<longrightarrow> cpu_of st x < ncpus st \<and> prio_of st x < 8) \<and>
     (\<forall>x c p. v_place v x = Ready c p \<longrightarrow> c = cpu_of st x \<and> p = prio_of st x) \<and>
     (\<forall>x c. v_place v x = Running c \<longrightarrow> c = cpu_of st x \<and> t_next (threads st x) = None)"

definition sys_rep :: "kstate \<Rightarrow> view \<Rightarrow> bool" where
  "sys_rep st v \<longleftrightarrow> queues st v \<and> placed st v"

section \<open>What scheduling never changes\<close>

definition static :: "tcb \<Rightarrow> u32 \<times> u16 \<times> u8 \<times> u8 \<times> nat option \<times> u32 \<times> nat option" where
  "static t = (t_flags t, t_tid t, t_is_kernel t, t_exec_cpu t, t_parent t, t_priotity t, t_mailbox t)"

lemma static_link_updates [simp]:
  "static (t\<lparr>t_prev := p\<rparr>) = static t" "static (t\<lparr>t_next := n\<rparr>) = static t"
  "static (t\<lparr>t_frame := f\<rparr>) = static t"
  by (simp_all add: static_def)

definition same_rest :: "kstate \<Rightarrow> kstate \<Rightarrow> bool" where
  "same_rest st st' \<longleftrightarrow>
     process_slots st' = process_slots st \<and> ncpus st' = ncpus st \<and>
     (\<forall>x. static (threads st' x) = static (threads st x)) \<and>
     (\<forall>c. pc_mailbox (cpus st' ! c) = pc_mailbox (cpus st ! c) \<and> pc_id (cpus st' ! c) = pc_id (cpus st ! c))"

lemma same_rest_refl [simp]: "same_rest st st"
  by (simp add: same_rest_def)

lemma same_rest_trans [trans]: "same_rest a b \<Longrightarrow> same_rest b c \<Longrightarrow> same_rest a c"
  by (simp add: same_rest_def)

lemma same_rest_static: "same_rest st st' \<Longrightarrow> static (threads st' x) = static (threads st x)"
  by (simp add: same_rest_def)

lemma same_rest_attrs:
  assumes "same_rest st st'"
  shows "cpu_of st' x = cpu_of st x" "prio_of st' x = prio_of st x" "ncpus st' = ncpus st"
    "t_parent (threads st' x) = t_parent (threads st x)" "t_is_kernel (threads st' x) = t_is_kernel (threads st x)"
    "process_slots st' = process_slots st"
  using assms by (simp_all add: same_rest_def static_def cpu_of_def prio_of_def)

text \<open>The messages, the semaphores' locks and counts.\<close>

definition same_mail :: "kstate \<Rightarrow> kstate \<Rightarrow> bool" where
  "same_mail st st' \<longleftrightarrow> mailbox_slots st' = mailbox_slots st \<and> other_sems st' = other_sems st \<and> ipis st' = ipis st"

lemma same_mail_refl [simp]: "same_mail st st"
  by (simp add: same_mail_def)

lemma same_mail_trans [trans]: "same_mail a b \<Longrightarrow> same_mail b c \<Longrightarrow> same_mail a c"
  by (simp add: same_mail_def)

lemma same_mail_sem: "same_mail st st' \<Longrightarrow> get_sem r st' = get_sem r st"
  unfolding same_mail_def by (intro get_sem_cong) simp_all

section \<open>One ready queue of the kernel\<close>

definition ready_queue :: "nat \<Rightarrow> nat \<Rightarrow> kstate \<Rightarrow> queue" where
  "ready_queue c p st = (threads st, ready_heads (sched c st) p, ready_tails (sched c st) p)"

definition put_ready :: "nat \<Rightarrow> nat \<Rightarrow> queue \<Rightarrow> kstate \<Rightarrow> kstate" where
  "put_ready c p q st = (case q of (T, h, t) \<Rightarrow>
     upd_sched c (set_head p h \<circ> set_tail p t) (st\<lparr>thread_slots := T\<rparr>))"

lemma upd_sched_upd_sched: "c < ncpus st \<Longrightarrow> upd_sched c f (upd_sched c g st) = upd_sched c (f \<circ> g) st"
  by (simp add: upd_sched_def upd_cpu_def)

lemma upd_sched_threads:
  "upd_sched c f (st\<lparr>thread_slots := T\<rparr>) = (upd_sched c f st)\<lparr>thread_slots := T\<rparr>"
  by (simp add: upd_sched_def upd_cpu_def)

lemma set_head_tail [simp]:
  "ready_heads (set_head p h s) = (ready_heads s)(p := h)" "ready_tails (set_head p h s) = ready_tails s"
  "ready_tails (set_tail p h s) = (ready_tails s)(p := h)" "ready_heads (set_tail p h s) = ready_heads s"
  "current_thread (set_head p h s) = current_thread s" "current_thread (set_tail p h s) = current_thread s"
  by (simp_all add: set_head_def set_tail_def)

lemma set_head_same [simp]: "set_head p (ready_heads s p) s = s" "set_tail p (ready_tails s p) s = s"
  by (simp_all add: set_head_def set_tail_def)

lemma set_head_tail_comp [simp]:
  "set_head p h (set_head p h' s) = set_head p h s" "set_tail p h (set_tail p h' s) = set_tail p h s"
  "set_head p h (set_tail p t (set_head p h' s)) = set_head p h (set_tail p t s)"
  by (simp_all add: set_head_def set_tail_def)

text \<open>The code of the two queue operations is the operations on linked queues.\<close>

lemma scheduler_add_ready_eq:
  assumes "cpu_of st x < ncpus st" "prio_of st x < 8"
  shows "scheduler_add_ready x st =
    Inr (put_ready (cpu_of st x) (prio_of st x) (ready_enq x (ready_queue (cpu_of st x) (prio_of st x) st)) st)"
  using assms set_head_same(1) [of "prio_of st x" "set_tail (prio_of st x) (Some x) (sched (cpu_of st x) st)"]
  by (auto simp: scheduler_add_ready_def put_ready_def ready_enq_def ready_queue_def NUMBER_PRIORITIES_def
      cpu_of_def [symmetric] prio_of_def [symmetric] Let_def upd_thread_def upd_sched_def upd_cpu_def o_def
      split: option.split)

lemma scheduler_remove_ready_eq:
  assumes "c < ncpus st" "ready_heads (sched c st) q = Some x"
  shows "scheduler_remove_ready c q st =
    Inr (fst (ready_deq (ready_queue c q st)), put_ready c q (snd (ready_deq (ready_queue c q st))) st)"
  using assms
  by (auto simp: scheduler_remove_ready_def put_ready_def ready_deq_def ready_queue_def Let_def
      upd_thread_def upd_sched_def upd_cpu_def o_def nth_list_update_if set_head_def set_tail_def
      split: option.split)

section \<open>Changing one queue\<close>

text \<open>Which threads an operation on a linked queue touches, and that it touches only links.\<close>

lemma ready_enq_touch:
  assumes "ready_rep (T, h, t) xs" "ready_enq x (T, h, t) = (T', h', t')"
  shows "y \<notin> set (xs @ [x]) \<Longrightarrow> T' y = T y" "static (T' y) = static (T y)" "t_frame (T' y) = t_frame (T y)"
proof -
  have t: "t = final xs" using assms(1) by (simp add: ready_rep_def)
  show "y \<notin> set (xs @ [x]) \<Longrightarrow> T' y = T y"
  proof (cases t)
    case None
    assume "y \<notin> set (xs @ [x])"
    with None assms(2) show ?thesis by (auto simp: ready_enq_def)
  next
    case (Some u)
    assume y: "y \<notin> set (xs @ [x])"
    have "u \<in> set xs" using final_SomeD [of xs u] t Some by auto
    then have "y \<noteq> u" "y \<noteq> x" using y by auto
    with Some assms(2) show ?thesis by (auto simp: ready_enq_def Let_def)
  qed
  show "static (T' y) = static (T y)" "t_frame (T' y) = t_frame (T y)"
    using assms(2) by (cases t; auto simp: ready_enq_def Let_def)+
qed

lemma ready_deq_touch:
  assumes "ready_rep (T, h, t) (x # xs)" "ready_deq (T, h, t) = (z, T', h', t')"
  shows "y \<notin> set (x # xs) \<Longrightarrow> T' y = T y" "static (T' y) = static (T y)" "t_frame (T' y) = t_frame (T y)"
    "t_next (T' x) = None"
proof -
  have h: "h = Some x" "t_next (T x) = first xs" using assms(1) by (auto simp: ready_rep_def)
  have n: "n \<in> set xs" if "first xs = Some n" for n using that by (cases xs) auto
  show "y \<notin> set (x # xs) \<Longrightarrow> T' y = T y"
    using assms(2) h n by (auto simp: ready_deq_def Let_def split: option.splits)
  show "static (T' y) = static (T y)" "t_frame (T' y) = t_frame (T y)" "t_next (T' x) = None"
    using assms(2) h by (auto simp: ready_deq_def Let_def split: option.splits)
qed

lemma put_ready_parts [simp]:
  "threads (put_ready c p (T, h, t) st) = T" "mailbox_slots (put_ready c p (T, h, t) st) = mailbox_slots st"
  "other_sems (put_ready c p (T, h, t) st) = other_sems st" "ipis (put_ready c p (T, h, t) st) = ipis st"
  "process_slots (put_ready c p (T, h, t) st) = process_slots st"
  "ncpus (put_ready c p (T, h, t) st) = ncpus st"
  by (simp_all add: put_ready_def)

lemma put_ready_sched:
  "c < ncpus st \<Longrightarrow> sched c' (put_ready c p (T, h, t) st) =
     (if c' = c then set_head p h (set_tail p t (sched c st)) else sched c' st)"
  by (simp add: put_ready_def)

lemma upd_sched_cpu [simp]:
  "pc_mailbox (cpus (upd_sched c f st) ! c') = pc_mailbox (cpus st ! c')"
  "pc_id (cpus (upd_sched c f st) ! c') = pc_id (cpus st ! c')"
proof -
  have "pc_mailbox (cpus (upd_sched c f st) ! c') = pc_mailbox (cpus st ! c') \<and>
      pc_id (cpus (upd_sched c f st) ! c') = pc_id (cpus st ! c')"
  proof (cases "c < ncpus st \<and> c' = c")
    case True
    then show ?thesis by (simp add: upd_sched_def)
  next
    case False
    then have "c' \<noteq> c \<or> ncpus st \<le> c" by auto
    then have "cpus (upd_sched c f st) ! c' = cpus st ! c'"
      unfolding upd_sched_def upd_cpu_parts by (auto simp: list_update_beyond)
    then show ?thesis by simp
  qed
  then show "pc_mailbox (cpus (upd_sched c f st) ! c') = pc_mailbox (cpus st ! c')"
    "pc_id (cpus (upd_sched c f st) ! c') = pc_id (cpus st ! c')" by simp_all
qed

lemma put_ready_cpu:
  "pc_mailbox (cpus (put_ready c p (T, h, t) st) ! c') = pc_mailbox (cpus st ! c')"
  "pc_id (cpus (put_ready c p (T, h, t) st) ! c') = pc_id (cpus st ! c')"
  by (simp_all add: put_ready_def)

lemma get_sem_put_ready [simp]: "get_sem r (put_ready c p (T, h, t) st) = get_sem r st"
  by (rule get_sem_cong) simp_all

definition upd_view_ready :: "nat \<Rightarrow> nat \<Rightarrow> nat list \<Rightarrow> view \<Rightarrow> view" where
  "upd_view_ready c p ys v = v\<lparr>v_ready := (v_ready v)(c := (v_ready v c)(p := ys))\<rparr>"

lemma queues_put_ready:
  assumes q: "queues st v" and c: "c < ncpus st" and r: "ready_rep (T', h', t') ys"
    and other: "\<And>y. y \<notin> D \<Longrightarrow> T' y = threads st y"
    and apart: "\<And>c' p'. (c', p') \<noteq> (c, p) \<Longrightarrow> set (v_ready v c' p') \<inter> D = {}"
      "\<And>r. set (v_waiting v r) \<inter> D = {}"
  shows "queues (put_ready c p (T', h', t') st) (upd_view_ready c p ys v)"
  unfolding queues_def
proof (intro conjI allI impI)
  let ?st = "put_ready c p (T', h', t') st" and ?v = "upd_view_ready c p ys v"
  fix c' p' assume c': "c' < ncpus ?st" and p': "p' < (8::nat)"
  show "ready_rep (threads ?st, ready_heads (sched c' ?st) p', ready_tails (sched c' ?st) p') (v_ready ?v c' p')"
  proof (cases "(c', p') = (c, p)")
    case True
    then show ?thesis using r c by (simp add: put_ready_sched upd_view_ready_def)
  next
    case False
    have "ready_rep (threads st, ready_heads (sched c' st) p', ready_tails (sched c' st) p') (v_ready v c' p')"
      using q c' p' by (simp add: queues_def)
    moreover have "T' y = threads st y" if "y \<in> set (v_ready v c' p')" for y
      using that apart(1) [OF False] other by blast
    ultimately have "ready_rep (T', ready_heads (sched c' st) p', ready_tails (sched c' st) p') (v_ready v c' p')"
      using ready_rep_cong [of "v_ready v c' p'" "threads st" T'] by simp
    then show ?thesis using False c by (auto simp: put_ready_sched upd_view_ready_def)
  qed
next
  let ?st = "put_ready c p (T', h', t') st" and ?v = "upd_view_ready c p ys v"
  fix c' assume "c' < ncpus ?st"
  then show "current_thread (sched c' ?st) = v_running ?v c'"
    using q c by (simp add: queues_def put_ready_sched upd_view_ready_def)
next
  let ?st = "put_ready c p (T', h', t') st" and ?v = "upd_view_ready c p ys v"
  fix r
  have "wait_rep (threads st, waiting_head (get_sem r st), waiting_tail (get_sem r st)) (v_waiting v r)"
    using q by (simp add: queues_def)
  moreover have "T' y = threads st y" if "y \<in> set (v_waiting v r)" for y
    using that apart(2) other by blast
  ultimately show "wait_rep (threads ?st, waiting_head (get_sem r ?st), waiting_tail (get_sem r ?st)) (v_waiting ?v r)"
    using wait_rep_cong [of "v_waiting v r" "threads st" T'] by (simp add: upd_view_ready_def)
qed

lemma placedD:
  assumes "placed st v"
  shows "x \<in> set (v_ready v c p) \<longleftrightarrow> v_place v x = Ready c p" "v_running v c = Some x \<longleftrightarrow> v_place v x = Running c"
    "x \<in> set (v_waiting v r) \<longleftrightarrow> v_place v x = Waiting r"
    "v_place v x \<noteq> Away \<Longrightarrow> cpu_of st x < ncpus st \<and> prio_of st x < 8"
    "v_place v x = Ready c p \<Longrightarrow> c = cpu_of st x \<and> p = prio_of st x"
    "v_place v x = Running c \<Longrightarrow> c = cpu_of st x \<and> t_next (threads st x) = None"
  using assms unfolding placed_def by blast+

lemma placedI:
  assumes "\<And>c p x. x \<in> set (v_ready v c p) \<longleftrightarrow> v_place v x = Ready c p"
    "\<And>c x. v_running v c = Some x \<longleftrightarrow> v_place v x = Running c"
    "\<And>r x. x \<in> set (v_waiting v r) \<longleftrightarrow> v_place v x = Waiting r"
    "\<And>x. v_place v x \<noteq> Away \<Longrightarrow> cpu_of st x < ncpus st \<and> prio_of st x < 8"
    "\<And>c p x. v_place v x = Ready c p \<Longrightarrow> c = cpu_of st x \<and> p = prio_of st x"
    "\<And>c x. v_place v x = Running c \<Longrightarrow> c = cpu_of st x \<and> t_next (threads st x) = None"
  shows "placed st v"
  using assms unfolding placed_def by blast

section \<open>The operations as list operations\<close>

definition view_add :: "nat \<Rightarrow> nat \<Rightarrow> nat \<Rightarrow> view \<Rightarrow> view" where
  "view_add x c p v = (upd_view_ready c p (v_ready v c p @ [x]) v)\<lparr>v_place := (v_place v)(x := Ready c p)\<rparr>"

definition view_evict :: "nat \<Rightarrow> nat \<Rightarrow> view \<Rightarrow> view" where
  "view_evict x c v = v\<lparr>v_running := (v_running v)(c := None), v_place := (v_place v)(x := Away)\<rparr>"

definition view_schedule :: "nat \<Rightarrow> nat \<Rightarrow> view \<Rightarrow> view" where
  "view_schedule c p v = (let x = hd (v_ready v c p) in
     (upd_view_ready c p (tl (v_ready v c p)) v)
       \<lparr>v_running := (v_running v)(c := Some x), v_place := (v_place v)(x := Running c)\<rparr>)"

lemma add_ready_refines:
  assumes rep: "sys_rep st v" and x: "v_place v x = Away" "cpu_of st x < ncpus st" "prio_of st x < 8"
  shows "\<exists>st'. scheduler_add_ready x st = Inr st' \<and> sys_rep st' (view_add x (cpu_of st x) (prio_of st x) v) \<and>
    same_rest st st' \<and> same_mail st st' \<and> (\<forall>y. t_frame (threads st' y) = t_frame (threads st y)) \<and>
    cpu_cr3 st' = cpu_cr3 st \<and> stack_mem st' = stack_mem st"
proof -
  let ?c = "cpu_of st x" and ?p = "prio_of st x"
  let ?xs = "v_ready v ?c ?p"
  have q: "queues st v" and pl: "placed st v" using rep by (simp_all add: sys_rep_def)
  have r: "ready_rep (ready_queue ?c ?p st) ?xs" using q x by (simp add: queues_def ready_queue_def)
  have nx: "x \<notin> set ?xs" using placedD(1) [OF pl] x(1) by auto
  obtain T' h' t' where e: "ready_enq x (ready_queue ?c ?p st) = (T', h', t')" by (cases "ready_enq x (ready_queue ?c ?p st)")
  have r': "ready_rep (T', h', t') (?xs @ [x])" using ready.rep_enq [OF r nx] e by simp
  note touch = ready_enq_touch [OF r [unfolded ready_queue_def] e [unfolded ready_queue_def]]
  define st' where "st' = put_ready ?c ?p (T', h', t') st"
  have run: "scheduler_add_ready x st = Inr st'" using scheduler_add_ready_eq [OF x(2,3)] e by (simp add: st'_def)
  have qs: "queues st' (upd_view_ready ?c ?p (?xs @ [x]) v)"
    unfolding st'_def
  proof (rule queues_put_ready [OF q x(2) r', of "set (?xs @ [x])"])
    show "T' y = threads st y" if "y \<notin> set (?xs @ [x])" for y using touch(1) [OF that] .
    show "set (v_ready v c' p') \<inter> set (?xs @ [x]) = {}" if "(c', p') \<noteq> (?c, ?p)" for c' p'
      using that x(1) placedD(1) [OF pl] by auto
    show "set (v_waiting v r) \<inter> set (?xs @ [x]) = {}" for r
      using x(1) placedD(1,3) [OF pl] by auto
  qed
  have nextr: "t_next (T' y) = t_next (threads st y)" if "v_place v y = Running c" for y c
  proof -
    have "y \<notin> set (?xs @ [x])" using that x(1) placedD(1) [OF pl, of y] by auto
    then show ?thesis using touch(1) by metis
  qed
  have at: "cpu_of st' y = cpu_of st y" "prio_of st' y = prio_of st y" for y
    using touch(2) [of y] by (simp_all add: st'_def cpu_of_def prio_of_def static_def)
  have "placed st' (view_add x ?c ?p v)"
    unfolding placed_def at
    using x placedD [OF pl] nextr
    by (auto simp: view_add_def upd_view_ready_def st'_def split: if_splits)
  moreover have "queues st' (view_add x ?c ?p v)" using qs by (simp add: queues_def view_add_def)
  moreover have "same_rest st st'" using touch(2) by (simp add: same_rest_def st'_def put_ready_cpu)
  moreover have "same_mail st st'" by (simp add: same_mail_def st'_def)
  moreover have "cpu_cr3 st' = cpu_cr3 st" "stack_mem st' = stack_mem st"
    by (simp_all add: st'_def put_ready_def upd_sched_def upd_cpu_def)
  ultimately show ?thesis using run touch(3) by (auto simp: sys_rep_def st'_def)
qed

text \<open>The queue the scheduler takes from: the first that is not empty.\<close>

definition top_queue :: "nat \<Rightarrow> view \<Rightarrow> nat \<Rightarrow> bool" where
  "top_queue c v p \<longleftrightarrow> p < 8 \<and> v_ready v c p \<noteq> [] \<and> (\<forall>p' < p. v_ready v c p' = [])"

lemma first_non_empty_cases:
  "(\<exists>k < n. first_non_empty n i s = i + k \<and> ready_heads s (i + k) \<noteq> None \<and> (\<forall>j < k. ready_heads s (i + j) = None)) \<or>
   (first_non_empty n i s = NUMBER_PRIORITIES \<and> (\<forall>j < n. ready_heads s (i + j) = None))"
proof (induction n arbitrary: i)
  case 0
  then show ?case by simp
next
  case (Suc n)
  show ?case
  proof (cases "ready_heads s i")
    case (Some x)
    then show ?thesis by (intro disjI1 exI [of _ 0]) simp
  next
    case None
    have all: "(\<forall>j < Suc k. ready_heads s (i + j) = None) \<longleftrightarrow> (\<forall>j < k. ready_heads s (Suc i + j) = None)" for k
      using None by (auto simp: less_Suc_eq_0_disj)
    from Suc.IH [of "Suc i"] show ?thesis
    proof
      assume "\<exists>k < n. first_non_empty n (Suc i) s = Suc i + k \<and> ready_heads s (Suc i + k) \<noteq> None \<and>
        (\<forall>j < k. ready_heads s (Suc i + j) = None)"
      then obtain k where "k < n" "first_non_empty n (Suc i) s = Suc i + k" "ready_heads s (Suc i + k) \<noteq> None"
        "\<forall>j < k. ready_heads s (Suc i + j) = None" by blast
      then show ?thesis using None all [of k] by (intro disjI1 exI [of _ "Suc k"]) simp
    next
      assume "first_non_empty n (Suc i) s = NUMBER_PRIORITIES \<and> (\<forall>j < n. ready_heads s (Suc i + j) = None)"
      then show ?thesis using None all [of n] by simp
    qed
  qed
qed

lemma heads_first:
  assumes "queues st v" "c < ncpus st" "p < 8"
  shows "ready_heads (sched c st) p = first (v_ready v c p)"
  using assms by (auto simp: queues_def ready_rep_def)

lemma first_non_empty_top:
  assumes q: "queues st v" and c: "c < ncpus st"
  shows "(\<exists>p. top_queue c v p \<and> scheduler_get_first_non_empty (sched c st) = p) \<or>
    (scheduler_get_first_non_empty (sched c st) = 8 \<and> (\<forall>p < 8. v_ready v c p = []))"
  using first_non_empty_cases [of 8 0 "sched c st"] heads_first [OF q c]
  by (auto simp: scheduler_get_first_non_empty_def NUMBER_PRIORITIES_def top_queue_def)

lemma top_queue_unique: "top_queue c v p \<Longrightarrow> top_queue c v q \<Longrightarrow> p = q"
  unfolding top_queue_def by (metis linorder_neqE_nat)

lemma schedule_panics:
  assumes "sys_rep st v" "c < ncpus st" "\<forall>p < 8. v_ready v c p = []"
  shows "scheduler_schedule_thread c st = Inl (Panic ''invalid scheduling queue received'')"
proof -
  have "scheduler_get_first_non_empty (sched c st) = 8"
    using first_non_empty_top [of st v c] assms by (auto simp: sys_rep_def top_queue_def)
  then show ?thesis by (simp add: scheduler_schedule_thread_def NUMBER_PRIORITIES_def Let_def)
qed

lemma upd_current [simp]:
  "ready_heads (s\<lparr>current_thread := x\<rparr>) = ready_heads s" "ready_tails (s\<lparr>current_thread := x\<rparr>) = ready_tails s"
  by simp_all

lemma queues_set_current:
  assumes "queues st v" "c < ncpus st"
  shows "queues (upd_sched c (\<lambda>s. s\<lparr>current_thread := x\<rparr>) st) (v\<lparr>v_running := (v_running v)(c := x), v_place := pl\<rparr>)"
  using assms by (simp add: queues_def)

lemma schedule_refines:
  assumes rep: "sys_rep st v" and c: "c < ncpus st" "v_running v c = None" and top: "top_queue c v p"
  shows "\<exists>st'. scheduler_schedule_thread c st = Inr (hd (v_ready v c p), st') \<and> sys_rep st' (view_schedule c p v) \<and>
    same_rest st st' \<and> same_mail st st' \<and> (\<forall>y. t_frame (threads st' y) = t_frame (threads st y)) \<and>
    cpu_cr3 st' = cpu_cr3 st \<and> stack_mem st' = stack_mem st"
proof -
  have q: "queues st v" and pl: "placed st v" using rep by (simp_all add: sys_rep_def)
  obtain x xs where xs: "v_ready v c p = x # xs" using top by (cases "v_ready v c p") (auto simp: top_queue_def)
  have p: "p < 8" using top by (simp add: top_queue_def)
  have get: "scheduler_get_first_non_empty (sched c st) = p"
    using first_non_empty_top [OF q c(1)]
  proof
    assume "\<exists>p'. top_queue c v p' \<and> scheduler_get_first_non_empty (sched c st) = p'"
    then show ?thesis using top_queue_unique [OF top] by blast
  next
    assume "scheduler_get_first_non_empty (sched c st) = 8 \<and> (\<forall>p < 8. v_ready v c p = [])"
    then show ?thesis using p xs by simp
  qed
  have "ready_rep (ready_queue c p st) (v_ready v c p)" using q c(1) p by (simp add: queues_def ready_queue_def)
  then have r: "ready_rep (ready_queue c p st) (x # xs)" by (simp only: xs)
  obtain z T' h' t' where e: "ready_deq (ready_queue c p st) = (z, T', h', t')"
    by (cases "ready_deq (ready_queue c p st)") auto
  have z: "z = x" and r': "ready_rep (T', h', t') xs" using ready.rep_deq [OF r] e by auto
  note touch = ready_deq_touch [OF r [unfolded ready_queue_def] e [unfolded ready_queue_def]]
  define st1 where "st1 = put_ready c p (T', h', t') st"
  define st' where "st' = upd_sched c (\<lambda>s. s\<lparr>current_thread := Some x\<rparr>) st1"
  have "ready_heads (sched c st) p = Some x" using heads_first [OF q c(1) p] xs by simp
  from scheduler_remove_ready_eq [OF c(1) this] have rm: "scheduler_remove_ready c p st = Inr (x, st1)"
    using e z by (simp add: st1_def)
  have run: "scheduler_schedule_thread c st = Inr (x, st')"
    using rm p by (simp add: scheduler_schedule_thread_def get NUMBER_PRIORITIES_def Let_def st'_def)
  have px: "v_place v x = Ready c p" using placedD(1) [OF pl, of x c p] xs by simp
  have dx: "distinct (x # xs)" using r by (auto simp: ready_rep_def ready_queue_def)
  have qs: "queues st1 (upd_view_ready c p xs v)"
    unfolding st1_def
  proof (rule queues_put_ready [OF q c(1) r', of "set (x # xs)"])
    show "T' y = threads st y" if "y \<notin> set (x # xs)" for y using touch(1) [OF that] .
    show "set (v_ready v c' p') \<inter> set (x # xs) = {}" if "(c', p') \<noteq> (c, p)" for c' p'
      using that placedD(1) [OF pl] xs by (metis disjoint_iff place.inject(1))
    show "set (v_waiting v r) \<inter> set (x # xs) = {}" for r
      using placedD(1,3) [OF pl] xs by (metis disjoint_iff place.distinct(9))
  qed
  have "queues st' (view_schedule c p v)"
    using queues_set_current [OF qs, of c "Some x" "(v_place v)(x := Running c)"] c
    by (simp add: st'_def view_schedule_def xs Let_def upd_view_ready_def st1_def)
  moreover have "placed st' (view_schedule c p v)"
  proof -
    have at: "cpu_of st' y = cpu_of st y" "prio_of st' y = prio_of st y" for y
      using touch(2) [of y] by (simp_all add: st'_def st1_def cpu_of_def prio_of_def static_def)
    have tn: "t_next (threads st' y) = t_next (threads st y)" if "v_place v y = Running c'" for y c'
    proof -
      have "y \<notin> set (x # xs)" using that placedD(1) [OF pl, of y] xs by (metis place.distinct(7))
      then show ?thesis using touch(1) by (simp add: st'_def st1_def)
    qed
    have tx: "t_next (threads st' x) = None" using touch(4) by (simp add: st'_def st1_def)
    have n: "ncpus st' = ncpus st" by (simp add: st'_def st1_def)
    have notrun: "v_place v y \<noteq> Running c" for y using placedD(2) [OF pl, of c y] c(2) by simp
    have inx: "y \<in> set xs \<longleftrightarrow> v_place v y = Ready c p \<and> y \<noteq> x" for y
      using placedD(1) [OF pl, of y c p] xs dx by auto
    define v' where "v' = view_schedule c p v"
    have v': "v_ready v' c' p' = (if c' = c \<and> p' = p then xs else v_ready v c' p')"
      "v_running v' c' = (if c' = c then Some x else v_running v c')" "v_waiting v' r = v_waiting v r"
      "v_place v' y = (if y = x then Running c else v_place v y)" for c' p' r y
      by (simp_all add: v'_def view_schedule_def upd_view_ready_def xs Let_def)
    show ?thesis
      unfolding v'_def [symmetric]
    proof (rule placedI)
      show "y \<in> set (v_ready v' c' p') \<longleftrightarrow> v_place v' y = Ready c' p'" for c' p' y
        unfolding v' using inx [of y] placedD(1) [OF pl, of y c' p'] px by auto
      show "v_running v' c' = Some y \<longleftrightarrow> v_place v' y = Running c'" for c' y
        unfolding v' using placedD(2) [OF pl, of c' y] px notrun [of y] by auto
      show "y \<in> set (v_waiting v' r) \<longleftrightarrow> v_place v' y = Waiting r" for r y
        unfolding v' using placedD(3) [OF pl, of y r] px by auto
      show "v_place v' y \<noteq> Away \<Longrightarrow> cpu_of st' y < ncpus st' \<and> prio_of st' y < 8" for y
        unfolding v' at n using placedD(4) [OF pl, of y] px by (auto split: if_splits)
      show "v_place v' y = Ready c' p' \<Longrightarrow> c' = cpu_of st' y \<and> p' = prio_of st' y" for c' p' y
        unfolding v' at using placedD(5) [OF pl, of y c' p'] by (auto split: if_splits)
      show "v_place v' y = Running c' \<Longrightarrow> c' = cpu_of st' y \<and> t_next (threads st' y) = None" for c' y
        unfolding v' at using placedD(6) [OF pl, of y c'] placedD(5) [OF pl px] tn tx by (auto split: if_splits)
    qed
  qed
  moreover have "same_rest st st'" using touch(2) by (simp add: same_rest_def st'_def st1_def put_ready_cpu)
  moreover have "same_mail st st'" by (simp add: same_mail_def st'_def st1_def)
  moreover have "cpu_cr3 st' = cpu_cr3 st" "stack_mem st' = stack_mem st"
    by (simp_all add: st'_def st1_def put_ready_def upd_sched_def upd_cpu_def)
  ultimately show ?thesis using run touch(3) xs by (auto simp: sys_rep_def st'_def st1_def)
qed

end
