(* ===== verification/Sched_Block.thy ===== *)
theory Sched_Block
  imports Sched_View
begin

text \<open>
  Refinement of the remaining scheduling operations: taking the running thread off its processor,
  putting it to the end of a semaphore's wait queue, and taking the first waiting thread out.
\<close>

section \<open>Eviction\<close>

lemma evict_none:
  "sys_rep st v \<Longrightarrow> c < ncpus st \<Longrightarrow> v_running v c = None \<Longrightarrow> scheduler_evict_thread c f st = (None, st)"
  by (simp add: scheduler_evict_thread_def scheduler_remove_running_def sys_rep_def queues_def)

definition saved_frame :: "tcb \<Rightarrow> trap_frame \<Rightarrow> trap_frame" where
  "saved_frame t f = (if t_is_kernel t \<noteq> 0 then f\<lparr>tf_esp := tf_esp (t_frame t), tf_ss := tf_ss (t_frame t)\<rparr> else f)"

lemma evict_refines:
  assumes rep: "sys_rep st v" and c: "c < ncpus st" and x: "v_running v c = Some x"
  shows "\<exists>st'. scheduler_evict_thread c f st = (Some x, st') \<and> sys_rep st' (view_evict x c v) \<and>
    same_rest st st' \<and> same_mail st st' \<and> t_next (threads st' x) = None \<and>
    (\<forall>y. t_frame (threads st' y) = (if y = x then saved_frame (threads st x) f else t_frame (threads st y))) \<and>
    cpu_cr3 st' = cpu_cr3 st \<and> stack_mem st' = stack_mem st"
proof -
  have q: "queues st v" and pl: "placed st v" using rep by (simp_all add: sys_rep_def)
  have px: "v_place v x = Running c" using placedD(2) [OF pl] x by simp
  define st1 where "st1 = upd_sched c (\<lambda>s. s\<lparr>current_thread := None\<rparr>) st"
  define st' where "st' = scheduler_save_thread x f st1"
  have run: "scheduler_evict_thread c f st = (Some x, st')"
    using q c x by (simp add: scheduler_evict_thread_def scheduler_remove_running_def queues_def st1_def st'_def)
  have T: "threads st' y = (if y = x then (threads st x)\<lparr>t_frame := saved_frame (threads st x) f\<rparr> else threads st y)" for y
    by (simp add: st'_def st1_def scheduler_save_thread_def saved_frame_def)
  have S: "sched c' st' = sched c' st1" "get_sem r st' = get_sem r st" "ncpus st' = ncpus st" for c' r
    by (simp_all add: st'_def st1_def scheduler_save_thread_def)
  have "queues st1 (view_evict x c v)"
    using queues_set_current [OF q c, of None "(v_place v)(x := Away)"] by (simp add: st1_def view_evict_def)
  then have "queues st' (view_evict x c v)"
    unfolding queues_def S
    using ready_rep_cong [of _ "threads st1" "threads st'"] wait_rep_cong [of _ "threads st1" "threads st'"] T
    by (simp add: st1_def)
  moreover have "placed st' (view_evict x c v)"
  proof -
    define v' where "v' = view_evict x c v"
    have v': "v_ready v' c' p' = v_ready v c' p'" "v_running v' c' = (if c' = c then None else v_running v c')"
      "v_waiting v' r = v_waiting v r" "v_place v' y = (if y = x then Away else v_place v y)" for c' p' r y
      by (simp_all add: v'_def view_evict_def)
    have at: "cpu_of st' y = cpu_of st y" "prio_of st' y = prio_of st y" "t_next (threads st' y) = t_next (threads st y)" for y
      by (simp_all add: cpu_of_def prio_of_def T)
    show ?thesis
      unfolding v'_def [symmetric]
    proof (rule placedI)
      show "y \<in> set (v_ready v' c' p') \<longleftrightarrow> v_place v' y = Ready c' p'" for c' p' y
        unfolding v' using placedD(1) [OF pl, of y c' p'] px by auto
      show "v_running v' c' = Some y \<longleftrightarrow> v_place v' y = Running c'" for c' y
        unfolding v' using placedD(2) [OF pl, of c' y] px x by auto
      show "y \<in> set (v_waiting v' r) \<longleftrightarrow> v_place v' y = Waiting r" for r y
        unfolding v' using placedD(3) [OF pl, of y r] px by auto
      show "v_place v' y \<noteq> Away \<Longrightarrow> cpu_of st' y < ncpus st' \<and> prio_of st' y < 8" for y
        unfolding v' at S using placedD(4) [OF pl, of y] by (auto split: if_splits)
      show "v_place v' y = Ready c' p' \<Longrightarrow> c' = cpu_of st' y \<and> p' = prio_of st' y" for c' p' y
        unfolding v' at using placedD(5) [OF pl, of y c' p'] by (auto split: if_splits)
      show "v_place v' y = Running c' \<Longrightarrow> c' = cpu_of st' y \<and> t_next (threads st' y) = None" for c' y
        unfolding v' at using placedD(6) [OF pl, of y c'] by (auto split: if_splits)
    qed
  qed
  moreover have "same_rest st st'"
    by (simp add: same_rest_def T) (simp add: st'_def st1_def scheduler_save_thread_def)
  moreover have "same_mail st st'" by (simp add: same_mail_def st'_def st1_def scheduler_save_thread_def)
  moreover have "t_next (threads st' x) = None" using placedD(6) [OF pl px] T by simp
  moreover have "cpu_cr3 st' = cpu_cr3 st" "stack_mem st' = stack_mem st"
    by (simp_all add: st'_def st1_def scheduler_save_thread_def upd_thread_def upd_sched_def upd_cpu_def)
  ultimately show ?thesis using run T by (auto simp: sys_rep_def)
qed

section \<open>Wait queues\<close>

definition view_block :: "nat \<Rightarrow> sem_ref \<Rightarrow> view \<Rightarrow> view" where
  "view_block x r v = v\<lparr>v_waiting := (v_waiting v)(r := v_waiting v r @ [x]), v_place := (v_place v)(x := Waiting r)\<rparr>"

definition view_wake :: "sem_ref \<Rightarrow> view \<Rightarrow> view" where
  "view_wake r v = v\<lparr>v_waiting := (v_waiting v)(r := tl (v_waiting v r)), v_place := (v_place v)(hd (v_waiting v r) := Away)\<rparr>"

text \<open>A wait queue of the kernel, and the kernel with that queue replaced.\<close>

definition wait_queue :: "sem_ref \<Rightarrow> kstate \<Rightarrow> queue" where
  "wait_queue r st = (threads st, waiting_head (get_sem r st), waiting_tail (get_sem r st))"

definition put_wait :: "sem_ref \<Rightarrow> queue \<Rightarrow> kstate \<Rightarrow> kstate" where
  "put_wait r q st = (case q of (T, h, t) \<Rightarrow>
     upd_sem r (\<lambda>s. s\<lparr>waiting_head := h, waiting_tail := t\<rparr>) (st\<lparr>thread_slots := T\<rparr>))"

lemma get_sem_threads [simp]: "get_sem r (st\<lparr>thread_slots := T\<rparr>) = get_sem r st"
  by (rule get_sem_cong) simp_all

lemma upd_sem_threads: "upd_sem r f (st\<lparr>thread_slots := T\<rparr>) = (upd_sem r f st)\<lparr>thread_slots := T\<rparr>"
  by (cases r) (simp_all add: upd_sem_def upd_mailbox_def)

lemma upd_sem_upd_sem: "upd_sem r f (upd_sem r g st) = upd_sem r (f \<circ> g) st"
  by (cases r) (simp_all add: upd_sem_def upd_mailbox_def)

lemma upd_sem_same: "f (get_sem r st) = get_sem r st \<Longrightarrow> upd_sem r f st = st"
  by (cases r) (auto simp: upd_sem_def upd_mailbox_def)

lemma upd_sem_cong: "f (get_sem r st) = g (get_sem r st) \<Longrightarrow> upd_sem r f st = upd_sem r g st"
  by (simp add: upd_sem_def)

lemma put_wait_parts [simp]:
  "threads (put_wait r (T, h, t) st) = T" "process_slots (put_wait r (T, h, t) st) = process_slots st"
  "gst (put_wait r (T, h, t) st) = gst st" "ipis (put_wait r (T, h, t) st) = ipis st"
  "cpu_cr3 (put_wait r (T, h, t) st) = cpu_cr3 st" "stack_mem (put_wait r (T, h, t) st) = stack_mem st"
  "get_sem r' (put_wait r (T, h, t) st) =
    (if r' = r then (get_sem r st)\<lparr>waiting_head := h, waiting_tail := t\<rparr> else get_sem r' st)"
  by (simp_all add: put_wait_def)

lemma thread_slots_same: "t_next (threads st x) = n \<Longrightarrow> upd_thread x (\<lambda>t. t\<lparr>t_next := n\<rparr>) st = st"
  by (auto simp: upd_thread_def)

lemma sem_enqueue_eq:
  assumes "t_next (threads st x) = None"
  shows "sem_enqueue r (Some x) st = Inr (put_wait r (wait_enq x (wait_queue r st)) st)"
proof (cases "waiting_tail (get_sem r st)")
  case None
  have "(threads st)(x := (threads st x)\<lparr>t_next := None\<rparr>) = threads st" using assms by auto
  with None show ?thesis
    by (simp add: sem_enqueue_def put_wait_def wait_enq_def wait_queue_def)
next
  case (Some u)
  have "upd_sem r (\<lambda>s. s\<lparr>waiting_head := waiting_head (get_sem r st), waiting_tail := Some x\<rparr>) st =
      upd_sem r (waiting_tail_update (\<lambda>_. Some x)) st"
    by (rule upd_sem_cong) simp
  with Some show ?thesis
    by (simp add: sem_enqueue_def put_wait_def wait_enq_def wait_queue_def Let_def upd_thread_def
        upd_sem_threads)
qed

lemma wait_enq_touch:
  assumes "wait_rep (T, h, t) xs" "wait_enq x (T, h, t) = (T', h', t')"
  shows "y \<notin> set (xs @ [x]) \<Longrightarrow> T' y = T y" "static (T' y) = static (T y)" "t_frame (T' y) = t_frame (T y)"
proof -
  have t: "t = final xs" using assms(1) by (simp add: wait_rep_def)
  show "y \<notin> set (xs @ [x]) \<Longrightarrow> T' y = T y"
  proof (cases t)
    case None
    assume "y \<notin> set (xs @ [x])"
    with None assms(2) show ?thesis by (auto simp: wait_enq_def)
  next
    case (Some u)
    assume y: "y \<notin> set (xs @ [x])"
    have "u \<in> set xs" using final_SomeD [of xs u] t Some by auto
    then have "y \<noteq> u" "y \<noteq> x" using y by auto
    with Some assms(2) show ?thesis by (auto simp: wait_enq_def Let_def)
  qed
  show "static (T' y) = static (T y)" "t_frame (T' y) = t_frame (T y)"
    using assms(2) by (cases t; auto simp: wait_enq_def Let_def)+
qed

lemma wait_deq_touch:
  assumes "wait_rep (T, h, t) (x # xs)" "wait_deq (T, h, t) = (z, T', h', t')"
  shows "y \<noteq> x \<Longrightarrow> T' y = T y" "static (T' y) = static (T y)" "t_frame (T' y) = t_frame (T y)"
proof -
  have h: "h = Some x" using assms(1) by (auto simp: wait_rep_def)
  show "y \<noteq> x \<Longrightarrow> T' y = T y" "static (T' y) = static (T y)" "t_frame (T' y) = t_frame (T y)"
    using assms(2) h by (auto simp: wait_deq_def split: if_splits)
qed

lemma queues_put_wait:
  assumes q: "queues st v" and r: "wait_rep (T', h', t') ys"
    and other: "\<And>y. y \<notin> D \<Longrightarrow> T' y = threads st y"
    and apart: "\<And>c p. set (v_ready v c p) \<inter> D = {}" "\<And>r'. r' \<noteq> r \<Longrightarrow> set (v_waiting v r') \<inter> D = {}"
  shows "queues (put_wait r (T', h', t') st) (v\<lparr>v_waiting := (v_waiting v)(r := ys), v_place := pl\<rparr>)"
  unfolding queues_def put_wait_parts
proof (intro conjI allI impI)
  fix c p assume c: "c < ncpus st" and p: "p < (8::nat)"
  have "ready_rep (threads st, ready_heads (sched c st) p, ready_tails (sched c st) p) (v_ready v c p)"
    using q c p by (simp add: queues_def)
  moreover have "T' y = threads st y" if "y \<in> set (v_ready v c p)" for y
    using that apart(1) other by blast
  ultimately show "ready_rep (T', ready_heads (sched c st) p, ready_tails (sched c st) p)
      (v_ready (v\<lparr>v_waiting := (v_waiting v)(r := ys), v_place := pl\<rparr>) c p)"
    using ready_rep_cong [of "v_ready v c p" "threads st" T'] by simp
next
  fix c assume "c < ncpus st"
  then show "current_thread (sched c st) = v_running (v\<lparr>v_waiting := (v_waiting v)(r := ys), v_place := pl\<rparr>) c"
    using q by (simp add: queues_def)
next
  fix r'
  show "wait_rep (T', waiting_head (if r' = r then get_sem r st\<lparr>waiting_head := h', waiting_tail := t'\<rparr> else get_sem r' st),
      waiting_tail (if r' = r then get_sem r st\<lparr>waiting_head := h', waiting_tail := t'\<rparr> else get_sem r' st))
     (v_waiting (v\<lparr>v_waiting := (v_waiting v)(r := ys), v_place := pl\<rparr>) r')"
  proof (cases "r' = r")
    case False
    have "wait_rep (threads st, waiting_head (get_sem r' st), waiting_tail (get_sem r' st)) (v_waiting v r')"
      using q by (simp add: queues_def)
    moreover have "T' y = threads st y" if "y \<in> set (v_waiting v r')" for y
      using that apart(2) [OF False] other by blast
    ultimately have "wait_rep (T', waiting_head (get_sem r' st), waiting_tail (get_sem r' st)) (v_waiting v r')"
      using wait_rep_cong [of "v_waiting v r'" "threads st" T'] by simp
    with False show ?thesis by simp
  qed (use r in simp)
qed

text \<open>The locks and counts of the semaphores, the mailboxes but for the wait queues in them.\<close>

definition same_sems :: "kstate \<Rightarrow> kstate \<Rightarrow> bool" where
  "same_sems st st' \<longleftrightarrow>
     (\<forall>r. sem_lock (get_sem r st') = sem_lock (get_sem r st) \<and> sem_count (get_sem r st') = sem_count (get_sem r st)) \<and>
     (\<forall>m. mb_mid (mailbox_slots st' m) = mb_mid (mailbox_slots st m) \<and>
       mb_type (mailbox_slots st' m) = mb_type (mailbox_slots st m) \<and>
       mb_owner (mailbox_slots st' m) = mb_owner (mailbox_slots st m) \<and>
       mb_message (mailbox_slots st' m) = mb_message (mailbox_slots st m)) \<and> ipis st' = ipis st"

lemma same_mail_same_sems: "same_mail st st' \<Longrightarrow> same_sems st st'"
  using same_mail_sem [of st st'] by (simp add: same_sems_def same_mail_def)

lemma same_sems_trans [trans]: "same_sems a b \<Longrightarrow> same_sems b c \<Longrightarrow> same_sems a c"
  by (simp add: same_sems_def)

lemma upd_sem_mailbox [simp]:
  "mb_mid (mailbox_slots (upd_sem r f st) m) = mb_mid (mailbox_slots st m)"
  "mb_type (mailbox_slots (upd_sem r f st) m) = mb_type (mailbox_slots st m)"
  "mb_owner (mailbox_slots (upd_sem r f st) m) = mb_owner (mailbox_slots st m)"
  "mb_message (mailbox_slots (upd_sem r f st) m) = mb_message (mailbox_slots st m)"
  by (cases r; simp add: upd_sem_def upd_mailbox_def)+

lemma same_sems_put_wait: "same_sems st (put_wait r (T, h, t) st)"
  by (simp add: same_sems_def) (simp add: put_wait_def upd_sem_threads)

lemma sem_enqueue_refines:
  assumes rep: "sys_rep st v" and x: "v_place v x = Away" "cpu_of st x < ncpus st" "prio_of st x < 8"
    and n: "t_next (threads st x) = None"
  shows "\<exists>st'. sem_enqueue r (Some x) st = Inr st' \<and> sys_rep st' (view_block x r v) \<and> same_rest st st' \<and>
    same_sems st st' \<and> (\<forall>y. t_frame (threads st' y) = t_frame (threads st y)) \<and>
    cpu_cr3 st' = cpu_cr3 st \<and> stack_mem st' = stack_mem st"
proof -
  have q: "queues st v" and pl: "placed st v" using rep by (simp_all add: sys_rep_def)
  have w: "wait_rep (wait_queue r st) (v_waiting v r)" using q by (simp add: queues_def wait_queue_def)
  have nx: "x \<notin> set (v_waiting v r)" using placedD(3) [OF pl] x(1) by auto
  obtain T' h' t' where e: "wait_enq x (wait_queue r st) = (T', h', t')" by (cases "wait_enq x (wait_queue r st)")
  have w': "wait_rep (T', h', t') (v_waiting v r @ [x])" using waiting.rep_enq [OF w nx] e by simp
  note touch = wait_enq_touch [OF w [unfolded wait_queue_def] e [unfolded wait_queue_def]]
  define st' where "st' = put_wait r (T', h', t') st"
  have run: "sem_enqueue r (Some x) st = Inr st'" using sem_enqueue_eq [OF n] e by (simp add: st'_def)
  define v' where "v' = view_block x r v"
  have v': "v_ready v' c p = v_ready v c p" "v_running v' c = v_running v c"
    "v_waiting v' r' = (if r' = r then v_waiting v r @ [x] else v_waiting v r')"
    "v_place v' y = (if y = x then Waiting r else v_place v y)" for c p r' y
    by (simp_all add: v'_def view_block_def)
  have "queues st' v'"
    unfolding st'_def v'_def view_block_def
  proof (rule queues_put_wait [OF q w', of "set (v_waiting v r @ [x])"])
    show "T' y = threads st y" if "y \<notin> set (v_waiting v r @ [x])" for y using touch(1) [OF that] .
    show "set (v_ready v c p) \<inter> set (v_waiting v r @ [x]) = {}" for c p
      using placedD(1,3) [OF pl] x(1) by auto
    show "set (v_waiting v r') \<inter> set (v_waiting v r @ [x]) = {}" if "r' \<noteq> r" for r'
      using that placedD(3) [OF pl] x(1) by auto
  qed
  moreover have "placed st' v'"
  proof -
    have at: "cpu_of st' y = cpu_of st y" "prio_of st' y = prio_of st y" "ncpus st' = ncpus st" for y
      using touch(2) [of y] by (simp_all add: st'_def cpu_of_def prio_of_def static_def)
    have tn: "t_next (threads st' y) = t_next (threads st y)" if "v_place v y = Running c" for y c
    proof -
      have "y \<notin> set (v_waiting v r @ [x])" using that x(1) placedD(3) [OF pl, of y] by auto
      then show ?thesis using touch(1) by (simp add: st'_def)
    qed
    show ?thesis
    proof (rule placedI)
      show "y \<in> set (v_ready v' c p) \<longleftrightarrow> v_place v' y = Ready c p" for c p y
        unfolding v' using placedD(1) [OF pl, of y c p] x(1) by auto
      show "v_running v' c = Some y \<longleftrightarrow> v_place v' y = Running c" for c y
        unfolding v' using placedD(2) [OF pl, of c y] x(1) by auto
      show "y \<in> set (v_waiting v' r') \<longleftrightarrow> v_place v' y = Waiting r'" for r' y
        unfolding v' using placedD(3) [OF pl, of y r'] x(1) by auto
      show "v_place v' y \<noteq> Away \<Longrightarrow> cpu_of st' y < ncpus st' \<and> prio_of st' y < 8" for y
        unfolding v' at using placedD(4) [OF pl, of y] x by (auto split: if_splits)
      show "v_place v' y = Ready c p \<Longrightarrow> c = cpu_of st' y \<and> p = prio_of st' y" for c p y
        unfolding v' at using placedD(5) [OF pl, of y c p] by (auto split: if_splits)
      show "v_place v' y = Running c \<Longrightarrow> c = cpu_of st' y \<and> t_next (threads st' y) = None" for c y
        unfolding v' at using placedD(6) [OF pl, of y c] tn [of y c] by (auto split: if_splits)
    qed
  qed
  moreover have "same_rest st st'" using touch(2) by (simp add: same_rest_def st'_def)
  moreover have "same_sems st st'" by (simp add: st'_def same_sems_put_wait)
  moreover have "cpu_cr3 st' = cpu_cr3 st" "stack_mem st' = stack_mem st" by (simp_all add: st'_def)
  ultimately show ?thesis using run touch(3) unfolding sys_rep_def v'_def by (intro exI [of _ st']) (simp add: st'_def)
qed

section \<open>Semaphore operations\<close>

lemma semaphore_wait_pass:
  assumes "\<not> lock_held (sem_lock (get_sem r st))" "sem_count (get_sem r st) > 0"
  shows "semaphore_wait_by f me r st = Inr (Passed, upd_sem r (\<lambda>s. s\<lparr>sem_count := sem_count s - 1\<rparr>) st)"
  using assms
  by (simp add: semaphore_wait_by_def Let_def upd_sem_upd_sem word_gt_0 o_def)
    (rule upd_sem_cong, simp)

lemma semaphore_wait_block:
  assumes "\<not> lock_held (sem_lock (get_sem r st))" "sem_count (get_sem r st) = 0"
  shows "semaphore_wait_by f me r st =
    res_bind (f (cpu_message me (of_nat me) CM_SEM_WAIT (Sem_ptr r)) (upd_sem r (\<lambda>s. s\<lparr>sem_lock := sem_lock s OR 1\<rparr>) st))
      (\<lambda>(_, st). Inr (Posted, st))"
proof -
  have "upd_sem r (\<lambda>s. s\<lparr>sem_lock := sem_lock (get_sem r st) OR 1\<rparr>) st = upd_sem r (\<lambda>s. s\<lparr>sem_lock := sem_lock s OR 1\<rparr>) st"
    by (rule upd_sem_cong) simp
  then show ?thesis using assms by (simp add: semaphore_wait_by_def Let_def)
qed

lemma semaphore_wait_busy:
  "lock_held (sem_lock (get_sem r st)) \<Longrightarrow> semaphore_wait_by f me r st = Inl SpinForever"
  by (simp add: semaphore_wait_by_def)

lemma semaphore_signal_count:
  assumes "\<not> lock_held (sem_lock (get_sem r st))" "waiting_tail (get_sem r st) = None"
  shows "semaphore_signal_by f me r st = Inr (upd_sem r (\<lambda>s. s\<lparr>sem_count := sem_count s + 1\<rparr>) st)"
  using assms
  by (simp add: semaphore_signal_by_def Let_def upd_sem_upd_sem o_def)
    (rule upd_sem_cong, simp)

lemma semaphore_signal_wake:
  assumes free: "\<not> lock_held (sem_lock (get_sem r st))" and w: "wait_rep (wait_queue r st) (x # xs)"
  shows "semaphore_signal_by f me r st =
    res_bind (f (cpu_message me (ucast (t_exec_cpu (threads st x))) CM_AWAKEN_THREAD (Tcb_ptr x))
        (put_wait r (snd (wait_deq (wait_queue r st))) st)) (\<lambda>(_, st). Inr st)"
proof -
  have h: "waiting_head (get_sem r st) = Some x" "waiting_tail (get_sem r st) = final (x # xs)"
    using w by (auto simp: wait_rep_def wait_queue_def)
  show ?thesis
  proof (cases "waiting_head (get_sem r st) = waiting_tail (get_sem r st)")
    case True
    have e: "upd_sem r (\<lambda>s. s\<lparr>waiting_head := None, waiting_tail := None, sem_lock := release_spinlock (sem_lock (get_sem r st) OR 1)\<rparr>) st =
        upd_sem r (\<lambda>s. s\<lparr>waiting_head := None, waiting_tail := None\<rparr>) st"
      using free by (intro upd_sem_cong) simp
    show ?thesis
      using free h True e
      by (simp add: semaphore_signal_by_def Let_def upd_sem_upd_sem o_def put_wait_def wait_deq_def wait_queue_def)
  next
    case False
    have e: "upd_sem r (\<lambda>s. s\<lparr>waiting_head := t_next (threads st x), sem_lock := release_spinlock (sem_lock (get_sem r st) OR 1)\<rparr>) st =
        upd_sem r (\<lambda>s. s\<lparr>waiting_head := t_next (threads st x), waiting_tail := final (x # xs)\<rparr>) st"
      using free h by (intro upd_sem_cong) simp
    show ?thesis
      using free h False e
      by (simp add: semaphore_signal_by_def Let_def upd_sem_upd_sem o_def put_wait_def wait_deq_def wait_queue_def
          upd_thread_def upd_sem_threads)
  qed
qed

lemma wake_refines:
  assumes rep: "sys_rep st v" and x: "v_waiting v r = x # xs"
    and st': "st' = put_wait r (snd (wait_deq (wait_queue r st))) st"
  shows "sys_rep st' (view_wake r v)" "same_rest st st'" "same_sems st st'"
    "cpu_cr3 st' = cpu_cr3 st" "stack_mem st' = stack_mem st"
    "t_frame (threads st' y) = t_frame (threads st y)"
proof -
  have q: "queues st v" and pl: "placed st v" using rep by (simp_all add: sys_rep_def)
  have w: "wait_rep (wait_queue r st) (x # xs)" using q x by (simp add: queues_def wait_queue_def flip: x)
  obtain z T' h' t' where e: "wait_deq (wait_queue r st) = (z, T', h', t')"
    by (cases "wait_deq (wait_queue r st)") auto
  have w': "wait_rep (T', h', t') xs" using waiting.rep_deq [OF w] e by auto
  note touch = wait_deq_touch [OF w [unfolded wait_queue_def] e [unfolded wait_queue_def]]
  have st'': "st' = put_wait r (T', h', t') st" using e by (simp add: st')
  have dx: "x \<notin> set xs" using waiting.rep_distinct [OF w] by simp
  define v' where "v' = view_wake r v"
  have v': "v_ready v' c p = v_ready v c p" "v_running v' c = v_running v c"
    "v_waiting v' r' = (if r' = r then xs else v_waiting v r')"
    "v_place v' y = (if y = x then Away else v_place v y)" for c p r' y
    by (simp_all add: v'_def view_wake_def x)
  have px: "v_place v x = Waiting r" using placedD(3) [OF pl, of x r] x by simp
  have "queues st' v'"
  proof -
    have "queues (put_wait r (T', h', t') st) (v\<lparr>v_waiting := (v_waiting v)(r := xs), v_place := (v_place v)(x := Away)\<rparr>)"
    proof (rule queues_put_wait [OF q w', of "{x}"])
      show "T' y = threads st y" if "y \<notin> {x}" for y using touch(1) that by simp
      show "set (v_ready v c p) \<inter> {x} = {}" for c p using placedD(1) [OF pl] px by auto
      show "set (v_waiting v r') \<inter> {x} = {}" if "r' \<noteq> r" for r' using that placedD(3) [OF pl] px by auto
    qed
    then show ?thesis by (simp add: st'' v'_def view_wake_def x)
  qed
  moreover have "placed st' v'"
  proof -
    have at: "cpu_of st' y = cpu_of st y" "prio_of st' y = prio_of st y" "ncpus st' = ncpus st" for y
      using touch(2) [of y] by (simp_all add: st'' cpu_of_def prio_of_def static_def)
    have tn: "y \<noteq> x \<Longrightarrow> t_next (threads st' y) = t_next (threads st y)" for y
      using touch(1) by (simp add: st'')
    show ?thesis
    proof (rule placedI)
      show "y \<in> set (v_ready v' c p) \<longleftrightarrow> v_place v' y = Ready c p" for c p y
        unfolding v' using placedD(1) [OF pl, of y c p] px by auto
      show "v_running v' c = Some y \<longleftrightarrow> v_place v' y = Running c" for c y
        unfolding v' using placedD(2) [OF pl, of c y] px by auto
      show "y \<in> set (v_waiting v' r') \<longleftrightarrow> v_place v' y = Waiting r'" for r' y
        unfolding v' using placedD(3) [OF pl, of y r'] px x dx by auto
      show "v_place v' y \<noteq> Away \<Longrightarrow> cpu_of st' y < ncpus st' \<and> prio_of st' y < 8" for y
        unfolding v' at using placedD(4) [OF pl, of y] by (auto split: if_splits)
      show "v_place v' y = Ready c p \<Longrightarrow> c = cpu_of st' y \<and> p = prio_of st' y" for c p y
        unfolding v' at using placedD(5) [OF pl, of y c p] by (auto split: if_splits)
      show "v_place v' y = Running c \<Longrightarrow> c = cpu_of st' y \<and> t_next (threads st' y) = None" for c y
        unfolding v' at using placedD(6) [OF pl, of y c] tn [of y] by (auto split: if_splits)
    qed
  qed
  ultimately show "sys_rep st' (view_wake r v)" by (simp add: sys_rep_def v'_def)
  show "same_rest st st'" using touch(2) by (simp add: same_rest_def st'')
  show "same_sems st st'" by (simp add: st'' same_sems_put_wait)
  show "cpu_cr3 st' = cpu_cr3 st" "stack_mem st' = stack_mem st" by (simp_all add: st'')
  show "t_frame (threads st' y) = t_frame (threads st y)" using touch(3) by (simp add: st'')
qed

text \<open>What a change of locks, counts, messages or pending interrupts leaves of the view.\<close>

lemma sys_rep_cong:
  assumes "sys_rep st v" "threads st' = threads st" "gst st' = gst st"
    "\<And>r. waiting_head (get_sem r st') = waiting_head (get_sem r st) \<and> waiting_tail (get_sem r st') = waiting_tail (get_sem r st)"
  shows "sys_rep st' v"
proof -
  have "cpu_of st' x = cpu_of st x" "prio_of st' x = prio_of st x" for x
    using assms(2) by (simp_all add: cpu_of_def prio_of_def)
  with assms show ?thesis by (simp add: sys_rep_def queues_def placed_def)
qed

lemma sys_rep_upd_sem:
  "sys_rep st v \<Longrightarrow> (\<And>s. waiting_head (f s) = waiting_head s \<and> waiting_tail (f s) = waiting_tail s) \<Longrightarrow>
   sys_rep (upd_sem r f st) v"
  by (erule sys_rep_cong) simp_all

end
