(* ===== verification/Clock.thy ===== *)
theory Clock
  imports Ipc
begin

text \<open>
  The clock, \<^verbatim>\<open>clock/clock.c\<close>: the system time that the first processor advances by ten
  milliseconds per tick, and the timer interrupt, which also switches threads.  The clock task
  only prints.
\<close>

section \<open>System time\<close>

definition update_system_time :: "ktime \<Rightarrow> ktime" where
  "update_system_time time =
     (let time = time\<lparr>kt_msec := kt_msec time + 10\<rparr> in
      if kt_msec time \<ge> 1000 then
        let time = time\<lparr>kt_msec := 0, kt_sec := kt_sec time + 1\<rparr> in
        if kt_sec time \<ge> 60 then
          let time = time\<lparr>kt_sec := 0, kt_min := kt_min time + 1\<rparr> in
          if kt_min time = 60 then
            let time = time\<lparr>kt_min := 0, kt_hour := kt_hour time + 1\<rparr> in
            if kt_hour time = 24 then
              time\<lparr>kt_hour := 0, kt_day := kt_day time + 1, kt_weekday := kt_weekday time + 1\<rparr>
            else time
          else time
        else time
      else time)"

section \<open>The timer interrupt\<close>

text \<open>get_cpu_id is the number \<open>me\<close>; the processor is the boot processor when its id is 0.\<close>

definition count_tick :: "nat \<Rightarrow> kstate \<Rightarrow> kstate" where
  "count_tick me st =
     (let st = upd_cpu me (\<lambda>d. d\<lparr>pc_lapic_count := pc_lapic_count d + 1\<rparr>) st in
      if pc_id (cpus st ! me) = 0
      then st\<lparr>gst := (gst st)\<lparr>system_time := update_system_time (system_time (gst st))\<rparr>\<rparr>
      else st)"

definition timer_callback :: "nat \<Rightarrow> trap_frame \<Rightarrow> kstate \<Rightarrow> kstate res" where
  "timer_callback me regs st =
     res_bind (get_cpu_storage me st) (\<lambda>_.
     res_bind (scheduler_preempt_thread me regs (count_tick me st)) (\<lambda>(_, st).
     res_bind (scheduler_schedule_thread me st) (\<lambda>(_, st).
       scheduler_current_execute me (send_eoi st))))"

section \<open>Lemmas\<close>

text \<open>A time of day in range, and its milliseconds since midnight.\<close>

definition time_ok :: "ktime \<Rightarrow> bool" where
  "time_ok t \<longleftrightarrow> kt_msec t < 1000 \<and> 10 dvd unat (kt_msec t) \<and> kt_sec t < 60 \<and> kt_min t < 60 \<and> kt_hour t < 24"

definition millis :: "ktime \<Rightarrow> nat" where
  "millis t = unat (kt_msec t) + 1000 * (unat (kt_sec t) + 60 * (unat (kt_min t) + 60 * unat (kt_hour t)))"

lemma unat_u8_inc: "x < (60::u8) \<Longrightarrow> unat (x + 1) = unat x + 1" "x < (24::u8) \<Longrightarrow> unat (x + 1) = unat x + 1"
  by (drule unat_Suc_less, simp)+

lemma unat_u16_add10: "x < (1000::u16) \<Longrightarrow> unat (x + 10) = unat x + 10"
  by (simp add: word_less_nat_alt unat_word_ariths)

lemma unat_u8_eq: "(x = (60::u8)) = (unat x = 60)" "(x = (24::u8)) = (unat x = 24)"
  by (simp_all add: word_unat_eq_iff)

lemma update_system_time_millis:
  assumes "time_ok t"
  shows "time_ok (update_system_time t) \<and> millis (update_system_time t) = (millis t + 10) mod 86400000 \<and>
    kt_day (update_system_time t) = (if millis t + 10 = 86400000 then kt_day t + 1 else kt_day t) \<and>
    kt_weekday (update_system_time t) = (if millis t + 10 = 86400000 then kt_weekday t + 1 else kt_weekday t)"
proof -
  have r: "kt_msec t < 1000" "10 dvd unat (kt_msec t)" "kt_sec t < 60" "kt_min t < 60" "kt_hour t < 24"
    using assms by (simp_all add: time_ok_def)
  then have n: "unat (kt_msec t) < 1000" "unat (kt_sec t) < 60" "unat (kt_min t) < 60" "unat (kt_hour t) < 24"
    by (simp_all add: word_less_nat_alt)
  obtain k where k: "unat (kt_msec t) = 10 * k" using r(2) by (elim dvdE)
  note inc = unat_u16_add10 [OF r(1)] unat_u8_inc(1) [OF r(3)] unat_u8_inc(1) [OF r(4)] unat_u8_inc(2) [OF r(5)]
  consider "unat (kt_msec t) + 10 < 1000"
    | "unat (kt_msec t) = 990" "unat (kt_sec t) < 59"
    | "unat (kt_msec t) = 990" "unat (kt_sec t) = 59" "unat (kt_min t) < 59"
    | "unat (kt_msec t) = 990" "unat (kt_sec t) = 59" "unat (kt_min t) = 59" "unat (kt_hour t) < 23"
    | "unat (kt_msec t) = 990" "unat (kt_sec t) = 59" "unat (kt_min t) = 59" "unat (kt_hour t) = 23"
  proof -
    have "unat (kt_msec t) + 10 < 1000 \<or> unat (kt_msec t) = 990" using n(1) k by presburger
    moreover have "unat (kt_sec t) < 59 \<or> unat (kt_sec t) = 59" "unat (kt_min t) < 59 \<or> unat (kt_min t) = 59"
      "unat (kt_hour t) < 23 \<or> unat (kt_hour t) = 23" using n by linarith+
    ultimately show thesis using that by blast
  qed
  then show ?thesis
  proof cases
    case 1
    have d: "10 dvd unat (kt_msec t) + 10" using r(2) by simp
    have m: "millis t + 10 < 86400000" using n 1 by (simp add: millis_def)
    from 1 show ?thesis using r n m d
      by (simp add: update_system_time_def time_ok_def word_le_nat_alt word_less_nat_alt inc millis_def)
  next
    case 2
    have m: "millis t + 10 < 86400000" using n 2 by (simp add: millis_def)
    from 2 show ?thesis using r n m
      by (simp add: update_system_time_def time_ok_def word_le_nat_alt word_less_nat_alt inc millis_def Let_def)
  next
    case 3
    have m: "millis t + 10 < 86400000" using n 3 by (simp add: millis_def)
    from 3 show ?thesis using r n m
      by (simp add: update_system_time_def time_ok_def word_le_nat_alt word_less_nat_alt inc millis_def Let_def unat_u8_eq)
  next
    case 4
    have m: "millis t + 10 < 86400000" using n 4 by (simp add: millis_def)
    from 4 show ?thesis using r n m
      by (simp add: update_system_time_def time_ok_def word_le_nat_alt word_less_nat_alt inc millis_def Let_def unat_u8_eq)
  next
    case 5
    then have m: "millis t + 10 = 86400000" by (simp add: millis_def)
    from 5 show ?thesis using m
      by (simp add: update_system_time_def time_ok_def word_le_nat_alt word_less_nat_alt inc millis_def Let_def unat_u8_eq)
  qed
qed

end
