(* ===== verification/Sched_Switch.thy ===== *)
theory Sched_Switch
  imports Sched_Block Clock
begin

text \<open>
  Whole thread switches: preempting the running thread, choosing the next one and resuming it,
  as the timer interrupt and the message handlers do, in terms of the abstract view.
\<close>

unbundle bit_operations_syntax

section \<open>Preemption\<close>

text \<open>\<open>pr\<close> gives each thread its priority.\<close>

definition view_preempt :: "(nat \<Rightarrow> nat) \<Rightarrow> nat \<Rightarrow> view \<Rightarrow> view" where
  "view_preempt pr c v =
     (case v_running v c of None \<Rightarrow> v | Some x \<Rightarrow> view_add x c (pr x) (view_evict x c v))"

lemma view_preempt_parts [simp]:
  "v_running (view_preempt pr c v) c' = (if c' = c then None else v_running v c')"
  "v_waiting (view_preempt pr c v) = v_waiting v"
  by (auto simp: view_preempt_def view_add_def view_evict_def upd_view_ready_def split: option.split)

lemma view_preempt_ready:
  "v_ready (view_preempt pr c v) c' p =
     (case v_running v c of None \<Rightarrow> v_ready v c' p
      | Some x \<Rightarrow> if c' = c \<and> p = pr x then v_ready v c p @ [x] else v_ready v c' p)"
  by (auto simp: view_preempt_def view_add_def view_evict_def upd_view_ready_def split: option.split)

lemma preempt_refines:
  assumes rep: "sys_rep st v" and c: "c < ncpus st"
  shows "\<exists>st'. scheduler_preempt_thread c f st = Inr (v_running v c, st') \<and>
    sys_rep st' (view_preempt (prio_of st) c v) \<and> same_rest st st' \<and> same_mail st st' \<and>
    (\<forall>y. t_frame (threads st' y) =
       (if v_running v c = Some y then saved_frame (threads st y) f else t_frame (threads st y))) \<and>
    cpu_cr3 st' = cpu_cr3 st \<and> stack_mem st' = stack_mem st"
proof (cases "v_running v c")
  case None
  then have "scheduler_preempt_thread c f st = Inr (None, st)"
    using evict_none [OF rep c] by (simp add: scheduler_preempt_thread_def)
  with None rep show ?thesis by (simp add: view_preempt_def)
next
  case (Some x)
  have pl: "placed st v" using rep by (simp add: sys_rep_def)
  have px: "v_place v x = Running c" using placedD(2) [OF pl] Some by simp
  have at: "cpu_of st x = c" "cpu_of st x < ncpus st" "prio_of st x < 8"
    using placedD(4) [OF pl, of x] placedD(6) [OF pl px] px c by simp_all
  obtain st1 where e: "scheduler_evict_thread c f st = (Some x, st1)" "sys_rep st1 (view_evict x c v)"
    "same_rest st st1" "same_mail st st1"
    "\<forall>y. t_frame (threads st1 y) = (if y = x then saved_frame (threads st x) f else t_frame (threads st y))"
    "cpu_cr3 st1 = cpu_cr3 st" "stack_mem st1 = stack_mem st"
    using evict_refines [OF rep c Some, of f] by blast
  have at1: "cpu_of st1 x = c" "prio_of st1 x = prio_of st x" "ncpus st1 = ncpus st"
    using same_rest_attrs [OF e(3)] at(1) by simp_all
  have "v_place (view_evict x c v) x = Away" by (simp add: view_evict_def)
  from add_ready_refines [OF e(2) this] at at1 obtain st2 where
    a: "scheduler_add_ready x st1 = Inr st2" "sys_rep st2 (view_add x c (prio_of st x) (view_evict x c v))"
    "same_rest st1 st2" "same_mail st1 st2" "\<forall>y. t_frame (threads st2 y) = t_frame (threads st1 y)"
    "cpu_cr3 st2 = cpu_cr3 st1" "stack_mem st2 = stack_mem st1" by auto
  have "scheduler_preempt_thread c f st = Inr (Some x, st2)"
    using e(1) a(1) by (simp add: scheduler_preempt_thread_def)
  then show ?thesis
    using Some a e same_rest_trans [OF e(3) a(3)] same_mail_trans [OF e(4) a(4)]
    by (intro exI [of _ st2]) (auto simp: view_preempt_def)
qed

lemma top_queue_exists:
  assumes "p < 8" "v_ready v c p \<noteq> []"
  shows "\<exists>q. top_queue c v q \<and> q \<le> p"
proof -
  define q where "q = (LEAST q. v_ready v c q \<noteq> [])"
  have "v_ready v c q \<noteq> []" unfolding q_def by (rule LeastI [of "\<lambda>q. v_ready v c q \<noteq> []", OF assms(2)])
  moreover have "q \<le> p" unfolding q_def by (rule Least_le) (rule assms(2))
  moreover have "v_ready v c p' = []" if "p' < q" for p'
    using not_less_Least [of p' "\<lambda>q. v_ready v c q \<noteq> []"] that unfolding q_def by blast
  ultimately show ?thesis using assms(1) unfolding top_queue_def by (intro exI [of _ q]) simp
qed

section \<open>Resuming a thread\<close>

definition resumed :: "kstate \<Rightarrow> nat \<Rightarrow> nat \<Rightarrow> kstate \<Rightarrow> bool" where
  "resumed st c y st' \<longleftrightarrow>
     (\<exists>pp. t_parent (threads st y) = Some pp \<and> cpu_cr3 st' c = p_page_directory (process_slots st pp)) \<and>
     (if t_is_kernel (threads st y) \<noteq> 0
      then tf_cs (t_frame (threads st y)) AND 3 \<noteq> 3 \<longrightarrow>
        cpu_run st' c = frame_regs (t_frame (threads st y)) (tf_kernel_esp (t_frame (threads st y)) + 20)
          (GDT_SS_ENTRY (of_nat c) * 8)
      else \<exists>ss. cpu_run st' c = frame_regs (t_frame (threads st y)) (tf_kernel_esp (t_frame (threads st y)) + 12) ss)"

lemma execute_ok:
  assumes c: "c < ncpus st" and x: "current_thread (sched c st) = Some x" and p: "t_parent (threads st x) = Some pp"
  shows "\<exists>st'. scheduler_current_execute c st = Inr st' \<and> threads st' = threads st \<and> gst st' = gst st \<and>
    mailbox_slots st' = mailbox_slots st \<and> other_sems st' = other_sems st \<and> ipis st' = ipis st \<and>
    process_slots st' = process_slots st \<and> resumed st c x st'"
proof -
  let ?f = "t_frame (threads st x)"
  define kss where "kss = (if t_is_kernel (threads st x) \<noteq> 0 then GDT_SS_ENTRY (of_nat c) * 8 else r_ss (cpu_run st c))"
  define b where "b = (if t_is_kernel (threads st x) \<noteq> 0 then tf_kernel_esp ?f - 48 else tf_kernel_esp ?f - 56)"
  define ws where "ws = (if t_is_kernel (threads st x) \<noteq> 0 then kframe_words ?f else frame_words ?f)"
  define m where "m = put_words b ws (stack_mem st)"
  define st' where "st' = st\<lparr>cpu_cr3 := (cpu_cr3 st)(c := p_page_directory (process_slots st pp)), stack_mem := m,
    cpu_run := (cpu_run st)(c := iret_frame m b kss)\<rparr>"
  have "scheduler_current_execute c st = Inr st'"
    using c x p
    by (simp add: scheduler_current_execute_def scheduler_restore_thread_def Let_def st'_def m_def b_def ws_def kss_def)
  moreover have "resumed st c x st'"
  proof (cases "t_is_kernel (threads st x) \<noteq> 0")
    case True
    have e: "b + 68 = tf_kernel_esp ?f + 20" using True by (simp add: b_def)
    have "iret_frame m b kss = frame_regs ?f (tf_kernel_esp ?f + 20) kss" if "tf_cs ?f AND 3 \<noteq> 3"
      unfolding e [symmetric] using True that by (intro iret_put_kframe [of _ _ "stack_mem st"]) (simp_all add: m_def ws_def)
    with True p show ?thesis by (simp add: resumed_def st'_def kss_def)
  next
    case False
    have e: "b + 68 = tf_kernel_esp ?f + 12" using False by (simp add: b_def)
    have "iret_frame m b kss = frame_regs ?f (tf_kernel_esp ?f + 12) kss"
      unfolding e [symmetric] using False by (intro iret_put_frame [of _ _ "stack_mem st"]) (simp add: m_def ws_def)
    with False p show ?thesis by (auto simp: resumed_def st'_def)
  qed
  ultimately show ?thesis by (intro exI [of _ st']) (simp add: st'_def)
qed

text \<open>The threads that scheduling knows have a process.\<close>

definition owned :: "kstate \<Rightarrow> view \<Rightarrow> bool" where
  "owned st v \<longleftrightarrow> (\<forall>y. v_place v y \<noteq> Away \<longrightarrow> t_parent (threads st y) \<noteq> None)"

lemma sys_rep_send_eoi [simp]: "sys_rep (send_eoi st) v = sys_rep st v"
proof -
  have "get_sem r (send_eoi st) = get_sem r st" for r by (rule get_sem_cong) (simp_all add: send_eoi_def)
  then show ?thesis
    using sys_rep_cong [of st v "send_eoi st"] sys_rep_cong [of "send_eoi st" v st] by (auto simp: send_eoi_def)
qed

lemma send_eoi_parts [simp]:
  "threads (send_eoi st) = threads st" "gst (send_eoi st) = gst st" "mailbox_slots (send_eoi st) = mailbox_slots st"
  "other_sems (send_eoi st) = other_sems st" "ipis (send_eoi st) = ipis st"
  "process_slots (send_eoi st) = process_slots st"
  by (simp_all add: send_eoi_def)

lemma sys_rep_mail_cong:
  assumes "sys_rep st v" "threads st' = threads st" "gst st' = gst st" "mailbox_slots st' = mailbox_slots st"
    "other_sems st' = other_sems st"
  shows "sys_rep st' v"
  using sys_rep_cong [OF assms(1-3)] get_sem_cong [OF assms(4,5)] by metis

text \<open>
  Scheduling on a processor that runs nothing and has some thread ready: the thread at the head
  of the first non-empty queue runs, and it goes on with the registers of its frame.
\<close>

lemma schedule_execute:
  assumes rep: "sys_rep st v" and c: "c < ncpus st" "v_running v c = None" and top: "top_queue c v p"
    and own: "owned st v"
    and mid: "\<And>st1. same_mail st st1 \<Longrightarrow> \<exists>st2. h st1 = Inr st2 \<and> threads st2 = threads st1 \<and> gst st2 = gst st1 \<and>
      process_slots st2 = process_slots st1 \<and>
      (\<forall>r. waiting_head (get_sem r st2) = waiting_head (get_sem r st1) \<and>
        waiting_tail (get_sem r st2) = waiting_tail (get_sem r st1)) \<and> mail st2"
    and mail: "\<And>a b. mail a \<Longrightarrow> mailbox_slots b = mailbox_slots a \<Longrightarrow> other_sems b = other_sems a \<Longrightarrow> ipis b = ipis a \<Longrightarrow> mail b"
  shows "\<exists>st'. res_bind (scheduler_schedule_thread c st) (\<lambda>(_, st). res_bind (h st) (\<lambda>st.
      scheduler_current_execute c (send_eoi st))) = Inr st' \<and>
    sys_rep st' (view_schedule c p v) \<and> same_rest st st' \<and> mail st' \<and> resumed st c (hd (v_ready v c p)) st' \<and>
    (\<forall>y. t_frame (threads st' y) = t_frame (threads st y))"
proof -
  let ?y = "hd (v_ready v c p)"
  obtain st1 where s1: "scheduler_schedule_thread c st = Inr (?y, st1)" "sys_rep st1 (view_schedule c p v)"
    "same_rest st st1" "same_mail st st1" "\<forall>y. t_frame (threads st1 y) = t_frame (threads st y)"
    using schedule_refines [OF rep c top] by blast
  obtain st2 where s2: "h st1 = Inr st2" "threads st2 = threads st1" "gst st2 = gst st1"
      "process_slots st2 = process_slots st1"
      "\<forall>r. waiting_head (get_sem r st2) = waiting_head (get_sem r st1) \<and> waiting_tail (get_sem r st2) = waiting_tail (get_sem r st1)"
      "mail st2"
    using mid [OF s1(4)] by blast
  have rep2: "sys_rep (send_eoi st2) (view_schedule c p v)"
    unfolding sys_rep_send_eoi by (rule sys_rep_cong [OF s1(2) s2(2,3)]) (use s2(5) in simp)
  have n2: "ncpus (send_eoi st2) = ncpus st" using s2(3) same_rest_attrs(3) [OF s1(3)] by simp
  have run: "current_thread (sched c (send_eoi st2)) = Some ?y"
    using rep2 c(1) n2 by (simp add: sys_rep_def queues_def view_schedule_def Let_def)
  have "?y \<in> set (v_ready v c p)" using top by (simp add: top_queue_def)
  then have "v_place v ?y \<noteq> Away" using rep placedD(1) [of st v ?y c p] by (simp add: sys_rep_def)
  then obtain pp where pp: "t_parent (threads st ?y) = Some pp" using own by (auto simp: owned_def)
  have par: "t_parent (threads (send_eoi st2) ?y) = Some pp"
    using s2(2) same_rest_attrs(4) [OF s1(3)] pp by simp
  obtain st3 where s3: "scheduler_current_execute c (send_eoi st2) = Inr st3" "threads st3 = threads st2" "gst st3 = gst st2"
    "mailbox_slots st3 = mailbox_slots st2" "other_sems st3 = other_sems st2" "ipis st3 = ipis st2"
    "process_slots st3 = process_slots st2" "resumed (send_eoi st2) c ?y st3"
    using execute_ok [OF _ run par] c(1) n2 by auto
  have rep3: "sys_rep st3 (view_schedule c p v)"
    by (rule sys_rep_mail_cong [OF rep2]) (simp_all add: s3)
  have rest: "same_rest st st3" using s1(3) s2 s3 by (simp add: same_rest_def)
  have "resumed st c ?y st3"
  proof -
    have e: "t_frame (threads (send_eoi st2) ?y) = t_frame (threads st ?y)"
      "t_parent (threads (send_eoi st2) ?y) = t_parent (threads st ?y)"
      "t_is_kernel (threads (send_eoi st2) ?y) = t_is_kernel (threads st ?y)"
      "process_slots (send_eoi st2) = process_slots st"
      using s1(5) s2(2,4) same_rest_attrs(4-6) [OF s1(3)] by simp_all
    show ?thesis using s3(8) unfolding resumed_def e .
  qed
  moreover have "mail st3" by (rule mail [OF s2(6)]) (simp_all add: s3)
  moreover have "\<forall>y. t_frame (threads st3 y) = t_frame (threads st y)" using s1(5) s2(2) s3(2) by simp
  ultimately show ?thesis using s1(1) s2(1) s3(1) rep3 rest by simp
qed

section \<open>The timer interrupt\<close>

lemma sys_rep_cpu_cong:
  assumes "sys_rep st v" "threads st' = threads st" "ncpus st' = ncpus st"
    "\<And>c. c < ncpus st \<Longrightarrow> sched c st' = sched c st" "mailbox_slots st' = mailbox_slots st" "other_sems st' = other_sems st"
  shows "sys_rep st' v"
proof -
  have "get_sem r st' = get_sem r st" for r using get_sem_cong [OF assms(5,6)] .
  moreover have "cpu_of st' x = cpu_of st x" "prio_of st' x = prio_of st x" for x
    using assms(2) by (simp_all add: cpu_of_def prio_of_def)
  ultimately show ?thesis using assms(1-4) by (simp add: sys_rep_def queues_def placed_def)
qed

lemma count_tick_parts [simp]:
  "threads (count_tick c st) = threads st" "mailbox_slots (count_tick c st) = mailbox_slots st"
  "other_sems (count_tick c st) = other_sems st" "ipis (count_tick c st) = ipis st"
  "process_slots (count_tick c st) = process_slots st" "ncpus (count_tick c st) = ncpus st"
  by (simp_all add: count_tick_def Let_def)

lemma count_tick_cpus:
  assumes "c < ncpus st"
  shows "sched c' (count_tick c st) = sched c' st" "pc_mailbox (cpus (count_tick c st) ! c') = pc_mailbox (cpus st ! c')"
    "pc_id (cpus (count_tick c st) ! c') = pc_id (cpus st ! c')"
  using assms by (simp_all add: count_tick_def Let_def nth_list_update_if)

lemma count_tick_rep: "sys_rep st v \<Longrightarrow> c < ncpus st \<Longrightarrow> sys_rep (count_tick c st) v"
  by (erule sys_rep_cpu_cong) (simp_all add: count_tick_cpus)

lemma count_tick_rest: "c < ncpus st \<Longrightarrow> same_rest st (count_tick c st)"
  by (simp add: same_rest_def count_tick_cpus)

lemma count_tick_attrs [simp]: "cpu_of (count_tick c st) x = cpu_of st x" "prio_of (count_tick c st) x = prio_of st x"
  by (simp_all add: cpu_of_def prio_of_def)

lemma owned_preempt:
  assumes "owned st v" "same_rest st st'" "sys_rep st v"
  shows "owned st' (view_preempt pr c v)"
  unfolding owned_def
proof (intro allI impI)
  fix y assume y: "v_place (view_preempt pr c v) y \<noteq> Away"
  have "v_place v y \<noteq> Away"
  proof (cases "v_running v c = Some y")
    case True
    then show ?thesis using assms(3) placedD(2) [of st v c y] by (simp add: sys_rep_def)
  next
    case False
    then show ?thesis using y by (auto simp: view_preempt_def view_add_def view_evict_def upd_view_ready_def split: option.splits if_splits)
  qed
  then show "t_parent (threads st' y) \<noteq> None" using assms(1) same_rest_attrs(4) [OF assms(2)] by (simp add: owned_def)
qed

lemma timer_refines:
  assumes rep: "sys_rep st v" and c: "c < ncpus st" and own: "owned st v"
    and top: "top_queue c (view_preempt (prio_of st) c v) p"
  defines "w \<equiv> view_preempt (prio_of st) c v"
  shows "\<exists>st'. timer_callback c f st = Inr st' \<and> sys_rep st' (view_schedule c p w) \<and> same_rest st st' \<and>
    same_mail st st' \<and>
    (\<forall>y. t_frame (threads st' y) =
       (if v_running v c = Some y then saved_frame (threads st y) f else t_frame (threads st y))) \<and>
    (\<exists>st1. resumed st1 c (hd (v_ready w c p)) st' \<and> same_rest st st1 \<and>
      (\<forall>y. t_frame (threads st1 y) = t_frame (threads st' y)))"
proof -
  obtain st1 where s1: "scheduler_preempt_thread c f (count_tick c st) = Inr (v_running v c, st1)"
    "sys_rep st1 w" "same_rest (count_tick c st) st1" "same_mail (count_tick c st) st1"
    "\<forall>y. t_frame (threads st1 y) =
       (if v_running v c = Some y then saved_frame (threads st y) f else t_frame (threads st y))"
    using preempt_refines [OF count_tick_rep [OF rep c], of c f] c
    unfolding w_def count_tick_attrs [abs_def] count_tick_parts by blast
  have r1: "same_rest st st1" by (rule same_rest_trans [OF count_tick_rest [OF c] s1(3)])
  have m1: "same_mail st st1" using s1(4) by (simp add: same_mail_def)
  have n1: "c < ncpus st1" using same_rest_attrs(3) [OF r1] c by simp
  have run: "v_running w c = None" by (simp add: w_def)
  have own1: "owned st1 w" unfolding w_def by (rule owned_preempt [OF own r1 rep])
  have "\<exists>st'. res_bind (scheduler_schedule_thread c st1) (\<lambda>(_, st). res_bind (Inr st) (\<lambda>st.
      scheduler_current_execute c (send_eoi st))) = Inr st' \<and>
    sys_rep st' (view_schedule c p w) \<and> same_rest st1 st' \<and> same_mail st1 st' \<and> resumed st1 c (hd (v_ready w c p)) st' \<and>
    (\<forall>y. t_frame (threads st' y) = t_frame (threads st1 y))"
  proof (rule schedule_execute [OF s1(2) n1 run top [folded w_def] own1])
    show "\<exists>st2. Inr s = Inr st2 \<and> threads st2 = threads s \<and> gst st2 = gst s \<and> process_slots st2 = process_slots s \<and>
      (\<forall>r. waiting_head (get_sem r st2) = waiting_head (get_sem r s) \<and> waiting_tail (get_sem r st2) = waiting_tail (get_sem r s)) \<and>
      same_mail st1 st2" if "same_mail st1 s" for s using that by auto
  qed (simp add: same_mail_def)
  then obtain st' where s': "res_bind (scheduler_schedule_thread c st1) (\<lambda>(_, st). scheduler_current_execute c (send_eoi st)) = Inr st'"
    "sys_rep st' (view_schedule c p w)" "same_rest st1 st'" "same_mail st1 st'" "resumed st1 c (hd (v_ready w c p)) st'"
    "\<forall>y. t_frame (threads st' y) = t_frame (threads st1 y)" by auto
  have "timer_callback c f st = Inr st'"
    using c s1(1) s'(1) by (simp add: timer_callback_def)
  then show ?thesis
    using s'(2,5,6) s1(5) same_rest_trans [OF r1 s'(3)] same_mail_trans [OF m1 s'(4)] r1
    by (intro exI [of _ st']) (auto intro!: exI [of _ st1])
qed

lemma owned_same:
  assumes "owned st v" "same_rest st st'" "\<And>y. v_place v' y \<noteq> Away \<Longrightarrow> v_place v y \<noteq> Away"
  shows "owned st' v'"
  using assms(1,3) same_rest_attrs(4) [OF assms(2)] by (auto simp: owned_def)

end
