(* ===== verification/Kernel_Example.thy ===== *)
theory Kernel_Example
  imports Sched_Switch
begin

text \<open>
  A small system for witnesses: one processor, two user threads of process 0 with priority 0,
  thread 0 running and thread 1 ready; mailbox 0 is the processor's, mailbox 1 belongs to thread
  0 and is empty; no message is under way.
\<close>

definition free_sem :: "u32 \<Rightarrow> semaphore" where
  "free_sem n = \<lparr>sem_lock = 0, sem_count = n, waiting_head = None, waiting_tail = None\<rparr>"

definition no_message :: message where
  "no_message = \<lparr>msg_src = 0, msg_dst = 0, msg_func = 0, msg_type = 0, msg_ptr = Null_ptr\<rparr>"

definition ex_thread :: "u16 \<Rightarrow> tcb" where
  "ex_thread n = \<lparr>t_flags = THREAD_NEW, t_frame = trap_frame_init_user 0x8000 0x5000 0xD01000, t_tid = n,
     t_is_kernel = 0, t_exec_cpu = 0, t_parent = Some 0, t_priotity = 0, t_mailbox = None,
     t_prev = None, t_next = None\<rparr>"

definition ex_mailbox :: "nat \<Rightarrow> mailbox" where
  "ex_mailbox m = \<lparr>mb_mid = of_nat m,
     mb_type = (if m = 0 then MAILBOX_CPU else if m = 1 then MAILBOX_THREAD else MAILBOX_NONE),
     mb_owner = (if m = 0 then Cpu_ptr 0 else if m = 1 then Tcb_ptr 0 else Null_ptr),
     mb_message = no_message, sem_rdy = free_sem (if m = 1 then 1 else 0), sem_recv = free_sem 0\<rparr>"

definition ex_process :: pcb where
  "ex_process = \<lparr>p_flags = PROCESS_NEW, p_pid = 0, p_page_directory = 0x9000, p_lock = 0, p_parent = None,
     p_name = replicate 16 0, memory_contract = \<lparr>root = Null\<rparr>\<rparr>"

definition ex_cpu :: per_cpu_data where
  "ex_cpu = \<lparr>pc_id = 0, pc_enabled = 1, pc_test_data = 0, pc_lapic_period = 10, pc_lapic_count = 0,
     pc_common_stack_top = 0x5000, pc_tss_entry = tss_zero,
     pc_scheduler = \<lparr>ready_heads = (\<lambda>_. None)(0 := Some 1), ready_tails = (\<lambda>_. None)(0 := Some 1),
       sched_lock = 0, current_thread = Some 0\<rparr>,
     pc_mailbox = Some 0\<rparr>"

definition ex_time :: ktime where
  "ex_time = \<lparr>kt_msec = 990, kt_sec = 59, kt_min = 59, kt_hour = 23, kt_day = 31, kt_month = 12,
     kt_year = 2018, kt_weekday = 1\<rparr>"

definition ex_gst :: gst where
  "ex_gst = \<lparr>processor_count = 1, ioapic_count = 0, lapic_base = 0xFEE00000, ioapic_base = 0xFEC00000,
     gst_gdtr = \<lparr>gdtr_limit = 0, gdtr_base = 0\<rparr>, gst_idtr = \<lparr>idtr_limit = 0, idtr_base = 0\<rparr>,
     BSP_dir = 0x9000, RSDP_base = 0, ioapic_overrides = replicate 16 0, system_time = ex_time,
     gst_gdt_entries = [], per_cpu_ptrs = replicate 256 None, per_cpu_data_base = [ex_cpu]\<rparr>"

definition ex_state :: kstate where
  "ex_state = \<lparr>thread_slots = (\<lambda>n. ex_thread (of_nat n)), process_slots = (\<lambda>_. ex_process),
     mailbox_slots = ex_mailbox, ps_lock = 0, ts_lock = 0, ms_lock = 0, other_sems = (\<lambda>_. free_sem 0),
     gst = ex_gst, cpu_cr3 = (\<lambda>_. 0x9000),
     cpu_run = (\<lambda>_. frame_regs trap_frame_zero 0 0),
     stack_mem = (\<lambda>_. 0), ipis = [], eois = 0\<rparr>"

definition ex_view :: view where
  "ex_view = \<lparr>v_ready = (\<lambda>c p. if c = 0 \<and> p = 0 then [1] else []), v_running = (\<lambda>c. if c = 0 then Some 0 else None),
     v_waiting = (\<lambda>_. []), v_place = (\<lambda>x. if x = 0 then Running 0 else if x = 1 then Ready 0 0 else Away)\<rparr>"

lemma ex_parts [simp]:
  "threads ex_state n = ex_thread (of_nat n)" "ncpus ex_state = 1" "cpus ex_state = [ex_cpu]" "ipis ex_state = []"
  "process_slots ex_state n = ex_process" "mailbox_slots ex_state m = ex_mailbox m"
  by (simp_all add: ex_state_def ex_gst_def)

lemma ex_thread_parts [simp]:
  "t_exec_cpu (ex_thread n) = 0" "t_priotity (ex_thread n) = 0" "t_prev (ex_thread n) = None" "t_next (ex_thread n) = None"
  "t_parent (ex_thread n) = Some 0" "t_is_kernel (ex_thread n) = 0"
  by (simp_all add: ex_thread_def)

lemma ex_sem: "waiting_head (get_sem r ex_state) = None" "waiting_tail (get_sem r ex_state) = None"
  by (cases r; simp add: ex_state_def ex_mailbox_def free_sem_def)+

lemma ex_rep: "sys_rep ex_state ex_view"
  by (auto simp: sys_rep_def queues_def placed_def ex_view_def ready_rep_def wait_rep_def ex_sem ex_cpu_def
      cpu_of_def prio_of_def)

lemma ex_owned: "owned ex_state ex_view"
  by (simp add: owned_def)

lemma ex_running: "v_running ex_view 0 = Some 0"
  by (simp add: ex_view_def)

end
