(* ===== verification/Sched_Props.thy ===== *)
theory Sched_Props
  imports Sched_Switch Kernel_Example
begin

text \<open>
  Properties of scheduling: the timer interrupt refines the abstract thread switch, threads of
  one priority take turns, threads of a lower priority wait for ever, and the saved registers
  come back.
\<close>

unbundle bit_operations_syntax

section \<open>The timer interrupt\<close>

text \<open>
  C9. The timer interrupt on a processor with a running thread never fails: it puts that thread
  to the end of the ready queue of its priority and runs the thread at the head of the first
  queue that is not empty, whose priority is at least as good; that is what it does to the lists
  of threads, no other list changes, and every thread stays in exactly one place.
\<close>

theorem timer_callback_refines:
  assumes "sys_rep st v" "c < ncpus st" "owned st v" "v_running v c = Some x"
  shows "\<exists>p st'. timer_callback c f st = Inr st' \<and>
    top_queue c (view_add x c (prio_of st x) (view_evict x c v)) p \<and> p \<le> prio_of st x \<and>
    sys_rep st' (view_schedule c p (view_add x c (prio_of st x) (view_evict x c v))) \<and>
    same_rest st st' \<and> same_mail st st'"
proof -
  let ?w = "view_preempt (prio_of st) c v"
  have w: "?w = view_add x c (prio_of st x) (view_evict x c v)" using assms(4) by (simp add: view_preempt_def)
  have pl: "placed st v" using assms(1) by (simp add: sys_rep_def)
  have "v_place v x = Running c" using placedD(2) [OF pl, of c x] assms(4) by simp
  then have "prio_of st x < 8" using placedD(4) [OF pl, of x] by simp
  moreover have "v_ready ?w c (prio_of st x) \<noteq> []" using assms(4) by (simp add: view_preempt_ready)
  ultimately obtain p where p: "top_queue c ?w p" "p \<le> prio_of st x" using top_queue_exists by blast
  from timer_refines [OF assms(1-3) p(1), of f] p show ?thesis unfolding w by blast
qed

theorem timer_callback_refines_witness:
  "\<exists>p st'. timer_callback 0 trap_frame_zero ex_state = Inr st' \<and> p = 0 \<and>
    sys_rep st' (view_schedule 0 p (view_add 0 0 0 (view_evict 0 0 ex_view))) \<and>
    v_running (view_schedule 0 p (view_add 0 0 0 (view_evict 0 0 ex_view))) 0 = Some 1"
proof -
  have c: "0 < ncpus ex_state" by simp
  have z: "prio_of ex_state 0 = 0" by (simp add: prio_of_def)
  from timer_callback_refines [OF ex_rep c ex_owned ex_running, of trap_frame_zero] obtain p st' where
    "timer_callback 0 trap_frame_zero ex_state = Inr st'" "p = 0"
    "sys_rep st' (view_schedule 0 p (view_add 0 0 0 (view_evict 0 0 ex_view)))" unfolding z by auto
  moreover have "v_running (view_schedule 0 0 (view_add 0 0 0 (view_evict 0 0 ex_view))) 0 = Some 1"
    by (simp add: view_schedule_def view_add_def view_evict_def upd_view_ready_def ex_view_def Let_def)
  ultimately show ?thesis by auto
qed

section \<open>Taking turns\<close>

text \<open>Several timer interrupts on one processor, each with the frame of the interrupted thread.\<close>

primrec ticks :: "nat \<Rightarrow> trap_frame list \<Rightarrow> kstate \<Rightarrow> kstate res" where
  "ticks c [] st = Inr st"
| "ticks c (f # fs) st = res_bind (timer_callback c f st) (ticks c fs)"

definition turn :: "nat \<Rightarrow> nat \<Rightarrow> view \<Rightarrow> nat list \<Rightarrow> bool" where
  "turn c p v xs \<longleftrightarrow> xs \<noteq> [] \<and> v_running v c = Some (hd xs) \<and> v_ready v c p = tl xs \<and> (\<forall>p' < p. v_ready v c p' = [])"

lemma tick_rotates:
  assumes rep: "sys_rep st v" and c: "c < ncpus st" and own: "owned st v"
    and t: "turn c p v xs" and p: "prio_of st (hd xs) = p"
  shows "\<exists>st' v'. timer_callback c f st = Inr st' \<and> sys_rep st' v' \<and> same_rest st st' \<and> owned st' v' \<and>
    turn c p v' (rotate1 xs) \<and> (\<forall>c' p'. (c', p') \<noteq> (c, p) \<longrightarrow> v_ready v' c' p' = v_ready v c' p')"
proof -
  obtain x ys where xs: "xs = x # ys" using t by (cases xs) (auto simp: turn_def)
  have run: "v_running v c = Some x" and ys: "v_ready v c p = ys" and hi: "\<forall>p' < p. v_ready v c p' = []"
    using t by (auto simp: turn_def xs)
  have px: "prio_of st x = p" using p xs by simp
  let ?w = "view_preempt (prio_of st) c v"
  have pl: "placed st v" using rep by (simp add: sys_rep_def)
  have place: "v_place v x = Running c" using placedD(2) [OF pl, of c x] run by simp
  have p8: "p < 8" using placedD(4) [OF pl, of x] place px by simp
  have wr: "v_ready ?w c' p' = (if c' = c \<and> p' = p then ys @ [x] else v_ready v c' p')" for c' p'
    using run ys px by (auto simp: view_preempt_ready)
  have top: "top_queue c ?w p" using p8 hi by (auto simp: top_queue_def wr)
  define v' where "v' = view_schedule c p ?w"
  from timer_refines [OF rep c own top, of f] obtain st' where s': "timer_callback c f st = Inr st'" "sys_rep st' v'"
    "same_rest st st'" unfolding v'_def by blast
  have "v_place v y \<noteq> Away" if "v_place v' y \<noteq> Away" for y
  proof -
    have "hd (ys @ [x]) \<in> set (ys @ [x])" by (rule hd_in_set) simp
    then have "v_place v (hd (ys @ [x])) \<noteq> Away"
      using place placedD(1) [OF pl, of "hd (ys @ [x])" c p] ys by auto
    moreover have "v_place v' y = (if y = hd (v_ready ?w c p) then Running c else v_place ?w y)"
      by (simp add: v'_def view_schedule_def Let_def upd_view_ready_def)
    moreover have "v_place ?w y = (if y = x then Ready c p else v_place v y)"
      using run px by (simp add: view_preempt_def view_add_def view_evict_def upd_view_ready_def)
    moreover have "v_ready ?w c p = ys @ [x]" using wr [of c p] by simp
    ultimately show ?thesis using that place by (auto split: if_splits)
  qed
  then have "owned st' v'" using owned_same [OF own s'(3)] by blast
  moreover have "turn c p v' (rotate1 xs)"
    using hi by (auto simp: turn_def xs v'_def view_schedule_def Let_def upd_view_ready_def wr)
  moreover have "v_ready v' c' p' = v_ready v c' p'" if "(c', p') \<noteq> (c, p)" for c' p'
    using that by (auto simp: v'_def view_schedule_def Let_def upd_view_ready_def wr)
  ultimately show ?thesis using s' by blast
qed

text \<open>
  C18. Among the threads of the best priority on a processor every one gets its turn: after \<open>n\<close>
  timer interrupts the running thread is the one that stood at position \<open>n\<close> of the cycle that
  starts with the running thread.  Threads of a lower priority stand where they stood, however
  many interrupts there are.
\<close>

theorem timer_round_robin:
  assumes "sys_rep st v" "c < ncpus st" "owned st v" "turn c p v xs" "\<forall>x \<in> set xs. prio_of st x = p"
  shows "\<exists>st' v'. ticks c fs st = Inr st' \<and> sys_rep st' v' \<and>
    v_running v' c = Some (xs ! (length fs mod length xs)) \<and>
    (\<forall>q \<noteq> p. v_ready v' c q = v_ready v c q)"
proof -
  have "\<exists>st' v'. ticks c fs st = Inr st' \<and> sys_rep st' v' \<and> turn c p v' (rotate (length fs) xs) \<and>
      (\<forall>q \<noteq> p. v_ready v' c q = v_ready v c q)"
    using assms
  proof (induction fs arbitrary: st v xs)
    case Nil
    then show ?case by auto
  next
    case (Cons f fs)
    have ne: "xs \<noteq> []" using Cons.prems(4) by (simp add: turn_def)
    then have "prio_of st (hd xs) = p" using Cons.prems(5) by simp
    from tick_rotates [OF Cons.prems(1-4) this, of f] obtain st1 v1 where s1: "timer_callback c f st = Inr st1"
      "sys_rep st1 v1" "same_rest st st1" "owned st1 v1" "turn c p v1 (rotate1 xs)"
      "\<forall>c' p'. (c', p') \<noteq> (c, p) \<longrightarrow> v_ready v1 c' p' = v_ready v c' p'" by blast
    have "c < ncpus st1" "\<forall>x \<in> set (rotate1 xs). prio_of st1 x = p"
      using same_rest_attrs(2,3) [OF s1(3)] Cons.prems(2,5) by simp_all
    from Cons.IH [OF s1(2) this(1) s1(4,5) this(2)] obtain st2 v2 where "ticks c fs st1 = Inr st2" "sys_rep st2 v2"
      "turn c p v2 (rotate (length fs) (rotate1 xs))" "\<forall>q \<noteq> p. v_ready v2 c q = v_ready v1 c q" by blast
    moreover have "rotate (length fs) (rotate1 xs) = rotate (length (f # fs)) xs"
      by (simp add: rotate1_rotate_swap)
    ultimately show ?case using s1(1,6) by auto
  qed
  moreover have "hd (rotate (length fs) xs) = xs ! (length fs mod length xs)"
    using assms(4) by (simp add: turn_def hd_rotate_conv_nth)
  ultimately show ?thesis by (auto simp: turn_def)
qed

theorem timer_round_robin_witness:
  "\<exists>st' v'. ticks 0 [trap_frame_zero, trap_frame_zero, trap_frame_zero] ex_state = Inr st' \<and> sys_rep st' v' \<and>
    v_running v' 0 = Some 1"
proof -
  have c: "0 < ncpus ex_state" by simp
  have t: "turn 0 0 ex_view [0, 1]" by (simp add: turn_def ex_view_def)
  have p: "\<forall>x \<in> set [0, 1]. prio_of ex_state x = 0" by (simp add: prio_of_def)
  have i: "[0, 1] ! (length [trap_frame_zero, trap_frame_zero, trap_frame_zero] mod length [0, 1 :: nat]) = (1 :: nat)"
    by (simp add: mod_Suc)
  from timer_round_robin [OF ex_rep c ex_owned t p, of "[trap_frame_zero, trap_frame_zero, trap_frame_zero]"]
  show ?thesis unfolding i by blast
qed

section \<open>Registers\<close>

text \<open>
  C19. A timer interrupt saves the interrupted thread's frame and leaves all other saved frames
  alone; and the processor goes on with exactly the registers in the frame of the thread it now
  runs: a user thread's all of them, stack included, a kernel thread's on its own stack.
\<close>

theorem timer_callback_registers:
  assumes "sys_rep st v" "c < ncpus st" "owned st v" "v_running v c = Some x"
  shows "\<exists>st' v' y. timer_callback c f st = Inr st' \<and> sys_rep st' v' \<and> v_running v' c = Some y \<and>
    t_frame (threads st' x) = saved_frame (threads st x) f \<and>
    (\<forall>z. z \<noteq> x \<longrightarrow> t_frame (threads st' z) = t_frame (threads st z)) \<and>
    (\<exists>pp. t_parent (threads st y) = Some pp \<and> cpu_cr3 st' c = p_page_directory (process_slots st pp)) \<and>
    (let fr = t_frame (threads st' y) in
      (t_is_kernel (threads st y) = 0 \<longrightarrow> tf_cs fr AND 3 = 3 \<longrightarrow> cpu_run st' c = frame_regs fr 0 0) \<and>
      (t_is_kernel (threads st y) \<noteq> 0 \<longrightarrow> tf_cs fr AND 3 \<noteq> 3 \<longrightarrow>
        cpu_run st' c = frame_regs fr (tf_kernel_esp fr + 20) (GDT_SS_ENTRY (of_nat c) * 8)))"
proof -
  let ?w = "view_preempt (prio_of st) c v"
  have pl: "placed st v" using assms(1) by (simp add: sys_rep_def)
  have "v_place v x = Running c" using placedD(2) [OF pl, of c x] assms(4) by simp
  then have "prio_of st x < 8" using placedD(4) [OF pl, of x] by simp
  moreover have "v_ready ?w c (prio_of st x) \<noteq> []" using assms(4) by (simp add: view_preempt_ready)
  ultimately obtain p where p: "top_queue c ?w p" using top_queue_exists by blast
  define y where "y = hd (v_ready ?w c p)"
  from timer_refines [OF assms(1-3) p, of f] obtain st' st1 where s':
    "timer_callback c f st = Inr st'" "sys_rep st' (view_schedule c p ?w)"
    "\<forall>z. t_frame (threads st' z) = (if v_running v c = Some z then saved_frame (threads st z) f else t_frame (threads st z))"
    "resumed st1 c y st'" "same_rest st st1" "\<forall>z. t_frame (threads st1 z) = t_frame (threads st' z)"
    unfolding y_def by blast
  have e: "t_parent (threads st1 y) = t_parent (threads st y)" "t_is_kernel (threads st1 y) = t_is_kernel (threads st y)"
    "process_slots st1 = process_slots st" "t_frame (threads st1 y) = t_frame (threads st' y)"
    using same_rest_attrs(4-6) [OF s'(5)] s'(6) by simp_all
  have r: "resumed st1 c y st'" by (rule s'(4))
  have user: "frame_regs g k s = frame_regs g 0 0" if "tf_cs g AND 3 = 3" for g k s
    using that by (simp add: frame_regs_def)
  have run: "v_running (view_schedule c p ?w) c = Some y" by (simp add: view_schedule_def y_def Let_def)
  have fr: "t_frame (threads st' x) = saved_frame (threads st x) f"
    "\<forall>z. z \<noteq> x \<longrightarrow> t_frame (threads st' z) = t_frame (threads st z)"
    using s'(3) assms(4) by auto
  have pp: "\<exists>pp. t_parent (threads st y) = Some pp \<and> cpu_cr3 st' c = p_page_directory (process_slots st pp)"
    using r unfolding resumed_def e by blast
  have k: "t_is_kernel (threads st y) \<noteq> 0 \<longrightarrow> tf_cs (t_frame (threads st' y)) AND 3 \<noteq> 3 \<longrightarrow>
      cpu_run st' c = frame_regs (t_frame (threads st' y)) (tf_kernel_esp (t_frame (threads st' y)) + 20)
        (GDT_SS_ENTRY (of_nat c) * 8)"
    using r unfolding resumed_def e by (auto split: if_splits)
  have u: "t_is_kernel (threads st y) = 0 \<longrightarrow> tf_cs (t_frame (threads st' y)) AND 3 = 3 \<longrightarrow>
      cpu_run st' c = frame_regs (t_frame (threads st' y)) 0 0"
  proof (intro impI)
    assume z: "t_is_kernel (threads st y) = 0" "tf_cs (t_frame (threads st' y)) AND 3 = 3"
    then obtain ss where "cpu_run st' c =
        frame_regs (t_frame (threads st' y)) (tf_kernel_esp (t_frame (threads st' y)) + 12) ss"
      using r unfolding resumed_def e by auto
    then show "cpu_run st' c = frame_regs (t_frame (threads st' y)) 0 0" using user [OF z(2)] by simp
  qed
  show ?thesis
    unfolding Let_def using s'(1,2) run fr pp k u by blast
qed

theorem timer_callback_registers_witness:
  "\<exists>st' y. timer_callback 0 trap_frame_zero ex_state = Inr st' \<and> t_frame (threads st' 0) = trap_frame_zero \<and>
    cpu_cr3 st' 0 = 0x9000 \<and>
    (t_is_kernel (threads ex_state y) = 0 \<longrightarrow> tf_cs (t_frame (threads st' y)) AND 3 = 3 \<longrightarrow>
      cpu_run st' 0 = frame_regs (t_frame (threads st' y)) 0 0)"
proof -
  have c: "0 < ncpus ex_state" by simp
  from timer_callback_registers [OF ex_rep c ex_owned ex_running, of trap_frame_zero]
  show ?thesis by (auto simp: Let_def saved_frame_def ex_process_def)
qed

end
