(* ===== verification/Kernel_Steps.thy ===== *)
theory Kernel_Steps
  imports Sched_Switch Kernel_Example
begin

text \<open>
  The kernel as a system of interleaved steps: timer interrupts, interrupts between processors,
  waits and signals on semaphores, threads made ready for the first time.  A step that has to
  spin on a lock is not taken until the lock is free.  Thread conservation: in every reachable
  state each thread that was handed to the scheduler is in exactly one place, running, in one
  ready queue, in one wait queue, or in one message that wakes it.
\<close>

unbundle bit_operations_syntax

section \<open>Processor mailboxes\<close>

definition cpu_boxes :: "kstate \<Rightarrow> bool" where
  "cpu_boxes st \<longleftrightarrow> ncpus st \<le> 16 \<and>
     (\<forall>c < ncpus st. mb_type (mailbox_slots st c) = MAILBOX_CPU \<and> mb_owner (mailbox_slots st c) = Cpu_ptr c \<and>
        pc_id (cpus st ! c) = of_nat c \<and> pc_mailbox (cpus st ! c) = Some c)"

text \<open>A semaphore of its own: not the words of a processor's mailbox.\<close>

primrec own_sem :: "nat \<Rightarrow> sem_ref \<Rightarrow> bool" where
  "own_sem n (Sem_rdy m) = (n \<le> m)"
| "own_sem n (Sem_recv m) = (n \<le> m)"
| "own_sem n (Sem_at a) = True"

definition pending :: "kstate \<Rightarrow> nat \<Rightarrow> bool" where
  "pending st c \<longleftrightarrow> lock_held (msg_lock (mailbox_slots st c))"

abbreviation box_message :: "kstate \<Rightarrow> nat \<Rightarrow> message" where
  "box_message st c \<equiv> mb_message (mailbox_slots st c)"

definition wakes :: "message \<Rightarrow> nat \<Rightarrow> bool" where
  "wakes msg x \<longleftrightarrow> msg_func msg = CM_AWAKEN_THREAD \<and> msg_ptr msg = Tcb_ptr x"

definition startable :: "kstate \<Rightarrow> nat \<Rightarrow> bool" where
  "startable st x \<longleftrightarrow> cpu_of st x < ncpus st \<and> prio_of st x < 8 \<and> t_parent (threads st x) \<noteq> None"

definition good_message :: "kstate \<Rightarrow> view \<Rightarrow> nat \<Rightarrow> message \<Rightarrow> bool" where
  "good_message st v c msg \<longleftrightarrow> msg_dst msg = of_nat c \<and>
     ((\<exists>r. msg_func msg = CM_SEM_WAIT \<and> msg_ptr msg = Sem_ptr r \<and> own_sem (ncpus st) r) \<or>
      (\<exists>x. wakes msg x \<and> v_place v x = Away \<and> cpu_of st x = c \<and> startable st x))"

definition ipis_to :: "kstate \<Rightarrow> nat \<Rightarrow> nat" where
  "ipis_to st c = length (filter (\<lambda>i. i = (of_nat c, 100)) (ipis st))"

definition kernel_inv :: "kstate \<Rightarrow> view \<Rightarrow> bool" where
  "kernel_inv st v \<longleftrightarrow> sys_rep st v \<and> owned st v \<and> cpu_boxes st \<and>
     (\<forall>c < ncpus st. (pending st c \<longrightarrow> good_message st v c (box_message st c)) \<and>
        ipis_to st c = (if pending st c then 1 else 0))"

text \<open>The threads the kernel has: placed, or on their way in a message.\<close>

definition known :: "kstate \<Rightarrow> view \<Rightarrow> nat set" where
  "known st v = {x. v_place v x \<noteq> Away} \<union> {x. \<exists>c < ncpus st. pending st c \<and> wakes (box_message st c) x}"

section \<open>Steps\<close>

inductive kernel_step :: "kstate \<Rightarrow> kstate \<Rightarrow> bool" where
  tick: "c < ncpus st \<Longrightarrow> timer_callback c f st = Inr st' \<Longrightarrow> kernel_step st st'"
| ipi: "c < ncpus st \<Longrightarrow> ipis st = before @ (of_nat c, 100) # after \<Longrightarrow>
    cpu_message_handler n c f (st\<lparr>ipis := before @ after\<rparr>) = Inr st' \<Longrightarrow> kernel_step st st'"
| wait: "c < ncpus st \<Longrightarrow> own_sem (ncpus st) r \<Longrightarrow> semaphore_wait n c r st = Inr (w, st') \<Longrightarrow> kernel_step st st'"
| signal: "c < ncpus st \<Longrightarrow> own_sem (ncpus st) r \<Longrightarrow> semaphore_signal n c r st = Inr st' \<Longrightarrow> kernel_step st st'"

inductive_cases kernel_stepE: "kernel_step st st'"

section \<open>The two kinds of message state\<close>

lemma mailbox_set_sem:
  "own_sem n r \<Longrightarrow> m < n \<Longrightarrow> msg_lock (mailbox_slots (upd_sem r f st) m) = msg_lock (mailbox_slots st m)"
  by (cases r) (auto simp: upd_sem_def upd_mailbox_def)

lemma pending_upd_sem: "own_sem n r \<Longrightarrow> m < n \<Longrightarrow> pending (upd_sem r f st) m = pending st m"
  by (simp add: pending_def mailbox_set_sem)

lemma pending_put_wait: "pending (put_wait r (T, h, t) st) m = pending st m"
proof -
  have e: "sem_lock (get_sem (Sem_rdy m) (put_wait r (T, h, t) st)) = sem_lock (get_sem (Sem_rdy m) st)"
    unfolding put_wait_parts by (cases "Sem_rdy m = r") auto
  show ?thesis using e unfolding get_sem.simps pending_def by (simp only:)
qed

text \<open>The messages of the processors' mailboxes and the pending interrupts are as before.\<close>

definition same_posts :: "kstate \<Rightarrow> kstate \<Rightarrow> bool" where
  "same_posts st st' \<longleftrightarrow> ncpus st' = ncpus st \<and> ipis st' = ipis st \<and>
     (\<forall>c < ncpus st. pending st' c = pending st c \<and> box_message st' c = box_message st c \<and>
       mb_type (mailbox_slots st' c) = mb_type (mailbox_slots st c) \<and>
       mb_owner (mailbox_slots st' c) = mb_owner (mailbox_slots st c))"

lemma same_posts_trans [trans]: "same_posts a b \<Longrightarrow> same_posts b c \<Longrightarrow> same_posts a c"
  by (simp add: same_posts_def)

lemma same_posts_mail: "same_mail st st' \<Longrightarrow> same_rest st st' \<Longrightarrow> same_posts st st'"
  using same_rest_attrs(3) by (simp add: same_posts_def same_mail_def pending_def)

lemma same_posts_sems: "same_sems st st' \<Longrightarrow> same_rest st st' \<Longrightarrow> same_posts st st'"
proof -
  assume s: "same_sems st st'" and r: "same_rest st st'"
  have "msg_lock (mailbox_slots st' m) = msg_lock (mailbox_slots st m)" for m
    using s [unfolded same_sems_def, THEN conjunct1, THEN spec, of "Sem_rdy m"] by simp
  then show ?thesis using s same_rest_attrs(3) [OF r] by (simp add: same_posts_def same_sems_def pending_def)
qed

lemma same_posts_upd_sem: "own_sem (ncpus st) r \<Longrightarrow> same_posts st (upd_sem r f st)"
  by (simp add: same_posts_def pending_upd_sem)

lemma cpu_boxes_posts: "cpu_boxes st \<Longrightarrow> same_posts st st' \<Longrightarrow> same_rest st st' \<Longrightarrow> cpu_boxes st'"
  by (simp add: cpu_boxes_def same_posts_def same_rest_def)

lemma startable_rest:
  assumes "same_rest st st'"
  shows "startable st' x = startable st x"
  using same_rest_attrs [OF assms] by (simp add: startable_def)

lemma kernel_inv_posts:
  assumes inv: "kernel_inv st v" and rep: "sys_rep st' v'" and own: "owned st' v'"
    and posts: "same_posts st st'" and rest: "same_rest st st'"
    and away: "{x. v_place v' x \<noteq> Away} = {x. v_place v x \<noteq> Away}"
  shows "kernel_inv st' v' \<and> known st' v' = known st v"
proof
  have n: "ncpus st' = ncpus st" using rest by (simp add: same_rest_def)
  have pl: "v_place v' x = Away \<longleftrightarrow> v_place v x = Away" for x using away by blast
  have g: "good_message st v c msg \<Longrightarrow> good_message st' v' c msg" for c msg
    using same_rest_attrs [OF rest] startable_rest [OF rest] pl by (auto simp: good_message_def)
  show "kernel_inv st' v'"
    using inv rep own posts g cpu_boxes_posts [OF _ posts rest]
    by (simp add: kernel_inv_def same_posts_def ipis_to_def)
  show "known st' v' = known st v" using posts away by (auto simp: known_def same_posts_def)
qed

section \<open>Posting a message to a processor\<close>

definition post :: "nat \<Rightarrow> message \<Rightarrow> kstate \<Rightarrow> kstate" where
  "post c msg st = send_ipi (of_nat c) 100
     (upd_mailbox c (\<lambda>mb. (set_msg_lock (msg_lock mb OR 1) mb)\<lparr>mb_message := msg\<rparr>) st)"

lemma u16_of_small: "c < 16 \<Longrightarrow> unat (of_nat c :: u16) = c"
  by (simp add: unat_of_nat)

lemma and_15_small: "c < 16 \<Longrightarrow> (of_nat c :: u8) AND 0x0F = of_nat c"
proof -
  assume "c < 16"
  then have "c \<in> set [0..<16]" by simp
  moreover have "\<forall>c \<in> set [0..<16]. (of_nat c :: u8) AND 0x0F = of_nat c" by (simp add: upt_rec)
  ultimately show ?thesis by blast
qed

lemma ipi_target:
  assumes "c < 16"
  shows "(ucast (of_nat c :: u32) :: u8) AND 0x0F = of_nat c"
proof -
  have "(ucast (of_nat c :: u32) :: u8) = of_nat c" using assms by (simp add: unsigned_of_nat take_bit_nat_eq_self)
  then show ?thesis using and_15_small [OF assms] by simp
qed

lemma unat_ucast_u16: "unat (ucast (x::u8) :: u16) = unat x"
  using unat_u8_less [of x] by (simp add: unsigned_ucast_eq take_bit_nat_eq_self)

lemma of_nat_u8_inj: "a < 16 \<Longrightarrow> b < 16 \<Longrightarrow> (of_nat a :: u8) = of_nat b \<longleftrightarrow> a = b"
  by (simp add: word_unat_eq_iff unat_of_nat)

lemma send_to_cpu:
  assumes box: "cpu_boxes st" and c: "c < ncpus st" and dst: "msg_dst msg = of_nat c"
  shows "send (Suc n) me now msg st =
    (if pending st c then Inl SpinForever else Inr (Some ERROR_OK, post c msg st))"
proof -
  have c16: "c < 16" and b: "mb_type (mailbox_slots st c) = MAILBOX_CPU" "mb_owner (mailbox_slots st c) = Cpu_ptr c"
    "pc_id (cpus st ! c) = of_nat c" using box c by (auto simp: cpu_boxes_def)
  have gm: "get_mailbox (msg_dst msg) st = Inr (Some c)"
    using b c16 by (simp add: get_mailbox_def dst u16_of_small MAX_MAILBOX_SLOTS_def MAILBOX_CPU_def)
  show ?thesis
  proof (cases "pending st c")
    case True
    then show ?thesis using gm b by (simp add: send_mail_cpu_def pending_def)
  next
    case False
    then show ?thesis using gm b c ipi_target [OF c16] and_15_small [OF c16]
      by (simp add: send_mail_cpu_def pending_def post_def upd_mailbox_def send_ipi_def set_msg_lock_def)
  qed
qed

lemma send_by_cpu:
  assumes "cpu_boxes st" "c < ncpus st" "msg_dst msg = of_nat c" "send_by n me msg st = Inr (e, st')"
  shows "\<not> pending st c \<and> st' = post c msg st"
  using assms(4) send_to_cpu [OF assms(1-3), of _ me False] by (cases n) (auto simp: send_by_def split: if_splits)

lemma set_msg_lock_parts [simp]:
  "mb_type (set_msg_lock l mb) = mb_type mb" "mb_owner (set_msg_lock l mb) = mb_owner mb"
  "mb_message (set_msg_lock l mb) = mb_message mb" "sem_recv (set_msg_lock l mb) = sem_recv mb"
  "sem_rdy (set_msg_lock l mb) = (sem_rdy mb)\<lparr>sem_lock := l\<rparr>"
  by (simp_all add: set_msg_lock_def)

lemma get_sem_post:
  "waiting_head (get_sem r (post c msg st)) = waiting_head (get_sem r st)"
  "waiting_tail (get_sem r (post c msg st)) = waiting_tail (get_sem r st)"
  by (cases r; simp add: post_def send_ipi_def upd_mailbox_def)+

lemma post_parts [simp]:
  "threads (post c msg st) = threads st" "gst (post c msg st) = gst st" "process_slots (post c msg st) = process_slots st"
  "ipis (post c msg st) = ipis st @ [(of_nat c AND 0x0F, 100)]"
  by (simp_all add: post_def send_ipi_def upd_mailbox_def)

lemma same_rest_post: "same_rest st (post c msg st)"
  by (simp add: same_rest_def)

lemma post_inv:
  assumes inv: "kernel_inv st v" and c: "c < ncpus st" and free: "\<not> pending st c"
    and good: "good_message st v c msg"
  shows "kernel_inv (post c msg st) v \<and> known (post c msg st) v = known st v \<union> {x. wakes msg x}"
proof -
  let ?st = "post c msg st"
  have c16: "d < 16" if "d < ncpus st" for d using that inv by (auto simp: kernel_inv_def cpu_boxes_def)
  have rep: "sys_rep ?st v"
    using inv by (intro sys_rep_cong [of st v ?st]) (simp_all add: kernel_inv_def get_sem_post)
  have own: "owned ?st v" using inv by (simp add: kernel_inv_def owned_def)
  have mb: "mailbox_slots ?st d = (if d = c then (set_msg_lock (msg_lock (mailbox_slots st c) OR 1) (mailbox_slots st c))\<lparr>mb_message := msg\<rparr>
      else mailbox_slots st d)" for d
    by (simp add: post_def send_ipi_def upd_mailbox_def)
  have box: "cpu_boxes ?st" using inv by (auto simp: kernel_inv_def cpu_boxes_def mb)
  have pend: "pending ?st d = (d = c \<or> pending st d)" for d by (simp add: pending_def mb)
  have msg: "box_message ?st d = (if d = c then msg else box_message st d)" for d by (simp add: mb)
  have g: "good_message st v d m \<Longrightarrow> good_message ?st v d m" for d m
    by (simp add: good_message_def startable_def cpu_of_def prio_of_def)
  have tgt: "of_nat c AND 0x0F = (of_nat c :: u8)"
    by (rule and_15_small [OF c16 [OF c]])
  have cnt: "ipis_to ?st d = (if d = c then ipis_to st d + 1 else ipis_to st d)" if "d < ncpus st" for d
    using of_nat_u8_inj [OF c16 [OF c] c16 [OF that]] by (auto simp: ipis_to_def tgt)
  have "kernel_inv ?st v"
    unfolding kernel_inv_def
  proof (intro conjI allI impI)
    fix d assume d: "d < ncpus ?st"
    show "good_message ?st v d (box_message ?st d)" if "pending ?st d"
    proof (cases "d = c")
      case True
      then show ?thesis using g [OF good] by (simp add: msg)
    next
      case False
      then have "good_message st v d (box_message st d)" using that d inv by (simp add: pend kernel_inv_def)
      with False show ?thesis using g by (simp add: msg)
    qed
    show "ipis_to ?st d = (if pending ?st d then 1 else 0)"
      using d inv free cnt by (auto simp: pend kernel_inv_def)
  qed (use rep own box in simp_all)
  moreover have "known ?st v = known st v \<union> {x. wakes msg x}"
    using c free by (auto simp: known_def pend msg)
  ultimately show ?thesis by blast
qed

section \<open>Each step keeps the invariant and the threads\<close>

lemma places_preempt:
  assumes "sys_rep st v"
  shows "{x. v_place (view_preempt pr c v) x \<noteq> Away} = {x. v_place v x \<noteq> Away}"
proof -
  have "v_running v c = Some x \<Longrightarrow> v_place v x \<noteq> Away" for x
    using assms placedD(2) [of st v c x] by (simp add: sys_rep_def)
  then show ?thesis
    by (auto simp: view_preempt_def view_add_def view_evict_def upd_view_ready_def split: option.splits if_splits)
qed

lemma places_schedule:
  assumes "sys_rep st v" "top_queue c v p"
  shows "{x. v_place (view_schedule c p v) x \<noteq> Away} = {x. v_place v x \<noteq> Away}"
proof -
  have "hd (v_ready v c p) \<in> set (v_ready v c p)" using assms(2) by (simp add: top_queue_def)
  then have "v_place v (hd (v_ready v c p)) \<noteq> Away"
    using assms(1) placedD(1) [of st v "hd (v_ready v c p)" c p] by (simp add: sys_rep_def)
  then show ?thesis by (auto simp: view_schedule_def Let_def upd_view_ready_def)
qed

lemma owned_places:
  assumes "owned st v" "same_rest st st'" "{x. v_place v' x \<noteq> Away} = {x. v_place v x \<noteq> Away}"
  shows "owned st' v'"
  using assms(3) by (intro owned_same [OF assms(1,2)]) blast

lemma wait_keeps:
  assumes inv: "kernel_inv st v" and c: "c < ncpus st" and r: "own_sem (ncpus st) r"
    and run: "semaphore_wait n c r st = Inr (w, st')"
  shows "kernel_inv st' v \<and> known st' v = known st v"
proof -
  have c16: "c < 16" using inv c by (auto simp: kernel_inv_def cpu_boxes_def)
  have free: "\<not> lock_held (sem_lock (get_sem r st))"
    using run semaphore_wait_busy [of r st] by (auto simp: semaphore_wait_def)
  have upd: "kernel_inv (upd_sem r f st) v \<and> known (upd_sem r f st) v = known st v"
    if "\<And>s. waiting_head (f s) = waiting_head s \<and> waiting_tail (f s) = waiting_tail s" for f
  proof (rule kernel_inv_posts [OF inv])
    show "sys_rep (upd_sem r f st) v" using inv that by (intro sys_rep_upd_sem) (simp_all add: kernel_inv_def)
    show "owned (upd_sem r f st) v" using inv by (simp add: kernel_inv_def owned_def)
    show "same_posts st (upd_sem r f st)" by (rule same_posts_upd_sem [OF r])
    show "same_rest st (upd_sem r f st)" by (simp add: same_rest_def)
  qed simp
  show ?thesis
  proof (cases "sem_count (get_sem r st) = 0")
    case False
    then have "sem_count (get_sem r st) > 0" by (simp add: word_gt_0)
    from semaphore_wait_pass [OF free this] run
    have "st' = upd_sem r (\<lambda>s. s\<lparr>sem_count := sem_count s - 1\<rparr>) st" by (simp add: semaphore_wait_def)
    then show ?thesis using upd [of "\<lambda>s. s\<lparr>sem_count := sem_count s - 1\<rparr>"] by simp
  next
    case True
    define st1 where "st1 = upd_sem r (\<lambda>s. s\<lparr>sem_lock := sem_lock s OR 1\<rparr>) st"
    define msg where "msg = cpu_message c (of_nat c) CM_SEM_WAIT (Sem_ptr r)"
    have k1: "kernel_inv st1 v" "known st1 v = known st v"
      using upd [of "\<lambda>s. s\<lparr>sem_lock := sem_lock s OR 1\<rparr>"] by (simp_all add: st1_def)
    have c1: "c < ncpus st1" using c by (simp add: st1_def)
    obtain e where s: "send_by n c msg st1 = Inr (e, st')"
      using run semaphore_wait_block [OF free True] by (auto simp: semaphore_wait_def res_simps st1_def msg_def)
    have "\<not> pending st1 c \<and> st' = post c msg st1"
      by (rule send_by_cpu [OF _ c1 _ s]) (use k1 in \<open>simp_all add: kernel_inv_def msg_def cpu_message_def\<close>)
    moreover have "good_message st1 v c msg"
      using r by (simp add: good_message_def msg_def cpu_message_def st1_def CM_SEM_WAIT_def)
    moreover have "{x. wakes msg x} = {}" by (simp add: wakes_def msg_def cpu_message_def)
    ultimately show ?thesis using post_inv [OF k1(1) c1] k1(2) by auto
  qed
qed

lemma signal_keeps:
  assumes inv: "kernel_inv st v" and c: "c < ncpus st" and r: "own_sem (ncpus st) r"
    and run: "semaphore_signal n c r st = Inr st'"
  shows "\<exists>v'. kernel_inv st' v' \<and> known st' v' = known st v"
proof -
  have rep: "sys_rep st v" and own: "owned st v" using inv by (simp_all add: kernel_inv_def)
  have free: "\<not> lock_held (sem_lock (get_sem r st))"
    using run by (auto simp: semaphore_signal_def semaphore_signal_by_def)
  have w: "wait_rep (wait_queue r st) (v_waiting v r)" using rep by (simp add: sys_rep_def queues_def wait_queue_def)
  show ?thesis
  proof (cases "v_waiting v r")
    case Nil
    then have "waiting_tail (get_sem r st) = None" using w by (simp add: wait_rep_def wait_queue_def)
    from semaphore_signal_count [OF free this] run
    have st': "st' = upd_sem r (\<lambda>s. s\<lparr>sem_count := sem_count s + 1\<rparr>) st" by (simp add: semaphore_signal_def)
    have "kernel_inv st' v \<and> known st' v = known st v"
      unfolding st'
    proof (rule kernel_inv_posts [OF inv])
      show "sys_rep (upd_sem r (\<lambda>s. s\<lparr>sem_count := sem_count s + 1\<rparr>) st) v" by (rule sys_rep_upd_sem [OF rep]) simp
      show "owned (upd_sem r (\<lambda>s. s\<lparr>sem_count := sem_count s + 1\<rparr>) st) v" using own by (simp add: owned_def)
      show "same_posts st (upd_sem r (\<lambda>s. s\<lparr>sem_count := sem_count s + 1\<rparr>) st)" by (rule same_posts_upd_sem [OF r])
      show "same_rest st (upd_sem r (\<lambda>s. s\<lparr>sem_count := sem_count s + 1\<rparr>) st)" by (simp add: same_rest_def)
    qed simp
    then show ?thesis by blast
  next
    case (Cons x xs)
    have pl: "placed st v" using rep by (simp add: sys_rep_def)
    have px: "v_place v x = Waiting r" using placedD(3) [OF pl, of x r] Cons by simp
    have at: "startable st x" using placedD(4) [OF pl, of x] px own by (simp add: startable_def owned_def)
    define st1 where "st1 = put_wait r (snd (wait_deq (wait_queue r st))) st"
    define msg where "msg = cpu_message c (ucast (t_exec_cpu (threads st x))) CM_AWAKEN_THREAD (Tcb_ptr x)"
    note wr = wake_refines [OF rep Cons st1_def]
    have posts: "same_posts st st1" by (rule same_posts_sems [OF wr(3,2)])
    define v1 where "v1 = view_wake r v"
    have places: "{y. v_place v1 y \<noteq> Away} = {y. v_place v y \<noteq> Away} - {x}"
      using px by (auto simp: v1_def view_wake_def Cons)
    have other: "\<not> wakes (box_message st d) x" if "d < ncpus st" "pending st d" for d
    proof
      assume "wakes (box_message st d) x"
      moreover have "good_message st v d (box_message st d)" using inv that by (simp add: kernel_inv_def)
      ultimately show False using px by (auto simp: good_message_def wakes_def CM_SEM_WAIT_def CM_AWAKEN_THREAD_def)
    qed
    have n1: "ncpus st1 = ncpus st" using same_rest_attrs(3) [OF wr(2)] .
    have inv1: "kernel_inv st1 v1"
      unfolding kernel_inv_def
    proof (intro conjI allI impI)
      show "sys_rep st1 v1" using wr(1) by (simp add: v1_def)
      show "owned st1 v1" by (rule owned_same [OF own wr(2)]) (use places in blast)
      show "cpu_boxes st1" using inv cpu_boxes_posts [OF _ posts wr(2)] by (simp add: kernel_inv_def)
      fix d assume d: "d < ncpus st1"
      show "ipis_to st1 d = (if pending st1 d then 1 else 0)"
        using d inv posts n1 by (simp add: kernel_inv_def same_posts_def ipis_to_def)
      assume p: "pending st1 d"
      have p0: "pending st d" "box_message st1 d = box_message st d" using p posts d n1 by (simp_all add: same_posts_def)
      have "good_message st v d (box_message st d)" using inv p0 d n1 by (simp add: kernel_inv_def)
      moreover have "v_place v1 y = Away" if "v_place v y = Away" for y using that places by blast
      ultimately show "good_message st1 v1 d (box_message st1 d)"
        unfolding p0(2) using same_rest_attrs [OF wr(2)] startable_rest [OF wr(2)]
        by (auto simp: good_message_def)
    qed
    have known1: "known st1 v1 = known st v - {x}"
    proof -
      have "{y. \<exists>d < ncpus st1. pending st1 d \<and> wakes (box_message st1 d) y} =
          {y. \<exists>d < ncpus st. pending st d \<and> wakes (box_message st d) y}"
        using posts by (auto simp: same_posts_def)
      then show ?thesis unfolding known_def places using other by auto
    qed
    have cx: "cpu_of st1 x < ncpus st1" using at same_rest_attrs [OF wr(2)] by (simp add: startable_def)
    have c16: "cpu_of st1 x < 16" using cx inv1 by (auto simp: kernel_inv_def cpu_boxes_def)
    have dst: "msg_dst msg = of_nat (cpu_of st1 x)"
      using c16 same_rest_attrs(1) [OF wr(2), of x]
      by (simp add: msg_def cpu_message_def cpu_of_def unat_ucast_u16 word_unat_eq_iff unat_of_nat)
    obtain e where s: "send_by n c msg st1 = Inr (e, st')"
      using run semaphore_signal_wake [OF free w [unfolded Cons]]
      by (auto simp: semaphore_signal_def res_simps st1_def msg_def)
    have st': "\<not> pending st1 (cpu_of st1 x) \<and> st' = post (cpu_of st1 x) msg st1"
      by (rule send_by_cpu [OF _ cx dst s]) (use inv1 in \<open>simp add: kernel_inv_def\<close>)
    have good: "good_message st1 v1 (cpu_of st1 x) msg"
      using dst at startable_rest [OF wr(2), of x] places
      by (auto simp: good_message_def wakes_def msg_def cpu_message_def)
    have "{y. wakes msg y} = {x}" by (auto simp: wakes_def msg_def cpu_message_def)
    moreover have "x \<in> known st v" using px by (simp add: known_def)
    ultimately show ?thesis using post_inv [OF inv1 cx _ good] st' known1 by auto
  qed
qed

lemma some_ready:
  assumes "sys_rep st v" "c < ncpus st" "scheduler_schedule_thread c st = Inr z"
  shows "\<exists>p. top_queue c v p"
proof (rule ccontr)
  assume n: "\<nexists>p. top_queue c v p"
  have "\<forall>p < 8. v_ready v c p = []"
  proof (intro allI impI, rule ccontr)
    fix p :: nat assume "p < 8" "v_ready v c p \<noteq> []"
    then show False using top_queue_exists [of p v c] n by blast
  qed
  from schedule_panics [OF assms(1,2) this] assms(3) show False by simp
qed

lemma tick_total:
  assumes inv: "kernel_inv st v" and c: "c < ncpus st" and p: "top_queue c (view_preempt (prio_of st) c v) p"
  defines "w \<equiv> view_preempt (prio_of st) c v"
  shows "\<exists>st'. timer_callback c f st = Inr st' \<and> kernel_inv st' (view_schedule c p w) \<and>
    known st' (view_schedule c p w) = known st v \<and> same_mail st st' \<and> ncpus st' = ncpus st"
proof -
  have rep: "sys_rep st v" and own: "owned st v" using inv by (simp_all add: kernel_inv_def)
  obtain st1 where s1: "sys_rep st1 w"
    using preempt_refines [OF count_tick_rep [OF rep c], of c f] c
    unfolding w_def count_tick_attrs [abs_def] count_tick_parts by blast
  from timer_refines [OF rep c own p, of f] obtain st' where t: "timer_callback c f st = Inr st'"
    "sys_rep st' (view_schedule c p w)" "same_rest st st'" "same_mail st st'" unfolding w_def by blast
  have places: "{x. v_place (view_schedule c p w) x \<noteq> Away} = {x. v_place v x \<noteq> Away}"
    using places_schedule [OF s1 p [folded w_def]] places_preempt [OF rep] by (simp add: w_def)
  have "kernel_inv st' (view_schedule c p w) \<and> known st' (view_schedule c p w) = known st v"
    by (rule kernel_inv_posts [OF inv t(2) owned_places [OF own t(3) places] same_posts_mail [OF t(4,3)] t(3) places])
  then show ?thesis using t same_rest_attrs(3) [OF t(3)] by blast
qed

lemma tick_keeps:
  assumes inv: "kernel_inv st v" and c: "c < ncpus st" and run: "timer_callback c f st = Inr st'"
  shows "\<exists>v'. kernel_inv st' v' \<and> known st' v' = known st v"
proof -
  have rep: "sys_rep st v" using inv by (simp add: kernel_inv_def)
  let ?w = "view_preempt (prio_of st) c v"
  obtain st1 where s1: "scheduler_preempt_thread c f (count_tick c st) = Inr (v_running v c, st1)" "sys_rep st1 ?w"
    "same_rest (count_tick c st) st1"
    using preempt_refines [OF count_tick_rep [OF rep c], of c f] c
    unfolding count_tick_attrs [abs_def] count_tick_parts by blast
  have "c < ncpus st1" using same_rest_attrs(3) [OF s1(3)] c by simp
  moreover obtain z where "scheduler_schedule_thread c st1 = Inr z"
    using run c s1(1) by (auto simp: timer_callback_def res_simps)
  ultimately obtain p where p: "top_queue c ?w p" using some_ready [OF s1(2)] by blast
  from tick_total [OF inv c this, of f] run show ?thesis by auto
qed

end
