(* ===== verification/Kernel_Deliver.thy ===== *)
theory Kernel_Deliver
  imports Kernel_Steps
begin

text \<open>
  The delivery of an interrupt between processors keeps the kernel's invariant and its threads:
  the handlers of \<^verbatim>\<open>cpu_messages.c\<close> as one atomic step, and with them every step.
\<close>

unbundle bit_operations_syntax

section \<open>A message arrives\<close>

text \<open>The mailboxes after a processor acknowledged its message.\<close>

definition acked :: "nat \<Rightarrow> kstate \<Rightarrow> kstate \<Rightarrow> bool" where
  "acked c st st' \<longleftrightarrow> ipis st' = ipis st \<and> other_sems st' = other_sems st \<and>
     mailbox_slots st' = (mailbox_slots st)(c := set_msg_lock (release_spinlock (msg_lock (mailbox_slots st c))) (mailbox_slots st c))"

lemma acknowledge_cpu:
  assumes box: "cpu_boxes st" and c: "c < ncpus st" and dst: "msg_dst msg = of_nat c"
  shows "acknowledge msg st = Inr (ERROR_OK,
    upd_mailbox c (\<lambda>mb. set_msg_lock (release_spinlock (msg_lock mb)) mb) st)"
proof -
  have "c < 16" "mb_type (mailbox_slots st c) = MAILBOX_CPU" using box c by (auto simp: cpu_boxes_def)
  then show ?thesis
    by (simp add: acknowledge_def get_mailbox_def dst u16_of_small MAX_MAILBOX_SLOTS_def MAILBOX_CPU_def)
qed

lemma switch_total:
  assumes rep: "sys_rep st v" and own: "owned st v" and box: "cpu_boxes st" and c: "c < ncpus st"
    and idle: "v_running v c = None" and dst: "msg_dst msg = of_nat c" and p: "top_queue c v p"
  shows "\<exists>st'. switch_thread c msg st = Inr st' \<and> sys_rep st' (view_schedule c p v) \<and> same_rest st st' \<and> acked c st st' \<and>
    resumed st c (hd (v_ready v c p)) st' \<and> (\<forall>y. t_frame (threads st' y) = t_frame (threads st y))"
proof -
  let ?h = "\<lambda>s. res_bind (acknowledge msg s) (\<lambda>(_, s). Inr s)"
  have "\<exists>st'. res_bind (scheduler_schedule_thread c st) (\<lambda>(_, s). res_bind (?h s) (\<lambda>s.
      scheduler_current_execute c (send_eoi s))) = Inr st' \<and>
    sys_rep st' (view_schedule c p v) \<and> same_rest st st' \<and> acked c st st' \<and> resumed st c (hd (v_ready v c p)) st' \<and>
    (\<forall>y. t_frame (threads st' y) = t_frame (threads st y))"
  proof (rule schedule_execute [OF rep c idle p own])
    fix s assume m: "same_mail st s"
    have c16: "c < 16" "mb_type (mailbox_slots s c) = MAILBOX_CPU"
      using box c m by (auto simp: cpu_boxes_def same_mail_def)
    let ?s = "upd_mailbox c (\<lambda>mb. set_msg_lock (release_spinlock (msg_lock mb)) mb) s"
    have a: "acknowledge msg s = Inr (ERROR_OK, ?s)"
      using c16 by (simp add: acknowledge_def get_mailbox_def dst u16_of_small MAX_MAILBOX_SLOTS_def MAILBOX_CPU_def)
    have "waiting_head (get_sem r ?s) = waiting_head (get_sem r s) \<and> waiting_tail (get_sem r ?s) = waiting_tail (get_sem r s)" for r
      by (cases r) (auto simp: upd_mailbox_def)
    moreover have "acked c st ?s" using m by (auto simp: acked_def same_mail_def upd_mailbox_def)
    ultimately show "\<exists>st2. ?h s = Inr st2 \<and> threads st2 = threads s \<and> gst st2 = gst s \<and> process_slots st2 = process_slots s \<and>
        (\<forall>r. waiting_head (get_sem r st2) = waiting_head (get_sem r s) \<and>
          waiting_tail (get_sem r st2) = waiting_tail (get_sem r s)) \<and> acked c st st2"
      using a by (intro exI [of _ ?s]) (simp add: upd_mailbox_def)
  qed (simp add: acked_def)
  moreover have "switch_thread c msg st = res_bind (scheduler_schedule_thread c st) (\<lambda>(_, s). res_bind (?h s) (\<lambda>s.
      scheduler_current_execute c (send_eoi s)))"
    by (simp add: switch_thread_def res_bind_assoc case_prod_unfold)
  ultimately show ?thesis by auto
qed

lemma switch_refines:
  assumes rep: "sys_rep st v" and own: "owned st v" and box: "cpu_boxes st" and c: "c < ncpus st"
    and idle: "v_running v c = None" and dst: "msg_dst msg = of_nat c" and run: "switch_thread c msg st = Inr st'"
  shows "\<exists>p. top_queue c v p \<and> sys_rep st' (view_schedule c p v) \<and> same_rest st st' \<and> acked c st st'"
proof -
  obtain z where "scheduler_schedule_thread c st = Inr z" using run by (auto simp: switch_thread_def res_simps)
  from some_ready [OF rep c this] obtain p where p: "top_queue c v p" ..
  from switch_total [OF rep own box c idle dst p] run p show ?thesis by auto
qed

text \<open>What delivering the message of processor \<open>c\<close> must establish.\<close>

lemma delivered:
  assumes inv: "kernel_inv st v" and c: "c < ncpus st" and pend: "pending st c"
    and ip: "ipis st = before @ (of_nat c, 100) # after"
    and rep: "sys_rep st' v'" and own: "owned st' v'" and rest: "same_rest st st'"
    and s: "same_posts (st\<lparr>ipis := before @ after\<rparr>) s" and ack: "acked c s st'"
    and places: "{x. v_place v' x \<noteq> Away} = {x. v_place v x \<noteq> Away} \<union> {x. wakes (box_message st c) x}"
  shows "kernel_inv st' v' \<and> known st' v' = known st v"
proof
  have n: "ncpus st' = ncpus st" using same_rest_attrs(3) [OF rest] .
  have c16: "d < 16" if "d < ncpus st" for d using that inv by (auto simp: kernel_inv_def cpu_boxes_def)
  have pend': "pending st' d = (d \<noteq> c \<and> pending st d)" if "d < ncpus st" for d
    using s ack that by (auto simp: same_posts_def acked_def pending_def)
  have msg': "box_message st' d = box_message st d" if "d < ncpus st" for d
    using s ack that by (auto simp: same_posts_def acked_def)
  have cnt: "ipis_to st d = (if d = c then ipis_to st' d + 1 else ipis_to st' d)" if "d < ncpus st" for d
    using s ack of_nat_u8_inj [OF c16 [OF c] c16 [OF that]] by (auto simp: same_posts_def acked_def ipis_to_def ip)
  have box: "cpu_boxes st'"
    using inv s ack rest n by (auto simp: kernel_inv_def cpu_boxes_def same_posts_def acked_def same_rest_def)
  have gm: "good_message st v d (box_message st d)" if "d < ncpus st" "pending st d" for d
    using that inv by (simp add: kernel_inv_def)
  have away: "v_place v' x = Away" if "v_place v x = Away" "\<not> wakes (box_message st c) x" for x
    using places that by blast
  have other: "\<not> wakes (box_message st c) x" if "d < ncpus st" "pending st d" "wakes (box_message st d) x" "d \<noteq> c" for d x
  proof
    assume "wakes (box_message st c) x"
    then have "cpu_of st x = c" using gm [OF c pend] by (auto simp: good_message_def wakes_def CM_SEM_WAIT_def CM_AWAKEN_THREAD_def)
    moreover have "cpu_of st x = d" using gm [OF that(1,2)] that(3)
      by (auto simp: good_message_def wakes_def CM_SEM_WAIT_def CM_AWAKEN_THREAD_def)
    ultimately show False using that(4) by simp
  qed
  have good: "good_message st' v' d (box_message st' d)" if d: "d < ncpus st" and p: "pending st' d" for d
  proof -
    have dc: "d \<noteq> c" "pending st d" using p pend' [OF d] by simp_all
    have "v_place v' x = Away" if "wakes (box_message st d) x" "v_place v x = Away" for x
      using away that other [OF d dc(2) that(1) dc(1)] by blast
    then show ?thesis using gm [OF d dc(2)] same_rest_attrs [OF rest] startable_rest [OF rest]
      by (auto simp: good_message_def msg' [OF d])
  qed
  show "kernel_inv st' v'"
    unfolding kernel_inv_def
  proof (intro conjI allI impI)
    fix d assume d: "d < ncpus st'"
    show "good_message st' v' d (box_message st' d)" if "pending st' d" using good d that n by simp
    show "ipis_to st' d = (if pending st' d then 1 else 0)"
      using d n cnt [of d] pend' [of d] inv pend by (auto simp: kernel_inv_def split: if_splits)
  qed (use rep own box in simp_all)
  show "known st' v' = known st v"
  proof -
    have "{x. \<exists>d < ncpus st. pending st d \<and> wakes (box_message st d) x} =
        {x. \<exists>d < ncpus st'. pending st' d \<and> wakes (box_message st' d) x} \<union> {x. wakes (box_message st c) x}"
      using c pend pend' msg' n by auto
    then show ?thesis unfolding known_def places by blast
  qed
qed


lemma receive_cpu:
  assumes "cpu_boxes st" "c < ncpus st"
  shows "receive n c now (pc_mailbox (cpus st ! c)) st = Inr (Got ERROR_OK (Some (box_message st c)), st)"
  using assms by (simp add: cpu_boxes_def receive_def recv_mail_cpu_def)

text \<open>
  A wait message up to the switch: the thread that runs when the message arrives is at the end of
  the semaphore's queue, the semaphore is unlocked.
\<close>

lemma wait_message_switch:
  assumes rep: "sys_rep a v" and c: "c < ncpus a" and x: "v_running v c = Some x"
    and m: "msg_ptr msg = Sem_ptr r" "own_sem (ncpus a) r"
  shows "\<exists>s. handle_sem_wait c msg f a = switch_thread c msg s \<and> sys_rep s (view_block x r (view_evict x c v)) \<and>
    same_rest a s \<and> same_posts a s \<and> \<not> lock_held (sem_lock (get_sem r s)) \<and>
    (\<forall>y. t_frame (threads s y) = (if y = x then saved_frame (threads a x) f else t_frame (threads a y)))"
proof -
  have cur: "current_thread (sched c a) = v_running v c" using rep c by (simp add: sys_rep_def queues_def)
  have pl: "placed a v" using rep by (simp add: sys_rep_def)
  have px: "v_place v x = Running c" using placedD(2) [OF pl, of c x] x by simp
  have at: "cpu_of a x < ncpus a" "prio_of a x < 8" using placedD(4) [OF pl, of x] px by simp_all
  obtain s1 where e: "scheduler_evict_thread c f a = (Some x, s1)" "sys_rep s1 (view_evict x c v)" "same_rest a s1"
    "same_mail a s1" "t_next (threads s1 x) = None"
    "\<forall>y. t_frame (threads s1 y) = (if y = x then saved_frame (threads a x) f else t_frame (threads a y))"
    using evict_refines [OF rep c x, of f] by blast
  have at1: "v_place (view_evict x c v) x = Away" "cpu_of s1 x < ncpus s1" "prio_of s1 x < 8"
    using same_rest_attrs [OF e(3)] at by (simp_all add: view_evict_def)
  obtain s2 where q: "sem_enqueue r (Some x) s1 = Inr s2" "sys_rep s2 (view_block x r (view_evict x c v))" "same_rest s1 s2"
    "same_sems s1 s2" "\<forall>y. t_frame (threads s2 y) = t_frame (threads s1 y)"
    using sem_enqueue_refines [OF e(2) at1 e(5), of r] by blast
  define s3 where "s3 = upd_sem r (\<lambda>s. s\<lparr>sem_lock := release_spinlock (sem_lock s)\<rparr>) s2"
  have n2: "ncpus s2 = ncpus a" using same_rest_attrs(3) [OF same_rest_trans [OF e(3) q(3)]] .
  have "same_posts a s2"
    by (rule same_posts_trans [OF same_posts_mail [OF e(4,3)] same_posts_sems [OF q(4,3)]])
  moreover have "same_posts s2 s3" unfolding s3_def by (rule same_posts_upd_sem) (use m(2) n2 in simp)
  ultimately have "same_posts a s3" by (rule same_posts_trans)
  moreover have "sys_rep s3 (view_block x r (view_evict x c v))" unfolding s3_def by (rule sys_rep_upd_sem [OF q(2)]) simp
  moreover have "same_rest a s3" using same_rest_trans [OF e(3) q(3)] by (simp add: s3_def same_rest_def)
  moreover have "handle_sem_wait c msg f a = switch_thread c msg s3"
    using c cur x e(1) q(1) m(1) by (simp add: handle_sem_wait_def get_current_thread_def s3_def)
  ultimately show ?thesis using e(6) q(5) by (intro exI [of _ s3]) (simp add: s3_def)
qed

lemma places_block:
  assumes "sys_rep st v" "v_running v c = Some x"
  shows "{y. v_place (view_block x r (view_evict x c v)) y \<noteq> Away} = {y. v_place v y \<noteq> Away}"
  using assms placedD(2) [of st v c x] by (auto simp: sys_rep_def view_block_def view_evict_def)

lemma without_ipi:
  assumes "kernel_inv st v"
  shows "sys_rep (st\<lparr>ipis := is\<rparr>) v" "owned (st\<lparr>ipis := is\<rparr>) v" "cpu_boxes (st\<lparr>ipis := is\<rparr>)" "same_rest st (st\<lparr>ipis := is\<rparr>)"
  using assms sys_rep_mail_cong [of st v "st\<lparr>ipis := is\<rparr>"]
  by (simp_all add: kernel_inv_def owned_def cpu_boxes_def same_rest_def)

lemma wait_message_blocks:
  assumes inv: "kernel_inv st v" and c: "c < ncpus st" and pend: "pending st c"
    and ip: "ipis st = before @ (of_nat c, 100) # after"
    and m: "msg_ptr (box_message st c) = Sem_ptr r" "own_sem (ncpus st) r" "msg_dst (box_message st c) = of_nat c"
      "msg_func (box_message st c) = CM_SEM_WAIT"
    and x: "v_running v c = Some x" and p: "top_queue c v p"
  defines "w \<equiv> view_block x r (view_evict x c v)"
  shows "\<exists>st'. handle_sem_wait c (box_message st c) f (st\<lparr>ipis := before @ after\<rparr>) = Inr st' \<and>
    kernel_inv st' (view_schedule c p w) \<and> known st' (view_schedule c p w) = known st v \<and>
    \<not> lock_held (sem_lock (get_sem r st')) \<and> t_frame (threads st' x) = saved_frame (threads st x) f"
proof -
  define a where "a = st\<lparr>ipis := before @ after\<rparr>"
  note ra = without_ipi [OF inv, of "before @ after", folded a_def]
  have c': "c < ncpus a" and o': "own_sem (ncpus a) r" using c m(2) by (simp_all add: a_def)
  obtain s where s: "handle_sem_wait c (box_message st c) f a = switch_thread c (box_message st c) s" "sys_rep s w"
    "same_rest a s" "same_posts a s" "\<not> lock_held (sem_lock (get_sem r s))"
    "\<forall>y. t_frame (threads s y) = (if y = x then saved_frame (threads a x) f else t_frame (threads a y))"
    using wait_message_switch [OF ra(1) c' x m(1) o', of f] unfolding w_def by blast
  have places: "{y. v_place w y \<noteq> Away} = {y. v_place v y \<noteq> Away}" unfolding w_def by (rule places_block [OF ra(1) x])
  have cs: "c < ncpus s" using same_rest_attrs(3) [OF s(3)] c' by simp
  have wp: "v_running w c = None" "top_queue c w p" using p by (simp_all add: w_def view_block_def view_evict_def top_queue_def)
  obtain st' where t: "switch_thread c (box_message st c) s = Inr st'" "sys_rep st' (view_schedule c p w)" "same_rest s st'"
    "acked c s st'" "\<forall>y. t_frame (threads st' y) = t_frame (threads s y)"
    using switch_total [OF s(2) owned_places [OF ra(2) s(3) places] cpu_boxes_posts [OF ra(3) s(4,3)] cs wp(1) m(3) wp(2)] by blast
  have rest: "same_rest a st'" by (rule same_rest_trans [OF s(3) t(3)])
  have places': "{y. v_place (view_schedule c p w) y \<noteq> Away} = {y. v_place v y \<noteq> Away}"
    using places_schedule [OF s(2) wp(2)] places by simp
  have "{y. wakes (box_message st c) y} = {}" by (simp add: wakes_def m)
  then have "kernel_inv st' (view_schedule c p w) \<and> known st' (view_schedule c p w) = known st v"
    using places'
    by (intro delivered [OF inv c pend ip t(2) owned_places [OF ra(2) rest places'] same_rest_trans [OF ra(4) rest]
      s(4) [unfolded a_def] t(4)]) simp
  moreover have "sem_lock (get_sem r st') = sem_lock (get_sem r s)"
    using t(4) m(2) c by (cases r) (auto simp: acked_def)
  moreover have "t_frame (threads st' x) = saved_frame (threads st x) f" using t(5) s(6) by (simp add: a_def)
  ultimately show ?thesis using s(1,5) t(1) unfolding a_def by auto
qed

lemma wait_message_alone:
  assumes inv: "kernel_inv st v" and c: "c < ncpus st"
    and m: "msg_ptr msg = Sem_ptr r" "own_sem (ncpus st) r"
    and x: "v_running v c = Some x" and none: "\<forall>p < 8. v_ready v c p = []"
  shows "handle_sem_wait c msg f (st\<lparr>ipis := is\<rparr>) = Inl (Panic ''invalid scheduling queue received'')"
proof -
  define a where "a = st\<lparr>ipis := is\<rparr>"
  note ra = without_ipi [OF inv, of "is", folded a_def]
  have c': "c < ncpus a" and o': "own_sem (ncpus a) r" using c m(2) by (simp_all add: a_def)
  obtain s where s: "handle_sem_wait c msg f a = switch_thread c msg s" "sys_rep s (view_block x r (view_evict x c v))"
    "same_rest a s" using wait_message_switch [OF ra(1) c' x m(1) o', of f] by blast
  have cs: "c < ncpus s" using same_rest_attrs(3) [OF s(3)] c' by simp
  have "scheduler_schedule_thread c s = Inl (Panic ''invalid scheduling queue received'')"
    by (rule schedule_panics [OF s(2) cs]) (use none in \<open>simp add: view_block_def view_evict_def\<close>)
  then show ?thesis using s(1) unfolding a_def by (simp add: switch_thread_def)
qed

lemma wait_message_keeps:
  assumes inv: "kernel_inv st v" and c: "c < ncpus st" and pend: "pending st c"
    and ip: "ipis st = before @ (of_nat c, 100) # after"
    and m: "msg_ptr (box_message st c) = Sem_ptr r" "own_sem (ncpus st) r" "msg_dst (box_message st c) = of_nat c"
      "msg_func (box_message st c) = CM_SEM_WAIT"
    and run: "handle_sem_wait c (box_message st c) f (st\<lparr>ipis := before @ after\<rparr>) = Inr st'"
  shows "\<exists>v'. kernel_inv st' v' \<and> known st' v' = known st v"
proof -
  have cur: "current_thread (sched c (st\<lparr>ipis := before @ after\<rparr>)) = v_running v c"
    using inv c by (simp add: kernel_inv_def sys_rep_def queues_def)
  then obtain x where x: "v_running v c = Some x"
    using run c by (cases "v_running v c") (auto simp: handle_sem_wait_def get_current_thread_def)
  have "\<exists>p. top_queue c v p"
  proof (rule ccontr)
    assume n: "\<nexists>p. top_queue c v p"
    have "\<forall>p < 8. v_ready v c p = []" using n top_queue_exists [of _ v c] by blast
    with run wait_message_alone [OF inv c m(1,2) x, of f "before @ after"] show False by simp
  qed
  then obtain p where "top_queue c v p" ..
  from wait_message_blocks [OF inv c pend ip m x this, of f] run show ?thesis by auto
qed

lemma awaken_message_keeps:
  assumes inv: "kernel_inv st v" and c: "c < ncpus st" and pend: "pending st c"
    and ip: "ipis st = before @ (of_nat c, 100) # after"
    and m: "wakes (box_message st c) x" "v_place v x = Away" "cpu_of st x = c" "startable st x" "msg_dst (box_message st c) = of_nat c"
    and run: "handle_awaken c (box_message st c) f (st\<lparr>ipis := before @ after\<rparr>) = Inr st'"
  shows "\<exists>v'. kernel_inv st' v' \<and> known st' v' = known st v"
proof -
  define a where "a = st\<lparr>ipis := before @ after\<rparr>"
  have rep: "sys_rep a v" and own: "owned a v" and box: "cpu_boxes a"
    using inv sys_rep_mail_cong [of st v a] by (simp_all add: kernel_inv_def a_def owned_def cpu_boxes_def)
  have ra: "same_rest st a" by (simp add: same_rest_def a_def)
  have c': "c < ncpus a" using c by (simp add: a_def)
  have at: "cpu_of a x = c" "prio_of a x = prio_of st x" "prio_of st x < 8" "t_parent (threads a x) \<noteq> None"
    using m(3,4) by (simp_all add: a_def cpu_of_def prio_of_def startable_def)
  define w1 where "w1 = view_add x c (prio_of st x) v"
  obtain s1 where e: "scheduler_add_ready x a = Inr s1" "sys_rep s1 w1" "same_rest a s1" "same_mail a s1"
    using add_ready_refines [OF rep m(2)] at c' unfolding w1_def by auto
  define w where "w = view_preempt (prio_of s1) c w1"
  have c1: "c < ncpus s1" using same_rest_attrs(3) [OF e(3)] c' by simp
  obtain s2 where q: "scheduler_preempt_thread c f s1 = Inr (v_running w1 c, s2)" "sys_rep s2 w" "same_rest s1 s2"
    "same_mail s1 s2"
    using preempt_refines [OF e(2) c1, of f] unfolding w_def by blast
  have rest2: "same_rest a s2" by (rule same_rest_trans [OF e(3) q(3)])
  have posts2: "same_posts a s2"
    by (rule same_posts_trans [OF same_posts_mail [OF e(4,3)] same_posts_mail [OF q(4,3)]])
  have pl1: "{y. v_place w1 y \<noteq> Away} = insert x {y. v_place v y \<noteq> Away}"
    by (auto simp: w1_def view_add_def upd_view_ready_def)
  have places: "{y. v_place w y \<noteq> Away} = insert x {y. v_place v y \<noteq> Away}"
    unfolding w_def places_preempt [OF e(2)] pl1 ..
  have owned: "owned b u" if "same_rest a b" "{y. v_place u y \<noteq> Away} = insert x {y. v_place v y \<noteq> Away}" for b u
    unfolding owned_def
  proof (intro allI impI)
    fix y assume "v_place u y \<noteq> Away"
    then have "y = x \<or> v_place v y \<noteq> Away" using that(2) by blast
    then show "t_parent (threads b y) \<noteq> None"
      using own at(4) same_rest_attrs(4) [OF that(1)] by (auto simp: owned_def)
  qed
  have sw: "switch_thread c (box_message st c) s2 = Inr st'"
    using run c' e(1) q(1) m(1) by (simp add: handle_awaken_def wakes_def a_def [symmetric])
  have c2: "c < ncpus s2" using same_rest_attrs(3) [OF rest2] c' by simp
  have idle: "v_running w c = None" by (simp add: w_def)
  obtain p where p: "top_queue c w p" "sys_rep st' (view_schedule c p w)" "same_rest s2 st'" "acked c s2 st'"
    using switch_refines [OF q(2) owned [OF rest2 places] cpu_boxes_posts [OF box posts2 rest2] c2 idle m(5) sw] by blast
  have rest: "same_rest a st'" by (rule same_rest_trans [OF rest2 p(3)])
  have places': "{y. v_place (view_schedule c p w) y \<noteq> Away} = insert x {y. v_place v y \<noteq> Away}"
    using places_schedule [OF q(2) p(1)] places by simp
  have "{y. wakes (box_message st c) y} = {x}" using m(1) by (auto simp: wakes_def)
  then have "kernel_inv st' (view_schedule c p w) \<and> known st' (view_schedule c p w) = known st v"
    using places'
    by (intro delivered [OF inv c pend ip p(2) owned [OF rest places'] same_rest_trans [OF ra rest]
      posts2 [unfolded a_def] p(4)]) simp
  then show ?thesis by blast
qed

lemma ipi_keeps:
  assumes inv: "kernel_inv st v" and c: "c < ncpus st" and ip: "ipis st = before @ (of_nat c, 100) # after"
    and run: "cpu_message_handler n c f (st\<lparr>ipis := before @ after\<rparr>) = Inr st'"
  shows "\<exists>v'. kernel_inv st' v' \<and> known st' v' = known st v"
proof -
  have "ipis_to st c \<noteq> 0" by (simp add: ipis_to_def ip)
  then have pend: "pending st c" using inv c by (auto simp: kernel_inv_def split: if_splits)
  have good: "good_message st v c (box_message st c)" using inv c pend by (simp add: kernel_inv_def)
  have r: "receive n c False (pc_mailbox (cpus (st\<lparr>ipis := before @ after\<rparr>) ! c)) (st\<lparr>ipis := before @ after\<rparr>) =
      Inr (Got ERROR_OK (Some (box_message st c)), st\<lparr>ipis := before @ after\<rparr>)"
    using receive_cpu [of "st\<lparr>ipis := before @ after\<rparr>" c n False] inv c by (simp add: kernel_inv_def cpu_boxes_def)
  from good consider (wait) s where "msg_func (box_message st c) = CM_SEM_WAIT" "msg_ptr (box_message st c) = Sem_ptr s"
      "own_sem (ncpus st) s"
    | (awaken) x where "wakes (box_message st c) x" "v_place v x = Away" "cpu_of st x = c" "startable st x"
    by (auto simp: good_message_def)
  then show ?thesis
  proof cases
    case wait
    have dst: "msg_dst (box_message st c) = of_nat c" using good by (simp add: good_message_def)
    have "handle_sem_wait c (box_message st c) f (st\<lparr>ipis := before @ after\<rparr>) = Inr st'"
      using run r c wait(1) by (simp add: cpu_message_handler_def CM_SEM_WAIT_def CM_RESCHEDULE_def)
    then show ?thesis by (rule wait_message_keeps [OF inv c pend ip wait(2,3) dst wait(1)])
  next
    case awaken
    have dst: "msg_dst (box_message st c) = of_nat c" using good by (simp add: good_message_def)
    have "handle_awaken c (box_message st c) f (st\<lparr>ipis := before @ after\<rparr>) = Inr st'"
      using run r c awaken(1)
      by (simp add: cpu_message_handler_def wakes_def CM_SEM_WAIT_def CM_RESCHEDULE_def CM_AWAKEN_THREAD_def)
    then show ?thesis by (rule awaken_message_keeps [OF inv c pend ip awaken dst])
  qed
qed

section \<open>Every step\<close>

lemma kernel_step_keeps:
  assumes "kernel_step st st'" "kernel_inv st v"
  shows "\<exists>v'. kernel_inv st' v' \<and> known st' v' = known st v"
  using assms
proof (cases rule: kernel_step.cases)
  case (tick c f)
  then show ?thesis using tick_keeps [OF assms(2)] by blast
next
  case (ipi c before after n f)
  then show ?thesis using ipi_keeps [OF assms(2)] by blast
next
  case (wait c r n w)
  then show ?thesis using wait_keeps [OF assms(2)] by blast
next
  case (signal c r n)
  then show ?thesis using signal_keeps [OF assms(2)] by blast
qed

end
