(* ===== verification/Kernel_Props.thy ===== *)
theory Kernel_Props
  imports Kernel_Deliver
begin

text \<open>
  Properties of the kernel's steps: no thread is lost.
\<close>

unbundle bit_operations_syntax

section \<open>No thread is lost\<close>

lemma kernel_steps_keep:
  assumes "kernel_step\<^sup>*\<^sup>* st st'" "kernel_inv st v"
  shows "\<exists>v'. kernel_inv st' v' \<and> known st' v' = known st v"
  using assms
proof (induction rule: rtranclp_induct)
  case base
  then show ?case by blast
next
  case (step st1 st2)
  then obtain v1 where "kernel_inv st1 v1" "known st1 v1 = known st v" by blast
  with kernel_step_keeps [OF step.hyps(2)] show ?case by metis
qed

text \<open>
  C2. Thread conservation: however timer interrupts, interrupts between processors, waits and
  signals interleave on any number of processors, every thread that was running, ready, waiting
  or on its way in a message that wakes it still is, in exactly one of these places, and no
  other thread has joined; queues stay well formed, and a processor's mailbox holds at most one
  message that has not been handled, with one interrupt under way for it.
\<close>

theorem no_thread_lost:
  assumes "kernel_step\<^sup>*\<^sup>* st st'" "kernel_inv st v"
  shows "\<exists>v'. kernel_inv st' v' \<and> known st' v' = known st v"
  using kernel_steps_keep [OF assms] .

lemma ex_kernel_inv: "kernel_inv ex_state ex_view"
proof -
  have "\<not> pending ex_state c" for c by (simp add: pending_def ex_mailbox_def free_sem_def)
  moreover have "cpu_boxes ex_state" by (simp add: cpu_boxes_def ex_mailbox_def ex_cpu_def)
  ultimately show ?thesis using ex_rep ex_owned by (simp add: kernel_inv_def ipis_to_def)
qed

lemma ex_known: "known ex_state ex_view = {0, 1}"
proof -
  have "\<not> pending ex_state c" for c by (simp add: pending_def ex_mailbox_def free_sem_def)
  then show ?thesis by (auto simp: known_def ex_view_def)
qed

text \<open>Thread 0 waits on a semaphore with count 0: one wait, one message, one interrupt.\<close>

abbreviation ex_message :: message where
  "ex_message \<equiv> cpu_message 0 0 CM_SEM_WAIT (Sem_ptr (Sem_at 0))"

definition ex_blocked :: kstate where
  "ex_blocked = post 0 ex_message (upd_sem (Sem_at 0) (\<lambda>s. s\<lparr>sem_lock := sem_lock s OR 1\<rparr>) ex_state)"

lemma ex_wait: "semaphore_wait (Suc 0) 0 (Sem_at 0) ex_state = Inr (Posted, ex_blocked)"
proof -
  let ?s = "upd_sem (Sem_at 0) (\<lambda>s. s\<lparr>sem_lock := sem_lock s OR 1\<rparr>) ex_state"
  have s: "other_sems ex_state 0 = free_sem 0" by (simp add: ex_state_def)
  have box: "cpu_boxes ?s" by (simp add: cpu_boxes_def ex_mailbox_def ex_cpu_def)
  have "\<not> pending ?s 0" by (subst pending_upd_sem [of 1]) (simp_all add: pending_def ex_mailbox_def free_sem_def)
  then have "send (Suc 0) 0 False ex_message ?s = Inr (Some ERROR_OK, ex_blocked)"
    unfolding ex_blocked_def
    by (subst send_to_cpu [OF box, of 0]) (simp_all add: cpu_message_def del: send.simps)
  then show ?thesis
    unfolding semaphore_wait_def by (subst semaphore_wait_block) (simp_all add: s free_sem_def send_by_def del: send.simps)
qed

lemma ex_blocked_parts [simp]:
  "ncpus ex_blocked = 1" "ipis ex_blocked = [(0, 100)]" "threads ex_blocked n = ex_thread (of_nat n)"
  "mb_message (mailbox_slots ex_blocked 0) = ex_message"
  by (simp_all add: ex_blocked_def) (simp add: post_def send_ipi_def upd_mailbox_def)

theorem no_thread_lost_witness:
  "\<exists>st1 v'. semaphore_wait (Suc 0) 0 (Sem_at 0) ex_state = Inr (Posted, st1) \<and>
    kernel_step\<^sup>*\<^sup>* ex_state st1 \<and> ipis st1 = [(0, 100)] \<and> kernel_inv st1 v' \<and> known st1 v' = {0, 1}"
proof -
  have "kernel_step ex_state ex_blocked"
    using ex_wait by (rule kernel_step.wait [rotated 2]) simp_all
  then have "kernel_step\<^sup>*\<^sup>* ex_state ex_blocked" by (rule r_into_rtranclp [of kernel_step])
  then have "\<exists>v'. kernel_inv ex_blocked v' \<and> known ex_blocked v' = known ex_state ex_view"
    by (rule no_thread_lost [OF _ ex_kernel_inv])
  then show ?thesis using \<open>kernel_step\<^sup>*\<^sup>* ex_state ex_blocked\<close> ex_wait by (auto simp: ex_known)
qed

section \<open>Who is blocked\<close>

text \<open>
  C16. The message a thread sends to its own processor to block itself blocks the thread that
  runs when the message arrives: that thread's registers are saved, it goes to the end of the
  semaphore's queue, the semaphore's lock is released, and the processor runs the first ready
  thread.  If no other thread is ready the processor panics.
\<close>

theorem semaphore_wait_delivered:
  assumes inv: "kernel_inv st v" and c: "c < ncpus st" and ip: "ipis st = before @ (of_nat c, 100) # after"
    and m: "msg_func (box_message st c) = CM_SEM_WAIT" "msg_ptr (box_message st c) = Sem_ptr r" "own_sem (ncpus st) r"
    and x: "v_running v c = Some x"
  shows "(top_queue c v p \<longrightarrow>
      (\<exists>st' v'. cpu_message_handler n c f (st\<lparr>ipis := before @ after\<rparr>) = Inr st' \<and> kernel_inv st' v' \<and>
        v_waiting v' r = v_waiting v r @ [x] \<and> v_running v' c = Some (hd (v_ready v c p)) \<and>
        (\<forall>q. v_ready v' c q = (if q = p then tl (v_ready v c p) else v_ready v c q)) \<and>
        \<not> lock_held (sem_lock (get_sem r st')) \<and> t_frame (threads st' x) = saved_frame (threads st x) f)) \<and>
    ((\<forall>q < 8. v_ready v c q = []) \<longrightarrow>
      cpu_message_handler n c f (st\<lparr>ipis := before @ after\<rparr>) = Inl (Panic ''invalid scheduling queue received''))"
proof -
  let ?a = "st\<lparr>ipis := before @ after\<rparr>"
  have "ipis_to st c \<noteq> 0" by (simp add: ipis_to_def ip)
  then have pend: "pending st c" using inv c by (auto simp: kernel_inv_def split: if_splits)
  then have dst: "msg_dst (box_message st c) = of_nat c" using inv c by (simp add: kernel_inv_def good_message_def)
  have "receive n c False (pc_mailbox (cpus ?a ! c)) ?a = Inr (Got ERROR_OK (Some (box_message st c)), ?a)"
    using receive_cpu [of ?a c n False] inv c by (simp add: kernel_inv_def cpu_boxes_def)
  then have run: "cpu_message_handler n c f ?a = handle_sem_wait c (box_message st c) f ?a"
    using c m(1) by (simp add: cpu_message_handler_def CM_SEM_WAIT_def CM_RESCHEDULE_def)
  let ?w = "view_block x r (view_evict x c v)"
  have w: "v_waiting (view_schedule c p ?w) r = v_waiting v r @ [x]"
    "v_running (view_schedule c p ?w) c = Some (hd (v_ready v c p))"
    "v_ready (view_schedule c p ?w) c q = (if q = p then tl (v_ready v c p) else v_ready v c q)" for q
    by (simp_all add: view_schedule_def view_block_def view_evict_def upd_view_ready_def Let_def)
  show ?thesis
    unfolding run
    using wait_message_blocks [OF inv c pend ip m(2,3) dst m(1) x, of p f] wait_message_alone [OF inv c m(2,3) x] w by blast
qed

text \<open>
  Thread 0 waits on the semaphore at 0, a timer interrupt comes first, then the message: thread 1,
  which never asked, sleeps on the semaphore, and thread 0 runs on.
\<close>

theorem semaphore_wait_delivered_witness:
  "\<exists>st1 st2 st3 v3. semaphore_wait (Suc 0) 0 (Sem_at 0) ex_state = Inr (Posted, st1) \<and>
    timer_callback 0 trap_frame_zero st1 = Inr st2 \<and> ipis st2 = [(0, 100)] \<and>
    cpu_message_handler 0 0 trap_frame_zero (st2\<lparr>ipis := []\<rparr>) = Inr st3 \<and> kernel_inv st3 v3 \<and>
    v_running ex_view 0 = Some 0 \<and> v_waiting v3 (Sem_at 0) = [1] \<and> v_running v3 0 = Some 0"
proof -
  have inv: "kernel_inv ex_blocked ex_view"
    using wait_keeps [OF ex_kernel_inv _ _ ex_wait] by simp
  have prio: "prio_of ex_blocked = (\<lambda>_. 0)" by (simp add: prio_of_def [abs_def])
  define w where "w = view_preempt (\<lambda>_. 0) 0 ex_view"
  have wr: "v_ready w 0 0 = [1, 0]" "v_waiting w r = []" for r
    by (simp_all add: w_def view_preempt_ready ex_view_def)
  have top: "top_queue 0 (view_preempt (prio_of ex_blocked) 0 ex_view) 0"
    using wr(1) by (simp add: top_queue_def prio w_def)
  have c: "0 < ncpus ex_blocked" by simp
  obtain st2 where t: "timer_callback 0 trap_frame_zero ex_blocked = Inr st2" "kernel_inv st2 (view_schedule 0 0 w)"
    "same_mail ex_blocked st2" "ncpus st2 = 1"
    using tick_total [OF inv c top, of trap_frame_zero] unfolding prio w_def by auto
  have v2: "v_running (view_schedule 0 0 w) 0 = Some 1" "v_ready (view_schedule 0 0 w) 0 0 = [0]"
    "v_waiting (view_schedule 0 0 w) (Sem_at 0) = []"
    by (simp_all add: view_schedule_def Let_def upd_view_ready_def wr)
  have c2: "0 < ncpus st2" "own_sem (ncpus st2) (Sem_at 0)" using t(4) by simp_all
  have ip: "ipis st2 = [] @ (of_nat 0, 100) # []" using t(3) by (simp add: same_mail_def)
  have msg: "box_message st2 0 = ex_message" using t(3) by (simp add: same_mail_def)
  have m: "msg_func (box_message st2 0) = CM_SEM_WAIT" "msg_ptr (box_message st2 0) = Sem_ptr (Sem_at 0)"
    by (simp_all add: msg cpu_message_def)
  have top2: "top_queue 0 (view_schedule 0 0 w) 0" using v2(2) by (simp add: top_queue_def)
  from semaphore_wait_delivered [OF t(2) c2(1) ip m c2(2) v2(1), of 0 0 trap_frame_zero] top2 obtain st3 v3 where
    "cpu_message_handler 0 0 trap_frame_zero (st2\<lparr>ipis := []\<rparr>) = Inr st3" "kernel_inv st3 v3"
    "v_waiting v3 (Sem_at 0) = [1]" "v_running v3 0 = Some 0"
    unfolding v2 by auto
  then show ?thesis using ex_wait t(1) ip ex_running by auto
qed

end
