(* ===== verification/Process.thy ===== *)
theory Process
  imports Ipc Virt_Mem
begin

text \<open>
  Processes and threads: \<^verbatim>\<open>process/process.c\<close> and \<^verbatim>\<open>process/process_task.c\<close>, with
  the initialisation of the mailbox table from \<^verbatim>\<open>ipc/mailbox.c\<close>.
\<close>

unbundle bit_operations_syntax

section \<open>Initialisation\<close>

text \<open>
  The sizes of the C structures: PCB 40 bytes, TCB 104 bytes, mailbox_t 108 bytes, of which the
  message takes 68: its union is aligned to four bytes and so lies at offset 8.
\<close>

definition sizeof_pcb :: u32 where "sizeof_pcb = 4 + 2 + 2 + 8 + 4 + 16 + 4"
definition sizeof_tcb :: u32 where "sizeof_tcb = 4 + 76 + 2 + 1 + 1 + 4 + 4 + 4 + 4 + 4"
definition sizeof_message :: u32 where "sizeof_message = 2 + 2 + 1 + 1 + 2 + 60"
definition sizeof_mailbox :: u32 where "sizeof_mailbox = 2 + 2 + 4 + sizeof_message + 2 * 16"

text \<open>
  \<^verbatim>\<open>for(i = 0; i < pages - 1; i++) alloc_perm();\<close> over the static variable of mem_alloc.c
  and the state of the memory managers.
\<close>

primrec alloc_perms :: "nat \<Rightarrow> u32 \<Rightarrow> u32 \<Rightarrow> vm_state \<Rightarrow> (u32 \<times> vm_state) res" where
  "alloc_perms 0 kernel_end mem_current vm = Inr (mem_current, vm)"
| "alloc_perms (Suc n) kernel_end mem_current vm =
     res_bind (alloc_perm kernel_end mem_current vm) (\<lambda>(_, mem_current, vm). alloc_perms n kernel_end mem_current vm)"

text \<open>The pages for a table of \<open>n\<close> entries; the answer is its address.\<close>

definition alloc_table :: "nat \<Rightarrow> u32 \<Rightarrow> u32 \<Rightarrow> u32 \<Rightarrow> vm_state \<Rightarrow> (u32 \<times> u32 \<times> vm_state) res" where
  "alloc_table n entry kernel_end mem_current vm =
     res_bind (ceil_division (of_nat n * entry) virt_mem_get_page_size) (\<lambda>pages.
     res_bind (alloc_perm kernel_end mem_current vm) (\<lambda>(base, mem_current, vm).
     res_bind (alloc_perms (unat (pages - 1)) kernel_end mem_current vm) (\<lambda>(mem_current, vm).
       Inr (base, mem_current, vm))))"

definition clear_processes :: "(nat \<Rightarrow> pcb) \<Rightarrow> nat \<Rightarrow> pcb" where
  "clear_processes ps i = (if i < MAX_PROCESS_SLOTS then (ps i)\<lparr>p_flags := PROCESS_SLOT_EMPTY, p_pid := - 1\<rparr> else ps i)"

definition clear_threads :: "(nat \<Rightarrow> tcb) \<Rightarrow> nat \<Rightarrow> tcb" where
  "clear_threads ts i = (if i < MAX_THREAD_SLOTS then (ts i)\<lparr>t_flags := THREAD_SLOT_EMPTY, t_tid := - 1\<rparr> else ts i)"

definition clear_mailboxes :: "(nat \<Rightarrow> mailbox) \<Rightarrow> nat \<Rightarrow> mailbox" where
  "clear_mailboxes ms i = (if i < MAX_MAILBOX_SLOTS then (ms i)\<lparr>mb_type := MAILBOX_NONE, mb_mid := of_nat i\<rparr> else ms i)"

text \<open>The answer holds the two tables' addresses and the memory after the allocation.\<close>

definition process_init :: "u32 \<Rightarrow> u32 \<Rightarrow> vm_state \<Rightarrow> kstate \<Rightarrow> (u32 \<times> u32 \<times> u32 \<times> vm_state \<times> kstate) res" where
  "process_init kernel_end mem_current vm st =
     res_bind (alloc_table MAX_PROCESS_SLOTS sizeof_pcb kernel_end mem_current vm) (\<lambda>(pbase, mem_current, vm).
     res_bind (alloc_table MAX_THREAD_SLOTS sizeof_tcb kernel_end mem_current vm) (\<lambda>(tbase, mem_current, vm).
       Inr (pbase, tbase, mem_current, vm,
         st\<lparr>ps_lock := 0, ts_lock := 0, process_slots := clear_processes (process_slots st),
            thread_slots := clear_threads (thread_slots st)\<rparr>)))"

definition mailbox_init :: "u32 \<Rightarrow> u32 \<Rightarrow> vm_state \<Rightarrow> kstate \<Rightarrow> (u32 \<times> u32 \<times> vm_state \<times> kstate) res" where
  "mailbox_init kernel_end mem_current vm st =
     res_bind (alloc_table MAX_MAILBOX_SLOTS sizeof_mailbox kernel_end mem_current vm) (\<lambda>(mbase, mem_current, vm).
       Inr (mbase, mem_current, vm,
         st\<lparr>ms_lock := 0, mailbox_slots := clear_mailboxes (mailbox_slots st)\<rparr>))"

section \<open>Processes\<close>

definition process_create_static ::
    "nat option \<Rightarrow> u32 \<Rightarrow> u8 list \<Rightarrow> u16 \<Rightarrow> kstate \<Rightarrow> (nat option \<times> kstate) res" where
  "process_create_static parent pdir name pid st =
     res_bind (acquire_spinlock (ps_lock st)) (\<lambda>l.
       let st = st\<lparr>ps_lock := l\<rparr>; p = unat pid in
       if p \<ge> MAX_PROCESS_SLOTS then Inl OutOfBounds
       else if p_flags (process_slots st p) AND PROCESS_SLOT_EMPTY = 0
       then Inr (None, st\<lparr>ps_lock := release_spinlock (ps_lock st)\<rparr>)
       else
         let st = upd_process p (\<lambda>c. c\<lparr>p_flags := PROCESS_NEW\<rparr>) st;
             st = st\<lparr>ps_lock := release_spinlock (ps_lock st)\<rparr>;
             st = upd_process p (\<lambda>c. c\<lparr>p_pid := pid, p_parent := parent, p_page_directory := pdir, p_lock := 0\<rparr>) st
         in res_bind (strcpy_s (p_name (process_slots st p)) 16 name) (\<lambda>(_, buf).
              Inr (Some p, upd_process p (\<lambda>c. c\<lparr>p_name := buf, memory_contract := vm_contract_init (memory_contract c)\<rparr>) st)))"

definition process_create :: "nat option \<Rightarrow> u32 \<Rightarrow> u8 list \<Rightarrow> kstate \<Rightarrow> (nat option \<times> kstate) res" where
  "process_create parent pdbr name st =
     try_slots (\<lambda>i. process_create_static parent pdbr name (of_nat i)) MAX_PROCESS_SLOTS 0 st"

definition get_process :: "u16 \<Rightarrow> kstate \<Rightarrow> nat option res" where
  "get_process pid st =
     (if unat pid \<ge> MAX_PROCESS_SLOTS then Inl OutOfBounds
      else if p_flags (process_slots st (unat pid)) AND PROCESS_SLOT_EMPTY \<noteq> 0 then Inr None
      else Inr (Some (unat pid)))"

section \<open>Threads\<close>

definition thread_create_static ::
    "nat option \<Rightarrow> u32 \<Rightarrow> u32 \<Rightarrow> u32 \<Rightarrow> u16 \<Rightarrow> u8 \<Rightarrow> u8 \<Rightarrow> kstate \<Rightarrow> (nat option \<times> kstate) res" where
  "thread_create_static parent entry_point stack_top priority tid is_kernel exec_cpu st =
     res_bind (acquire_spinlock (ts_lock st)) (\<lambda>l.
       let st = st\<lparr>ts_lock := l\<rparr>; t = unat tid in
       if t \<ge> MAX_THREAD_SLOTS then Inl OutOfBounds
       else if t_flags (thread_slots st t) AND THREAD_SLOT_EMPTY = 0
       then Inr (None, st\<lparr>ts_lock := release_spinlock (ts_lock st)\<rparr>)
       else
         let st = upd_thread t (\<lambda>c. c\<lparr>t_flags := THREAD_NEW\<rparr>) st;
             st = st\<lparr>ts_lock := release_spinlock (ts_lock st)\<rparr>;
             st = upd_thread t (\<lambda>c. c\<lparr>t_tid := tid, t_parent := parent, t_priotity := priority, t_is_kernel := is_kernel,
               t_exec_cpu := exec_cpu, t_mailbox := None, t_next := None, t_prev := None\<rparr>) st
         in if is_kernel \<noteq> 0
            then Inr (Some t, upd_thread t (\<lambda>c. c\<lparr>t_frame :=
                   trap_frame_init_kernel (t_frame c) entry_point stack_top exec_cpu\<rparr>) st)
            else res_bind (get_cpu_storage (unat exec_cpu) st) (\<lambda>d.
                   Inr (Some t, upd_thread t (\<lambda>c. c\<lparr>t_frame :=
                     trap_frame_init_user entry_point (pc_common_stack_top d) stack_top\<rparr>) st)))"

definition thread_create ::
    "nat option \<Rightarrow> u32 \<Rightarrow> u32 \<Rightarrow> u32 \<Rightarrow> u8 \<Rightarrow> u8 \<Rightarrow> kstate \<Rightarrow> (nat option \<times> kstate) res" where
  "thread_create parent entry_point stack_top priority is_kernel exec_cpu st =
     try_slots (\<lambda>i. thread_create_static parent entry_point stack_top priority (of_nat i) is_kernel exec_cpu)
       MAX_THREAD_SLOTS 0 st"

definition get_thread :: "u16 \<Rightarrow> kstate \<Rightarrow> nat option res" where
  "get_thread tid st =
     (if unat tid \<ge> MAX_THREAD_SLOTS then Inl OutOfBounds
      else if t_flags (thread_slots st (unat tid)) AND THREAD_SLOT_EMPTY \<noteq> 0 then Inr None
      else Inr (Some (unat tid)))"

definition thread_alloc_mailbox :: "nat \<Rightarrow> kstate \<Rightarrow> (nat option \<times> kstate) res" where
  "thread_alloc_mailbox thread st =
     res_bind (mailbox_create MAILBOX_THREAD (Tcb_ptr thread) st) (\<lambda>(mbox, st).
       Inr (mbox, upd_thread thread (\<lambda>t. t\<lparr>t_mailbox := mbox\<rparr>) st))"

definition thread_alloc_mailbox_static :: "nat \<Rightarrow> u16 \<Rightarrow> kstate \<Rightarrow> (nat option \<times> kstate) res" where
  "thread_alloc_mailbox_static thread mid st =
     res_bind (mailbox_create_static mid MAILBOX_THREAD (Tcb_ptr thread) st) (\<lambda>(mbox, st).
       Inr (mbox, upd_thread thread (\<lambda>t. t\<lparr>t_mailbox := mbox\<rparr>) st))"

section \<open>The process task\<close>

text \<open>handle_fork answers nothing: it has no return statement and its caller ignores the value.\<close>

definition handle_fork :: "message \<Rightarrow> kstate \<Rightarrow> kstate res" where
  "handle_fork msg st =
     res_bind (get_mailbox (msg_src msg) st) (\<lambda>mb. res_bind (deref mb) (\<lambda>m.
       case mb_owner (mailbox_slots st m) of
         Tcb_ptr source \<Rightarrow>
           res_bind (deref (t_parent (threads st source))) (\<lambda>proc.
           res_bind (process_create (p_parent (process_slots st proc)) (p_page_directory (process_slots st proc))
                       (p_name (process_slots st proc)) st) (\<lambda>(new_process, st).
             let src = threads st source in
             res_bind (thread_create new_process (tf_eip (t_frame src)) (tf_esp (t_frame src)) (t_priotity src)
                         (t_is_kernel src) (t_exec_cpu src) st) (\<lambda>(new_thread, st).
               res_bind (deref new_thread) (\<lambda>th. scheduler_add_ready th st))))
       | Null_ptr \<Rightarrow> Inl NullDeref
       | _ \<Rightarrow> Inl OutOfBounds))"

text \<open>
  The body of the loop of process_task_entry_point: first up to the answer of receive_current,
  then, at once or when the thread runs again, the dispatch on the message.
\<close>

definition process_task_dispatch :: "message \<Rightarrow> kstate \<Rightarrow> kstate res" where
  "process_task_dispatch msg st = (if msg_func msg = TM_FORK then handle_fork msg st else Inr st)"

definition process_task_entry_point :: "nat \<Rightarrow> nat \<Rightarrow> bool \<Rightarrow> kstate \<Rightarrow> kstate res" where
  "process_task_entry_point n me now st =
     res_bind (receive_current n me now st) (\<lambda>(got, st).
       case got of
         Got _ (Some msg) \<Rightarrow> process_task_dispatch msg st
       | Got _ None \<Rightarrow> Inl Uninitialised
       | Suspended \<Rightarrow> Inr st)"

end
