(* ===== verification/Process_Props.thy ===== *)
theory Process_Props
  imports Process Kernel_Steps
begin

text \<open>
  The three slot tables are slot tables; a created process and thread have what their creator
  asked for; a thread that is created, made ready and started runs at its entry point.
\<close>

unbundle bit_operations_syntax

section \<open>The tables\<close>

lemma acquired_released: "\<not> lock_held l \<Longrightarrow> release_spinlock (l OR 1) = l"
proof -
  assume "\<not> lock_held l"
  then have "\<not> bit l 0" by (simp add: lock_held_bit)
  then have "bit l n \<Longrightarrow> 0 < n" for n by (cases n) auto
  then show ?thesis by (intro bit_word_eqI) (auto simp: release_spinlock_def bit_simps)
qed

definition new_tcb :: "nat option \<Rightarrow> u32 \<Rightarrow> u32 \<Rightarrow> u32 \<Rightarrow> nat \<Rightarrow> u8 \<Rightarrow> u8 \<Rightarrow> u32 \<Rightarrow> tcb \<Rightarrow> tcb" where
  "new_tcb parent entry_point stack_top priority i is_kernel exec_cpu common t =
     t\<lparr>t_flags := THREAD_NEW, t_tid := of_nat i, t_parent := parent, t_priotity := priority,
       t_is_kernel := is_kernel, t_exec_cpu := exec_cpu, t_mailbox := None, t_next := None, t_prev := None,
       t_frame := (if is_kernel \<noteq> 0 then trap_frame_init_kernel (t_frame t) entry_point stack_top exec_cpu
                   else trap_frame_init_user entry_point common stack_top)\<rparr>"

definition thread_used :: "kstate \<Rightarrow> nat \<Rightarrow> bool" where
  "thread_used st i \<longleftrightarrow> t_flags (threads st i) AND THREAD_SLOT_EMPTY = 0"

definition process_used :: "kstate \<Rightarrow> nat \<Rightarrow> bool" where
  "process_used st i \<longleftrightarrow> p_flags (process_slots st i) AND PROCESS_SLOT_EMPTY = 0"

definition mailbox_used :: "kstate \<Rightarrow> nat \<Rightarrow> bool" where
  "mailbox_used st i \<longleftrightarrow> mb_type (mailbox_slots st i) \<noteq> 0"

definition threads_idle :: "u8 \<Rightarrow> u8 \<Rightarrow> kstate \<Rightarrow> bool" where
  "threads_idle is_kernel exec_cpu st \<longleftrightarrow> \<not> lock_held (ts_lock st) \<and> (is_kernel = 0 \<longrightarrow> unat exec_cpu < ncpus st)"

definition processes_idle :: "u8 list \<Rightarrow> u8 list \<Rightarrow> kstate \<Rightarrow> bool" where
  "processes_idle name s st \<longleftrightarrow> \<not> lock_held (ps_lock st) \<and> c_string name = Some s \<and> length s < 16 \<and>
     (\<forall>i. length (p_name (process_slots st i)) = 16)"

definition mailboxes_idle :: "u16 \<Rightarrow> kstate \<Rightarrow> bool" where
  "mailboxes_idle type st \<longleftrightarrow> \<not> lock_held (ms_lock st) \<and> type \<noteq> 0"

lemma thread_create_static_used:
  assumes "\<not> lock_held (ts_lock st)" "i < MAX_THREAD_SLOTS" "thread_used st i"
  shows "thread_create_static parent e s p (of_nat i) k c st = Inr (None, st)"
proof -
  have "unat (of_nat i :: u16) = i" using assms(2) by (simp add: MAX_THREAD_SLOTS_def unat_of_nat)
  then show ?thesis using assms by (simp add: thread_create_static_def thread_used_def acquired_released)
qed

lemma thread_create_static_free:
  assumes "threads_idle k c st" "i < MAX_THREAD_SLOTS" "\<not> thread_used st i"
  shows "thread_create_static parent e s p (of_nat i) k c st =
    Inr (Some i, upd_thread i (new_tcb parent e s p i k c (pc_common_stack_top (cpus st ! unat c))) st)"
proof -
  have u: "unat (of_nat i :: u16) = i" using assms(2) by (simp add: MAX_THREAD_SLOTS_def unat_of_nat)
  show ?thesis
  proof (cases "k = 0")
    case True
    then show ?thesis
      using assms u
      by (simp add: thread_create_static_def thread_used_def threads_idle_def acquired_released upd_thread_def Let_def
          new_tcb_def get_cpu_storage_def)
  next
    case False
    then show ?thesis
      using assms u
      by (simp add: thread_create_static_def thread_used_def threads_idle_def acquired_released upd_thread_def Let_def
          new_tcb_def)
  qed
qed

definition new_pcb :: "nat option \<Rightarrow> u32 \<Rightarrow> u8 list \<Rightarrow> nat \<Rightarrow> pcb \<Rightarrow> pcb" where
  "new_pcb parent pdir s i c =
     c\<lparr>p_flags := PROCESS_NEW, p_pid := of_nat i, p_parent := parent, p_page_directory := pdir, p_lock := 0,
       p_name := s @ 0 # drop (Suc (length s)) (p_name c), memory_contract := vm_contract_init (memory_contract c)\<rparr>"

lemma process_create_static_used:
  assumes "\<not> lock_held (ps_lock st)" "i < MAX_PROCESS_SLOTS" "process_used st i"
  shows "process_create_static parent pdir name (of_nat i) st = Inr (None, st)"
proof -
  have "unat (of_nat i :: u16) = i" using assms(2) by (simp add: MAX_PROCESS_SLOTS_def unat_of_nat)
  then show ?thesis using assms by (simp add: process_create_static_def process_used_def acquired_released)
qed

lemma process_create_static_free:
  assumes "processes_idle name s st" "i < MAX_PROCESS_SLOTS" "\<not> process_used st i"
  shows "process_create_static parent pdir name (of_nat i) st =
    Inr (Some i, upd_process i (new_pcb parent pdir s i) st)"
proof -
  have u: "unat (of_nat i :: u16) = i" using assms(2) by (simp add: MAX_PROCESS_SLOTS_def unat_of_nat)
  have l: "length (p_name (process_slots st i)) = 16" and cs: "c_string name = Some s" "length s < 16"
    using assms(1) by (simp_all add: processes_idle_def)
  have "strcpy_s (p_name (process_slots st i)) 16 name = Inr (0, s @ 0 # drop (Suc (length s)) (p_name (process_slots st i)))"
    using strcpy_s_fits [OF cs(1), of "p_name (process_slots st i)"] cs(2) l by simp
  then show ?thesis
    using assms u
    by (simp add: process_create_static_def process_used_def processes_idle_def acquired_released upd_process_def Let_def
        new_pcb_def)
qed

text \<open>A mailbox that was just created: for a thread, empty, with nobody waiting.\<close>

definition new_mailbox :: "u16 \<Rightarrow> ptr \<Rightarrow> mailbox \<Rightarrow> mailbox" where
  "new_mailbox type owner mb =
     (if type > MAILBOX_ABOVE_SEMAPHORE
      then mb\<lparr>mb_type := type, mb_owner := owner,
        sem_rdy := \<lparr>sem_lock = 0, sem_count = 1, waiting_head = None, waiting_tail = None\<rparr>,
        sem_recv := \<lparr>sem_lock = 0, sem_count = 0, waiting_head = None, waiting_tail = None\<rparr>\<rparr>
      else set_msg_lock 0 (mb\<lparr>mb_type := type, mb_owner := owner\<rparr>))"

lemma sem_fields:
  "s\<lparr>sem_count := v, sem_lock := 0, waiting_head := None, waiting_tail := None\<rparr> =
   \<lparr>sem_lock = 0, sem_count = v, waiting_head = None, waiting_tail = None\<rparr>"
  by (cases s) simp

lemma mailbox_create_static_used:
  assumes "\<not> lock_held (ms_lock st)" "i < MAX_MAILBOX_SLOTS" "mailbox_used st i"
  shows "mailbox_create_static (of_nat i) type owner st = Inr (None, st)"
proof -
  have "unat (of_nat i :: u16) = i" using assms(2) by (simp add: MAX_MAILBOX_SLOTS_def unat_of_nat)
  then show ?thesis using assms by (simp add: mailbox_create_static_def mailbox_used_def acquired_released)
qed

lemma mailbox_create_static_free:
  assumes "\<not> lock_held (ms_lock st)" "i < MAX_MAILBOX_SLOTS" "\<not> mailbox_used st i"
  shows "mailbox_create_static (of_nat i) type owner st = Inr (Some i, upd_mailbox i (new_mailbox type owner) st)"
proof -
  have u: "unat (of_nat i :: u16) = i" using assms(2) by (simp add: MAX_MAILBOX_SLOTS_def unat_of_nat)
  show ?thesis
  proof (cases "type > MAILBOX_ABOVE_SEMAPHORE")
    case True
    then show ?thesis
      using assms u
      by (simp add: mailbox_create_static_def mailbox_used_def acquired_released upd_mailbox_def Let_def new_mailbox_def
          semaphore_init_def upd_sem_def sem_fields)
  next
    case False
    then show ?thesis
      using assms u
      by (simp add: mailbox_create_static_def mailbox_used_def acquired_released upd_mailbox_def Let_def new_mailbox_def
          set_msg_lock_def)
  qed
qed

interpretation thread_table: slot_table "\<lambda>i. thread_create_static parent e s p (of_nat i) k c" thread_used
    "threads_idle k c" MAX_THREAD_SLOTS
proof
  fix i st assume a: "threads_idle k c st" "i < MAX_THREAD_SLOTS"
  show "thread_used st i \<Longrightarrow> thread_create_static parent e s p (of_nat i) k c st = Inr (None, st)"
    using thread_create_static_used [of st i] a by (simp add: threads_idle_def)
  assume "\<not> thread_used st i"
  from thread_create_static_free [OF a this]
  show "\<exists>st'. thread_create_static parent e s p (of_nat i) k c st = Inr (Some i, st') \<and> threads_idle k c st' \<and>
      (\<forall>j. thread_used st' j = (j = i \<or> thread_used st j))"
    using a by (simp add: threads_idle_def thread_used_def new_tcb_def THREAD_NEW_def THREAD_SLOT_EMPTY_def)
      (simp add: upd_thread_def)
qed

interpretation process_table: slot_table "\<lambda>i. process_create_static parent pdir name (of_nat i)" process_used
    "processes_idle name s" MAX_PROCESS_SLOTS
proof
  fix i st assume a: "processes_idle name s st" "i < MAX_PROCESS_SLOTS"
  show "process_used st i \<Longrightarrow> process_create_static parent pdir name (of_nat i) st = Inr (None, st)"
    using process_create_static_used [of st i] a by (simp add: processes_idle_def)
  assume "\<not> process_used st i"
  from process_create_static_free [OF a this]
  show "\<exists>st'. process_create_static parent pdir name (of_nat i) st = Inr (Some i, st') \<and> processes_idle name s st' \<and>
      (\<forall>j. process_used st' j = (j = i \<or> process_used st j))"
    using a by (simp add: processes_idle_def process_used_def upd_process_def new_pcb_def PROCESS_NEW_def PROCESS_SLOT_EMPTY_def)
qed

interpretation mailbox_table: slot_table "\<lambda>i. mailbox_create_static (of_nat i) type owner" mailbox_used
    "mailboxes_idle type" MAX_MAILBOX_SLOTS
proof
  fix i st assume a: "mailboxes_idle type st" "i < MAX_MAILBOX_SLOTS"
  then have l: "\<not> lock_held (ms_lock st)" by (simp add: mailboxes_idle_def)
  show "mailbox_used st i \<Longrightarrow> mailbox_create_static (of_nat i) type owner st = Inr (None, st)"
    by (rule mailbox_create_static_used [OF l a(2)])
  assume "\<not> mailbox_used st i"
  from mailbox_create_static_free [OF l a(2) this]
  show "\<exists>st'. mailbox_create_static (of_nat i) type owner st = Inr (Some i, st') \<and> mailboxes_idle type st' \<and>
      (\<forall>j. mailbox_used st' j = (j = i \<or> mailbox_used st j))"
    using a by (simp add: mailboxes_idle_def mailbox_used_def upd_mailbox_def new_mailbox_def)
qed


section \<open>A new process\<close>

text \<open>
  C35. process_create takes the lowest free slot of the table: the process there is new, has the
  slot's number as its pid, the parent and page directory it was given, an unlocked and empty
  address space and the name; get_process finds it; no other process changes.  A full table
  answers a null pointer and changes nothing.
\<close>

theorem process_create_spec:
  assumes "\<not> lock_held (ps_lock st)" "\<forall>i. length (p_name (process_slots st i)) = 16"
    "c_string name = Some s" "length s < 16"
  shows "(i < MAX_PROCESS_SLOTS \<longrightarrow> \<not> process_used st i \<longrightarrow> (\<forall>j < i. process_used st j) \<longrightarrow>
      (\<exists>st' c. process_create parent pdir name st = Inr (Some i, st') \<and> process_slots st' = (process_slots st)(i := c) \<and>
        p_pid c = of_nat i \<and> p_parent c = parent \<and> p_page_directory c = pdir \<and> p_lock c = 0 \<and>
        c_string (p_name c) = Some s \<and> length (p_name c) = 16 \<and> root (memory_contract c) = Null \<and>
        get_process (of_nat i) st' = Inr (Some i) \<and> get_process (of_nat i) st = Inr None \<and>
        threads st' = threads st \<and> ps_lock st' = ps_lock st)) \<and>
    ((\<forall>j < MAX_PROCESS_SLOTS. process_used st j) \<longrightarrow> process_create parent pdir name st = Inr (None, st))"
proof (intro conjI impI)
  have idle: "processes_idle name s st" using assms by (simp add: processes_idle_def)
  show "process_create parent pdir name st = Inr (None, st)" if "\<forall>j < MAX_PROCESS_SLOTS. process_used st j"
    using process_table.try_full [OF idle that] by (simp add: process_create_def)
  assume i: "i < MAX_PROCESS_SLOTS" "\<not> process_used st i" "\<forall>j < i. process_used st j"
  let ?c = "new_pcb parent pdir s i (process_slots st i)"
  have "process_create parent pdir name st = Inr (Some i, upd_process i (new_pcb parent pdir s i) st)"
    using process_table.try_first [OF idle i, of parent pdir] process_create_static_free [OF idle i(1,2), of parent pdir]
    by (simp add: process_create_def)
  moreover have "c_string (p_name ?c) = Some s"
    using c_string_SomeD [OF assms(3)] c_string_prefix [of s] by (auto simp: new_pcb_def)
  moreover have "length (p_name ?c) = 16" using assms(2,4) by (simp add: new_pcb_def)
  moreover have "unat (of_nat i :: u16) = i" using i(1) by (simp add: MAX_PROCESS_SLOTS_def unat_of_nat)
  then have "get_process (of_nat i) (upd_process i (new_pcb parent pdir s i) st) = Inr (Some i)"
    "get_process (of_nat i) st = Inr None"
    using i(1,2) by (simp_all add: get_process_def upd_process_def new_pcb_def PROCESS_NEW_def PROCESS_SLOT_EMPTY_def
        process_used_def)
  ultimately show "\<exists>st' c. process_create parent pdir name st = Inr (Some i, st') \<and>
      process_slots st' = (process_slots st)(i := c) \<and> p_pid c = of_nat i \<and> p_parent c = parent \<and>
      p_page_directory c = pdir \<and> p_lock c = 0 \<and> c_string (p_name c) = Some s \<and> length (p_name c) = 16 \<and>
      root (memory_contract c) = Null \<and> get_process (of_nat i) st' = Inr (Some i) \<and> get_process (of_nat i) st = Inr None \<and>
      threads st' = threads st \<and> ps_lock st' = ps_lock st"
    by (intro exI [of _ "upd_process i (new_pcb parent pdir s i) st"] exI [of _ ?c])
      (simp add: upd_process_def new_pcb_def vm_contract_init_def)
qed

definition boot_state :: kstate where
  "boot_state = ex_state\<lparr>process_slots := (\<lambda>_. ex_process\<lparr>p_flags := PROCESS_SLOT_EMPTY\<rparr>),
     thread_slots := (\<lambda>i. (ex_thread (of_nat i))\<lparr>t_flags := THREAD_SLOT_EMPTY\<rparr>),
     gst := ex_gst\<lparr>per_cpu_data_base := [ex_cpu\<lparr>pc_scheduler := scheduler_zero\<rparr>]\<rparr>\<rparr>"

theorem process_create_spec_witness:
  "\<exists>st'. process_create None 0x9000 [107, 0] boot_state = Inr (Some 0, st') \<and>
    c_string (p_name (process_slots st' 0)) = Some [107] \<and> get_process 0 st' = Inr (Some 0)"
proof -
  have l: "\<not> lock_held (ps_lock boot_state)" "\<forall>i. length (p_name (process_slots boot_state i)) = 16"
    by (simp_all add: boot_state_def ex_state_def ex_process_def)
  have n: "c_string [107, 0] = Some [107]" "length [107 :: u8] < 16" by simp_all
  have f: "0 < MAX_PROCESS_SLOTS" "\<not> process_used boot_state 0"
    by (simp_all add: MAX_PROCESS_SLOTS_def process_used_def boot_state_def PROCESS_SLOT_EMPTY_def)
  from process_create_spec [OF l n, of 0 None "0x9000"] f show ?thesis by fastforce
qed

section \<open>A new thread runs\<close>

lemma sys_rep_away:
  assumes rep: "sys_rep st v" and x: "v_place v x = Away"
  shows "sys_rep (upd_thread x f st) v"
proof -
  let ?st = "upd_thread x f st"
  have q: "queues st v" and pl: "placed st v" using rep by (simp_all add: sys_rep_def)
  have same: "threads ?st y = threads st y" if "y \<noteq> x" for y using that by simp
  have "queues ?st v"
    unfolding queues_def
  proof (intro conjI allI impI)
    fix c p assume "c < ncpus ?st" "p < (8::nat)"
    then have r: "ready_rep (threads st, ready_heads (sched c st) p, ready_tails (sched c st) p) (v_ready v c p)"
      using q by (simp add: queues_def)
    have "y \<noteq> x" if "y \<in> set (v_ready v c p)" for y using placedD(1) [OF pl, of y c p] that x by auto
    with r show "ready_rep (threads ?st, ready_heads (sched c ?st) p, ready_tails (sched c ?st) p) (v_ready v c p)"
      using ready_rep_cong [of "v_ready v c p" "threads st" "threads ?st"] same by simp
  next
    fix c assume "c < ncpus ?st"
    then show "current_thread (sched c ?st) = v_running v c" using q by (simp add: queues_def)
  next
    fix r
    have w: "wait_rep (threads st, waiting_head (get_sem r st), waiting_tail (get_sem r st)) (v_waiting v r)"
      using q by (simp add: queues_def)
    have "y \<noteq> x" if "y \<in> set (v_waiting v r)" for y using placedD(3) [OF pl, of y r] that x by auto
    with w show "wait_rep (threads ?st, waiting_head (get_sem r ?st), waiting_tail (get_sem r ?st)) (v_waiting v r)"
      using wait_rep_cong [of "v_waiting v r" "threads st" "threads ?st"] same by simp
  qed
  moreover have "placed ?st v"
  proof (rule placedI)
    have at: "y \<noteq> x \<Longrightarrow> cpu_of ?st y = cpu_of st y" "y \<noteq> x \<Longrightarrow> prio_of ?st y = prio_of st y" for y
      by (simp_all add: cpu_of_def prio_of_def)
    fix y :: nat
    show "v_place v y \<noteq> Away \<Longrightarrow> cpu_of ?st y < ncpus ?st \<and> prio_of ?st y < 8"
      using placedD(4) [OF pl, of y] x at [of y] by (cases "y = x") simp_all
    show "v_place v y = Ready c p \<Longrightarrow> c = cpu_of ?st y \<and> p = prio_of ?st y" for c p
      using placedD(5) [OF pl, of y c p] x at [of y] by (cases "y = x") simp_all
    show "v_place v y = Running c \<Longrightarrow> c = cpu_of ?st y \<and> t_next (threads ?st y) = None" for c
      using placedD(6) [OF pl, of y c] x at [of y] by (cases "y = x") simp_all
  qed (use placedD(1-3) [OF pl] in simp_all)
  ultimately show ?thesis by (simp add: sys_rep_def)
qed

text \<open>The registers a new frame gives the processor.\<close>

lemma new_user_regs:
  "r_eip (frame_regs (trap_frame_init_user e kt s) k ss) = e"
  "r_esp (frame_regs (trap_frame_init_user e kt s) k ss) = s"
  "r_cs (frame_regs (trap_frame_init_user e kt s) k ss) = 0x1B"
  "r_ss (frame_regs (trap_frame_init_user e kt s) k ss) = 0x23"
  "r_eflags (frame_regs (trap_frame_init_user e kt s) k ss) = 0x200"
  by (simp_all add: frame_regs_def trap_frame_init_user_def GDT_USER_CS_def GDT_USER_DS_def)

lemma new_kernel_regs:
  "r_eip (frame_regs (trap_frame_init_kernel f e s c) k ss) = e"
  "r_esp (frame_regs (trap_frame_init_kernel f e s c) k ss) = k"
  "r_cs (frame_regs (trap_frame_init_kernel f e s c) k ss) = 8"
  "r_eflags (frame_regs (trap_frame_init_kernel f e s c) k ss) = 0x200"
  "tf_kernel_esp (trap_frame_init_kernel f e s c) + 20 = s - 32"
  "tf_cs (trap_frame_init_kernel f e s c) AND 3 \<noteq> 3"
  by (simp_all add: frame_regs_def trap_frame_init_kernel_def sizeof_trap_frame_kernel_def)

text \<open>
  C15. A thread that is created in the lowest free slot, made ready and started on a processor
  with nothing else to run executes at its entry point with interrupts on and the page directory
  of its process: a user thread in ring 3 on the stack it was given, a kernel thread in ring 0
  on its own stack, 32 bytes below the top.
\<close>

theorem thread_starts:
  assumes rep: "sys_rep st v" and own: "owned st v" and lock: "\<not> lock_held (ts_lock st)"
    and c: "c < ncpus st" "c < 256" and empty: "v_running v c = None" "\<forall>p < 8. v_ready v c p = []"
    and i: "i < MAX_THREAD_SLOTS" "\<not> thread_used st i" "\<forall>j < i. thread_used st j" "v_place v i = Away"
    and prio: "unat prio < 8"
  shows "\<exists>st1 st2 st3. thread_create (Some pp) e s prio k (of_nat c) st = Inr (Some i, st1) \<and>
    scheduler_add_ready i st1 = Inr st2 \<and> scheduler_current_start c st2 = Inr st3 \<and>
    get_thread (of_nat i) st3 = Inr (Some i) \<and>
    cpu_cr3 st3 c = p_page_directory (process_slots st pp) \<and>
    r_eip (cpu_run st3 c) = e \<and> r_eflags (cpu_run st3 c) = 0x200 \<and>
    r_cs (cpu_run st3 c) = (if k = 0 then 0x1B else 8) \<and> r_esp (cpu_run st3 c) = (if k = 0 then s else s - 32)"
proof -
  have uc: "unat (of_nat c :: u8) = c" using c(2) by (simp add: unat_of_nat)
  have idle: "threads_idle k (of_nat c) st" using lock c(1) by (simp add: threads_idle_def uc)
  define f where "f = new_tcb (Some pp) e s prio i k (of_nat c) (pc_common_stack_top (cpus st ! c))"
  define st1 where "st1 = upd_thread i f st"
  have create: "thread_create (Some pp) e s prio k (of_nat c) st = Inr (Some i, st1)"
    using thread_table.try_first [OF idle i(1-3), of "Some pp" e s prio]
      thread_create_static_free [OF idle i(1,2), of "Some pp" e s prio]
    by (simp add: thread_create_def st1_def f_def uc)
  have rep1: "sys_rep st1 v" unfolding st1_def by (rule sys_rep_away [OF rep i(4)])
  have at: "cpu_of st1 i = c" "prio_of st1 i = unat prio" "c < ncpus st1"
    using c(1) by (simp_all add: st1_def f_def new_tcb_def cpu_of_def prio_of_def uc)
  obtain st2 where add: "scheduler_add_ready i st1 = Inr st2" "sys_rep st2 (view_add i c (unat prio) v)" "same_rest st1 st2"
    "\<forall>y. t_frame (threads st2 y) = t_frame (threads st1 y)"
    using add_ready_refines [OF rep1 i(4)] at prio by auto
  define w where "w = view_add i c (unat prio) v"
  have top: "top_queue c w (unat prio)" and hd: "hd (v_ready w c (unat prio)) = i" and run: "v_running w c = None"
    using empty prio by (auto simp: w_def view_add_def upd_view_ready_def top_queue_def)
  have c2: "c < ncpus st2" using same_rest_attrs(3) [OF add(3)] at(3) by simp
  obtain st3 where s3: "scheduler_schedule_thread c st2 = Inr (i, st3)" "sys_rep st3 (view_schedule c (unat prio) w)"
    "same_rest st2 st3" "\<forall>y. t_frame (threads st3 y) = t_frame (threads st2 y)"
    using schedule_refines [OF add(2) [folded w_def] c2 run top] hd by auto
  have r3: "same_rest st1 st3" by (rule same_rest_trans [OF add(3) s3(3)])
  have c3: "c < ncpus st3" using same_rest_attrs(3) [OF r3] at(3) by simp
  have cur: "current_thread (sched c st3) = Some i"
    using s3(2) c3 hd by (simp add: sys_rep_def queues_def view_schedule_def Let_def)
  have par: "t_parent (threads st3 i) = Some pp" "t_is_kernel (threads st3 i) = k" "process_slots st3 = process_slots st"
    using same_rest_attrs(4-6) [OF r3] by (simp_all add: st1_def f_def new_tcb_def)
  have frame: "t_frame (threads st3 i) = t_frame (f (threads st i))"
    using s3(4) add(4) by (simp add: st1_def)
  obtain st4 where x: "scheduler_current_execute c st3 = Inr st4" "threads st4 = threads st3" "resumed st3 c i st4"
    using execute_ok [OF c3 cur par(1)] by blast
  have start: "scheduler_current_start c st2 = Inr st4"
    using c2 s3(1) x(1) by (simp add: scheduler_current_start_def)
  have cr3: "cpu_cr3 st4 c = p_page_directory (process_slots st pp)"
    using x(3) par by (auto simp: resumed_def)
  have regs: "r_eip (cpu_run st4 c) = e \<and> r_eflags (cpu_run st4 c) = 0x200 \<and>
    r_cs (cpu_run st4 c) = (if k = 0 then 0x1B else 8) \<and> r_esp (cpu_run st4 c) = (if k = 0 then s else s - 32)"
  proof (cases "k = 0")
    case True
    then have fr: "t_frame (threads st3 i) = trap_frame_init_user e (pc_common_stack_top (cpus st ! c)) s"
      using frame by (simp add: f_def new_tcb_def)
    obtain ss where "cpu_run st4 c = frame_regs (t_frame (threads st3 i)) (tf_kernel_esp (t_frame (threads st3 i)) + 12) ss"
      using x(3) True par(2) by (auto simp: resumed_def)
    with True show ?thesis unfolding fr by (simp add: new_user_regs)
  next
    case False
    then have fr: "t_frame (threads st3 i) = trap_frame_init_kernel (t_frame (threads st i)) e s (of_nat c)"
      using frame by (simp add: f_def new_tcb_def)
    have "cpu_run st4 c = frame_regs (t_frame (threads st3 i)) (tf_kernel_esp (t_frame (threads st3 i)) + 20)
        (GDT_SS_ENTRY (of_nat c) * 8)"
      using x(3) False par(2) new_kernel_regs(6) unfolding resumed_def fr by simp
    with False show ?thesis unfolding fr by (simp add: new_kernel_regs)
  qed
  have st: "static (threads st3 i) = static (threads st1 i)" using same_rest_static [OF r3] .
  have "t_flags (threads st4 i) = THREAD_NEW"
    using st x(2) by (simp add: static_def st1_def f_def new_tcb_def)
  then have "get_thread (of_nat i) st4 = Inr (Some i)"
    using i(1) by (simp add: get_thread_def MAX_THREAD_SLOTS_def unat_of_nat THREAD_NEW_def THREAD_SLOT_EMPTY_def)
  with create add(1) start cr3 regs show ?thesis by blast
qed

definition boot_view :: view where
  "boot_view = \<lparr>v_ready = (\<lambda>_ _. []), v_running = (\<lambda>_. None), v_waiting = (\<lambda>_. []), v_place = (\<lambda>_. Away)\<rparr>"

lemma boot_parts [simp]:
  "ncpus boot_state = 1" "sched 0 boot_state = scheduler_zero" "mailbox_slots boot_state = ex_mailbox"
  "other_sems boot_state = (\<lambda>_. free_sem 0)" "ts_lock boot_state = 0"
  by (simp_all add: boot_state_def ex_state_def)

lemma boot_rep: "sys_rep boot_state boot_view"
proof -
  have "waiting_head (get_sem r boot_state) = None \<and> waiting_tail (get_sem r boot_state) = None" for r
    by (cases r) (simp_all add: ex_mailbox_def free_sem_def)
  then show ?thesis
    by (simp add: sys_rep_def queues_def placed_def boot_view_def ready_rep_def wait_rep_def scheduler_zero_def)
qed

theorem thread_starts_witness:
  "\<exists>st1 st2 st3. thread_create (Some 0) 0x400000 0xD02000 0 0 0 boot_state = Inr (Some 0, st1) \<and>
    scheduler_add_ready 0 st1 = Inr st2 \<and> scheduler_current_start 0 st2 = Inr st3 \<and>
    r_eip (cpu_run st3 0) = 0x400000 \<and> r_esp (cpu_run st3 0) = 0xD02000"
proof -
  have own: "owned boot_state boot_view" by (simp add: owned_def boot_view_def)
  have v: "v_running boot_view 0 = None" "\<forall>p < 8. v_ready boot_view 0 p = []" "v_place boot_view 0 = Away"
    by (simp_all add: boot_view_def)
  have f: "0 < MAX_THREAD_SLOTS" "\<not> thread_used boot_state 0" "\<forall>j < 0. thread_used boot_state j"
    by (simp_all add: MAX_THREAD_SLOTS_def thread_used_def boot_state_def THREAD_SLOT_EMPTY_def)
  have c: "0 < ncpus boot_state" "0 < (256 :: nat)" "\<not> lock_held (ts_lock boot_state)" "unat (0 :: u32) < 8" by simp_all
  from thread_starts [OF boot_rep own c(3) c(1,2) v(1,2) f v(3) c(4), of 0 "0x400000" "0xD02000" 0]
  show ?thesis by fastforce
qed

end
