(* ===== verification/Ipc_Props.thy ===== *)
theory Ipc_Props
  imports Kernel_Deliver
begin

text \<open>
  Properties of messages: a message sent to a thread's mailbox comes back from it unchanged; a
  second send before that is stopped in time only when the interrupt it sends to its own
  processor is taken at once.
\<close>

unbundle bit_operations_syntax

section \<open>Mailboxes of threads\<close>

definition quiet :: "u32 \<Rightarrow> semaphore \<Rightarrow> bool" where
  "quiet n s \<longleftrightarrow> \<not> lock_held (sem_lock s) \<and> sem_count s = n \<and> waiting_head s = None \<and> waiting_tail s = None"

definition empty_box :: "kstate \<Rightarrow> nat \<Rightarrow> bool" where
  "empty_box st m \<longleftrightarrow> mb_type (mailbox_slots st m) = MAILBOX_THREAD \<and>
     quiet 1 (sem_rdy (mailbox_slots st m)) \<and> quiet 0 (sem_recv (mailbox_slots st m))"

definition full_box :: "kstate \<Rightarrow> nat \<Rightarrow> message \<Rightarrow> bool" where
  "full_box st m msg \<longleftrightarrow> mb_type (mailbox_slots st m) = MAILBOX_THREAD \<and> mb_message (mailbox_slots st m) = msg \<and>
     quiet 0 (sem_rdy (mailbox_slots st m)) \<and> quiet 1 (sem_recv (mailbox_slots st m))"

text \<open>Everything but the mailbox \<open>m\<close> is the same.\<close>

definition only_box :: "nat \<Rightarrow> kstate \<Rightarrow> kstate \<Rightarrow> bool" where
  "only_box m st st' \<longleftrightarrow> (\<exists>f. st' = upd_mailbox m f st)"

lemma only_box_refl [simp]: "only_box m st st"
  unfolding only_box_def by (rule exI [of _ "\<lambda>x. x"]) (simp add: upd_mailbox_def)

lemma only_box_trans [trans]: "only_box m a b \<Longrightarrow> only_box m b c \<Longrightarrow> only_box m a c"
proof -
  assume "only_box m a b" "only_box m b c"
  then obtain f g where "b = upd_mailbox m f a" "c = upd_mailbox m g b" by (auto simp: only_box_def)
  then have "c = upd_mailbox m (g \<circ> f) a" by (simp add: upd_mailbox_def)
  then show ?thesis by (auto simp: only_box_def)
qed

lemma only_box_upd: "only_box m a b \<Longrightarrow> only_box m a (upd_mailbox m f b)"
  by (rule only_box_trans) (auto simp: only_box_def)

lemma upd_sem_box:
  "upd_sem (Sem_rdy m) f st = upd_mailbox m (\<lambda>mb. mb\<lparr>sem_rdy := f (sem_rdy mb)\<rparr>) st"
  "upd_sem (Sem_recv m) f st = upd_mailbox m (\<lambda>mb. mb\<lparr>sem_recv := f (sem_recv mb)\<rparr>) st"
  by (simp_all add: upd_sem_def upd_mailbox_def)

lemma send_to_thread:
  assumes box: "empty_box st m" and m: "m < 65535" and dst: "msg_dst msg = of_nat m"
  shows "\<exists>st'. send (Suc n) me now msg st = Inr (Some ERROR_OK, st') \<and> full_box st' m msg \<and> only_box m st st'"
proof -
  have gm: "get_mailbox (msg_dst msg) st = Inr (Some m)"
    using box m by (simp add: get_mailbox_def dst unat_of_nat MAX_MAILBOX_SLOTS_def empty_box_def MAILBOX_THREAD_def)
  define s1 where "s1 = upd_mailbox m (\<lambda>mb. mb\<lparr>sem_rdy := (sem_rdy mb)\<lparr>sem_count := sem_count (sem_rdy mb) - 1\<rparr>\<rparr>) st"
  define s2 where "s2 = upd_mailbox m (\<lambda>mb. mb\<lparr>mb_message := msg\<rparr>) s1"
  define s3 where "s3 = upd_mailbox m (\<lambda>mb. mb\<lparr>sem_recv := (sem_recv mb)\<lparr>sem_count := sem_count (sem_recv mb) + 1\<rparr>\<rparr>) s2"
  have w: "semaphore_wait_by f me (Sem_rdy m) st = Inr (Passed, s1)" for f
    using box by (subst semaphore_wait_pass) (simp_all add: empty_box_def quiet_def s1_def upd_sem_box)
  have g: "semaphore_signal_by f me (Sem_recv m) s2 = Inr s3" for f
    using box
    by (subst semaphore_signal_count) (simp_all add: empty_box_def quiet_def s1_def s2_def s3_def upd_sem_box upd_mailbox_def)
  have "send (Suc n) me now msg st = Inr (Some ERROR_OK, s3)"
    using gm box
    by (simp add: empty_box_def MAILBOX_CPU_def MAILBOX_THREAD_def send_mail_thread_def send_mail_thread_after_def w g
        left_at_wait_def s2_def [symmetric])
  moreover have "full_box s3 m msg"
    using box by (simp add: full_box_def empty_box_def quiet_def s1_def s2_def s3_def upd_mailbox_def)
  moreover have "only_box m st s3"
    unfolding s1_def s2_def s3_def by (intro only_box_upd only_box_refl)
  ultimately show ?thesis by blast
qed

lemma receive_by_thread:
  assumes box: "full_box st m msg"
  shows "\<exists>st'. receive n me now (Some m) st = Inr (Got ERROR_OK (Some msg), st') \<and> empty_box st' m \<and> only_box m st st'"
proof -
  define s1 where "s1 = upd_mailbox m (\<lambda>mb. mb\<lparr>sem_recv := (sem_recv mb)\<lparr>sem_count := sem_count (sem_recv mb) - 1\<rparr>\<rparr>) st"
  define s2 where "s2 = upd_mailbox m (\<lambda>mb. mb\<lparr>sem_rdy := (sem_rdy mb)\<lparr>sem_count := sem_count (sem_rdy mb) + 1\<rparr>\<rparr>) s1"
  have w: "semaphore_wait_by f me (Sem_recv m) st = Inr (Passed, s1)" for f
    using box by (subst semaphore_wait_pass) (simp_all add: full_box_def quiet_def s1_def upd_sem_box)
  have g: "semaphore_signal_by f me (Sem_rdy m) s1 = Inr s2" for f
    using box
    by (subst semaphore_signal_count) (simp_all add: full_box_def quiet_def s1_def s2_def upd_sem_box upd_mailbox_def)
  have msg: "mb_message (mailbox_slots s1 m) = msg" using box by (simp add: full_box_def s1_def upd_mailbox_def)
  have "receive n me now (Some m) st = Inr (Got ERROR_OK (Some msg), s2)"
    using box
    by (simp add: receive_def full_box_def MAILBOX_CPU_def MAILBOX_THREAD_def recv_mail_thread_def recv_mail_thread_after_def
        left_at_wait_def w g msg Let_def)
  moreover have "empty_box s2 m"
    using box by (simp add: full_box_def empty_box_def quiet_def s1_def s2_def upd_mailbox_def)
  moreover have "only_box m st s2"
    unfolding s1_def s2_def by (intro only_box_upd only_box_refl)
  ultimately show ?thesis by blast
qed

text \<open>
  A send to a full mailbox posts the sender's wait to its own processor; what follows depends on
  the interrupt.
\<close>

definition asks_to_wait :: "nat \<Rightarrow> nat \<Rightarrow> kstate \<Rightarrow> kstate" where
  "asks_to_wait me m st = post me (cpu_message me (of_nat me) CM_SEM_WAIT (Sem_ptr (Sem_rdy m)))
     (upd_sem (Sem_rdy m) (\<lambda>s. s\<lparr>sem_lock := sem_lock s OR 1\<rparr>) st)"

lemma send_thread_box:
  "get_mailbox (msg_dst msg) st = Inr (Some m) \<Longrightarrow> mb_type (mailbox_slots st m) = MAILBOX_THREAD \<Longrightarrow>
    send (Suc n) me now msg st = send_mail_thread (send_by n me) me now m msg st"
  by (simp add: send_by_def [abs_def] MAILBOX_CPU_def MAILBOX_THREAD_def)

lemma send_to_full:
  assumes box: "full_box st m old" and m: "m < 65535" and dst: "msg_dst msg = of_nat m"
    and boxes: "cpu_boxes st" and me: "me < ncpus st" "ncpus st \<le> m" and free: "\<not> pending st me"
  shows "send (Suc (Suc n)) me now msg st =
    (if now then Inr (None, asks_to_wait me m st)
     else res_bind (send_mail_thread_after (send_by (Suc n) me) me m msg (asks_to_wait me m st))
       (\<lambda>(e, st). Inr (Some e, st)))"
proof -
  let ?msg = "cpu_message me (of_nat me) CM_SEM_WAIT (Sem_ptr (Sem_rdy m))"
  let ?st = "upd_sem (Sem_rdy m) (\<lambda>s. s\<lparr>sem_lock := sem_lock s OR 1\<rparr>) st"
  have gm: "get_mailbox (msg_dst msg) st = Inr (Some m)"
    using box m by (simp add: get_mailbox_def dst unat_of_nat MAX_MAILBOX_SLOTS_def full_box_def MAILBOX_THREAD_def)
  have bs: "cpu_boxes ?st" using boxes by (simp add: cpu_boxes_def)
  have "\<not> pending ?st me"
    by (subst pending_upd_sem [of "ncpus st"]) (use me free in simp_all)
  then have "send_by (Suc n) me ?msg ?st = Inr (ERROR_OK, asks_to_wait me m st)"
    unfolding send_by_def using me(1)
    by (subst send_to_cpu [OF bs, of me]) (simp_all add: cpu_message_def asks_to_wait_def del: send.simps)
  moreover have "semaphore_wait_by f me (Sem_rdy m) st = res_bind (f ?msg ?st) (\<lambda>(_, st). Inr (Posted, st))" for f
    using box by (intro semaphore_wait_block) (simp_all add: full_box_def quiet_def)
  moreover have "left_at_wait now me Posted (asks_to_wait me m st) = now"
    by (simp add: left_at_wait_def asks_to_wait_def post_def send_ipi_def)
  ultimately show ?thesis
    using box by (simp add: send_thread_box [OF gm] full_box_def send_mail_thread_def del: send.simps)
qed

lemma asks_to_wait_parts:
  assumes "me < ncpus st" "ncpus st \<le> m"
  shows "mb_message (mailbox_slots (asks_to_wait me m st) m) = mb_message (mailbox_slots st m)"
    "sem_recv (mailbox_slots (asks_to_wait me m st) m) = sem_recv (mailbox_slots st m)"
    "pending (asks_to_wait me m st) me"
    "ipis (asks_to_wait me m st) = ipis st @ [(of_nat me AND 0x0F, 100)]"
  using assms by (auto simp: asks_to_wait_def post_def send_ipi_def upd_mailbox_def pending_def upd_sem_box)

text \<open>The sender that is not stopped in time copies its message over the one in the mailbox.\<close>

lemma send_after_full:
  assumes box: "quiet 1 (sem_recv (mailbox_slots st m))" and c: "me < m" "pending st me"
  shows "\<exists>st'. send_mail_thread_after f me m msg st = Inr (ERROR_OK, st') \<and>
    mb_message (mailbox_slots st' m) = msg \<and> pending st' me \<and> ipis st' = ipis st"
proof -
  define s2 where "s2 = upd_mailbox m (\<lambda>mb. mb\<lparr>mb_message := msg\<rparr>) st"
  define s3 where "s3 = upd_mailbox m (\<lambda>mb. mb\<lparr>sem_recv := (sem_recv mb)\<lparr>sem_count := sem_count (sem_recv mb) + 1\<rparr>\<rparr>) s2"
  have "semaphore_signal_by f me (Sem_recv m) s2 = Inr s3"
    using box by (subst semaphore_signal_count) (simp_all add: quiet_def s2_def s3_def upd_sem_box upd_mailbox_def)
  then have "send_mail_thread_after f me m msg st = Inr (ERROR_OK, s3)"
    by (simp add: send_mail_thread_after_def s2_def [symmetric])
  then show ?thesis using c by (simp add: s3_def s2_def upd_mailbox_def pending_def)
qed

text \<open>
  C17. A send to the empty mailbox of a thread stores the message and returns; the receive takes
  exactly this message and leaves the mailbox empty; neither touches anything but the mailbox.  A
  second send before the receive asks its own processor to stop the sender.  If the interrupt of
  this request is taken at once the sender is suspended and the first message stays; if it is late
  the send answers ERROR_OK, the first message is overwritten, and the request is still on its
  way.
\<close>

theorem mailbox_roundtrip:
  assumes "empty_box st m" "m < 65535" "msg_dst msg = of_nat m"
  shows "\<exists>st1 st2. send (Suc n) me now msg st = Inr (Some ERROR_OK, st1) \<and> only_box m st st1 \<and>
    receive k you later (Some m) st1 = Inr (Got ERROR_OK (Some msg), st2) \<and> only_box m st st2 \<and> empty_box st2 m \<and>
    (cpu_boxes st \<longrightarrow> me < ncpus st \<longrightarrow> ncpus st \<le> m \<longrightarrow> \<not> pending st me \<longrightarrow> msg_dst msg2 = of_nat m \<longrightarrow>
      (\<exists>st3. send (Suc (Suc n)) me True msg2 st1 = Inr (None, st3) \<and> mb_message (mailbox_slots st3 m) = msg \<and>
        pending st3 me \<and> ipis st3 = ipis st @ [(of_nat me AND 0x0F, 100)]) \<and>
      (\<exists>st4. send (Suc (Suc n)) me False msg2 st1 = Inr (Some ERROR_OK, st4) \<and> mb_message (mailbox_slots st4 m) = msg2 \<and>
        pending st4 me \<and> ipis st4 = ipis st @ [(of_nat me AND 0x0F, 100)]))"
proof -
  obtain st1 where s1: "send (Suc n) me now msg st = Inr (Some ERROR_OK, st1)" "full_box st1 m msg" "only_box m st st1"
    using send_to_thread [OF assms, of n me now] by blast
  obtain st2 where s2: "receive k you later (Some m) st1 = Inr (Got ERROR_OK (Some msg), st2)" "empty_box st2 m" "only_box m st1 st2"
    using receive_by_thread [OF s1(2), of k you later] by blast
  have "(\<exists>st3. send (Suc (Suc n)) me True msg2 st1 = Inr (None, st3) \<and> mb_message (mailbox_slots st3 m) = msg \<and>
        pending st3 me \<and> ipis st3 = ipis st @ [(of_nat me AND 0x0F, 100)]) \<and>
      (\<exists>st4. send (Suc (Suc n)) me False msg2 st1 = Inr (Some ERROR_OK, st4) \<and> mb_message (mailbox_slots st4 m) = msg2 \<and>
        pending st4 me \<and> ipis st4 = ipis st @ [(of_nat me AND 0x0F, 100)])"
    if h: "cpu_boxes st" "me < ncpus st" "ncpus st \<le> m" "\<not> pending st me" "msg_dst msg2 = of_nat m"
  proof -
    obtain f where f: "st1 = upd_mailbox m f st" using s1(3) by (auto simp: only_box_def)
    have st1: "cpu_boxes st1" "me < ncpus st1" "ncpus st1 \<le> m" "\<not> pending st1 me" and ip: "ipis st1 = ipis st"
      using h by (auto simp: f cpu_boxes_def upd_mailbox_def pending_def)
    note full = send_to_full [OF s1(2) assms(2) h(5) st1, of n] and parts = asks_to_wait_parts [OF st1(2,3)]
    have "quiet 1 (sem_recv (mailbox_slots (asks_to_wait me m st1) m))" using s1(2) by (simp add: parts(2) full_box_def)
    from send_after_full [OF this _ parts(3), of "send_by (Suc n) me" msg2] show ?thesis
      using s1(2) h(2,3) full [of True] full [of False] parts ip by (auto simp: full_box_def simp del: send.simps)
  qed
  then show ?thesis using s1 s2 only_box_trans [OF s1(3) s2(3)] by blast
qed

theorem mailbox_roundtrip_witness:
  "\<exists>st1 st2 st4. send (Suc 0) 0 True (no_message\<lparr>msg_dst := 1, msg_func := 7\<rparr>) ex_state = Inr (Some ERROR_OK, st1) \<and>
    receive 1 0 True (Some 1) st1 = Inr (Got ERROR_OK (Some (no_message\<lparr>msg_dst := 1, msg_func := 7\<rparr>)), st2) \<and>
    send 2 0 False (no_message\<lparr>msg_dst := 1, msg_func := 8\<rparr>) st1 = Inr (Some ERROR_OK, st4) \<and>
    mb_message (mailbox_slots st4 1) = no_message\<lparr>msg_dst := 1, msg_func := 8\<rparr>"
proof -
  have b: "empty_box ex_state 1" by (simp add: empty_box_def quiet_def ex_mailbox_def free_sem_def)
  have d: "msg_dst (no_message\<lparr>msg_dst := 1, msg_func := f\<rparr>) = of_nat 1" for f by simp
  have inv: "cpu_boxes ex_state" "\<not> pending ex_state 0" by (simp_all add: cpu_boxes_def pending_def ex_mailbox_def ex_cpu_def free_sem_def)
  from mailbox_roundtrip [OF b _ d [of 7], of 0 0 True 1 0 True "no_message\<lparr>msg_dst := 1, msg_func := 8\<rparr>"] inv
  show ?thesis by (auto simp: numeral_2_eq_2 simp del: send.simps)
qed

end
