(* ===== verification/Calendar.thy ===== *)
theory Calendar
  imports Kernel_State
begin

text \<open>
  Dates: the weekday of \<^verbatim>\<open>time.c\<close> and the reading of the battery clock in \<^verbatim>\<open>rtc.c\<close>.
  The clock chip is a parameter: what its register holds at the \<open>n\<close>-th read.  Its registers
  may change between reads, and a loop that waits for it may wait for ever.
\<close>

unbundle bit_operations_syntax

section \<open>Weekdays\<close>

definition weekday_e :: "u8 list" where "weekday_e = [- 1, 0, 3, 2, 5, 0, 3, 5, 1, 4, 6, 2, 4]"
definition f_gregorian :: "u8 list" where "f_gregorian = [0, 5, 3, 1]"

text \<open>\<open>c\<close>, \<open>g\<close> and the sum are unsigned 32-bit numbers; \<^verbatim>\<open>year - 1\<close> is an int.\<close>

definition time_get_weekday :: "u16 \<Rightarrow> u8 \<Rightarrow> u8 \<Rightarrow> u8 res" where
  "time_get_weekday year month day =
     (let y = uint year;
          c = (if month \<ge> 3 then word_of_int (y div 100 * 100) else word_of_int (c_div (y - 1) 100)) :: u32;
          g = (if month \<ge> 3 then word_of_int y - 100 * c else word_of_int (y - 1) - 100 * c) :: u32 in
      res_bind (arr_get weekday_e (unat month)) (\<lambda>e.
      res_bind (arr_get f_gregorian (unat (c mod 4))) (\<lambda>f.
        Inr (ucast ((ucast day + ucast e + ucast f + g + g div 4) mod 7)))))"

section \<open>The clock chip\<close>

definition RTC_REG_SEC :: u16 where "RTC_REG_SEC = 0"
definition RTC_REG_MIN :: u16 where "RTC_REG_MIN = 2"
definition RTC_REG_HOUR :: u16 where "RTC_REG_HOUR = 4"
definition RTC_REG_DAY :: u16 where "RTC_REG_DAY = 7"
definition RTC_REG_MONTH :: u16 where "RTC_REG_MONTH = 8"
definition RTC_REG_YEAR :: u16 where "RTC_REG_YEAR = 9"
definition RTC_REG_CENTURY :: u16 where "RTC_REG_CENTURY = 0x32"
definition RTC_STATUS_A :: u16 where "RTC_STATUS_A = 10"
definition RTC_STATUS_B :: u16 where "RTC_STATUS_B = 11"
definition RTC_FORMAT_24 :: u8 where "RTC_FORMAT_24 = 2"
definition RTC_FORMAT_BCD :: u8 where "RTC_FORMAT_BCD = 4"
definition RTC_PM_BIT :: u8 where "RTC_PM_BIT = 0x80"

text \<open>\<open>cmos n r\<close>: what the \<open>n\<close>-th read of the data port answers after register \<open>r\<close> was selected.\<close>

type_synonym cmos = "nat \<Rightarrow> u16 \<Rightarrow> u8"

definition to_binary :: "u32 \<Rightarrow> u32" where
  "to_binary bcd = drop_bit 1 (bcd AND 0xF0) + drop_bit 3 (bcd AND 0xF0) + (bcd AND 0xF)"

definition rtc_read_cmos :: "cmos \<Rightarrow> u16 \<Rightarrow> nat \<Rightarrow> u8 \<times> nat" where
  "rtc_read_cmos cmos reg n = (cmos n reg, Suc n)"

definition rtc_read_prog_flag :: "cmos \<Rightarrow> nat \<Rightarrow> u8 \<times> nat" where
  "rtc_read_prog_flag cmos n = (cmos n RTC_STATUS_A AND 0x80, Suc n)"

definition rtc_is_bcd :: "u8 \<Rightarrow> bool" where "rtc_is_bcd s \<longleftrightarrow> s AND RTC_FORMAT_BCD \<noteq> 0"
definition rtc_is_24 :: "u8 \<Rightarrow> bool" where "rtc_is_24 s \<longleftrightarrow> s AND RTC_FORMAT_24 \<noteq> 0"
definition rtc_get_hour :: "u8 \<Rightarrow> u8" where "rtc_get_hour h = h AND NOT RTC_PM_BIT"
definition rtc_get_mode :: "u8 \<Rightarrow> u8" where "rtc_get_mode h = h AND RTC_PM_BIT"

text \<open>\<^verbatim>\<open>while(rtc_read_prog_flag());\<close>\<close>

partial_function (option) rtc_wait :: "cmos \<Rightarrow> nat \<Rightarrow> nat option" where
  "rtc_wait cmos n = (case rtc_read_prog_flag cmos n of (f, n) \<Rightarrow> if f \<noteq> 0 then rtc_wait cmos n else Some n)"

text \<open>The six registers that are read together.\<close>

record rtc_fields =
  f_second :: u8
  f_minute :: u8
  f_hour :: u8
  f_day :: u8
  f_month :: u8
  f_year :: u8

definition rtc_read_fields :: "cmos \<Rightarrow> nat \<Rightarrow> rtc_fields \<times> nat" where
  "rtc_read_fields cmos n =
     (let (s, n) = rtc_read_cmos cmos RTC_REG_SEC n; (m, n) = rtc_read_cmos cmos RTC_REG_MIN n;
          (h, n) = rtc_read_cmos cmos RTC_REG_HOUR n; (d, n) = rtc_read_cmos cmos RTC_REG_DAY n;
          (mo, n) = rtc_read_cmos cmos RTC_REG_MONTH n; (y, n) = rtc_read_cmos cmos RTC_REG_YEAR n
      in (\<lparr>f_second = s, f_minute = m, f_hour = h, f_day = d, f_month = mo, f_year = y\<rparr>, n))"

text \<open>The do loop: read until two readings agree.\<close>

partial_function (option) rtc_settle :: "cmos \<Rightarrow> rtc_fields \<Rightarrow> nat \<Rightarrow> (rtc_fields \<times> nat) option" where
  "rtc_settle cmos prev n =
     (case rtc_wait cmos n of
        None \<Rightarrow> None
      | Some n \<Rightarrow>
          (case rtc_read_fields cmos n of (f, n) \<Rightarrow> if f \<noteq> prev then rtc_settle cmos f n else Some (f, n)))"

definition rtc_to_binary :: "rtc_fields \<Rightarrow> rtc_fields" where
  "rtc_to_binary f =
     \<lparr>f_second = ucast (to_binary (ucast (f_second f))), f_minute = ucast (to_binary (ucast (f_minute f))),
      f_hour = ucast (to_binary (ucast (rtc_get_hour (f_hour f))) OR ucast (rtc_get_mode (f_hour f))),
      f_day = ucast (to_binary (ucast (f_day f))), f_month = ucast (to_binary (ucast (f_month f))),
      f_year = ucast (to_binary (ucast (f_year f)))\<rparr>"

text \<open>\<open>c_mod\<close> of the ints: the hour is at most 127 and the remainder is that of numbers.\<close>

definition rtc_to_24 :: "u8 \<Rightarrow> rtc_fields \<Rightarrow> rtc_fields" where
  "rtc_to_24 register_b f =
     (if \<not> rtc_is_24 register_b \<and> rtc_get_mode (f_hour f) \<noteq> 0
      then f\<lparr>f_hour := word_of_int ((uint (rtc_get_hour (f_hour f)) + 12) mod 24)\<rparr> else f)"

text \<open>The time of the chip; the answer counts the reads done.\<close>

definition rtc_read_time :: "cmos \<Rightarrow> nat \<Rightarrow> ktime \<Rightarrow> (ktime \<times> nat) res" where
  "rtc_read_time cmos n time =
     res_bind (returns (rtc_wait cmos n)) (\<lambda>n.
       let (f, n) = rtc_read_fields cmos n;
           (century, n) = rtc_read_cmos cmos RTC_REG_CENTURY n in
       res_bind (returns (rtc_settle cmos f n)) (\<lambda>(f, n).
         let (register_b, n) = rtc_read_cmos cmos RTC_STATUS_B n;
             f = (if \<not> rtc_is_bcd register_b then rtc_to_binary f else f);
             f = rtc_to_24 register_b f in
         res_bind (time_get_weekday (ucast (f_year f)) (f_month f) (f_day f)) (\<lambda>w.
           Inr (\<lparr>kt_msec = 0, kt_sec = f_second f, kt_min = f_minute f, kt_hour = f_hour f, kt_day = f_day f,
             kt_month = f_month f, kt_year = ucast (ucast (f_year f) + (2000 :: u32)), kt_weekday = w\<rparr>, n))))"

section \<open>The calendar\<close>

text \<open>Days from 1 January 2000, a Saturday, to a date of the years 2000 to 2099.\<close>

definition month_days :: "nat list" where
  "month_days = [0, 31, 59, 90, 120, 151, 181, 212, 243, 273, 304, 334]"

definition days_since_2000 :: "nat \<Rightarrow> nat \<Rightarrow> nat \<Rightarrow> nat" where
  "days_since_2000 y m d = 365 * y + (y + 3) div 4 + month_days ! (m - 1) +
     (if m > 2 \<and> y mod 4 = 0 then 1 else 0) + (d - 1)"

definition calendar_weekday :: "nat \<Rightarrow> nat \<Rightarrow> nat \<Rightarrow> nat" where
  "calendar_weekday y m d = (6 + days_since_2000 y m d) mod 7"

text \<open>The code's terms for a month, with the century out of the way.\<close>

lemma late_month:
  assumes "month_days ! (m - 1) + 6 = 7 * k + e" "3 \<le> m" "1 \<le> d"
  shows "(d + e + y + y div 4) mod 7 = calendar_weekday y m d"
proof -
  have "(y + 3) div 4 + (if y mod 4 = 0 then 1 else 0) = y div 4 + 1" by presburger
  then have "6 + days_since_2000 y m d = (d + e + y + y div 4) + 7 * (k + 52 * y)"
    using assms by (simp add: days_since_2000_def split: if_splits)
  then show ?thesis unfolding calendar_weekday_def by (simp only: mod_mult_self2)
qed

lemma early_month:
  assumes "month_days ! (m - 1) = 7 * k + e" "m < 3" "1 \<le> d" "1 \<le> y"
  shows "(d + e + (y - 1) + (y - 1) div 4) mod 7 = calendar_weekday y m d"
proof -
  have "(y + 3) div 4 = (y - 1) div 4 + 1" using assms(4) by presburger
  then have "6 + days_since_2000 y m d = (d + e + (y - 1) + (y - 1) div 4) + 7 * (k + 52 * y + 1)"
    using assms by (simp add: days_since_2000_def)
  then show ?thesis unfolding calendar_weekday_def by (simp only: mod_mult_self2)
qed

lemma month_terms:
  assumes "1 \<le> m" "m \<le> 12"
  shows "\<exists>k e. month_days ! (m - 1) + (if 3 \<le> m then 6 else 0) = 7 * k + e \<and> e < 7 \<and> weekday_e ! m = of_nat e"
proof -
  have "m \<in> set [1..<13]" using assms by simp
  moreover have "\<forall>m \<in> set [1..<13]. month_days ! (m - 1) + (if 3 \<le> m then 6 else 0) =
      7 * ((month_days ! (m - 1) + (if 3 \<le> m then 6 else 0)) div 7) + unat (weekday_e ! m) \<and> unat (weekday_e ! m) < 7"
    by (simp add: upt_rec month_days_def weekday_e_def)
  ultimately have "month_days ! (m - 1) + (if 3 \<le> m then 6 else 0) =
      7 * ((month_days ! (m - 1) + (if 3 \<le> m then 6 else 0)) div 7) + unat (weekday_e ! m) \<and> unat (weekday_e ! m) < 7" by blast
  then show ?thesis
    by (intro exI [of _ "(month_days ! (m - 1) + (if 3 \<le> m then 6 else 0)) div 7"] exI [of _ "unat (weekday_e ! m)"]) simp
qed

lemma of_nat_mod_7: "n < 4294967296 \<Longrightarrow> (of_nat n :: u32) mod 7 = of_nat (n mod 7)"
  by (simp add: word_unat_eq_iff unat_mod unat_of_nat)

lemma ucast_small: "k < 256 \<Longrightarrow> (ucast (of_nat k :: u32) :: u8) = of_nat k"
  by (simp add: unsigned_of_nat take_bit_nat_eq_self)

lemma weekday_sum:
  assumes "d < 256" "e < 7" "y < 100"
  shows "ucast (((ucast (of_nat d :: u8) + ucast (of_nat e :: u8) + ucast (0 :: u8) + of_nat y + of_nat y div 4) :: u32) mod 7) =
    (of_nat ((d + e + y + y div 4) mod 7) :: u8)"
proof -
  have "((ucast (of_nat d :: u8) + ucast (of_nat e :: u8) + ucast (0 :: u8) + of_nat y + of_nat y div 4) :: u32) =
      of_nat (d + e + y + y div 4)"
    using assms by (simp add: word_unat_eq_iff unat_word_ariths unat_of_nat unat_div unsigned_ucast_eq take_bit_nat_eq_self)
  moreover have "(of_nat (d + e + y + y div 4) :: u32) mod 7 = of_nat ((d + e + y + y div 4) mod 7)"
    using assms by (intro of_nat_mod_7) simp
  moreover have "(d + e + y + y div 4) mod 7 < 256" by (rule less_trans [of _ 7]) simp_all
  ultimately show ?thesis by (simp only: ucast_small)
qed


lemma weekday_month:
  assumes m: "1 \<le> m" "m \<le> 12" and e: "weekday_e ! m = of_nat e" and y: "y < 100" "3 \<le> m \<or> 1 \<le> y"
  shows "time_get_weekday (of_nat y) (of_nat m) d = Inr (ucast ((ucast d + ucast (of_nat e :: u8) + ucast (0 :: u8) +
    of_nat (if 3 \<le> m then y else y - 1) + of_nat (if 3 \<le> m then y else y - 1) div 4 :: u32) mod 7))"
proof -
  have uy: "uint (of_nat y :: u16) = int y" using y by (simp add: uint_nat unat_of_nat)
  have um: "unat (of_nat m :: u8) = m" "(of_nat m :: u8) \<ge> 3 \<longleftrightarrow> 3 \<le> m" using m by (simp_all add: unat_of_nat word_le_nat_alt)
  have ga: "arr_get weekday_e m = Inr (of_nat e)" using m e by (simp add: weekday_e_def arr_get_def)
  show ?thesis
  proof (cases "3 \<le> m")
    case True
    have "int y div 100 = 0" using y by simp
    then show ?thesis using True um ga by (simp add: time_get_weekday_def uy f_gregorian_def arr_get_def Let_def)
  next
    case False
    then have y1: "1 \<le> y" using y(2) by simp
    have "c_div (int y - 1) 100 = 0" using y(1) y1 by (simp add: c_div_def)
    moreover have "(word_of_int (int y - 1) :: u32) = of_nat (y - 1)" using y1 by (simp add: of_nat_diff)
    ultimately show ?thesis using False um ga by (simp add: time_get_weekday_def uy f_gregorian_def arr_get_def Let_def)
  qed
qed

lemma weekday_calendar:
  assumes m: "1 \<le> m" "m \<le> 12" and d: "1 \<le> d" "d \<le> 31" and y: "y < 100" "3 \<le> m \<or> 1 \<le> y"
  shows "time_get_weekday (of_nat y) (of_nat m) (of_nat d) = Inr (of_nat (calendar_weekday y m d))"
proof -
  obtain k e where e: "month_days ! (m - 1) + (if 3 \<le> m then 6 else 0) = 7 * k + e" "e < 7" "weekday_e ! m = of_nat e"
    using month_terms [OF m] by blast
  have d256: "d < 256" using d by simp
  show ?thesis
  proof (cases "3 \<le> m")
    case True
    then show ?thesis
      using weekday_month [OF m e(3) y, of "of_nat d"] weekday_sum [OF d256 e(2) y(1)] late_month [of m k e d y] e(1) d by simp
  next
    case False
    then have "y - 1 < 100" "1 \<le> y" using y by simp_all
    then show ?thesis
      using False weekday_month [OF m e(3) y, of "of_nat d"] weekday_sum [OF d256 e(2), of "y - 1"]
        early_month [of m k e d y] e(1) d by simp
  qed
qed


section \<open>A chip that stands still\<close>

definition rtc_encode :: "bool \<Rightarrow> nat \<Rightarrow> u8" where
  "rtc_encode binary x = (if binary then of_nat x else of_nat (16 * (x div 10) + x mod 10))"

definition rtc_encode_hour :: "bool \<Rightarrow> bool \<Rightarrow> nat \<Rightarrow> u8" where
  "rtc_encode_hour binary h24 h =
     (if h24 then rtc_encode binary h
      else rtc_encode binary (if h mod 12 = 0 then 12 else h mod 12) OR (if h \<ge> 12 then RTC_PM_BIT else 0))"

text \<open>The registers of a chip that shows a date and time in one of the four formats.\<close>

definition shows_time :: "(u16 \<Rightarrow> u8) \<Rightarrow> bool \<Rightarrow> bool \<Rightarrow> nat \<Rightarrow> nat \<Rightarrow> nat \<Rightarrow> nat \<Rightarrow> nat \<Rightarrow> nat \<Rightarrow> bool" where
  "shows_time regs binary h24 y m d h mi s \<longleftrightarrow>
     regs RTC_STATUS_A AND 0x80 = 0 \<and> rtc_is_bcd (regs RTC_STATUS_B) = binary \<and> rtc_is_24 (regs RTC_STATUS_B) = h24 \<and>
     regs RTC_REG_YEAR = rtc_encode binary y \<and> regs RTC_REG_MONTH = rtc_encode binary m \<and>
     regs RTC_REG_DAY = rtc_encode binary d \<and> regs RTC_REG_HOUR = rtc_encode_hour binary h24 h \<and>
     regs RTC_REG_MIN = rtc_encode binary mi \<and> regs RTC_REG_SEC = rtc_encode binary s"

definition chip_fields :: "(u16 \<Rightarrow> u8) \<Rightarrow> rtc_fields" where
  "chip_fields regs = \<lparr>f_second = regs RTC_REG_SEC, f_minute = regs RTC_REG_MIN, f_hour = regs RTC_REG_HOUR,
     f_day = regs RTC_REG_DAY, f_month = regs RTC_REG_MONTH, f_year = regs RTC_REG_YEAR\<rparr>"

lemma rtc_wait_still: "\<forall>k \<ge> n. cmos k = regs \<Longrightarrow> regs RTC_STATUS_A AND 0x80 = 0 \<Longrightarrow> rtc_wait cmos n = Some (Suc n)"
  by (subst rtc_wait.simps) (simp add: rtc_read_prog_flag_def)

lemma rtc_fields_still: "\<forall>k \<ge> n. cmos k = regs \<Longrightarrow> rtc_read_fields cmos n = (chip_fields regs, n + 6)"
  by (simp add: rtc_read_fields_def rtc_read_cmos_def chip_fields_def)

lemma rtc_settle_still:
  assumes "\<forall>k \<ge> n. cmos k = regs" "regs RTC_STATUS_A AND 0x80 = 0"
  shows "rtc_settle cmos (chip_fields regs) n = Some (chip_fields regs, n + 7)"
  using assms rtc_wait_still [of n cmos regs] rtc_fields_still [of "Suc n" cmos regs]
  by (subst rtc_settle.simps) simp

lemma to_binary_bcd: "x < 100 \<Longrightarrow> (ucast (to_binary (ucast (rtc_encode False x))) :: u8) = of_nat x"
proof -
  assume "x < 100"
  then have "x \<in> set [0..<100]" by simp
  moreover have "\<forall>x \<in> set [0..<100]. (ucast (to_binary (ucast (rtc_encode False x))) :: u8) = of_nat x"
    by (simp add: upt_rec rtc_encode_def to_binary_def)
  ultimately show ?thesis by blast
qed

lemma hour_decoded:
  assumes "h < 24"
  shows "(let r = rtc_encode_hour binary h24 h;
      b = (if binary then r else ucast (to_binary (ucast (rtc_get_hour r)) OR ucast (rtc_get_mode r)))
    in if \<not> h24 \<and> rtc_get_mode b \<noteq> 0 then word_of_int ((uint (rtc_get_hour b) + 12) mod 24) else b) =
    (if \<not> h24 \<and> h mod 12 = 0 then of_nat (12 - h) else of_nat h)"
proof -
  have "h \<in> set [0..<24]" using assms by simp
  moreover have "\<forall>h \<in> set [0..<24]. (let r = rtc_encode_hour binary h24 h;
      b = (if binary then r else ucast (to_binary (ucast (rtc_get_hour r)) OR ucast (rtc_get_mode r)))
    in if \<not> h24 \<and> rtc_get_mode b \<noteq> 0 then word_of_int ((uint (rtc_get_hour b) + 12) mod 24) else b) =
    (if \<not> h24 \<and> h mod 12 = 0 then of_nat (12 - h) else of_nat h :: u8)"
    by (cases binary; cases h24)
      (simp_all add: upt_rec rtc_encode_hour_def rtc_encode_def to_binary_def rtc_get_hour_def rtc_get_mode_def RTC_PM_BIT_def)
  ultimately show ?thesis by blast
qed


lemma hour_field:
  assumes "h < 24" "f_hour f = rtc_encode_hour binary h24 h" "rtc_is_24 b = h24"
  shows "f_hour (rtc_to_24 b (if \<not> binary then rtc_to_binary f else f)) =
    (if \<not> h24 \<and> h mod 12 = 0 then of_nat (12 - h) else of_nat h)"
  using hour_decoded [OF assms(1), of binary h24] assms(2,3)
  by (cases binary; cases h24) (auto simp: rtc_to_24_def rtc_to_binary_def Let_def)

section \<open>Properties\<close>

text \<open>
  C39. For every date from 1 March 2000 to 31 December 2099, and January and February from 2001
  on, time_get_weekday on the last two digits of the year is the weekday of the calendar, 0 for
  Sunday; for 1 January 2000, a Saturday, it answers Sunday.
\<close>

theorem time_get_weekday_calendar:
  "(1 \<le> m \<and> m \<le> 12 \<and> 1 \<le> d \<and> d \<le> 31 \<and> y < 100 \<and> (3 \<le> m \<or> 1 \<le> y) \<longrightarrow>
     time_get_weekday (of_nat y) (of_nat m) (of_nat d) = Inr (of_nat (calendar_weekday y m d))) \<and>
   time_get_weekday 0 1 1 = Inr 0 \<and> calendar_weekday 0 1 1 = 6"
proof (intro conjI impI)
  show "time_get_weekday (of_nat y) (of_nat m) (of_nat d) = Inr (of_nat (calendar_weekday y m d))"
    if "1 \<le> m \<and> m \<le> 12 \<and> 1 \<le> d \<and> d \<le> 31 \<and> y < 100 \<and> (3 \<le> m \<or> 1 \<le> y)"
    using weekday_calendar [of m d y] that by simp
  show "time_get_weekday 0 1 1 = Inr 0"
    by (simp add: time_get_weekday_def weekday_e_def f_gregorian_def arr_get_def c_div_def Let_def word_le_nat_alt)
  show "calendar_weekday 0 1 1 = 6" by (simp add: calendar_weekday_def days_since_2000_def month_days_def)
qed

text \<open>7 September 2018 was a Friday.\<close>

theorem time_get_weekday_calendar_witness: "time_get_weekday 18 9 7 = Inr 5"
proof -
  have "time_get_weekday (of_nat 18) (of_nat 9) (of_nat 7) = Inr (of_nat (calendar_weekday 18 9 7))"
    using time_get_weekday_calendar [of 9 7 18] by simp
  moreover have "calendar_weekday 18 9 7 = 5" by (simp add: calendar_weekday_def days_since_2000_def month_days_def)
  ultimately show ?thesis by simp
qed

text \<open>
  C36. A chip that shows a date and time of the years 2000 to 2099, in binary or BCD, with 24 or 12
  hours, and does not change while it is read: rtc_read_time returns this date and time, the
  year in full and the weekday, except that with 12 hours midnight is read as noon and noon as
  midnight.
\<close>

theorem rtc_read_time_roundtrip:
  assumes still: "\<forall>k \<ge> n. cmos k = regs" and chip: "shows_time regs binary h24 y m d h mi s"
    and date: "1 \<le> m" "m \<le> 12" "1 \<le> d" "d \<le> 31" "y < 100" "3 \<le> m \<or> 1 \<le> y"
    and time: "h < 24" "mi < 60" "s < 60"
  shows "rtc_read_time cmos n t = Inr (\<lparr>kt_msec = 0, kt_sec = of_nat s, kt_min = of_nat mi,
    kt_hour = (if \<not> h24 \<and> h mod 12 = 0 then of_nat (12 - h) else of_nat h), kt_day = of_nat d, kt_month = of_nat m,
    kt_year = of_nat (2000 + y), kt_weekday = of_nat (calendar_weekday y m d)\<rparr>, n + 16)"
proof -
  have st: "regs RTC_STATUS_A AND 0x80 = 0" "rtc_is_bcd (regs RTC_STATUS_B) = binary" "rtc_is_24 (regs RTC_STATUS_B) = h24"
    using chip by (simp_all add: shows_time_def)
  define f where "f = (let f = (if \<not> binary then rtc_to_binary (chip_fields regs) else chip_fields regs)
    in rtc_to_24 (regs RTC_STATUS_B) f)"
  have dec: "(if binary then rtc_encode binary x else ucast (to_binary (ucast (rtc_encode binary x)))) = of_nat x"
    if "x < 100" for x using to_binary_bcd [OF that] by (simp add: rtc_encode_def)
  have fields: "f_second f = of_nat s" "f_minute f = of_nat mi" "f_day f = of_nat d" "f_month f = of_nat m" "f_year f = of_nat y"
    using dec [of s] dec [of mi] dec [of d] dec [of m] dec [of y] date time chip
    by (simp_all add: f_def shows_time_def chip_fields_def rtc_to_binary_def rtc_to_24_def Let_def split: if_splits)
  have hour: "f_hour f = (if \<not> h24 \<and> h mod 12 = 0 then of_nat (12 - h) else of_nat h)"
    unfolding f_def Let_def
    by (rule hour_field [OF time(1)]) (use chip st in \<open>simp_all add: shows_time_def chip_fields_def\<close>)
  have yr: "(ucast (of_nat y :: u8) :: u16) = of_nat y" "(ucast (ucast (of_nat y :: u8) + (2000 :: u32)) :: u16) = of_nat (2000 + y)"
    using date(5)
    by (simp_all add: word_unat_eq_iff unat_word_ariths unat_of_nat unsigned_ucast_eq take_bit_nat_eq_self)
  have w: "time_get_weekday (of_nat y) (of_nat m) (of_nat d) = Inr (of_nat (calendar_weekday y m d))"
    by (rule weekday_calendar [OF date])
  have settle: "rtc_settle cmos (chip_fields regs) (n + 8) = Some (chip_fields regs, n + 15)"
    using rtc_settle_still [of "n + 8" cmos regs] still st(1) by simp
  have "rtc_read_time cmos n t = res_bind (time_get_weekday (ucast (f_year f)) (f_month f) (f_day f)) (\<lambda>w.
      Inr (\<lparr>kt_msec = 0, kt_sec = f_second f, kt_min = f_minute f, kt_hour = f_hour f, kt_day = f_day f,
        kt_month = f_month f, kt_year = ucast (ucast (f_year f) + (2000 :: u32)), kt_weekday = w\<rparr>, n + 16))"
  proof -
    have w1: "rtc_wait cmos n = Some (Suc n)" by (rule rtc_wait_still [OF still st(1)])
    have f1: "rtc_read_fields cmos (Suc n) = (chip_fields regs, n + 7)"
      using rtc_fields_still [of "Suc n" cmos regs] still by simp
    have c1: "rtc_read_cmos cmos RTC_REG_CENTURY (n + 7) = (regs RTC_REG_CENTURY, n + 8)"
      and b1: "rtc_read_cmos cmos RTC_STATUS_B (n + 15) = (regs RTC_STATUS_B, n + 16)"
      using still by (simp_all add: rtc_read_cmos_def)
    show ?thesis
      unfolding rtc_read_time_def w1 returns_simps res_bind_Inr f1 prod.case Let_def c1 settle b1 st(2) f_def ..
  qed
  then show ?thesis unfolding fields hour yr w by simp
qed

definition unread_time :: ktime where
  "unread_time = \<lparr>kt_msec = 0, kt_sec = 0, kt_min = 0, kt_hour = 0, kt_day = 0, kt_month = 0, kt_year = 0, kt_weekday = 0\<rparr>"

theorem rtc_read_time_roundtrip_witness:
  "\<exists>t' n'. rtc_read_time (\<lambda>_ r. if r = 9 then 0x18 else if r = 8 then 0x09 else if r = 7 then 0x07 else if r = 4 then 0x92
      else if r = 11 then 0 else 0) 0 unread_time = Inr (t', n') \<and> kt_year t' = 2018 \<and> kt_hour t' = 0 \<and> kt_weekday t' = 5"
proof -
  let ?r = "\<lambda>r :: u16. if r = 9 then 0x18 else if r = 8 then 0x09 else if r = 7 then 0x07 else if r = 4 then 0x92
      else if r = 11 then 0 else (0 :: u8)"
  have c: "shows_time ?r False False 18 9 7 12 0 0"
    by (simp add: shows_time_def rtc_encode_def rtc_encode_hour_def rtc_is_bcd_def rtc_is_24_def RTC_REG_SEC_def RTC_REG_MIN_def
        RTC_REG_HOUR_def RTC_REG_DAY_def RTC_REG_MONTH_def RTC_REG_YEAR_def RTC_STATUS_A_def RTC_STATUS_B_def RTC_PM_BIT_def)
  have "calendar_weekday 18 9 7 = 5" by (simp add: calendar_weekday_def days_since_2000_def month_days_def)
  then show ?thesis
    using rtc_read_time_roundtrip [OF _ c, of 0 "\<lambda>_. ?r" unread_time] by simp
qed

end
