(* ===== verification/Kernel_Memory.thy ===== *)
theory Kernel_Memory
  imports Virt_Mem
begin

text \<open>
  Memory as the kernel's pointers see it once paging is on: a byte at each virtual address, read
  through the walk of \<open>translate\<close>, where a missing translation is the page fault of
  \<open>page_fault_handler\<close>.  Code that only reads firmware tables is stated over such a memory.
\<close>

unbundle bit_operations_syntax

type_synonym kmem = "u32 \<Rightarrow> u8 res"

definition kbytes :: "vm_state \<Rightarrow> kmem" where
  "kbytes st a =
     (case translate (ram st) (cr3 st) a of
        None \<Rightarrow> page_fault_handler 0
      | Some pa \<Rightarrow> Inr (ucast (drop_bit (8 * unat (pa mod 4)) (ram st (pa - pa mod 4)))))"

text \<open>Loads through pointers to 16 and 32 bits, at any alignment.\<close>

definition kload16 :: "kmem \<Rightarrow> u32 \<Rightarrow> u16 res" where
  "kload16 m a =
     res_bind (m a) (\<lambda>b0. res_bind (m (a + 1)) (\<lambda>b1. Inr (ucast b0 OR push_bit 8 (ucast b1))))"

definition kload32 :: "kmem \<Rightarrow> u32 \<Rightarrow> u32 res" where
  "kload32 m a =
     res_bind (m a) (\<lambda>b0. res_bind (m (a + 1)) (\<lambda>b1. res_bind (m (a + 2)) (\<lambda>b2. res_bind (m (a + 3)) (\<lambda>b3.
       Inr (ucast b0 OR push_bit 8 (ucast b1) OR push_bit 16 (ucast b2) OR push_bit 24 (ucast b3))))))"

text \<open>\<^verbatim>\<open>memcmp(p, literal, n) == 0\<close>: the comparison stops at the first difference.\<close>

primrec same_bytes :: "kmem \<Rightarrow> u32 \<Rightarrow> u8 list \<Rightarrow> bool res" where
  "same_bytes m a [] = Inr True"
| "same_bytes m a (b # bs) = res_bind (m a) (\<lambda>c. if c \<noteq> b then Inr False else same_bytes m (a + 1) bs)"

section \<open>Loops that read memory\<close>

text \<open>One fallible step inside a loop that may not end: a fault ends it.\<close>

definition loop_bind :: "'a res \<Rightarrow> ('a \<Rightarrow> 'b res option) \<Rightarrow> 'b res option" where
  "loop_bind x f = (case x of Inl e \<Rightarrow> Some (Inl e) | Inr y \<Rightarrow> f y)"

lemma loop_bind_simps [simp]: "loop_bind (Inr y) f = f y" "loop_bind (Inl e) f = Some (Inl e)"
  by (simp_all add: loop_bind_def)

lemma loop_bind_mono [partial_function_mono]:
  assumes "\<And>y. mono_option (\<lambda>f. c f y)"
  shows "mono_option (\<lambda>f. loop_bind x (\<lambda>y. c f y))"
proof (cases x)
  case (Inl e)
  then show ?thesis by (simp add: option.const_mono)
next
  case (Inr y)
  then show ?thesis using assms [of y] by simp
qed

lemma loop_bind_eq_None: "loop_bind x f = None \<longleftrightarrow> (\<exists>y. x = Inr y \<and> f y = None)"
  by (cases x) auto

section \<open>Known bytes\<close>

text \<open>The bytes \<open>bs\<close> lie at the addresses from \<open>a\<close> on.\<close>

primrec bytes_at :: "kmem \<Rightarrow> u32 \<Rightarrow> u8 list \<Rightarrow> bool" where
  "bytes_at m a [] \<longleftrightarrow> True"
| "bytes_at m a (b # bs) \<longleftrightarrow> m a = Inr b \<and> bytes_at m (a + 1) bs"

lemma bytes_at_append:
  "bytes_at m a (xs @ ys) \<longleftrightarrow> bytes_at m a xs \<and> bytes_at m (a + of_nat (length xs)) ys"
  by (induction xs arbitrary: a) (simp_all add: algebra_simps)

definition le16 :: "u16 \<Rightarrow> u8 list" where "le16 w = [ucast w, ucast (drop_bit 8 w)]"

definition le32 :: "u32 \<Rightarrow> u8 list" where
  "le32 w = [ucast w, ucast (drop_bit 8 w), ucast (drop_bit 16 w), ucast (drop_bit 24 w)]"

lemma length_le [simp]: "length (le16 h) = 2" "length (le32 w) = 4"
  by (simp_all add: le16_def le32_def)

lemma join32:
  "ucast (ucast w :: u8) OR push_bit 8 (ucast (ucast (drop_bit 8 w) :: u8)) OR
     push_bit 16 (ucast (ucast (drop_bit 16 w) :: u8)) OR push_bit 24 (ucast (ucast (drop_bit 24 w) :: u8)) = w"
  (is "?joined = w") for w :: u32
proof (rule bit_word_eqI)
  fix n assume "n < LENGTH(32)"
  then show "bit ?joined n = bit w n"
    by (cases "n < 8"; cases "n < 16"; cases "n < 24") (auto simp: bit_simps)
qed

lemma kload32_le32: "bytes_at m a (le32 w) \<Longrightarrow> kload32 m a = Inr w"
  by (simp add: kload32_def le32_def join32 add.assoc)

end
