(* ===== verification/Acpi.thy ===== *)
theory Acpi
  imports Kernel_Memory Kernel_State
begin

text \<open>
  The firmware tables of \<^verbatim>\<open>acpi.c\<close> and \<^verbatim>\<open>acpi.h\<close>, and the writers of the global system table in
  \<^verbatim>\<open>gst.c\<close> that they call.  A table is the bytes at its address; the offsets are those of the
  packed structures.  The loops over the entries of the MADT step by the length byte each entry
  carries, so they may not end: they are \<open>partial_function\<close>s.  The tables do not overlap the
  global system table.  Output on the screen is left out, the reads for it are not.
\<close>

unbundle bit_operations_syntax

section \<open>Constants and layout\<close>

definition ascii :: "string \<Rightarrow> u8 list" where "ascii s = map of_char s"

definition ACPI_MADT :: "u8 list" where "ACPI_MADT = ascii ''APIC''"
definition ACPI_HPET :: "u8 list" where "ACPI_HPET = ascii ''HPET''"

definition LAPIC :: u8 where "LAPIC = 0"
definition IOAPIC :: u8 where "IOAPIC = 1"
definition INTERRUPT_OVERRIDE :: u8 where "INTERRUPT_OVERRIDE = 2"

definition MAX_CPUS :: u32 where "MAX_CPUS = 256"

text \<open>\<^verbatim>\<open>rsdp_descriptor_t\<close>: its size and the offsets of the fields the code reads.\<close>

definition sizeof_rsdp :: u32 where "sizeof_rsdp = 20"
definition rsdp_revision :: u32 where "rsdp_revision = 15"
definition rsdp_rsdt_addr :: u32 where "rsdp_rsdt_addr = 16"

text \<open>\<^verbatim>\<open>acpi_dt_header_t\<close>, and what follows it in the RSDT, the MADT and the HPET table.\<close>

definition sizeof_dt_header :: u32 where "sizeof_dt_header = 36"
definition dt_length :: u32 where "dt_length = 4"
definition rsdt_sdt_ptrs :: u32 where "rsdt_sdt_ptrs = 36"
definition madt_lapic_addr :: u32 where "madt_lapic_addr = 36"
definition sizeof_madt :: u32 where "sizeof_madt = 44"
definition hpet_comparators :: u32 where "hpet_comparators = 37"
definition hpet_address :: u32 where "hpet_address = 44"

text \<open>\<^verbatim>\<open>madt_entry_header_t\<close> and the three kinds of entry the code knows.\<close>

definition entry_type :: u32 where "entry_type = 0"
definition entry_length :: u32 where "entry_length = 1"
definition lapic_processor_id :: u32 where "lapic_processor_id = 2"
definition lapic_apic_id :: u32 where "lapic_apic_id = 3"
definition lapic_flags :: u32 where "lapic_flags = 4"
definition ioapic_ioapic_addr :: u32 where "ioapic_ioapic_addr = 4"
definition override_irq_source :: u32 where "override_irq_source = 3"
definition override_global_system_int :: u32 where "override_global_system_int = 4"

lemmas acpi_layout = sizeof_rsdp_def rsdp_revision_def rsdp_rsdt_addr_def sizeof_dt_header_def dt_length_def
  rsdt_sdt_ptrs_def madt_lapic_addr_def sizeof_madt_def hpet_comparators_def hpet_address_def entry_type_def
  entry_length_def lapic_processor_id_def lapic_apic_id_def lapic_flags_def ioapic_ioapic_addr_def
  override_irq_source_def override_global_system_int_def

section \<open>The global system table\<close>

definition gst_add_processor :: "u32 \<Rightarrow> u32 \<Rightarrow> per_cpu_data \<Rightarrow> gst \<Rightarrow> (int \<times> gst) res" where
  "gst_add_processor cpu_index processor_id processor_data g =
     (if cpu_index \<ge> processor_count g \<or> processor_id \<ge> MAX_CPUS then Inr (1, g)
      else
        res_bind (arr_set (per_cpu_ptrs g) (unat processor_id) (Some (unat cpu_index))) (\<lambda>ps.
        res_bind (arr_set (per_cpu_data_base g) (unat cpu_index) processor_data) (\<lambda>ds.
          Inr (0, g\<lparr>per_cpu_ptrs := ps, per_cpu_data_base := ds\<rparr>))))"

definition gst_set_int_override :: "u8 \<Rightarrow> u8 \<Rightarrow> gst \<Rightarrow> gst res" where
  "gst_set_int_override irq_source global_system_int g =
     res_bind (arr_set (ioapic_overrides g) (unat irq_source) global_system_int) (\<lambda>os.
       Inr (g\<lparr>ioapic_overrides := os\<rparr>))"

definition gst_get_int_override :: "u8 \<Rightarrow> gst \<Rightarrow> u8 res" where
  "gst_get_int_override irq_source g = arr_get (ioapic_overrides g) (unat irq_source)"

text \<open>
  \<^verbatim>\<open>memset(get_gst(), 0, sizeof(gst_t))\<close> of \<^verbatim>\<open>kernel_entry\<close>: the two pointers to arrays are
  null, and no array is behind them yet.
\<close>

definition gst_zero :: gst where
  "gst_zero = \<lparr>processor_count = 0, ioapic_count = 0, lapic_base = 0, ioapic_base = 0,
     gst_gdtr = \<lparr>gdtr_limit = 0, gdtr_base = 0\<rparr>, gst_idtr = \<lparr>idtr_limit = 0, idtr_base = 0\<rparr>,
     BSP_dir = 0, RSDP_base = 0, ioapic_overrides = replicate 16 0,
     system_time = \<lparr>kt_msec = 0, kt_sec = 0, kt_min = 0, kt_hour = 0, kt_day = 0, kt_month = 0, kt_year = 0, kt_weekday = 0\<rparr>,
     gst_gdt_entries = [], per_cpu_ptrs = replicate 256 None, per_cpu_data_base = []\<rparr>"

section \<open>The root pointer\<close>

primrec sum_loop :: "nat \<Rightarrow> kmem \<Rightarrow> u32 \<Rightarrow> u8 \<Rightarrow> u8 res" where
  "sum_loop 0 m base s = Inr s"
| "sum_loop (Suc n) m base s = res_bind (m base) (\<lambda>b. sum_loop n m (base + 1) (s + b))"

definition acpi_sum :: "kmem \<Rightarrow> u32 \<Rightarrow> u32 \<Rightarrow> u8 res" where
  "acpi_sum m base len = sum_loop (unat len) m base 0"

partial_function (option) rsdp_find_loop :: "kmem \<Rightarrow> u32 \<Rightarrow> u32 \<Rightarrow> u32 \<Rightarrow> u32 res option" where
  "rsdp_find_loop m base len i =
     (if i < len then
        loop_bind (same_bytes m (base + i) (ascii ''RSD PTR '')) (\<lambda>same.
          if same then
            loop_bind (acpi_sum m (base + i) sizeof_rsdp) (\<lambda>s.
              if s = 0 then Some (Inr (base + i)) else rsdp_find_loop m base len (i + 16))
          else rsdp_find_loop m base len (i + 16))
      else Some (Inr 0))"

definition rsdp_find_in :: "kmem \<Rightarrow> u32 \<Rightarrow> u32 \<Rightarrow> u32 res" where
  "rsdp_find_in m base len = res_bind (returns (rsdp_find_loop m base len 0)) (\<lambda>r. r)"

definition rsdp_find :: "kmem \<Rightarrow> u32 res" where
  "rsdp_find m =
     res_bind (rsdp_find_in m 0xE0000 0x20000) (\<lambda>rsdp.
       if rsdp \<noteq> 0 then Inr rsdp
       else
         res_bind (kload16 m (0x400 + 0x0E)) (\<lambda>data.
           if data \<noteq> 0 then rsdp_find_in m (push_bit 4 (ucast data)) 1024 else Inr 0))"

section \<open>The MADT\<close>

text \<open>First pass: counting processors and I/O APICs.\<close>

definition madt_count :: "u8 \<Rightarrow> gst \<Rightarrow> gst" where
  "madt_count ty g =
     (if ty = LAPIC then g\<lparr>processor_count := processor_count g + 1\<rparr>
      else if ty = IOAPIC then g\<lparr>ioapic_count := ioapic_count g + 1\<rparr>
      else g)"

partial_function (option) madt_first_loop :: "kmem \<Rightarrow> u32 \<Rightarrow> u32 \<Rightarrow> gst \<Rightarrow> gst res option" where
  "madt_first_loop m ptr fin g =
     (if ptr < fin then
        loop_bind (m (ptr + entry_type)) (\<lambda>ty.
        loop_bind (m (ptr + entry_length)) (\<lambda>len.
          madt_first_loop m (ptr + ucast len) fin (madt_count ty g)))
      else Some (Inr g))"

definition madt_first_parse :: "kmem \<Rightarrow> u32 \<Rightarrow> gst \<Rightarrow> (int \<times> gst) res" where
  "madt_first_parse m madt g =
     res_bind (kload32 m (madt + madt_lapic_addr)) (\<lambda>lapic_addr.
       let g = g\<lparr>lapic_base := lapic_addr\<rparr>; start = madt + sizeof_madt in
       res_bind (kload32 m (madt + dt_length)) (\<lambda>len.
       res_bind (returns (madt_first_loop m start (madt + len) g)) (\<lambda>r.
       res_bind r (\<lambda>g. Inr (0, g)))))"

text \<open>
  Second pass.  The local variable \<^verbatim>\<open>cpu_data\<close> is not initialised beyond the three fields set:
  \<open>junk\<close> is what the stack held.
\<close>

definition madt_entry_lapic :: "kmem \<Rightarrow> per_cpu_data \<Rightarrow> u32 \<Rightarrow> u32 \<Rightarrow> gst \<Rightarrow> (u32 \<times> gst) res" where
  "madt_entry_lapic m junk ptr cpu_index g =
     res_bind (m (ptr + lapic_processor_id)) (\<lambda>processor_id.
     res_bind (m (ptr + lapic_apic_id)) (\<lambda>apic_id.
       if processor_id \<noteq> apic_id then Inl (Panic ''found processor id != local apic id'')
       else
         res_bind (kload32 m (ptr + lapic_flags)) (\<lambda>flags.
           let cpu_data = junk\<lparr>pc_id := ucast processor_id, pc_enabled := flags,
                 pc_test_data := 150 + ucast processor_id\<rparr> in
           res_bind (gst_add_processor cpu_index (ucast processor_id) cpu_data g) (\<lambda>(err, g).
             Inr (cpu_index + 1, g)))))"

definition madt_entry_parse :: "kmem \<Rightarrow> per_cpu_data \<Rightarrow> u32 \<Rightarrow> u8 \<Rightarrow> u32 \<Rightarrow> gst \<Rightarrow> (u32 \<times> gst) res" where
  "madt_entry_parse m junk ptr ty cpu_index g =
     (if ty = LAPIC then madt_entry_lapic m junk ptr cpu_index g
      else if ty = IOAPIC then
        res_bind (kload32 m (ptr + ioapic_ioapic_addr)) (\<lambda>a. Inr (cpu_index, g\<lparr>ioapic_base := a\<rparr>))
      else if ty = INTERRUPT_OVERRIDE then
        res_bind (m (ptr + override_irq_source)) (\<lambda>irq.
        res_bind (kload32 m (ptr + override_global_system_int)) (\<lambda>gsi.
        res_bind (gst_set_int_override irq (ucast gsi) g) (\<lambda>g. Inr (cpu_index, g))))
      else Inr (cpu_index, g))"

partial_function (option) madt_loop ::
    "kmem \<Rightarrow> per_cpu_data \<Rightarrow> u32 \<Rightarrow> u32 \<Rightarrow> u32 \<Rightarrow> gst \<Rightarrow> gst res option" where
  "madt_loop m junk ptr fin cpu_index g =
     (if ptr < fin then
        loop_bind (m (ptr + entry_type)) (\<lambda>ty.
        loop_bind (madt_entry_parse m junk ptr ty cpu_index g) (\<lambda>(cpu_index, g).
        loop_bind (m (ptr + entry_length)) (\<lambda>len.
          madt_loop m junk (ptr + ucast len) fin cpu_index g)))
      else Some (Inr g))"

definition madt_parse :: "kmem \<Rightarrow> per_cpu_data \<Rightarrow> u32 \<Rightarrow> gst \<Rightarrow> (int \<times> gst) res" where
  "madt_parse m junk madt g =
     (let start = madt + sizeof_madt in
      res_bind (kload32 m (madt + dt_length)) (\<lambda>len.
      res_bind (returns (madt_loop m junk start (madt + len) 0 g)) (\<lambda>r.
      res_bind r (\<lambda>g. Inr (0, g)))))"

section \<open>The root table\<close>

text \<open>The argument of a \<^verbatim>\<open>%s\<close>: a signature has no NUL, so the printing goes on behind it.\<close>

partial_function (option) read_string :: "kmem \<Rightarrow> u32 \<Rightarrow> unit res option" where
  "read_string m a = loop_bind (m a) (\<lambda>c. if c = 0 then Some (Inr ()) else read_string m (a + 1))"

primrec rsdt_first_loop :: "nat \<Rightarrow> kmem \<Rightarrow> u32 \<Rightarrow> u32 \<Rightarrow> gst \<Rightarrow> (int \<times> gst) res" where
  "rsdt_first_loop 0 m rsdt i g = Inr (0, g)"
| "rsdt_first_loop (Suc n) m rsdt i g =
     res_bind (kload32 m (rsdt + rsdt_sdt_ptrs + 4 * i)) (\<lambda>header.
     res_bind (same_bytes m header ACPI_MADT) (\<lambda>is_madt.
       if is_madt then
         res_bind (madt_first_parse m header g) (\<lambda>(err, g).
           if err \<noteq> 0 then Inr (1, g) else rsdt_first_loop n m rsdt (i + 1) g)
       else
         res_bind (same_bytes m header ACPI_HPET) (\<lambda>is_hpet.
           if is_hpet then
             res_bind (kload32 m (header + hpet_address)) (\<lambda>_.
             res_bind (m (header + hpet_comparators)) (\<lambda>_. rsdt_first_loop n m rsdt (i + 1) g))
           else
             res_bind (returns (read_string m header)) (\<lambda>r.
             res_bind r (\<lambda>_. rsdt_first_loop n m rsdt (i + 1) g)))))"

definition rsdp_first_parse :: "u32 \<Rightarrow> vm_state \<Rightarrow> gst \<Rightarrow> (int \<times> vm_state \<times> gst) res" where
  "rsdp_first_parse rsdp st g =
     (if rsdp = 0 then Inr (1, st, g)
      else
        res_bind (kbytes st (rsdp + rsdp_revision)) (\<lambda>revision.
          if revision \<noteq> 0 then Inr (1, st, g)
          else
            res_bind (kload32 (kbytes st) (rsdp + rsdp_rsdt_addr)) (\<lambda>rsdt.
              let page = rsdt AND NOT 0xFFF in
              res_bind (virt_mem_is_page_present page st) (\<lambda>present.
              res_bind (if present then Inr (ERROR_OK, st)
                        else virt_mem_map_page virt_mem_get_self_recursive_table page page
                               VIRT_MEM_DEFAULT_PTE_FLAGS st) (\<lambda>(_, st).
              res_bind (kload32 (kbytes st) (rsdt + dt_length)) (\<lambda>len.
                let entries = (len - sizeof_dt_header) div 4 in
                res_bind (rsdt_first_loop (unat entries) (kbytes st) rsdt 0 g) (\<lambda>(err, g).
                  Inr (err, st, g)))))))) "

primrec rsdt_loop :: "nat \<Rightarrow> kmem \<Rightarrow> per_cpu_data \<Rightarrow> u32 \<Rightarrow> u32 \<Rightarrow> gst \<Rightarrow> (int \<times> gst) res" where
  "rsdt_loop 0 m junk rsdt i g = Inr (0, g)"
| "rsdt_loop (Suc n) m junk rsdt i g =
     res_bind (kload32 m (rsdt + rsdt_sdt_ptrs + 4 * i)) (\<lambda>header.
     res_bind (same_bytes m header ACPI_MADT) (\<lambda>is_madt.
       if is_madt then
         res_bind (madt_parse m junk header g) (\<lambda>(err, g).
           if err \<noteq> 0 then Inr (1, g) else rsdt_loop n m junk rsdt (i + 1) g)
       else rsdt_loop n m junk rsdt (i + 1) g))"

definition rsdp_parse :: "u32 \<Rightarrow> per_cpu_data \<Rightarrow> kmem \<Rightarrow> gst \<Rightarrow> (int \<times> gst) res" where
  "rsdp_parse rsdp junk m g =
     (if rsdp = 0 then Inr (1, g)
      else
        res_bind (m (rsdp + rsdp_revision)) (\<lambda>revision.
          if revision \<noteq> 0 then Inr (1, g)
          else
            res_bind (kload32 m (rsdp + rsdp_rsdt_addr)) (\<lambda>rsdt.
            res_bind (kload32 m (rsdt + dt_length)) (\<lambda>len.
              let entries = (len - sizeof_dt_header) div 4 in
              rsdt_loop (unat entries) m junk rsdt 0 g))))"

end
