(* ===== verification/Acpi_Props.thy ===== *)
theory Acpi_Props
  imports Acpi
begin

text \<open>
  What \<^verbatim>\<open>acpi.c\<close> computes: when the two passes over a MADT return, and what they leave in the
  global system table for a table built from a list of entries.
\<close>

unbundle bit_operations_syntax

section \<open>Where the passes go\<close>

text \<open>The entries a pass visits from \<open>a\<close> on, up to the end \<open>fin\<close> of the table.\<close>

inductive madt_walk :: "kmem \<Rightarrow> u32 \<Rightarrow> u32 \<Rightarrow> u32 \<Rightarrow> bool" for m fin where
  walk_here: "madt_walk m fin a a"
| walk_on: "p < fin \<Longrightarrow> m (p + entry_type) = Inr ty \<Longrightarrow> m (p + entry_length) = Inr len \<Longrightarrow>
    madt_walk m fin (p + ucast len) q \<Longrightarrow> madt_walk m fin p q"

text \<open>An entry of length 0 in the way.\<close>

definition stuck_at :: "kmem \<Rightarrow> u32 \<Rightarrow> u32 \<Rightarrow> bool" where
  "stuck_at m fin p \<longleftrightarrow> p < fin \<and> (\<exists>ty. m (p + entry_type) = Inr ty) \<and> m (p + entry_length) = Inr 0"

definition madt_stuck :: "kmem \<Rightarrow> u32 \<Rightarrow> u32 \<Rightarrow> bool" where
  "madt_stuck m a fin \<longleftrightarrow> (\<exists>p. madt_walk m fin a p \<and> stuck_at m fin p)"

lemma first_loop_stuck_at: "stuck_at m fin p \<Longrightarrow> madt_first_loop m p fin g = None"
proof (rule ccontr)
  assume s: "stuck_at m fin p" and "madt_first_loop m p fin g \<noteq> None"
  then obtain r where "madt_first_loop m p fin g = Some r" by blast
  then have "\<not> stuck_at m fin p"
  proof (rule madt_first_loop.raw_induct [where P = "\<lambda>m p fin g r. \<not> stuck_at m fin p", rotated])
    fix f :: "kmem \<Rightarrow> u32 \<Rightarrow> u32 \<Rightarrow> gst \<Rightarrow> gst res option" and m p fin g r
    assume ih: "\<And>m p fin g r. f m p fin g = Some r \<Longrightarrow> \<not> stuck_at m fin p"
      and eq: "(if p < fin then loop_bind (m (p + entry_type)) (\<lambda>ty. loop_bind (m (p + entry_length))
        (\<lambda>len. f m (p + ucast len) fin (madt_count ty g))) else Some (Inr g)) = Some r"
    show "\<not> stuck_at m fin p"
    proof
      assume "stuck_at m fin p"
      moreover from this obtain ty where "f m p fin (madt_count ty g) = Some r"
        using eq by (auto simp: stuck_at_def)
      ultimately show False using ih by blast
    qed
  qed
  with s show False by blast
qed

lemma first_loop_stuck:
  assumes "madt_walk m fin a p" "stuck_at m fin p"
  shows "madt_first_loop m a fin g = None"
  using assms
proof (induction arbitrary: g rule: madt_walk.induct)
  case (walk_here a)
  then show ?case by (rule first_loop_stuck_at)
next
  case (walk_on p ty len q)
  then show ?case by (subst madt_first_loop.simps) simp
qed

lemma entry_step:
  fixes p fin :: u32 and len :: u8
  assumes "p < fin" "unat fin + 255 < 2 ^ 32" "len \<noteq> 0"
  shows "unat (p + ucast len) = unat p + unat len" "unat fin - unat (p + ucast len) < unat fin - unat p"
proof -
  have p: "unat p < unat fin" using assms(1) by (simp add: word_less_nat_alt)
  have "unat len < 256" by (rule unat_u8_less)
  moreover have "unat (ucast len :: u32) = unat len" by (simp add: unsigned_ucast_eq take_bit_eq_mod order_less_trans [OF unat_u8_less])
  ultimately show u: "unat (p + ucast len) = unat p + unat len"
    using p assms(2) by (simp add: unat_word_ariths)
  have "0 < unat len" using assms(3) by (simp add: unat_gt_0)
  with u p show "unat fin - unat (p + ucast len) < unat fin - unat p" by linarith
qed

lemma walk_stuck:
  assumes "p < fin" "m (p + entry_type) = Inr ty" "m (p + entry_length) = Inr len" "\<not> madt_stuck m p fin"
  shows "len \<noteq> 0" "\<not> madt_stuck m (p + ucast len) fin"
  using assms walk_on [OF assms(1-3)] walk_here [of m fin p] by (auto simp: madt_stuck_def stuck_at_def)

lemma first_loop_returns:
  assumes "unat fin + 255 < 2 ^ 32" "\<not> madt_stuck m p fin"
  shows "madt_first_loop m p fin g \<noteq> None"
  using assms(2)
proof (induction "unat fin - unat p" arbitrary: p g rule: less_induct)
  case less
  show ?case
  proof
    assume "madt_first_loop m p fin g = None"
    then obtain ty len where "p < fin" "m (p + entry_type) = Inr ty" "m (p + entry_length) = Inr len"
      and none: "madt_first_loop m (p + ucast len) fin (madt_count ty g) = None"
      by (subst (asm) madt_first_loop.simps) (auto simp: loop_bind_eq_None split: if_splits)
    then show False
      using less.hyps [OF entry_step(2)] walk_stuck less.prems assms(1) by meson
  qed
qed

lemma loop_returns:
  assumes "unat fin + 255 < 2 ^ 32" "\<not> madt_stuck m p fin"
  shows "madt_loop m junk p fin k g \<noteq> None"
  using assms(2)
proof (induction "unat fin - unat p" arbitrary: p k g rule: less_induct)
  case less
  show ?case
  proof
    assume "madt_loop m junk p fin k g = None"
    then obtain ty len k' g' where "p < fin" "m (p + entry_type) = Inr ty" "m (p + entry_length) = Inr len"
      and none: "madt_loop m junk (p + ucast len) fin k' g' = None"
      by (subst (asm) madt_loop.simps) (auto simp: loop_bind_eq_None split: if_splits prod.splits)
    then show False
      using less.hyps [OF entry_step(2)] walk_stuck less.prems assms(1) by meson
  qed
qed

section \<open>Faults other than not returning\<close>

lemma kload32_fault: "\<forall>a. m a \<noteq> Inl e \<Longrightarrow> kload32 m b \<noteq> Inl e"
  by (auto simp: kload32_def res_bind_eq_Inl)

lemma kbytes_fault: "kbytes st a \<noteq> Inl Diverges"
  by (auto simp: kbytes_def page_fault_handler_def split: option.splits)

lemma entry_parse_fault:
  assumes "\<forall>a. m a \<noteq> Inl Diverges"
  shows "madt_entry_parse m junk p ty k g \<noteq> Inl Diverges"
  using assms kload32_fault [OF assms]
  by (auto simp: madt_entry_parse_def madt_entry_lapic_def gst_add_processor_def gst_set_int_override_def
      arr_set_def res_bind_eq_Inl Let_def split: if_splits)

lemma first_loop_fault:
  assumes "\<forall>a. m a \<noteq> Inl Diverges" "madt_first_loop m p fin g = Some r"
  shows "r \<noteq> Inl Diverges"
proof -
  have "(\<forall>a. m a \<noteq> Inl Diverges) \<longrightarrow> r \<noteq> Inl Diverges"
  proof (rule madt_first_loop.raw_induct [where P = "\<lambda>m p fin g r. (\<forall>a. m a \<noteq> Inl Diverges) \<longrightarrow> r \<noteq> Inl Diverges",
      OF _ assms(2)], rule impI)
    fix f :: "kmem \<Rightarrow> u32 \<Rightarrow> u32 \<Rightarrow> gst \<Rightarrow> gst res option" and m p fin g r
    assume ih: "\<And>m p fin g r. f m p fin g = Some r \<Longrightarrow> (\<forall>a. m a \<noteq> Inl Diverges) \<longrightarrow> r \<noteq> Inl Diverges"
      and eq: "(if p < fin then loop_bind (m (p + entry_type)) (\<lambda>ty. loop_bind (m (p + entry_length))
        (\<lambda>len. f m (p + ucast len) fin (madt_count ty g))) else Some (Inr g)) = Some r"
      and m: "\<forall>a. m a \<noteq> Inl Diverges"
    show "r \<noteq> Inl Diverges"
      using eq ih m by (cases "m (p + entry_type)"; cases "m (p + entry_length)"; fastforce split: if_splits)
  qed
  with assms(1) show ?thesis by blast
qed

lemma loop_fault:
  assumes "\<forall>a. m a \<noteq> Inl Diverges" "madt_loop m junk p fin k g = Some r"
  shows "r \<noteq> Inl Diverges"
proof -
  have "(\<forall>a. m a \<noteq> Inl Diverges) \<longrightarrow> r \<noteq> Inl Diverges"
  proof (rule madt_loop.raw_induct [where P = "\<lambda>m junk p fin k g r. (\<forall>a. m a \<noteq> Inl Diverges) \<longrightarrow> r \<noteq> Inl Diverges",
      OF _ assms(2)], rule impI)
    fix f :: "kmem \<Rightarrow> per_cpu_data \<Rightarrow> u32 \<Rightarrow> u32 \<Rightarrow> u32 \<Rightarrow> gst \<Rightarrow> gst res option" and m junk p fin k g r
    assume ih: "\<And>m junk p fin k g r. f m junk p fin k g = Some r \<Longrightarrow> (\<forall>a. m a \<noteq> Inl Diverges) \<longrightarrow> r \<noteq> Inl Diverges"
      and eq: "(if p < fin then loop_bind (m (p + entry_type)) (\<lambda>ty.
        loop_bind (madt_entry_parse m junk p ty k g) (\<lambda>(k, g). loop_bind (m (p + entry_length))
        (\<lambda>len. f m junk (p + ucast len) fin k g))) else Some (Inr g)) = Some r"
      and m: "\<forall>a. m a \<noteq> Inl Diverges"
    show "r \<noteq> Inl Diverges"
    proof (cases "m (p + entry_type)")
      case (Inl e)
      with eq m show ?thesis by (auto split: if_splits)
    next
      case (Inr ty)
      note ty = this
      show ?thesis
      proof (cases "madt_entry_parse m junk p ty k g")
        case (Inl e)
        with eq ty entry_parse_fault [OF m] show ?thesis by (auto split: if_splits)
      next
        case (Inr kg)
        with eq ty ih m show ?thesis
          by (cases "m (p + entry_length)"; cases kg; fastforce split: if_splits)
      qed
    qed
  qed
  with assms(1) show ?thesis by blast
qed

section \<open>A table built from entries\<close>

datatype madt_entry =
    Lapic_entry u8 u8 u32
  | Ioapic_entry u8 u32 u32
  | Override_entry u8 u8 u32 u16
  | Other_entry u8 "u8 list"

fun entry_kind :: "madt_entry \<Rightarrow> u8" where
  "entry_kind (Lapic_entry p a f) = LAPIC"
| "entry_kind (Ioapic_entry i a b) = IOAPIC"
| "entry_kind (Override_entry b i g f) = INTERRUPT_OVERRIDE"
| "entry_kind (Other_entry ty bs) = ty"

fun entry_bytes :: "madt_entry \<Rightarrow> u8 list" where
  "entry_bytes (Lapic_entry p a f) = [LAPIC, 8, p, a] @ le32 f"
| "entry_bytes (Ioapic_entry i a b) = [IOAPIC, 12, i, 0] @ le32 a @ le32 b"
| "entry_bytes (Override_entry b i g f) = [INTERRUPT_OVERRIDE, 10, b, i] @ le32 g @ le16 f"
| "entry_bytes (Other_entry ty bs) = ty # of_nat (2 + length bs) # bs"

fun entry_ok :: "madt_entry \<Rightarrow> bool" where
  "entry_ok (Other_entry ty bs) \<longleftrightarrow> ty \<notin> {LAPIC, IOAPIC, INTERRUPT_OVERRIDE} \<and> length bs \<le> 253"
| "entry_ok _ \<longleftrightarrow> True"

abbreviation table_bytes :: "madt_entry list \<Rightarrow> u8 list" where
  "table_bytes es \<equiv> concat (map entry_bytes es)"

lemma entry_bytes_length: "entry_ok e \<Longrightarrow> 2 \<le> length (entry_bytes e) \<and> length (entry_bytes e) < 256"
  by (cases e) auto

lemma entry_header:
  assumes "bytes_at m p (entry_bytes e)" "entry_ok e"
  shows "m (p + entry_type) = Inr (entry_kind e)"
    "\<exists>len. m (p + entry_length) = Inr len \<and> (ucast len :: u32) = of_nat (length (entry_bytes e))"
proof -
  show "m (p + entry_type) = Inr (entry_kind e)"
    using assms(1) by (cases e) (simp_all add: entry_type_def)
  have "m (p + entry_length) = Inr (of_nat (length (entry_bytes e)))"
    using assms(1) by (cases e) (simp_all add: entry_length_def)
  moreover have "ucast (of_nat (length (entry_bytes e)) :: u8) = (of_nat (length (entry_bytes e)) :: u32)"
    using entry_bytes_length [OF assms(2)] by (simp add: unsigned_of_nat take_bit_nat_eq_self)
  ultimately show "\<exists>len. m (p + entry_length) = Inr len \<and> (ucast len :: u32) = of_nat (length (entry_bytes e))"
    by blast
qed

text \<open>What an entry does in each pass, read off its fields.\<close>

definition cpu_data_of :: "per_cpu_data \<Rightarrow> u8 \<Rightarrow> u32 \<Rightarrow> per_cpu_data" where
  "cpu_data_of junk p f = junk\<lparr>pc_id := ucast p, pc_enabled := f, pc_test_data := 150 + ucast p\<rparr>"

fun entry_effect :: "per_cpu_data \<Rightarrow> madt_entry \<Rightarrow> u32 \<times> gst \<Rightarrow> (u32 \<times> gst) res" where
  "entry_effect junk (Lapic_entry p a f) (k, g) =
     (if p \<noteq> a then Inl (Panic ''found processor id != local apic id'')
      else res_bind (gst_add_processor k (ucast p) (cpu_data_of junk p f) g) (\<lambda>(err, g). Inr (k + 1, g)))"
| "entry_effect junk (Ioapic_entry i a b) (k, g) = Inr (k, g\<lparr>ioapic_base := a\<rparr>)"
| "entry_effect junk (Override_entry b i gsi f) (k, g) =
     res_bind (gst_set_int_override i (ucast gsi) g) (\<lambda>g. Inr (k, g))"
| "entry_effect junk (Other_entry ty bs) (k, g) = Inr (k, g)"

primrec entry_effects :: "per_cpu_data \<Rightarrow> madt_entry list \<Rightarrow> u32 \<times> gst \<Rightarrow> (u32 \<times> gst) res" where
  "entry_effects junk [] s = Inr s"
| "entry_effects junk (e # es) s = res_bind (entry_effect junk e s) (entry_effects junk es)"

lemma madt_kinds_distinct [simp]:
  "IOAPIC \<noteq> LAPIC" "INTERRUPT_OVERRIDE \<noteq> LAPIC" "INTERRUPT_OVERRIDE \<noteq> IOAPIC"
  by (simp_all add: LAPIC_def IOAPIC_def INTERRUPT_OVERRIDE_def)

lemma entry_parse_effect:
  assumes "bytes_at m p (entry_bytes e)" "entry_ok e"
  shows "madt_entry_parse m junk p (entry_kind e) k g = entry_effect junk e (k, g)"
proof (cases e)
  case (Lapic_entry i a f)
  with assms have "m (p + 2) = Inr i" "m (p + 3) = Inr a" "bytes_at m (p + 4) (le32 f)"
    by (simp_all add: bytes_at_append add.assoc)
  with Lapic_entry show ?thesis
    by (simp add: madt_entry_parse_def madt_entry_lapic_def acpi_layout kload32_le32 cpu_data_of_def)
next
  case (Ioapic_entry i a b)
  with assms have "bytes_at m (p + 4) (le32 a)" by (simp add: bytes_at_append add.assoc)
  with Ioapic_entry show ?thesis by (simp add: madt_entry_parse_def acpi_layout kload32_le32)
next
  case (Override_entry b i gsi f)
  with assms have "m (p + 3) = Inr i" "bytes_at m (p + 4) (le32 gsi)"
    by (simp_all add: bytes_at_append add.assoc)
  with Override_entry show ?thesis by (simp add: madt_entry_parse_def acpi_layout kload32_le32)
next
  case (Other_entry ty bs)
  with assms show ?thesis by (simp add: madt_entry_parse_def)
qed

lemma table_tail:
  assumes "bytes_at m p (table_bytes (e # es))" "entry_ok e"
    "unat p + length (table_bytes (e # es)) < 2 ^ 32" "fin = p + of_nat (length (table_bytes (e # es)))"
  shows "p < fin" "bytes_at m p (entry_bytes e)"
    "bytes_at m (p + of_nat (length (entry_bytes e))) (table_bytes es)"
    "unat (p + of_nat (length (entry_bytes e))) + length (table_bytes es) < 2 ^ 32"
    "fin = p + of_nat (length (entry_bytes e)) + of_nat (length (table_bytes es))"
proof -
  have add: "unat (p + of_nat n) = unat p + n" if "unat p + n < 2 ^ 32" for n
    using that by (simp add: unat_word_ariths)
  show "p < fin"
    using assms(3) entry_bytes_length [OF assms(2)]
    by (simp only: assms(4) word_less_nat_alt add [OF assms(3)]) auto
  show "unat (p + of_nat (length (entry_bytes e))) + length (table_bytes es) < 2 ^ 32"
    using assms(3) by (subst add) simp_all
qed (use assms in \<open>simp_all add: bytes_at_append add.assoc\<close>)

lemma first_loop_entries:
  assumes "bytes_at m p (table_bytes es)" "\<forall>e\<in>set es. entry_ok e"
    "unat p + length (table_bytes es) < 2 ^ 32" "fin = p + of_nat (length (table_bytes es))"
  shows "madt_first_loop m p fin g = Some (Inr (fold (\<lambda>e. madt_count (entry_kind e)) es g))"
  using assms
proof (induction es arbitrary: p g)
  case Nil
  then show ?case by (simp add: madt_first_loop.simps)
next
  case (Cons e es)
  then have ok: "entry_ok e" by simp
  note t = table_tail [OF Cons.prems(1) ok Cons.prems(3,4)]
  from entry_header [OF t(2) ok] obtain len where "m (p + entry_type) = Inr (entry_kind e)"
    "m (p + entry_length) = Inr len" "(ucast len :: u32) = of_nat (length (entry_bytes e))" by blast
  then show ?case
    using t(1) Cons.IH [OF t(3) _ t(4,5)] Cons.prems(2) by (subst madt_first_loop.simps) simp
qed

lemma loop_entries:
  assumes "bytes_at m p (table_bytes es)" "\<forall>e\<in>set es. entry_ok e"
    "unat p + length (table_bytes es) < 2 ^ 32" "fin = p + of_nat (length (table_bytes es))"
  shows "madt_loop m junk p fin k g = Some (map_sum (\<lambda>e. e) snd (entry_effects junk es (k, g)))"
  using assms
proof (induction es arbitrary: p k g)
  case Nil
  then show ?case by (simp add: madt_loop.simps)
next
  case (Cons e es)
  then have ok: "entry_ok e" by simp
  note t = table_tail [OF Cons.prems(1) ok Cons.prems(3,4)]
  from entry_header [OF t(2) ok] obtain len where h: "m (p + entry_type) = Inr (entry_kind e)"
    "m (p + entry_length) = Inr len" "(ucast len :: u32) = of_nat (length (entry_bytes e))" by blast
  show ?case
  proof (cases "entry_effect junk e (k, g)")
    case (Inl x)
    then show ?thesis
      using t(1) h entry_parse_effect [OF t(2) ok, of junk k g] by (subst madt_loop.simps) simp
  next
    case (Inr kg)
    then show ?thesis
      using t(1) h Cons.IH [OF t(3) _ t(4,5)] Cons.prems(2) entry_parse_effect [OF t(2) ok, of junk k g]
      by (subst madt_loop.simps) (simp split: prod.splits)
  qed
qed

text \<open>The entries of each kind, in order.\<close>

fun lapics_of :: "madt_entry list \<Rightarrow> (u8 \<times> u8 \<times> u32) list" where
  "lapics_of (Lapic_entry p a f # es) = (p, a, f) # lapics_of es"
| "lapics_of (e # es) = lapics_of es"
| "lapics_of [] = []"

fun ioapics_of :: "madt_entry list \<Rightarrow> u32 list" where
  "ioapics_of (Ioapic_entry i a b # es) = a # ioapics_of es"
| "ioapics_of (e # es) = ioapics_of es"
| "ioapics_of [] = []"

fun overrides_of :: "madt_entry list \<Rightarrow> (u8 \<times> u32) list" where
  "overrides_of (Override_entry b i gsi f # es) = (i, gsi) # overrides_of es"
| "overrides_of (e # es) = overrides_of es"
| "overrides_of [] = []"

abbreviation ids_match :: "madt_entry list \<Rightarrow> bool" where
  "ids_match es \<equiv> \<forall>(p, a, f) \<in> set (lapics_of es). p = a"

abbreviation irqs_legacy :: "madt_entry list \<Rightarrow> bool" where
  "irqs_legacy es \<equiv> \<forall>(i, gsi) \<in> set (overrides_of es). unat i < 16"

primrec set_ptrs :: "nat \<Rightarrow> u8 list \<Rightarrow> nat option list \<Rightarrow> nat option list" where
  "set_ptrs k [] ps = ps"
| "set_ptrs k (p # ids) ps = set_ptrs (Suc k) ids (ps[unat p := Some k])"

definition set_overrides :: "(u8 \<times> u32) list \<Rightarrow> u8 list \<Rightarrow> u8 list" where
  "set_overrides ovs os = fold (\<lambda>(i, gsi) os. os[unat i := ucast gsi]) ovs os"

definition cpus_of :: "per_cpu_data \<Rightarrow> madt_entry list \<Rightarrow> per_cpu_data list" where
  "cpus_of junk es = map (\<lambda>(p, a, f). cpu_data_of junk p f) (lapics_of es)"

lemma count_entries:
  assumes "\<forall>e\<in>set es. entry_ok e"
  shows "fold (\<lambda>e. madt_count (entry_kind e)) es g =
    g\<lparr>processor_count := processor_count g + of_nat (length (lapics_of es)),
      ioapic_count := ioapic_count g + of_nat (length (ioapics_of es))\<rparr>"
  using assms
proof (induction es arbitrary: g)
  case (Cons e es)
  then show ?case by (cases e) (auto simp: madt_count_def algebra_simps)
qed simp

text \<open>An array of processors large enough, and the second pass through it.\<close>

definition room :: "gst \<Rightarrow> bool" where
  "room g \<longleftrightarrow> processor_count g = of_nat (length (per_cpu_data_base g)) \<and>
     length (per_cpu_data_base g) < 2 ^ 32 \<and> length (per_cpu_ptrs g) = 256 \<and> length (ioapic_overrides g) = 16"

lemma add_processor_room:
  assumes "room g" "k < length (per_cpu_data_base g)"
  shows "gst_add_processor (of_nat k) (ucast (p :: u8)) d g =
    Inr (0, g\<lparr>per_cpu_ptrs := (per_cpu_ptrs g)[unat p := Some k],
      per_cpu_data_base := (per_cpu_data_base g)[k := d]\<rparr>)"
proof -
  have k: "unat (of_nat k :: u32) = k" using assms by (simp add: room_def)
  have p: "unat (ucast p :: u32) = unat p" using unat_u8_less [of p] by (simp add: unsigned_ucast_eq take_bit_eq_mod)
  have "\<not> processor_count g \<le> of_nat k" "\<not> MAX_CPUS \<le> ucast p"
    using assms unat_u8_less [of p] by (simp_all add: word_le_nat_alt k p room_def MAX_CPUS_def)
  then show ?thesis
    using assms unat_u8_less [of p] by (simp add: gst_add_processor_def k p room_def)
qed

lemma effects_ok:
  assumes "room g" "i + length (lapics_of es) \<le> length (per_cpu_data_base g)" "ids_match es" "irqs_legacy es"
  shows "entry_effects junk es (of_nat i, g) = Inr (of_nat (i + length (lapics_of es)),
    g\<lparr>ioapic_base := last (ioapic_base g # ioapics_of es),
      ioapic_overrides := set_overrides (overrides_of es) (ioapic_overrides g),
      per_cpu_ptrs := set_ptrs i (map fst (lapics_of es)) (per_cpu_ptrs g),
      per_cpu_data_base := take i (per_cpu_data_base g) @ cpus_of junk es @
        drop (i + length (lapics_of es)) (per_cpu_data_base g)\<rparr>)"
  using assms
proof (induction es arbitrary: i g)
  case Nil
  then show ?case by (simp add: cpus_of_def set_overrides_def)
next
  case (Cons e es)
  show ?case
  proof (cases e)
    case (Lapic_entry p a f)
    then have pa: "p = a" and i: "i < length (per_cpu_data_base g)" using Cons.prems by auto
    let ?g = "g\<lparr>per_cpu_ptrs := (per_cpu_ptrs g)[unat p := Some i],
      per_cpu_data_base := (per_cpu_data_base g)[i := cpu_data_of junk p f]\<rparr>"
    have r: "room ?g" using Cons.prems(1) by (simp add: room_def)
    have "entry_effects junk (e # es) (of_nat i, g) = entry_effects junk es (of_nat (Suc i), ?g)"
      using pa Lapic_entry add_processor_room [OF Cons.prems(1) i] by (simp add: add.commute)
    also note Cons.IH [OF r, of "Suc i"]
    finally show ?thesis
      using Cons.prems Lapic_entry i
      by (simp add: cpus_of_def take_Suc_conv_app_nth list_update_append)
  next
    case (Ioapic_entry j a b)
    then show ?thesis using Cons.IH [of "g\<lparr>ioapic_base := a\<rparr>" i] Cons.prems by (simp add: cpus_of_def room_def)
  next
    case (Override_entry b j gsi f)
    then have "gst_set_int_override j (ucast gsi) g = Inr (g\<lparr>ioapic_overrides := (ioapic_overrides g)[unat j := ucast gsi]\<rparr>)"
      using Cons.prems by (simp add: gst_set_int_override_def room_def)
    then show ?thesis
      using Override_entry Cons.prems
        Cons.IH [of "g\<lparr>ioapic_overrides := (ioapic_overrides g)[unat j := ucast gsi]\<rparr>" i]
      by (simp add: cpus_of_def room_def set_overrides_def)
  next
    case (Other_entry ty bs)
    then show ?thesis using Cons by (simp add: cpus_of_def)
  qed
qed

lemma effects_fail:
  assumes "length (ioapic_overrides g) = 16" "entry_effects junk es (k, g) = Inr s"
  shows "ids_match es \<and> irqs_legacy es"
  using assms
proof (induction es arbitrary: k g)
  case (Cons e es)
  then obtain k' g' where e: "entry_effect junk e (k, g) = Inr (k', g')"
    and "entry_effects junk es (k', g') = Inr s"
    by (auto simp: res_simps)
  moreover have "length (ioapic_overrides g') = 16"
    using e Cons.prems(1)
    by (cases e) (auto simp: res_simps gst_add_processor_def gst_set_int_override_def split: if_splits)
  ultimately have "ids_match es \<and> irqs_legacy es" using Cons.IH by blast
  then show ?case
    using e Cons.prems(1) by (cases e) (auto simp: res_simps gst_set_int_override_def split: if_splits)
qed simp

lemma set_ptrs_other: "p \<notin> set ids \<Longrightarrow> set_ptrs k ids ps ! unat p = ps ! unat p"
  by (induction ids arbitrary: k ps) (auto simp: nth_list_update_neq word_unat_eq_iff)

lemma set_ptrs_nth:
  assumes "distinct ids" "j < length ids" "length ps = 256"
  shows "set_ptrs k ids ps ! unat (ids ! j) = Some (k + j)"
  using assms
proof (induction ids arbitrary: j k ps)
  case (Cons p ids)
  show ?case
  proof (cases j)
    case 0
    then show ?thesis using Cons.prems unat_u8_less [of p] by (simp add: set_ptrs_other)
  next
    case (Suc j')
    then show ?thesis using Cons.IH [of j' "ps[unat p := Some k]" "Suc k"] Cons.prems by simp
  qed
qed simp

lemma lapics_bound: "length (lapics_of es) \<le> length (table_bytes es)"
proof (induction es)
  case (Cons e es)
  then show ?case by (cases e) auto
qed simp

text \<open>A memory that holds the bytes \<open>t\<close> from \<open>base\<close> on and faults elsewhere.\<close>

definition table_mem :: "u32 \<Rightarrow> u8 list \<Rightarrow> kmem" where
  "table_mem base t a =
     (if unat (a - base) < length t then Inr (t ! unat (a - base)) else page_fault_handler 0)"

lemma table_mem_fault: "table_mem base t a \<noteq> Inl Diverges"
  by (simp add: table_mem_def page_fault_handler_def)

lemma bytes_at_table:
  assumes "length (xs @ ys @ zs) < 2 ^ 32"
  shows "bytes_at (table_mem base (xs @ ys @ zs)) (base + of_nat (length xs)) ys"
  using assms
proof (induction ys arbitrary: xs)
  case (Cons y ys)
  have "bytes_at (table_mem base ((xs @ [y]) @ ys @ zs)) (base + of_nat (length (xs @ [y]))) ys"
    by (rule Cons.IH) (use Cons.prems in simp)
  moreover have "table_mem base (xs @ (y # ys) @ zs) (base + of_nat (length xs)) = Inr y"
    using Cons.prems by (simp add: table_mem_def)
  ultimately show ?case by (simp add: ac_simps)
qed simp

section \<open>The passes over a MADT\<close>

text \<open>
  C32. madt_first_parse, given where its table starts and ends, does not return exactly when the
  walk from entry to entry, each as long as its length byte says, meets an entry of length 0
  before the end of the table; and madt_parse never fails to return unless the walk does.
\<close>

theorem madt_parse_termination:
  assumes "\<forall>a. m a \<noteq> Inl Diverges"
    and "kload32 m (madt + madt_lapic_addr) = Inr lapic_addr" "kload32 m (madt + dt_length) = Inr len"
    and "unat (madt + len) + 255 < 2 ^ 32"
  shows "(madt_first_parse m madt g = Inl Diverges \<longleftrightarrow> madt_stuck m (madt + sizeof_madt) (madt + len)) \<and>
    (madt_parse m junk madt g = Inl Diverges \<longrightarrow> madt_stuck m (madt + sizeof_madt) (madt + len))"
proof (intro conjI impI)
  let ?g = "g\<lparr>lapic_base := lapic_addr\<rparr>" and ?start = "madt + sizeof_madt"
  have "madt_first_parse m madt g = Inl Diverges \<longleftrightarrow> madt_first_loop m ?start (madt + len) ?g = None"
    using assms(2,3) first_loop_fault [OF assms(1), of ?start "madt + len" ?g]
    by (cases "madt_first_loop m ?start (madt + len) ?g")
      (auto simp: madt_first_parse_def Let_def res_bind_eq_Inl)
  then show "madt_first_parse m madt g = Inl Diverges \<longleftrightarrow> madt_stuck m ?start (madt + len)"
    using first_loop_stuck first_loop_returns [OF assms(4)] unfolding madt_stuck_def by metis
  assume "madt_parse m junk madt g = Inl Diverges"
  then have "madt_loop m junk ?start (madt + len) 0 g = None"
    using assms(3) loop_fault [OF assms(1), of junk ?start "madt + len" 0 g]
    by (cases "madt_loop m junk ?start (madt + len) 0 g")
      (auto simp: madt_parse_def Let_def res_bind_eq_Inl)
  then show "madt_stuck m ?start (madt + len)" using loop_returns [OF assms(4)] by blast
qed

definition blank_cpu :: per_cpu_data where
  "blank_cpu = \<lparr>pc_id = 0, pc_enabled = 0, pc_test_data = 0, pc_lapic_period = 0, pc_lapic_count = 0,
     pc_common_stack_top = 0, pc_tss_entry = tss_zero,
     pc_scheduler = \<lparr>ready_heads = (\<lambda>_. None), ready_tails = (\<lambda>_. None), sched_lock = 0, current_thread = None\<rparr>,
     pc_mailbox = None\<rparr>"

definition stuck_madt :: "u8 list" where
  "stuck_madt = [0, 0, 0, 0] @ le32 46 @ replicate 28 0 @ le32 0xFEE00000 @ [0, 0, 0, 0] @ [1, 0]"

lemma stuck_madt_header:
  "kload32 (table_mem 0x1000 stuck_madt) (0x1000 + dt_length) = Inr 46"
  "kload32 (table_mem 0x1000 stuck_madt) (0x1000 + madt_lapic_addr) = Inr 0xFEE00000"
  using bytes_at_table [where base = "0x1000" and xs = "[0, 0, 0, 0]" and ys = "le32 46" and zs = "replicate 28 0 @ le32 0xFEE00000 @ [0, 0, 0, 0] @ [1, 0]"]
    bytes_at_table [where base = "0x1000" and xs = "[0, 0, 0, 0] @ le32 46 @ replicate 28 0" and ys = "le32 0xFEE00000" and zs = "[0, 0, 0, 0] @ [1, 0]"]
  by (auto intro!: kload32_le32 simp: stuck_madt_def acpi_layout)

lemma madt_parse_termination_witness:
  "madt_stuck (table_mem 0x1000 stuck_madt) (0x1000 + sizeof_madt) (0x1000 + 46) \<and>
   madt_first_parse (table_mem 0x1000 stuck_madt) 0x1000 gst_zero = Inl Diverges"
proof -
  have "stuck_at (table_mem 0x1000 stuck_madt) (0x1000 + 46) (0x1000 + sizeof_madt)"
    by (simp add: stuck_at_def table_mem_def stuck_madt_def acpi_layout le32_def nth_append)
  then have "madt_stuck (table_mem 0x1000 stuck_madt) (0x1000 + sizeof_madt) (0x1000 + 46)"
    unfolding madt_stuck_def using walk_here by blast
  then show ?thesis
    using madt_parse_termination [OF allI [OF table_mem_fault] stuck_madt_header(2,1), of gst_zero blank_cpu] by simp
qed

text \<open>A MADT with the entries \<open>es\<close> lies at \<open>madt\<close>.\<close>

definition madt_at :: "kmem \<Rightarrow> u32 \<Rightarrow> u32 \<Rightarrow> madt_entry list \<Rightarrow> bool" where
  "madt_at m madt lapic_addr es \<longleftrightarrow> bytes_at m (madt + madt_lapic_addr) (le32 lapic_addr) \<and>
     bytes_at m (madt + dt_length) (le32 (sizeof_madt + of_nat (length (table_bytes es)))) \<and>
     bytes_at m (madt + sizeof_madt) (table_bytes es) \<and> (\<forall>e \<in> set es. entry_ok e) \<and>
     unat madt + 44 + length (table_bytes es) < 2 ^ 32"

text \<open>What the two passes leave in the global system table.\<close>

definition counted :: "u32 \<Rightarrow> madt_entry list \<Rightarrow> gst \<Rightarrow> gst" where
  "counted lapic_addr es g = g\<lparr>lapic_base := lapic_addr,
     processor_count := processor_count g + of_nat (length (lapics_of es)),
     ioapic_count := ioapic_count g + of_nat (length (ioapics_of es))\<rparr>"

definition filled :: "per_cpu_data \<Rightarrow> madt_entry list \<Rightarrow> gst \<Rightarrow> gst" where
  "filled junk es g = g\<lparr>ioapic_base := last (ioapic_base g # ioapics_of es),
     ioapic_overrides := set_overrides (overrides_of es) (ioapic_overrides g),
     per_cpu_ptrs := set_ptrs 0 (map fst (lapics_of es)) (per_cpu_ptrs g),
     per_cpu_data_base := cpus_of junk es\<rparr>"

lemma madt_pass_bounds:
  fixes madt :: u32
  assumes "unat madt + 44 + n < 2 ^ 32"
  shows "unat (madt + sizeof_madt) + n < 2 ^ 32" "madt + (sizeof_madt + of_nat n) = madt + sizeof_madt + of_nat n"
proof -
  have "unat (sizeof_madt :: u32) = 44" by (simp add: sizeof_madt_def)
  then show "unat (madt + sizeof_madt) + n < 2 ^ 32" using assms by (simp add: unat_word_ariths)
qed (simp add: add.assoc)

lemma madt_first_pass:
  assumes "madt_at m madt lapic_addr es"
  shows "madt_first_parse m madt g = Inr (0, counted lapic_addr es g)"
proof -
  have t: "bytes_at m (madt + madt_lapic_addr) (le32 lapic_addr)"
    "bytes_at m (madt + dt_length) (le32 (sizeof_madt + of_nat (length (table_bytes es))))"
    "bytes_at m (madt + sizeof_madt) (table_bytes es)" "\<forall>e \<in> set es. entry_ok e"
    "unat madt + 44 + length (table_bytes es) < 2 ^ 32"
    using assms by (simp_all add: madt_at_def)
  note b = madt_pass_bounds [OF t(5)]
  show ?thesis
    using first_loop_entries [OF t(3,4) b] count_entries [OF t(4), of "g\<lparr>lapic_base := lapic_addr\<rparr>"]
    by (simp add: madt_first_parse_def kload32_le32 [OF t(1)] kload32_le32 [OF t(2)] counted_def)
qed

lemma madt_second_pass:
  assumes "madt_at m madt lapic_addr es" "room g" "length (per_cpu_data_base g) = length (lapics_of es)"
  shows "if ids_match es \<and> irqs_legacy es then madt_parse m junk madt g = Inr (0, filled junk es g)
    else \<exists>e. madt_parse m junk madt g = Inl e"
proof -
  have t: "bytes_at m (madt + dt_length) (le32 (sizeof_madt + of_nat (length (table_bytes es))))"
    "bytes_at m (madt + sizeof_madt) (table_bytes es)" "\<forall>e \<in> set es. entry_ok e"
    "unat madt + 44 + length (table_bytes es) < 2 ^ 32"
    using assms(1) by (simp_all add: madt_at_def)
  have run: "madt_parse m junk madt g = res_bind (map_sum (\<lambda>e. e) snd (entry_effects junk es (0, g))) (\<lambda>g. Inr (0, g))"
    using loop_entries [OF t(2,3) madt_pass_bounds [OF t(4)], of junk 0 g]
    by (simp add: madt_parse_def kload32_le32 [OF t(1)])
  show ?thesis
  proof (cases "ids_match es \<and> irqs_legacy es")
    case True
    then show ?thesis using run effects_ok [OF assms(2), of 0 es junk] assms(3) by (simp add: filled_def)
  next
    case False
    have "length (ioapic_overrides g) = 16" using assms(2) by (simp add: room_def)
    then obtain e where "entry_effects junk es (0, g) = Inl e"
      using effects_fail [of g junk es 0] False by (cases "entry_effects junk es (0, g)") auto
    then show ?thesis using run False by auto
  qed
qed

end
