(* ===== verification/Boot_Paging.thy ===== *)
theory Boot_Paging
  imports Paging
begin

text \<open>
  \<^verbatim>\<open>kernel_init.c\<close>: the page tables built before paging is on.  The directory and at most
  seven tables lie in 32 KB from 0x80000; physical memory is a function from the address of each
  aligned word.  The symbols of the linker script are parameters.  Clearing bytes of whole pages
  is clearing their words.  A new table is cleared together with the three pages behind it, because
  \<^verbatim>\<open>entry_space + 4096\<close> counts words: from the fifth table on this leaves the 32 KB.  The message
  shown before the processor halts is the one of the fault.
\<close>

unbundle bit_operations_syntax

section \<open>Operations\<close>

definition PAGE_SIZE :: u32 where "PAGE_SIZE = 4096"

definition dummy_space :: u32 where "dummy_space = 0x80000"

primrec clear_words :: "nat \<Rightarrow> u32 \<Rightarrow> phys_ram \<Rightarrow> phys_ram" where
  "clear_words 0 a m = m"
| "clear_words (Suc n) a m = clear_words n (a + 4) (m(a := 0))"

text \<open>The state is the static \<^verbatim>\<open>dummy_space_index\<close> and memory.\<close>

definition map_page :: "u32 \<Rightarrow> u32 \<Rightarrow> u32 \<Rightarrow> u32 \<times> phys_ram \<Rightarrow> u32 \<times> phys_ram" where
  "map_page page_directory pa va = (\<lambda>(dummy_space_index, m).
     let table_index = drop_bit 22 va;
         entry_index = drop_bit 12 va AND 0x03FF;
         (dummy_space_index, m) =
           (if m (page_directory + 4 * table_index) AND NOT 0xFFF = 0 then
              let entry_space = dummy_space + dummy_space_index;
                  m = m(page_directory + 4 * table_index := entry_space OR 3)
              in (dummy_space_index + 4096, clear_words 4096 entry_space m)
            else (dummy_space_index, m));
         entry = m (page_directory + 4 * table_index) AND NOT 0xFFF
     in (dummy_space_index, m(entry + 4 * entry_index := pa OR 3)))"

text \<open>The three loops of initializer_main have this shape.\<close>

primrec map_range :: "string \<Rightarrow> nat \<Rightarrow> u32 \<Rightarrow> u32 \<Rightarrow> u32 \<Rightarrow> u32 \<Rightarrow> u32 \<times> phys_ram \<Rightarrow> (u32 \<times> phys_ram) res" where
  "map_range msg 0 index dir pa va st = Inr st"
| "map_range msg (Suc n) index dir pa va st =
     (let st = map_page dir (pa + index * PAGE_SIZE) (va + index * PAGE_SIZE) st in
      if fst st \<ge> 32 * 1024 then Inl (Panic msg) else map_range msg n (index + 1) dir pa va st)"

definition page_count :: "u32 \<Rightarrow> u32 \<Rightarrow> u32" where
  "page_count start fin =
     (fin - start) div PAGE_SIZE + (if (fin - start) mod PAGE_SIZE \<noteq> 0 then 1 else 0)"

text \<open>The answer is memory when paging is switched on; cr3 is then the directory.\<close>

definition initializer_main :: "u32 \<Rightarrow> u32 \<Rightarrow> u32 \<Rightarrow> u32 \<Rightarrow> u32 \<Rightarrow> phys_ram \<Rightarrow> phys_ram res" where
  "initializer_main kernel_start kernel_end kernel_physical_start init_start init_end m =
     (let init_pages = page_count init_start init_end;
          kernel_pages = page_count kernel_start kernel_end;
          page_directory = dummy_space;
          m = clear_words 8192 dummy_space m in
      res_bind (map_range ''kernel is too large to fit in 32 KB'' (unat kernel_pages) 0 page_directory
          kernel_physical_start kernel_start (4096, m)) (\<lambda>st.
      res_bind (map_range ''kernel initializer is too large to fit in 32 KB'' (unat init_pages) 0 page_directory
          init_start init_start st) (\<lambda>st.
      res_bind (map_range ''cannot identity map 1st MB'' (512 + 256) 0 page_directory 0 0 st) (\<lambda>st.
        Inr (snd st)))))"

section \<open>Memory\<close>

lemma clear_words_apply:
  assumes "unat a + 4 * n \<le> 2 ^ 32"
  shows "clear_words n a m x = (if \<exists>k<n. x = a + 4 * of_nat k then 0 else m x)"
  using assms
proof (induction n arbitrary: a m)
  case (Suc n)
  have split: "(\<exists>k<Suc n. x = a + 4 * of_nat k) \<longleftrightarrow> x = a \<or> (\<exists>k<n. x = a + 4 + 4 * of_nat k)"
    unfolding Ex_less_Suc2 by (simp add: algebra_simps)
  show ?case
  proof (cases "n = 0")
    case False
    then have "unat (a + 4) = unat a + 4" using Suc.prems by (simp add: unat_word_ariths)
    then have "clear_words n (a + 4) (m(a := 0)) x = (if \<exists>k<n. x = a + 4 + 4 * of_nat k then 0 else (m(a := 0)) x)"
      using Suc.prems by (intro Suc.IH) simp
    then show ?thesis unfolding split by auto
  qed (simp add: split)
qed simp

text \<open>Table \<open>t\<close> of the reserved space; the directory is the first of its pages.\<close>

definition boot_page :: "nat \<Rightarrow> u32" where
  "boot_page t = dummy_space + 4096 * of_nat t"

lemma unat_boot_page: "t < 8 \<Longrightarrow> unat (boot_page t) = 524288 + 4096 * t"
  by (simp add: boot_page_def dummy_space_def unat_word_ariths)

lemma boot_page_0: "boot_page 0 = dummy_space"
  by (simp add: boot_page_def)

lemma boot_page_aligned: "frame_aligned (boot_page t)"
proof -
  have "boot_page t = push_bit 12 (0x80 + of_nat t)"
    by (simp add: boot_page_def dummy_space_def push_bit_eq_mult algebra_simps)
  then show ?thesis by (auto intro!: frame_alignedI simp: bit_simps)
qed

lemma boot_page_inj: "s < 8 \<Longrightarrow> t < 8 \<Longrightarrow> boot_page s = boot_page t \<longleftrightarrow> s = t"
  by (auto simp: word_unat_eq_iff unat_boot_page)

lemma boot_word_eq:
  "s < 8 \<Longrightarrow> t < 8 \<Longrightarrow> k < 1024 \<Longrightarrow> l < 1024 \<Longrightarrow>
    boot_page s + 4 * of_nat k = boot_page t + 4 * of_nat l \<longleftrightarrow> s = t \<and> k = l"
  using entry_eq_iff [OF boot_page_aligned boot_page_aligned] boot_page_inj by blast

lemma unat_boot_word: "t < 8 \<Longrightarrow> j < 4096 \<Longrightarrow> unat (boot_page t + 4 * of_nat j) = 524288 + 4096 * t + 4 * j"
  by (simp add: boot_page_def dummy_space_def unat_word_ariths)

text \<open>The four pages from \<open>n\<close> on hold no word of an earlier page.\<close>

lemma boot_words_apart:
  assumes "t < n" "n < 8" "j < 1024" "k < 4096"
  shows "boot_page t + 4 * of_nat j \<noteq> boot_page n + 4 * of_nat k"
  using assms by (simp add: word_unat_eq_iff unat_boot_word)

lemma boot_entry:
  assumes "frame_aligned a"
  shows "(a OR 3) AND NOT 0xFFF = a" "pd_entry_get_frame (a OR 3) = a" "pt_entry_get_frame (a OR 3) = a" "bit (a OR 3) 0"
proof -
  note e = entry_frame_flags [OF assms, of 3, simplified]
  then show "pd_entry_get_frame (a OR 3) = a" "pt_entry_get_frame (a OR 3) = a" "bit (a OR 3) 0" by (simp_all add: bit_0)
  have "(NOT 0xFFF :: u32) = I86_PDE_FRAME" by (simp add: I86_PDE_FRAME_def)
  with e(1) show "(a OR 3) AND NOT 0xFFF = a" by (simp add: pd_entry_get_frame_def)
qed

lemma boot_page_nonzero: "t < 8 \<Longrightarrow> boot_page t \<noteq> 0"
  by (simp add: word_unat_eq_iff unat_boot_page)

section \<open>The tables as a map of pages\<close>

abbreviation page_no :: "u32 \<Rightarrow> nat" where "page_no va \<equiv> unat va div 4096"

lemma page_no_index: "dir_index va = page_no va div 1024" "tab_index va = page_no va mod 1024"
  by (simp_all add: dir_index_def tab_index_def div_mult2_eq [symmetric])

lemma page_no_less: "page_no va < 1048576"
  using unat_u32_less [of va] by (simp add: div_less_iff_less_mult)

text \<open>
  \<open>n - 1\<close> tables are in use; \<open>tab\<close> says which table the entry of the directory points to, and
  \<open>m\<close> which frame each page number is mapped to.
\<close>

definition boot_inv :: "phys_ram \<Rightarrow> nat \<Rightarrow> (nat \<Rightarrow> nat option) \<Rightarrow> (nat \<Rightarrow> u32 option) \<Rightarrow> bool" where
  "boot_inv ram n tab m \<longleftrightarrow>
     1 \<le> n \<and> n \<le> 8 \<and> dom tab \<subseteq> {..<1024} \<and> card (dom tab) = n - 1 \<and> inj_on tab (dom tab) \<and> ran tab \<subseteq> {1..<n} \<and>
     (\<forall>i<1024. ram (boot_page 0 + 4 * of_nat i) = (case tab i of None \<Rightarrow> 0 | Some t \<Rightarrow> boot_page t OR 3)) \<and>
     (\<forall>p<1048576. case tab (p div 1024) of
        None \<Rightarrow> m p = None
      | Some t \<Rightarrow> ram (boot_page t + 4 * of_nat (p mod 1024)) = (case m p of None \<Rightarrow> 0 | Some pa \<Rightarrow> pa OR 3)) \<and>
     (\<forall>p pa. m p = Some pa \<longrightarrow> frame_aligned pa)"

lemma boot_invD:
  assumes "boot_inv ram n tab m"
  shows "1 \<le> n" "n \<le> 8" "dom tab \<subseteq> {..<1024}" "card (dom tab) = n - 1" "inj_on tab (dom tab)"
    "tab i = Some t \<Longrightarrow> 1 \<le> t \<and> t < n"
    "i < 1024 \<Longrightarrow> ram (boot_page 0 + 4 * of_nat i) = (case tab i of None \<Rightarrow> 0 | Some t \<Rightarrow> boot_page t OR 3)"
    "p < 1048576 \<Longrightarrow> tab (p div 1024) = None \<Longrightarrow> m p = None"
    "p < 1048576 \<Longrightarrow> tab (p div 1024) = Some t \<Longrightarrow>
      ram (boot_page t + 4 * of_nat (p mod 1024)) = (case m p of None \<Rightarrow> 0 | Some pa \<Rightarrow> pa OR 3)"
    "m p = Some pa \<Longrightarrow> frame_aligned pa"
proof -
  have dir: "\<forall>i<1024. ram (boot_page 0 + 4 * of_nat i) = (case tab i of None \<Rightarrow> 0 | Some t \<Rightarrow> boot_page t OR 3)"
    and tabs: "\<forall>p<1048576. case tab (p div 1024) of None \<Rightarrow> m p = None
      | Some t \<Rightarrow> ram (boot_page t + 4 * of_nat (p mod 1024)) = (case m p of None \<Rightarrow> 0 | Some pa \<Rightarrow> pa OR 3)"
    and frames: "\<forall>p pa. m p = Some pa \<longrightarrow> frame_aligned pa" and tr: "ran tab \<subseteq> {1..<n}"
    using assms unfolding boot_inv_def by blast+
  show "1 \<le> n" "n \<le> 8" "dom tab \<subseteq> {..<1024}" "card (dom tab) = n - 1" "inj_on tab (dom tab)"
    using assms unfolding boot_inv_def by blast+
  show "tab i = Some t \<Longrightarrow> 1 \<le> t \<and> t < n" using ranI [of tab i t] tr by auto
  show "i < 1024 \<Longrightarrow> ram (boot_page 0 + 4 * of_nat i) = (case tab i of None \<Rightarrow> 0 | Some t \<Rightarrow> boot_page t OR 3)"
    using dir by blast
  show "p < 1048576 \<Longrightarrow> tab (p div 1024) = None \<Longrightarrow> m p = None" using spec [OF tabs, of p] by simp
  show "p < 1048576 \<Longrightarrow> tab (p div 1024) = Some t \<Longrightarrow>
      ram (boot_page t + 4 * of_nat (p mod 1024)) = (case m p of None \<Rightarrow> 0 | Some pa \<Rightarrow> pa OR 3)"
    using spec [OF tabs, of p] by simp
  show "m p = Some pa \<Longrightarrow> frame_aligned pa" using frames by blast
qed

lemma boot_translate:
  assumes "boot_inv ram n tab m"
  shows "translate ram dummy_space va = map_option (\<lambda>pa. pa + (va AND 0xFFF)) (m (page_no va))"
proof -
  have dir: "frame_aligned dummy_space" using boot_page_aligned [of 0] by (simp add: boot_page_0)
  have i: "dir_index va < 1024" by simp
  have pde: "pde_at ram dummy_space (dir_index va) =
      (case tab (dir_index va) of None \<Rightarrow> 0 | Some t \<Rightarrow> boot_page t OR 3)"
    using boot_invD(7) [OF assms i] by (simp add: pde_at_def get_frame_id [OF dir] boot_page_0)
  show ?thesis
  proof (cases "tab (dir_index va)")
    case None
    then have "m (page_no va) = None" using boot_invD(8) [OF assms page_no_less] by (simp add: page_no_index)
    then show ?thesis using None pde by (simp add: translate_def pd_entry_is_present_def)
  next
    case (Some t)
    note bp = boot_entry [OF boot_page_aligned [of t]]
    have "pte_at ram (boot_page t OR 3) (tab_index va) = (case m (page_no va) of None \<Rightarrow> 0 | Some pa \<Rightarrow> pa OR 3)"
      using boot_invD(9) [OF assms page_no_less, of va t] Some bp(2) by (simp add: pte_at_def page_no_index)
    then show ?thesis
      using Some pde bp(4) boot_entry(3,4) [OF boot_invD(10) [OF assms]]
      by (auto simp: translate_def present_iff bit_0 split: option.splits)
  qed
qed

lemma boot_new_table:
  assumes inv: "boot_inv ram n tab m" and n: "n < 8" and i: "i < 1024" "tab i = None"
  shows "boot_inv (clear_words 4096 (boot_page n) (ram(boot_page 0 + 4 * of_nat i := boot_page n OR 3))) (Suc n) (tab(i \<mapsto> n)) m"
    (is "boot_inv ?ram _ ?tab _")
proof -
  note d = boot_invD [OF inv]
  have ram: "?ram x = (if \<exists>k<4096. x = boot_page n + 4 * of_nat k then 0
      else if x = boot_page 0 + 4 * of_nat i then boot_page n OR 3 else ram x)" for x
  proof -
    have "unat (boot_page n) + 4 * 4096 \<le> 2 ^ 32" using n by (simp add: unat_boot_page)
    from clear_words_apply [OF this] show ?thesis by (simp only: fun_upd_apply)
  qed
  have dir: "?ram (boot_page 0 + 4 * of_nat j) = (if j = i then boot_page n OR 3 else ram (boot_page 0 + 4 * of_nat j))"
    if "j < 1024" for j
    using that i n d(1) boot_words_apart [of 0 n j] boot_word_eq [of 0 0 j i] unfolding ram by auto
  have old: "?ram (boot_page t + 4 * of_nat j) = ram (boot_page t + 4 * of_nat j)"
    if "j < 1024" "1 \<le> t" "t < n" for t j
    using that n i boot_words_apart [of t n j] boot_word_eq [of t 0 j i] unfolding ram by auto
  have new: "?ram (boot_page n + 4 * of_nat j) = 0" if "j < 1024" for j
  proof -
    have "\<exists>k<4096. boot_page n + 4 * of_nat j = boot_page n + 4 * of_nat k" using that by (intro exI [of _ j]) simp
    then show ?thesis unfolding ram by (rule if_P)
  qed
  have fresh: "n \<notin> ran tab" using d(6) by (auto simp: ran_def)
  have fin: "finite (dom tab)" using d(3) finite_subset by blast
  show ?thesis
    unfolding boot_inv_def
  proof (intro conjI allI impI)
    show "dom ?tab \<subseteq> {..<1024}" using d(3) i by auto
    show "card (dom ?tab) = Suc n - 1" using fin i d(1,4) by (simp add: domIff)
    show "inj_on ?tab (dom ?tab)"
      using d(5) fresh i by (auto simp: inj_on_def ran_def)
    show "ran ?tab \<subseteq> {1..<Suc n}" using d(1,6) i by (fastforce simp: ran_def split: if_splits)
    fix j :: nat assume "j < 1024"
    then show "?ram (boot_page 0 + 4 * of_nat j) = (case ?tab j of None \<Rightarrow> 0 | Some t \<Rightarrow> boot_page t OR 3)"
      using dir d(7) by simp
  next
    fix p :: nat assume p: "p < 1048576"
    show "case ?tab (p div 1024) of None \<Rightarrow> m p = None
      | Some t \<Rightarrow> ?ram (boot_page t + 4 * of_nat (p mod 1024)) = (case m p of None \<Rightarrow> 0 | Some pa \<Rightarrow> pa OR 3)"
    proof (cases "p div 1024 = i")
      case True
      then show ?thesis using d(8) [OF p] i new by simp
    next
      case False
      then show ?thesis
        using d(8) [OF p] d(9) [OF p] old [OF _ conjunct1 [OF d(6)] conjunct2 [OF d(6)]] by (auto split: option.splits)
    qed
  qed (use n d(10) in auto)
qed

lemma boot_set_page:
  assumes inv: "boot_inv ram n tab m" and t: "tab (p div 1024) = Some t" and p: "p < 1048576" and pa: "frame_aligned pa"
  shows "boot_inv (ram(boot_page t + 4 * of_nat (p mod 1024) := pa OR 3)) n tab (m(p \<mapsto> pa))"
    (is "boot_inv ?ram _ _ _")
proof -
  note d = boot_invD [OF inv]
  have t8: "1 \<le> t" "t < 8" using d(2,6) t by fastforce+
  have dir: "?ram (boot_page 0 + 4 * of_nat j) = ram (boot_page 0 + 4 * of_nat j)" if "j < 1024" for j
    using that t8 boot_word_eq [of 0 t j "p mod 1024"] by simp
  have tabs: "?ram (boot_page s + 4 * of_nat (q mod 1024)) =
      (if q = p then pa OR 3 else ram (boot_page s + 4 * of_nat (q mod 1024)))" if s: "tab (q div 1024) = Some s" for s q
  proof -
    have "s < 8" using d(2,6) s by fastforce
    moreover have "s = t \<longleftrightarrow> q div 1024 = p div 1024"
      using s t d(5) by (auto simp: inj_on_def domIff)
    moreover have "q = p \<longleftrightarrow> q div 1024 = p div 1024 \<and> q mod 1024 = p mod 1024"
      by (metis div_mult_mod_eq)
    ultimately show ?thesis using t8 boot_word_eq [of s t "q mod 1024" "p mod 1024"] by auto
  qed
  show ?thesis
    unfolding boot_inv_def
  proof (intro conjI allI impI)
    fix j :: nat assume "j < 1024"
    then show "?ram (boot_page 0 + 4 * of_nat j) = (case tab j of None \<Rightarrow> 0 | Some t \<Rightarrow> boot_page t OR 3)"
      using dir d(7) by simp
  next
    fix q :: nat assume q: "q < 1048576"
    show "case tab (q div 1024) of None \<Rightarrow> (m(p \<mapsto> pa)) q = None
      | Some s \<Rightarrow> ?ram (boot_page s + 4 * of_nat (q mod 1024)) = (case (m(p \<mapsto> pa)) q of None \<Rightarrow> 0 | Some pa \<Rightarrow> pa OR 3)"
      using d(8) [OF q] d(9) [OF q] tabs t by (cases "tab (q div 1024)") auto
  next
    fix q a assume "(m(p \<mapsto> pa)) q = Some a"
    then show "frame_aligned a" using pa d(10) by (auto split: if_splits)
  qed (use d in \<open>auto simp: ran_def\<close>)
qed

section \<open>One page\<close>

lemma entry_indices:
  "drop_bit 22 va = of_nat (dir_index va)" "drop_bit 12 va AND 0x03FF = of_nat (tab_index va)" for va :: u32
proof -
  have d: "dir_index va < 4294967296" "tab_index va < 4294967296"
    using dir_index_less [of va] tab_index_less [of va] by linarith+
  have "unat (drop_bit 22 va) = dir_index va" by (simp add: dir_index_def drop_bit_eq_div word_nat)
  with d show "drop_bit 22 va = of_nat (dir_index va)" by (simp add: word_unat_eq_iff)
  have "(0x03FF :: u32) = mask 10" by (simp add: mask_eq_exp_minus_1)
  then have "drop_bit 12 va AND 0x03FF = take_bit 10 (drop_bit 12 va)" by (simp add: take_bit_eq_mask)
  then have "unat (drop_bit 12 va AND 0x03FF) = tab_index va"
    by (simp add: tab_index_def drop_bit_eq_div take_bit_eq_mod word_nat)
  with d show "drop_bit 12 va AND 0x03FF = of_nat (tab_index va)" by (simp add: word_unat_eq_iff)
qed

text \<open>Memory below the reserved space, and from the third page behind page \<open>n\<close> on, is untouched.\<close>

definition untouched :: "nat \<Rightarrow> phys_ram \<Rightarrow> phys_ram \<Rightarrow> bool" where
  "untouched n ram ram' \<longleftrightarrow> (\<forall>a. unat a < 524288 \<or> 524288 + 4096 * (n + 3) \<le> unat a \<longrightarrow> ram' a = ram a)"

lemma untouched_refl [simp]: "untouched n ram ram"
  by (simp add: untouched_def)

lemma untouched_trans: "untouched n a b \<Longrightarrow> n \<le> n' \<Longrightarrow> untouched n' b c \<Longrightarrow> untouched n' a c"
  by (auto simp: untouched_def)

lemma untouched_upd: "t < n \<Longrightarrow> t < 8 \<Longrightarrow> j < 1024 \<Longrightarrow> untouched n a b \<Longrightarrow> untouched n a (b(boot_page t + 4 * of_nat j := w))"
  by (auto simp: untouched_def unat_boot_word)

lemma untouched_clear:
  assumes "n < 8"
  shows "untouched (Suc n) ram (clear_words 4096 (boot_page n) ram)"
proof -
  have "unat (boot_page n) + 4 * 4096 \<le> 2 ^ 32" using assms by (simp add: unat_boot_page)
  from clear_words_apply [OF this] show ?thesis using assms by (auto simp: untouched_def unat_boot_word)
qed

lemma map_page_step:
  assumes inv: "boot_inv ram n tab m" and n: "n < 8" and pa: "frame_aligned pa"
  shows "\<exists>ram' n' tab'. map_page dummy_space pa va (of_nat (4096 * n), ram) = (of_nat (4096 * n'), ram') \<and>
    boot_inv ram' n' tab' (m(page_no va \<mapsto> pa)) \<and> dom tab' = insert (dir_index va) (dom tab) \<and>
    n \<le> n' \<and> untouched n' ram ram'"
proof -
  note d = boot_invD [OF inv]
  let ?i = "dir_index va"
  have i: "?i < 1024" by simp
  have word: "dummy_space + 4 * drop_bit 22 va = boot_page 0 + 4 * of_nat ?i"
    by (simp add: entry_indices boot_page_0)
  show ?thesis
  proof (cases "tab ?i")
    case (Some t)
    have t: "t < 8" using d(2,6) Some by fastforce
    have "ram (boot_page 0 + 4 * of_nat ?i) AND NOT 0xFFF = boot_page t"
      using d(7) [OF i] Some boot_entry(1) [OF boot_page_aligned [of t]] by simp
    then have "map_page dummy_space pa va (of_nat (4096 * n), ram) =
        (of_nat (4096 * n), ram(boot_page t + 4 * of_nat (tab_index va) := pa OR 3))"
      unfolding map_page_def Let_def prod.case word by (simp add: entry_indices boot_page_nonzero [OF t])
    moreover have "boot_inv (ram(boot_page t + 4 * of_nat (tab_index va) := pa OR 3)) n tab (m(page_no va \<mapsto> pa))"
      using boot_set_page [OF inv _ page_no_less pa, of va t] Some by (simp add: page_no_index)
    moreover have "dom tab = insert ?i (dom tab)" using Some by auto
    moreover have "untouched n ram (ram(boot_page t + 4 * of_nat (tab_index va) := pa OR 3))"
      using d(6) [OF Some] t by (intro untouched_upd) simp_all
    ultimately show ?thesis by blast
  next
    case None
    let ?ram = "clear_words 4096 (boot_page n) (ram(boot_page 0 + 4 * of_nat ?i := boot_page n OR 3))"
    note inv' = boot_new_table [OF inv n i None]
    have "?ram (boot_page 0 + 4 * of_nat ?i) AND NOT 0xFFF = boot_page n"
      using boot_invD(7) [OF inv' i] boot_entry(1) [OF boot_page_aligned [of n]] by simp
    moreover have "ram (boot_page 0 + 4 * of_nat ?i) = 0" using d(7) [OF i] None by simp
    moreover have "dummy_space + of_nat (4096 * n) = boot_page n" by (simp add: boot_page_def)
    moreover have "of_nat (4096 * n) + 4096 = (of_nat (4096 * Suc n) :: u32)" by simp
    ultimately have "map_page dummy_space pa va (of_nat (4096 * n), ram) =
        (of_nat (4096 * Suc n), ?ram(boot_page n + 4 * of_nat (tab_index va) := pa OR 3))"
      unfolding map_page_def Let_def prod.case word by (simp add: entry_indices)
    moreover have "boot_inv (?ram(boot_page n + 4 * of_nat (tab_index va) := pa OR 3)) (Suc n) (tab(?i \<mapsto> n)) (m(page_no va \<mapsto> pa))"
      using boot_set_page [OF inv' _ page_no_less pa, of va n] by (simp add: page_no_index)
    moreover have "dom (tab(?i \<mapsto> n)) = insert ?i (dom tab)" by simp
    moreover have "untouched (Suc n) ram (ram(boot_page 0 + 4 * of_nat ?i := boot_page n OR 3))"
      by (intro untouched_upd) simp_all
    from untouched_upd [OF _ n _ untouched_trans [OF this _ untouched_clear [OF n]], of "tab_index va" "pa OR 3"]
    have "untouched (Suc n) ram (?ram(boot_page n + 4 * of_nat (tab_index va) := pa OR 3))" by simp
    ultimately show ?thesis using le_SucI [OF order.refl [of n]] by blast
  qed
qed

section \<open>A run of pages\<close>

definition map_pages :: "u32 \<Rightarrow> u32 \<Rightarrow> nat \<Rightarrow> (nat \<Rightarrow> u32 option) \<Rightarrow> nat \<Rightarrow> u32 option" where
  "map_pages va pa n m q =
     (if page_no va \<le> q \<and> q < page_no va + n then Some (pa + 4096 * of_nat (q - page_no va)) else m q)"

definition dirs_of :: "nat \<Rightarrow> nat \<Rightarrow> nat set" where
  "dirs_of p n = (\<lambda>q. q div 1024) ` {p..<p + n}"

lemma map_range_shift:
  "map_range msg n (index + k) dir pa va st = map_range msg n index dir (pa + k * PAGE_SIZE) (va + k * PAGE_SIZE) st"
proof (induction n arbitrary: index st)
  case (Suc n)
  have "index + k + 1 = (index + 1) + k" by simp
  then show ?case using Suc.IH [of "index + 1"] by (simp add: Let_def algebra_simps)
qed simp

lemma map_range_Suc:
  "map_range msg (Suc n) 0 dir pa va st =
     (let st = map_page dir pa va st in
      if fst st \<ge> 32 * 1024 then Inl (Panic msg) else map_range msg n 0 dir (pa + PAGE_SIZE) (va + PAGE_SIZE) st)"
  using map_range_shift [of msg n 0 1 dir pa va] by (simp add: Let_def)

lemma frame_aligned_unat: "frame_aligned a \<longleftrightarrow> unat a mod 4096 = 0"
proof -
  have "unat (a AND mask 12) = unat a mod 4096"
    by (simp flip: take_bit_eq_mask add: take_bit_eq_mod word_nat)
  then show ?thesis by (simp add: frame_aligned_def word_unat_eq_iff)
qed

lemma frame_aligned_add:
  assumes "frame_aligned a"
  shows "frame_aligned (a + PAGE_SIZE)"
proof -
  have "unat (a + PAGE_SIZE) = (unat a + 4096) mod 4294967296" by (simp add: PAGE_SIZE_def unat_word_ariths)
  moreover have "(unat a + 4096) mod 4294967296 mod 4096 = (unat a + 4096) mod 4096" by (rule mod_mod_cancel) simp
  ultimately show ?thesis using assms by (simp only: frame_aligned_unat mod_add_self2)
qed

lemma page_no_next:
  assumes "page_no va + 1 < 1048576"
  shows "page_no (va + PAGE_SIZE) = page_no va + 1"
proof -
  have "unat va + 4096 < 4294967296" using assms by linarith
  then show ?thesis by (simp add: PAGE_SIZE_def unat_word_ariths)
qed

lemma dirs_of_Suc: "dirs_of p (Suc n) = insert (p div 1024) (dirs_of (p + 1) n)"
proof -
  have "{p..<p + Suc n} = insert p {p + 1..<p + 1 + n}" by auto
  then show ?thesis by (simp add: dirs_of_def)
qed

lemma map_pages_Suc:
  assumes "page_no va + Suc n \<le> 1048576"
  shows "map_pages (va + PAGE_SIZE) (pa + PAGE_SIZE) n (m(page_no va \<mapsto> pa)) = map_pages va pa (Suc n) m"
proof (cases "n = 0")
  case False
  then have p: "page_no (va + PAGE_SIZE) = page_no va + 1" using assms by (intro page_no_next) simp
  show ?thesis
  proof
    fix q
    show "map_pages (va + PAGE_SIZE) (pa + PAGE_SIZE) n (m(page_no va \<mapsto> pa)) q = map_pages va pa (Suc n) m q"
    proof (cases "page_no va < q")
      case True
      then obtain r where "q = page_no va + Suc r" using less_iff_Suc_add by auto
      then show ?thesis unfolding map_pages_def p by (simp add: PAGE_SIZE_def algebra_simps)
    next
      case False
      then show ?thesis unfolding map_pages_def p by auto
    qed
  qed
next
  case True
  then show ?thesis by (auto simp: map_pages_def fun_eq_iff)
qed

lemma map_range_spec:
  assumes "boot_inv ram k tab m" "k < 8" "frame_aligned pa" "page_no va + n \<le> 1048576 \<or> n = 0"
  shows "if card (dom tab \<union> dirs_of (page_no va) n) < 7
    then \<exists>ram' k' tab'. map_range msg n 0 dummy_space pa va (of_nat (4096 * k), ram) = Inr (of_nat (4096 * k'), ram') \<and>
      k' < 8 \<and> boot_inv ram' k' tab' (map_pages va pa n m) \<and> dom tab' = dom tab \<union> dirs_of (page_no va) n \<and>
      k \<le> k' \<and> untouched k' ram ram'
    else map_range msg n 0 dummy_space pa va (of_nat (4096 * k), ram) = Inl (Panic msg)"
  using assms
proof (induction n arbitrary: ram k tab m pa va)
  case 0
  have "map_pages va pa 0 m = m" by (auto simp: map_pages_def fun_eq_iff)
  moreover have "card (dom tab) < 7" using boot_invD(1,4) [OF 0(1)] 0(2) by simp
  ultimately show ?case using 0 by (auto simp: dirs_of_def)
next
  case (Suc n)
  obtain ram' k' tab' where step: "map_page dummy_space pa va (of_nat (4096 * k), ram) = (of_nat (4096 * k'), ram')"
    and inv: "boot_inv ram' k' tab' (m(page_no va \<mapsto> pa))" and dom: "dom tab' = insert (dir_index va) (dom tab)"
    and out: "k \<le> k'" "untouched k' ram ram'"
    using map_page_step [OF Suc.prems(1-3)] by blast
  have k': "k' \<le> 8" "card (dom tab') = k' - 1" "1 \<le> k'" using boot_invD [OF inv] by blast+
  have full: "32 * 1024 \<le> (of_nat (4096 * k') :: u32) \<longleftrightarrow> k' = 8"
  proof -
    have "unat (of_nat (4096 * k') :: u32) = 4096 * k'" using k'(1) by (intro unat_of_nat_u32) simp
    then show ?thesis using k'(1) by (simp only: word_le_nat_alt) auto
  qed
  have last: "page_no va + Suc n \<le> 1048576" using Suc.prems(4) by simp
  have dirs: "dom tab \<union> dirs_of (page_no va) (Suc n) = dom tab' \<union> dirs_of (page_no va + 1) n"
    by (simp add: dom dirs_of_Suc page_no_index)
  have dirs': "dirs_of (page_no (va + PAGE_SIZE)) n = dirs_of (page_no va + 1) n"
  proof (cases "n = 0")
    case False
    then show ?thesis using last by (subst page_no_next) simp_all
  qed (simp add: dirs_of_def)
  have fin: "finite (dom tab' \<union> dirs_of (page_no va + 1) n)"
    using boot_invD(3) [OF inv] by (auto simp: dirs_of_def intro: finite_subset)
  show ?case
  proof (cases "k' = 8")
    case True
    then have "7 \<le> card (dom tab' \<union> dirs_of (page_no va + 1) n)"
      using k' card_mono [OF fin, of "dom tab'"] by simp
    moreover have "map_range msg (Suc n) 0 dummy_space pa va (of_nat (4096 * k), ram) = Inl (Panic msg)"
      unfolding map_range_Suc step Let_def fst_conv using full True by (intro if_P) blast
    ultimately show ?thesis by (simp only: dirs not_less [symmetric] if_False)
  next
    case False
    then have "k' < 8" using k' by simp
    moreover have "page_no (va + PAGE_SIZE) + n \<le> 1048576 \<or> n = 0"
      using last by (cases "n = 0") (simp_all add: page_no_next)
    moreover have "map_range msg (Suc n) 0 dummy_space pa va (of_nat (4096 * k), ram) =
        map_range msg n 0 dummy_space (pa + PAGE_SIZE) (va + PAGE_SIZE) (of_nat (4096 * k'), ram')"
      unfolding map_range_Suc step Let_def fst_conv using full False by (intro if_not_P) blast
    moreover note Suc.IH [OF inv \<open>k' < 8\<close> frame_aligned_add [OF Suc.prems(3)]
        \<open>page_no (va + PAGE_SIZE) + n \<le> 1048576 \<or> n = 0\<close>, unfolded map_pages_Suc [OF last] dirs']
    moreover have "k \<le> l \<and> untouched l ram ram''" if "k' \<le> l" "untouched l ram' ram''" for l ram''
      using that out untouched_trans le_trans by blast
    ultimately show ?thesis unfolding dirs by (cases "card (dom tab' \<union> dirs_of (page_no va + 1) n) < 7"; simp) blast
  qed
qed

section \<open>The address space the kernel starts in\<close>

definition pages_of :: "u32 \<Rightarrow> u32 \<Rightarrow> nat" where
  "pages_of a b = (unat b - unat a + 4095) div 4096"

lemma page_count_eq:
  assumes "a \<le> b"
  shows "unat (page_count a b) = pages_of a b"
proof -
  have u: "unat (b - a) = unat b - unat a" using assms by (rule unat_sub)
  have "unat ((b - a) div PAGE_SIZE) = (unat b - unat a) div 4096"
    "(b - a) mod PAGE_SIZE = 0 \<longleftrightarrow> (unat b - unat a) mod 4096 = 0"
    by (simp_all add: word_nat PAGE_SIZE_def u word_unat_eq_iff)
  moreover have "(unat b - unat a) div 4096 < 1048576"
    using unat_u32_less [of b] by (simp add: div_less_iff_less_mult)
  moreover have "(x + 4095) div 4096 = x div 4096 + (if x mod 4096 \<noteq> 0 then 1 else 0)" for x :: nat
  proof -
    define q r where "q = x div 4096" and "r = x mod 4096"
    then have "x = 4096 * q + r" "r < 4096" by simp_all
    then show ?thesis by (simp flip: r_def q_def) (auto intro!: div_nat_eqI)
  qed
  ultimately show ?thesis unfolding page_count_def pages_of_def by (simp add: unat_word_ariths)
qed

lemma pages_of_fit:
  assumes "frame_aligned a" "a \<le> b"
  shows "page_no a + pages_of a b \<le> 1048576"
    "frame_aligned c \<Longrightarrow> b \<le> c \<Longrightarrow> page_no a + pages_of a b \<le> page_no c"
proof -
  have a: "unat a = 4096 * page_no a" using assms(1) by (auto simp: frame_aligned_unat)
  have ab: "unat a \<le> unat b" using assms(2) by (simp add: word_le_nat_alt)
  show "page_no a + pages_of a b \<le> 1048576"
    unfolding pages_of_def using a ab unat_u32_less [of b] by linarith
  assume "frame_aligned c" "b \<le> c"
  then have "unat c = 4096 * page_no c" "unat b \<le> unat c" by (auto simp: frame_aligned_unat word_le_nat_alt)
  then show "page_no a + pages_of a b \<le> page_no c" unfolding pages_of_def using a ab by linarith
qed

lemma boot_inv_empty: "boot_inv (clear_words 8192 dummy_space m) 1 (\<lambda>_. None) (\<lambda>_. None)"
proof -
  have "clear_words 8192 dummy_space m (boot_page 0 + 4 * of_nat i) = 0" if "i < 1024" for i
  proof -
    have "\<exists>k<8192. boot_page 0 + 4 * of_nat i = dummy_space + 4 * of_nat k"
      using that by (intro exI [of _ i]) (simp add: boot_page_0)
    moreover have "unat dummy_space + 4 * 8192 \<le> 2 ^ 32" by (simp add: dummy_space_def)
    ultimately show ?thesis by (simp only: clear_words_apply if_True)
  qed
  then show ?thesis by (simp add: boot_inv_def)
qed

lemma page_offset:
  assumes "frame_aligned a" "page_no a \<le> page_no va"
  shows "b + 4096 * of_nat (page_no va - page_no a) + (va AND 0xFFF) = b + (va - a)"
proof -
  have m: "(0xFFF :: u32) = mask 12" by (simp add: mask_eq_exp_minus_1)
  have o: "unat (va AND 0xFFF) = unat va mod 4096"
    unfolding m by (simp flip: take_bit_eq_mask add: take_bit_eq_mod word_nat)
  have "unat a mod 4096 = 0" using assms(1) by (simp add: frame_aligned_unat)
  then have "unat a = 4096 * page_no a" by auto
  moreover obtain d where "page_no va = page_no a + d" using assms(2) le_iff_add by auto
  moreover have "unat va = 4096 * page_no va + unat va mod 4096" by simp
  ultimately have "unat va = 4096 * (page_no va - page_no a) + unat va mod 4096 + unat a" by simp
  then have "(of_nat (unat va) :: u32) = of_nat (4096 * (page_no va - page_no a) + unat (va AND 0xFFF) + unat a)"
    by (simp only: o)
  then have "va = 4096 * of_nat (page_no va - page_no a) + (va AND 0xFFF) + a" by (simp del: of_nat_diff)
  then show ?thesis by (simp add: algebra_simps)
qed

text \<open>Where the kernel, its initializer and the first 3 MB are.\<close>

definition boot_spec :: "u32 \<Rightarrow> u32 \<Rightarrow> u32 \<Rightarrow> u32 \<Rightarrow> u32 \<Rightarrow> u32 \<Rightarrow> u32 option" where
  "boot_spec ks ke kp is ie va =
     (if page_no ks \<le> page_no va \<and> page_no va < page_no ks + pages_of ks ke then Some (kp + (va - ks))
      else if va < 0x300000 \<or> page_no is \<le> page_no va \<and> page_no va < page_no is + pages_of is ie then Some va
      else None)"

definition boot_dirs :: "u32 \<Rightarrow> u32 \<Rightarrow> u32 \<Rightarrow> u32 \<Rightarrow> nat set" where
  "boot_dirs ks ke is ie = dirs_of (page_no ks) (pages_of ks ke) \<union> dirs_of (page_no is) (pages_of is ie) \<union> dirs_of 0 768"

lemma finite_boot_dirs: "finite (boot_dirs ks ke is ie)"
  by (simp add: boot_dirs_def dirs_of_def)

lemma boot_pages_spec:
  assumes "frame_aligned ks" "frame_aligned is" "ks \<le> ke" "is \<le> ie" "ie \<le> ks" "0x300000 \<le> ks"
  shows "map_option (\<lambda>pa. pa + (va AND 0xFFF))
      (map_pages 0 0 768 (map_pages is is (pages_of is ie) (map_pages ks kp (pages_of ks ke) (\<lambda>_. None))) (page_no va)) =
    boot_spec ks ke kp is ie va"
proof -
  have low: "page_no is + pages_of is ie \<le> page_no ks" by (rule pages_of_fit(2) [OF assms(2,4,1,5)])
  have "unat (0x300000 :: u32) \<le> unat ks" using assms(6) by (simp only: word_le_nat_alt)
  then have ks: "768 \<le> page_no ks" by simp
  have va: "va < 0x300000 \<longleftrightarrow> page_no va < 768"
    by (simp add: word_less_nat_alt) arith
  have off: "page_no a \<le> page_no va \<Longrightarrow> frame_aligned a \<Longrightarrow>
      b + 4096 * of_nat (page_no va - page_no a) + (va AND 0xFFF) = b + (va - a)" for a b
    by (rule page_offset)
  have off0: "4096 * of_nat (page_no va) + (va AND 0xFFF) = va"
    using page_offset [of 0 va 0] by (simp add: frame_aligned_def)
  consider (kernel) "page_no ks \<le> page_no va" "page_no va < page_no ks + pages_of ks ke"
    | (low) "page_no va < 768" | (init) "768 \<le> page_no va" "page_no is \<le> page_no va" "page_no va < page_no is + pages_of is ie"
    | (none) "768 \<le> page_no va" "\<not> (page_no ks \<le> page_no va \<and> page_no va < page_no ks + pages_of ks ke)"
        "\<not> (page_no is \<le> page_no va \<and> page_no va < page_no is + pages_of is ie)"
    by linarith
  then show ?thesis
  proof cases
    case kernel
    then show ?thesis using low ks off [OF kernel(1) assms(1), of kp] by (simp add: boot_spec_def map_pages_def)
  next
    case low
    then show ?thesis using ks va off0 by (simp add: boot_spec_def map_pages_def)
  next
    case init
    then show ?thesis using \<open>page_no is + pages_of is ie \<le> page_no ks\<close> off [OF init(2) assms(2), of "is"]
      by (simp add: boot_spec_def map_pages_def)
  next
    case none
    then show ?thesis using va by (auto simp: boot_spec_def map_pages_def)
  qed
qed

lemma untouched_space:
  assumes "unat a < 0x80000 \<or> 0x88000 \<le> unat a"
  shows "clear_words 8192 dummy_space m a = m a"
proof -
  have "unat dummy_space + 4 * 8192 \<le> 2 ^ 32" by (simp add: dummy_space_def)
  moreover have "unat (dummy_space + 4 * of_nat k) = 524288 + 4 * k" if "k < 8192" for k
    using that by (simp add: dummy_space_def unat_word_ariths)
  ultimately show ?thesis using assms by (auto simp: clear_words_apply)
qed

text \<open>The fifth table ends at 0x86000; making it clears the page behind the reserved space too.\<close>

lemma map_page_clears_beyond:
  assumes "m (dummy_space + 4 * drop_bit 22 va) = 0"
  shows "snd (map_page dummy_space pa va (5 * 4096, m)) 0x88000 = 0"
proof -
  have "unat (boot_page 5) + 4 * 4096 \<le> 2 ^ 32" by (simp add: unat_boot_page)
  note c = clear_words_apply [OF this]
  let ?m = "clear_words 4096 (boot_page 5) (m(dummy_space + 4 * drop_bit 22 va := boot_page 5 OR 3))"
  have "\<exists>k<4096. 0x88000 = boot_page 5 + 4 * of_nat k"
    by (rule exI [of _ 3072]) (simp add: boot_page_def dummy_space_def)
  then have z: "?m 0x88000 = 0" unfolding c by simp
  have "unat (dummy_space + 4 * drop_bit 22 va) = 524288 + 4 * dir_index va"
    using unat_boot_word [of 0 "dir_index va"] dir_index_less [of va] by (simp add: entry_indices boot_page_0)
  then have "unat (dummy_space + 4 * drop_bit 22 va) \<noteq> unat (boot_page 5 + 4 * of_nat k)" if "k < 4096" for k
    using that unat_boot_word [of 5 k] dir_index_less [of va] by linarith
  then have "dummy_space + 4 * drop_bit 22 va \<noteq> boot_page 5 + 4 * of_nat k" if "k < 4096" for k
    using that by metis
  then have e: "?m (dummy_space + 4 * drop_bit 22 va) AND NOT 0xFFF = boot_page 5"
    using boot_entry(1) [OF boot_page_aligned [of 5]] unfolding c by auto
  have "unat (boot_page 5 + 4 * of_nat (tab_index va)) = 544768 + 4 * tab_index va"
    using unat_boot_word [of 5 "tab_index va"] less_trans [OF tab_index_less [of va]] by simp
  then have "unat (boot_page 5 + 4 * of_nat (tab_index va)) < 0x88000"
    using tab_index_less [of va] by linarith
  then have "boot_page 5 + 4 * of_nat (tab_index va) \<noteq> 0x88000" by auto
  then show ?thesis
    using z e assms by (simp add: map_page_def Let_def entry_indices boot_page_def)
qed

text \<open>
  C7. When the kernel, its initializer and the first 3 MB need fewer than seven page tables, the
  tables initializer_main builds translate every address as intended: the kernel's pages to where
  it was loaded, the others to themselves, and nothing else; memory below 0x80000 and from 0x8A000
  on is not touched (the 32 KB reserved end at 0x88000).  With seven tables or more it halts.
\<close>

theorem initializer_main_spec:
  assumes "frame_aligned ks" "frame_aligned kp" "frame_aligned is" "ks \<le> ke" "is \<le> ie" "ie \<le> ks" "0x300000 \<le> ks"
  shows "if card (boot_dirs ks ke is ie) < 7
    then \<exists>m'. initializer_main ks ke kp is ie m = Inr m' \<and>
      (\<forall>va. translate m' dummy_space va = boot_spec ks ke kp is ie va) \<and>
      (\<forall>a. unat a < 0x80000 \<or> 0x8A000 \<le> unat a \<longrightarrow> m' a = m a)
    else \<exists>msg. initializer_main ks ke kp is ie m = Inl (Panic msg)"
proof -
  let ?kn = "pages_of ks ke" and ?in = "pages_of is ie" and ?D = "boot_dirs ks ke is ie"
  let ?k = "''kernel is too large to fit in 32 KB''" and ?i = "''kernel initializer is too large to fit in 32 KB''"
    and ?z = "''cannot identity map 1st MB''"
  let ?D1 = "dirs_of (page_no ks) ?kn" and ?D2 = "dirs_of (page_no is) ?in"
  note big = card_mono [OF finite_boot_dirs [of ks ke "is" ie], of ?D1] card_mono [OF finite_boot_dirs [of ks ke "is" ie], of "?D1 \<union> ?D2"]
  have sub: "?D1 \<subseteq> ?D" "?D1 \<union> ?D2 \<subseteq> ?D" by (auto simp: boot_dirs_def)
  define run1 where "run1 = map_range ?k ?kn 0 dummy_space kp ks (of_nat (4096 * 1), clear_words 8192 dummy_space m)"
  have main: "initializer_main ks ke kp is ie m = res_bind run1 (\<lambda>st.
      res_bind (map_range ?i ?in 0 dummy_space is is st) (\<lambda>st.
      res_bind (map_range ?z 768 0 dummy_space 0 0 st) (\<lambda>st. Inr (snd st))))"
    by (simp add: initializer_main_def Let_def page_count_eq [OF assms(4)] page_count_eq [OF assms(5)] run1_def)
  have z: "frame_aligned 0" by (simp add: frame_aligned_def)
  have "page_no ks + ?kn \<le> 1048576 \<or> ?kn = 0" using pages_of_fit [OF assms(1,4)] by simp
  from map_range_spec [OF boot_inv_empty _ assms(2) this, of ?k m]
  consider (fail) "\<not> card ?D1 < 7" "run1 = Inl (Panic ?k)"
    | (ok) ram1 k1 tab1 where "run1 = Inr (of_nat (4096 * k1), ram1)" "k1 < 8"
      "boot_inv ram1 k1 tab1 (map_pages ks kp ?kn (\<lambda>_. None))" "dom tab1 = ?D1"
      "untouched k1 (clear_words 8192 dummy_space m) ram1"
    unfolding run1_def by (simp split: if_splits) blast+
  then show ?thesis
  proof cases
    case fail
    then show ?thesis using big(1) [OF sub(1)] main by simp
  next
    case ok
    note run1 = ok(1) and dom1 = ok(4)
    have "page_no is + ?in \<le> 1048576 \<or> ?in = 0" using pages_of_fit [OF assms(3,5)] by simp
    from map_range_spec [OF ok(3,2) assms(3) this, of ?i]
    consider (fail') "\<not> card (?D1 \<union> ?D2) < 7"
        "map_range ?i ?in 0 dummy_space is is (of_nat (4096 * k1), ram1) = Inl (Panic ?i)"
      | (ok') ram2 k2 tab2 where
        "map_range ?i ?in 0 dummy_space is is (of_nat (4096 * k1), ram1) = Inr (of_nat (4096 * k2), ram2)" "k2 < 8"
        "boot_inv ram2 k2 tab2 (map_pages is is ?in (map_pages ks kp ?kn (\<lambda>_. None)))" "dom tab2 = ?D1 \<union> ?D2"
        "k1 \<le> k2" "untouched k2 ram1 ram2"
      unfolding dom1 by (simp split: if_splits) blast+
    then show ?thesis
    proof cases
      case fail'
      then show ?thesis using big(2) [OF sub(2)] main run1 by simp
    next
      case ok'
      have D: "dom tab2 \<union> dirs_of (page_no 0) 768 = ?D" by (simp add: ok'(4) boot_dirs_def)
      have "page_no 0 + 768 \<le> 1048576 \<or> (768 :: nat) = 0" by simp
      from map_range_spec [OF ok'(3,2) z this, of ?z]
      have last: "if card ?D < 7
        then \<exists>ram3 k3 tab3. map_range ?z 768 0 dummy_space 0 0 (of_nat (4096 * k2), ram2) = Inr (of_nat (4096 * k3), ram3) \<and>
          k3 < 8 \<and> boot_inv ram3 k3 tab3 (map_pages 0 0 768 (map_pages is is ?in (map_pages ks kp ?kn (\<lambda>_. None)))) \<and> dom tab3 = ?D \<and>
          k2 \<le> k3 \<and> untouched k3 ram2 ram3
        else map_range ?z 768 0 dummy_space 0 0 (of_nat (4096 * k2), ram2) = Inl (Panic ?z)"
        unfolding D .
      have spec: "map_option (\<lambda>pa. pa + (va AND 0xFFF)) (map_pages 0 0 768 (map_pages is is ?in (map_pages ks kp ?kn (\<lambda>_. None))) (page_no va)) =
          boot_spec ks ke kp is ie va" for va
        by (rule boot_pages_spec [OF assms(1,3-7)])
      have out: "ram3 a = m a" if "k2 \<le> k3" "k3 < 8" "untouched k3 ram2 ram3" "unat a < 0x80000 \<or> 0x8A000 \<le> unat a" for ram3 k3 a
      proof -
        have "untouched k3 (clear_words 8192 dummy_space m) ram3"
          by (rule untouched_trans [OF untouched_trans [OF ok(5) ok'(5,6)] that(1,3)])
        moreover have "unat a < 524288 \<or> 524288 + 4096 * (k3 + 3) \<le> unat a" using that(2,4) by auto
        ultimately have "ram3 a = clear_words 8192 dummy_space m a" unfolding untouched_def by blast
        also have "\<dots> = m a" using that(4) by (intro untouched_space) auto
        finally show ?thesis .
      qed
      show ?thesis
        using last main run1 ok'(1) boot_translate spec out by (auto split: if_splits)
    qed
  qed
qed

lemma initializer_main_spec_witness:
  "\<exists>m'. initializer_main 0xC0101000 0xC0140000 0x101000 0x100000 0x100800 (\<lambda>_. 0xFFFFFFFF) = Inr m' \<and>
     translate m' dummy_space 0xC0101004 = Some 0x101004 \<and> translate m' dummy_space 0xB8000 = Some 0xB8000 \<and>
     translate m' dummy_space 0x80000000 = None"
proof -
  have sub: "boot_dirs 0xC0101000 0xC0140000 0x100000 0x100800 \<subseteq> {0, 768}"
    by (auto simp: boot_dirs_def dirs_of_def pages_of_def)
  have c: "card (boot_dirs 0xC0101000 0xC0140000 0x100000 0x100800) < 7"
    using card_mono [OF _ sub] by simp
  have "frame_aligned 0xC0101000" "frame_aligned 0x101000" "frame_aligned 0x100000"
    by (simp_all add: frame_aligned_unat)
  from initializer_main_spec [OF this, of "0xC0140000" "0x100800" "\<lambda>_. 0xFFFFFFFF"] c
  obtain m' where m: "initializer_main 0xC0101000 0xC0140000 0x101000 0x100000 0x100800 (\<lambda>_. 0xFFFFFFFF) = Inr m'"
    "\<And>va. translate m' dummy_space va = boot_spec 0xC0101000 0xC0140000 0x101000 0x100000 0x100800 va"
    by auto
  have "translate m' dummy_space 0xC0101004 = Some 0x101004 \<and> translate m' dummy_space 0xB8000 = Some 0xB8000 \<and>
     translate m' dummy_space 0x80000000 = None"
    by (simp add: m(2) boot_spec_def pages_of_def)
  with m(1) show ?thesis by blast
qed

end
