(* ===== verification/Console.thy ===== *)
theory Console
  imports Libk_Digits Libk_String
begin

text \<open>
  The screen of \<^verbatim>\<open>libk/screen.c\<close> and the formatted output of \<^verbatim>\<open>libk/debug.c\<close>.  Video memory
  is part of memory: a byte at each address, and an index outside the screen writes elsewhere.
  Writes to ports are a trace.  A string argument is a pointer, \<open>strs\<close> the buffer behind each.
\<close>

unbundle bit_operations_syntax

section \<open>The screen\<close>

record console =
  cursorX :: u16
  cursorY :: u16
  con_color :: u8
  con_mem :: "u32 \<Rightarrow> u8"
  con_ports :: "(u16 \<times> u8) list"

definition DEFAULT_COLOR :: u8 where "DEFAULT_COLOR = 0x3F"
definition SCREEN_WIDTH :: nat where "SCREEN_WIDTH = 80"
definition SCREEN_HEIGHT :: nat where "SCREEN_HEIGHT = 25"
definition SCREEN_DEPTH :: nat where "SCREEN_DEPTH = 2"
definition TAB_SIZE :: u16 where "TAB_SIZE = 20"

datatype vga_color =
    VGA_COLOR_BLACK | VGA_COLOR_BLUE | VGA_COLOR_GREEN | VGA_COLOR_CYAN
  | VGA_COLOR_RED | VGA_COLOR_MAGENTA | VGA_COLOR_BROWN | VGA_COLOR_LIGHT_GREY
  | VGA_COLOR_DARK_GREY | VGA_COLOR_LIGHT_BLUE | VGA_COLOR_LIGHT_GREEN | VGA_COLOR_LIGHT_CYAN
  | VGA_COLOR_LIGHT_RED | VGA_COLOR_LIGHT_MAGENTA | VGA_COLOR_LIGHT_BROWN | VGA_COLOR_WHITE

primrec vga_code :: "vga_color \<Rightarrow> u8" where
  "vga_code VGA_COLOR_BLACK = 0"
| "vga_code VGA_COLOR_BLUE = 1"
| "vga_code VGA_COLOR_GREEN = 2"
| "vga_code VGA_COLOR_CYAN = 3"
| "vga_code VGA_COLOR_RED = 4"
| "vga_code VGA_COLOR_MAGENTA = 5"
| "vga_code VGA_COLOR_BROWN = 6"
| "vga_code VGA_COLOR_LIGHT_GREY = 7"
| "vga_code VGA_COLOR_DARK_GREY = 8"
| "vga_code VGA_COLOR_LIGHT_BLUE = 9"
| "vga_code VGA_COLOR_LIGHT_GREEN = 10"
| "vga_code VGA_COLOR_LIGHT_CYAN = 11"
| "vga_code VGA_COLOR_LIGHT_RED = 12"
| "vga_code VGA_COLOR_LIGHT_MAGENTA = 13"
| "vga_code VGA_COLOR_LIGHT_BROWN = 14"
| "vga_code VGA_COLOR_WHITE = 15"

definition vidmem :: "nat \<Rightarrow> u32" where "vidmem i = 0xB8000 + of_nat i"

definition con_outportb :: "u16 \<Rightarrow> u8 \<Rightarrow> console \<Rightarrow> console" where
  "con_outportb port v st = st\<lparr>con_ports := con_ports st @ [(port, v)]\<rparr>"

text \<open>The loop of ClearLine; its index has 16 bits and stays below 40960.\<close>

function clear_cells :: "u8 \<Rightarrow> u8 \<Rightarrow> u16 \<Rightarrow> (u32 \<Rightarrow> u8) \<Rightarrow> u32 \<Rightarrow> u8" where
  "clear_cells to col i m =
     (if unat i < SCREEN_WIDTH * (unat to + 1) * SCREEN_DEPTH
      then clear_cells to col (i + 2) (m(vidmem (unat i) := 0, vidmem (unat i + 1) := col)) else m)"
  by pat_completeness auto
termination
proof (relation "measure (\<lambda>(to, col, i, m). 160 * (unat to + 1) - unat i)")
  fix to col :: u8 and i :: u16 and m :: "u32 \<Rightarrow> u8"
  assume a: "unat i < SCREEN_WIDTH * (unat to + 1) * SCREEN_DEPTH"
  have "unat to < 256" by (rule unat_u8_less)
  with a have "unat (i + 2) = unat i + 2" by (simp add: SCREEN_WIDTH_def SCREEN_DEPTH_def unat_word_ariths)
  with a show "((to, col, i + 2, m(vidmem (unat i) := 0, vidmem (unat i + 1) := col)), to, col, i, m)
      \<in> measure (\<lambda>(to, col, i, m). 160 * (unat to + 1) - unat i)"
    by (simp add: SCREEN_WIDTH_def SCREEN_DEPTH_def)
qed simp

declare clear_cells.simps [simp del]

definition ClearLine :: "u8 \<Rightarrow> u8 \<Rightarrow> console \<Rightarrow> console" where
  "ClearLine from to st =
     (let row = of_nat (SCREEN_WIDTH * unat from * SCREEN_DEPTH) :: u16
      in st\<lparr>con_mem := clear_cells to (con_color st) row (con_mem st)\<rparr>)"

definition UpdateCursor :: "console \<Rightarrow> console" where
  "UpdateCursor st =
     (let temp = of_nat (SCREEN_WIDTH * unat (cursorY st) + unat (cursorX st)) :: u16 in
      con_outportb 0x3D5 (ucast temp) (con_outportb 0x3D4 15
        (con_outportb 0x3D5 (ucast (drop_bit 8 temp)) (con_outportb 0x3D4 14 st))))"

definition SetCursor :: "u16 \<Rightarrow> u16 \<Rightarrow> console \<Rightarrow> console" where
  "SetCursor x y st = UpdateCursor (st\<lparr>cursorX := x, cursorY := y\<rparr>)"

definition SetPointer :: "u16 \<Rightarrow> u16 \<Rightarrow> console \<Rightarrow> console" where
  "SetPointer x y st = st\<lparr>cursorX := x, cursorY := y\<rparr>"

definition ClearScreen :: "console \<Rightarrow> console" where
  "ClearScreen st = UpdateCursor ((ClearLine 0 (of_nat (SCREEN_HEIGHT - 1)) st)\<lparr>cursorX := 0, cursorY := 0\<rparr>)"

text \<open>\<open>n\<close> bytes from \<open>i\<close> on, each the byte \<open>d\<close> places behind it, in ascending order.\<close>

primrec scroll_bytes :: "nat \<Rightarrow> nat \<Rightarrow> nat \<Rightarrow> (u32 \<Rightarrow> u8) \<Rightarrow> u32 \<Rightarrow> u8" where
  "scroll_bytes 0 i d m = m"
| "scroll_bytes (Suc n) i d m = scroll_bytes n (Suc i) d (m(vidmem i := m (vidmem (i + d))))"

definition ScrollUp :: "u8 \<Rightarrow> console \<Rightarrow> console" where
  "ScrollUp lineNumber st =
     (let st = st\<lparr>con_mem := scroll_bytes (SCREEN_WIDTH * (SCREEN_HEIGHT - 1) * SCREEN_DEPTH) 0
            (SCREEN_WIDTH * SCREEN_DEPTH * unat lineNumber) (con_mem st)\<rparr>;
          st = ClearLine (of_nat (SCREEN_HEIGHT - 1) - lineNumber) (of_nat (SCREEN_HEIGHT - 1)) st;
          st = (if cursorY st < ucast lineNumber then st\<lparr>cursorX := 0, cursorY := 0\<rparr>
                else st\<lparr>cursorY := cursorY st - ucast lineNumber\<rparr>)
      in UpdateCursor st)"

definition NewLineCheck :: "console \<Rightarrow> console" where
  "NewLineCheck st = (if unat (cursorY st) > SCREEN_HEIGHT - 1 then ClearScreen st else st)"

definition cell :: "console \<Rightarrow> nat" where
  "cell st = (unat (cursorY st) * SCREEN_WIDTH + unat (cursorX st)) * SCREEN_DEPTH"

definition poke :: "nat \<Rightarrow> u8 \<Rightarrow> console \<Rightarrow> console" where
  "poke i v st = st\<lparr>con_mem := (con_mem st)(vidmem i := v)\<rparr>"

definition Printch :: "u8 \<Rightarrow> console \<Rightarrow> console" where
  "Printch c st =
     (let st =
        (if c = 0x08 then
           let st = st\<lparr>cursorX := cursorX st - 1\<rparr> in poke (cell st) 0 st
         else if c = 0x09 then st\<lparr>cursorX := cursorX st + (TAB_SIZE - cursorX st mod TAB_SIZE)\<rparr>
         else if c = 0x0D \<or> c = 0x0A then st\<lparr>cursorX := 0, cursorY := cursorY st + 1\<rparr>
         else
           let st = poke (cell st) c st;
               st = poke (cell st + 1) (con_color st) st
           in st\<lparr>cursorX := cursorX st + 1\<rparr>);
          st = (if unat (cursorX st) \<ge> SCREEN_WIDTH then st\<lparr>cursorX := 0, cursorY := cursorY st + 1\<rparr> else st)
      in UpdateCursor (NewLineCheck st))"

text \<open>Printing a C string: up to its NUL.\<close>

fun Print :: "u8 list \<Rightarrow> console \<Rightarrow> console res" where
  "Print [] st = Inl OutOfBounds"
| "Print (c # cs) st = (if c \<noteq> 0 then Print cs (Printch c st) else Inr st)"

definition MakeColor :: "u8 \<Rightarrow> u8 \<Rightarrow> u8" where
  "MakeColor background foreground = push_bit 4 background OR foreground"

definition SetColor :: "u8 \<Rightarrow> u8 \<Rightarrow> console \<Rightarrow> console" where
  "SetColor background foreground st = st\<lparr>con_color := push_bit 4 background OR foreground\<rparr>"

definition SetForegroundColor :: "u8 \<Rightarrow> console \<Rightarrow> console" where
  "SetForegroundColor col st = st\<lparr>con_color := (con_color st AND 0xF0) OR col\<rparr>"

definition SetBackgroundColor :: "u8 \<Rightarrow> console \<Rightarrow> console" where
  "SetBackgroundColor col st = st\<lparr>con_color := (con_color st AND 0x0F) OR push_bit 4 col\<rparr>"

definition PrintLine :: "console \<Rightarrow> console" where "PrintLine st = Printch 0x0A st"

section \<open>Formatted output\<close>

text \<open>\<^verbatim>\<open>va_arg\<close>: reading past the arguments given reads what the stack holds.\<close>

definition va_arg :: "u32 list \<Rightarrow> (u32 \<times> u32 list) res" where
  "va_arg args = (case args of [] \<Rightarrow> Inl Uninitialised | a # as \<Rightarrow> Inr (a, as))"

text \<open>One conversion \<^verbatim>\<open>%d\<close>: the arguments left, the 20 byte buffer and the screen.\<close>

definition printf_number ::
    "(u32 \<Rightarrow> u8 list \<Rightarrow> u8 list res) \<Rightarrow> console \<Rightarrow> u32 list \<times> u8 list \<Rightarrow> (u32 list \<times> u8 list \<times> console) res" where
  "printf_number conv st = (\<lambda>(args, buffer).
     res_bind (va_arg args) (\<lambda>(val, args).
     res_bind (conv val buffer) (\<lambda>buffer.
     res_bind (Print buffer st) (\<lambda>st. Inr (args, buffer, st)))))"

definition printf_conversion ::
    "(u32 \<Rightarrow> u8 list) \<Rightarrow> u8 \<Rightarrow> u32 list \<times> u8 list \<times> console \<Rightarrow> (u32 list \<times> u8 list \<times> console) res" where
  "printf_conversion strs d = (\<lambda>(args, buffer, st).
     if d = 117 then printf_number (\<lambda>v b. uitoa v b 10) st (args, buffer)
     else if d = 105 then printf_number (\<lambda>v b. itoa v b 10) st (args, buffer)
     else if d = 104 then
       res_bind (va_arg args) (\<lambda>(val, args).
       res_bind (uitoa val buffer 16) (\<lambda>buffer.
       res_bind (Print [48, 120, 0] st) (\<lambda>st.
       res_bind (Print buffer st) (\<lambda>st. Inr (args, buffer, st)))))
     else if d = 120 then printf_number (\<lambda>v b. uitoa v b 16) st (args, buffer)
     else if d = 115 then
       res_bind (va_arg args) (\<lambda>(p, args).
       res_bind (Print (strs p) st) (\<lambda>st. Inr (args, buffer, st)))
     else if d = 99 then
       res_bind (va_arg args) (\<lambda>(cval, args). Inr (args, buffer, Printch (ucast cval) st))
     else if d = 98 then printf_number (\<lambda>v b. uitoa v b 2) st (args, buffer)
     else Inr (args, buffer, st))"

text \<open>
  The loop over the format; its index has 16 bits, so a format of 65535 characters or more may be
  printed for ever.
\<close>

partial_function (option) printf_loop ::
    "(u32 \<Rightarrow> u8 list) \<Rightarrow> u8 list \<Rightarrow> nat \<Rightarrow> u16 \<Rightarrow> u32 list \<times> u8 list \<times> console \<Rightarrow> console res option" where
  "printf_loop strs fmt len i s =
     (if unat i < len then
        case arr_get fmt (unat i) of
          Inl e \<Rightarrow> Some (Inl e)
        | Inr c \<Rightarrow>
            if c = 37 then
              (case res_bind (arr_get fmt (unat i + 1)) (\<lambda>d. printf_conversion strs d s) of
                 Inl e \<Rightarrow> Some (Inl e)
               | Inr s \<Rightarrow> printf_loop strs fmt len (i + 1 + 1) s)
            else (case s of (args, buffer, st) \<Rightarrow> printf_loop strs fmt len (i + 1) (args, buffer, Printch c st))
      else Some (Inr (snd (snd s))))"

definition printf_base :: "(u32 \<Rightarrow> u8 list) \<Rightarrow> u8 list \<Rightarrow> u8 list \<Rightarrow> u32 list \<Rightarrow> console \<Rightarrow> console res" where
  "printf_base strs buffer fmt args st =
     res_bind (strlen_buf fmt) (\<lambda>len.
     res_bind (returns (printf_loop strs fmt len 0 (args, buffer, st))) (\<lambda>r. r))"

text \<open>\<open>buffer\<close> is the uninitialised \<^verbatim>\<open>char buffer[20]\<close>.\<close>

definition printf :: "(u32 \<Rightarrow> u8 list) \<Rightarrow> u8 list \<Rightarrow> u8 list \<Rightarrow> u32 list \<Rightarrow> console \<Rightarrow> console res" where
  "printf strs buffer fmt args st = printf_base strs buffer fmt args st"

definition printfln :: "(u32 \<Rightarrow> u8 list) \<Rightarrow> u8 list \<Rightarrow> u8 list \<Rightarrow> u32 list \<Rightarrow> console \<Rightarrow> console res" where
  "printfln strs buffer fmt args st =
     res_bind (printf_base strs buffer fmt args st) (printf strs buffer [0x0A, 0] [])"

text \<open>PANIC prints and halts; ASSERT halts when its argument is not zero.\<close>

definition PANIC :: "(u32 \<Rightarrow> u8 list) \<Rightarrow> u8 list \<Rightarrow> u32 \<Rightarrow> string \<Rightarrow> console \<Rightarrow> 'a res" where
  "PANIC strs buffer str msg st =
     res_bind (printfln strs buffer [0x0A, 37, 115, 0] [str] st) (\<lambda>st. Inl (Panic msg))"

definition ASSERT :: "(u32 \<Rightarrow> u8 list) \<Rightarrow> u8 list \<Rightarrow> u32 \<Rightarrow> int \<Rightarrow> console \<Rightarrow> console res" where
  "ASSERT strs buffer str expr st =
     (if expr \<noteq> 0 then PANIC strs buffer str ''Assertion failed!!'' st else Inr st)"

definition DEBUG :: "(u32 \<Rightarrow> u8 list) \<Rightarrow> u8 list \<Rightarrow> u32 \<Rightarrow> console \<Rightarrow> console res" where
  "DEBUG strs buffer str st =
     printf strs buffer (map of_char (CHR 0x0A # ''DEBUG: %s'' @ [CHR 0x0A]) @ [0]) [str] st"

definition WARNING :: "(u32 \<Rightarrow> u8 list) \<Rightarrow> u8 list \<Rightarrow> u32 \<Rightarrow> console \<Rightarrow> console res" where
  "WARNING strs buffer str st =
     printf strs buffer (map of_char (''WARNING: %s'' @ [CHR 0x0A]) @ [0]) [str] st"

end
