(* ===== verification/Console_Props.thy ===== *)
theory Console_Props
  imports Console
begin

text \<open>
  The screen stays well formed, characters land in the cell of the cursor, and formatted output
  is the text a reference rendering gives.
\<close>

unbundle bit_operations_syntax

section \<open>Video memory\<close>

lemmas screen_size = SCREEN_WIDTH_def SCREEN_HEIGHT_def SCREEN_DEPTH_def

lemma vidmem_inj: "i < 4294967296 \<Longrightarrow> j < 4294967296 \<Longrightarrow> vidmem i = vidmem j \<longleftrightarrow> i = j"
proof -
  assume "i < 4294967296" "j < 4294967296"
  then have "unat (of_nat i :: u32) = i" "unat (of_nat j :: u32) = j" by simp_all
  moreover have "vidmem i = vidmem j \<longleftrightarrow> (of_nat i :: u32) = of_nat j" by (simp add: vidmem_def)
  ultimately show ?thesis by metis
qed

lemma vidmem_surj: obtains j where "a = vidmem j" "j < 4294967296"
  using unat_u32_less [of "a - 0xB8000"] by (auto simp: vidmem_def intro: that [of "unat (a - 0xB8000)"])

lemma clear_cells_apply:
  assumes "even (unat i)" "j < 4294967296"
  shows "clear_cells to col i m (vidmem j) =
    (if unat i \<le> j \<and> j < 160 * (unat to + 1) then (if even j then 0 else col) else m (vidmem j))"
  using assms(1)
proof (induction to col i m rule: clear_cells.induct)
  case (1 to col i m)
  show ?case
  proof (cases "unat i < 160 * (unat to + 1)")
    case True
    have to: "unat to < 256" by (rule unat_u8_less)
    with True have i2: "unat (i + 2) = unat i + 2" by (simp add: unat_word_ariths)
    define m' where "m' = m(vidmem (unat i) := 0, vidmem (unat i + 1) := col)"
    have "unat i + 2 < 4294967296" using True to by simp
    then have m': "m' (vidmem j) = (if j = unat i then 0 else if j = unat i + 1 then col else m (vidmem j))"
      using vidmem_inj [OF assms(2), of "unat i"] vidmem_inj [OF assms(2), of "unat i + 1"]
      unfolding m'_def by simp
    have cond: "unat i < SCREEN_WIDTH * (unat to + 1) * SCREEN_DEPTH" using True by (simp add: screen_size)
    have ev: "even (unat (i + 2))" using 1(2) i2 by simp
    have "clear_cells to col i m (vidmem j) = clear_cells to col (i + 2) m' (vidmem j)"
      unfolding m'_def using True by (subst clear_cells.simps) (simp add: screen_size)
    also have "\<dots> = (if unat i + 2 \<le> j \<and> j < 160 * (unat to + 1) then (if even j then 0 else col) else m' (vidmem j))"
      by (rule 1(1) [OF cond ev, folded m'_def, unfolded i2])
    also have "\<dots> = (if unat i \<le> j \<and> j < 160 * (unat to + 1) then (if even j then 0 else col) else m (vidmem j))"
    proof -
      have "unat i + 1 < 160 * (unat to + 1)"
      proof (rule ccontr)
        assume "\<not> ?thesis"
        with True have "unat i + 1 = 160 * (unat to + 1)" by simp
        moreover have "odd (unat i + 1)" "even (160 * (unat to + 1))" using 1(2) by simp_all
        ultimately show False by simp
      qed
      moreover consider "j = unat i" | "j = unat i + 1" | "j < unat i" | "unat i + 2 \<le> j" by linarith
      ultimately show ?thesis using 1(2) unfolding m' by cases auto
    qed
    finally show ?thesis .
  qed (subst clear_cells.simps, auto simp: screen_size)
qed

lemma scroll_bytes_apply:
  assumes "i + n + d < 4294967296" "j < 4294967296"
  shows "scroll_bytes n i d m (vidmem j) = (if i \<le> j \<and> j < i + n then m (vidmem (j + d)) else m (vidmem j))"
  using assms(1)
proof (induction n arbitrary: i m)
  case (Suc n)
  have "scroll_bytes n (Suc i) d (m(vidmem i := m (vidmem (i + d)))) (vidmem j) =
      (if Suc i \<le> j \<and> j < Suc i + n then (m(vidmem i := m (vidmem (i + d)))) (vidmem (j + d))
       else (m(vidmem i := m (vidmem (i + d)))) (vidmem j))"
    using Suc by simp
  then show ?case using Suc.prems assms(2) vidmem_inj [of j i] vidmem_inj [of "j + d" i] by auto
qed auto

lemma ClearLine_apply:
  assumes "j < 4294967296"
  shows "con_mem (ClearLine from to st) (vidmem j) =
    (if 160 * unat from \<le> j \<and> j < 160 * (unat to + 1) then (if even j then 0 else con_color st) else con_mem st (vidmem j))"
proof -
  have w: "unat (of_nat k :: u16) = k" if "k < 65536" for k using that by (simp add: unat_of_nat)
  have "SCREEN_WIDTH * unat from * SCREEN_DEPTH < 65536" using unat_u8_less [of "from"] by (simp add: screen_size)
  from w [OF this] have "unat (of_nat (SCREEN_WIDTH * unat from * SCREEN_DEPTH) :: u16) = 160 * unat from"
    by (simp add: screen_size del: of_nat_mult)
  then show ?thesis using clear_cells_apply [OF _ assms] by (simp add: ClearLine_def)
qed

lemma UpdateCursor_parts [simp]:
  "cursorX (UpdateCursor st) = cursorX st" "cursorY (UpdateCursor st) = cursorY st"
  "con_mem (UpdateCursor st) = con_mem st" "con_color (UpdateCursor st) = con_color st"
  by (simp_all add: UpdateCursor_def con_outportb_def Let_def)

lemma ClearLine_parts [simp]:
  "cursorX (ClearLine f t st) = cursorX st" "cursorY (ClearLine f t st) = cursorY st" "con_color (ClearLine f t st) = con_color st"
  by (simp_all add: ClearLine_def)

lemma ClearScreen_apply:
  "cursorX (ClearScreen st) = 0" "cursorY (ClearScreen st) = 0" "con_color (ClearScreen st) = con_color st"
  "j < 4294967296 \<Longrightarrow> con_mem (ClearScreen st) (vidmem j) =
    (if j < 4000 then (if even j then 0 else con_color st) else con_mem st (vidmem j))"
  by (simp_all add: ClearScreen_def ClearLine_apply screen_size)

section \<open>Well-formed screens\<close>

definition screen_ok :: "console \<Rightarrow> bool" where
  "screen_ok st \<longleftrightarrow> unat (cursorX st) < 80 \<and> unat (cursorY st) < 25"

lemma screen_ok_newline: "unat (cursorX st) < 80 \<Longrightarrow> screen_ok (UpdateCursor (NewLineCheck st))"
  by (auto simp: screen_ok_def NewLineCheck_def ClearScreen_apply screen_size not_less)

lemma screen_ok_Printch: "screen_ok (Printch c st)"
  unfolding Printch_def Let_def by (rule screen_ok_newline) (simp add: screen_size)

lemma screen_ok_Print: "screen_ok st \<Longrightarrow> Print s st = Inr st' \<Longrightarrow> screen_ok st'"
  by (induction s st rule: Print.induct) (auto simp: screen_ok_Printch split: if_splits)

lemma screen_ok_number: "screen_ok st \<Longrightarrow> printf_number conv st s = Inr (args, buffer, st') \<Longrightarrow> screen_ok st'"
  by (auto simp: printf_number_def res_simps split: prod.splits dest: screen_ok_Print)

lemma screen_ok_conversion:
  "screen_ok st \<Longrightarrow> printf_conversion strs d (args, buffer, st) = Inr (args', buffer', st') \<Longrightarrow> screen_ok st'"
  by (auto simp: printf_conversion_def res_simps screen_ok_Printch split: if_splits prod.splits
      dest: screen_ok_Print screen_ok_number screen_ok_Print [OF screen_ok_Printch])

lemma screen_ok_loop:
  assumes "screen_ok st" "printf_loop strs fmt len i (args, buffer, st) = Some (Inr st')"
  shows "screen_ok st'"
proof -
  have "screen_ok (snd (snd s)) \<longrightarrow> (\<forall>st'. r = Inr st' \<longrightarrow> screen_ok st')" if "printf_loop strs fmt len i s = Some r" for s r
  proof (rule printf_loop.raw_induct [where P = "\<lambda>strs fmt len i s r.
      screen_ok (snd (snd s)) \<longrightarrow> (\<forall>st'. r = Inr st' \<longrightarrow> screen_ok st')", OF _ that], goal_cases)
    case (1 f strs fmt len i s r)
    obtain args buffer st where s: "s = (args, buffer, st)" by (cases s)
    show ?case
    proof (rule impI)
      assume ok: "screen_ok (snd (snd s))"
      show "\<forall>st'. r = Inr st' \<longrightarrow> screen_ok st'"
      proof (cases "unat i < len")
        case False
        with 1(2) ok show ?thesis by auto
      next
        case True
        show ?thesis
        proof (cases "arr_get fmt (unat i)")
          case (Inl e)
          with 1(2) True show ?thesis by auto
        next
          case (Inr c)
          show ?thesis
          proof (cases "c = 37")
            case True
            show ?thesis
            proof (cases "res_bind (arr_get fmt (unat i + 1)) (\<lambda>d. printf_conversion strs d s)")
              case (Inl e)
              with 1(2) \<open>unat i < len\<close> Inr True show ?thesis by auto
            next
              case (Inr s')
              then have "screen_ok (snd (snd s'))"
                using ok screen_ok_conversion by (cases s') (auto simp: s res_simps)
              moreover have "f strs fmt len (i + 1 + 1) s' = Some r"
                using 1(2) \<open>unat i < len\<close> \<open>arr_get fmt (unat i) = Inr c\<close> Inr True by auto
              ultimately show ?thesis using 1(1) by blast
            qed
          next
            case False
            then have "f strs fmt len (i + 1) (args, buffer, Printch c st) = Some r"
              using 1(2) \<open>unat i < len\<close> Inr by (auto simp: s)
            then show ?thesis using 1(1) [of strs fmt len "i + 1" "(args, buffer, Printch c st)" r] screen_ok_Printch by simp
          qed
        qed
      qed
    qed
  qed
  from this [OF assms(2)] assms(1) show ?thesis by simp
qed

section \<open>Where characters go\<close>

text \<open>The end of Printch: wrapping at the right edge, clearing below the last line.\<close>

definition place :: "console \<Rightarrow> console" where
  "place st =
     (let st = (if unat (cursorX st) \<ge> 80 then st\<lparr>cursorX := 0, cursorY := cursorY st + 1\<rparr> else st)
      in UpdateCursor (NewLineCheck st))"

lemma Printch_place:
  "c \<notin> {8, 9, 10, 13} \<Longrightarrow> Printch c st =
    place ((poke (cell st + 1) (con_color st) (poke (cell st) c st))\<lparr>cursorX := cursorX st + 1\<rparr>)"
  "c \<in> {10, 13} \<Longrightarrow> Printch c st = place (st\<lparr>cursorX := 0, cursorY := cursorY st + 1\<rparr>)"
  "Printch 9 st = place (st\<lparr>cursorX := cursorX st + (TAB_SIZE - cursorX st mod TAB_SIZE)\<rparr>)"
  "Printch 8 st = place (poke (cell (st\<lparr>cursorX := cursorX st - 1\<rparr>)) 0 (st\<lparr>cursorX := cursorX st - 1\<rparr>))"
  by (auto simp: Printch_def place_def Let_def screen_size poke_def cell_def)

lemma place_inside:
  assumes "unat (cursorX st) < 80" "unat (cursorY st) < 25"
  shows "place st = UpdateCursor st"
  using assms by (simp add: place_def NewLineCheck_def screen_size)

lemma place_wrap:
  assumes "unat (cursorX st) \<ge> 80" "unat (cursorY st) < 24"
  shows "place st = UpdateCursor (st\<lparr>cursorX := 0, cursorY := cursorY st + 1\<rparr>)"
  using assms by (simp add: place_def NewLineCheck_def screen_size unat_word_ariths)

lemma place_clear:
  assumes "unat (cursorX st) < 80 \<and> unat (cursorY st) = 25 \<or> unat (cursorX st) \<ge> 80 \<and> unat (cursorY st) = 24"
  shows "\<exists>st'. place st = UpdateCursor (ClearScreen st') \<and> con_mem st' = con_mem st \<and> con_color st' = con_color st"
  using assms by (auto simp: place_def NewLineCheck_def screen_size unat_word_ariths)

lemma place_outside:
  assumes "4000 \<le> j" "j < 4294967296"
  shows "con_mem (place st) (vidmem j) = con_mem st (vidmem j)"
  using assms by (simp add: place_def Let_def NewLineCheck_def ClearScreen_apply)

lemma cell_bound:
  assumes "screen_ok st"
  shows "cell st = 160 * unat (cursorY st) + 2 * unat (cursorX st)" "cell st < 3999"
  using assms by (simp_all add: cell_def screen_size screen_ok_def)

lemma poke_outside: "i < 4000 \<Longrightarrow> 4000 \<le> j \<Longrightarrow> j < 4294967296 \<Longrightarrow> con_mem (poke i v st) (vidmem j) = con_mem st (vidmem j)"
  by (simp add: poke_def vidmem_inj)

lemma poke_parts [simp]:
  "cursorX (poke i v st) = cursorX st" "cursorY (poke i v st) = cursorY st" "con_color (poke i v st) = con_color st"
  by (simp_all add: poke_def)

lemma Printch_char:
  assumes "screen_ok st" "c \<notin> {8, 9, 10, 13}" "\<not> (unat (cursorX st) = 79 \<and> unat (cursorY st) = 24)"
  shows "con_mem (Printch c st) = (con_mem st)(vidmem (cell st) := c, vidmem (cell st + 1) := con_color st)"
    "unat (cursorX (Printch c st)) = (if unat (cursorX st) = 79 then 0 else unat (cursorX st) + 1)"
    "unat (cursorY (Printch c st)) = (if unat (cursorX st) = 79 then unat (cursorY st) + 1 else unat (cursorY st))"
proof -
  let ?p = "(poke (cell st + 1) (con_color st) (poke (cell st) c st))\<lparr>cursorX := cursorX st + 1\<rparr>"
  have xy: "unat (cursorX st) < 80" "unat (cursorY st) < 25" using assms(1) by (simp_all add: screen_ok_def)
  have x1: "unat (cursorX st + 1) = unat (cursorX st) + 1" using xy by (simp add: unat_word_ariths)
  have y1: "unat (cursorY st + 1) = unat (cursorY st) + 1" using xy by (simp add: unat_word_ariths)
  have "con_mem (Printch c st) = (con_mem st)(vidmem (cell st) := c, vidmem (cell st + 1) := con_color st) \<and>
    unat (cursorX (Printch c st)) = (if unat (cursorX st) = 79 then 0 else unat (cursorX st) + 1) \<and>
    unat (cursorY (Printch c st)) = (if unat (cursorX st) = 79 then unat (cursorY st) + 1 else unat (cursorY st))"
  proof (cases "unat (cursorX st) = 79")
    case True
    then have "place ?p = UpdateCursor (?p\<lparr>cursorX := 0, cursorY := cursorY st + 1\<rparr>)"
      using xy x1 assms(3) by (subst place_wrap) simp_all
    then show ?thesis using True Printch_place(1) [OF assms(2), of st] y1 by (simp add: poke_def)
  next
    case False
    then have "place ?p = UpdateCursor ?p" using xy x1 by (intro place_inside) simp_all
    then show ?thesis using False Printch_place(1) [OF assms(2), of st] x1 by (simp add: poke_def)
  qed
  then show "con_mem (Printch c st) = (con_mem st)(vidmem (cell st) := c, vidmem (cell st + 1) := con_color st)"
    "unat (cursorX (Printch c st)) = (if unat (cursorX st) = 79 then 0 else unat (cursorX st) + 1)"
    "unat (cursorY (Printch c st)) = (if unat (cursorX st) = 79 then unat (cursorY st) + 1 else unat (cursorY st))"
    by blast+
qed

lemma Printch_newline:
  assumes "screen_ok st" "c \<in> {10, 13}" "unat (cursorY st) < 24"
  shows "con_mem (Printch c st) = con_mem st" "cursorX (Printch c st) = 0" "unat (cursorY (Printch c st)) = unat (cursorY st) + 1"
proof -
  have y1: "unat (cursorY st + 1) = unat (cursorY st) + 1" using assms(3) by (simp add: unat_word_ariths)
  then have "place (st\<lparr>cursorX := 0, cursorY := cursorY st + 1\<rparr>) = UpdateCursor (st\<lparr>cursorX := 0, cursorY := cursorY st + 1\<rparr>)"
    using assms(3) by (intro place_inside) simp_all
  then show "con_mem (Printch c st) = con_mem st" "cursorX (Printch c st) = 0"
    "unat (cursorY (Printch c st)) = unat (cursorY st) + 1"
    using Printch_place(2) [OF assms(2), of st] y1 by simp_all
qed

lemma Printch_full:
  assumes "screen_ok st" "unat (cursorY st) = 24" "c \<in> {10, 13} \<or> c \<notin> {8, 9, 10, 13} \<and> unat (cursorX st) = 79"
  shows "cursorX (Printch c st) = 0" "cursorY (Printch c st) = 0"
    "j < 4000 \<Longrightarrow> con_mem (Printch c st) (vidmem j) = (if even j then 0 else con_color st)"
proof -
  have "\<exists>st1. Printch c st = UpdateCursor (ClearScreen st1) \<and> con_color st1 = con_color st"
    using assms(3)
  proof (elim disjE conjE)
    assume c: "c \<in> {10, 13}"
    have "unat (cursorY st + 1) = 25" using assms(2) by (simp add: unat_word_ariths)
    then show ?thesis
      using Printch_place(2) [OF c, of st] place_clear [of "st\<lparr>cursorX := 0, cursorY := cursorY st + 1\<rparr>"] by auto
  next
    assume c: "c \<notin> {8, 9, 10, 13}" and x: "unat (cursorX st) = 79"
    let ?p = "(poke (cell st + 1) (con_color st) (poke (cell st) c st))\<lparr>cursorX := cursorX st + 1\<rparr>"
    have "unat (cursorX ?p) \<ge> 80 \<and> unat (cursorY ?p) = 24" using x assms(2) by (simp add: unat_word_ariths)
    then show ?thesis using Printch_place(1) [OF c, of st] place_clear [of ?p] by auto
  qed
  then show "cursorX (Printch c st) = 0" "cursorY (Printch c st) = 0"
    "j < 4000 \<Longrightarrow> con_mem (Printch c st) (vidmem j) = (if even j then 0 else con_color st)"
    by (auto simp: ClearScreen_apply)
qed

lemma cell_arith: "(x :: nat) < 80 \<Longrightarrow> y < 25 \<Longrightarrow> (y * 80 + (x - 1)) * 2 < 4000"
  by simp

lemma Printch_outside:
  assumes "screen_ok st" "c \<noteq> 8 \<or> cursorX st \<noteq> 0" "4000 \<le> j" "j < 4294967296"
  shows "con_mem (Printch c st) (vidmem j) = con_mem st (vidmem j)"
proof -
  note cb = cell_bound [OF assms(1)]
  consider "c \<notin> {8, 9, 10, 13}" | "c \<in> {10, 13}" | "c = 9" | "c = 8" by blast
  then show ?thesis
  proof cases
    case 1
    then show ?thesis using cb assms(3,4) by (simp add: Printch_place(1) place_outside poke_outside)
  next
    case 4
    then have x: "cursorX st \<noteq> 0" using assms(2) by blast
    then have "0 < unat (cursorX st)" by (simp add: unat_gt_0)
    then have "unat (cursorX st - 1) = unat (cursorX st) - 1" by (simp add: unat_minus_one x)
    moreover have "(unat (cursorY st) * 80 + (unat (cursorX st) - 1)) * 2 < 4000"
      using assms(1) by (intro cell_arith) (simp_all add: screen_ok_def)
    ultimately have "cell (st\<lparr>cursorX := cursorX st - 1\<rparr>) < 4000" by (simp add: cell_def screen_size)
    then show ?thesis
      using 4 assms(3,4) by (simp add: Printch_place(4) place_outside poke_outside)
  qed (use assms(3,4) in \<open>simp_all add: Printch_place place_outside\<close>)
qed

text \<open>The line the clock task of a processor writes the time on.\<close>

definition clock_line :: "u8 \<Rightarrow> u16" where
  "clock_line cpu_id = of_nat SCREEN_HEIGHT - 2 * (ucast cpu_id + 1)"

lemma clock_line_on_screen: "unat (clock_line cpu_id) < 25 \<longleftrightarrow> cpu_id < 12"
proof -
  define k where "k = int (unat cpu_id)"
  have k: "0 \<le> k" "k < 256" unfolding k_def using unat_u8_less [of cpu_id] by linarith+
  have "clock_line cpu_id = of_int (23 - 2 * k)"
    by (simp add: clock_line_def SCREEN_HEIGHT_def k_def)
  then have "uint (clock_line cpu_id) = (23 - 2 * k) mod 65536"
    by (simp only: uint_word_of_int) simp
  also have "\<dots> = (if k < 12 then 23 - 2 * k else 65559 - 2 * k)"
  proof (cases "k < 12")
    case False
    have "(23 - 2 * k) mod 65536 = (23 - 2 * k + 65536) mod 65536" by (simp only: mod_add_self2)
    also have "\<dots> = 23 - 2 * k + 65536" by (rule mod_pos_pos_trivial) (use k False in linarith)+
    finally show ?thesis using False by simp
  qed (use k in simp)
  finally have u: "uint (clock_line cpu_id) = (if k < 12 then 23 - 2 * k else 65559 - 2 * k)" .
  have "unat (clock_line cpu_id) < 25 \<longleftrightarrow> k < 12" using k
  proof (cases "k < 12")
    case True
    have "int (unat (clock_line cpu_id)) = 23 - 2 * k" using u True by simp
    then show ?thesis using True k by linarith
  next
    case False
    have "int (unat (clock_line cpu_id)) = 65559 - 2 * k" using u False by simp
    then show ?thesis using False k by linarith
  qed
  moreover have "k < 12 \<longleftrightarrow> unat cpu_id < 12" unfolding k_def by linarith
  ultimately show ?thesis unfolding word_less_nat_alt by simp
qed

text \<open>
  C38. The cursor stays on the screen in every operation that prints, clears, scrolls or sets
  colours, and in formatted output whatever the format and the arguments.  SetCursor and SetPointer
  do not check what they are given: afterwards the cursor is on the screen exactly when the column
  is below 80 and the line below 25.  The line a clock task gives to SetPointer is on the screen
  exactly for the processors 0 to 11.
\<close>

theorem console_type:
  assumes "screen_ok st"
  shows "screen_ok (Printch c st) \<and> screen_ok (ClearScreen st) \<and> screen_ok (ScrollUp n st) \<and> screen_ok (PrintLine st) \<and>
    screen_ok (ClearLine f t st) \<and> screen_ok (UpdateCursor st) \<and> screen_ok (NewLineCheck st) \<and>
    screen_ok (SetColor b g st) \<and> screen_ok (SetForegroundColor g st) \<and> screen_ok (SetBackgroundColor b st) \<and>
    (Print s st = Inr st' \<longrightarrow> screen_ok st') \<and>
    (printf_base strs buffer fmt args st = Inr st' \<longrightarrow> screen_ok st') \<and>
    screen_ok (SetCursor x y st) = (x < 80 \<and> y < 25) \<and> screen_ok (SetPointer x y st) = (x < 80 \<and> y < 25) \<and>
    screen_ok (SetPointer 0 (clock_line cpu_id) st) = (cpu_id < 12)"
proof (intro conjI impI)
  show "screen_ok (Printch c st)" "screen_ok (PrintLine st)" by (simp_all add: screen_ok_Printch PrintLine_def)
  show "screen_ok (ClearScreen st)" by (simp add: screen_ok_def ClearScreen_apply)
  show "screen_ok (ClearLine f t st)" "screen_ok (UpdateCursor st)" using assms by (simp_all add: screen_ok_def)
  show "screen_ok (NewLineCheck st)" using assms by (auto simp: screen_ok_def NewLineCheck_def ClearScreen_apply)
  show "screen_ok (SetColor b g st)" "screen_ok (SetForegroundColor g st)" "screen_ok (SetBackgroundColor b st)"
    using assms by (simp_all add: screen_ok_def SetColor_def SetForegroundColor_def SetBackgroundColor_def)
  have "unat (cursorY st - ucast n) \<le> unat (cursorY st)" if "\<not> cursorY st < ucast n"
    using that by (simp add: unat_sub not_less)
  then show "screen_ok (ScrollUp n st)" using assms by (auto simp: screen_ok_def ScrollUp_def Let_def)
  show "screen_ok (SetCursor x y st) = (x < 80 \<and> y < 25)" "screen_ok (SetPointer x y st) = (x < 80 \<and> y < 25)"
    by (simp_all add: screen_ok_def SetCursor_def SetPointer_def word_less_nat_alt)
  show "screen_ok (SetPointer 0 (clock_line cpu_id) st) = (cpu_id < 12)"
    by (simp add: screen_ok_def SetPointer_def clock_line_on_screen)
  show "screen_ok st'" if "Print s st = Inr st'" using screen_ok_Print [OF assms that] .
  show "screen_ok st'" if r: "printf_base strs buffer fmt args st = Inr st'"
  proof -
    from r obtain len where "printf_loop strs fmt len 0 (args, buffer, st) = Some (Inr st')"
      by (auto simp: printf_base_def res_simps returns_def split: option.splits)
    then show ?thesis by (rule screen_ok_loop [OF assms])
  qed
qed

definition blank_console :: console where
  "blank_console = \<lparr>cursorX = 0, cursorY = 0, con_color = DEFAULT_COLOR, con_mem = (\<lambda>_. 0), con_ports = []\<rparr>"

lemma console_type_witness:
  "screen_ok blank_console \<and> screen_ok (ScrollUp 3 (Printch 65 blank_console)) \<and>
   screen_ok (SetCursor 79 24 blank_console) \<and> \<not> screen_ok (SetPointer 0 (clock_line 12) blank_console)"
proof -
  have ok: "screen_ok blank_console" by (simp add: screen_ok_def blank_console_def)
  note t = console_type [OF ok, where c = 65 and x = 79 and y = 24 and cpu_id = 12]
  from t have "screen_ok (Printch 65 blank_console)" by blast
  from console_type [OF this, where n = 3] t ok show ?thesis by simp
qed

text \<open>
  C31. A printable character is stored with the colour at the cursor, which then moves right, to
  the next line, or, when the screen is full, home on a cleared screen.  Nothing outside the 4000
  bytes of the screen is written, except by a backspace in column 0, which writes behind them.
\<close>

theorem printch_spec:
  assumes "screen_ok st"
  shows "(c \<noteq> 8 \<or> cursorX st \<noteq> 0 \<longrightarrow>
      (\<forall>j. 4000 \<le> j \<and> j < 4294967296 \<longrightarrow> con_mem (Printch c st) (vidmem j) = con_mem st (vidmem j))) \<and>
    (c = 8 \<and> cursorX st = 0 \<longrightarrow> con_mem (Printch c st) (vidmem (160 * unat (cursorY st) + 131070)) = 0) \<and>
    (c \<notin> {8, 9, 10, 13} \<and> (unat (cursorX st), unat (cursorY st)) \<noteq> (79, 24) \<longrightarrow>
      con_mem (Printch c st) = (con_mem st)(vidmem (cell st) := c, vidmem (cell st + 1) := con_color st) \<and>
      (unat (cursorX (Printch c st)), unat (cursorY (Printch c st))) =
        (if unat (cursorX st) = 79 then (0, unat (cursorY st) + 1) else (unat (cursorX st) + 1, unat (cursorY st)))) \<and>
    (c \<in> {10, 13} \<and> unat (cursorY st) < 24 \<longrightarrow> con_mem (Printch c st) = con_mem st \<and>
      (unat (cursorX (Printch c st)), unat (cursorY (Printch c st))) = (0, unat (cursorY st) + 1)) \<and>
    (unat (cursorY st) = 24 \<and> (c \<in> {10, 13} \<or> c \<notin> {8, 9, 10, 13} \<and> unat (cursorX st) = 79) \<longrightarrow>
      cursorX (Printch c st) = 0 \<and> cursorY (Printch c st) = 0 \<and>
      (\<forall>j<4000. con_mem (Printch c st) (vidmem j) = (if even j then 0 else con_color st)))"
proof (intro conjI impI allI)
  fix j :: nat assume "c \<noteq> 8 \<or> cursorX st \<noteq> 0" "4000 \<le> j \<and> j < 4294967296"
  then show "con_mem (Printch c st) (vidmem j) = con_mem st (vidmem j)" using Printch_outside [OF assms] by blast
next
  assume a: "c = 8 \<and> cursorX st = 0"
  let ?s = "st\<lparr>cursorX := - 1\<rparr>"
  have "unat (- 1 :: u16) = 65535" by (simp add: unsigned_minus_1_eq_mask mask_eq_exp_minus_1)
  then have "cell ?s = 160 * unat (cursorY st) + 131070" by (simp add: cell_def screen_size)
  moreover have "con_mem (place (poke (cell ?s) 0 ?s)) (vidmem (cell ?s)) = 0"
    using calculation assms by (subst place_outside) (simp_all add: screen_ok_def poke_def)
  ultimately show "con_mem (Printch c st) (vidmem (160 * unat (cursorY st) + 131070)) = 0"
    using a by (simp add: Printch_place(4))
qed (use Printch_char [OF assms, of c] Printch_newline [OF assms, of c] Printch_full [OF assms, of c] in auto)

lemma printch_spec_witness:
  "con_mem (Printch 65 blank_console) (vidmem 0) = 65 \<and> con_mem (Printch 65 blank_console) (vidmem 1) = 0x3F \<and>
   con_mem (Printch 8 (blank_console\<lparr>con_mem := (\<lambda>_. 7)\<rparr>)) (vidmem 131070) = 0"
proof -
  have "screen_ok blank_console" "screen_ok (blank_console\<lparr>con_mem := (\<lambda>_. 7)\<rparr>)"
    by (simp_all add: screen_ok_def blank_console_def)
  note p = printch_spec [OF this(1), of 65] printch_spec [OF this(2), of 8]
  have "vidmem 0 \<noteq> vidmem 1" by (simp add: vidmem_inj)
  with p show ?thesis by (simp add: blank_console_def cell_def DEFAULT_COLOR_def)
qed

text \<open>
  ScrollUp by \<open>n\<close> lines moves the lines up, but clears one line more than it should: of the last
  line nothing is left.
\<close>

lemma scroll_up_loses_line:
  assumes "1 \<le> n" "n \<le> 24" "j < 4294967296"
  shows "con_mem (ScrollUp (of_nat n) st) (vidmem j) =
    (if j < 160 * (24 - n) then con_mem st (vidmem (j + 160 * n))
     else if j < 4000 then (if even j then 0 else con_color st) else con_mem st (vidmem j))"
proof -
  have n: "unat (of_nat n :: u8) = n" using assms(2) by (simp add: unat_of_nat)
  have "of_nat n \<le> (24 :: u8)" using assms(2) n by (simp add: word_le_nat_alt)
  then have f: "unat (24 - of_nat n :: u8) = 24 - n" using n by (simp add: unat_sub)
  have s: "con_mem (ScrollUp (of_nat n) st) (vidmem j) =
      con_mem (ClearLine (24 - of_nat n) 24 (st\<lparr>con_mem := scroll_bytes 3840 0 (160 * n) (con_mem st)\<rparr>)) (vidmem j)"
    by (simp add: ScrollUp_def Let_def screen_size n)
  show ?thesis
    unfolding s ClearLine_apply [OF assms(3)] f
    using assms by (auto simp: scroll_bytes_apply)
qed

section \<open>Formatted text\<close>

text \<open>The text of one conversion and the arguments left.\<close>

definition conv_text :: "(u32 \<Rightarrow> u8 list) \<Rightarrow> u8 \<Rightarrow> u32 list \<Rightarrow> (u8 list \<times> u32 list) option" where
  "conv_text strs d args =
     (if d \<notin> {117, 105, 104, 120, 115, 99, 98} then Some ([], args)
      else case args of [] \<Rightarrow> None
      | a # as \<Rightarrow>
          if d = 117 then Some (uitoa_text 10 a, as)
          else if d = 105 then
            (if a = 0x80000000 then None
             else Some (if sint a < 0 then 45 # uitoa_text 10 (- a) else uitoa_text 10 a, as))
          else if d = 104 then Some ([48, 120] @ uitoa_text 16 a, as)
          else if d = 120 then Some (uitoa_text 16 a, as)
          else if d = 115 then map_option (\<lambda>s. (s, as)) (c_string (strs a))
          else if d = 99 then Some ([ucast a], as)
          else if unat a < 524288 then Some (uitoa_text 2 a, as) else None)"

text \<open>The text of a format; a percent sign at its end converts nothing.\<close>

fun render :: "(u32 \<Rightarrow> u8 list) \<Rightarrow> u8 list \<Rightarrow> u32 list \<Rightarrow> u8 list option" where
  "render strs [] args = Some []"
| "render strs [c] args = Some (if c = 37 then [] else [c])"
| "render strs (c # d # cs) args =
     (if c = 37 then
        case conv_text strs d args of None \<Rightarrow> None
        | Some (t, args) \<Rightarrow> map_option (\<lambda>u. t @ u) (render strs cs args)
      else map_option (\<lambda>u. c # u) (render strs (d # cs) args))"

lemma Print_string: "0 \<notin> set s \<Longrightarrow> Print (s @ 0 # rest) st = Inr (fold Printch s st)"
  by (induction s arbitrary: st) auto

lemma Print_c_string: "c_string buf = Some s \<Longrightarrow> Print buf st = Inr (fold Printch s st)"
  using c_string_SomeD [of buf s] Print_string by blast

lemma printf_number_text:
  assumes "conv a buffer = Inr (t @ 0 # rest)" "0 \<notin> set t"
  shows "printf_number conv st (a # as, buffer) = Inr (as, t @ 0 # rest, fold Printch t st)"
  using assms by (simp add: printf_number_def va_arg_def Print_string)

lemma uitoa_buffer:
  assumes "b \<in> {2, 10, 16}" "b = 2 \<Longrightarrow> unat a < 524288" "length buffer = 20"
  shows "\<exists>rest. uitoa a buffer (of_nat b) = Inr (uitoa_text b a @ 0 # rest) \<and>
    length (uitoa_text b a @ 0 # rest) = 20 \<and> 0 \<notin> set (uitoa_text b a)"
proof -
  have len: "length (digs b (unat a)) < 20"
    using assms(1,2) length_digs_u32 [of a] length_digs [of 2 "unat a" 18] by fastforce
  have b: "unat (of_nat b :: u8) = b" "2 \<le> b" "b \<le> 16" using assms(1) by auto
  have "uitoa a buffer (of_nat b) = Inr (uitoa_text b a @ 0 # drop (Suc (length (digs b (unat a)))) buffer)"
    using uitoa_eq_text [of "of_nat b" a buffer] b len assms(3) by simp
  moreover have "length (uitoa_text b a @ 0 # drop (Suc (length (digs b (unat a)))) buffer) = 20"
    using len assms(3) by simp
  ultimately show ?thesis using uitoa_text_nonzero [OF b(2,3)] by blast
qed

lemma itoa_buffer:
  assumes "a \<noteq> 0x80000000" "length buffer = 20"
    and t: "t = (if sint a < 0 then 45 # uitoa_text 10 (- a) else uitoa_text 10 a)"
  shows "\<exists>rest. itoa a buffer 10 = Inr (t @ 0 # rest) \<and> length (t @ 0 # rest) = 20 \<and> 0 \<notin> set t"
proof (cases "sint a < 0")
  case True
  then show ?thesis
    using itoa_neg [OF True _ assms(1), of buffer] assms(2) length_digs_u32(1) [of "- a"] uitoa_text_nonzero [of 10 "- a"]
    by (simp add: t)
next
  case False
  then show ?thesis
    using itoa_nonneg [of a buffer] assms(2) length_digs_u32(1) [of a] uitoa_text_nonzero [of 10 a] by (simp add: t)
qed

lemma conversion_text:
  assumes "conv_text strs d args = Some (t, args')" "length buffer = 20"
  shows "\<exists>buffer'. printf_conversion strs d (args, buffer, st) = Inr (args', buffer', fold Printch t st) \<and> length buffer' = 20"
proof (cases "d \<in> {117, 105, 104, 120, 115, 99, 98}")
  case False
  then show ?thesis using assms by (auto simp: conv_text_def printf_conversion_def)
next
  case True
  then obtain a as where args: "args = a # as" using assms(1) by (cases args) (auto simp: conv_text_def)
  have pick: "d = 117 \<or> d = 105 \<or> d = 104 \<or> d = 120 \<or> d = 115 \<or> d = 99 \<or> d = 98" using True by blast
  note u10 = uitoa_buffer [of 10 a buffer] and u16 = uitoa_buffer [of 16 a buffer] and u2 = uitoa_buffer [of 2 a buffer]
  show ?thesis
    using pick
  proof (elim disjE)
    assume "d = 117"
    then show ?thesis using assms u10 printf_number_text by (fastforce simp: conv_text_def printf_conversion_def args)
  next
    assume d: "d = 105"
    then have "a \<noteq> 0x80000000" "args' = as" "t = (if sint a < 0 then 45 # uitoa_text 10 (- a) else uitoa_text 10 a)"
      using assms(1) by (auto simp: conv_text_def args split: if_splits)
    then show ?thesis
      using d itoa_buffer [OF _ assms(2), of a t] printf_number_text by (fastforce simp: printf_conversion_def args)
  next
    assume "d = 104"
    then show ?thesis using assms u16
      by (auto simp: conv_text_def printf_conversion_def args va_arg_def Print_string)
  next
    assume "d = 120"
    then show ?thesis using assms u16 printf_number_text by (fastforce simp: conv_text_def printf_conversion_def args)
  next
    assume "d = 115"
    then show ?thesis using assms by (auto simp: conv_text_def printf_conversion_def args va_arg_def Print_c_string)
  next
    assume "d = 99"
    then show ?thesis using assms by (auto simp: conv_text_def printf_conversion_def args va_arg_def)
  next
    assume "d = 98"
    then show ?thesis using assms u2 printf_number_text
      by (fastforce simp: conv_text_def printf_conversion_def args split: if_splits)
  qed
qed

lemma printf_loop_end: "len \<le> unat i \<Longrightarrow> printf_loop strs fmt len i s = Some (Inr (snd (snd s)))"
  by (subst printf_loop.simps) simp

lemma printf_loop_render:
  assumes "render strs cs args = Some out" "length buffer = 20" "length (pre @ cs) < 65535"
  shows "printf_loop strs (pre @ cs @ 0 # rest) (length (pre @ cs)) (of_nat (length pre)) (args, buffer, st) =
    Some (Inr (fold Printch out st))"
  using assms
proof (induction strs cs args arbitrary: pre out buffer st rule: render.induct)
  case (1 strs args)
  then show ?case by (subst printf_loop.simps) (simp add: unat_of_nat)
next
  case (2 strs c args)
  have i: "unat (of_nat (length pre) :: u16) = length pre" using 2(3) by (simp add: unat_of_nat)
  have i1: "unat (of_nat (length pre) + 1 :: u16) = length pre + 1" "unat (of_nat (length pre) + 1 + 1 :: u16) \<ge> length pre + 1"
    using 2(3) i by (simp_all add: unat_word_ariths)
  show ?case
  proof (cases "c = 37")
    case True
    then have out: "out = []" using 2(1) by simp
    show ?thesis
      unfolding out using True i i1 by (subst printf_loop.simps) (simp add: printf_conversion_def nth_append printf_loop_end)
  next
    case False
    then have out: "out = [c]" using 2(1) by simp
    show ?thesis
      unfolding out using False i i1 by (subst printf_loop.simps) (simp add: nth_append printf_loop_end)
  qed
next
  case (3 strs c d cs args)
  let ?fmt = "pre @ (c # d # cs) @ 0 # rest" and ?len = "length (pre @ c # d # cs)"
  have i: "unat (of_nat (length pre) :: u16) = length pre" using 3(5) by (simp add: unat_of_nat)
  have char: "arr_get ?fmt (length pre) = Inr c" "arr_get ?fmt (length pre + 1) = Inr d" by (simp_all add: nth_append)
  show ?case
  proof (cases "c = 37")
    case True
    then obtain t args' u where t: "conv_text strs d args = Some (t, args')" "render strs cs args' = Some u" "out = t @ u"
      using 3(3) by (auto split: option.splits)
    obtain buffer' where b: "printf_conversion strs d (args, buffer, st) = Inr (args', buffer', fold Printch t st)" "length buffer' = 20"
      using conversion_text [OF t(1) 3(4)] by blast
    have "printf_loop strs ?fmt ?len (of_nat (length pre)) (args, buffer, st) =
        printf_loop strs ?fmt ?len (of_nat (length pre) + 1 + 1) (args', buffer', fold Printch t st)"
      using True i char b(1) by (subst printf_loop.simps) simp
    also have "\<dots> = Some (Inr (fold Printch u (fold Printch t st)))"
      using 3(1) [OF True t(1) refl t(2) b(2), of "pre @ [c, d]" "fold Printch t st"] 3(5) by (simp add: add.assoc add.commute)
    finally show ?thesis by (simp add: t(3))
  next
    case False
    then obtain u where u: "render strs (d # cs) args = Some u" "out = c # u" using 3(3) by auto
    have "printf_loop strs ?fmt ?len (of_nat (length pre)) (args, buffer, st) =
        printf_loop strs ?fmt ?len (of_nat (length pre) + 1) (args, buffer, Printch c st)"
      using False i char by (subst printf_loop.simps) simp
    also have "\<dots> = Some (Inr (fold Printch u (Printch c st)))"
      using 3(2) [OF False u(1) 3(4), of "pre @ [c]" "Printch c st"] 3(5) by (simp add: add.commute)
    finally show ?thesis by (simp add: u(2))
  qed
qed

text \<open>
  C30. Formatted output prints exactly the text of the reference rendering, character by character:
  decimal, signed and hexadecimal numbers, strings, characters, and binary numbers below 2 to the
  19.  The conversion buffer of 20 bytes is never left then.
\<close>

theorem printf_renders:
  assumes "render strs fmt args = Some text" "0 \<notin> set fmt" "length fmt < 65535" "length buffer = 20"
  shows "printf_base strs buffer (fmt @ 0 # rest) args st = Inr (fold Printch text st)"
proof -
  have "strlen_buf (fmt @ 0 # rest) = Inr (length fmt)" using assms(2) by (rule strlen_prefix)
  then show ?thesis
    using printf_loop_render [OF assms(1,4), of "[]" rest st] assms(3) by (simp add: printf_base_def)
qed

lemma printf_renders_witness:
  "printf_base (\<lambda>_. [111, 107, 0]) (replicate 20 0) (map of_char ''%u:%s%'' @ 0 # []) [7, 0x5000] blank_console =
     Inr (fold Printch (map of_char ''7:ok'') blank_console)"
proof (rule printf_renders)
  have "digs 10 7 = [7]" by (subst digs.simps) simp
  then have "uitoa_text 10 7 = [55]" by (simp add: uitoa_text_def hexchar_def hexes_def)
  then show "render (\<lambda>_. [111, 107, 0]) (map of_char ''%u:%s%'') [7, 0x5000] = Some (map of_char ''7:ok'')"
    by (simp add: conv_text_def)
qed simp_all

text \<open>A binary number of 20 digits leaves the buffer.\<close>

lemma printf_binary_overflow:
  "printf_base strs (replicate 20 0) [37, 98, 0] [0x80000] st = Inl OutOfBounds"
proof -
  have "uitoa 0x80000 (replicate 20 0) 2 = Inl OutOfBounds"
    by (simp add: uitoa_def uitoa_digits.simps arr_set_def arr_get_def)
  then show ?thesis
    by (simp add: printf_base_def printf_loop.simps printf_conversion_def printf_number_def va_arg_def)
qed

end
