(* ===== verification/Devices.thy ===== *)
theory Devices
  imports Prelude
begin

text \<open>
  Devices behind ports and memory-mapped registers: \<^verbatim>\<open>libk/system.c\<close>, the interrupt
  controllers of \<^verbatim>\<open>pic.c\<close> and \<^verbatim>\<open>ioapic.c\<close>, the timer of \<^verbatim>\<open>pit.c\<close>.  A device is a
  parameter: what a read answers, given the history of all accesses up to it, itself the last.
  Code maps a history to a longer one.  Registers are reached at their physical addresses, which
  the kernel maps to themselves.
\<close>

unbundle bit_operations_syntax

section \<open>Ports and registers\<close>

datatype io_event =
    In8 u16 | In16 u16 | In32 u16
  | Out8 u16 u8 | Out16 u16 u16 | Out32 u16 u32
  | Reg_read u32 | Reg_write u32 u32

type_synonym history = "io_event list"
type_synonym device = "history \<Rightarrow> u32"

definition io_read :: "device \<Rightarrow> io_event \<Rightarrow> history \<Rightarrow> u32 \<times> history" where
  "io_read dev e h = (dev (h @ [e]), h @ [e])"

definition inportb :: "device \<Rightarrow> u16 \<Rightarrow> history \<Rightarrow> u8 \<times> history" where
  "inportb dev port h = (let (v, h) = io_read dev (In8 port) h in (ucast v, h))"
definition inportw :: "device \<Rightarrow> u16 \<Rightarrow> history \<Rightarrow> u16 \<times> history" where
  "inportw dev port h = (let (v, h) = io_read dev (In16 port) h in (ucast v, h))"
definition inportl :: "device \<Rightarrow> u16 \<Rightarrow> history \<Rightarrow> u32 \<times> history" where
  "inportl dev port h = io_read dev (In32 port) h"

definition outportb :: "u16 \<Rightarrow> u8 \<Rightarrow> history \<Rightarrow> history" where
  "outportb port v h = h @ [Out8 port v]"
definition outportw :: "u16 \<Rightarrow> u16 \<Rightarrow> history \<Rightarrow> history" where
  "outportw port v h = h @ [Out16 port v]"
definition outportl :: "u16 \<Rightarrow> u32 \<Rightarrow> history \<Rightarrow> history" where
  "outportl port v h = h @ [Out32 port v]"

definition reg_readl :: "device \<Rightarrow> u32 \<Rightarrow> u16 \<Rightarrow> history \<Rightarrow> u32 \<times> history" where
  "reg_readl dev base off h = io_read dev (Reg_read (base + ucast off)) h"
definition reg_writel :: "u32 \<Rightarrow> u16 \<Rightarrow> u32 \<Rightarrow> history \<Rightarrow> history" where
  "reg_writel base off val h = h @ [Reg_write (base + ucast off) val]"

section \<open>Interrupt handlers\<close>

text \<open>The functions the kernel registers, and its table of them.\<close>

datatype isr_t =
    Gpf_handler
  | Page_fault_handler
  | Syscall_handler
  | Cpu_message_handler
  | Lapic_timer_callback
  | Timer_callback

type_synonym isr_handlers = "u8 \<Rightarrow> isr_t option"

definition isr_register :: "u8 \<Rightarrow> isr_t \<Rightarrow> isr_handlers \<Rightarrow> isr_handlers" where
  "isr_register n handler tab = tab(n \<mapsto> handler)"

definition isr_init :: isr_handlers where
  "isr_init =
     (let tab = Map.empty;
          tab = isr_register 13 Gpf_handler tab;
          tab = isr_register 0x80 Syscall_handler tab
      in isr_register 100 Cpu_message_handler tab)"

section \<open>The old interrupt controller\<close>

definition PIC_PRIMARY_COMMAND_PORT :: u16 where "PIC_PRIMARY_COMMAND_PORT = 0x20"
definition PIC_PRIMARY_DATA_PORT :: u16 where "PIC_PRIMARY_DATA_PORT = 0x21"
definition PIC_SLAVE_COMMAND_PORT :: u16 where "PIC_SLAVE_COMMAND_PORT = 0xA0"
definition PIC_SLAVE_DATA_PORT :: u16 where "PIC_SLAVE_DATA_PORT = 0xA1"
definition RECEIVE_ICW4 :: u8 where "RECEIVE_ICW4 = push_bit 0 1"
definition INITIALIZATION :: u8 where "INITIALIZATION = push_bit 4 1"
definition PRIMARY_IRQ_LINE_2 :: u8 where "PRIMARY_IRQ_LINE_2 = push_bit 2 1"
definition SLAVE_IRQ_LINE_2 :: u8 where "SLAVE_IRQ_LINE_2 = push_bit 1 1"
definition OPERATION_80x86 :: u8 where "OPERATION_80x86 = push_bit 0 1"

definition pic_disable :: "history \<Rightarrow> history" where
  "pic_disable h =
     (let cw = RECEIVE_ICW4 OR INITIALIZATION;
          h = outportb PIC_PRIMARY_COMMAND_PORT cw h;
          h = outportb PIC_SLAVE_COMMAND_PORT cw h;
          h = outportb PIC_PRIMARY_DATA_PORT 0xE0 h;
          h = outportb PIC_SLAVE_DATA_PORT 0xE8 h;
          h = outportb PIC_PRIMARY_DATA_PORT PRIMARY_IRQ_LINE_2 h;
          h = outportb PIC_SLAVE_DATA_PORT SLAVE_IRQ_LINE_2 h;
          h = outportb PIC_PRIMARY_DATA_PORT OPERATION_80x86 h;
          h = outportb PIC_SLAVE_DATA_PORT OPERATION_80x86 h;
          h = outportb PIC_PRIMARY_DATA_PORT 0xFF h
      in outportb PIC_SLAVE_DATA_PORT 0xFF h)"

section \<open>The programmable timer\<close>

definition TERMINAL_COUNT :: u8 where "TERMINAL_COUNT = push_bit 1 0"
definition RATE_GENERATOR :: u8 where "RATE_GENERATOR = push_bit 1 2"
definition LSB_THEN_MSB :: u8 where "LSB_THEN_MSB = push_bit 4 3"
definition COUNTER_0 :: u8 where "COUNTER_0 = push_bit 6 0"
definition CHANNEL_0 :: u16 where "CHANNEL_0 = 0x40"
definition COMMAND :: u16 where "COMMAND = 0x43"

record pit =
  pit_frequency :: u32
  pit_count :: u32

definition pit_timer_init :: "u32 \<Rightarrow> int \<Rightarrow> pit \<times> history \<Rightarrow> (pit \<times> history) res" where
  "pit_timer_init frequency one_time = (\<lambda>(p, h).
     let p = p\<lparr>pit_frequency := frequency\<rparr> in
     if frequency = 0 then Inl DivideByZero
     else
       let count = ucast (1193180 div frequency) :: u16;
           cw = (if one_time \<noteq> 0 then TERMINAL_COUNT OR LSB_THEN_MSB OR COUNTER_0
                 else RATE_GENERATOR OR LSB_THEN_MSB OR COUNTER_0);
           h = outportb COMMAND cw h;
           h = outportb CHANNEL_0 (ucast (count AND 0x00FF)) h;
           h = outportb CHANNEL_0 (ucast (drop_bit 8 count AND 0x00FF)) h
       in Inr (p\<lparr>pit_count := 0\<rparr>, h))"

definition pit_read_count :: "device \<Rightarrow> history \<Rightarrow> u32 \<times> history" where
  "pit_read_count dev h =
     (let h = outportb COMMAND 0 h;
          (low, h) = inportb dev CHANNEL_0 h;
          (high, h) = inportb dev CHANNEL_0 h
      in (push_bit 8 (ucast high) OR ucast low, h))"

text \<open>\<^verbatim>\<open>pit_count\<close> is volatile: \<open>counts\<close> is what its \<open>n\<close>-th read finds.\<close>

definition pit_millis :: "(nat \<Rightarrow> u32) \<Rightarrow> u32 \<Rightarrow> nat \<Rightarrow> (u32 \<times> nat) res" where
  "pit_millis counts frequency n =
     (if frequency = 0 then Inl DivideByZero else Inr ((1000 * counts n) div frequency, Suc n))"

partial_function (option) pit_sleep_loop :: "(nat \<Rightarrow> u32) \<Rightarrow> u32 \<Rightarrow> u32 \<Rightarrow> u32 \<Rightarrow> nat \<Rightarrow> nat res option" where
  "pit_sleep_loop counts frequency cur_time time n =
     (case pit_millis counts frequency n of
        Inl e \<Rightarrow> Some (Inl e)
      | Inr (t, n) \<Rightarrow>
          if t - cur_time < time then pit_sleep_loop counts frequency cur_time time n else Some (Inr n))"

definition pit_sleep :: "(nat \<Rightarrow> u32) \<Rightarrow> u32 \<Rightarrow> u32 \<Rightarrow> nat \<Rightarrow> nat res" where
  "pit_sleep counts frequency time n =
     res_bind (pit_millis counts frequency n) (\<lambda>(cur_time, n).
     res_bind (returns (pit_sleep_loop counts frequency cur_time time n)) (\<lambda>r. r))"

section \<open>The I/O APIC\<close>

definition IOAPIC_INDEX :: u32 where "IOAPIC_INDEX = 0"
definition IOAPIC_DATA :: u32 where "IOAPIC_DATA = 0x10"
definition IOAPIC_REDTBL0_LOW :: u32 where "IOAPIC_REDTBL0_LOW = 0x10"
definition IOAPIC_DELIVERY_FIXED :: u32 where "IOAPIC_DELIVERY_FIXED = 0"
definition IOAPIC_DELIVERY_LOWEST :: u32 where "IOAPIC_DELIVERY_LOWEST = push_bit 8 1"
definition IOAPIC_DELIVERY_SMI :: u32 where "IOAPIC_DELIVERY_SMI = push_bit 8 2"
definition IOAPIC_DELIVERY_NMI :: u32 where "IOAPIC_DELIVERY_NMI = push_bit 8 4"
definition IOAPIC_DELIVERY_INIT :: u32 where "IOAPIC_DELIVERY_INIT = push_bit 8 5"
definition IOAPIC_DELIVERY_EXT :: u32 where "IOAPIC_DELIVERY_EXT = push_bit 8 7"
definition IOAPIC_DESTINATION_PHYSICAL :: u32 where "IOAPIC_DESTINATION_PHYSICAL = 0"
definition IOAPIC_DESTINATION_LOGICAL :: u32 where "IOAPIC_DESTINATION_LOGICAL = push_bit 11 1"
definition IOAPIC_POLARITY_HIGH :: u32 where "IOAPIC_POLARITY_HIGH = 0"
definition IOAPIC_POLARITY_LOW :: u32 where "IOAPIC_POLARITY_LOW = push_bit 13 1"
definition IOAPIC_TRIGGER_EDGE :: u32 where "IOAPIC_TRIGGER_EDGE = 0"
definition IOAPIC_TRIGGER_LEVEL :: u32 where "IOAPIC_TRIGGER_LEVEL = push_bit 15 1"
definition IOAPIC_INT_MASK :: u32 where "IOAPIC_INT_MASK = push_bit 16 1"

definition ioapic_read :: "device \<Rightarrow> u32 \<Rightarrow> u32 \<Rightarrow> history \<Rightarrow> u32 \<times> history" where
  "ioapic_read dev base reg h =
     io_read dev (Reg_read (base + IOAPIC_DATA)) (h @ [Reg_write (base + IOAPIC_INDEX) (reg AND 0xFF)])"

definition ioapic_write :: "u32 \<Rightarrow> u32 \<Rightarrow> u32 \<Rightarrow> history \<Rightarrow> history" where
  "ioapic_write base reg val h =
     h @ [Reg_write (base + IOAPIC_INDEX) (reg AND 0xFF), Reg_write (base + IOAPIC_DATA) val]"

definition ioapic_map_irq ::
    "device \<Rightarrow> u32 \<Rightarrow> u32 \<Rightarrow> u8 \<Rightarrow> u8 \<Rightarrow> u32 \<Rightarrow> u32 \<Rightarrow> u32 \<Rightarrow> history \<Rightarrow> history res" where
  "ioapic_map_irq dev base apic_id irq vector delivery_mode destination_mode int_mode h =
     (let redirect_low = IOAPIC_REDTBL0_LOW + ucast irq * 2;
          redirect_high = IOAPIC_REDTBL0_LOW + ucast irq * 2 + 1;
          (data, h) = ioapic_read dev base redirect_high h in
      if apic_id \<ge> 16 then Inl (Panic ''APIC ID cannot use more that 4 bits'')
      else
        let data = data AND 0xFF000000;
            data = data OR push_bit 24 apic_id;
            h = ioapic_write base redirect_high data h;
            (data, h) = ioapic_read dev base redirect_low h in
        if vector < 0x10 \<or> vector > 0xFE then Inl (Panic ''IOAPIC was given out of bounds vector'')
        else
          let data = data AND NOT 0xFFFF;
              data = data OR ucast vector;
              data = data OR delivery_mode;
              data = data OR destination_mode;
              data = data OR int_mode;
              data = data AND NOT IOAPIC_INT_MASK
          in Inr (ioapic_write base redirect_low data h))"

end
