(* ===== verification/Lapic.thy ===== *)
theory Lapic
  imports Devices Virt_Mem Kernel_State
begin

text \<open>
  The local APIC, \<^verbatim>\<open>lapic.c\<close>: interrupts between processors, end of interrupt, and the timer
  calibrated with the programmable timer.  Waiting loops may not end.
\<close>

unbundle bit_operations_syntax

section \<open>Registers and values\<close>

definition LAPIC_ID :: u16 where "LAPIC_ID = 0x20"
definition LAPIC_EOI :: u16 where "LAPIC_EOI = 0xB0"
definition LAPIC_TIMER_DISABLE :: u32 where "LAPIC_TIMER_DISABLE = 0x10000"
definition LAPIC_ICR_LOW :: u16 where "LAPIC_ICR_LOW = 0x300"
definition LAPIC_ICR_HIGH :: u16 where "LAPIC_ICR_HIGH = 0x310"
definition LAPIC_TIMER_DIV :: u16 where "LAPIC_TIMER_DIV = 0x3E0"
definition LAPIC_TIMER_INIT :: u16 where "LAPIC_TIMER_INIT = 0x380"
definition LAPIC_TIMER_CUR :: u16 where "LAPIC_TIMER_CUR = 0x390"
definition LAPIC_SPURIOUS_INTERRUPT :: u16 where "LAPIC_SPURIOUS_INTERRUPT = 0xF0"
definition LAPIC_TIMER_LVT :: u16 where "LAPIC_TIMER_LVT = 0x320"
definition LAPIC_TIMER_PERIODIC :: u32 where "LAPIC_TIMER_PERIODIC = 0x20000"

definition LAPIC_ICR_DELIVERY :: u32 where "LAPIC_ICR_DELIVERY = push_bit 8 7"
definition LAPIC_ICR_DESTINATION :: u32 where "LAPIC_ICR_DESTINATION = push_bit 11 1"
definition LAPIC_ICR_PENDING :: u32 where "LAPIC_ICR_PENDING = push_bit 12 1"

definition LAPIC_DELIVERY_FIXED :: u32 where "LAPIC_DELIVERY_FIXED = 0"
definition LAPIC_DELIVERY_LOWEST :: u32 where "LAPIC_DELIVERY_LOWEST = 1"
definition LAPIC_DELIVERY_SMI :: u32 where "LAPIC_DELIVERY_SMI = 2"
definition LAPIC_DELIVERY_NMI :: u32 where "LAPIC_DELIVERY_NMI = 4"
definition LAPIC_DELIVERY_INIT :: u32 where "LAPIC_DELIVERY_INIT = 5"
definition LAPIC_DELIVERY_SIPI :: u32 where "LAPIC_DELIVERY_SIPI = 6"

definition LAPIC_DESTINATION_TARGET :: u32 where "LAPIC_DESTINATION_TARGET = 0"
definition LAPIC_DESTINATION_SELF :: u32 where "LAPIC_DESTINATION_SELF = push_bit 18 1"
definition LAPIC_DESTINATION_ALL :: u32 where "LAPIC_DESTINATION_ALL = push_bit 18 2"
definition LAPIC_DESTINATION_ALL_BUT_SELF :: u32 where "LAPIC_DESTINATION_ALL_BUT_SELF = push_bit 18 3"
definition LAPIC_DESTINATION_PHYSICAL :: u32 where "LAPIC_DESTINATION_PHYSICAL = 0"
definition LAPIC_DESTINATION_LOGICAL :: u32 where "LAPIC_DESTINATION_LOGICAL = push_bit 11 1"

section \<open>Switching on, end of interrupt\<close>

definition lapic_enable :: "device \<Rightarrow> u32 \<Rightarrow> vm_state \<times> history \<Rightarrow> (vm_state \<times> history) res" where
  "lapic_enable dev base_addr = (\<lambda>(st, h).
     let page = base_addr AND NOT 0xFFF in
     res_bind (virt_mem_is_page_present page st) (\<lambda>present.
     res_bind (if present then Inr (ERROR_OK, st)
               else virt_mem_map_page virt_mem_get_self_recursive_table page page
                      VIRT_MEM_DEFAULT_PTE_FLAGS st) (\<lambda>(_, st).
       let (val, h) = reg_readl dev base_addr LAPIC_SPURIOUS_INTERRUPT h in
       if val AND push_bit 8 1 = 0 then
         let val = val OR push_bit 8 1
         in Inr (st, reg_writel base_addr LAPIC_SPURIOUS_INTERRUPT (val OR 0x100) h)
       else Inr (st, h))))"

definition lapic_get_id :: "device \<Rightarrow> u32 \<Rightarrow> history \<Rightarrow> u32 \<times> history" where
  "lapic_get_id dev base_addr h = reg_readl dev base_addr LAPIC_ID h"

definition lapic_send_eoi :: "u32 \<Rightarrow> history \<Rightarrow> history" where
  "lapic_send_eoi base_addr h = reg_writel base_addr LAPIC_EOI 1 h"

section \<open>Interrupts between processors\<close>

partial_function (option) icr_wait :: "device \<Rightarrow> u32 \<Rightarrow> history \<Rightarrow> history option" where
  "icr_wait dev base_addr h =
     (let (v, h) = reg_readl dev base_addr LAPIC_ICR_LOW h in
      if v AND LAPIC_ICR_PENDING \<noteq> 0 then icr_wait dev base_addr h else Some h)"

definition icr_low :: "u8 \<Rightarrow> u32 \<Rightarrow> u32 \<Rightarrow> u32 \<Rightarrow> u32" where
  "icr_low target_vector delivery_mode destination_mode destination_shorthand =
     (let low = ucast target_vector;
          low = low OR (push_bit 8 delivery_mode AND LAPIC_ICR_DELIVERY);
          low = low OR (push_bit 11 destination_mode AND LAPIC_ICR_DESTINATION);
          low = (if delivery_mode = LAPIC_DELIVERY_INIT
                 then low AND NOT (push_bit 14 1) AND NOT (push_bit 15 1)
                 else low OR push_bit 14 1)
      in low OR destination_shorthand)"

definition lapic_send_ipi ::
    "device \<Rightarrow> u32 \<Rightarrow> u8 \<Rightarrow> u8 \<Rightarrow> u32 \<Rightarrow> u32 \<Rightarrow> u32 \<Rightarrow> history \<Rightarrow> history res" where
  "lapic_send_ipi dev base_addr target_id target_vector delivery_mode destination_mode destination_shorthand h =
     res_bind (returns (icr_wait dev base_addr h)) (\<lambda>h.
       let h = reg_writel base_addr LAPIC_ICR_HIGH (push_bit 24 (ucast (target_id AND 0x0F))) h
       in Inr (reg_writel base_addr LAPIC_ICR_LOW
            (icr_low target_vector delivery_mode destination_mode destination_shorthand) h))"

definition lapic_send_ipi_std :: "device \<Rightarrow> u32 \<Rightarrow> u8 \<Rightarrow> u8 \<Rightarrow> history \<Rightarrow> history res" where
  "lapic_send_ipi_std dev base_addr target_id target_vector =
     lapic_send_ipi dev base_addr target_id target_vector LAPIC_DELIVERY_FIXED LAPIC_DESTINATION_PHYSICAL
       LAPIC_DESTINATION_TARGET"

definition lapic_send_ipi_to_others :: "device \<Rightarrow> u32 \<Rightarrow> u8 \<Rightarrow> history \<Rightarrow> history res" where
  "lapic_send_ipi_to_others dev base_addr target_vector =
     lapic_send_ipi dev base_addr 0 target_vector LAPIC_DELIVERY_FIXED LAPIC_DESTINATION_ALL_BUT_SELF
       LAPIC_DESTINATION_TARGET"

section \<open>The timer\<close>

definition lapic_timer_callback :: "per_cpu_data \<Rightarrow> per_cpu_data" where
  "lapic_timer_callback d = d\<lparr>pc_lapic_count := pc_lapic_count d + 1\<rparr>"

partial_function (option) pit_wait :: "device \<Rightarrow> history \<Rightarrow> history option" where
  "pit_wait dev h = (let (c, h) = pit_read_count dev h in if c > 0 then pit_wait dev h else Some h)"

text \<open>The \<^verbatim>\<open>do ... while\<close> with \<open>Suc n\<close> tries left: the ticks found and the tries left.\<close>

fun calibrate_tries :: "nat \<Rightarrow> device \<Rightarrow> u32 \<Rightarrow> pit \<times> history \<Rightarrow> (u32 \<times> nat \<times> pit \<times> history) res" where
  "calibrate_tries 0 dev base_addr (p, h) = Inr (0, 0, p, h)"
| "calibrate_tries (Suc tries) dev base_addr (p, h) =
     res_bind (pit_timer_init 1000 1 (p, h)) (\<lambda>(p, h).
       let h = reg_writel base_addr LAPIC_TIMER_INIT 0xFFFFFFFF h in
       res_bind (returns (pit_wait dev h)) (\<lambda>h.
         let h = reg_writel base_addr LAPIC_TIMER_LVT LAPIC_TIMER_DISABLE h;
             (cur, h) = reg_readl dev base_addr LAPIC_TIMER_CUR h;
             ticks_in_1_ms = 0xFFFFFFFF - cur in
         if ticks_in_1_ms > 200000 \<and> tries > 0 then calibrate_tries tries dev base_addr (p, h)
         else Inr (ticks_in_1_ms, tries, p, h)))"

definition lapic_calibrate_timer ::
    "device \<Rightarrow> u32 \<Rightarrow> u32 \<Rightarrow> u8 \<Rightarrow> per_cpu_data \<times> isr_handlers \<times> pit \<times> history \<Rightarrow>
     (per_cpu_data \<times> isr_handlers \<times> pit \<times> history) res" where
  "lapic_calibrate_timer dev base_addr target_period irq_vector = (\<lambda>(d, tab, p, h).
     let d = d\<lparr>pc_lapic_period := target_period, pc_lapic_count := 0\<rparr>;
         h = reg_writel base_addr LAPIC_TIMER_DIV 0x3 h in
     res_bind (calibrate_tries 5 dev base_addr (p, h)) (\<lambda>(ticks_in_1_ms, tries, p, h).
       if tries = 0 then Inl (Panic ''Could not calibrate local APIC timer'')
       else
         let tab = isr_register irq_vector Lapic_timer_callback tab;
             h = reg_writel base_addr LAPIC_TIMER_DIV 0x3 h;
             h = reg_writel base_addr LAPIC_TIMER_LVT (ucast irq_vector OR LAPIC_TIMER_PERIODIC) h;
             h = reg_writel base_addr LAPIC_TIMER_INIT (ticks_in_1_ms * target_period) h
         in Inr (d, tab, p, h)))"

text \<open>\<open>counts\<close> is what the \<open>n\<close>-th read of the processor's volatile \<^verbatim>\<open>lapic_count\<close> finds.\<close>

definition lapic_millis :: "per_cpu_data \<Rightarrow> (nat \<Rightarrow> u32) \<Rightarrow> nat \<Rightarrow> u32 \<times> nat" where
  "lapic_millis d counts n = (pc_lapic_period d * counts n, Suc n)"

partial_function (option) lapic_sleep_loop :: "per_cpu_data \<Rightarrow> (nat \<Rightarrow> u32) \<Rightarrow> u32 \<Rightarrow> u32 \<Rightarrow> nat \<Rightarrow> nat option" where
  "lapic_sleep_loop d counts cur_time time n =
     (let (t, n) = lapic_millis d counts n in
      if t - cur_time < time then lapic_sleep_loop d counts cur_time time n else Some n)"

definition lapic_sleep :: "per_cpu_data \<Rightarrow> (nat \<Rightarrow> u32) \<Rightarrow> u32 \<Rightarrow> nat \<Rightarrow> nat res" where
  "lapic_sleep d counts time n =
     (let (cur_time, n) = lapic_millis d counts n in returns (lapic_sleep_loop d counts cur_time time n))"

end
