(* ===== verification/Device_Props.thy ===== *)
theory Device_Props
  imports Lapic
begin

text \<open>
  What the accesses of \<^verbatim>\<open>ioapic.c\<close> and \<^verbatim>\<open>lapic.c\<close> mean: the redirection entry the I/O APIC
  holds afterwards, and the interrupt a write of the command register sends.
\<close>

unbundle bit_operations_syntax

section \<open>Redirection entries\<close>

text \<open>
  The I/O APIC as its data sheet has it: an index register and the registers it selects among,
  as a history of accesses leaves them.
\<close>

fun ioapic_step :: "u32 \<Rightarrow> io_event \<Rightarrow> u32 \<times> (u32 \<Rightarrow> u32) \<Rightarrow> u32 \<times> (u32 \<Rightarrow> u32)" where
  "ioapic_step base (Reg_write a v) (i, regs) =
     (if a = base + IOAPIC_INDEX then (v AND 0xFF, regs)
      else if a = base + IOAPIC_DATA then (i, regs(i := v)) else (i, regs))"
| "ioapic_step base e s = s"

definition ioapic_run :: "u32 \<Rightarrow> history \<Rightarrow> u32 \<times> (u32 \<Rightarrow> u32) \<Rightarrow> u32 \<times> (u32 \<Rightarrow> u32)" where
  "ioapic_run base h s = fold (ioapic_step base) h s"

definition ioapic_regs :: "u32 \<Rightarrow> u32 \<times> (u32 \<Rightarrow> u32) \<Rightarrow> history \<Rightarrow> u32 \<Rightarrow> u32" where
  "ioapic_regs base s h = snd (ioapic_run base h s)"

definition is_ioapic :: "u32 \<Rightarrow> u32 \<times> (u32 \<Rightarrow> u32) \<Rightarrow> device \<Rightarrow> bool" where
  "is_ioapic base s dev \<longleftrightarrow>
     (\<forall>h. dev (h @ [Reg_read (base + IOAPIC_DATA)]) = snd (ioapic_run base h s) (fst (ioapic_run base h s)))"

lemma ioapic_run_append [simp]: "ioapic_run base (h @ h') s = ioapic_run base h' (ioapic_run base h s)"
  by (simp add: ioapic_run_def)

lemma ioapic_addresses [simp]: "IOAPIC_DATA \<noteq> IOAPIC_INDEX"
  by (simp add: IOAPIC_DATA_def IOAPIC_INDEX_def)

lemma ioapic_read_reg:
  assumes "is_ioapic base s dev" "reg AND 0xFF = reg"
  shows "\<exists>h'. ioapic_read dev base reg h = (ioapic_regs base s h reg, h') \<and> ioapic_regs base s h' = ioapic_regs base s h"
proof -
  let ?h = "h @ [Reg_write (base + IOAPIC_INDEX) (reg AND 0xFF)]"
  obtain i regs where s: "ioapic_run base h s = (i, regs)" by force
  have run: "ioapic_run base ?h s = (reg, regs)" using assms(2) by (simp add: s ioapic_run_def [of base "[_]"])
  have "dev (?h @ [Reg_read (base + IOAPIC_DATA)]) = regs reg"
    using assms(1) run unfolding is_ioapic_def by (metis fst_conv snd_conv)
  moreover have "ioapic_run base (?h @ [Reg_read (base + IOAPIC_DATA)]) s = (reg, regs)"
    unfolding ioapic_run_append [of base ?h] run by (simp add: ioapic_run_def)
  ultimately show ?thesis by (simp add: ioapic_read_def io_read_def ioapic_regs_def s)
qed

lemma ioapic_write_reg:
  assumes "reg AND 0xFF = reg"
  shows "ioapic_regs base s (ioapic_write base reg v h) = (ioapic_regs base s h)(reg := v)"
proof -
  obtain i regs where s: "ioapic_run base h s = (i, regs)" by force
  show ?thesis using assms by (simp add: ioapic_write_def ioapic_regs_def s ioapic_run_def [of base "[_, _]"])
qed

lemma redirect_index:
  fixes irq :: u8
  assumes "irq < 120"
  shows "(IOAPIC_REDTBL0_LOW + ucast irq * 2) AND 0xFF = (IOAPIC_REDTBL0_LOW + ucast irq * 2 :: u32)"
    "(IOAPIC_REDTBL0_LOW + ucast irq * 2 + 1) AND 0xFF = (IOAPIC_REDTBL0_LOW + ucast irq * 2 + 1 :: u32)"
proof -
  have i: "unat (ucast irq :: u32) = unat irq" using unat_u8_less [of irq] by (simp add: unsigned_ucast_eq take_bit_eq_mod)
  have irq: "unat irq < 120" using assms by (simp add: word_less_nat_alt)
  have u: "unat (IOAPIC_REDTBL0_LOW + ucast irq * 2) = 16 + 2 * unat irq"
    "unat (IOAPIC_REDTBL0_LOW + ucast irq * 2 + 1) = 17 + 2 * unat irq"
    using irq by (simp_all add: IOAPIC_REDTBL0_LOW_def unat_word_ariths i)
  have m: "x AND 0xFF = x" if "unat x < 256" for x :: u32
  proof -
    have "(0xFF :: u32) = mask 8" by (simp add: mask_eq_exp_minus_1)
    then have "x AND 0xFF = take_bit 8 x" by (simp add: take_bit_eq_mask)
    moreover have "unat (take_bit 8 x) = unat x" using that by (simp add: take_bit_eq_mod word_nat)
    ultimately show ?thesis by (simp add: word_unat_eq_iff)
  qed
  show "(IOAPIC_REDTBL0_LOW + ucast irq * 2) AND 0xFF = (IOAPIC_REDTBL0_LOW + ucast irq * 2 :: u32)"
    "(IOAPIC_REDTBL0_LOW + ucast irq * 2 + 1) AND 0xFF = (IOAPIC_REDTBL0_LOW + ucast irq * 2 + 1 :: u32)"
    by (rule m, use irq u in linarith)+
qed

definition redirect_entry :: "u32 \<Rightarrow> u8 \<Rightarrow> u32 \<Rightarrow> u32" where
  "redirect_entry old vector mode = ((old AND NOT 0xFFFF) OR ucast vector OR mode) AND NOT (push_bit 16 1)"

lemma redirect_entry_bit:
  "bit (redirect_entry old vector mode) n \<longleftrightarrow> (bit old n \<and> 16 \<le> n \<or> bit vector n \<or> bit mode n) \<and> n \<noteq> 16"
proof -
  have m: "(0xFFFF :: u32) = mask 16" by (simp add: mask_eq_exp_minus_1)
  have "bit (ucast vector :: u32) n = bit vector n" by (auto simp: bit_ucast_iff dest: bit_imp_le_length)
  then show ?thesis
    unfolding redirect_entry_def m bit_and_iff bit_or_iff bit_not_iff bit_push_one bit_mask_iff possible_bit_word
    by (auto dest: bit_imp_le_length)
qed

lemma redirect_entry_fields:
  assumes "\<forall>n<8. \<not> bit mode n"
  shows "ucast (redirect_entry old vector mode) = vector" "\<not> bit (redirect_entry old vector mode) 16"
    "8 \<le> n \<Longrightarrow> n < 16 \<Longrightarrow> bit (redirect_entry old vector mode) n = bit mode n"
proof -
  show "ucast (redirect_entry old vector mode) = vector"
    by (rule bit_word_eqI) (use assms in \<open>simp add: bit_ucast_iff redirect_entry_bit\<close>)
qed (auto simp: redirect_entry_bit dest: bit_imp_le_length)

text \<open>
  C33. On an I/O APIC that behaves as documented, ioapic_map_irq leaves the redirection entry of
  the interrupt unmasked, with the vector and the modes given and the bits from 17 on as they were
  (if the modes given have none there); the target given is or-ed to the target that was there, the
  bits below it are cleared; every other register keeps its value.  An identifier of 16 or more ends
  in one panic, with a smaller one a vector outside 0x10 to 0xFE ends in another.
\<close>

theorem ioapic_map_irq_spec:
  fixes irq :: u8
  assumes "is_ioapic base s dev" "irq < 120" "\<forall>n<8. \<not> bit (delivery OR destination OR mode) n"
  defines "low \<equiv> IOAPIC_REDTBL0_LOW + ucast irq * 2" and "high \<equiv> IOAPIC_REDTBL0_LOW + ucast irq * 2 + 1"
  shows "if apic_id < 16 \<and> 0x10 \<le> vector \<and> vector \<le> 0xFE
    then \<exists>h'. ioapic_map_irq dev base apic_id irq vector delivery destination mode h = Inr h' \<and>
      ucast (ioapic_regs base s h' low) = vector \<and> \<not> bit (ioapic_regs base s h' low) 16 \<and>
      (\<forall>n. 8 \<le> n \<and> n < 16 \<longrightarrow> bit (ioapic_regs base s h' low) n = bit (delivery OR destination OR mode) n) \<and>
      (\<forall>n. 17 \<le> n \<longrightarrow> bit (ioapic_regs base s h' low) n =
        (bit (ioapic_regs base s h low) n \<or> bit (delivery OR destination OR mode) n)) \<and>
      drop_bit 24 (ioapic_regs base s h' high) = drop_bit 24 (ioapic_regs base s h high) OR apic_id \<and>
      take_bit 24 (ioapic_regs base s h' high) = 0 \<and>
      (\<forall>r. r \<noteq> low \<and> r \<noteq> high \<longrightarrow> ioapic_regs base s h' r = ioapic_regs base s h r)
    else ioapic_map_irq dev base apic_id irq vector delivery destination mode h =
      Inl (Panic (if 16 \<le> apic_id then ''APIC ID cannot use more that 4 bits''
                  else ''IOAPIC was given out of bounds vector''))"
proof -
  let ?call = "ioapic_map_irq dev base apic_id irq vector delivery destination mode h"
  let ?old = "ioapic_regs base s h"
  note idx = redirect_index [OF assms(2), folded low_def high_def]
  have lh: "low \<noteq> high" by (simp add: low_def high_def)
  define v where "v = (?old high AND 0xFF000000) OR push_bit 24 apic_id"
  obtain h1 where h1: "ioapic_read dev base high h = (?old high, h1)" "ioapic_regs base s h1 = ?old"
    using ioapic_read_reg [OF assms(1) idx(2)] by blast
  let ?h2 = "ioapic_write base high v h1"
  have r2: "ioapic_regs base s ?h2 = ?old(high := v)" using ioapic_write_reg [OF idx(2)] h1(2) by simp
  obtain h3 where h3: "ioapic_read dev base low ?h2 = (?old low, h3)" "ioapic_regs base s h3 = ?old(high := v)"
    using ioapic_read_reg [OF assms(1) idx(1), of ?h2] r2 lh by auto
  define e where "e = redirect_entry (?old low) vector (delivery OR destination OR mode)"
  have call: "?call = (if apic_id \<ge> 16 then Inl (Panic ''APIC ID cannot use more that 4 bits'')
      else if vector < 0x10 \<or> vector > 0xFE then Inl (Panic ''IOAPIC was given out of bounds vector'')
      else Inr (ioapic_write base low e h3))"
    unfolding ioapic_map_irq_def unfolding high_def [symmetric] unfolding low_def [symmetric]
    unfolding Let_def h1(1) prod.case v_def [symmetric] h3(1)
    by (simp add: e_def redirect_entry_def IOAPIC_INT_MASK_def or.assoc)
  show ?thesis
  proof (cases "apic_id < 16 \<and> 0x10 \<le> vector \<and> vector \<le> 0xFE")
    case True
    let ?h = "ioapic_write base low e h3"
    have regs: "ioapic_regs base s ?h = ?old(high := v, low := e)" using ioapic_write_reg [OF idx(1)] h3(2) by simp
    note f = redirect_entry_fields [OF assms(3), where old = "?old low" and vector = vector, folded e_def]
    have "?call = Inr ?h" using True unfolding call by (auto simp: not_less not_le)
    moreover have "drop_bit 24 v = drop_bit 24 (?old high) OR apic_id"
    proof -
      have m: "(0xFF000000 :: u32) = push_bit 24 (mask 8)" by (simp add: mask_eq_exp_minus_1 push_bit_eq_mult)
      have "unat apic_id < 2 ^ 4" using True by (simp add: word_less_nat_alt)
      then have a: "\<not> bit apic_id n" if "8 \<le> n" for n
      proof -
        have "unat apic_id < 2 ^ n" using \<open>unat apic_id < 2 ^ 4\<close> power_increasing [of 4 n "2 :: nat"] that by linarith
        then have "\<not> bit (unat apic_id) n" by (simp add: bit_iff_odd)
        then show ?thesis by (simp add: bit_unsigned_iff)
      qed
      show ?thesis
        by (rule bit_word_eqI) (use a in \<open>auto simp: v_def m bit_simps dest: bit_imp_le_length\<close>)
    qed
    moreover have "take_bit 24 v = 0"
    proof (rule bit_word_eqI)
      fix n
      have "(0xFF000000 :: u32) = push_bit 24 (mask 8)" by (simp add: mask_eq_exp_minus_1 push_bit_eq_mult)
      then show "bit (take_bit 24 v) n \<longleftrightarrow> bit (0 :: u32) n" by (simp add: v_def bit_simps)
    qed
    moreover have "bit e n \<longleftrightarrow> bit (?old low) n \<or> bit (delivery OR destination OR mode) n" if "17 \<le> n" for n
      using that unfolding e_def redirect_entry_bit by (auto dest: bit_imp_le_length)
    ultimately show ?thesis
      unfolding if_P [OF True] using f lh by (intro exI [of _ ?h]) (simp add: regs)
  next
    case False
    then show ?thesis unfolding if_not_P [OF False] call by (auto simp: not_less not_le)
  qed
qed

text \<open>An I/O APIC whose registers start at 0.\<close>

definition ex_ioapic :: device where
  "ex_ioapic h = (let (i, regs) = ioapic_run 0xFEC00000 h (0, \<lambda>_. 0) in regs i)"

lemma ioapic_map_irq_spec_witness:
  "\<exists>h'. ioapic_map_irq ex_ioapic 0xFEC00000 3 2 0x40 IOAPIC_DELIVERY_LOWEST IOAPIC_DESTINATION_PHYSICAL IOAPIC_TRIGGER_LEVEL [] = Inr h' \<and>
     drop_bit 24 (ioapic_regs 0xFEC00000 (0, \<lambda>_. 0) h' 0x15) = 3 \<and>
     bit (ioapic_regs 0xFEC00000 (0, \<lambda>_. 0) h' 0x14) 15"
proof -
  have dev: "is_ioapic 0xFEC00000 (0, \<lambda>_. 0) ex_ioapic"
    unfolding is_ioapic_def
  proof
    fix h
    obtain i regs where s: "ioapic_run 0xFEC00000 h (0, \<lambda>_. 0) = (i, regs)" by force
    show "ex_ioapic (h @ [Reg_read (0xFEC00000 + IOAPIC_DATA)]) =
        snd (ioapic_run 0xFEC00000 h (0, \<lambda>_. 0)) (fst (ioapic_run 0xFEC00000 h (0, \<lambda>_. 0)))"
      by (simp add: ex_ioapic_def s ioapic_run_def [of _ "[_]"])
  qed
  let ?mode = "IOAPIC_DELIVERY_LOWEST OR IOAPIC_DESTINATION_PHYSICAL OR IOAPIC_TRIGGER_LEVEL"
  have mode: "bit ?mode n \<longleftrightarrow> n = 8 \<or> n = 15" for n
    unfolding IOAPIC_DELIVERY_LOWEST_def IOAPIC_DESTINATION_PHYSICAL_def IOAPIC_TRIGGER_LEVEL_def bit_or_iff bit_push_one
    by auto
  then have low: "\<forall>n<8. \<not> bit ?mode n" by simp
  have idx: "IOAPIC_REDTBL0_LOW + ucast (2 :: u8) * 2 = (0x14 :: u32)" by (simp add: IOAPIC_REDTBL0_LOW_def)
  from ioapic_map_irq_spec [OF dev _ low, of 2 3 "0x40" "[]"]
  obtain h' where h: "ioapic_map_irq ex_ioapic 0xFEC00000 3 2 0x40 IOAPIC_DELIVERY_LOWEST IOAPIC_DESTINATION_PHYSICAL IOAPIC_TRIGGER_LEVEL [] = Inr h'"
    "\<forall>n. 8 \<le> n \<and> n < 16 \<longrightarrow> bit (ioapic_regs 0xFEC00000 (0, \<lambda>_. 0) h' 0x14) n = bit ?mode n"
    "drop_bit 24 (ioapic_regs 0xFEC00000 (0, \<lambda>_. 0) h' 0x15) = drop_bit 24 (ioapic_regs 0xFEC00000 (0, \<lambda>_. 0) [] 0x15) OR 3"
    unfolding idx by auto
  have "ioapic_regs 0xFEC00000 (0, \<lambda>_. 0) [] 0x15 = 0" by (simp add: ioapic_regs_def ioapic_run_def)
  with h mode [of 15] show ?thesis by auto
qed

section \<open>The interrupt a command sends\<close>

text \<open>
  The fields of the command register: vector, delivery mode, destination mode, shorthand, and the
  target in its high half.
\<close>

record ipi =
  ipi_vector :: u8
  ipi_delivery :: u32
  ipi_logical :: bool
  ipi_shorthand :: u32
  ipi_target :: u8

definition ipi_of :: "u32 \<Rightarrow> u32 \<Rightarrow> ipi" where
  "ipi_of hi lo = \<lparr>ipi_vector = ucast lo, ipi_delivery = drop_bit 8 lo AND 7, ipi_logical = bit lo 11,
     ipi_shorthand = drop_bit 18 lo AND 3, ipi_target = ucast (drop_bit 24 hi)\<rparr>"

text \<open>The command register is found idle after \<open>n\<close> reads that find it busy.\<close>

definition icr_reads :: "u32 \<Rightarrow> nat \<Rightarrow> history" where
  "icr_reads base n = replicate n (Reg_read (base + ucast LAPIC_ICR_LOW))"

definition icr_busy :: "device \<Rightarrow> u32 \<Rightarrow> history \<Rightarrow> nat \<Rightarrow> bool" where
  "icr_busy dev base h n \<longleftrightarrow> dev (h @ icr_reads base (Suc n)) AND LAPIC_ICR_PENDING \<noteq> 0"

lemma icr_wait_step:
  "icr_wait dev base h = (if icr_busy dev base h 0 then icr_wait dev base (h @ icr_reads base 1) else Some (h @ icr_reads base 1))"
  by (subst icr_wait.simps) (simp add: reg_readl_def io_read_def icr_busy_def icr_reads_def)

lemma icr_busy_shift: "icr_busy dev base (h @ icr_reads base (Suc 0)) n = icr_busy dev base h (Suc n)"
  by (simp add: icr_busy_def icr_reads_def)

lemma icr_wait_idle:
  assumes "\<not> icr_busy dev base h n" "\<forall>k<n. icr_busy dev base h k"
  shows "icr_wait dev base h = Some (h @ icr_reads base (Suc n))"
  using assms
proof (induction n arbitrary: h)
  case 0
  then show ?case by (subst icr_wait_step) simp
next
  case (Suc n)
  have "icr_wait dev base (h @ icr_reads base 1) = Some ((h @ icr_reads base 1) @ icr_reads base (Suc n))"
    by (rule Suc.IH) (use Suc.prems in \<open>auto simp: icr_busy_shift\<close>)
  then show ?case using Suc.prems by (subst icr_wait_step) (simp add: icr_reads_def)
qed

lemma icr_wait_busy:
  assumes "\<And>k. icr_busy dev base h k"
  shows "icr_wait dev base h = None"
proof (rule ccontr)
  assume "icr_wait dev base h \<noteq> None"
  then obtain r where "icr_wait dev base h = Some r" by blast
  then have "\<exists>k. \<not> icr_busy dev base h k"
  proof (rule icr_wait.raw_induct [where P = "\<lambda>dev base h r. \<exists>k. \<not> icr_busy dev base h k", rotated], goal_cases)
    case (1 f dev base h r)
    show ?case
    proof (cases "icr_busy dev base h 0")
      case True
      then have "f dev base (h @ icr_reads base 1) = Some r"
        using 1(2) by (simp add: reg_readl_def io_read_def icr_busy_def icr_reads_def)
      from 1(1) [OF this] show ?thesis by (auto simp: icr_busy_shift)
    qed blast
  qed
  with assms show False by blast
qed

lemma icr_low_bit:
  "bit (icr_low v d m s) n \<longleftrightarrow> bit v n \<or> 8 \<le> n \<and> n < 11 \<and> bit d (n - 8) \<or> n = 11 \<and> bit m 0 \<or>
     n = 14 \<and> d \<noteq> LAPIC_DELIVERY_INIT \<or> bit s n"
proof -
  have v: "bit (ucast v :: u32) n = bit v n" for n by (auto simp: bit_ucast_iff dest: bit_imp_le_length)
  have seven: "bit (7 :: u32) k \<longleftrightarrow> k < 3" for k
  proof -
    have "(7 :: u32) = mask 3" by (simp add: mask_eq_exp_minus_1)
    then show ?thesis by (simp only: bit_mask_iff possible_bit_word) auto
  qed
  define a b where ab: "a = push_bit 8 d AND LAPIC_ICR_DELIVERY" "b = push_bit 11 m AND LAPIC_ICR_DESTINATION"
  have dm: "bit a n \<longleftrightarrow> 8 \<le> n \<and> n < 11 \<and> bit d (n - 8)" for n
    unfolding ab LAPIC_ICR_DELIVERY_def bit_and_iff bit_push_bit_iff seven by auto
  have mm: "bit b n \<longleftrightarrow> n = 11 \<and> bit m 0" for n
    unfolding ab LAPIC_ICR_DESTINATION_def bit_and_iff bit_push_one unfolding bit_push_bit_iff by auto
  have v8: "bit v n \<Longrightarrow> n < 8" for n by (drule bit_imp_le_length) simp
  note bits = bit_or_iff bit_and_iff bit_not_iff bit_push_one v dm mm possible_bit_word
  show ?thesis
  proof (cases "d = LAPIC_DELIVERY_INIT")
    case True
    show ?thesis unfolding icr_low_def Let_def if_P [OF True] ab [symmetric] bits using True by (auto dest: v8 bit_imp_le_length)
  next
    case False
    show ?thesis unfolding icr_low_def Let_def if_not_P [OF False] ab [symmetric] bits using False by (auto dest: v8 bit_imp_le_length)
  qed
qed

lemma ipi_of_command:
  assumes "\<forall>n. bit s n \<longrightarrow> n = 18 \<or> n = 19"
  shows "ipi_of (push_bit 24 (ucast (t AND 0x0F))) (icr_low v d m s) =
    \<lparr>ipi_vector = v, ipi_delivery = d AND 7, ipi_logical = bit m 0, ipi_shorthand = drop_bit 18 s, ipi_target = t AND 0x0F\<rparr>"
proof -
  have small: "bit x n \<longleftrightarrow> n < k" if "x = mask k" "k \<le> 32" for x :: u32 and n k
    using that by (auto simp: bit_mask_iff)
  have seven: "bit (7 :: u32) n \<longleftrightarrow> n < 3" and three: "bit (3 :: u32) n \<longleftrightarrow> n < 2" for n
    by (rule small; simp add: mask_eq_exp_minus_1)+
  have v8: "bit v n \<Longrightarrow> n < 8" for n by (drule bit_imp_le_length) simp
  have "ucast (icr_low v d m s) = v"
    by (rule bit_word_eqI) (use assms in \<open>auto simp: bit_ucast_iff icr_low_bit\<close>)
  moreover have "drop_bit 8 (icr_low v d m s) AND 7 = d AND 7"
  proof (rule bit_word_eqI)
    fix n
    have "bit (drop_bit 8 (icr_low v d m s) AND 7) n \<longleftrightarrow> n < 3 \<and> bit (icr_low v d m s) (8 + n)"
      unfolding bit_and_iff bit_drop_bit_eq seven by auto
    also have "\<dots> \<longleftrightarrow> bit (d AND 7) n" unfolding bit_and_iff seven using assms v8 [of "8 + n"] by (auto simp: icr_low_bit)
    finally show "bit (drop_bit 8 (icr_low v d m s) AND 7) n \<longleftrightarrow> bit (d AND 7) n" .
  qed
  moreover have "bit (icr_low v d m s) 11 = bit m 0" using assms v8 [of 11] by (auto simp: icr_low_bit)
  moreover have "drop_bit 18 (icr_low v d m s) AND 3 = drop_bit 18 s"
  proof (rule bit_word_eqI)
    fix n
    have "bit (drop_bit 18 (icr_low v d m s) AND 3) n \<longleftrightarrow> n < 2 \<and> bit (icr_low v d m s) (18 + n)"
      unfolding bit_and_iff bit_drop_bit_eq three by auto
    also have "\<dots> \<longleftrightarrow> bit s (18 + n)" using assms [rule_format, of "18 + n"] v8 [of "18 + n"] by (auto simp: icr_low_bit)
    finally show "bit (drop_bit 18 (icr_low v d m s) AND 3) n \<longleftrightarrow> bit (drop_bit 18 s) n" by (simp add: bit_drop_bit_eq)
  qed
  moreover have "ucast (drop_bit 24 (push_bit 24 (ucast (t AND 0x0F) :: u32))) = t AND 0x0F"
    by (rule bit_word_eqI) (simp add: bit_ucast_iff bit_drop_bit_eq bit_push_bit_iff)
  ultimately show ?thesis by (simp only: ipi_of_def)
qed

lemma shorthand_bits:
  assumes "s \<in> {LAPIC_DESTINATION_TARGET, LAPIC_DESTINATION_SELF, LAPIC_DESTINATION_ALL, LAPIC_DESTINATION_ALL_BUT_SELF}"
  shows "\<forall>n. bit s n \<longrightarrow> n = 18 \<or> n = 19"
proof -
  have three: "bit (3 :: u32) n \<longleftrightarrow> n < 2" for n
  proof -
    have "(3 :: u32) = mask 2" by (simp add: mask_eq_exp_minus_1)
    then show ?thesis by (simp only: bit_mask_iff possible_bit_word) auto
  qed
  note shift = bit_push_bit_iff three bit_2_iff bit_1_iff
  from assms consider "s = 0" | "s = push_bit 18 1" | "s = push_bit 18 2" | "s = push_bit 18 3"
    unfolding LAPIC_DESTINATION_TARGET_def LAPIC_DESTINATION_SELF_def LAPIC_DESTINATION_ALL_def
      LAPIC_DESTINATION_ALL_BUT_SELF_def by blast
  then show ?thesis by cases (simp only: shift bit_0_eq bot_apply; fastforce)+
qed

lemma send_ipi_idle:
  assumes "\<not> icr_busy dev base h n" "\<forall>k<n. icr_busy dev base h k"
  shows "lapic_send_ipi dev base t v d m s h = Inr (h @ icr_reads base (Suc n) @
    [Reg_write (base + ucast LAPIC_ICR_HIGH) (push_bit 24 (ucast (t AND 0x0F))),
     Reg_write (base + ucast LAPIC_ICR_LOW) (icr_low v d m s)])"
  using icr_wait_idle [OF assms] by (simp add: lapic_send_ipi_def reg_writel_def)

text \<open>
  C34. lapic_send_ipi waits until the command register is idle, for ever if it never is, then
  writes its high and its low half.  With one of the shorthands the header names, the command read
  back has the vector given, the low three bits of the delivery mode, the shorthand, and the low
  four bits of the target; its destination is logical exactly when bit 0 of the destination mode is
  set; the level bit is set except for an INIT interrupt and the trigger bit is clear.  The header's
  LAPIC_DESTINATION_LOGICAL is bit 11: with it the destination is physical all the same.  So is that
  of lapic_send_ipi_to_others, which passes a shorthand as the destination mode: it sends what
  lapic_send_ipi_std sends to processor 0, a fixed interrupt without a shorthand.
\<close>

theorem lapic_send_ipi_spec:
  shows "((\<forall>n. icr_busy dev base h n) \<longrightarrow> lapic_send_ipi dev base t v d m s h = Inl Diverges) \<and>
    (\<forall>n. \<not> icr_busy dev base h n \<and> (\<forall>k<n. icr_busy dev base h k) \<longrightarrow>
      (s \<in> {LAPIC_DESTINATION_TARGET, LAPIC_DESTINATION_SELF, LAPIC_DESTINATION_ALL, LAPIC_DESTINATION_ALL_BUT_SELF} \<longrightarrow>
        (\<exists>hi lo. lapic_send_ipi dev base t v d m s h = Inr (h @ icr_reads base (Suc n) @
            [Reg_write (base + ucast LAPIC_ICR_HIGH) hi, Reg_write (base + ucast LAPIC_ICR_LOW) lo]) \<and>
          ipi_of hi lo = \<lparr>ipi_vector = v, ipi_delivery = d AND 7, ipi_logical = bit m 0,
            ipi_shorthand = drop_bit 18 s, ipi_target = t AND 0x0F\<rparr> \<and>
          bit lo 14 = (d \<noteq> LAPIC_DELIVERY_INIT) \<and> \<not> bit lo 15)) \<and>
      lapic_send_ipi_std dev base t v h =
        lapic_send_ipi dev base t v LAPIC_DELIVERY_FIXED LAPIC_DESTINATION_LOGICAL LAPIC_DESTINATION_TARGET h \<and>
      lapic_send_ipi_to_others dev base v h = lapic_send_ipi_std dev base 0 v h)"
proof (intro conjI impI allI; (elim conjE)?)
  show "lapic_send_ipi dev base t v d m s h = Inl Diverges" if "\<forall>n. icr_busy dev base h n"
    using icr_wait_busy [of dev base h] that by (simp add: lapic_send_ipi_def)
  fix n assume n: "\<not> icr_busy dev base h n" "\<forall>k<n. icr_busy dev base h k"
  let ?hi = "push_bit 24 (ucast (t AND 0x0F)) :: u32" and ?lo = "icr_low v d m s"
  show "\<exists>hi lo. lapic_send_ipi dev base t v d m s h = Inr (h @ icr_reads base (Suc n) @
          [Reg_write (base + ucast LAPIC_ICR_HIGH) hi, Reg_write (base + ucast LAPIC_ICR_LOW) lo]) \<and>
        ipi_of hi lo = \<lparr>ipi_vector = v, ipi_delivery = d AND 7, ipi_logical = bit m 0,
          ipi_shorthand = drop_bit 18 s, ipi_target = t AND 0x0F\<rparr> \<and>
        bit lo 14 = (d \<noteq> LAPIC_DELIVERY_INIT) \<and> \<not> bit lo 15"
    if "s \<in> {LAPIC_DESTINATION_TARGET, LAPIC_DESTINATION_SELF, LAPIC_DESTINATION_ALL, LAPIC_DESTINATION_ALL_BUT_SELF}"
  proof -
    note bits = shorthand_bits [OF that]
    have "bit ?lo 14 = (d \<noteq> LAPIC_DELIVERY_INIT)" "\<not> bit ?lo 15"
      using spec [OF bits, of 14] spec [OF bits, of 15] bit_imp_le_length [of v 14] bit_imp_le_length [of v 15]
      by (auto simp: icr_low_bit)
    then show ?thesis
      using send_ipi_idle [OF n, of t v d m s] ipi_of_command [OF bits, of t v d m]
      by (intro exI [of _ ?hi] exI [of _ ?lo]) simp
  qed
  have mode: "icr_low v LAPIC_DELIVERY_FIXED m' LAPIC_DESTINATION_TARGET = icr_low v LAPIC_DELIVERY_FIXED 0 LAPIC_DESTINATION_TARGET"
    if "\<not> bit m' 0" for m'
    by (rule bit_word_eqI) (simp add: icr_low_bit that)
  have "\<not> bit LAPIC_DESTINATION_ALL_BUT_SELF 0" "\<not> bit LAPIC_DESTINATION_LOGICAL 0"
    by (simp_all add: LAPIC_DESTINATION_ALL_BUT_SELF_def LAPIC_DESTINATION_LOGICAL_def bit_0)
  from mode [OF this(1)] mode [OF this(2)]
  show "lapic_send_ipi_to_others dev base v h = lapic_send_ipi_std dev base 0 v h"
    "lapic_send_ipi_std dev base t v h =
      lapic_send_ipi dev base t v LAPIC_DELIVERY_FIXED LAPIC_DESTINATION_LOGICAL LAPIC_DESTINATION_TARGET h"
    by (simp_all add: send_ipi_idle [OF n] lapic_send_ipi_to_others_def lapic_send_ipi_std_def LAPIC_DESTINATION_PHYSICAL_def)
qed

lemma lapic_send_ipi_spec_witness:
  "\<exists>hi lo. lapic_send_ipi (\<lambda>h. if length h < 3 then LAPIC_ICR_PENDING else 0) 0xFEE00000 0x12 8
      LAPIC_DELIVERY_SIPI LAPIC_DESTINATION_PHYSICAL LAPIC_DESTINATION_ALL_BUT_SELF [] =
      Inr (icr_reads 0xFEE00000 3 @ [Reg_write 0xFEE00310 hi, Reg_write 0xFEE00300 lo]) \<and>
    ipi_of hi lo = \<lparr>ipi_vector = 8, ipi_delivery = 6, ipi_logical = False, ipi_shorthand = 3, ipi_target = 2\<rparr>"
proof -
  let ?dev = "\<lambda>h :: history. if length h < 3 then LAPIC_ICR_PENDING else 0"
  have busy: "icr_busy ?dev 0xFEE00000 [] k \<longleftrightarrow> k < 2" for k
    by (auto simp: icr_busy_def icr_reads_def LAPIC_ICR_PENDING_def)
  then have "\<not> icr_busy ?dev 0xFEE00000 [] 2 \<and> (\<forall>k<2. icr_busy ?dev 0xFEE00000 [] k)" by simp
  from conjunct2 [OF lapic_send_ipi_spec [where t = "0x12" and v = 8 and d = LAPIC_DELIVERY_SIPI and
      m = LAPIC_DESTINATION_PHYSICAL and s = LAPIC_DESTINATION_ALL_BUT_SELF], THEN spec, THEN mp, OF this]
  obtain hi lo where "lapic_send_ipi ?dev 0xFEE00000 0x12 8 LAPIC_DELIVERY_SIPI LAPIC_DESTINATION_PHYSICAL
        LAPIC_DESTINATION_ALL_BUT_SELF [] = Inr ([] @ icr_reads 0xFEE00000 (Suc 2) @
        [Reg_write (0xFEE00000 + ucast LAPIC_ICR_HIGH) hi, Reg_write (0xFEE00000 + ucast LAPIC_ICR_LOW) lo])"
      "ipi_of hi lo = \<lparr>ipi_vector = 8, ipi_delivery = LAPIC_DELIVERY_SIPI AND 7,
          ipi_logical = bit LAPIC_DESTINATION_PHYSICAL 0,
          ipi_shorthand = drop_bit 18 LAPIC_DESTINATION_ALL_BUT_SELF, ipi_target = 0x12 AND 0x0F\<rparr>"
    by blast
  then show ?thesis
    by (intro exI [of _ hi] exI [of _ lo]) (simp add: LAPIC_ICR_HIGH_def LAPIC_ICR_LOW_def LAPIC_DELIVERY_SIPI_def
      LAPIC_DESTINATION_PHYSICAL_def LAPIC_DESTINATION_ALL_BUT_SELF_def)
qed

end
