(* ===== verification/Boot_Memory.thy ===== *)
theory Boot_Memory
  imports Phys_Mem Kernel_Memory
begin

text \<open>
  How \<^verbatim>\<open>kernel_entry\<close> of \<^verbatim>\<open>kernel.c\<close> sets physical memory up: every block in use, the available
  regions of the boot loader's memory map freed, the kernel and the manager's bitmap reserved.
  The linker's addresses are parameters, and so is the memory found where the bitmap goes.
\<close>

unbundle bit_operations_syntax

section \<open>The boot loader's information\<close>

record multiboot_info =
  mbi_flags :: u32
  mem_lower :: u32
  mem_upper :: u32
  boot_device :: u32
  cmdline :: u32
  mods_count :: u32
  mods_addr :: u32
  mbi_u :: "u32 list"
  mmap_length :: u32
  mmap_addr :: u32

record multiboot_mmap_entry =
  mme_size :: u32
  mme_addr :: u64
  mme_len :: u64
  mme_type :: u32

section \<open>Setting up physical memory\<close>

text \<open>The body of the loop, with the entry at \<open>entry\<close>: the casts keep the low half of its 64-bit fields.\<close>

definition map_entry :: "kmem \<Rightarrow> u32 \<Rightarrow> phys_mem \<Rightarrow> phys_mem res" where
  "map_entry m entry s =
     res_bind (kload32 m (entry + 20)) (\<lambda>ty.
       if ty = 1 then
         res_bind (kload32 m (entry + 4)) (\<lambda>addr.
         res_bind (kload32 m (entry + 12)) (\<lambda>len.
         res_bind (phys_mem_free_region addr (len - len mod 4096) s) (\<lambda>(r, s).
           if r \<noteq> ERROR_OK then Inl (Panic ''Could not insert region into mmb'') else Inr s)))
       else Inr s)"

partial_function (option) memory_map_loop :: "kmem \<Rightarrow> u32 \<Rightarrow> u32 \<Rightarrow> phys_mem \<Rightarrow> phys_mem res option" where
  "memory_map_loop m fin entry s =
     (if entry < fin then
        loop_bind (map_entry m entry s) (\<lambda>s.
        loop_bind (kload32 m entry) (\<lambda>size.
          memory_map_loop m fin (entry + size + 4) s))
      else Some (Inr s))"

abbreviation past_page :: "u32 \<Rightarrow> u32" where
  "past_page n \<equiv> n + 4096 - n mod 4096"

definition setup_physical_memory ::
    "kmem \<Rightarrow> multiboot_info \<Rightarrow> u32 \<Rightarrow> u32 \<Rightarrow> u32 \<Rightarrow> u32 list \<Rightarrow> phys_mem \<Rightarrow> phys_mem res" where
  "setup_physical_memory m mbd kernel_start kernel_end kernel_physical_start memory s =
     res_bind (phys_mem_init (mem_lower mbd + mem_upper mbd) 0x200000 memory s) (\<lambda>s.
     if mbi_flags mbd AND 1 = 0 then Inl (Panic ''Cannot get memory length'')
     else if mbi_flags mbd \<noteq> 0 \<and> push_bit 6 (1 :: u32) = 0 then Inl (Panic ''Cannot get memory map'')
     else
       res_bind (returns (memory_map_loop m (mmap_addr mbd + mmap_length mbd) (mmap_addr mbd) s)) (\<lambda>r.
       res_bind r (\<lambda>s.
       let kernel_length = kernel_end - kernel_start in
       res_bind (phys_mem_reserve_region kernel_physical_start (past_page kernel_length) s) (\<lambda>(r, s).
       if r \<noteq> ERROR_OK then Inl (Panic ''Could not reserve physical memory for the kernel'')
       else
         res_bind (phys_mem_reserve_region 0x200000 (past_page (phys_mem_get_bitmap_size s)) s) (\<lambda>(r, s).
         if r \<noteq> ERROR_OK then Inl (Panic ''Could not reserve physical memory for the memory manager'')
         else Inr s)))))"

section \<open>A memory map as a list\<close>

text \<open>An entry may be longer than the fields the kernel knows; \<open>ext\<close> is the rest.\<close>

definition le64 :: "u64 \<Rightarrow> u8 list" where
  "le64 w = le32 (ucast w) @ le32 (ucast (drop_bit 32 w))"

fun entry_bytes :: "multiboot_mmap_entry \<times> u8 list \<Rightarrow> u8 list" where
  "entry_bytes (e, ext) = le32 (mme_size e) @ le64 (mme_addr e) @ le64 (mme_len e) @ le32 (mme_type e) @ ext"

definition map_bytes :: "(multiboot_mmap_entry \<times> u8 list) list \<Rightarrow> u8 list" where
  "map_bytes es = concat (map entry_bytes es)"

definition sized :: "multiboot_mmap_entry \<times> u8 list \<Rightarrow> bool" where
  "sized = (\<lambda>(e, ext). unat (mme_size e) = 20 + length ext)"

text \<open>What is freed for an entry: base, length.\<close>

definition entry_base :: "multiboot_mmap_entry \<Rightarrow> u32" where "entry_base e = ucast (mme_addr e)"
definition entry_len :: "multiboot_mmap_entry \<Rightarrow> u32" where
  "entry_len e = ucast (mme_len e) - ucast (mme_len e) mod 4096"

primrec free_entries :: "multiboot_mmap_entry list \<Rightarrow> phys_mem \<Rightarrow> phys_mem res" where
  "free_entries [] s = Inr s"
| "free_entries (e # es) s =
     (if mme_type e = 1 then
        res_bind (phys_mem_free_region (entry_base e) (entry_len e) s) (\<lambda>(r, s).
          if r \<noteq> ERROR_OK then Inl (Panic ''Could not insert region into mmb'') else free_entries es s)
      else free_entries es s)"

lemma length_le64 [simp]: "length (le64 w) = 8"
  by (simp add: le64_def)

lemma map_entry_bytes:
  assumes "bytes_at m a (entry_bytes (e, ext))"
  shows "kload32 m a = Inr (mme_size e)"
    and "map_entry m a s = free_entries [e] s"
proof -
  from assms have b: "bytes_at m a (le32 (mme_size e))" "bytes_at m (a + 4) (le32 (ucast (mme_addr e)))"
    "bytes_at m (a + 12) (le32 (ucast (mme_len e)))" "bytes_at m (a + 20) (le32 (mme_type e))"
    by (simp_all add: bytes_at_append le64_def add.assoc)
  show "kload32 m a = Inr (mme_size e)" by (rule kload32_le32 [OF b(1)])
  show "map_entry m a s = free_entries [e] s"
    by (simp add: map_entry_def kload32_le32 [OF b(2)] kload32_le32 [OF b(3)] kload32_le32 [OF b(4)]
        entry_base_def entry_len_def case_prod_unfold cong: if_cong)
qed

lemma free_entries_Cons: "free_entries (e # es) s = res_bind (free_entries [e] s) (free_entries es)"
  by (cases "phys_mem_free_region (entry_base e) (entry_len e) s") auto

lemma memory_map_loop_bytes:
  assumes "bytes_at m a (map_bytes es)" "\<forall>e \<in> set es. sized e"
    "unat a + length (map_bytes es) = unat fin"
  shows "memory_map_loop m fin a s = Some (free_entries (map fst es) s)"
  using assms
proof (induction es arbitrary: a s)
  case Nil
  then have "a = fin" by (simp add: map_bytes_def word_unat_eq_iff)
  then show ?case by (simp add: memory_map_loop.simps)
next
  case (Cons x es)
  obtain e ext where x: "x = (e, ext)" by (cases x)
  have size: "unat (mme_size e) = 20 + length ext" using Cons.prems(2) x by (simp add: sized_def)
  have len: "length (entry_bytes (e, ext)) = 24 + length ext" by simp
  have fin: "unat a + (24 + length ext) + length (map_bytes es) = unat fin"
    using Cons.prems(3) x by (simp add: map_bytes_def)
  have next_entry: "a + mme_size e + 4 = a + of_nat (24 + length ext)"
    using arg_cong [OF size, of "of_nat :: nat \<Rightarrow> u32"] by simp
  have "unat (a + of_nat (24 + length ext)) = unat a + (24 + length ext)"
    using fin unat_u32_less [of fin] by (simp only: unat_word_ariths unat_of_nat_u32) (simp add: unat_of_nat)
  note step = this
  have b: "bytes_at m a (entry_bytes (e, ext))" "bytes_at m (a + of_nat (24 + length ext)) (map_bytes es)"
    using Cons.prems(1) len unfolding x map_bytes_def by (simp_all only: list.map concat.simps bytes_at_append)
  have "a < fin" using fin by (simp add: word_less_nat_alt)
  then have "memory_map_loop m fin a s =
      loop_bind (free_entries [e] s) (\<lambda>s. memory_map_loop m fin (a + mme_size e + 4) s)"
    by (subst memory_map_loop.simps) (simp only: if_True map_entry_bytes [OF b(1)] loop_bind_simps)
  also have "\<dots> = loop_bind (free_entries [e] s) (\<lambda>s. Some (free_entries (map fst es) s))"
    unfolding next_entry using Cons.IH [OF b(2)] Cons.prems(2) fin step by simp
  also have "\<dots> = Some (free_entries (map fst (x # es)) s)"
  proof -
    have "free_entries (map fst (x # es)) s = res_bind (free_entries [e] s) (free_entries (map fst es))"
      unfolding x list.map fst_conv by (rule free_entries_Cons)
    then show ?thesis by (cases "free_entries [e] s") (simp_all only: loop_bind_simps res_bind_Inr res_bind_Inl)
  qed
  finally show ?case .
qed

section \<open>Regions of a bitmap that counts less than it covers\<close>

text \<open>
  The loops of the manager do not stop at the last counted block: what they need is that the memory
  behind the bitmap is there.  So these lemmas speak of every block that has a bit, and of the
  counter as a 32-bit number, not of the invariant.
\<close>

definition marked :: "phys_mem \<Rightarrow> nat set" where "marked s = {b. block_used s b}"

definition covers :: "nat \<Rightarrow> phys_mem \<Rightarrow> bool" where
  "covers len s \<longleftrightarrow> length (phys_mem_bitmap s) = len \<and> len \<le> 2 ^ 26 \<and> \<not> lock_held (phys_mem_lock s)"

text \<open>The blocks up to the first that is not in use, those up to the first that is.\<close>

definition free_run :: "nat set \<Rightarrow> nat \<Rightarrow> nat \<Rightarrow> nat set" where
  "free_run U c n = {b. c \<le> b \<and> b < c + n \<and> {c..b} \<subseteq> U}"

lemma free_run_subset: "free_run U c n \<subseteq> U \<inter> {c..<c + n}"
  by (auto simp: free_run_def)

lemma free_run_finite [simp]: "finite (free_run U c n)"
  by (rule finite_subset [OF free_run_subset]) simp

lemma free_run_0 [simp]: "free_run U c 0 = {}"
  by (auto simp: free_run_def)

lemma free_run_stop: "c \<notin> U \<Longrightarrow> free_run U c n = {}"
  by (auto simp: free_run_def)

lemma free_run_Suc:
  assumes "c \<in> U"
  shows "free_run U c (Suc n) = insert c (free_run (U - {c}) (Suc c) n)"
proof -
  have "{c..b} = insert c {Suc c..b}" if "c \<le> b" for b using that by auto
  then show ?thesis using assms by (auto simp: free_run_def dest: le_neq_implies_less)
qed

lemma free_run_all: "{c..<c + n} \<subseteq> U \<Longrightarrow> free_run U c n = {c..<c + n}"
  by (auto simp: free_run_def)

lemma marked_with_bit:
  assumes "b < 32 * length (phys_mem_bitmap s)"
  shows "marked (with_bit u b s) = (if u then insert b (marked s) else marked s - {b})"
  using assms by (auto simp: marked_def block_used_with_bit)

lemma marked_fields [simp]:
  "marked (s\<lparr>phys_mem_used_blocks := n\<rparr>) = marked s" "marked (s\<lparr>phys_mem_lock := l\<rparr>) = marked s"
  by (simp_all add: marked_def)

lemma free_loop_marks:
  assumes "length (phys_mem_bitmap s) \<le> 2 ^ 26" "unat c + n \<le> 32 * length (phys_mem_bitmap s)"
  shows "\<exists>s'. free_loop n c s = Inr s' \<and> phys_mem_max_blocks s' = phys_mem_max_blocks s \<and>
    length (phys_mem_bitmap s') = length (phys_mem_bitmap s) \<and> phys_mem_lock s' = phys_mem_lock s \<and>
    marked s' = marked s - free_run (marked s) (unat c) n \<and>
    phys_mem_used_blocks s' = phys_mem_used_blocks s - of_nat (card (free_run (marked s) (unat c) n))"
  using assms
proof (induction n arbitrary: c s)
  case (Suc n)
  have c: "unat c < 32 * length (phys_mem_bitmap s)" using Suc.prems(2) by simp
  obtain t where t: "mmap_test c s = Inr t" "t \<noteq> 0 \<longleftrightarrow> unat c \<in> marked s"
    using mmap_test_ok [OF Suc.prems(1) c] by (auto simp: marked_def)
  show ?case
  proof (cases "unat c \<in> marked s")
    case False
    with t have "free_loop (Suc n) c s = free_loop n c s" by simp
    with Suc.IH [of s c] Suc.prems False show ?thesis by (simp add: free_run_stop)
  next
    case True
    let ?s = "(with_bit False (unat c) s)\<lparr>phys_mem_used_blocks := phys_mem_used_blocks s - 1\<rparr>"
    let ?r = "free_run (marked s - {unat c}) (Suc (unat c)) n"
    have "unat c + 1 < 2 ^ 32" using c Suc.prems(1) by simp
    then have suc: "unat (c + 1) = Suc (unat c)" by (simp add: unat_word_ariths)
    have "free_loop (Suc n) c s = free_loop n (c + 1) ?s"
      using t True Suc.prems(1) c by (simp add: mmap_set_ok)
    moreover have "marked ?s = marked s - {unat c}" using c by (simp add: marked_with_bit)
    moreover have "unat c \<notin> ?r" by (auto simp: free_run_def)
    then have "card (free_run (marked s) (unat c) (Suc n)) = Suc (card ?r)"
      using True by (simp add: free_run_Suc)
    moreover have "marked s - {unat c} - ?r = marked s - free_run (marked s) (unat c) (Suc n)"
      using True by (auto simp: free_run_Suc)
    ultimately show ?thesis using Suc.IH [of ?s "c + 1"] Suc.prems suc by (simp add: algebra_simps)
  qed
qed simp

lemma reserve_loop_marks:
  assumes "length (phys_mem_bitmap s) \<le> 2 ^ 26" "{unat c..<unat c + n} \<subseteq> {..<32 * length (phys_mem_bitmap s)}"
    "{unat c..<unat c + n} \<inter> marked s = {}"
  shows "\<exists>s'. reserve_loop n c s = Inr s' \<and> phys_mem_max_blocks s' = phys_mem_max_blocks s \<and>
    length (phys_mem_bitmap s') = length (phys_mem_bitmap s) \<and> phys_mem_lock s' = phys_mem_lock s \<and>
    marked s' = marked s \<union> {unat c..<unat c + n} \<and> phys_mem_used_blocks s' = phys_mem_used_blocks s + of_nat n"
  using assms
proof (induction n arbitrary: c s)
  case (Suc n)
  have cons: "{unat c..<unat c + Suc n} = insert (unat c) {Suc (unat c)..<Suc (unat c) + n}" by auto
  have c: "unat c < 32 * length (phys_mem_bitmap s)" "unat c \<notin> marked s"
    using Suc.prems(2,3) unfolding cons by auto
  have t: "mmap_test c s = Inr 0" using mmap_test_ok [OF Suc.prems(1) c(1)] c(2) by (auto simp: marked_def)
  let ?s = "(with_bit True (unat c) s)\<lparr>phys_mem_used_blocks := phys_mem_used_blocks s + 1\<rparr>"
  have "unat c + 1 < 2 ^ 32" using c Suc.prems(1) by simp
  then have suc: "unat (c + 1) = Suc (unat c)" by (simp add: unat_word_ariths)
  have "reserve_loop (Suc n) c s = reserve_loop n (c + 1) ?s"
    using t Suc.prems(1) c by (simp add: mmap_set_ok)
  moreover have marks: "marked ?s = insert (unat c) (marked s)" using c by (simp add: marked_with_bit)
  moreover have "{Suc (unat c)..<Suc (unat c) + n} \<inter> marked ?s = {}" using Suc.prems(3) marks unfolding cons by auto
  ultimately show ?case using Suc.IH [of ?s "c + 1"] Suc.prems(1,2) suc unfolding cons by (simp add: algebra_simps)
qed simp

lemma free_region_marks:
  assumes "covers len s" "unat base mod 4096 = 0" "unat n mod 4096 = 0" "frame_of base + frame_of n \<le> 32 * len"
  shows "\<exists>s'. phys_mem_free_region base n s = Inr (ERROR_OK, s') \<and> covers len s' \<and>
    phys_mem_max_blocks s' = phys_mem_max_blocks s \<and>
    marked s' = marked s - free_run (marked s) (frame_of base) (frame_of n) \<and>
    phys_mem_used_blocks s' = phys_mem_used_blocks s - of_nat (card (free_run (marked s) (frame_of base) (frame_of n)))"
proof -
  let ?s1 = "s\<lparr>phys_mem_lock := phys_mem_lock s OR 1\<rparr>"
  have al: "base mod 4096 = 0" "n mod 4096 = 0"
    using assms(2,3) by (simp_all add: word_unat_eq_iff word_nat)
  have "unat (base div 4096) + frame_of n \<le> 32 * length (phys_mem_bitmap ?s1)" "length (phys_mem_bitmap ?s1) \<le> 2 ^ 26"
    using assms(1,4) by (simp_all add: word_nat covers_def)
  from free_loop_marks [OF this(2,1)] assms(1) al show ?thesis
    by (auto simp: phys_mem_free_region_def pm_acquire_def pm_release_def word_nat covers_def)
qed

lemma reserve_region_marks:
  assumes "covers len s" "unat base mod 4096 = 0" "unat n mod 4096 = 0" "region base n \<subseteq> {..<32 * len}"
    "region base n \<inter> marked s = {}"
  shows "\<exists>s'. phys_mem_reserve_region base n s = Inr (ERROR_OK, s') \<and> covers len s' \<and>
    phys_mem_max_blocks s' = phys_mem_max_blocks s \<and> marked s' = marked s \<union> region base n \<and>
    phys_mem_used_blocks s' = phys_mem_used_blocks s + of_nat (frame_of n)"
proof -
  let ?s1 = "s\<lparr>phys_mem_lock := phys_mem_lock s OR 1\<rparr>"
  have al: "base mod 4096 = 0" "n mod 4096 = 0"
    using assms(2,3) by (simp_all add: word_unat_eq_iff word_nat)
  have "{unat (base div 4096)..<unat (base div 4096) + frame_of n} \<subseteq> {..<32 * length (phys_mem_bitmap ?s1)}" "length (phys_mem_bitmap ?s1) \<le> 2 ^ 26"
    "{unat (base div 4096)..<unat (base div 4096) + frame_of n} \<inter> marked ?s1 = {}"
    using assms(1,4,5) by (simp_all add: word_nat covers_def)
  from reserve_loop_marks [OF this(2,1,3)] assms(1) al show ?thesis
    by (auto simp: phys_mem_reserve_region_def pm_acquire_def pm_release_def word_nat covers_def)
qed

text \<open>
  What the bitmap says after phys_mem_init with \<open>n\<close> blocks: the first \<open>n div 8\<close> bytes are ones, the
  rest is the memory as it was found.
\<close>

definition found_marks :: "nat \<Rightarrow> u32 list \<Rightarrow> nat set" where
  "found_marks n memory = {b. b < 32 * length memory \<and>
     (b < 8 * (n div 8) \<or> bit (memory ! (b div 32)) (b mod 32))}"

lemma init_marks:
  assumes "unat kb < 2 ^ 22" "unat kb div 4 \<le> 32 * length memory" "length memory \<le> 2 ^ 26"
    "\<not> lock_held (phys_mem_lock s)"
  shows "\<exists>s'. phys_mem_init kb base memory s = Inr s' \<and> covers (length memory) s' \<and>
    unat (phys_mem_max_blocks s') = unat kb div 4 \<and> phys_mem_used_blocks s' = phys_mem_max_blocks s' \<and>
    marked s' = found_marks (unat kb div 4) memory"
proof -
  let ?n = "unat kb div 4"
  have "unat (kb * 1024) = unat kb * 1024" using assms(1) by (simp add: unat_word_ariths)
  then have blocks: "unat (kb * 1024 div 4096) = ?n" by (simp add: word_nat)
  have bytes: "unat (kb * 1024 div 4096 div 8) = ?n div 8" using blocks by (simp only: word_nat) simp
  have "?n div 8 \<le> 4 * length memory" using assms(2) by linarith
  then obtain bm where bm: "fill_ff (?n div 8) memory = Inr bm" using fill_ff_total by blast
  then show ?thesis
    using assms(3,4) bytes blocks fill_ff_length [OF bm] fill_ff_bits [OF bm]
    by (auto simp: phys_mem_init_def phys_mem_get_bitmap_size_def phys_mem_get_block_count_def Let_def
        covers_def marked_def block_used_def found_marks_def)
qed

section \<open>What is in use afterwards\<close>

text \<open>The blocks an entry makes available, and those of the whole map.\<close>

definition entry_blocks :: "multiboot_mmap_entry \<Rightarrow> nat set" where
  "entry_blocks e = (if mme_type e = 1 then region (entry_base e) (entry_len e) else {})"

definition available :: "multiboot_mmap_entry list \<Rightarrow> nat set" where
  "available es = \<Union> (entry_blocks ` set es)"

text \<open>What is really freed of them when \<open>U\<close> is in use: each region up to its first block that is not.\<close>

definition entry_freed :: "nat set \<Rightarrow> multiboot_mmap_entry \<Rightarrow> nat set" where
  "entry_freed U e =
     (if mme_type e = 1 then free_run U (frame_of (entry_base e)) (frame_of (entry_len e)) else {})"

definition freed :: "nat set \<Rightarrow> multiboot_mmap_entry list \<Rightarrow> nat set" where
  "freed U es = \<Union> (entry_freed U ` set es)"

text \<open>A region on page boundaries among the first \<open>n\<close> blocks, and a map of such regions, none twice.\<close>

definition fits :: "nat \<Rightarrow> u32 \<Rightarrow> u32 \<Rightarrow> bool" where
  "fits n base len \<longleftrightarrow> unat base mod 4096 = 0 \<and> frame_of base + frame_of len \<le> n"

definition map_ok :: "nat \<Rightarrow> multiboot_mmap_entry list \<Rightarrow> bool" where
  "map_ok n es \<longleftrightarrow> (\<forall>e \<in> set es. mme_type e = 1 \<longrightarrow> fits n (entry_base e) (entry_len e)) \<and>
     sorted_wrt (\<lambda>e e'. entry_blocks e \<inter> entry_blocks e' = {}) es"

lemma unat_page_part: "unat (w - w mod 4096) = unat w - unat w mod 4096" for w :: u32
proof -
  have "w mod 4096 \<le> w" by (simp add: word_le_nat_alt word_nat)
  then show ?thesis by (simp add: unat_sub word_nat)
qed

lemma page_part_aligned: "unat (w - w mod 4096) mod 4096 = 0" for w :: u32
  unfolding unat_page_part by (metis minus_mod_eq_mult_div mod_mult_self1_is_0)

lemma entry_len_aligned: "unat (entry_len e) mod 4096 = 0"
  unfolding entry_len_def by (rule page_part_aligned)

lemma past_page_aligned: "unat (past_page w) mod 4096 = 0"
proof -
  have "past_page w = (w - w mod 4096) + 4096" by simp
  then have "unat (past_page w) = (unat (w - w mod 4096) + 4096) mod 2 ^ 32"
    by (simp only: unat_word_ariths) simp
  moreover have "(x + 4096) mod 2 ^ 32 mod 4096 = 0" if "x mod 4096 = 0" for x :: nat
    using that by (simp add: mod_mod_cancel)
  ultimately show ?thesis using page_part_aligned [of w] by presburger
qed

lemma freed_Cons: "freed U (e # es) = entry_freed U e \<union> freed U es"
  by (simp add: freed_def)

lemma entry_freed_subset: "entry_freed U e \<subseteq> U \<inter> entry_blocks e"
  using free_run_subset by (auto simp: entry_freed_def entry_blocks_def)

lemma freed_subset: "freed U es \<subseteq> U \<inter> available es"
  using entry_freed_subset by (fastforce simp: freed_def available_def)

lemma freed_finite [simp]: "finite (freed U es)"
  by (simp add: freed_def entry_freed_def)

text \<open>Blocks freed elsewhere do not shorten a run.\<close>

lemma entry_freed_apart:
  assumes "X \<inter> entry_blocks e = {}"
  shows "entry_freed (U - X) e = entry_freed U e"
proof -
  have "{frame_of (entry_base e)..b} \<subseteq> U - X \<longleftrightarrow> {frame_of (entry_base e)..b} \<subseteq> U"
    if "mme_type e = 1" "b < frame_of (entry_base e) + frame_of (entry_len e)" for b
    using assms that by (auto simp: entry_blocks_def)
  then show ?thesis by (auto simp: entry_freed_def free_run_def)
qed

text \<open>An available block below \<open>n\<close> is freed when all of these are in use.\<close>

lemma available_freed:
  assumes "{..<n} \<subseteq> U"
  shows "available es \<inter> {..<n} \<subseteq> freed U es"
proof -
  have "entry_blocks e \<inter> {..<n} \<subseteq> entry_freed U e" for e
  proof
    fix b assume b: "b \<in> entry_blocks e \<inter> {..<n}"
    then have "{x..b} \<subseteq> U" for x using assms by auto
    then show "b \<in> entry_freed U e" using b by (auto simp: entry_blocks_def entry_freed_def free_run_def split: if_splits)
  qed
  then show ?thesis by (fastforce simp: available_def freed_def)
qed

lemma free_entries_marks:
  assumes "covers len s" "map_ok (32 * len) es"
  shows "\<exists>s'. free_entries es s = Inr s' \<and> covers len s' \<and> phys_mem_max_blocks s' = phys_mem_max_blocks s \<and>
    marked s' = marked s - freed (marked s) es \<and>
    phys_mem_used_blocks s' = phys_mem_used_blocks s - of_nat (card (freed (marked s) es))"
  using assms
proof (induction es arbitrary: s)
  case Nil
  then show ?case by (simp add: freed_def)
next
  case (Cons e es)
  have rest: "map_ok (32 * len) es" using Cons.prems(2) by (simp add: map_ok_def)
  show ?case
  proof (cases "mme_type e = 1")
    case False
    then have "freed U (e # es) = freed U es" for U by (simp add: freed_Cons entry_freed_def)
    with Cons.IH [OF Cons.prems(1) rest] False show ?thesis by simp
  next
    case True
    then have run: "entry_freed U e = free_run U (frame_of (entry_base e)) (frame_of (entry_len e))" for U
      by (simp add: entry_freed_def)
    let ?X = "entry_freed (marked s) e"
    have fit: "fits (32 * len) (entry_base e) (entry_len e)" using Cons.prems(2) True by (simp add: map_ok_def)
    obtain s1 where s1: "phys_mem_free_region (entry_base e) (entry_len e) s = Inr (ERROR_OK, s1)"
      "covers len s1" "phys_mem_max_blocks s1 = phys_mem_max_blocks s" "marked s1 = marked s - ?X"
      "phys_mem_used_blocks s1 = phys_mem_used_blocks s - of_nat (card ?X)"
      using free_region_marks [OF Cons.prems(1), of "entry_base e" "entry_len e"] fit entry_len_aligned [of e]
      by (auto simp: fits_def run)
    have "?X \<inter> entry_blocks e' = {}" if "e' \<in> set es" for e'
      using Cons.prems(2) that entry_freed_subset [of "marked s" e] by (fastforce simp: map_ok_def)
    then have same: "freed (marked s1) es = freed (marked s) es"
      unfolding s1(4) freed_def by (simp add: entry_freed_apart)
    have "?X \<inter> freed (marked s) es = {}"
      using freed_subset [of "marked s1" es] s1(4) unfolding same by auto
    then have "card (freed (marked s) (e # es)) = card ?X + card (freed (marked s) es)"
      unfolding freed_Cons by (intro card_Un_disjoint freed_finite) (simp_all add: entry_freed_def)
    with Cons.IH [OF s1(2) rest] s1 same True show ?thesis
      by (auto simp: freed_Cons algebra_simps)
  qed
qed

text \<open>The map \<open>es\<close> lies where the boot loader says, and ends below 4 GB.\<close>

definition boot_map :: "kmem \<Rightarrow> multiboot_info \<Rightarrow> (multiboot_mmap_entry \<times> u8 list) list \<Rightarrow> bool" where
  "boot_map m mbd es \<longleftrightarrow> bytes_at m (mmap_addr mbd) (map_bytes es) \<and> (\<forall>e \<in> set es. sized e) \<and>
     unat (mmap_length mbd) = length (map_bytes es) \<and>
     unat (mmap_addr mbd) + unat (mmap_length mbd) < 2 ^ 32"

lemma setup_marks:
  assumes "boot_map m mbd es" "mbi_flags mbd AND 1 \<noteq> 0" "\<not> lock_held (phys_mem_lock s)"
    and size: "unat (mem_lower mbd + mem_upper mbd) < 2 ^ 22" "n = unat (mem_lower mbd + mem_upper mbd) div 4"
      "n \<le> 32 * length memory" "length memory \<le> 2 ^ 26"
    and map: "map_ok (32 * length memory) (map fst es)"
    and kernel: "unat kphys mod 4096 = 0" "K = region kphys (past_page (kend - kstart))"
      "K \<subseteq> available (map fst es) \<inter> {..<8 * (n div 8)}"
    and bitmap: "B = region 0x200000 (past_page (of_nat (n div 8)))"
      "B \<subseteq> available (map fst es) \<inter> {..<8 * (n div 8)}"
    and apart: "K \<inter> B = {}"
    and U: "U = found_marks n memory"
  obtains s' where "setup_physical_memory m mbd kstart kend kphys memory s = Inr s'" "covers (length memory) s'"
    "unat (phys_mem_max_blocks s') = n" "marked s' = U - (freed U (map fst es) - K - B)"
    "K \<subseteq> freed U (map fst es)" "B \<subseteq> freed U (map fst es)"
    "phys_mem_used_blocks s' = phys_mem_max_blocks s' - of_nat (card (freed U (map fst es) - K - B))"
proof -
  let ?F = "freed U (map fst es)"
  have top: "8 * (n div 8) \<le> 32 * length memory" using size(3) by linarith
  then have "{..<8 * (n div 8)} \<subseteq> U" unfolding U by (auto simp: found_marks_def)
  then have "available (map fst es) \<inter> {..<8 * (n div 8)} \<subseteq> ?F" by (rule available_freed)
  then have sub: "K \<subseteq> ?F" "B \<subseteq> ?F" using kernel(3) bitmap(2) by blast+
  have KF: "region kphys (past_page (kend - kstart)) \<subseteq> {..<32 * length memory}"
    and BF: "region 0x200000 (past_page (of_nat (n div 8))) \<subseteq> {..<32 * length memory}"
    using kernel(3) bitmap(2) top unfolding kernel(2) bitmap(1) by fastforce+
  obtain s0 where s0: "phys_mem_init (mem_lower mbd + mem_upper mbd) 0x200000 memory s = Inr s0"
    "covers (length memory) s0" "unat (phys_mem_max_blocks s0) = n"
    "phys_mem_used_blocks s0 = phys_mem_max_blocks s0" "marked s0 = U"
    using init_marks [of "mem_lower mbd + mem_upper mbd" memory s "0x200000"] size assms(3) U by auto
  have "unat (mmap_addr mbd) + length (map_bytes es) = unat (mmap_addr mbd + mmap_length mbd)"
    using assms(1) by (simp add: boot_map_def unat_word_ariths)
  then have "memory_map_loop m (mmap_addr mbd + mmap_length mbd) (mmap_addr mbd) s0 =
    Some (free_entries (map fst es) s0)"
    using assms(1) memory_map_loop_bytes by (simp add: boot_map_def)
  moreover obtain s1 where s1: "free_entries (map fst es) s0 = Inr s1" "covers (length memory) s1"
    "phys_mem_max_blocks s1 = phys_mem_max_blocks s0" "marked s1 = U - ?F"
    "phys_mem_used_blocks s1 = phys_mem_max_blocks s0 - of_nat (card ?F)"
    using free_entries_marks [OF s0(2) map] s0(4,5) by auto
  moreover obtain s2 where s2: "phys_mem_reserve_region kphys (past_page (kend - kstart)) s1 = Inr (ERROR_OK, s2)"
    "covers (length memory) s2" "phys_mem_max_blocks s2 = phys_mem_max_blocks s0" "marked s2 = U - ?F \<union> K"
    "phys_mem_used_blocks s2 = phys_mem_used_blocks s1 + of_nat (card K)"
    using reserve_region_marks [OF s1(2) kernel(1) past_page_aligned KF] sub(1) s1(3,4) unfolding kernel(2) by auto
  moreover have "unat (phys_mem_get_bitmap_size s2) = n div 8"
    using s2(3) s0(3) by (simp add: phys_mem_get_bitmap_size_def phys_mem_get_block_count_def word_nat)
  from arg_cong [OF this, of "of_nat :: nat \<Rightarrow> u32"] have "phys_mem_get_bitmap_size s2 = of_nat (n div 8)" by simp
  moreover have "B \<inter> (U - ?F \<union> K) = {}" using sub(2) apart by blast
  then obtain s3 where s3: "phys_mem_reserve_region 0x200000 (past_page (of_nat (n div 8))) s2 = Inr (ERROR_OK, s3)"
    "covers (length memory) s3" "phys_mem_max_blocks s3 = phys_mem_max_blocks s0" "marked s3 = U - ?F \<union> K \<union> B"
    "phys_mem_used_blocks s3 = phys_mem_used_blocks s2 + of_nat (card B)"
    using reserve_region_marks [OF s2(2) _ past_page_aligned BF] s2(3,4) unfolding bitmap(1) by auto
  ultimately have "setup_physical_memory m mbd kstart kend kphys memory s = Inr s3"
    using assms(2) s0(1) by (simp add: setup_physical_memory_def Let_def)
  moreover have "marked s3 = U - (?F - K - B)" using s3(4) sub freed_subset [of U "map fst es"] by blast
  moreover have "card ?F = card (?F - K - B) + card K + card B"
  proof -
    have fin: "finite K" "finite B" unfolding kernel(2) bitmap(1) by simp_all
    have "card ?F = card ((?F - K - B) \<union> (K \<union> B))" using sub by (intro arg_cong [where f = card]) blast
    also have "\<dots> = card (?F - K - B) + card (K \<union> B)" by (rule card_Un_disjoint) (use fin in auto)
    finally show ?thesis using card_Un_disjoint [OF fin apart] by simp
  qed
  then have "phys_mem_used_blocks s3 = phys_mem_max_blocks s3 - of_nat (card (?F - K - B))"
    using s3(3,5) s2(5) s1(5) by simp
  ultimately show thesis using s3(2,3) s0(3) sub by (intro that [of s3]) simp_all
qed

text \<open>
  C12. The set-up of physical memory in \<^verbatim>\<open>kernel_entry\<close>, on a memory map whose available regions
  are page-aligned and apart from each other.  They may end, and on a PC they do end, beyond the
  \<open>n\<close> blocks that mem_lower and mem_upper count; the bitmap's memory must reach as far.  At first
  the blocks of the first \<open>n div 8\<close> bytes of the bitmap are in use and the others as the memory found
  there says; a region is then freed up to its first block that is not in use.  When the kernel and
  the bitmap lie in available memory among the first of these, apart from each other, the set-up
  does not panic: the blocks in use are those in use at first, without the freed ones that neither
  the kernel nor the bitmap occupies; the counter of free blocks counts exactly these; the lock is
  free.  When \<open>n\<close> is a multiple of 8 and the memory behind the bitmap is clear, the manager is ready
  to allocate, and exactly the available blocks below \<open>n\<close> outside the kernel and the bitmap are free.
\<close>

theorem setup_physical_memory_spec:
  assumes "boot_map m mbd es" "mbi_flags mbd AND 1 \<noteq> 0" "\<not> lock_held (phys_mem_lock s)"
    and size: "unat (mem_lower mbd + mem_upper mbd) < 2 ^ 22" "n = unat (mem_lower mbd + mem_upper mbd) div 4"
      "n \<le> 32 * length memory" "length memory \<le> 2 ^ 26"
    and map: "map_ok (32 * length memory) (map fst es)"
    and kernel: "unat kphys mod 4096 = 0" "K = region kphys (past_page (kend - kstart))"
      "K \<subseteq> available (map fst es) \<inter> {..<8 * (n div 8)}"
    and bitmap: "B = region 0x200000 (past_page (of_nat (n div 8)))"
      "B \<subseteq> available (map fst es) \<inter> {..<8 * (n div 8)}"
    and apart: "K \<inter> B = {}"
    and U: "U = found_marks n memory"
  shows "\<exists>s'. setup_physical_memory m mbd kstart kend kphys memory s = Inr s' \<and>
    unat (phys_mem_max_blocks s') = n \<and> \<not> lock_held (phys_mem_lock s') \<and>
    {b. block_used s' b} = U - (freed U (map fst es) - K - B) \<and>
    unat (phys_mem_get_free_blocks_count s') = card (freed U (map fst es) - K - B) \<and>
    (n mod 8 = 0 \<longrightarrow> U = {..<n} \<longrightarrow> pm_ready s' \<and>
      used_below s' = {..<n} - (available (map fst es) - K - B))"
proof -
  let ?A = "available (map fst es)" and ?F = "freed U (map fst es)"
  obtain s3 where s3: "setup_physical_memory m mbd kstart kend kphys memory s = Inr s3" "covers (length memory) s3"
    "unat (phys_mem_max_blocks s3) = n" "marked s3 = U - (?F - K - B)" "K \<subseteq> ?F" "B \<subseteq> ?F"
    "phys_mem_used_blocks s3 = phys_mem_max_blocks s3 - of_nat (card (?F - K - B))"
    by (rule setup_marks [OF assms])
  have free: "phys_mem_get_free_blocks_count s3 = of_nat (card (?F - K - B))"
    by (simp add: phys_mem_get_free_blocks_count_def s3(7))
  have "?F \<subseteq> {..<32 * length memory}" using freed_subset [of U] U by (fastforce simp: found_marks_def)
  then have "card (?F - K - B) \<le> card {..<32 * length memory}" by (intro card_mono) auto
  then have small: "card (?F - K - B) < 2 ^ 32" using size(4) by simp
  have "pm_ready s3 \<and> used_below s3 = {..<n} - (?A - K - B)" if u: "n mod 8 = 0" "U = {..<n}"
  proof -
    have "?F = ?A \<inter> {..<n}"
      using freed_subset [of U "map fst es"] available_freed [of n U "map fst es"] u(2) by blast
    then have used: "used_below s3 = {..<n} - (?A - K - B)" "used_below s3 = {..<n} - (?F - K - B)"
      using s3(3,4) u(2) by (auto simp: used_below_def marked_def)
    have F: "?F - K - B \<subseteq> {..<n}" using \<open>?F = ?A \<inter> {..<n}\<close> by blast
    then have le: "card (?F - K - B) \<le> n" using card_mono [OF finite_lessThan F] by simp
    have "unat (of_nat (card (?F - K - B)) :: u32) = card (?F - K - B)" using small by (simp add: unat_of_nat)
    then have "unat (phys_mem_used_blocks s3) = n - card (?F - K - B)"
      unfolding s3(7) using le by (subst unat_sub) (simp_all add: word_le_nat_alt s3(3))
    also have "\<dots> = card (used_below s3)"
      unfolding used(2) by (simp only: card_Diff_subset [OF finite_subset [OF F finite_lessThan] F] card_lessThan)
    finally have "pm_inv s3" using s3(2,3) size by (simp add: pm_inv_def covers_def)
    then show ?thesis using used(1) s3(2) by (simp add: pm_ready_def covers_def)
  qed
  then show ?thesis
    using s3 small by (intro exI [of _ s3]) (simp add: free unat_of_nat covers_def marked_def)
qed

section \<open>An example, and what happens on a real memory size\<close>

text \<open>Memory with the usual hole below 1 MB; the second entry has a field the kernel does not know.\<close>

definition ex_map :: "u64 \<Rightarrow> u64 \<Rightarrow> (multiboot_mmap_entry \<times> u8 list) list" where
  "ex_map low high =
     [(\<lparr>mme_size = 20, mme_addr = 0, mme_len = low, mme_type = 1\<rparr>, []),
      (\<lparr>mme_size = 24, mme_addr = 0xF0000, mme_len = 0x10000, mme_type = 2\<rparr>, [1, 0, 0, 0]),
      (\<lparr>mme_size = 20, mme_addr = 0x100000, mme_len = high, mme_type = 1\<rparr>, [])]"

definition ex_mbi :: "u32 \<Rightarrow> u32 \<Rightarrow> multiboot_info" where
  "ex_mbi lower upper = \<lparr>mbi_flags = 0x4F, mem_lower = lower, mem_upper = upper, boot_device = 0, cmdline = 0,
     mods_count = 0, mods_addr = 0, mbi_u = [0, 0, 0, 0], mmap_length = 76, mmap_addr = 0x9000\<rparr>"

definition bytes_mem :: "u32 \<Rightarrow> u8 list \<Rightarrow> kmem" where
  "bytes_mem base bs a = (if unat (a - base) < length bs then Inr (bs ! unat (a - base)) else Inl NullDeref)"

lemma bytes_at_bytes_mem:
  assumes "length bs < 2 ^ 32"
  shows "bytes_at (bytes_mem base bs) base bs"
proof -
  have "bytes_at (bytes_mem base (xs @ ys)) (base + of_nat (length xs)) ys"
    if "length (xs @ ys) < 2 ^ 32" for xs ys
    using that
  proof (induction ys arbitrary: xs)
    case (Cons y ys)
    have "bytes_at (bytes_mem base ((xs @ [y]) @ ys)) (base + of_nat (length (xs @ [y]))) ys"
      by (rule Cons.IH) (use Cons.prems in simp)
    moreover have "bytes_mem base (xs @ y # ys) (base + of_nat (length xs)) = Inr y"
      using Cons.prems by (simp add: bytes_mem_def)
    ultimately show ?case by (simp add: ac_simps)
  qed simp
  from this [of "[]"] assms show ?thesis by simp
qed

lemma ex_boot_map: "boot_map (bytes_mem 0x9000 (map_bytes (ex_map low high))) (ex_mbi lower upper) (ex_map low high)"
proof -
  have len: "length (map_bytes (ex_map low high)) = 76" by (simp add: map_bytes_def ex_map_def)
  then show ?thesis
    using bytes_at_bytes_mem [of "map_bytes (ex_map low high)" "0x9000"]
    by (simp add: boot_map_def ex_mbi_def) (simp add: ex_map_def sized_def)
qed

lemma found_marks_zero: "8 * (n div 8) \<le> 32 * k \<Longrightarrow> found_marks n (replicate k 0) = {..<8 * (n div 8)}"
  by (auto simp: found_marks_def)

lemma freed_below: "freed {..<n} es = available es \<inter> {..<n}"
  using freed_subset [of "{..<n}" es] available_freed [of n "{..<n}" es] by blast

lemma ex_available:
  "available (map fst (ex_map 0xA0000 0x3F00000)) = {0..<160} \<union> {256..<16384}"
  "available (map fst (ex_map 0x9FC00 0x7EE0000)) = {0..<159} \<union> {256..<32736}"
  by (simp_all add: available_def ex_map_def entry_blocks_def entry_base_def entry_len_def)

lemma ex_map_ok:
  "map_ok (32 * 512) (map fst (ex_map 0xA0000 0x3F00000))" "map_ok (32 * 1024) (map fst (ex_map 0x9FC00 0x7EE0000))"
  by (simp_all add: map_ok_def ex_map_def fits_def entry_blocks_def entry_base_def entry_len_def)

text \<open>
  The figures are those a boot loader gives: mem_lower is the first region in KB, mem_upper the
  region at 1 MB.  With 64 MB, 640 KB and 64512 KB are 16288 blocks, a multiple of 8, and the map
  ends with block 16383: the manager is ready.  With 128 MB of which the firmware keeps some, 639 KB
  and 129920 KB are 32639 blocks; the bitmap's 4079 bytes are the first 32632 of them, and the map
  ends with block 32735.
\<close>

lemma setup_physical_memory_spec_witness:
  "(\<exists>s'. setup_physical_memory (bytes_mem 0x9000 (map_bytes (ex_map 0xA0000 0x3F00000))) (ex_mbi 640 64512)
      0xC0800000 0xC0821234 0x102000 (replicate 512 0) pm_example = Inr s' \<and> pm_ready s' \<and>
    used_below s' = {..<16288} - ({0..<160} \<union> {256..<16384} - {258..<292} - {512..<513})) \<and>
   (\<exists>s'. setup_physical_memory (bytes_mem 0x9000 (map_bytes (ex_map 0x9FC00 0x7EE0000))) (ex_mbi 639 129920)
      0xC0800000 0xC0821234 0x102000 (replicate 1024 0) pm_example = Inr s' \<and>
    unat (phys_mem_max_blocks s') = 32639 \<and>
    {b. block_used s' b} = {..<32632} - (({0..<159} \<union> {256..<32736}) \<inter> {..<32632} - {258..<292} - {512..<513}))"
proof (intro conjI)
  have ker: "unat (0x102000 :: u32) mod 4096 = 0" "{258..<292} = region 0x102000 (past_page (0xC0821234 - 0xC0800000))"
    by simp_all
  have bits: "{512..<513} = region 0x200000 (past_page (of_nat (16288 div 8)))"
    "{512..<513} = region 0x200000 (past_page (of_nat (32639 div 8)))" by simp_all
  have lock: "\<not> lock_held (phys_mem_lock pm_example)" "mbi_flags (ex_mbi l u) AND 1 \<noteq> 0" for l u
    by (simp_all add: pm_example_def ex_mbi_def)
  have size: "unat (mem_lower (ex_mbi 640 64512) + mem_upper (ex_mbi 640 64512)) = 65152"
    "unat (mem_lower (ex_mbi 639 129920) + mem_upper (ex_mbi 639 129920)) = 130559" by (simp_all add: ex_mbi_def)
  have sub: "{258..<292} \<subseteq> ({0..<a} \<union> {256..<c}) \<inter> {..<d}" "{512..<513} \<subseteq> ({0..<a} \<union> {256..<c}) \<inter> {..<d}"
    if "513 \<le> c" "513 \<le> d" for a c d :: nat
    using that by auto
  have apart: "{258..<292} \<inter> {512..<513::nat} = {}" by simp
  have "{..<16288} = found_marks 16288 (replicate 512 0)" using found_marks_zero [of 16288 512] by simp
  from setup_physical_memory_spec [OF ex_boot_map lock(2) lock(1) _ _ _ _ _ ker _ bits(1) _ apart this, of 640 64512 "0xA0000" "0x3F00000"]
  show "\<exists>s'. setup_physical_memory (bytes_mem 0x9000 (map_bytes (ex_map 0xA0000 0x3F00000))) (ex_mbi 640 64512)
      0xC0800000 0xC0821234 0x102000 (replicate 512 0) pm_example = Inr s' \<and> pm_ready s' \<and>
    used_below s' = {..<16288} - ({0..<160} \<union> {256..<16384} - {258..<292} - {512..<513})"
    unfolding size ex_available using sub [of 16384 16288 160] ex_map_ok(1) by auto
  have "{..<32632} = found_marks 32639 (replicate 1024 0)" using found_marks_zero [of 32639 1024] by simp
  from setup_physical_memory_spec [OF ex_boot_map lock(2) lock(1) _ _ _ _ _ ker _ bits(2) _ apart this, of 639 129920 "0x9FC00" "0x7EE0000"]
  show "\<exists>s'. setup_physical_memory (bytes_mem 0x9000 (map_bytes (ex_map 0x9FC00 0x7EE0000))) (ex_mbi 639 129920)
      0xC0800000 0xC0821234 0x102000 (replicate 1024 0) pm_example = Inr s' \<and>
    unat (phys_mem_max_blocks s') = 32639 \<and>
    {b. block_used s' b} = {..<32632} - (({0..<159} \<union> {256..<32736}) \<inter> {..<32632} - {258..<292} - {512..<513})"
    unfolding size freed_below ex_available using sub [of 32736 32632 159] ex_map_ok(2) by auto
qed

text \<open>
  On a real PC of 4 MB the boot loader reports 640 KB of lower and 3072 KB of upper memory, 384 KB
  short of where memory ends: 928 blocks, where the map's last region ends with block 1023.  Freeing
  that region runs past the counted blocks, into what lies behind the bitmap.  Here its last counted
  block and the next one are freed where ones lie behind: one block is free, the counter says two.
\<close>

lemma boot_map_beyond_count:
  "(case res_bind (phys_mem_init (640 + 3072) 0x200000 (replicate 32 0xFFFFFFFF) pm_example)
      (\<lambda>s. phys_mem_free_region 0x39F000 0x2000 s) of
      Inl e \<Rightarrow> False
    | Inr (r, s') \<Rightarrow> r = ERROR_OK \<and> phys_mem_max_blocks s' = 32 * 29 \<and>
        phys_mem_get_free_blocks_count s' = 2 \<and>
        take 29 (phys_mem_bitmap s') = replicate 28 0xFFFFFFFF @ [0x7FFFFFFF] \<and>
        drop 29 (phys_mem_bitmap s') = [0xFFFFFFFE, 0xFFFFFFFF, 0xFFFFFFFF])"
  by code_simp

end
