(* ===== verification/Isr.thy ===== *)
theory Isr
  imports Clock Lapic
begin

text \<open>
  Interrupt dispatch, \<^verbatim>\<open>isr.c\<close>: the table of handlers, the three entry points the assembly
  stubs call, and the handlers of system calls and general protection faults.  What a handler
  prints is a list of calls of \<^verbatim>\<open>printf\<close> and \<^verbatim>\<open>printfln\<close>, kept also when it panics.  \<open>now\<close> is
  what the assembly helpers \<^verbatim>\<open>get_stack\<close>, \<^verbatim>\<open>get_ds\<close> and the like read.
\<close>

unbundle bit_operations_syntax

section \<open>Output\<close>

datatype print_arg = Num u32 | Str "u8 list"

datatype print_call = Printf string "print_arg list" | Printfln string "print_arg list"

type_synonym 'a printing = "print_call list \<times> 'a res"

section \<open>Handlers\<close>

definition syscall_handler :: "cpu_regs \<Rightarrow> nat \<Rightarrow> trap_frame \<Rightarrow> kstate \<Rightarrow> trap_frame printing" where
  "syscall_handler now me regs st =
     (if tf_eax regs = 10 then
        ([Printfln ''service number = %u'' [Num (tf_eax regs)],
          Printfln ''user stack = %h'' [Num (tf_esp regs)],
          Printfln ''user ds %h, gs %h'' [Num (tf_ds regs), Num (tf_gs regs)],
          Printfln ''return eip: %h'' [Num (tf_eip regs)],
          Printfln (''user ss %h'' @ [CHR 0x0A]) [Num (tf_ss regs)],
          Printfln ''kernel stack = %h %h'' [Num (tf_kernel_esp regs), Num (r_esp now)],
          Printfln ''kernel ds = %h, gs = %h, ss = %h'' [Num (r_ds now), Num (r_gs now), Num (r_ss now)],
          Printfln ''cpu enabled: %u'' [Num (pc_enabled (cpus st ! me))],
          Printfln ''--------------------------'' []],
         Inr regs)
      else if tf_eax regs = 11 then ([], Inr (regs\<lparr>tf_eax := 3\<rparr>))
      else if tf_eax regs = 12 then ([Printfln ''echo'' []], Inr regs)
      else if tf_eax regs = 13 then ([Printfln ''eip: %h'' [Num (r_eip now)]], Inr regs)
      else if tf_eax regs = 14 then ([Printfln ''service 14 called'' []], Inr regs)
      else if tf_eax regs = 20 then
        (case res_bind (get_cpu_storage 0 st) (\<lambda>d. res_bind (deref (current_thread (pc_scheduler d))) (\<lambda>t.
                res_bind (deref (t_parent (threads st t))) (\<lambda>p. Inr (t, p)))) of
           Inl e \<Rightarrow> ([], Inl e)
         | Inr (t, p) \<Rightarrow>
             ([Printfln ''Thread %u of process %s is over''
                 [Num (ucast (t_tid (threads st t))), Str (p_name (process_slots st p))]],
              Inl (Panic '''')))
      else ([], Inl (Panic ''Unimplemented syscall'')))"

definition gpf_handler :: "trap_frame \<Rightarrow> trap_frame printing" where
  "gpf_handler regs =
     (let table = drop_bit 1 (tf_err_code regs AND push_bit 1 3) in
      ([Printfln ''GPF occured at instruction %h'' [Num (tf_eip regs)],
        Printf ''reasons: '' [],
        Printf (if tf_err_code regs AND 1 \<noteq> 0 then ''external '' else ''internal '') []] @
       (if table = 0 then [Printf ''GDT '' []]
        else if table = 2 then [Printf ''LDT '' []]
        else if table = 1 \<or> table = 3 then [Printf ''IDT '' []]
        else []) @
       [Printfln ''selector: %u'' [Num (drop_bit 3 (tf_err_code regs) AND 0x1FFF)]],
       Inl (Panic '''')))"

section \<open>Running a handler\<close>

text \<open>
  A handler comes back, perhaps with another frame, or the processor has gone on in a thread and
  the interrupted code waits in a queue.
\<close>

datatype outcome = Resume trap_frame kstate | Left_for kstate

primrec after :: "outcome \<Rightarrow> kstate" where
  "after (Resume f st) = st"
| "after (Left_for st) = st"

text \<open>Whether the handler of messages, which answers the state alone, has left.\<close>

definition message_leaves :: "nat \<Rightarrow> nat \<Rightarrow> kstate \<Rightarrow> bool" where
  "message_leaves n me st =
     (case res_bind (get_cpu_storage me st) (\<lambda>d. receive n me False (pc_mailbox d) st) of
        Inr (Got _ (Some msg), _) \<Rightarrow> msg_func msg \<in> {CM_RESCHEDULE, CM_SEM_WAIT, CM_AWAKEN_THREAD}
      | Inr (Suspended, _) \<Rightarrow> True
      | _ \<Rightarrow> False)"

definition silently :: "'a res \<Rightarrow> 'a printing" where "silently r = ([], r)"

primrec run_handler ::
    "cpu_regs \<Rightarrow> nat \<Rightarrow> nat \<Rightarrow> isr_t \<Rightarrow> trap_frame \<Rightarrow> kstate \<Rightarrow> outcome printing" where
  "run_handler now n me Gpf_handler regs st =
     (let r = gpf_handler regs in (fst r, res_bind (snd r) (\<lambda>regs. Inr (Resume regs st))))"
| "run_handler now n me Page_fault_handler regs st = silently (page_fault_handler (tf_err_code regs))"
| "run_handler now n me Syscall_handler regs st =
     (let r = syscall_handler now me regs st in (fst r, res_bind (snd r) (\<lambda>regs. Inr (Resume regs st))))"
| "run_handler now n me Cpu_message_handler regs st = silently
     (res_bind (cpu_message_handler n me regs st) (\<lambda>st'.
        Inr (if message_leaves n me st then Left_for st' else Resume regs st')))"
| "run_handler now n me Lapic_timer_callback regs st = silently
     (res_bind (get_cpu_storage me st) (\<lambda>_. Inr (Resume regs (upd_cpu me lapic_timer_callback st))))"
| "run_handler now n me Timer_callback regs st = silently
     (res_bind (timer_callback me regs st) (\<lambda>st. Inr (Left_for st)))"

definition find_handler :: "u32 \<Rightarrow> isr_handlers \<Rightarrow> isr_t option res" where
  "find_handler int_no tab = (if int_no < 256 then Inr (tab (ucast int_no)) else Inl OutOfBounds)"

section \<open>The entry points\<close>

definition isr_handler ::
    "cpu_regs \<Rightarrow> nat \<Rightarrow> nat \<Rightarrow> isr_handlers \<Rightarrow> trap_frame \<Rightarrow> kstate \<Rightarrow> outcome printing" where
  "isr_handler now n me tab regs st =
     (case find_handler (tf_int_no regs) tab of
        Inl e \<Rightarrow> ([], Inl e)
      | Inr (Some handler) \<Rightarrow> run_handler now n me handler regs st
      | Inr None \<Rightarrow>
          ([Printfln ''Unhandled exception %u %h'' [Num (tf_int_no regs), Num (tf_eip regs)]], Inl (Panic '''')))"

definition irq_handler :: "trap_frame \<Rightarrow> kstate \<Rightarrow> outcome printing" where
  "irq_handler regs st = ([Printfln ''spurious interrupt'' []], Inr (Resume regs st))"

definition acpi_irq_handler ::
    "cpu_regs \<Rightarrow> nat \<Rightarrow> nat \<Rightarrow> isr_handlers \<Rightarrow> trap_frame \<Rightarrow> kstate \<Rightarrow> outcome printing" where
  "acpi_irq_handler now n me tab regs st =
     (case find_handler (tf_int_no regs) tab of
        Inl e \<Rightarrow> ([], Inl e)
      | Inr (Some handler) \<Rightarrow>
          (let (out, r) = run_handler now n me handler regs st in
           (out, res_bind r (\<lambda>o'. Inr (case o' of
                   Resume regs st \<Rightarrow> Resume regs (send_eoi st)
                 | Left_for st \<Rightarrow> Left_for st))))
      | Inr None \<Rightarrow> ([Printfln ''Hardware interrupt: %u'' [Num (tf_int_no regs)]], Inl (Panic '''')))"

text \<open>The table once the clock task of the first processor has taken the timer over.\<close>

definition running_handlers :: isr_handlers where
  "running_handlers = isr_register 64 Timer_callback (isr_register 14 Page_fault_handler isr_init)"

end
