(* ===== verification/Isr_Props.thy ===== *)
theory Isr_Props
  imports Isr Kernel_Props
begin

text \<open>
  What interrupt dispatch promises: every hardware interrupt that is handled is ended once, and
  the timer interrupt, taken through the table, switches threads.
\<close>

section \<open>Ends of interrupt\<close>

text \<open>The operations that handlers are made of do not end interrupts themselves.\<close>

lemma eois_upd [simp]:
  "eois (upd_thread t f st) = eois st" "eois (upd_cpu c g st) = eois st" "eois (upd_sched c h st) = eois st"
  "eois (upd_mailbox m k st) = eois st"
  by (simp_all add: upd_thread_def upd_cpu_def upd_sched_def upd_mailbox_def)

lemma eois_upd_sem [simp]: "eois (upd_sem r f st) = eois st"
  by (cases r) (simp_all add: upd_sem_def)

lemma eois_send_eoi [simp]: "eois (send_eoi st) = eois st + 1"
  by (simp add: send_eoi_def)

lemma eois_add_ready: "scheduler_add_ready x st = Inr st' \<Longrightarrow> eois st' = eois st"
  by (auto simp: scheduler_add_ready_def Let_def res_simps split: if_splits option.splits)

lemma eois_evict: "scheduler_evict_thread c f st = (x, st') \<Longrightarrow> eois st' = eois st"
  by (auto simp: scheduler_evict_thread_def scheduler_remove_running_def scheduler_save_thread_def
      split: option.splits)

lemma eois_preempt: "scheduler_preempt_thread c f st = Inr (x, st') \<Longrightarrow> eois st' = eois st"
  by (auto simp: scheduler_preempt_thread_def res_simps dest!: eois_evict eois_add_ready
      split: prod.splits option.splits)

lemma eois_schedule: "scheduler_schedule_thread c st = Inr (x, st') \<Longrightarrow> eois st' = eois st"
  by (auto simp: scheduler_schedule_thread_def scheduler_remove_ready_def Let_def res_simps
      split: if_splits option.splits)

lemma eois_execute: "scheduler_current_execute c st = Inr st' \<Longrightarrow> eois st' = eois st"
  by (auto simp: scheduler_current_execute_def scheduler_restore_thread_def Let_def res_simps
      split: if_splits option.splits)

lemma eois_acknowledge: "acknowledge msg st = Inr (e, st') \<Longrightarrow> eois st' = eois st"
  by (auto simp: acknowledge_def res_simps split: if_splits)

lemmas eois_same = eois_add_ready eois_evict eois_preempt eois_schedule eois_execute eois_acknowledge

lemma eois_switch: "switch_thread c msg st = Inr st' \<Longrightarrow> eois st' = eois st + 1"
  by (auto simp: switch_thread_def res_simps dest!: eois_same)

lemma eois_timer: "timer_callback c f st = Inr st' \<Longrightarrow> eois st' = eois st + 1"
  by (auto simp: timer_callback_def count_tick_def Let_def res_simps dest!: eois_same split: if_splits)

lemma eois_sem_enqueue: "sem_enqueue s x st = Inr st' \<Longrightarrow> eois st' = eois st"
  by (auto simp: sem_enqueue_def Let_def res_simps split: option.splits)

lemma eois_reschedule: "handle_reschedule c msg f st = Inr st' \<Longrightarrow> eois st' = eois st + 1"
  by (auto simp: handle_reschedule_def res_simps dest!: eois_preempt eois_switch)

lemma eois_sem_wait: "handle_sem_wait c msg f st = Inr st' \<Longrightarrow> eois st' = eois st + 1"
  by (auto simp: handle_sem_wait_def Let_def res_simps dest!: eois_switch eois_sem_enqueue eois_evict
      split: ptr.splits prod.splits)

lemma eois_awaken: "handle_awaken c msg f st = Inr st' \<Longrightarrow> eois st' = eois st + 1"
  by (auto simp: handle_awaken_def res_simps dest!: eois_add_ready eois_preempt eois_switch split: ptr.splits)

text \<open>The handler of messages ends the interrupt itself exactly when it leaves.\<close>

lemma eois_message:
  assumes box: "cpu_boxes st" and c: "c < ncpus st" and run: "cpu_message_handler n c f st = Inr st'"
  shows "eois st' = eois st + (if message_leaves n c st then 1 else 0)"
proof -
  note r = receive_cpu [OF box c, of n False]
  have leaves: "message_leaves n c st \<longleftrightarrow>
      msg_func (box_message st c) \<in> {CM_RESCHEDULE, CM_SEM_WAIT, CM_AWAKEN_THREAD}"
    using c r by (simp add: message_leaves_def)
  have "(if msg_func (box_message st c) = CM_RESCHEDULE then handle_reschedule c (box_message st c) f st
      else if msg_func (box_message st c) = CM_SEM_WAIT then handle_sem_wait c (box_message st c) f st
      else if msg_func (box_message st c) = CM_AWAKEN_THREAD then handle_awaken c (box_message st c) f st
      else res_bind (acknowledge (box_message st c) st) (\<lambda>(_, st). Inr st)) = Inr st'"
    using run c r by (simp add: cpu_message_handler_def)
  then show ?thesis unfolding leaves
    by (auto simp: res_simps dest!: eois_reschedule eois_sem_wait eois_awaken eois_acknowledge split: if_splits)
qed

lemma handler_eois:
  assumes box: "cpu_boxes st" and c: "c < ncpus st" and run: "snd (run_handler now n c h f st) = Inr out"
  shows "eois (after out) = eois st + (case out of Resume _ _ \<Rightarrow> 0 | Left_for _ \<Rightarrow> 1)"
  using run
proof (cases h)
  case Cpu_message_handler
  then show ?thesis using run eois_message [OF box c]
    by (auto simp: silently_def res_simps split: if_splits)
next
  case Timer_callback
  then show ?thesis using run eois_timer by (auto simp: silently_def res_simps)
qed (auto simp: silently_def res_simps Let_def gpf_handler_def page_fault_handler_def split: if_splits)

lemma find_handler_running: "find_handler 64 running_handlers = Inr (Some Timer_callback)"
  "find_handler 100 running_handlers = Inr (Some Cpu_message_handler)"
  by (simp_all add: find_handler_def running_handlers_def isr_register_def isr_init_def)

text \<open>
  C11. A hardware interrupt whose handler is found and does not fault is ended exactly once,
  whether the handler comes back or goes on in another thread; and the timer's, in a good state,
  on a processor that has some thread to run, does not fault: the processor goes on in a thread
  and the invariant of the kernel holds again with the same threads.
\<close>

theorem acpi_irq_spec:
  assumes inv: "kernel_inv st v" and c: "c < ncpus st"
  shows "(\<forall>out. snd (acpi_irq_handler now n c tab f st) = Inr out \<longrightarrow> eois (after out) = eois st + 1) \<and>
    (v_running v c \<noteq> None \<or> (\<exists>p < 8. v_ready v c p \<noteq> []) \<longrightarrow>
      (\<exists>st' v'. acpi_irq_handler now n c running_handlers (f\<lparr>tf_int_no := 64\<rparr>) st = ([], Inr (Left_for st')) \<and>
        kernel_inv st' v' \<and> known st' v' = known st v))"
proof (intro conjI allI impI)
  fix out assume r: "snd (acpi_irq_handler now n c tab f st) = Inr out"
  have box: "cpu_boxes st" using inv by (simp add: kernel_inv_def)
  from r obtain h ps o' where "run_handler now n c h f st = (ps, Inr o')"
    and out: "out = (case o' of Resume f st \<Rightarrow> Resume f (send_eoi st) | Left_for st \<Rightarrow> Left_for st)"
    by (auto simp: acpi_irq_handler_def res_simps split: sum.splits option.splits prod.splits)
  then have h: "snd (run_handler now n c h f st) = Inr o'" by simp
  show "eois (after out) = eois st + 1"
    using handler_eois [OF box c h] out by (cases o') simp_all
next
  assume some: "v_running v c \<noteq> None \<or> (\<exists>p < 8. v_ready v c p \<noteq> [])"
  have placed: "placed st v" using inv by (simp add: kernel_inv_def sys_rep_def)
  have "\<exists>p < 8. v_ready (view_preempt (prio_of st) c v) c p \<noteq> []"
  proof (cases "v_running v c")
    case None
    with some show ?thesis by (simp add: view_preempt_ready)
  next
    case (Some x)
    then have "v_place v x = Running c" using placedD(2) [OF placed] by simp
    then have "prio_of st x < 8" using placedD(4) [OF placed, of x] by simp
    with Some show ?thesis by (intro exI [of _ "prio_of st x"]) (simp add: view_preempt_ready)
  qed
  then obtain p where "top_queue c (view_preempt (prio_of st) c v) p" using top_queue_exists by blast
  then obtain st' v' where t: "timer_callback c (f\<lparr>tf_int_no := 64\<rparr>) st = Inr st'" "kernel_inv st' v'"
    "known st' v' = known st v" using tick_total [OF inv c] by blast
  then show "\<exists>st' v'. acpi_irq_handler now n c running_handlers (f\<lparr>tf_int_no := 64\<rparr>) st = ([], Inr (Left_for st')) \<and>
      kernel_inv st' v' \<and> known st' v' = known st v"
    by (intro exI [of _ st'] exI [of _ v'])
      (simp add: acpi_irq_handler_def find_handler_running silently_def)
qed

text \<open>Processor 0 of the example is interrupted by its timer in thread 0.\<close>

lemma acpi_irq_spec_witness:
  "\<exists>st' v'. acpi_irq_handler (frame_regs trap_frame_zero 0 0) 0 0 running_handlers (trap_frame_zero\<lparr>tf_int_no := 64\<rparr>) ex_state =
      ([], Inr (Left_for st')) \<and> kernel_inv st' v' \<and> eois st' = 1"
proof -
  have e: "eois ex_state = 0" by (simp add: ex_state_def)
  note spec = acpi_irq_spec [of ex_state ex_view 0 "frame_regs trap_frame_zero 0 0" 0 running_handlers, OF ex_kernel_inv]
  obtain st' v' where "acpi_irq_handler (frame_regs trap_frame_zero 0 0) 0 0 running_handlers
      (trap_frame_zero\<lparr>tf_int_no := 64\<rparr>) ex_state = ([], Inr (Left_for st'))" "kernel_inv st' v'"
    using spec [of trap_frame_zero] ex_running by auto
  moreover have "eois st' = 1"
    using spec [of "trap_frame_zero\<lparr>tf_int_no := 64\<rparr>"] calculation(1) e by simp
  ultimately show ?thesis by blast
qed

end
