(* ===== verification/Startup.thy ===== *)
theory Startup
  imports Process Lapic Kernel_Memory
begin

text \<open>
  Waking the other processors and starting the threads of each, \<^verbatim>\<open>processor_startup.c\<close>.  A
  started processor runs \<open>setup_processor\<close> while the first one spins on \<open>ready\<close>, up to its
  release of that lock; then both go on, and each ends in \<open>final_processor_setup\<close>.  Messages to
  the screen are left out.
\<close>

unbundle bit_operations_syntax

section \<open>State\<close>

text \<open>
  The kernel's state with that of the memory managers and devices.  \<open>su_current\<close> is the static
  variable of \<^verbatim>\<open>alloc_perm\<close>, \<open>su_low\<close> the memory where the boot code of the processors goes,
  \<open>su_reads\<close> how often the volatile \<^verbatim>\<open>lapic_count\<close> was read.
\<close>

record startup =
  su_kernel :: kstate
  su_vm :: vm_state
  su_current :: u32
  su_ready :: spinlock_t
  su_process_ready :: spinlock_t
  su_low :: "u32 \<Rightarrow> u8"
  su_history :: history
  su_handlers :: isr_handlers
  su_pit :: pit
  su_reads :: nat

text \<open>What the code gets from outside: devices, the values the counter's reads find, addresses.\<close>

record surroundings =
  sr_device :: device
  sr_counts :: "nat \<Rightarrow> u32"
  sr_kernel_end :: u32
  sr_setup_processor :: u32
  sr_clock_task :: u32
  sr_idle :: u32
  sr_idt :: u32

definition alloc_stack :: "surroundings \<Rightarrow> startup \<Rightarrow> (u32 \<times> startup) res" where
  "alloc_stack sr s =
     res_bind (alloc_perm (sr_kernel_end sr) (su_current s) (su_vm s)) (\<lambda>(a, cur, vm).
       Inr (a + 4096, s\<lparr>su_current := cur, su_vm := vm\<rparr>))"

definition with_kernel :: "(kstate \<Rightarrow> ('a \<times> kstate) res) \<Rightarrow> startup \<Rightarrow> ('a \<times> startup) res" where
  "with_kernel f s = res_bind (f (su_kernel s)) (\<lambda>(x, st). Inr (x, s\<lparr>su_kernel := st\<rparr>))"

section \<open>The threads of a processor\<close>

text \<open>\<open>me\<close> is the processor that runs, \<open>cpu_id\<close> the argument.\<close>

definition setup_processor_common_stack :: "surroundings \<Rightarrow> nat \<Rightarrow> u8 \<Rightarrow> startup \<Rightarrow> (u32 \<times> startup) res" where
  "setup_processor_common_stack sr me cpu_id s =
     res_bind (alloc_stack sr s) (\<lambda>(common_stack, s).
     res_bind (get_cpu_storage me (su_kernel s)) (\<lambda>_.
     res_bind (get_cpu_storage (unat cpu_id) (su_kernel s)) (\<lambda>_.
       let st = upd_cpu me (\<lambda>d. d\<lparr>pc_common_stack_top := common_stack\<rparr>) (su_kernel s);
           st = upd_cpu (unat cpu_id) (\<lambda>d. d\<lparr>pc_tss_entry :=
                  tss_set_kernel_stack (pc_tss_entry d) common_stack (GDT_SS_ENTRY (ucast cpu_id) * 8)\<rparr>) st
       in Inr (common_stack, s\<lparr>su_kernel := st\<rparr>))))"

definition create_task :: "surroundings \<Rightarrow> u32 \<Rightarrow> u32 \<Rightarrow> nat \<Rightarrow> startup \<Rightarrow> (nat option \<times> startup) res" where
  "create_task sr entry_point priority me s =
     res_bind (get_process KERNEL_PROCESS_SLOT (su_kernel s)) (\<lambda>proc.
     res_bind (alloc_stack sr s) (\<lambda>(stack, s).
       with_kernel (thread_create proc entry_point stack priority 1 (of_nat me)) s))"

definition final_processor_setup :: "surroundings \<Rightarrow> nat \<Rightarrow> startup \<Rightarrow> startup res" where
  "final_processor_setup sr me s =
     res_bind (acquire_spinlock (su_process_ready s)) (\<lambda>l.
     let s = s\<lparr>su_process_ready := release_spinlock l\<rparr> in
     res_bind (setup_processor_common_stack sr me (of_nat me) s) (\<lambda>(_, s).
     res_bind (with_kernel (mailbox_create_static (of_nat me) MAILBOX_CPU (Cpu_ptr me)) s) (\<lambda>(mbox, s).
     let st = upd_cpu me (\<lambda>d. d\<lparr>pc_mailbox := mbox\<rparr>) (su_kernel s);
         s = s\<lparr>su_kernel := scheduler_init me st\<rparr> in
     res_bind (create_task sr (sr_clock_task sr) 0 me s) (\<lambda>(clock_task, s).
     res_bind (create_task sr (sr_idle sr) 5 me s) (\<lambda>(idle_thread, s).
     res_bind (deref clock_task) (\<lambda>clk.
     res_bind (with_kernel (thread_alloc_mailbox_static clk
         (ucast (processor_count (gst (su_kernel s)) + of_nat me))) s) (\<lambda>(_, s).
     res_bind (scheduler_add_ready clk (su_kernel s)) (\<lambda>st.
     res_bind (deref idle_thread) (\<lambda>idl.
     res_bind (scheduler_add_ready idl st) (\<lambda>st.
     res_bind (scheduler_current_start me st) (\<lambda>st.
       Inr (s\<lparr>su_kernel := st\<rparr>))))))))))))"

section \<open>A started processor\<close>

text \<open>setup_processor up to \<^verbatim>\<open>INT_ON\<close>; the rest is \<open>final_processor_setup\<close>.\<close>

definition setup_processor :: "surroundings \<Rightarrow> nat \<Rightarrow> startup \<Rightarrow> startup res" where
  "setup_processor sr me s =
     (let vm = snd (virt_mem_switch_directory (BSP_dir (gst (su_kernel s))) (su_vm s));
          st = (su_kernel s)\<lparr>cpu_cr3 := (cpu_cr3 (su_kernel s))(me := cr3 vm)\<rparr>;
          st = st\<lparr>gst := (gst st)\<lparr>gst_idtr := idtr_install (sr_idt sr)\<rparr>\<rparr>;
          base = lapic_base (gst st) in
      res_bind (get_cpu_storage me st) (\<lambda>d.
      res_bind (lapic_enable (sr_device sr) base (vm, su_history s)) (\<lambda>(vm, h).
      res_bind (lapic_calibrate_timer (sr_device sr) base 10 64 (d, su_handlers s, su_pit s, h)) (\<lambda>(d, tab, p, h).
        Inr (s\<lparr>su_kernel := upd_cpu me (\<lambda>_. d) st, su_vm := vm, su_handlers := tab, su_pit := p, su_history := h,
               su_ready := release_spinlock (su_ready s)\<rparr>)))))"

section \<open>Starting the others\<close>

definition processor_startup :: "surroundings \<Rightarrow> nat \<Rightarrow> u32 \<Rightarrow> u32 \<Rightarrow> startup \<Rightarrow> startup res" where
  "processor_startup sr me lapic_id exec_base s =
     (let base = lapic_base (gst (su_kernel s)) in
      res_bind (get_cpu_storage me (su_kernel s)) (\<lambda>d.
      res_bind (lapic_send_ipi (sr_device sr) base (ucast lapic_id) 0 LAPIC_DELIVERY_INIT
                  LAPIC_DESTINATION_PHYSICAL LAPIC_DESTINATION_TARGET (su_history s)) (\<lambda>h.
      res_bind (lapic_sleep d (sr_counts sr) 100 (su_reads s)) (\<lambda>n.
      res_bind (lapic_send_ipi (sr_device sr) base (ucast lapic_id) (ucast (drop_bit 12 exec_base))
                  LAPIC_DELIVERY_SIPI 0 0 h) (\<lambda>h.
      res_bind (lapic_sleep d (sr_counts sr) 1 n) (\<lambda>n.
        Inr (s\<lparr>su_history := h, su_reads := n\<rparr>)))))))"

primrec put_bytes :: "u32 \<Rightarrow> u8 list \<Rightarrow> (u32 \<Rightarrow> u8) \<Rightarrow> (u32 \<Rightarrow> u8)" where
  "put_bytes a [] m = m"
| "put_bytes a (b # bs) m = put_bytes (a + 1) bs (m(a := b))"

definition ap_boot_bin :: "u8 list" where
  "ap_boot_bin =
    [0xeb, 0x10, 0x00, 0x00, 0x00, 0x00, 0x00, 0x00, 0x00, 0x00, 0x00, 0x00,
     0x00, 0x00, 0x00, 0x00, 0x00, 0x00, 0xfa, 0x31, 0xc0, 0x8e, 0xd8, 0x8e,
     0xc0, 0x8e, 0xe0, 0x8e, 0xe8, 0x8e, 0xd0, 0x0f, 0x01, 0x16, 0x06, 0x80,
     0x0f, 0x20, 0xc0, 0x66, 0x83, 0xc8, 0x01, 0x0f, 0x22, 0xc0, 0xea, 0x33,
     0x80, 0x08, 0x00, 0x66, 0xb8, 0x10, 0x00, 0x8e, 0xd8, 0x8e, 0xc0, 0x8e,
     0xe0, 0x8e, 0xd0, 0x8b, 0x25, 0x0e, 0x80, 0x00, 0x00, 0x66, 0xa1, 0x0c,
     0x80, 0x00, 0x00, 0x66, 0xb9, 0x08, 0x00, 0x66, 0xf7, 0xe1, 0x8e, 0xd0,
     0x66, 0x83, 0xc0, 0x08, 0x8e, 0xe8, 0x66, 0x83, 0xc0, 0x08, 0x66, 0x83,
     0xc8, 0x03, 0x0f, 0x00, 0xd8, 0xb8, 0x00, 0x00, 0x08, 0x00, 0x0f, 0x22,
     0xd8, 0x0f, 0x20, 0xc0, 0x0d, 0x00, 0x00, 0x00, 0x80, 0x0f, 0x22, 0xc0,
     0xff, 0x25, 0x02, 0x80, 0x00, 0x00, 0xfa, 0xf4]"

text \<open>
  One round of the loop for processor \<open>i\<close>: its arguments next to the boot code, the interrupts,
  the processor's own set-up, and the wait for the lock it releases.
\<close>

definition startup_AP :: "surroundings \<Rightarrow> nat \<Rightarrow> nat \<Rightarrow> startup \<Rightarrow> startup res" where
  "startup_AP sr me i s =
     res_bind (get_cpu_storage i (su_kernel s)) (\<lambda>d.
     if pc_enabled d = 0 then Inr s
     else
       let s = s\<lparr>su_low := put_bytes 0x800C (le16 (ucast (GDT_SS_ENTRY (of_nat i)))) (su_low s)\<rparr> in
       res_bind (phys_mem_alloc_above_1mb (pmem (su_vm s))) (\<lambda>(a, pm).
       let s = s\<lparr>su_vm := (su_vm s)\<lparr>pmem := pm\<rparr>, su_low := put_bytes 0x800E (le32 (a + 4096)) (su_low s)\<rparr> in
       res_bind (processor_startup sr me (pc_id d) 0x8000 s) (\<lambda>s.
       res_bind (setup_processor sr i s) (\<lambda>s.
       res_bind (acquire_spinlock (su_ready s)) (\<lambda>l. Inr (s\<lparr>su_ready := l\<rparr>))))))"

primrec startup_loop :: "nat \<Rightarrow> surroundings \<Rightarrow> nat \<Rightarrow> nat \<Rightarrow> startup \<Rightarrow> startup res" where
  "startup_loop 0 sr me i s = Inr s"
| "startup_loop (Suc n) sr me i s = res_bind (startup_AP sr me i s) (startup_loop n sr me (Suc i))"

definition startup_all_AP :: "surroundings \<Rightarrow> nat \<Rightarrow> startup \<Rightarrow> startup res" where
  "startup_all_AP sr me s =
     (let gdtr = gst_gdtr (gst (su_kernel s));
          low = put_bytes 0x8000 ap_boot_bin (su_low s);
          low = put_bytes 0x8002 (le32 (sr_setup_processor sr)) low;
          low = put_bytes 0x8006 (le16 (gdtr_limit gdtr) @ le32 (gdtr_base gdtr)) low in
      res_bind (acquire_spinlock (su_ready s)) (\<lambda>l.
        startup_loop (unat (processor_count (gst (su_kernel s))) - 1) sr me 1 (s\<lparr>su_low := low, su_ready := l\<rparr>)))"

section \<open>The kernel's process\<close>

text \<open>The end of \<^verbatim>\<open>kernel_entry\<close>: the tables, process 0, and the lock the processors wait for.\<close>

definition create_kernel_process :: "surroundings \<Rightarrow> startup \<Rightarrow> startup res" where
  "create_kernel_process sr s =
     res_bind (process_init (sr_kernel_end sr) (su_current s) (su_vm s) (su_kernel s)) (\<lambda>(_, _, cur, vm, st).
     res_bind (mailbox_init (sr_kernel_end sr) cur vm st) (\<lambda>(_, cur, vm, st).
     res_bind (process_create_static None (BSP_dir (gst st)) (map of_char ''kernel'' @ [0]) KERNEL_PROCESS_SLOT st)
       (\<lambda>(_, st).
       Inr (s\<lparr>su_kernel := st, su_current := cur, su_vm := vm,
              su_process_ready := release_spinlock (su_process_ready s)\<rparr>))))"

text \<open>
  Every processor ends in \<^verbatim>\<open>final_processor_setup\<close>, in any order: what they share there is behind
  locks, except for \<^verbatim>\<open>alloc_perm\<close>, which has none; here one processor's set-up follows another's.
\<close>

primrec setup_in_order :: "surroundings \<Rightarrow> nat list \<Rightarrow> startup \<Rightarrow> startup res" where
  "setup_in_order sr [] s = Inr s"
| "setup_in_order sr (c # cs) s = res_bind (final_processor_setup sr c s) (setup_in_order sr cs)"

end
