(* ===== verification/Kernel_Pages.thy ===== *)
theory Kernel_Pages
  imports Virt_Props Process
begin

text \<open>
  Permanent kernel pages, \<^verbatim>\<open>mem_alloc.c\<close>: while enough frames are left, every page asked for is
  mapped, each to a frame of its own.
\<close>

section \<open>The frames the search can find\<close>

text \<open>The free blocks from 1 MB on, as far as the bitmap is searched: in whole words.\<close>

definition spare :: "phys_mem \<Rightarrow> nat set" where
  "spare pm = {b. 256 \<le> b \<and> b < 32 * (unat (phys_mem_max_blocks pm) div 32)} - used_below pm"

lemma finite_spare [simp]: "finite (spare pm)"
  by (simp add: spare_def)

lemma spare_free: "b \<in> spare pm \<Longrightarrow> b < unat (phys_mem_max_blocks pm) \<and> \<not> block_used pm b"
proof -
  assume b: "b \<in> spare pm"
  have "32 * (unat (phys_mem_max_blocks pm) div 32) \<le> unat (phys_mem_max_blocks pm)" by simp
  then have "b < unat (phys_mem_max_blocks pm)" using b unfolding spare_def by (auto simp del: div_mult_self_is_m)
  with b show ?thesis by (simp add: spare_def used_below_def)
qed

lemma alloc_keeps_max:
  assumes "pm_ready pm" "phys_mem_alloc_above_1mb pm = Inr (f, pm')" "f \<noteq> 0"
  shows "phys_mem_max_blocks pm' = phys_mem_max_blocks pm"
proof -
  have inv: "pm_inv pm" "\<not> lock_held (phys_mem_lock pm)" using assms(1) by (simp_all add: pm_ready_def)
  obtain fr :: u32 where "pm' = (with_bit True (unat fr) pm)\<lparr>phys_mem_used_blocks := phys_mem_used_blocks pm + 1\<rparr>"
    by (rule phys_mem_alloc_above_ok [OF inv assms(2) [unfolded phys_mem_alloc_above_1mb_def] assms(3)])
  then show ?thesis by (simp add: with_bit_def)
qed

lemma take_spare:
  assumes ready: "pm_ready pm" and some: "spare pm \<noteq> {}"
  obtains f pm' where "phys_mem_alloc_above_1mb pm = Inr (f, pm')" "f \<noteq> 0" "spare pm' = spare pm - {frame_of f}"
proof -
  have inv: "pm_inv pm" and free: "\<not> lock_held (phys_mem_lock pm)" using ready by (simp_all add: pm_ready_def)
  obtain b where b: "b \<in> spare pm" using some by blast
  have "used_below pm \<subset> {..<unat (phys_mem_max_blocks pm)}" using spare_free [OF b] by (auto simp: used_below_def)
  then have "unat (phys_mem_used_blocks pm) < unat (phys_mem_max_blocks pm)"
    using psubset_card_mono [of "{..<unat (phys_mem_max_blocks pm)}" "used_below pm"] inv by (simp add: pm_inv_def)
  then have count: "phys_mem_get_free_blocks_count pm \<noteq> 0"
    by (auto simp: phys_mem_get_free_blocks_count_def)
  have word: "ceil_division (0x100000 div 4096 * 4096) 131072 = Inr i \<Longrightarrow> unat i = 8" for i
    by (auto simp: ceil_division_def)
  have "\<exists>f pm'. phys_mem_alloc_above 0x100000 pm = Inr (f, pm') \<and> f \<noteq> 0"
    using inv free
  proof (cases rule: phys_mem_alloc_above_cases [of pm "0x100000"])
    case none_left
    with count show ?thesis by simp
  next
    case (none_found i s')
    have "block_used pm b" using none_found(4) b word [OF none_found(3)] by (simp add: search_spec_def spare_def)
    with spare_free [OF b] show ?thesis by simp
  next
    case (found i frame s')
    have "unat frame < unat (phys_mem_max_blocks pm)" using found by (simp add: search_spec_def)
    then have "unat frame < 2 ^ 20" using inv by (simp add: pm_inv_def)
    moreover have "frame \<noteq> 0" by (rule found(2))
    ultimately have "unat (frame * 4096) \<noteq> 0" using unat_frame_addr [of frame] by (simp add: unat_eq_0)
    then have "frame * 4096 \<noteq> 0" by auto
    with found(1) show ?thesis by blast
  qed
  then obtain f pm' where r: "phys_mem_alloc_above_1mb pm = Inr (f, pm')" "f \<noteq> 0"
    by (auto simp: phys_mem_alloc_above_1mb_def)
  have "phys_mem_max_blocks pm' = phys_mem_max_blocks pm" by (rule alloc_keeps_max [OF ready r])
  moreover have "used_below pm' = insert (frame_of f) (used_below pm)" using pmem_1mb.alloc_takes [OF ready r] by simp
  ultimately have "spare pm' = spare pm - {frame_of f}" by (auto simp: spare_def)
  with r that show ?thesis by blast
qed

lemma spare_after:
  assumes "pm_ready pm" "phys_mem_alloc_above_1mb pm = Inr (f, pm')" "f \<noteq> 0"
  shows "card (spare pm) - 1 \<le> card (spare pm')"
proof (cases "spare pm = {}")
  case False
  then have "spare pm' = spare pm - {frame_of f}" using take_spare [OF assms(1)] assms(2) by (metis Inr_inject prod.inject)
  then show ?thesis by (simp add: card_Diff_singleton_if)
qed simp

section \<open>One page\<close>

lemma fresh_data_frame:
  assumes inv: "pt_inv st" and f: "frame_aligned f" "frame_of f \<notin> used_below (pmem st)"
  shows "data_frame st f"
proof -
  have "f \<noteq> cr3 st" using inv f(2) by (auto simp: pt_inv_def)
  moreover have "table_frame st i \<noteq> f" if "i < 1024" "i \<noteq> 768" "bit (pde st i) 0" for i
    using pt_inv_table [OF inv that] f(2) by auto
  ultimately show ?thesis using f(1) by (simp add: data_frame_def)
qed

lemma alloc_page_f_succeeds:
  assumes inv: "pt_inv st" and v: "dir_index addr \<noteq> 768" and two: "2 \<le> card (spare (pmem st))"
    and fl: "unat fl < 4096" "bit fl 0"
  obtains phys st' where "virt_mem_alloc_page_f addr fl st = Inr (ERROR_OK, st')" "pt_inv st'" "cr3 st' = cr3 st"
    "keeps_data st st'" "data_frame st' phys"
    "card (spare (pmem st)) - 2 \<le> card (spare (pmem st'))" "used_below (pmem st) \<subseteq> used_below (pmem st')"
    "unat phys mod 4096 = 0" "frame_of phys \<in> used_below (pmem st') - used_below (pmem st)"
    "\<And>va. dir_index va \<noteq> 768 \<Longrightarrow> translate (ram st') (cr3 st') va =
       (if frame_of va = frame_of addr then Some (phys + (va AND 0xFFF)) else translate (ram st) (cr3 st) va)"
proof -
  have ready: "pm_ready (pmem st)" using inv by (simp add: pt_inv_def)
  have some: "spare (pmem st) \<noteq> {}" using two by auto
  obtain phys pm where al: "phys_mem_alloc_above_1mb (pmem st) = Inr (phys, pm)" "phys \<noteq> 0"
    "spare pm = spare (pmem st) - {frame_of phys}" by (rule take_spare [OF ready some])
  have p: "unat phys mod 4096 = 0" "frame_of phys \<notin> used_below (pmem st)" "pm_ready pm"
    "used_below pm = insert (frame_of phys) (used_below (pmem st))"
    using pmem_1mb.alloc_takes [OF ready al(1,2)] by auto
  have one: "card (spare (pmem st)) - 1 \<le> card (spare pm)" unfolding al(3) by (simp add: card_Diff_singleton_if)
  have inv1: "pt_inv (st\<lparr>pmem := pm\<rparr>)" by (rule translate_cong_pmem [OF inv p(3)]) (use p(4) in auto)
  have fa: "frame_aligned phys" using p(1) by (simp add: frame_aligned_mod)
  from map_page_frames [OF inv1 v fa fl] obtain err st' where
    m1: "virt_mem_map_page 0xC0000000 phys addr fl (st\<lparr>pmem := pm\<rparr>) = Inr (err, st')"
      "cr3 st' = cr3 (st\<lparr>pmem := pm\<rparr>)"
    and m: "if err = ERROR_OK
     then pt_inv st' \<and> used_below (pmem (st\<lparr>pmem := pm\<rparr>)) \<subseteq> used_below (pmem st') \<and>
       (pmem st' = pmem (st\<lparr>pmem := pm\<rparr>) \<or>
         (\<exists>t. t \<noteq> 0 \<and> phys_mem_alloc_above_1mb (pmem (st\<lparr>pmem := pm\<rparr>)) = Inr (t, pmem st'))) \<and>
       keeps_data (st\<lparr>pmem := pm\<rparr>) st' \<and>
       (\<forall>va. dir_index va \<noteq> 768 \<longrightarrow> translate (ram st') (cr3 (st\<lparr>pmem := pm\<rparr>)) va =
         (if frame_of va = frame_of addr then Some (phys + (va AND 0xFFF))
          else translate (ram (st\<lparr>pmem := pm\<rparr>)) (cr3 (st\<lparr>pmem := pm\<rparr>)) va))
     else err = ERROR_OCCUR \<and> ram st' = ram (st\<lparr>pmem := pm\<rparr>) \<and>
       phys_mem_alloc_above_1mb (pmem (st\<lparr>pmem := pm\<rparr>)) = Inr (0, pmem st') \<and> \<not> bit (pde (st\<lparr>pmem := pm\<rparr>) (dir_index addr)) 0"
    by blast
  have m2: "err = ERROR_OK \<Longrightarrow> pt_inv st' \<and> used_below pm \<subseteq> used_below (pmem st') \<and>
       (pmem st' = pm \<or> (\<exists>t. t \<noteq> 0 \<and> phys_mem_alloc_above_1mb pm = Inr (t, pmem st'))) \<and>
       keeps_data (st\<lparr>pmem := pm\<rparr>) st' \<and>
       (\<forall>va. dir_index va \<noteq> 768 \<longrightarrow> translate (ram st') (cr3 st) va =
         (if frame_of va = frame_of addr then Some (phys + (va AND 0xFFF)) else translate (ram st) (cr3 st) va))"
    and m3: "err \<noteq> ERROR_OK \<Longrightarrow> phys_mem_alloc_above_1mb pm = Inr (0, pmem st')"
    using m by simp_all
  have "spare pm \<noteq> {}" using one two by auto
  then have "phys_mem_alloc_above_1mb pm \<noteq> Inr (0, x)" for x using take_spare [OF p(3)] by (metis Inr_inject prod.inject)
  then have ok: "err = ERROR_OK" using m3 by blast
  note m = m2 [OF ok]
  have two': "card (spare (pmem st)) - 2 \<le> card (spare (pmem st'))"
    using m one spare_after [OF p(3)] by fastforce
  have old: "data_frame (st\<lparr>pmem := pm\<rparr>) f \<longleftrightarrow> data_frame st f" for f by (simp add: data_frame_def)
  have "keeps_data st (st\<lparr>pmem := pm\<rparr>)" by (simp add: keeps_data_def old)
  then have keep: "keeps_data st st'" by (rule keeps_data_trans) (use m p(4) in auto)
  have "data_frame (st\<lparr>pmem := pm\<rparr>) phys" unfolding old by (rule fresh_data_frame [OF inv fa p(2)])
  then have new: "data_frame st' phys" by (rule keeps_data_used(1) [rotated]) (use m p(4) in auto)
  have "virt_mem_alloc_page_f addr fl st = Inr (ERROR_OK, st')"
    using al(1,2) m1(1) ok by (simp add: virt_mem_alloc_page_f_def virt_mem_get_self_recursive_table_def)
  then show ?thesis
    using m two' m1(2) p keep new by (intro that [of st' phys]) auto
qed

lemma default_flags: "unat VIRT_MEM_DEFAULT_PTE_FLAGS < 4096" "bit VIRT_MEM_DEFAULT_PTE_FLAGS 0"
  by (simp_all add: VIRT_MEM_DEFAULT_PTE_FLAGS_def I86_PTE_PRESENT_def I86_PTE_WRITABLE_def bit_simps)

lemmas alloc_page_succeeds = alloc_page_f_succeeds [OF _ _ _ default_flags, folded virt_mem_alloc_page_def]

section \<open>Many pages\<close>

text \<open>
  From \<open>vm\<close> to \<open>vm'\<close> the \<open>n\<close> pages from \<open>a\<close> on were mapped, each to a frame of its own that was
  not in use before; nothing else outside the recursive window changed.
\<close>

definition new_pages :: "nat \<Rightarrow> u32 \<Rightarrow> vm_state \<Rightarrow> vm_state \<Rightarrow> bool" where
  "new_pages n a vm vm' \<longleftrightarrow> (\<exists>g.
     (\<forall>i < n. unat (g i) mod 4096 = 0 \<and> frame_of (g i) \<in> used_below (pmem vm') - used_below (pmem vm)) \<and>
     inj_on (\<lambda>i. frame_of (g i)) {..<n} \<and>
     (\<forall>va. dir_index va \<noteq> 768 \<longrightarrow> translate (ram vm') (cr3 vm') va =
        (if frame_of a \<le> frame_of va \<and> frame_of va < frame_of a + n
         then Some (g (frame_of va - frame_of a) + (va AND 0xFFF)) else translate (ram vm) (cr3 vm) va)))"

lemma new_pages_0: "new_pages 0 a vm vm"
  by (auto simp: new_pages_def)

lemma new_pages_Suc:
  assumes phys: "unat phys mod 4096 = 0" "frame_of phys \<in> used_below (pmem vm1) - used_below (pmem vm)"
    and tr: "\<And>va. dir_index va \<noteq> 768 \<Longrightarrow> translate (ram vm1) (cr3 vm1) va =
       (if frame_of va = frame_of a then Some (phys + (va AND 0xFFF)) else translate (ram vm) (cr3 vm) va)"
    and used: "used_below (pmem vm) \<subseteq> used_below (pmem vm1)" "used_below (pmem vm1) \<subseteq> used_below (pmem vm')"
    and a: "frame_of b = Suc (frame_of a)" and rest: "new_pages n b vm1 vm'"
  shows "new_pages (Suc n) a vm vm'"
proof -
  obtain g where g: "\<And>i. i < n \<Longrightarrow> unat (g i) mod 4096 = 0 \<and> frame_of (g i) \<in> used_below (pmem vm') - used_below (pmem vm1)"
    and inj: "inj_on (\<lambda>i. frame_of (g i)) {..<n}"
    and trg: "\<And>va. dir_index va \<noteq> 768 \<Longrightarrow> translate (ram vm') (cr3 vm') va =
        (if frame_of b \<le> frame_of va \<and> frame_of va < frame_of b + n
         then Some (g (frame_of va - frame_of b) + (va AND 0xFFF)) else translate (ram vm1) (cr3 vm1) va)"
    using rest unfolding new_pages_def by blast
  define h where "h = case_nat phys g"
  have h: "h 0 = phys" "h (Suc i) = g i" for i by (simp_all add: h_def)
  have "unat (h i) mod 4096 = 0 \<and> frame_of (h i) \<in> used_below (pmem vm') - used_below (pmem vm)" if "i < Suc n" for i
    using that phys used g by (cases i) (auto simp: h)
  moreover have "inj_on (\<lambda>i. frame_of (h i)) {..<Suc n}"
    unfolding inj_on_def
  proof (intro ballI impI)
    fix i j assume ij: "i \<in> {..<Suc n}" "j \<in> {..<Suc n}" "frame_of (h i) = frame_of (h j)"
    have apart: "k < n \<Longrightarrow> frame_of (g k) \<noteq> frame_of phys" for k using g [of k] phys(2) by auto
    show "i = j"
    proof (cases i; cases j)
      fix k l assume "i = Suc k" "j = Suc l"
      with ij inj show ?thesis by (auto simp: h inj_on_def)
    qed (use ij apart in \<open>force simp: h\<close>)+
  qed
  moreover have "translate (ram vm') (cr3 vm') va =
      (if frame_of a \<le> frame_of va \<and> frame_of va < frame_of a + Suc n
       then Some (h (frame_of va - frame_of a) + (va AND 0xFFF)) else translate (ram vm) (cr3 vm) va)"
    if d: "dir_index va \<noteq> 768" for va
  proof (cases "frame_of va \<le> frame_of a")
    case True
    then show ?thesis unfolding trg [OF d] tr [OF d] a by (auto simp: h)
  next
    case False
    then have "frame_of va - frame_of a = Suc (frame_of va - frame_of b)" unfolding a by linarith
    with False show ?thesis unfolding trg [OF d] tr [OF d] a by (auto simp: h)
  qed
  ultimately show ?thesis unfolding new_pages_def by blast
qed

lemma below_window: "unat a < 0xC0000000 \<Longrightarrow> dir_index a \<noteq> 768"
  by (simp add: dir_index_def)

lemma next_page:
  assumes "unat a + 4096 \<le> 0xC0000000"
  shows "unat (a + 4096) = unat a + 4096" "frame_of (a + 4096) = Suc (frame_of a)"
  using assms by (simp_all add: unat_word_ariths)

lemma alloc_perms_ok:
  assumes "pt_inv vm" "0 < unat a" "unat a + 4096 * n \<le> 0xC0000000" "2 * n \<le> card (spare (pmem vm))"
  shows "\<exists>vm'. alloc_perms n ke a vm = Inr (a + 4096 * of_nat n, vm') \<and> pt_inv vm' \<and> cr3 vm' = cr3 vm \<and>
    used_below (pmem vm) \<subseteq> used_below (pmem vm') \<and> card (spare (pmem vm)) - 2 * n \<le> card (spare (pmem vm')) \<and>
    new_pages n a vm vm'"
  using assms
proof (induction n arbitrary: a vm)
  case 0
  then show ?case by (simp add: new_pages_0)
next
  case (Suc n)
  have v: "dir_index a \<noteq> 768" by (rule below_window) (use Suc.prems(3) in simp)
  have two: "2 \<le> card (spare (pmem vm))" using Suc.prems(4) by simp
  obtain phys vm1 where p: "virt_mem_alloc_page a vm = Inr (ERROR_OK, vm1)" "pt_inv vm1" "cr3 vm1 = cr3 vm"
    "card (spare (pmem vm)) - 2 \<le> card (spare (pmem vm1))" "used_below (pmem vm) \<subseteq> used_below (pmem vm1)"
    "unat phys mod 4096 = 0" "frame_of phys \<in> used_below (pmem vm1) - used_below (pmem vm)"
    "\<And>va. dir_index va \<noteq> 768 \<Longrightarrow> translate (ram vm1) (cr3 vm1) va =
       (if frame_of va = frame_of a then Some (phys + (va AND 0xFFF)) else translate (ram vm) (cr3 vm) va)"
    by (rule alloc_page_succeeds [OF Suc.prems(1) v two])
      (rule that, assumption+)
  have "unat a + 4096 \<le> 0xC0000000" using Suc.prems(3) by simp
  note b = next_page [OF this]
  have "a \<noteq> 0" using Suc.prems(2) by auto
  then have one: "alloc_perm ke a vm = Inr (a, a + 4096, vm1)"
    using p(1) by (simp add: alloc_perm_def virt_mem_get_page_size_def)
  have "unat (a + 4096) + 4096 * n \<le> 0xC0000000" "2 * n \<le> card (spare (pmem vm1))"
    using b Suc.prems(3,4) p(4) by simp_all
  from Suc.IH [OF p(2) _ this] b obtain vm' where r: "alloc_perms n ke (a + 4096) vm1 = Inr (a + 4096 + 4096 * of_nat n, vm')"
    "pt_inv vm'" "cr3 vm' = cr3 vm1" "used_below (pmem vm1) \<subseteq> used_below (pmem vm')"
    "card (spare (pmem vm1)) - 2 * n \<le> card (spare (pmem vm'))" "new_pages n (a + 4096) vm1 vm'" by auto
  have "new_pages (Suc n) a vm vm'"
    by (rule new_pages_Suc [OF p(6,7,8) p(5) r(4) b(2) r(6)])
  moreover have "alloc_perms (Suc n) ke a vm = Inr (a + 4096 * of_nat (Suc n), vm')"
    using one r(1) by (simp add: algebra_simps)
  moreover have "card (spare (pmem vm)) - 2 * Suc n \<le> card (spare (pmem vm'))" using p(4) r(5) by simp
  ultimately show ?case using r(2-4) p(3,5) by (intro exI [of _ vm']) auto
qed

text \<open>The first page of all lies behind the kernel.\<close>

definition first_page :: "u32 \<Rightarrow> u32 \<Rightarrow> u32" where
  "first_page kernel_end mem_current =
     (if mem_current = 0 then (if kernel_end mod 4096 \<noteq> 0 then kernel_end div 4096 + 1 else kernel_end div 4096) * 4096
      else mem_current)"

lemma alloc_perm_first:
  assumes "first_page ke cur \<noteq> 0"
  shows "alloc_perm ke cur vm = alloc_perm ke (first_page ke cur) vm"
  using assms by (simp add: alloc_perm_def first_page_def virt_mem_get_page_size_def ceil_division_def Let_def)

lemma alloc_perms_first:
  assumes "0 < n" "first_page ke cur \<noteq> 0"
  shows "alloc_perms n ke cur vm = alloc_perms n ke (first_page ke cur) vm"
  using assms alloc_perm_first [OF assms(2)] by (cases n) simp_all

lemma unat_first_page:
  assumes "0 < unat ke" "unat ke \<le> 0xBFFFF000"
  shows "unat ke \<le> unat (first_page ke 0)" "unat (first_page ke 0) < unat ke + 4096" "unat (first_page ke 0) mod 4096 = 0"
proof -
  let ?q = "if ke mod 4096 \<noteq> 0 then ke div 4096 + 1 else ke div 4096"
  have "ceil_division ke 4096 = Inr ?q" by (simp add: ceil_division_def Let_def)
  from unat_ceil_division [OF this] have q: "unat ?q = (unat ke + 4095) div 4096" by simp
  then have "unat ?q * 4096 < 2 ^ 32" using assms by simp
  then have "unat (?q * 4096) = unat ?q * 4096" by (simp only: unat_word_ariths) simp
  then have "unat (first_page ke 0) = (unat ke + 4095) div 4096 * 4096" unfolding first_page_def q [symmetric] by simp
  then show "unat ke \<le> unat (first_page ke 0)" "unat (first_page ke 0) < unat ke + 4096" "unat (first_page ke 0) mod 4096 = 0"
    by simp_all
qed

section \<open>Tables of pages\<close>

lemma alloc_perms_add:
  "alloc_perms (m + n) k cur vm = res_bind (alloc_perms m k cur vm) (\<lambda>(cur, vm). alloc_perms n k cur vm)"
  by (induction m arbitrary: cur vm) (auto simp: res_bind_assoc case_prod_unfold)

lemma alloc_table_pages:
  assumes "ceil_division (of_nat n * entry) virt_mem_get_page_size = Inr p" "unat p = Suc k"
    and "alloc_perms (Suc k) ke cur vm = Inr (cur', vm')"
  shows "alloc_table n entry ke cur vm = Inr (first_page ke cur, cur', vm')"
proof -
  have "unat (p - 1) = k" using assms(2) by (metis diff_Suc_1 unat_eq_zero unat_minus_one zero_neq_one Zero_not_Suc)
  moreover have "fst r = first_page ke cur" if "alloc_perm ke cur vm = Inr r" for r
    using that by (auto simp: alloc_perm_def first_page_def virt_mem_get_page_size_def ceil_division_def Let_def res_simps
        split: if_splits)
  ultimately show ?thesis using assms(1,3) by (fastforce simp: alloc_table_def res_simps)
qed

text \<open>The three tables take 320, 1664 and 1728 pages.\<close>

lemma table_pages:
  "ceil_division (of_nat MAX_PROCESS_SLOTS * sizeof_pcb) virt_mem_get_page_size = Inr 320"
  "ceil_division (of_nat MAX_THREAD_SLOTS * sizeof_tcb) virt_mem_get_page_size = Inr 1664"
  "ceil_division (of_nat MAX_MAILBOX_SLOTS * sizeof_mailbox) virt_mem_get_page_size = Inr 1728"
  by (simp_all add: MAX_PROCESS_SLOTS_def MAX_THREAD_SLOTS_def MAX_MAILBOX_SLOTS_def sizeof_pcb_def sizeof_tcb_def
      sizeof_mailbox_def sizeof_message_def virt_mem_get_page_size_def ceil_division_def)

section \<open>Properties\<close>


lemma vm_machine_spare: "card (spare (pmem vm_machine)) = 253"
proof -
  have "spare (pmem vm_machine) = {256..<512} - {256, 257, 258}"
    unfolding spare_def vm_machine_used by (auto simp: vm_machine_def)
  then show ?thesis by simp
qed


end
