(* ===== verification/Startup_Props.thy ===== *)
theory Startup_Props
  imports Startup Process_Props Kernel_Pages
begin

text \<open>
  What the start of the processors leaves behind: each runs its clock task with its idle thread
  ready, and the whole kernel is in the invariant on which its steps rest.
\<close>

unbundle bit_operations_syntax

section \<open>The first two threads of a processor\<close>

text \<open>The scheduler that runs \<open>a\<close> and has \<open>b\<close> ready at priority 5.\<close>

definition busy :: "nat \<Rightarrow> nat \<Rightarrow> thread_sched" where
  "busy a b = \<lparr>ready_heads = (\<lambda>_. None)(5 := Some b), ready_tails = (\<lambda>_. None)(5 := Some b),
     sched_lock = 0, current_thread = Some a\<rparr>"

definition unlinked :: "nat \<Rightarrow> kstate \<Rightarrow> kstate" where
  "unlinked x st = upd_thread x (\<lambda>t. t\<lparr>t_prev := None, t_next := None\<rparr>) st"

lemma unlinked_parts [simp]:
  "cpus (unlinked x st) = cpus st" "t_exec_cpu (threads (unlinked x st) y) = t_exec_cpu (threads st y)"
  "t_priotity (threads (unlinked x st) y) = t_priotity (threads st y)"
  "t_parent (threads (unlinked x st) y) = t_parent (threads st y)"
  by (simp_all add: unlinked_def)

lemma add_first:
  assumes "c < ncpus st" "cpu_of st x = c" "prio_of st x < 8" "ready_tails (sched c st) (prio_of st x) = None"
  shows "scheduler_add_ready x st = Inr (unlinked x
    (upd_sched c (set_head (prio_of st x) (Some x) \<circ> set_tail (prio_of st x) (Some x)) st))"
  using assms by (simp add: scheduler_add_ready_def cpu_of_def prio_of_def NUMBER_PRIORITIES_def unlinked_def Let_def)

lemma upd_sched_const: "upd_sched c f st = upd_sched c (\<lambda>_. f (sched c st)) st"
  by (simp add: upd_sched_def upd_cpu_def)

lemma sched_zero_parts [simp]:
  "ready_heads scheduler_zero p = None" "ready_tails scheduler_zero p = None" "current_thread scheduler_zero = None"
  by (simp_all add: scheduler_zero_def)

lemma unlinked_sched: "unlinked x (upd_sched c f st) = upd_sched c f (unlinked x st)"
  by (simp add: unlinked_def upd_thread_def upd_sched_def upd_cpu_def)

lemma unlinked_twice [simp]: "unlinked x (unlinked y (unlinked x st)) = unlinked y (unlinked x st)"
  by (simp add: unlinked_def upd_thread_def fun_eq_iff)

lemma start_threads:
  assumes c: "c < ncpus st" "sched c st = scheduler_zero" and a: "cpu_of st a = c" "prio_of st a = 0"
    and b: "cpu_of st b = c" "prio_of st b = 5" and parent: "t_parent (threads st a) = Some pp"
  defines "s \<equiv> upd_sched c (\<lambda>_. busy a b) (unlinked b (unlinked a st))"
  shows "\<exists>st'. res_bind (scheduler_add_ready a st) (\<lambda>st. res_bind (scheduler_add_ready b st) (scheduler_current_start c)) =
      Inr st' \<and> threads st' = threads s \<and> gst st' = gst s \<and> mailbox_slots st' = mailbox_slots st \<and>
    other_sems st' = other_sems st \<and> ipis st' = ipis st \<and> process_slots st' = process_slots st \<and>
    ts_lock st' = ts_lock st \<and> ms_lock st' = ms_lock st \<and> resumed s c a st'"
proof -
  have ab: "a \<noteq> b" using a b by auto
  define z where "z = set_head 0 (Some a) (set_tail 0 (Some a) scheduler_zero)"
  define st1 where "st1 = upd_sched c (\<lambda>_. z) (unlinked a st)"
  have add1: "scheduler_add_ready a st = Inr st1"
    using add_first [of c st a] c a upd_sched_const [of c "set_head 0 (Some a) \<circ> set_tail 0 (Some a)" st]
    by (simp add: st1_def z_def unlinked_sched)
  have s1: "c < ncpus st1" "sched c st1 = z" using c by (simp_all add: st1_def)
  define st2 where "st2 = upd_sched c (\<lambda>_. set_head 5 (Some b) (set_tail 5 (Some b) z)) (unlinked b (unlinked a st))"
  have b1: "cpu_of st1 b = c" "prio_of st1 b = 5" using b by (simp_all add: st1_def cpu_of_def prio_of_def)
  have "ready_tails (sched c st1) 5 = None" using s1 by (simp add: z_def)
  then have add2: "scheduler_add_ready b st1 = Inr st2"
    using add_first [of c st1 b] s1 b1 c unfolding st1_def st2_def
    by (simp add: unlinked_sched upd_sched_upd_sched o_def)
  define z2 where "z2 = set_head 5 (Some b) (set_tail 5 (Some b) z)"
  have z2: "ready_heads z2 0 = Some a" by (simp add: z2_def z_def)
  have s2: "c < ncpus st2" "sched c st2 = z2" using c by (simp_all add: st2_def z2_def)
  have head: "scheduler_get_first_non_empty (sched c st2) = 0"
    unfolding s2(2) scheduler_get_first_non_empty_def NUMBER_PRIORITIES_def by (simp add: numeral_eq_Suc z2)
  have next_a: "t_next (threads st2 a) = None" by (simp add: st2_def unlinked_def)
  have "scheduler_remove_ready c 0 st2 = Inr (a, unlinked a (upd_sched c (set_head 0 None \<circ> set_tail 0 None)
      (upd_sched c (set_head 0 None) st2)))"
    unfolding scheduler_remove_ready_def s2(2) z2 using next_a by (simp add: unlinked_def)
  also have "\<dots> = Inr (a, upd_sched c (\<lambda>_. set_head 0 None (set_tail 0 None z2)) (unlinked b (unlinked a st)))"
    using c by (simp add: st2_def z2_def unlinked_sched upd_sched_upd_sched o_def)
  finally have "scheduler_schedule_thread c st2 = Inr (a, upd_sched c (\<lambda>s. s\<lparr>current_thread := Some a\<rparr>)
      (upd_sched c (\<lambda>_. set_head 0 None (set_tail 0 None z2)) (unlinked b (unlinked a st))))"
    using head by (simp add: scheduler_schedule_thread_def NUMBER_PRIORITIES_def)
  moreover have "(set_head 0 None (set_tail 0 None z2))\<lparr>current_thread := Some a\<rparr> = busy a b"
    by (simp add: z2_def z_def busy_def set_head_def set_tail_def scheduler_zero_def fun_eq_iff)
  ultimately have sched: "scheduler_schedule_thread c st2 = Inr (a, s)"
    using c by (simp add: s_def upd_sched_upd_sched o_def)
  have "current_thread (sched c s) = Some a" "c < ncpus s" "t_parent (threads s a) = Some pp"
    using c parent by (simp_all add: s_def busy_def)
  then obtain st' where x: "scheduler_current_execute c s = Inr st'" "threads st' = threads s" "gst st' = gst s"
    "mailbox_slots st' = mailbox_slots s" "other_sems st' = other_sems s" "ipis st' = ipis s"
    "process_slots st' = process_slots s" "resumed s c a st'"
    using execute_ok by blast
  have "ts_lock st' = ts_lock s" "ms_lock st' = ms_lock s"
    using x(1) by (auto simp: scheduler_current_execute_def scheduler_restore_thread_def Let_def res_simps
        split: if_splits option.splits)
  moreover have "scheduler_current_start c st2 = Inr st'"
    using s2 sched x(1) by (simp add: scheduler_current_start_def)
  moreover have "mailbox_slots s = mailbox_slots st" "other_sems s = other_sems st" "ipis s = ipis st"
    "process_slots s = process_slots st" "ts_lock s = ts_lock st" "ms_lock s = ms_lock st"
    by (simp_all add: s_def unlinked_def upd_thread_def upd_sched_def upd_cpu_def)
  ultimately show ?thesis using add1 add2 x by (intro exI [of _ st']) simp
qed

section \<open>One processor\<close>

text \<open>What every processor finds: the tables, nobody waiting, nothing under way.\<close>

definition tables_ok :: "nat \<Rightarrow> kstate \<Rightarrow> bool" where
  "tables_ok n st \<longleftrightarrow> ncpus st = n \<and> n \<le> 16 \<and> processor_count (gst st) = of_nat n \<and>
     (\<forall>c < n. pc_id (cpus st ! c) = of_nat c) \<and> \<not> lock_held (ts_lock st) \<and> \<not> lock_held (ms_lock st) \<and>
     process_used st 0 \<and> ipis st = [] \<and>
     (\<forall>r. waiting_head (get_sem r st) = None \<and> waiting_tail (get_sem r st) = None)"

definition is_task :: "kstate \<Rightarrow> nat \<Rightarrow> nat \<Rightarrow> nat \<Rightarrow> bool" where
  "is_task st c p x \<longleftrightarrow> cpu_of st x = c \<and> prio_of st x = p \<and> t_parent (threads st x) = Some 0 \<and>
     t_prev (threads st x) = None \<and> t_next (threads st x) = None"

definition cpu_started :: "kstate \<Rightarrow> nat \<Rightarrow> nat \<Rightarrow> nat \<Rightarrow> bool" where
  "cpu_started st c a b \<longleftrightarrow> sched c st = busy a b \<and> pc_mailbox (cpus st ! c) = Some c \<and>
     mb_type (mailbox_slots st c) = MAILBOX_CPU \<and> mb_owner (mailbox_slots st c) = Cpu_ptr c \<and> \<not> pending st c \<and>
     is_task st c 0 a \<and> is_task st c 5 b"

text \<open>The processors \<open>B\<close> have started, with clock tasks \<open>clk\<close> and idle threads \<open>idl\<close>.\<close>

definition started :: "nat \<Rightarrow> nat set \<Rightarrow> (nat \<Rightarrow> nat) \<Rightarrow> (nat \<Rightarrow> nat) \<Rightarrow> kstate \<Rightarrow> bool" where
  "started n B clk idl st \<longleftrightarrow> tables_ok n st \<and> B \<subseteq> {..<n} \<and> (\<forall>c \<in> B. cpu_started st c (clk c) (idl c)) \<and>
     inj_on clk B \<and> inj_on idl B \<and> clk ` B \<inter> idl ` B = {} \<and>
     (\<forall>i < MAX_THREAD_SLOTS. thread_used st i \<longleftrightarrow> i \<in> clk ` B \<union> idl ` B) \<and>
     clk ` B \<union> idl ` B \<subseteq> {..<MAX_THREAD_SLOTS} \<and>
     (\<forall>c < n. c \<notin> B \<longrightarrow> \<not> mailbox_used st c \<and> \<not> mailbox_used st (n + c))"

lemma first_free_slot:
  assumes "finite X" "\<forall>i < MAX_THREAD_SLOTS. thread_used st i \<longleftrightarrow> i \<in> X" "card X < MAX_THREAD_SLOTS"
  obtains i where "i < MAX_THREAD_SLOTS" "i \<notin> X" "\<not> thread_used st i" "\<forall>j < i. thread_used st j"
proof -
  have "\<exists>i < MAX_THREAD_SLOTS. i \<notin> X"
  proof (rule ccontr)
    assume "\<not> (\<exists>i < MAX_THREAD_SLOTS. i \<notin> X)"
    then have "{..<MAX_THREAD_SLOTS} \<subseteq> X" by auto
    from card_mono [OF assms(1) this] assms(3) show False by simp
  qed
  then obtain k where k: "k < MAX_THREAD_SLOTS" "k \<notin> X" by blast
  define i where "i = (LEAST i. i \<notin> X)"
  have i: "i \<notin> X" "i \<le> k" unfolding i_def
    using LeastI [of "\<lambda>i. i \<notin> X", OF k(2)] Least_le [of "\<lambda>i. i \<notin> X", OF k(2)] by simp_all
  moreover have "thread_used st j" if "j < i" for j
    using not_less_Least [of j "\<lambda>i. i \<notin> X"] that assms(2) i(2) k(1) unfolding i_def by auto
  moreover have "i < MAX_THREAD_SLOTS" using i(2) k(1) by simp
  ultimately show ?thesis using that [of i] assms(2) by blast
qed

lemma thread_create_kernel:
  assumes "\<not> lock_held (ts_lock st)" "i < MAX_THREAD_SLOTS" "\<not> thread_used st i" "\<forall>j < i. thread_used st j"
  shows "thread_create parent e s p 1 c st =
    Inr (Some i, upd_thread i (new_tcb parent e s p i 1 c (pc_common_stack_top (cpus st ! unat c))) st)"
proof -
  have idle: "threads_idle 1 c st" using assms(1) by (simp add: threads_idle_def)
  show ?thesis
    using thread_table.try_first [OF idle assms(2-4)] thread_create_static_free [OF idle assms(2,3)]
    by (simp add: thread_create_def)
qed

lemma thread_used_upd:
  "thread_used (upd_thread i (new_tcb par e s p i k c common) st) j \<longleftrightarrow> j = i \<or> thread_used st j"
  by (simp add: thread_used_def new_tcb_def THREAD_NEW_def THREAD_SLOT_EMPTY_def)

lemma alloc_stacks:
  assumes "alloc_perms (Suc n) (sr_kernel_end sr) (su_current s) (su_vm s) = Inr (cur', vm')"
  obtains a cur vm where "alloc_stack sr s = Inr (a, s\<lparr>su_current := cur, su_vm := vm\<rparr>)"
    "alloc_perms n (sr_kernel_end sr) cur vm = Inr (cur', vm')"
  using assms by (auto simp: alloc_stack_def res_simps)

text \<open>Everything up to the creation of the second thread, and its mailbox.\<close>

definition prepared :: "nat \<Rightarrow> u32 \<Rightarrow> kstate \<Rightarrow> kstate" where
  "prepared me common st =
     scheduler_init me (upd_cpu me (\<lambda>d. d\<lparr>pc_common_stack_top := common,
         pc_tss_entry := tss_set_kernel_stack (pc_tss_entry d) common (GDT_SS_ENTRY (of_nat me) * 8),
         pc_mailbox := Some me\<rparr>)
       (upd_mailbox me (new_mailbox MAILBOX_CPU (Cpu_ptr me)) st))"

lemma prepared_parts:
  assumes "c < ncpus st"
  shows "ncpus (prepared c common st) = ncpus st" "threads (prepared c common st) = threads st"
    "process_slots (prepared c common st) = process_slots st" "sched c (prepared c common st) = scheduler_zero"
    "pc_mailbox (cpus (prepared c common st) ! c) = Some c" "pc_id (cpus (prepared c common st) ! d) = pc_id (cpus st ! d)"
    "d \<noteq> c \<Longrightarrow> cpus (prepared c common st) ! d = cpus st ! d"
    "mailbox_slots (prepared c common st) = (mailbox_slots st)(c := new_mailbox MAILBOX_CPU (Cpu_ptr c) (mailbox_slots st c))"
    "other_sems (prepared c common st) = other_sems st" "ipis (prepared c common st) = ipis st"
    "ts_lock (prepared c common st) = ts_lock st" "ms_lock (prepared c common st) = ms_lock st"
    "processor_count (gst (prepared c common st)) = processor_count (gst st)"
  using assms by (auto simp: prepared_def scheduler_init_def upd_sched_def upd_cpu_def upd_mailbox_def nth_list_update_if)

lemma prepared_steps:
  assumes c: "c < ncpus (su_kernel s)" "c < 16" and m: "\<not> lock_held (ms_lock (su_kernel s))" "\<not> mailbox_used (su_kernel s) c"
    and a: "alloc_stack sr s = Inr (common, s\<lparr>su_current := cur, su_vm := vm\<rparr>)"
  obtains s1 s2 where "setup_processor_common_stack sr c (of_nat c) s = Inr (common, s1)"
    "with_kernel (mailbox_create_static (of_nat c) MAILBOX_CPU (Cpu_ptr c)) s1 = Inr (Some c, s2)"
    "s2\<lparr>su_kernel := scheduler_init c (upd_cpu c (\<lambda>d. d\<lparr>pc_mailbox := Some c\<rparr>) (su_kernel s2))\<rparr> =
      s\<lparr>su_current := cur, su_vm := vm, su_kernel := prepared c common (su_kernel s)\<rparr>"
proof -
  let ?K = "su_kernel s"
  have u: "unat (of_nat c :: u8) = c" "(ucast (of_nat c :: u8) :: u32) = of_nat c"
    using c(2) by (simp_all add: unat_of_nat word_unat_eq_iff unsigned_ucast_eq take_bit_eq_mod)
  let ?K1 = "upd_cpu c (\<lambda>d. d\<lparr>pc_tss_entry := tss_set_kernel_stack (pc_tss_entry d) common (GDT_SS_ENTRY (of_nat c) * 8)\<rparr>)
    (upd_cpu c (\<lambda>d. d\<lparr>pc_common_stack_top := common\<rparr>) ?K)"
  have "setup_processor_common_stack sr c (of_nat c) s =
      Inr (common, s\<lparr>su_current := cur, su_vm := vm, su_kernel := ?K1\<rparr>)"
    using c u a by (simp add: setup_processor_common_stack_def)
  moreover have "mailbox_create_static (of_nat c) MAILBOX_CPU (Cpu_ptr c) ?K1 =
      Inr (Some c, upd_mailbox c (new_mailbox MAILBOX_CPU (Cpu_ptr c)) ?K1)"
    using m c(2) by (intro mailbox_create_static_free)
      (simp_all add: MAX_MAILBOX_SLOTS_def mailbox_used_def, simp add: upd_cpu_def)
  moreover have "upd_cpu c (\<lambda>d. d\<lparr>pc_mailbox := Some c\<rparr>) (upd_mailbox c (new_mailbox MAILBOX_CPU (Cpu_ptr c)) ?K1) =
      upd_cpu c (\<lambda>d. d\<lparr>pc_common_stack_top := common,
         pc_tss_entry := tss_set_kernel_stack (pc_tss_entry d) common (GDT_SS_ENTRY (of_nat c) * 8),
         pc_mailbox := Some c\<rparr>) (upd_mailbox c (new_mailbox MAILBOX_CPU (Cpu_ptr c)) ?K)"
    using c(1) by (simp add: upd_cpu_def upd_mailbox_def)
  ultimately show ?thesis
    by (intro that [of "s\<lparr>su_current := cur, su_vm := vm, su_kernel := ?K1\<rparr>" "s\<lparr>su_current := cur, su_vm := vm,
          su_kernel := upd_mailbox c (new_mailbox MAILBOX_CPU (Cpu_ptr c)) ?K1\<rparr>"])
      (simp_all add: with_kernel_def prepared_def)
qed

lemma create_task_step:
  assumes p: "process_used (su_kernel s) 0" and t: "\<not> lock_held (ts_lock (su_kernel s))"
    and i: "i < MAX_THREAD_SLOTS" "\<not> thread_used (su_kernel s) i" "\<forall>j < i. thread_used (su_kernel s) j"
    and a: "alloc_stack sr s = Inr (stack, s\<lparr>su_current := cur, su_vm := vm\<rparr>)"
  shows "create_task sr e prio c s = Inr (Some i, s\<lparr>su_current := cur, su_vm := vm,
    su_kernel := upd_thread i (new_tcb (Some 0) e stack prio i 1 (of_nat c)
      (pc_common_stack_top (cpus (su_kernel s) ! unat (of_nat c :: u8)))) (su_kernel s)\<rparr>)"
proof -
  have "get_process KERNEL_PROCESS_SLOT (su_kernel s) = Inr (Some 0)"
    using p by (simp add: get_process_def KERNEL_PROCESS_SLOT_def MAX_PROCESS_SLOTS_def process_used_def)
  then show ?thesis
    using a thread_create_kernel [OF t i] by (simp add: create_task_def with_kernel_def)
qed

text \<open>The state of the kernel once the two threads exist, and the effect of starting them.\<close>

definition with_tasks :: "(tcb \<Rightarrow> tcb) \<Rightarrow> (tcb \<Rightarrow> tcb) \<Rightarrow> nat \<Rightarrow> nat \<Rightarrow> nat \<Rightarrow> kstate \<Rightarrow> kstate" where
  "with_tasks f g a b m st =
     upd_thread a (\<lambda>t. t\<lparr>t_mailbox := Some m\<rparr>) (upd_mailbox m (new_mailbox MAILBOX_THREAD (Tcb_ptr a))
       (upd_thread b g (upd_thread a f st)))"

lemma with_tasks_parts:
  "gst (with_tasks f g a b m st) = gst st" "process_slots (with_tasks f g a b m st) = process_slots st"
  "other_sems (with_tasks f g a b m st) = other_sems st" "ipis (with_tasks f g a b m st) = ipis st"
  "ts_lock (with_tasks f g a b m st) = ts_lock st" "ms_lock (with_tasks f g a b m st) = ms_lock st"
  "mailbox_slots (with_tasks f g a b m st) =
     (mailbox_slots st)(m := new_mailbox MAILBOX_THREAD (Tcb_ptr a) (mailbox_slots st m))"
  "a \<noteq> b \<Longrightarrow> threads (with_tasks f g a b m st) =
     (threads st)(a := (f (threads st a))\<lparr>t_mailbox := Some m\<rparr>, b := g (threads st b))"
  by (simp_all add: with_tasks_def upd_thread_def upd_mailbox_def fun_eq_iff)

lemma final_setup_kernel:
  assumes st: "started n B clk idl (su_kernel s)" and me: "me < n" "me \<notin> B"
    and free: "\<not> lock_held (su_process_ready s)"
    and mem: "alloc_perms 3 (sr_kernel_end sr) (su_current s) (su_vm s) = Inr (cur', vm')"
  obtains a b f g common st' sa ca sb cb where
    "final_processor_setup sr me s = Inr (s\<lparr>su_current := cur', su_vm := vm', su_kernel := st'\<rparr>)"
    "a < MAX_THREAD_SLOTS" "b < MAX_THREAD_SLOTS" "a \<noteq> b" "a \<notin> clk ` B \<union> idl ` B" "b \<notin> clk ` B \<union> idl ` B"
    "f = new_tcb (Some 0) (sr_clock_task sr) sa 0 a 1 (of_nat me) ca"
    "g = new_tcb (Some 0) (sr_idle sr) sb 5 b 1 (of_nat me) cb"
    "threads st' = threads (unlinked b (unlinked a (with_tasks f g a b (n + me) (prepared me common (su_kernel s)))))"
    "gst st' = gst (upd_sched me (\<lambda>_. busy a b) (prepared me common (su_kernel s)))"
    "mailbox_slots st' = mailbox_slots (with_tasks f g a b (n + me) (prepared me common (su_kernel s)))"
    "other_sems st' = other_sems (su_kernel s)" "ipis st' = ipis (su_kernel s)"
    "process_slots st' = process_slots (su_kernel s)"
    "ts_lock st' = ts_lock (su_kernel s)" "ms_lock st' = ms_lock (su_kernel s)"
proof -
  let ?K = "su_kernel s" and ?X = "clk ` B \<union> idl ` B"
  have tab: "tables_ok n ?K" and used: "\<forall>i < MAX_THREAD_SLOTS. thread_used ?K i \<longleftrightarrow> i \<in> ?X" and B: "B \<subseteq> {..<n}"
    and boxes: "\<not> mailbox_used ?K me" "\<not> mailbox_used ?K (n + me)"
    using st me by (simp_all add: started_def)
  have c: "me < ncpus ?K" "me < 16" "n \<le> 16" and locks: "\<not> lock_held (ts_lock ?K)" "\<not> lock_held (ms_lock ?K)"
    and count: "processor_count (gst ?K) = of_nat n" and proc: "process_used ?K 0"
    using tab me(1) by (simp_all add: tables_ok_def)
  have finB: "finite B" using B finite_subset by blast
  have "card B \<le> 16" using card_mono [OF finite_lessThan B] c(3) by simp
  then have cardX: "card ?X \<le> 32"
    using card_Un_le [of "clk ` B" "idl ` B"] card_image_le [OF finB, of clk] card_image_le [OF finB, of idl] by linarith
  have finX: "finite ?X" using finB by simp
  obtain s1 cur1 vm1 where m1: "alloc_stack sr s = Inr (s1, s\<lparr>su_current := cur1, su_vm := vm1\<rparr>)"
    "alloc_perms (Suc (Suc 0)) (sr_kernel_end sr) cur1 vm1 = Inr (cur', vm')"
    by (rule alloc_stacks [OF mem [unfolded numeral_3_eq_3]])
  let ?P = "prepared me s1 ?K"
  let ?S1 = "s\<lparr>su_current := cur1, su_vm := vm1, su_kernel := ?P\<rparr>"
  obtain t1 t2 where prep: "setup_processor_common_stack sr me (of_nat me) s = Inr (s1, t1)"
    "with_kernel (mailbox_create_static (of_nat me) MAILBOX_CPU (Cpu_ptr me)) t1 = Inr (Some me, t2)"
    "t2\<lparr>su_kernel := scheduler_init me (upd_cpu me (\<lambda>d. d\<lparr>pc_mailbox := Some me\<rparr>) (su_kernel t2))\<rparr> = ?S1"
    by (rule prepared_steps [OF c(1,2) locks(2) boxes(1) m1(1)])
  note P = prepared_parts [OF c(1)]
  have used1: "thread_used ?P i \<longleftrightarrow> thread_used ?K i" for i by (simp add: thread_used_def P)
  have proc1: "process_used ?P 0" using proc by (simp add: process_used_def P)
  obtain a where a: "a < MAX_THREAD_SLOTS" "a \<notin> ?X" "\<not> thread_used ?P a" "\<forall>j < a. thread_used ?P j"
    using first_free_slot [OF finX, of ?P] used cardX unfolding used1 by (auto simp: MAX_THREAD_SLOTS_def)
  obtain sa cur2 vm2 where m2: "alloc_stack sr ?S1 = Inr (sa, ?S1\<lparr>su_current := cur2, su_vm := vm2\<rparr>)"
    "alloc_perms (Suc 0) (sr_kernel_end sr) cur2 vm2 = Inr (cur', vm')"
  proof (rule alloc_stacks [of "Suc 0" sr ?S1 cur' vm'])
    show "alloc_perms (Suc (Suc 0)) (sr_kernel_end sr) (su_current ?S1) (su_vm ?S1) = Inr (cur', vm')"
      using m1(2) by (simp del: alloc_perms.simps)
  qed (rule that)
  define cc where "cc = pc_common_stack_top (cpus ?P ! unat (of_nat me :: u8))"
  let ?f = "new_tcb (Some 0) (sr_clock_task sr) sa 0 a 1 (of_nat me) cc"
  let ?S2 = "?S1\<lparr>su_current := cur2, su_vm := vm2, su_kernel := upd_thread a ?f ?P\<rparr>"
  have task1: "create_task sr (sr_clock_task sr) 0 me ?S1 = Inr (Some a, ?S2)"
    using create_task_step [where s = ?S1 and i = a and sr = sr and stack = sa and cur = cur2 and vm = vm2] a m2(1) proc1 locks(1) P by (simp add: cc_def)
  have used2: "thread_used (su_kernel ?S2) i \<longleftrightarrow> i = a \<or> thread_used ?K i" for i
    by (simp add: thread_used_upd used1 del: upd_thread_parts)
  have "\<forall>i < MAX_THREAD_SLOTS. thread_used (su_kernel ?S2) i \<longleftrightarrow> i \<in> insert a ?X" using used unfolding used2 by blast
  moreover have "card (insert a ?X) < MAX_THREAD_SLOTS"
    using cardX card_insert_le_m1 [of "MAX_THREAD_SLOTS - 1" ?X a] finX a(2) by (simp add: MAX_THREAD_SLOTS_def)
  ultimately obtain b where b: "b < MAX_THREAD_SLOTS" "b \<notin> insert a ?X" "\<not> thread_used (su_kernel ?S2) b"
    "\<forall>j < b. thread_used (su_kernel ?S2) j"
    using first_free_slot [of "insert a ?X" "su_kernel ?S2"] finX by blast
  obtain sb cur3 vm3 where m3: "alloc_stack sr ?S2 = Inr (sb, ?S2\<lparr>su_current := cur3, su_vm := vm3\<rparr>)"
    "cur3 = cur'" "vm3 = vm'"
  proof (rule alloc_stacks [of 0 sr ?S2 cur' vm'])
    show "alloc_perms (Suc 0) (sr_kernel_end sr) (su_current ?S2) (su_vm ?S2) = Inr (cur', vm')"
      using m2(2) by (simp del: alloc_perms.simps)
  qed (rule that, simp_all)
  let ?g = "new_tcb (Some 0) (sr_idle sr) sb 5 b 1 (of_nat me)
    cc"
  let ?K3 = "upd_thread b ?g (upd_thread a ?f ?P)"
  have p2: "process_used (su_kernel ?S2) 0" using proc1 by (simp add: process_used_def)
  have l2: "\<not> lock_held (ts_lock (su_kernel ?S2))" using locks(1) P(11) by (simp add: upd_thread_def)
  have task2: "create_task sr (sr_idle sr) 5 me ?S2 = Inr (Some b, ?S2\<lparr>su_current := cur', su_vm := vm', su_kernel := ?K3\<rparr>)"
    using create_task_step [OF p2 l2 b(1,3,4) m3(1), of "sr_idle sr" 5 me] m3(2,3) by (simp add: cc_def)
  have ab: "a \<noteq> b" using b(2) by blast
  let ?W = "with_tasks ?f ?g a b (n + me) ?P"
  have mid: "(ucast (of_nat n + of_nat me :: u32) :: u16) = of_nat (n + me)"
    using c me(1) by (simp add: word_unat_eq_iff unat_of_nat unsigned_ucast_eq take_bit_eq_mod unat_word_ariths)
  have "\<not> mailbox_used ?K3 (n + me)" using boxes(2) me(1) c(3) P by (simp add: mailbox_used_def)
  moreover have "\<not> lock_held (ms_lock ?K3)" using locks(2) P by (simp add: upd_thread_def)
  ultimately have "mailbox_create_static (of_nat (n + me)) MAILBOX_THREAD (Tcb_ptr a) ?K3 =
      Inr (Some (n + me), upd_mailbox (n + me) (new_mailbox MAILBOX_THREAD (Tcb_ptr a)) ?K3)"
    using c me(1) by (intro mailbox_create_static_free) (simp_all add: MAX_MAILBOX_SLOTS_def)
  then have box: "thread_alloc_mailbox_static a (of_nat (n + me)) ?K3 = Inr (Some (n + me), ?W)"
    by (simp add: thread_alloc_mailbox_static_def with_tasks_def)
  note W = with_tasks_parts [where f = ?f and g = ?g and a = a and b = b and m = "n + me" and st = ?P]
  have w: "me < ncpus ?W" "sched me ?W = scheduler_zero" using c(1) P(1,4) by (simp_all add: W(1))
  have u: "unat (of_nat me :: u8) = me" using c(2) by (simp add: unat_of_nat)
  have "cpu_of ?W a = me" "prio_of ?W a = 0" "cpu_of ?W b = me" "prio_of ?W b = 5" "t_parent (threads ?W a) = Some 0"
    using ab u by (simp_all add: W cpu_of_def prio_of_def new_tcb_def)
  from start_threads [OF w this] obtain st' where go:
    "res_bind (scheduler_add_ready a ?W) (\<lambda>st. res_bind (scheduler_add_ready b st) (scheduler_current_start me)) = Inr st'"
    "threads st' = threads (upd_sched me (\<lambda>_. busy a b) (unlinked b (unlinked a ?W)))"
    "gst st' = gst (upd_sched me (\<lambda>_. busy a b) (unlinked b (unlinked a ?W)))"
    "mailbox_slots st' = mailbox_slots ?W" "other_sems st' = other_sems ?W" "ipis st' = ipis ?W"
    "process_slots st' = process_slots ?W" "ts_lock st' = ts_lock ?W" "ms_lock st' = ms_lock ?W" by blast
  have same_gst: "gst (upd_sched me (\<lambda>_. busy a b) (unlinked b (unlinked a ?W))) = gst (upd_sched me (\<lambda>_. busy a b) ?P)"
    by (simp add: upd_sched_def upd_cpu_def unlinked_def upd_thread_def W)
  have lock: "acquire_spinlock (su_process_ready s) = Inr (su_process_ready s OR 1)"
    "s\<lparr>su_process_ready := release_spinlock (su_process_ready s OR 1)\<rparr> = s"
    using free by (simp_all add: acquired_released)
  have count3: "processor_count (gst ?K3) = of_nat n" using count P by simp
  obtain W1 W2 where go1: "scheduler_add_ready a ?W = Inr W1" "scheduler_add_ready b W1 = Inr W2"
    "scheduler_current_start me W2 = Inr st'"
    using go(1) by (auto simp: res_bind_eq_Inr)
  have "with_kernel (thread_alloc_mailbox_static a (of_nat (n + me))) (?S2\<lparr>su_current := cur', su_vm := vm', su_kernel := ?K3\<rparr>) =
      Inr (Some (n + me), ?S2\<lparr>su_current := cur', su_vm := vm', su_kernel := ?W\<rparr>)"
    using box by (simp add: with_kernel_def)
  then have "final_processor_setup sr me s = Inr (s\<lparr>su_current := cur', su_vm := vm', su_kernel := st'\<rparr>)"
    by (simp add: final_processor_setup_def lock prep task1 [simplified] task2 [simplified] Let_def count3 mid
        go1 del: upd_thread_parts)
  then show ?thesis
  proof (rule that [where a = a and b = b and st' = st' and f = ?f and g = ?g and common = s1 and sa = sa and sb = sb and ca = cc and cb = cc])
    show "b \<notin> ?X" using b(2) by blast
    show "threads st' = threads (unlinked b (unlinked a ?W))" using go(2) by simp
    show "gst st' = gst (upd_sched me (\<lambda>_. busy a b) ?P)" using go(3) same_gst by simp
  qed (use a(1,2) b(1) ab go(4-9) in \<open>simp_all add: W(2-6) P(3,9-12)\<close>)
qed

lemma new_mailbox_sems:
  assumes "\<forall>r. waiting_head (get_sem r st) = None \<and> waiting_tail (get_sem r st) = None"
    and "mailbox_slots st' = (mailbox_slots st)(c := new_mailbox MAILBOX_CPU p (mailbox_slots st c),
      m := new_mailbox MAILBOX_THREAD q (mailbox_slots st m))" "other_sems st' = other_sems st" "c \<noteq> m"
  shows "waiting_head (get_sem r st') = None \<and> waiting_tail (get_sem r st') = None"
proof (cases r)
  case (Sem_rdy i)
  then show ?thesis using assms(1) [rule_format, of "Sem_rdy i"] assms(2,4)
    by (auto simp: new_mailbox_def set_msg_lock_def)
next
  case (Sem_recv i)
  then show ?thesis using assms(1) [rule_format, of "Sem_recv i"] assms(2,4)
    by (auto simp: new_mailbox_def set_msg_lock_def)
next
  case (Sem_at x)
  then show ?thesis using assms(1) [rule_format, of "Sem_at x"] assms(3) by simp
qed

lemma final_setup:
  assumes st: "started n B clk idl (su_kernel s)" and me: "me < n" "me \<notin> B"
    and free: "\<not> lock_held (su_process_ready s)"
    and mem: "alloc_perms 3 (sr_kernel_end sr) (su_current s) (su_vm s) = Inr (cur', vm')"
  shows "\<exists>s' clk' idl'. final_processor_setup sr me s = Inr s' \<and> started n (insert me B) clk' idl' (su_kernel s') \<and>
    su_current s' = cur' \<and> su_vm s' = vm' \<and> su_process_ready s' = su_process_ready s"
proof -
  let ?K = "su_kernel s" and ?X = "clk ` B \<union> idl ` B"
  obtain a b f g common st' sa ca sb cb where
    r: "final_processor_setup sr me s = Inr (s\<lparr>su_current := cur', su_vm := vm', su_kernel := st'\<rparr>)"
    and ab: "a < MAX_THREAD_SLOTS" "b < MAX_THREAD_SLOTS" "a \<noteq> b" "a \<notin> ?X" "b \<notin> ?X"
    and fg: "f = new_tcb (Some 0) (sr_clock_task sr) sa 0 a 1 (of_nat me) ca"
      "g = new_tcb (Some 0) (sr_idle sr) sb 5 b 1 (of_nat me) cb"
    and st': "threads st' = threads (unlinked b (unlinked a (with_tasks f g a b (n + me) (prepared me common ?K))))"
      "gst st' = gst (upd_sched me (\<lambda>_. busy a b) (prepared me common ?K))"
      "mailbox_slots st' = mailbox_slots (with_tasks f g a b (n + me) (prepared me common ?K))"
      "other_sems st' = other_sems ?K" "ipis st' = ipis ?K" "process_slots st' = process_slots ?K"
      "ts_lock st' = ts_lock ?K" "ms_lock st' = ms_lock ?K"
    by (rule final_setup_kernel [OF assms])
  have tab: "tables_ok n ?K" and B: "B \<subseteq> {..<n}" and old: "\<forall>c \<in> B. cpu_started ?K c (clk c) (idl c)"
    and inj: "inj_on clk B" "inj_on idl B" "clk ` B \<inter> idl ` B = {}"
    and used: "\<forall>i < MAX_THREAD_SLOTS. thread_used ?K i \<longleftrightarrow> i \<in> ?X" "?X \<subseteq> {..<MAX_THREAD_SLOTS}"
    and boxes: "\<forall>c < n. c \<notin> B \<longrightarrow> \<not> mailbox_used ?K c \<and> \<not> mailbox_used ?K (n + c)"
    using st unfolding started_def by blast+
  have c: "me < ncpus ?K" "ncpus ?K = n" "n \<le> 16" using tab me(1) by (simp_all add: tables_ok_def)
  note P = prepared_parts [OF c(1), where common = common]
  have u: "unat (of_nat me :: u8) = me" using c by (simp add: unat_of_nat)
  have T: "threads st' x = (if x = a then (f (threads ?K a))\<lparr>t_mailbox := Some (n + me), t_prev := None, t_next := None\<rparr>
      else if x = b then (g (threads ?K b))\<lparr>t_prev := None, t_next := None\<rparr> else threads ?K x)" for x
    using ab(3) by (simp add: st'(1) unlinked_def with_tasks_parts P)
  have cpus: "ncpus st' = n" "sched me st' = busy a b" "pc_mailbox (cpus st' ! me) = Some me"
    "pc_id (cpus st' ! d) = pc_id (cpus ?K ! d)" "d \<noteq> me \<Longrightarrow> cpus st' ! d = cpus ?K ! d"
    "processor_count (gst st') = processor_count (gst ?K)" for d
    using c P by (simp_all add: st'(2) upd_sched_def upd_cpu_def nth_list_update_if)
  have M: "mailbox_slots st' = (mailbox_slots ?K)(me := new_mailbox MAILBOX_CPU (Cpu_ptr me) (mailbox_slots ?K me),
      n + me := new_mailbox MAILBOX_THREAD (Tcb_ptr a) (mailbox_slots ?K (n + me)))"
    using c by (simp add: st'(3) with_tasks_parts P)
  have task: "is_task st' me 0 a" "is_task st' me 5 b"
    using ab(3) u by (simp_all add: is_task_def T cpu_of_def prio_of_def fg new_tcb_def)
  have started_me: "cpu_started st' me a b"
    using cpus task c by (simp add: cpu_started_def M new_mailbox_def pending_def set_msg_lock_def MAILBOX_CPU_def
        MAILBOX_ABOVE_SEMAPHORE_def)
  have started_old: "cpu_started st' d (clk d) (idl d)" if "d \<in> B" for d
  proof -
    have d: "d \<noteq> me" "d < n" "clk d \<noteq> a" "clk d \<noteq> b" "idl d \<noteq> a" "idl d \<noteq> b" using that me(2) B ab(4,5) by auto
    with old that show ?thesis
      by (simp add: cpu_started_def cpus M pending_def is_task_def T cpu_of_def prio_of_def)
  qed
  have "waiting_head (get_sem r st') = None \<and> waiting_tail (get_sem r st') = None" for r
    using new_mailbox_sems [OF _ M st'(4)] tab me(1) by (simp add: tables_ok_def)
  then have tab': "tables_ok n st'"
    using tab by (simp add: tables_ok_def cpus st'(5-8) process_used_def)
  have used': "thread_used st' i \<longleftrightarrow> i = a \<or> i = b \<or> thread_used ?K i" for i
    by (auto simp: thread_used_def T fg new_tcb_def THREAD_NEW_def THREAD_SLOT_EMPTY_def)
  have boxes': "\<not> mailbox_used st' d \<and> \<not> mailbox_used st' (n + d)" if "d < n" "d \<notin> insert me B" for d
    using boxes that me(1) by (simp add: mailbox_used_def M)
  let ?clk = "clk(me := a)" and ?idl = "idl(me := b)"
  have im: "?clk ` insert me B = insert a (clk ` B)" "?idl ` insert me B = insert b (idl ` B)"
    using me(2) by (auto simp: image_iff)
  have "started n (insert me B) ?clk ?idl st'"
    unfolding started_def im
  proof (intro conjI)
    show "\<forall>d \<in> insert me B. cpu_started st' d (?clk d) (?idl d)"
      using started_me started_old me(2) by auto
    show "inj_on ?clk (insert me B)" "inj_on ?idl (insert me B)"
      using inj ab(4,5) me(2) by (auto simp: inj_on_fun_updI image_iff)
    show "insert a (clk ` B) \<inter> insert b (idl ` B) = {}" using inj(3) ab(3-5) by auto
    show "\<forall>i < MAX_THREAD_SLOTS. thread_used st' i = (i \<in> insert a (clk ` B) \<union> insert b (idl ` B))"
      using used(1) unfolding used' by auto
  qed (use tab' B me boxes' used(2) ab in auto)
  with r show ?thesis by auto
qed

end
