(* ===== verification/Startup_Run.thy ===== *)
theory Startup_Run
  imports Startup_Props Kernel_Props
begin

text \<open>
  From the first thread of the first processor to a running kernel: every processor is set up, in
  any order, and from then on the kernel's steps keep its invariant.
\<close>

section \<open>All processors\<close>

lemma setup_in_order_started:
  assumes "started n B clk idl (su_kernel s)" "distinct order" "set order \<subseteq> {..<n} - B"
    "\<not> lock_held (su_process_ready s)"
    "alloc_perms (3 * length order) (sr_kernel_end sr) (su_current s) (su_vm s) = Inr (cur', vm')"
  shows "\<exists>s' clk' idl'. setup_in_order sr order s = Inr s' \<and> started n (B \<union> set order) clk' idl' (su_kernel s')"
  using assms
proof (induction order arbitrary: B clk idl s)
  case Nil
  then show ?case by auto
next
  case (Cons c order)
  have "alloc_perms (3 + 3 * length order) (sr_kernel_end sr) (su_current s) (su_vm s) = Inr (cur', vm')"
    using Cons.prems(5) by (simp only: length_Cons mult_Suc_right)
  then obtain cur1 vm1 where mem: "alloc_perms 3 (sr_kernel_end sr) (su_current s) (su_vm s) = Inr (cur1, vm1)"
    "alloc_perms (3 * length order) (sr_kernel_end sr) cur1 vm1 = Inr (cur', vm')"
    unfolding alloc_perms_add by (auto simp: res_bind_eq_Inr)
  have c: "c < n" "c \<notin> B" using Cons.prems(3) by auto
  from final_setup [OF Cons.prems(1) c Cons.prems(4) mem(1)] obtain s1 clk1 idl1 where
    s1: "final_processor_setup sr c s = Inr s1" "started n (insert c B) clk1 idl1 (su_kernel s1)"
      "su_current s1 = cur1" "su_vm s1 = vm1" "su_process_ready s1 = su_process_ready s" by blast
  have "distinct order" "set order \<subseteq> {..<n} - insert c B" using Cons.prems(2,3) by auto
  from Cons.IH [OF s1(2) this] Cons.prems(4) mem(2) s1(3-5) obtain s' clk' idl' where
    "setup_in_order sr order s1 = Inr s'" "started n (insert c B \<union> set order) clk' idl' (su_kernel s')" by auto
  with s1(1) show ?case by (intro exI [of _ s'] exI [of _ clk'] exI [of _ idl']) simp
qed

section \<open>The view of a started kernel\<close>

definition started_view :: "nat \<Rightarrow> (nat \<Rightarrow> nat) \<Rightarrow> (nat \<Rightarrow> nat) \<Rightarrow> view" where
  "started_view n clk idl =
    \<lparr>v_ready = (\<lambda>c p. if c < n \<and> p = 5 then [idl c] else []), v_running = (\<lambda>c. if c < n then Some (clk c) else None),
     v_waiting = (\<lambda>_. []),
     v_place = (\<lambda>x. if x \<in> clk ` {..<n} then Running (the_inv_into {..<n} clk x)
       else if x \<in> idl ` {..<n} then Ready (the_inv_into {..<n} idl x) 5 else Away)\<rparr>"

lemma started_view_places:
  assumes "inj_on clk {..<n}" "inj_on idl {..<n}" "clk ` {..<n} \<inter> idl ` {..<n} = {}"
  shows "v_place (started_view n clk idl) x = Running c \<longleftrightarrow> c < n \<and> x = clk c"
    "v_place (started_view n clk idl) x = Ready c p \<longleftrightarrow> c < n \<and> p = 5 \<and> x = idl c"
    "v_place (started_view n clk idl) x \<noteq> Away \<longleftrightarrow> x \<in> clk ` {..<n} \<union> idl ` {..<n}"
    "v_place (started_view n clk idl) x \<noteq> Waiting r"
proof -
  have f: "the_inv_into {..<n} clk (clk c) = c" if "c < n" for c using the_inv_into_f_f [OF assms(1)] that by simp
  have g: "the_inv_into {..<n} idl (idl c) = c" if "c < n" for c using the_inv_into_f_f [OF assms(2)] that by simp
  have d: "clk c \<noteq> idl d" if "c < n" "d < n" for c d using assms(3) that by blast
  show "v_place (started_view n clk idl) x = Running c \<longleftrightarrow> c < n \<and> x = clk c"
    using f by (auto simp: started_view_def)
  show "v_place (started_view n clk idl) x = Ready c p \<longleftrightarrow> c < n \<and> p = 5 \<and> x = idl c"
    using g d by (cases "x \<in> clk ` {..<n}"; cases "x \<in> idl ` {..<n}") (auto simp: started_view_def)
  show "v_place (started_view n clk idl) x \<noteq> Away \<longleftrightarrow> x \<in> clk ` {..<n} \<union> idl ` {..<n}"
    "v_place (started_view n clk idl) x \<noteq> Waiting r"
    by (auto simp: started_view_def)
qed

lemma started_inv:
  assumes st: "started n {..<n} clk idl st"
  shows "kernel_inv st (started_view n clk idl)"
proof -
  let ?v = "started_view n clk idl"
  have tab: "tables_ok n st" and inj: "inj_on clk {..<n}" "inj_on idl {..<n}" "clk ` {..<n} \<inter> idl ` {..<n} = {}"
    using st by (simp_all add: started_def)
  have cpu: "cpu_started st c (clk c) (idl c)" if "c < n" for c using st that by (simp add: started_def)
  note pl = started_view_places [OF inj]
  have n: "ncpus st = n" "n \<le> 16" "ipis st = []" using tab by (simp_all add: tables_ok_def)
  have task: "is_task st c 0 (clk c)" "is_task st c 5 (idl c)" "sched c st = busy (clk c) (idl c)" if "c < n" for c
    using cpu [OF that] by (simp_all add: cpu_started_def)
  have "queues st ?v"
    using tab n task
    by (auto simp: queues_def tables_ok_def started_view_def busy_def ready_rep_def wait_rep_def is_task_def)
  moreover have "placed st ?v"
  proof (rule placedI)
    show "x \<in> set (v_ready ?v c p) \<longleftrightarrow> v_place ?v x = Ready c p" for c p x
      unfolding pl by (auto simp: started_view_def)
    show "v_running ?v c = Some x \<longleftrightarrow> v_place ?v x = Running c" for c x
      unfolding pl by (auto simp: started_view_def)
    show "x \<in> set (v_waiting ?v r) \<longleftrightarrow> v_place ?v x = Waiting r" for r x
      using pl(4) by (simp add: started_view_def)
    show "v_place ?v x \<noteq> Away \<Longrightarrow> cpu_of st x < ncpus st \<and> prio_of st x < 8" for x
      unfolding pl using task n by (auto simp: is_task_def)
    show "v_place ?v x = Ready c p \<Longrightarrow> c = cpu_of st x \<and> p = prio_of st x" for c p x
      unfolding pl using task by (auto simp: is_task_def)
    show "v_place ?v x = Running c \<Longrightarrow> c = cpu_of st x \<and> t_next (threads st x) = None" for c x
      unfolding pl using task by (auto simp: is_task_def)
  qed
  moreover have "owned st ?v" unfolding owned_def pl using task by (auto simp: is_task_def)
  moreover have "cpu_boxes st" using tab cpu n by (auto simp: cpu_boxes_def cpu_started_def tables_ok_def)
  moreover have "\<not> pending st c" if "c < n" for c using cpu [OF that] by (simp add: cpu_started_def)
  ultimately show ?thesis by (simp add: kernel_inv_def sys_rep_def n ipis_to_def)
qed

lemma started_known:
  assumes st: "started n {..<n} clk idl st"
  shows "known st (started_view n clk idl) = clk ` {..<n} \<union> idl ` {..<n}" "card (clk ` {..<n} \<union> idl ` {..<n}) = 2 * n"
proof -
  have inj: "inj_on clk {..<n}" "inj_on idl {..<n}" "clk ` {..<n} \<inter> idl ` {..<n} = {}"
    and n: "ncpus st = n"
    using st by (simp_all add: started_def tables_ok_def)
  have "\<not> pending st c" if "c < n" for c using st that by (simp add: started_def cpu_started_def)
  then show "known st (started_view n clk idl) = clk ` {..<n} \<union> idl ` {..<n}"
    using n by (auto simp: known_def started_view_places [OF inj])
  show "card (clk ` {..<n} \<union> idl ` {..<n}) = 2 * n"
    using inj by (simp add: card_Un_disjoint card_image)
qed

section \<open>The tables and the kernel's process\<close>

text \<open>The tables as \<open>create_kernel_process\<close> leaves them: no thread, no processor's mailbox.\<close>

definition fresh_tables :: "nat \<Rightarrow> kstate \<Rightarrow> bool" where
  "fresh_tables n st \<longleftrightarrow> tables_ok n st \<and> (\<forall>i < MAX_THREAD_SLOTS. \<not> thread_used st i) \<and>
     (\<forall>m < 2 * n. \<not> mailbox_used st m)"

lemma fresh_started: "fresh_tables n st \<Longrightarrow> started n {} clk idl st"
  by (simp add: fresh_tables_def started_def)

text \<open>
  What the boot code leaves: the processors' data, no interrupt under way, zeros where the
  semaphores' queues will be.
\<close>

definition booted :: "nat \<Rightarrow> kstate \<Rightarrow> bool" where
  "booted n st \<longleftrightarrow> ncpus st = n \<and> n \<le> 16 \<and> processor_count (gst st) = of_nat n \<and>
     (\<forall>c < n. pc_id (cpus st ! c) = of_nat c) \<and> ipis st = [] \<and>
     (\<forall>r. waiting_head (get_sem r st) = None \<and> waiting_tail (get_sem r st) = None) \<and>
     (\<forall>i. length (p_name (process_slots st i)) = 16)"

lemma get_sem_cleared:
  assumes "mailbox_slots st' = clear_mailboxes (mailbox_slots st)" "other_sems st' = other_sems st"
  shows "waiting_head (get_sem r st') = waiting_head (get_sem r st)" "waiting_tail (get_sem r st') = waiting_tail (get_sem r st)"
  using assms by (cases r; simp add: clear_mailboxes_def)+

lemma kernel_name: "c_string (map of_char ''kernel'' @ [0]) = Some (map of_char ''kernel'' :: u8 list)"
  by simp

lemma create_kernel_process_fresh:
  assumes boot: "booted n (su_kernel s)"
    and mem: "alloc_perms (3712 + m) (sr_kernel_end sr) (su_current s) (su_vm s) = Inr (cur', vm')"
  obtains s1 where "create_kernel_process sr s = Inr s1" "fresh_tables n (su_kernel s1)"
    "\<not> lock_held (su_process_ready s1)" "p_page_directory (process_slots (su_kernel s1) 0) = BSP_dir (gst (su_kernel s))"
    "alloc_perms m (sr_kernel_end sr) (su_current s1) (su_vm s1) = Inr (cur', vm')"
proof -
  let ?K = "su_kernel s" and ?ke = "sr_kernel_end sr"
  have "alloc_perms (Suc 319 + (Suc 1663 + (Suc 1727 + m))) ?ke (su_current s) (su_vm s) = Inr (cur', vm')"
    using mem by (simp del: alloc_perms.simps)
  then obtain c1 v1 c2 v2 c3 v3 where a: "alloc_perms (Suc 319) ?ke (su_current s) (su_vm s) = Inr (c1, v1)"
    "alloc_perms (Suc 1663) ?ke c1 v1 = Inr (c2, v2)" "alloc_perms (Suc 1727) ?ke c2 v2 = Inr (c3, v3)"
    "alloc_perms m ?ke c3 v3 = Inr (cur', vm')"
    unfolding alloc_perms_add by (auto simp: res_bind_eq_Inr simp del: alloc_perms.simps)
  have p: "unat (320 :: u32) = Suc 319" "unat (1664 :: u32) = Suc 1663" "unat (1728 :: u32) = Suc 1727" by simp_all
  note tab = alloc_table_pages [OF table_pages(1) p(1) a(1)] alloc_table_pages [OF table_pages(2) p(2) a(2)]
    alloc_table_pages [OF table_pages(3) p(3) a(3)]
  let ?K1 = "?K\<lparr>ps_lock := 0, ts_lock := 0, process_slots := clear_processes (process_slots ?K),
    thread_slots := clear_threads (thread_slots ?K), ms_lock := 0, mailbox_slots := clear_mailboxes (mailbox_slots ?K)\<rparr>"
  let ?K2 = "upd_process 0 (new_pcb None (BSP_dir (gst ?K)) (map of_char ''kernel'') 0) ?K1"
  have idle: "processes_idle (map of_char ''kernel'' @ [0]) (map of_char ''kernel'') ?K1"
    using boot kernel_name by (simp add: processes_idle_def booted_def clear_processes_def)
  have empty: "\<not> process_used ?K1 0"
    by (simp add: process_used_def clear_processes_def MAX_PROCESS_SLOTS_def PROCESS_SLOT_EMPTY_def)
  have create: "process_create_static None (BSP_dir (gst ?K)) (map of_char ''kernel'' @ [0]) KERNEL_PROCESS_SLOT ?K1 = Inr (Some 0, ?K2)"
    using process_create_static_free [OF idle _ empty, of None "BSP_dir (gst ?K)"]
    by (simp add: KERNEL_PROCESS_SLOT_def MAX_PROCESS_SLOTS_def)
  let ?s1 = "s\<lparr>su_kernel := ?K2, su_current := c3, su_vm := v3, su_process_ready := release_spinlock (su_process_ready s)\<rparr>"
  have run: "create_kernel_process sr s = Inr ?s1"
    using tab create by (simp add: create_kernel_process_def process_init_def mailbox_init_def)
  have "tables_ok n ?K2"
    using boot get_sem_cleared [of ?K2 ?K]
    by (simp add: tables_ok_def booted_def upd_process_def process_used_def new_pcb_def PROCESS_NEW_def PROCESS_SLOT_EMPTY_def)
  moreover have "\<not> thread_used ?K2 i" if "i < MAX_THREAD_SLOTS" for i
    using that by (simp add: thread_used_def upd_process_def clear_threads_def THREAD_SLOT_EMPTY_def)
  moreover have "\<not> mailbox_used ?K2 i" if "i < 2 * n" for i
    using that boot by (simp add: mailbox_used_def upd_process_def clear_mailboxes_def booted_def MAX_MAILBOX_SLOTS_def
      MAILBOX_NONE_def)
  ultimately have "fresh_tables n ?K2" by (simp add: fresh_tables_def)
  then show ?thesis using run a(4) by (intro that [of ?s1]) (simp_all add: upd_process_def new_pcb_def)
qed

section \<open>The kernel starts\<close>

text \<open>The end of the boot: the kernel's process, then every processor in the given order.\<close>

definition start_kernel :: "surroundings \<Rightarrow> nat list \<Rightarrow> startup \<Rightarrow> startup res" where
  "start_kernel sr order s = res_bind (create_kernel_process sr s) (setup_in_order sr order)"


text \<open>One processor, 64 MB, the tables of \<open>vm_machine\<close>.\<close>

definition big_pmem :: phys_mem where
  "big_pmem = \<lparr>phys_mem_memory_size = 65536, phys_mem_used_blocks = 3, phys_mem_max_blocks = 16384,
     phys_mem_bitmap_base = 0x200000, phys_mem_bitmap = (replicate 512 0)[8 := 7], phys_mem_lock = 0\<rparr>"

lemma big_pmem_used: "used_below big_pmem = {256, 257, 258}"
proof -
  have "block_used big_pmem b \<longleftrightarrow> b \<in> {256, 257, 258}" if "b < 16384" for b
  proof (cases "b div 32 = 8")
    case True
    then have "b = 256 + b mod 32" using div_mult_mod_eq [of b 32] by simp
    moreover have "block_used big_pmem b \<longleftrightarrow> b mod 32 < 3"
      using True that bit_seven_u32 [of "b mod 32"] by (simp add: block_used_def big_pmem_def)
    ultimately show ?thesis by auto
  next
    case False
    then have "b \<notin> {256, 257, 258}" by auto
    moreover have "b div 32 < 512" using that by (simp add: div_less_iff_less_mult)
    ultimately show ?thesis using False by (auto simp: block_used_def big_pmem_def nth_list_update)
  qed
  then show ?thesis by (auto simp: used_below_def) (simp_all add: big_pmem_def)
qed

definition boot_machine :: vm_state where
  "boot_machine = vm_machine\<lparr>pmem := big_pmem\<rparr>"

lemma boot_machine_inv: "pt_inv boot_machine"
proof -
  have "pm_ready big_pmem" unfolding pm_ready_def pm_inv_def big_pmem_used by (simp add: big_pmem_def)
  then show ?thesis
    unfolding boot_machine_def by (rule translate_cong_pmem [OF vm_machine_inv(1)]) (simp add: big_pmem_used vm_machine_used)
qed

lemma boot_machine_spare: "card (spare (pmem boot_machine)) = 16125"
proof -
  have "spare big_pmem = {256..<16384} - {256, 257, 258}"
    unfolding spare_def big_pmem_used by (auto simp: big_pmem_def)
  then show ?thesis by (simp add: boot_machine_def)
qed

lemma boot_state_booted: "booted 1 boot_state"
proof -
  have "waiting_head (get_sem r boot_state) = None \<and> waiting_tail (get_sem r boot_state) = None" for r
    by (cases r) (simp_all add: ex_mailbox_def free_sem_def)
  then show ?thesis
    by (simp add: booted_def) (simp add: boot_state_def ex_state_def ex_gst_def ex_cpu_def ex_process_def)
qed

definition boot_startup :: startup where
  "boot_startup = \<lparr>su_kernel = boot_state, su_vm = boot_machine, su_current = 0, su_ready = 1, su_process_ready = 1,
     su_low = (\<lambda>_. 0), su_history = [], su_handlers = (\<lambda>_. None), su_pit = \<lparr>pit_frequency = 0, pit_count = 0\<rparr>, su_reads = 0\<rparr>"

definition boot_surroundings :: surroundings where
  "boot_surroundings = \<lparr>sr_device = (\<lambda>_. 0), sr_counts = (\<lambda>_. 0), sr_kernel_end = 0x402000,
     sr_setup_processor = 0x101000, sr_clock_task = 0x102000, sr_idle = 0x103000, sr_idt = 0x104000\<rparr>"


end
