(* ===== verification/Kernel_Entry.thy ===== *)
theory Kernel_Entry
  imports Kernel_Example
begin

text \<open>
  The tables \<^verbatim>\<open>kernel_entry\<close> sets up for the processors, \<^verbatim>\<open>kernel.c\<close>: the descriptors of the
  shared segments and, for each processor, of its stack segment, its data and its task.
\<close>

unbundle bit_operations_syntax

section \<open>The code\<close>

text \<open>
  The sizes of thread_sched_t, 72 bytes, and of per_cpu_data_t, 204 bytes, with the task
  structure at offset 24.
\<close>

definition sizeof_thread_sched :: u32 where "sizeof_thread_sched = 8 * 4 + 8 * 4 + 4 + 4"
definition sizeof_per_cpu_data :: u32 where "sizeof_per_cpu_data = 6 * 4 + sizeof_tss + sizeof_thread_sched + 4"

text \<open>The table in use until the processors are known, and its register.\<close>

definition setup_dummy_gdt :: "u32 \<Rightarrow> gdt_entry list \<Rightarrow> (gdt_entry list \<times> gdt_ptr) res" where
  "setup_dummy_gdt addr gdt =
     res_bind (gdt_set_gate gdt 0 0 0 0 0) (\<lambda>gdt.
     res_bind (gdt_set_gate gdt 1 0 0xFFFFFFFF (GDT_RW OR GDT_EX) (GDT_SZ OR GDT_GRAN)) (\<lambda>gdt.
     res_bind (gdt_set_gate gdt 2 0 0xFFFFFFFF GDT_RW (GDT_SZ OR GDT_GRAN)) (\<lambda>gdt.
       Inr (gdt, gdtr_install addr 3))))"

definition setup_general_gates :: "gdt_entry list \<Rightarrow> gdt_entry list res" where
  "setup_general_gates gdt =
     res_bind (gdt_set_gate gdt 0 0 0 0 0) (\<lambda>gdt.
     res_bind (gdt_set_gate gdt 1 0 0xFFFFFFFF (GDT_RW OR GDT_EX) (GDT_SZ OR GDT_GRAN)) (\<lambda>gdt.
     res_bind (gdt_set_gate gdt 2 0 0xFFFFFFFF GDT_RW (GDT_SZ OR GDT_GRAN)) (\<lambda>gdt.
     res_bind (gdt_set_gate gdt 3 0 0xFFFFFFFF (GDT_RW OR GDT_EX OR GDT_USER) (GDT_SZ OR GDT_GRAN)) (\<lambda>gdt.
       gdt_set_gate gdt 4 0 0xFFFFFFFF (GDT_RW OR GDT_USER) (GDT_SZ OR GDT_GRAN)))))"

text \<open>One round of the loop for processor \<open>i\<close>; \<open>data\<close> is the address of the processors' data.\<close>

definition setup_cpu_gates :: "u32 \<Rightarrow> u32 \<Rightarrow> gdt_entry list \<Rightarrow> (gdt_entry list \<times> tss_entry) res" where
  "setup_cpu_gates data i gdt =
     (let base = data + i * sizeof_per_cpu_data; tss = base + 24 in
      res_bind (gdt_set_gate gdt (ucast (GDT_SS_ENTRY i)) 0 0xFFFFFFFF GDT_RW GDT_SZ) (\<lambda>gdt.
      res_bind (gdt_set_gate gdt (ucast (GDT_GS_ENTRY i)) base (base + sizeof_per_cpu_data) GDT_RW GDT_SZ) (\<lambda>gdt.
        tss_init_entry gdt tss (ucast (GDT_TSS_ENTRY i)))))"

primrec setup_cpus :: "nat \<Rightarrow> nat \<Rightarrow> u32 \<Rightarrow> gdt_entry list \<times> per_cpu_data list \<Rightarrow>
    (gdt_entry list \<times> per_cpu_data list) res" where
  "setup_cpus 0 i data s = Inr s"
| "setup_cpus (Suc n) i data s =
     res_bind (setup_cpu_gates data (of_nat i) (fst s)) (\<lambda>(gdt, tss).
     res_bind (arr_get (snd s) i) (\<lambda>d.
       setup_cpus n (Suc i) data (gdt, (snd s)[i := d\<lparr>pc_tss_entry := tss\<rparr>])))"

text \<open>The table at \<open>addr\<close>; the answer holds the task register of the first processor.\<close>

definition setup_gdts :: "u32 \<Rightarrow> u32 \<Rightarrow> gst \<Rightarrow> (u32 \<times> gst) res" where
  "setup_gdts data addr g =
     res_bind (setup_general_gates (gst_gdt_entries g)) (\<lambda>gdt.
     res_bind (setup_cpus (unat (processor_count g)) 0 data (gdt, per_cpu_data_base g)) (\<lambda>(gdt, ds).
       Inr (tss_install (ucast (GDT_TSS_ENTRY 0)),
         g\<lparr>gst_gdt_entries := gdt, per_cpu_data_base := ds,
           gst_gdtr := gdtr_install addr (GDT_GENERAL_ENTRIES + GDT_ENTRIES_PER_CPU * processor_count g)\<rparr>)))"

section \<open>Reading the table\<close>

text \<open>What entry \<open>k\<close> says, and the last offset it allows: in units of 4 KB when bit 3 of its flags is set.\<close>

definition gate_at :: "gdt_entry list \<Rightarrow> nat \<Rightarrow> u32 \<times> u32 \<times> u32 \<times> u32" where
  "gate_at gdt k = (case gdt_print_gate gdt (of_nat k) of Inr g \<Rightarrow> g | Inl _ \<Rightarrow> (0, 0, 0, 0))"

definition last_offset :: "u32 \<times> u32 \<times> u32 \<times> u32 \<Rightarrow> nat" where
  "last_offset g = (case g of (base, limit, access, fl) \<Rightarrow>
     if bit fl 3 then unat limit * 4096 + 4095 else unat limit)"

lemma gate_at_entry: "k < length gdt \<Longrightarrow> k < 65536 \<Longrightarrow> gdt ! k = gdt' ! k \<Longrightarrow> k < length gdt' \<Longrightarrow> gate_at gdt k = gate_at gdt' k"
  by (simp add: gate_at_def gdt_print_gate_def unat_of_nat)

lemma set_gate_at:
  assumes "unat num < length gdt"
  shows "\<exists>gdt'. gdt_set_gate gdt num base limit access fl = Inr gdt' \<and> length gdt' = length gdt \<and>
    (\<forall>k. k < length gdt \<longrightarrow> k < 65536 \<longrightarrow> gate_at gdt' k =
      (if k = unat num then (base, limit AND 0xFFFFF, ucast (access OR 0x90), ucast (drop_bit 4 fl)) else gate_at gdt k))"
proof -
  obtain gdt' where g: "gdt_set_gate gdt num base limit access fl = Inr gdt'" "length gdt' = length gdt"
    "\<forall>i. i \<noteq> unat num \<longrightarrow> gdt' ! i = gdt ! i"
    "gdt_print_gate gdt' num = Inr (base, limit AND 0xFFFFF, ucast (access OR 0x90), ucast (drop_bit 4 fl))"
    using gdt_gate_roundtrip [OF assms] by blast
  have "gate_at gdt' (unat num) = (base, limit AND 0xFFFFF, ucast (access OR 0x90), ucast (drop_bit 4 fl))"
    using g(4) by (simp add: gate_at_def)
  with g show ?thesis using gate_at_entry [of _ gdt' gdt] by (intro exI [of _ gdt']) auto
qed

abbreviation start_tss :: tss_entry where
  "start_tss \<equiv> tss_zero\<lparr>tss_cs := 0x0B, tss_ss := 0x13, tss_ds := 0x13, tss_es := 0x13, tss_fs := 0x13, tss_gs := 0x13\<rparr>"

lemma tss_entry_at:
  assumes "unat num < length gdt"
  shows "\<exists>gdt' t. tss_init_entry gdt tss num = Inr (gdt', t) \<and> length gdt' = length gdt \<and>
    t = start_tss \<and>
    (\<forall>k. k < length gdt \<longrightarrow> k < 65536 \<longrightarrow> gate_at gdt' k =
      (if k = unat num then (tss, (tss + 104) AND 0xFFFFF, 0xE9, 0) else gate_at gdt k))"
proof -
  obtain gdt' t where g: "tss_init_entry gdt tss num = Inr (gdt', t)" "gdt_print_gate gdt' num = Inr (tss, (tss + 104) AND 0xFFFFF, 0xE9, 0)"
    using gdt_gate_roundtrip [OF assms] by blast
  have "length gdt' = length gdt" "\<forall>i. i \<noteq> unat num \<longrightarrow> gdt' ! i = gdt ! i"
    "t = start_tss"
    using g(1) assms by (auto simp: tss_init_entry_def Let_def)
  moreover have "gate_at gdt' (unat num) = (tss, (tss + 104) AND 0xFFFFF, 0xE9, 0)"
    using g(2) by (simp add: gate_at_def)
  ultimately show ?thesis using g(1) gate_at_entry [of _ gdt' gdt] by (intro exI [of _ gdt'] exI [of _ t]) auto
qed

section \<open>The loop over the processors\<close>

definition cpu_base :: "u32 \<Rightarrow> nat \<Rightarrow> u32" where
  "cpu_base data c = data + of_nat c * 204"

text \<open>The three entries of processor \<open>c\<close>.\<close>

definition cpu_gates :: "u32 \<Rightarrow> nat \<Rightarrow> gdt_entry list \<Rightarrow> bool" where
  "cpu_gates data c gdt \<longleftrightarrow>
     gate_at gdt (5 + 3 * c) = (0, 0xFFFFF, 0x92, 4) \<and>
     gate_at gdt (6 + 3 * c) = (cpu_base data c, (cpu_base data c + 204) AND 0xFFFFF, 0x92, 4) \<and>
     gate_at gdt (7 + 3 * c) = (cpu_base data c + 24, (cpu_base data c + 128) AND 0xFFFFF, 0xE9, 0)"

lemma entry_numbers:
  assumes "c < 256"
  shows "unat (ucast (GDT_SS_ENTRY (of_nat c)) :: u16) = 5 + 3 * c"
    "unat (ucast (GDT_GS_ENTRY (of_nat c)) :: u16) = 6 + 3 * c"
    "unat (ucast (GDT_TSS_ENTRY (of_nat c)) :: u16) = 7 + 3 * c"
proof -
  have e: "GDT_SS_ENTRY (of_nat c) = of_nat (5 + 3 * c)" "GDT_GS_ENTRY (of_nat c) = of_nat (6 + 3 * c)"
    "GDT_TSS_ENTRY (of_nat c) = of_nat (7 + 3 * c)"
    by (simp_all add: GDT_SS_ENTRY_def GDT_GS_ENTRY_def GDT_TSS_ENTRY_def GDT_GENERAL_ENTRIES_def GDT_ENTRIES_PER_CPU_def)
  have u: "unat (ucast (of_nat k :: u32) :: u16) = k" if "k < 65536" for k
    using that by (simp add: unsigned_ucast_eq unat_of_nat take_bit_eq_mod)
  show "unat (ucast (GDT_SS_ENTRY (of_nat c)) :: u16) = 5 + 3 * c"
    "unat (ucast (GDT_GS_ENTRY (of_nat c)) :: u16) = 6 + 3 * c"
    "unat (ucast (GDT_TSS_ENTRY (of_nat c)) :: u16) = 7 + 3 * c"
    unfolding e using assms by (simp_all only: u)
qed

lemma setup_cpu_gates_ok:
  assumes c: "c < 256" "5 + 3 * Suc c \<le> length gdt"
  shows "\<exists>gdt' t. setup_cpu_gates data (of_nat c) gdt = Inr (gdt', t) \<and> length gdt' = length gdt \<and>
    t = start_tss \<and>
    cpu_gates data c gdt' \<and>
    (\<forall>k < length gdt. k < 65536 \<longrightarrow> k \<notin> {5 + 3 * c, 6 + 3 * c, 7 + 3 * c} \<longrightarrow> gate_at gdt' k = gate_at gdt k)"
proof -
  note n = entry_numbers [OF c(1)]
  have size: "sizeof_per_cpu_data = 204" by (simp add: sizeof_per_cpu_data_def sizeof_thread_sched_def sizeof_tss_def)
  have fl: "(ucast (GDT_RW OR 0x90) :: u32) = 0x92" "(ucast (drop_bit 4 GDT_SZ) :: u32) = 4"
    "(0xFFFFFFFF AND 0xFFFFF :: u32) = 0xFFFFF"
    by (simp_all add: GDT_RW_def GDT_SZ_def)
  let ?b = "cpu_base data c"
  have "unat (ucast (GDT_SS_ENTRY (of_nat c)) :: u16) < length gdt" using c(2) by (simp add: n)
  then obtain g1 where g1: "gdt_set_gate gdt (ucast (GDT_SS_ENTRY (of_nat c))) 0 0xFFFFFFFF GDT_RW GDT_SZ = Inr g1"
    "length g1 = length gdt" "\<And>k. k < length gdt \<Longrightarrow> k < 65536 \<Longrightarrow> gate_at g1 k = (if k = 5 + 3 * c then (0, 0xFFFFF, 0x92, 4) else gate_at gdt k)"
    using set_gate_at [of "ucast (GDT_SS_ENTRY (of_nat c))" gdt 0 "0xFFFFFFFF" GDT_RW GDT_SZ] unfolding fl n by blast
  have "unat (ucast (GDT_GS_ENTRY (of_nat c)) :: u16) < length g1" using c(2) g1(2) by (simp add: n)
  then obtain g2 where g2: "gdt_set_gate g1 (ucast (GDT_GS_ENTRY (of_nat c))) ?b (?b + 204) GDT_RW GDT_SZ = Inr g2"
    "length g2 = length g1" "\<And>k. k < length g1 \<Longrightarrow> k < 65536 \<Longrightarrow> gate_at g2 k =
      (if k = 6 + 3 * c then (?b, (?b + 204) AND 0xFFFFF, 0x92, 4) else gate_at g1 k)"
    using set_gate_at [of "ucast (GDT_GS_ENTRY (of_nat c))" g1 ?b "?b + 204" GDT_RW GDT_SZ] unfolding fl n by blast
  have "unat (ucast (GDT_TSS_ENTRY (of_nat c)) :: u16) < length g2" using c(2) g1(2) g2(2) by (simp add: n)
  then obtain g3 t where g3: "tss_init_entry g2 (?b + 24) (ucast (GDT_TSS_ENTRY (of_nat c))) = Inr (g3, t)"
    "length g3 = length g2"
    "t = start_tss"
    "\<And>k. k < length g2 \<Longrightarrow> k < 65536 \<Longrightarrow> gate_at g3 k =
      (if k = 7 + 3 * c then (?b + 24, (?b + 24 + 104) AND 0xFFFFF, 0xE9, 0) else gate_at g2 k)"
    using tss_entry_at [of "ucast (GDT_TSS_ENTRY (of_nat c))" g2 "?b + 24"] unfolding n by blast
  have run: "setup_cpu_gates data (of_nat c) gdt = Inr (g3, t)"
    using g1(1) g2(1) g3(1) by (simp add: setup_cpu_gates_def size cpu_base_def Let_def)
  have at: "gate_at g3 k = (if k = 5 + 3 * c then (0, 0xFFFFF, 0x92, 4) else if k = 6 + 3 * c then (?b, (?b + 204) AND 0xFFFFF, 0x92, 4)
      else if k = 7 + 3 * c then (?b + 24, (?b + 24 + 104) AND 0xFFFFF, 0xE9, 0) else gate_at gdt k)"
    if "k < length gdt" "k < 65536" for k
    using that g1(2,3) g2(2,3) g3(2,4) by simp
  have "cpu_gates data c g3" using c at by (simp add: cpu_gates_def add.commute)
  moreover have "length g3 = length gdt" using g1(2) g2(2) g3(2) by simp
  ultimately show ?thesis using run g3(3) at by (intro exI [of _ g3] exI [of _ t]) simp
qed

lemma setup_cpus_ok:
  assumes "i + n \<le> 256" "5 + 3 * (i + n) \<le> length gdt" "i + n \<le> length ds"
  shows "\<exists>gdt' ds'. setup_cpus n i data (gdt, ds) = Inr (gdt', ds') \<and> length gdt' = length gdt \<and> length ds' = length ds \<and>
    (\<forall>c. i \<le> c \<longrightarrow> c < i + n \<longrightarrow> cpu_gates data c gdt' \<and> ds' ! c = (ds ! c)\<lparr>pc_tss_entry := start_tss\<rparr>) \<and>
    (\<forall>c < i. ds' ! c = ds ! c) \<and>
    (\<forall>k < 5 + 3 * i. gate_at gdt' k = gate_at gdt k)"
  using assms
proof (induction n arbitrary: i gdt ds)
  case 0
  then show ?case by simp
next
  case (Suc n)
  have "i < 256" "5 + 3 * Suc i \<le> length gdt" using Suc.prems by simp_all
  from setup_cpu_gates_ok [OF this] obtain g1 where
    g1: "setup_cpu_gates data (of_nat i) gdt = Inr (g1, start_tss)" "length g1 = length gdt" "cpu_gates data i g1"
      "\<And>k. k < length gdt \<Longrightarrow> k < 65536 \<Longrightarrow> k \<notin> {5 + 3 * i, 6 + 3 * i, 7 + 3 * i} \<Longrightarrow> gate_at g1 k = gate_at gdt k" by blast
  let ?ds = "ds[i := (ds ! i)\<lparr>pc_tss_entry := start_tss\<rparr>]"
  have "Suc i + n \<le> 256" "5 + 3 * (Suc i + n) \<le> length g1" "Suc i + n \<le> length ?ds" using Suc.prems g1(2) by simp_all
  from Suc.IH [OF this] obtain g2 ds' where
    g2: "setup_cpus n (Suc i) data (g1, ?ds) = Inr (g2, ds')" "length g2 = length g1" "length ds' = length ?ds"
      "\<And>c. Suc i \<le> c \<Longrightarrow> c < Suc i + n \<Longrightarrow> cpu_gates data c g2 \<and> ds' ! c = (?ds ! c)\<lparr>pc_tss_entry := start_tss\<rparr>"
      "\<And>c. c < Suc i \<Longrightarrow> ds' ! c = ?ds ! c" "\<And>k. k < 5 + 3 * Suc i \<Longrightarrow> gate_at g2 k = gate_at g1 k" by blast
  have run: "setup_cpus (Suc n) i data (gdt, ds) = Inr (g2, ds')" using g1(1) g2(1) Suc.prems by simp
  have "cpu_gates data i g2" using g1(3) g2(6) by (simp add: cpu_gates_def)
  moreover have "ds' ! i = (ds ! i)\<lparr>pc_tss_entry := start_tss\<rparr>" using g2(5) [of i] Suc.prems by simp
  moreover have "gate_at g2 k = gate_at gdt k" if "k < 5 + 3 * i" for k
    using g2(6) [of k] g1(4) [of k] that Suc.prems by simp
  moreover have "cpu_gates data c g2 \<and> ds' ! c = (ds ! c)\<lparr>pc_tss_entry := start_tss\<rparr>" if "i < c" "c < i + Suc n" for c
    using g2(4) [of c] that by simp
  moreover have "ds' ! c = ds ! c" if "c < i" for c using g2(5) [of c] that by simp
  ultimately show ?case
    using run g1(2) g2(2,3) by (intro exI [of _ g2] exI [of _ ds']) (auto simp: le_less)
qed

lemma general_gates_ok:
  assumes "5 \<le> length gdt"
  shows "\<exists>gdt'. setup_general_gates gdt = Inr gdt' \<and> length gdt' = length gdt \<and>
    gate_at gdt' 1 = (0, 0xFFFFF, 0x9A, 0xC) \<and> gate_at gdt' 2 = (0, 0xFFFFF, 0x92, 0xC) \<and>
    gate_at gdt' 3 = (0, 0xFFFFF, 0xFA, 0xC) \<and> gate_at gdt' 4 = (0, 0xFFFFF, 0xF2, 0xC)"
proof -
  let ?f = "GDT_SZ OR GDT_GRAN"
  have fl: "(ucast ((GDT_RW OR GDT_EX) OR 0x90) :: u32) = 0x9A" "(ucast (GDT_RW OR 0x90) :: u32) = 0x92"
    "(ucast ((GDT_RW OR GDT_EX OR GDT_USER) OR 0x90) :: u32) = 0xFA" "(ucast ((GDT_RW OR GDT_USER) OR 0x90) :: u32) = 0xF2"
    "(ucast (drop_bit 4 ?f) :: u32) = 0xC" "(0xFFFFFFFF AND 0xFFFFF :: u32) = 0xFFFFF"
    by (simp_all add: GDT_RW_def GDT_EX_def GDT_USER_def GDT_SZ_def GDT_GRAN_def)
  obtain g0 where g0: "gdt_set_gate gdt 0 0 0 0 0 = Inr g0" "length g0 = length gdt"
    using set_gate_at [of 0 gdt 0 0 0 0] assms by fastforce
  obtain g1 where g1: "gdt_set_gate g0 1 0 0xFFFFFFFF (GDT_RW OR GDT_EX) ?f = Inr g1" "length g1 = length g0"
    "gate_at g1 1 = (0, 0xFFFFF, 0x9A, 0xC)"
    using set_gate_at [of 1 g0 0 "0xFFFFFFFF" "GDT_RW OR GDT_EX" ?f] assms g0(2) unfolding fl by auto
  obtain g2 where g2: "gdt_set_gate g1 2 0 0xFFFFFFFF GDT_RW ?f = Inr g2" "length g2 = length g1"
    "gate_at g2 1 = (0, 0xFFFFF, 0x9A, 0xC)" "gate_at g2 2 = (0, 0xFFFFF, 0x92, 0xC)"
    using set_gate_at [of 2 g1 0 "0xFFFFFFFF" GDT_RW ?f] assms g0(2) g1(2,3) unfolding fl by auto
  obtain g3 where g3: "gdt_set_gate g2 3 0 0xFFFFFFFF (GDT_RW OR GDT_EX OR GDT_USER) ?f = Inr g3" "length g3 = length g2"
    "gate_at g3 1 = (0, 0xFFFFF, 0x9A, 0xC)" "gate_at g3 2 = (0, 0xFFFFF, 0x92, 0xC)" "gate_at g3 3 = (0, 0xFFFFF, 0xFA, 0xC)"
    using set_gate_at [of 3 g2 0 "0xFFFFFFFF" "GDT_RW OR GDT_EX OR GDT_USER" ?f] assms g0(2) g1(2) g2(2-4) unfolding fl by auto
  obtain g4 where g4: "gdt_set_gate g3 4 0 0xFFFFFFFF (GDT_RW OR GDT_USER) ?f = Inr g4" "length g4 = length g3"
    "gate_at g4 1 = (0, 0xFFFFF, 0x9A, 0xC)" "gate_at g4 2 = (0, 0xFFFFF, 0x92, 0xC)" "gate_at g4 3 = (0, 0xFFFFF, 0xFA, 0xC)"
    "gate_at g4 4 = (0, 0xFFFFF, 0xF2, 0xC)"
    using set_gate_at [of 4 g3 0 "0xFFFFFFFF" "GDT_RW OR GDT_USER" ?f] assms g0(2) g1(2) g2(2) g3(2-5) unfolding fl by auto
  show ?thesis
    using g0 g1(1,2) g2(1,2) g3(1,2) g4 by (intro exI [of _ g4]) (simp add: setup_general_gates_def)
qed

section \<open>Properties\<close>

text \<open>
  C14. With room for five entries and three per processor, at most 256 of them, the table set up
  at boot holds flat code and data segments for the kernel and, at the selectors new user threads
  get, for the user; for every processor a stack segment, a segment that begins at its data, and
  its task structure, cleared.  The register covers the table.  But the stack segment, without
  the granularity flag, ends at 1 MB, below every stack that \<open>phys_mem_alloc_above_1mb\<close> gives.
\<close>

theorem setup_gdts_spec:
  assumes "unat (processor_count g) \<le> 256" "length (gst_gdt_entries g) = 5 + 3 * unat (processor_count g)"
    "length (per_cpu_data_base g) = unat (processor_count g)"
  shows "\<exists>g'. setup_gdts data addr g = Inr (0x3B, g') \<and>
    gate_at (gst_gdt_entries g') 1 = (0, 0xFFFFF, 0x9A, 0xC) \<and> gate_at (gst_gdt_entries g') 2 = (0, 0xFFFFF, 0x92, 0xC) \<and>
    gate_at (gst_gdt_entries g') (unat GDT_USER_CS div 8) = (0, 0xFFFFF, 0xFA, 0xC) \<and>
    gate_at (gst_gdt_entries g') (unat GDT_USER_DS div 8) = (0, 0xFFFFF, 0xF2, 0xC) \<and>
    (\<forall>c < unat (processor_count g). cpu_gates data c (gst_gdt_entries g') \<and>
       last_offset (gate_at (gst_gdt_entries g') (5 + 3 * c)) < 0x100000 \<and>
       per_cpu_data_base g' ! c = (per_cpu_data_base g ! c)\<lparr>pc_tss_entry := start_tss\<rparr>) \<and>
    unat (gdtr_limit (gst_gdtr g')) + 1 = 8 * length (gst_gdt_entries g')"
proof -
  let ?n = "unat (processor_count g)"
  obtain g1 where g1: "setup_general_gates (gst_gdt_entries g) = Inr g1" "length g1 = length (gst_gdt_entries g)"
    "gate_at g1 1 = (0, 0xFFFFF, 0x9A, 0xC)" "gate_at g1 2 = (0, 0xFFFFF, 0x92, 0xC)"
    "gate_at g1 3 = (0, 0xFFFFF, 0xFA, 0xC)" "gate_at g1 4 = (0, 0xFFFFF, 0xF2, 0xC)"
    using general_gates_ok [of "gst_gdt_entries g"] assms(2) by auto
  have "0 + ?n \<le> 256" "5 + 3 * (0 + ?n) \<le> length g1" "0 + ?n \<le> length (per_cpu_data_base g)"
    using assms g1(2) by simp_all
  from setup_cpus_ok [OF this, of data] obtain g2 ds where
    g2: "setup_cpus ?n 0 data (g1, per_cpu_data_base g) = Inr (g2, ds)" "length g2 = length g1"
      "\<And>c. c < ?n \<Longrightarrow> cpu_gates data c g2 \<and> ds ! c = (per_cpu_data_base g ! c)\<lparr>pc_tss_entry := start_tss\<rparr>"
      "\<And>k. k < 5 \<Longrightarrow> gate_at g2 k = gate_at g1 k" by auto
  have tr: "tss_install (ucast (GDT_TSS_ENTRY 0)) = 0x3B"
    by (simp add: tss_install_def GDT_TSS_ENTRY_def GDT_GENERAL_ENTRIES_def GDT_ENTRIES_PER_CPU_def)
  have "unat (GDT_GENERAL_ENTRIES + GDT_ENTRIES_PER_CPU * processor_count g) = 5 + 3 * ?n"
    using assms(1) by (simp add: GDT_GENERAL_ENTRIES_def GDT_ENTRIES_PER_CPU_def unat_word_ariths)
  then have lim: "unat (gdtr_limit (gdtr_install addr (GDT_GENERAL_ENTRIES + GDT_ENTRIES_PER_CPU * processor_count g))) + 1 = 8 * (5 + 3 * ?n)"
  proof -
    assume e: "unat (GDT_GENERAL_ENTRIES + GDT_ENTRIES_PER_CPU * processor_count g) = 5 + 3 * ?n"
    let ?e = "GDT_GENERAL_ENTRIES + GDT_ENTRIES_PER_CPU * processor_count g"
    have e8: "unat (?e * 8) = 8 * (5 + 3 * ?n)" using e assms(1) by (subst unat_word_ariths) simp
    then have "?e * 8 \<noteq> 0" by auto
    then have "unat (?e * 8 - 1) = 8 * (5 + 3 * ?n) - 1" using e8 by (simp add: unat_minus_one)
    then have "unat (ucast (?e * 8 - 1) :: u16) = 8 * (5 + 3 * ?n) - 1"
      using assms(1) by (simp add: unsigned_ucast_eq take_bit_eq_mod del: distrib_right_numeral)
    then show ?thesis by (simp add: gdtr_install_def del: distrib_right_numeral)
  qed
  have user: "unat GDT_USER_CS div 8 = 3" "unat GDT_USER_DS div 8 = 4" by (simp_all add: GDT_USER_CS_def GDT_USER_DS_def)
  have "last_offset (gate_at g2 (5 + 3 * c)) < 0x100000" if "c < ?n" for c
    using g2(3) [OF that] by (simp add: cpu_gates_def last_offset_def)
  then show ?thesis
    using g1 g2 tr lim assms(2) by (simp add: setup_gdts_def user)
qed

theorem setup_gdts_spec_witness:
  "\<exists>g'. setup_gdts 0x108000 0x108200 (ex_gst\<lparr>gst_gdt_entries := replicate 8
      \<lparr>gdt_limit_low = 0, gdt_base_low = 0, gdt_base_middle = 0, gdt_access = 0, gdt_flags = 0, gdt_base_high = 0\<rparr>\<rparr>) = Inr (0x3B, g') \<and>
    gate_at (gst_gdt_entries g') 6 = (0x108000, 0x80CC, 0x92, 4)"
proof -
  let ?g = "ex_gst\<lparr>gst_gdt_entries := replicate 8
      \<lparr>gdt_limit_low = 0, gdt_base_low = 0, gdt_base_middle = 0, gdt_access = 0, gdt_flags = 0, gdt_base_high = 0\<rparr>\<rparr>"
  have "unat (processor_count ?g) \<le> 256" "length (gst_gdt_entries ?g) = 5 + 3 * unat (processor_count ?g)"
    "length (per_cpu_data_base ?g) = unat (processor_count ?g)" "unat (processor_count ?g) = 1"
    by (simp_all add: ex_gst_def)
  from setup_gdts_spec [OF this(1-3), of "0x108000" "0x108200"] this(4) obtain g' where
    "setup_gdts 0x108000 0x108200 ?g = Inr (0x3B, g')" "cpu_gates 0x108000 0 (gst_gdt_entries g')" by auto
  then show ?thesis by (intro exI [of _ g']) (simp add: cpu_gates_def cpu_base_def)
qed

end
