(* ===== verification/Boot_Heap.thy ===== *)
theory Boot_Heap
  imports Kernel_Entry Heap_Props
begin

text \<open>
  The heap \<^verbatim>\<open>kernel_entry\<close> creates in one page, and the two tables it takes from it: the
  processors' data and the segment descriptors.
\<close>

section \<open>The code\<close>

text \<open>\<open>page\<close> is the address \<^verbatim>\<open>phys_mem_alloc_above_1mb\<close> answered, \<open>n\<close> the number of processors found.\<close>

definition alloc_processor_tables :: "u32 \<Rightarrow> u32 \<Rightarrow> memory \<Rightarrow> (u32 \<times> u32 \<times> u32 \<times> memory) res" where
  "alloc_processor_tables page n m =
     (let (kheap, m) = heap_create page 4096 m in
      res_bind (heap_alloc_a kheap (n * sizeof_per_cpu_data) 4 m) (\<lambda>(data, m).
      if data = 0 then Inl (Panic ''per cpu data heap allocation failed'')
      else
        res_bind (heap_alloc_a kheap ((GDT_GENERAL_ENTRIES + GDT_ENTRIES_PER_CPU * n) * 8) 4 m) (\<lambda>(gdt, m).
        if gdt = 0 then Inl (Panic ''gdt entries heap allocation failed'')
        else Inr (kheap, data, gdt, m))))"

section \<open>Aligned allocation\<close>

lemma heap_alloc_a_four:
  assumes "heap_alloc h (r + 8) m = Some (p, m1)" "unat p mod 4 = 0" "unat p + 4 < 4294967296"
  shows "heap_alloc_a h r 4 m = Inr (p + 4, store32 m1 p 0)"
proof -
  have "unat ((p + 4) mod 4) = 0" using assms(2,3) by (simp add: unat_mod unat_word_ariths)
  then have "(p + 4) mod 4 = 0" by (simp add: unat_eq_0)
  moreover have "r + 4 + 4 = r + 8" by simp
  ultimately show ?thesis using assms(1) by (simp only: heap_alloc_a_def) (simp add: Let_def)
qed

lemma heap_ok_below:
  assumes ok: "heap_ok m h s e bs" and h: "4 \<le> unat h"
  shows "heap_ok (store32 m 0 w) h s e bs"
proof -
  have o: "only_in m (store32 m 0 w) {0..<4}" using only_in_store32 [of 0 m w] by simp
  have b: "unat h + 12 \<le> s" "s + span bs = e" "e < 4294967296" using heap_ok_bounds [OF ok] by simp_all
  have "master (store32 m 0 w) h s e (length bs) = master m h s e (length bs)"
    by (rule master_frame [OF o]) (use h b in auto)
  moreover have "linked (store32 m 0 w) s bs 0 = linked m s bs 0"
    by (rule linked_frame [OF o]) (use h b in auto)
  ultimately show ?thesis using ok by (simp add: heap_ok_def chain_def)
qed

text \<open>One request from a heap whose free memory is its last block, behind the blocks \<open>bs\<close> in use.\<close>

lemma alloc_blocks_used: "\<forall>b \<in> set bs. fst b \<Longrightarrow> alloc_blocks r a (bs @ cs) =
  (let (p, cs') = alloc_blocks r (a + span bs) cs in (p, bs @ cs'))"
  by (induction bs arbitrary: a) (auto simp: case_prod_unfold Let_def add.assoc)

lemma alloc_last:
  assumes ok: "heap_ok m h s e (bs @ [(False, k)])" and used: "\<forall>b \<in> set bs. fst b" and h: "4 \<le> unat h"
    and al: "s mod 4 = 0" "span bs mod 4 = 0" and r: "unat r + 8 < k"
  shows "\<exists>m'. heap_alloc_a h r 4 m = Inr (of_nat (s + span bs + 12), m') \<and>
    (if unat r + 16 < k then heap_ok m' h s e ((bs @ [(True, unat r + 8)]) @ [(False, k - 16 - unat r)])
     else heap_ok m' h s e (bs @ [(True, k)]))"
proof -
  have b: "unat h + 12 \<le> s" "s + span bs + 8 + k = e" "e < 4294967296"
    using heap_ok_bounds [OF ok] by (simp_all add: span_append)
  have r8: "unat (r + 8) = unat r + 8" using r b by (simp add: unat_word_ariths)
  have "fst (alloc_blocks (unat (r + 8)) s (bs @ [(False, k)])) = Some (s + span bs + 8)"
    "snd (alloc_blocks (unat (r + 8)) s (bs @ [(False, k)])) = bs @ split_block (unat r + 8) k"
    using r by (simp_all add: alloc_blocks_used [OF used] r8 Let_def)
  moreover have "r + 8 \<noteq> 0" using r8 by auto
  ultimately obtain m1 where m1: "heap_alloc h (r + 8) m = Some (of_nat (s + span bs + 8), m1)"
    "heap_ok m1 h s e (bs @ split_block (unat r + 8) k)"
    using heap_alloc_ok [OF ok, of "r + 8"] by auto
  let ?p = "s + span bs + 8"
  have p: "unat (of_nat ?p :: u32) = ?p" using b by (intro unat_of_nat_u32) simp
  have four: "?p mod 4 = 0" using al by presburger
  have eq: "heap_alloc_a h r 4 m = Inr (of_nat ?p + 4, store32 m1 (of_nat ?p) 0)"
    by (rule heap_alloc_a_four [OF m1(1)]) (use p four b r in auto)
  have pay: "\<exists>j. 8 \<le> j \<and> (?p, j) \<in> set (payloads s (bs @ split_block (unat r + 8) k))"
    using r by (intro exI [of _ "if unat r + 16 < k then unat r + 8 else k"]) (simp add: payloads_append split_block_def)
  then obtain j where j: "8 \<le> j" "(?p, j) \<in> set (payloads s (bs @ split_block (unat r + 8) k))" by blast
  have "only_in m1 (store32 m1 (of_nat ?p) 0) {?p..<?p + j}"
    by (rule only_in_mono [OF only_in_store32]) (use b r j in auto)
  from heap_ok_payload_write [OF m1(2) j(2) this] show ?thesis
    using eq by (auto simp: split_block_def add.assoc)
qed

text \<open>A request that is too large gets the address 4, and a word at address 0 is written.\<close>

lemma alloc_too_large:
  assumes ok: "heap_ok m h s e [(False, k)]" and h: "4 \<le> unat h" and r: "k < unat r + 8" "unat r + 8 < 4294967296"
  shows "\<exists>m'. heap_alloc_a h r 4 m = Inr (4, m') \<and> heap_ok m' h s e [(False, k)]"
proof -
  have r8: "unat (r + 8) = unat r + 8" using r(2) by (simp add: unat_word_ariths)
  then have "r + 8 \<noteq> 0" by auto
  then obtain m1 where m1: "heap_alloc h (r + 8) m = Some (0, m1)" "heap_ok m1 h s e [(False, k)]"
    using heap_alloc_ok [OF ok, of "r + 8"] r(1) r8 by auto
  have "heap_alloc_a h r 4 m = Inr (0 + 4, store32 m1 0 0)" by (rule heap_alloc_a_four [OF m1(1)]) simp_all
  with heap_ok_below [OF m1(2) h] show ?thesis by auto
qed

lemma alloc_behind_too_large:
  assumes ok: "heap_ok m h s e [(True, j), (False, k)]" and r: "k < unat r + 8" "unat r + 8 < 4294967296"
  shows "\<exists>m'. heap_alloc_a h r 4 m = Inr (4, m')"
proof -
  have r8: "unat (r + 8) = unat r + 8" using r(2) by (simp add: unat_word_ariths)
  then have "r + 8 \<noteq> 0" by auto
  then obtain m1 where m1: "heap_alloc h (r + 8) m = Some (0, m1)"
    using heap_alloc_ok [OF ok, of "r + 8"] r(1) r8 by auto
  have "heap_alloc_a h r 4 m = Inr (0 + 4, store32 m1 0 0)" by (rule heap_alloc_a_four [OF m1]) simp_all
  then show ?thesis by simp
qed

lemma alloc_a_returns:
  assumes "heap_ok m h s e bs"
  shows "\<exists>a m'. heap_alloc_a h r 4 m = Inr (a, m')"
  using heap_alloc_ok [OF assms, of "r + 4 + 4"] by (auto simp: heap_alloc_a_def Let_def)

section \<open>Both tables\<close>

lemma processor_tables:
  assumes page: "0 < unat page" "unat page mod 4096 = 0" "unat page + 4096 < 4294967296" and n: "0 < unat n" "unat n \<le> 256"
  shows "\<exists>data gdt m'. alloc_processor_tables page n m = Inr (page, data, gdt, m') \<and>
    (if unat n \<le> 17
     then unat page \<le> unat data \<and> unat data mod 4 = 0 \<and> unat data + 204 * unat n \<le> unat gdt \<and> unat gdt mod 4 = 0 \<and>
       unat gdt + 8 * (5 + 3 * unat n) \<le> unat page + 4096
     else data = 4 \<or> gdt = 4)"
proof -
  let ?b = "unat page" and ?s = "unat page + 12" and ?e = "unat page + 4096"
  have nz: "page \<noteq> 0" using page(1) by auto
  obtain q where q: "?b = 4096 * q" using page(2) by blast
  have "?s = 4 * (1024 * q + 3)" "?b = 4 * (1024 * q)" using q by simp_all
  then have m4: "?s mod 4 = 0" "?b mod 4 = 0" by (metis mod_mult_self1_is_0)+
  have h4: "4 \<le> unat page" using q page(1) by simp
  obtain m0 where m0: "heap_create page 4096 m = (page, m0)" "heap_ok m0 page ?s ?e ([] @ [(False, 4076)])"
    using heap_create_ok [OF nz, of 4096 m] page(3) by auto
  define r1 where "r1 = n * sizeof_per_cpu_data"
  define r2 where "r2 = (GDT_GENERAL_ENTRIES + GDT_ENTRIES_PER_CPU * n) * 8"
  have "r1 = of_nat (204 * unat n)" "r2 = of_nat (8 * (5 + 3 * unat n))"
    by (simp_all add: r1_def r2_def sizeof_per_cpu_data_def sizeof_thread_sched_def sizeof_tss_def GDT_GENERAL_ENTRIES_def
        GDT_ENTRIES_PER_CPU_def)
  moreover have "unat (of_nat (204 * unat n) :: u32) = 204 * unat n"
    "unat (of_nat (8 * (5 + 3 * unat n)) :: u32) = 8 * (5 + 3 * unat n)"
    using n by (intro unat_of_nat_u32; simp)+
  ultimately have u1: "unat r1 = 204 * unat n" and u2: "unat r2 = 8 * (5 + 3 * unat n)" by (simp_all only:)
  have code: "alloc_processor_tables page n m = Inr (page, d, g, m2)"
    if "heap_alloc_a page r1 4 m0 = Inr (d, m1)" "d \<noteq> 0" "heap_alloc_a page r2 4 m1 = Inr (g, m2)" "g \<noteq> 0" for d g m1 m2
    unfolding alloc_processor_tables_def r1_def [symmetric] r2_def [symmetric] using that m0(1) by simp
  have at: "unat (of_nat k :: u32) = k" "(of_nat k :: u32) \<noteq> 0" if "0 < k" "k < 4294967296" for k
    using unat_of_nat_u32 [OF that(2)] that(1) by (auto simp: unat_eq_0 [symmetric])
  show ?thesis
  proof (cases "unat n < 20")
    case True
    then have fit: "unat r1 + 8 < 4076" "unat r1 + 16 < 4076" using u1 by simp_all
    have a1: "span [] mod 4 = (0::nat)" "\<forall>b \<in> set ([] :: blocks). fst b" by simp_all
    obtain m1 where m1: "heap_alloc_a page r1 4 m0 = Inr (of_nat (?s + 12), m1)"
      "heap_ok m1 page ?s ?e ([(True, unat r1 + 8)] @ [(False, 4060 - unat r1)])"
      using alloc_last [OF m0(2) a1(2) h4 m4(1) a1(1) fit(1)] fit(2) by auto
    have d: "unat (of_nat (?s + 12) :: u32) = ?s + 12" "(of_nat (?s + 12) :: u32) \<noteq> 0"
      using page(3) at [of "?s + 12"] by simp_all
    show ?thesis
    proof (cases "unat n \<le> 17")
      case True
      have a2: "span [(True, unat r1 + 8)] mod 4 = 0" "\<forall>b \<in> set [(True, unat r1 + 8)]. fst b" unfolding u1 by simp_all
      have f2: "unat r2 + 8 < 4060 - unat r1" using True u1 u2 by simp
      obtain m2 where m2: "heap_alloc_a page r2 4 m1 = Inr (of_nat (?s + span [(True, unat r1 + 8)] + 12), m2)"
        using alloc_last [OF m1(2) a2(2) h4 m4(1) a2(1) f2] by blast
      let ?g = "?s + span [(True, unat r1 + 8)] + 12"
      have g: "unat (of_nat ?g :: u32) = ?g" "(of_nat ?g :: u32) \<noteq> 0"
        using page(3) at [of ?g] True u1 by simp_all
      have "?g mod 4 = 0" using m4(1) u1 by simp presburger
      moreover have "(?s + 12) mod 4 = 0" using m4(1) by presburger
      ultimately show ?thesis
        using code [OF m1(1) d(2) m2 g(2)] True d(1) g(1) u1
        by (intro exI [of _ "of_nat (?s + 12)"] exI [of _ "of_nat ?g"] exI [of _ m2]) simp
    next
      case False
      have big: "4060 - unat r1 < unat r2 + 8" "unat r2 + 8 < 4294967296" using False True u1 u2 by simp_all
      have "heap_ok m1 page ?s ?e [(True, unat r1 + 8), (False, 4060 - unat r1)]" using m1(2) by simp
      from alloc_behind_too_large [OF this big] obtain m2 where "heap_alloc_a page r2 4 m1 = Inr (4, m2)" by blast
      from code [OF m1(1) d(2) this] False show ?thesis by auto
    qed
  next
    case False
    have big: "4076 < unat r1 + 8" "unat r1 + 8 < 4294967296" using False u1 n(2) by simp_all
    have ok0: "heap_ok m0 page ?s ?e [(False, 4076)]" using m0(2) by simp
    obtain m1 where m1: "heap_alloc_a page r1 4 m0 = Inr (4, m1)" "heap_ok m1 page ?s ?e [(False, 4076)]"
      using alloc_too_large [OF ok0 h4 big] by blast
    have "\<exists>g m2. heap_alloc_a page r2 4 m1 = Inr (g, m2) \<and> g \<noteq> 0"
    proof (cases "unat r2 + 8 < 4076")
      case True
      have ok1: "heap_ok m1 page ?s ?e ([] @ [(False, 4076)])" using m1(2) by simp
      have "(of_nat (?s + 12) :: u32) \<noteq> 0" using page(3) at [of "?s + 12"] by simp
      then show ?thesis using alloc_last [OF ok1 _ h4 m4(1) _ True] by auto
    next
      case big2: False
      have "unat r2 + 8 \<noteq> 4076" unfolding u2 by presburger
      with big2 have "4076 < unat r2 + 8" "unat r2 + 8 < 4294967296" using u2 n(2) by simp_all
      from alloc_too_large [OF m1(2) h4 this] show ?thesis by auto
    qed
    then obtain g m2 where g: "heap_alloc_a page r2 4 m1 = Inr (g, m2)" "g \<noteq> 0" by blast
    have "(4 :: u32) \<noteq> 0" by simp
    from code [OF m1(1) this g] False show ?thesis by auto
  qed
qed

section \<open>Properties\<close>

text \<open>
  C40. The heap of one page has room for the tables of 17 processors: then both lie in the page,
  apart from each other and on multiples of four.  With more processors, up to the 256 of
  \<^verbatim>\<open>MAX_CPUS\<close>, one of the tables is put at address 4 and the two panics meant for this case are
  not reached.
\<close>

theorem processor_tables_spec:
  assumes page: "0 < unat page" "unat page mod 4096 = 0" "unat page + 4096 < 4294967296" and n: "0 < unat n" "unat n \<le> 256"
  shows "\<exists>data gdt m'. alloc_processor_tables page n m = Inr (page, data, gdt, m') \<and>
    (if unat n \<le> 17
     then unat page \<le> unat data \<and> unat data mod 4 = 0 \<and> unat data + 204 * unat n \<le> unat gdt \<and> unat gdt mod 4 = 0 \<and>
       unat gdt + 8 * (5 + 3 * unat n) \<le> unat page + 4096
     else data = 4 \<or> gdt = 4)"
  using processor_tables [OF assms] .

theorem processor_tables_spec_witness:
  "\<exists>data gdt m'. alloc_processor_tables 0x103000 4 (\<lambda>_. 0) = Inr (0x103000, data, gdt, m') \<and>
    unat data + 816 \<le> unat gdt \<and> unat gdt + 136 \<le> 0x104000"
  using processor_tables_spec [of "0x103000" 4 "\<lambda>_. 0"] by auto

end
