(* ===== verification/Page_Bytes.thy ===== *)
theory Page_Bytes
  imports Kernel_Pages Kernel_Memory
begin

text \<open>
  The bytes of page frames, and the virtual addresses they are seen at.
\<close>

unbundle bit_operations_syntax

section \<open>Bytes of a frame\<close>

definition word_byte :: "nat \<Rightarrow> u32 \<Rightarrow> u8" where
  "word_byte i w = ucast (drop_bit (8 * i) w)"

definition set_word_byte :: "nat \<Rightarrow> u8 \<Rightarrow> u32 \<Rightarrow> u32" where
  "set_word_byte i b w = (w AND NOT (push_bit (8 * i) 0xFF)) OR push_bit (8 * i) (ucast b)"

lemma word_byte_set:
  assumes "i < 4" "j < 4"
  shows "word_byte j (set_word_byte i b w) = (if j = i then b else word_byte j w)"
proof -
  have m: "(0xFF :: u32) = mask 8" by (simp add: mask_eq_exp_minus_1)
  have ij: "i \<in> {0, 1, 2, 3}" "j \<in> {0, 1, 2, 3}" using assms by auto
  show ?thesis
    unfolding word_byte_def set_word_byte_def m
    by (rule bit_word_eqI) (use ij in \<open>auto simp: bit_simps dest: bit_imp_le_length\<close>)
qed

definition frame_byte :: "vm_state \<Rightarrow> u32 \<Rightarrow> nat \<Rightarrow> u8" where
  "frame_byte st f k = word_byte (k mod 4) (ram st (f + 4 * of_nat (k div 4)))"

text \<open>The page of \<open>x\<close> is mapped to \<open>f\<close>, a frame in use that holds no table.\<close>

definition maps :: "vm_state \<Rightarrow> u32 \<Rightarrow> u32 \<Rightarrow> bool" where
  "maps st x f \<longleftrightarrow> dir_index x \<noteq> 768 \<and> translate (ram st) (cr3 st) x = Some (f + (x AND 0xFFF)) \<and>
     data_frame st f \<and> frame_of f \<in> used_below (pmem st)"

definition off :: "u32 \<Rightarrow> nat" where "off x = unat x mod 4096"

lemma off_less [simp]: "off x < 4096"
  by (simp add: off_def)

lemma and_off: "x AND 0xFFF = of_nat (off x)"
proof -
  have m: "(0xFFF :: u32) = mask 12" by (simp add: mask_eq_exp_minus_1)
  have "unat (x AND 0xFFF) = off x"
    unfolding m take_bit_eq_mask [symmetric] by (simp add: take_bit_eq_mod off_def unat_mod)
  moreover have "unat (of_nat (off x) :: u32) = off x" using off_less [of x] by (intro unat_of_nat_u32) linarith
  ultimately show ?thesis by (simp add: word_unat_eq_iff)
qed

lemma frame_address:
  assumes "frame_aligned f" "k < 4096"
  shows "(f + of_nat k) - (f + of_nat k) mod 4 = f + 4 * of_nat (k div 4)" "unat ((f + of_nat k) mod 4) = k mod 4"
proof -
  have k4: "k div 4 < 1024" using assms(2) by simp
  note e = unat_entry [OF assms(1) k4]
  obtain p where p: "unat f = 4096 * p" using e(2) by blast
  have b: "unat f + 4 * (k div 4) < 4294967296" using e(1) unat_u32_less [of "f + 4 * of_nat (k div 4)"] by simp
  have "(of_nat k :: u32) = 4 * of_nat (k div 4) + of_nat (k mod 4)"
    by (metis of_nat_add of_nat_mult of_nat_numeral mult_div_mod_eq)
  then have fk: "f + of_nat k = (f + 4 * of_nat (k div 4)) + of_nat (k mod 4)" by simp
  have md: "unat (of_nat (k mod 4) :: u32) = k mod 4" by (intro unat_of_nat_u32) simp
  have small: "k mod 4 < 4" by simp
  define q where "q = 1024 * p + k div 4"
  have q: "unat f + 4 * (k div 4) = 4 * q" by (simp add: q_def p)
  have "4 * q < 4 * 1073741824" using b q by simp
  then have "q < 1073741824" by (simp only: mult_less_cancel1)
  then have "4 * q + k mod 4 < 4294967296" using small by linarith
  then have u: "unat (f + of_nat k) = 4 * q + k mod 4"
    unfolding fk using e(1) q md by (simp add: unat_word_ariths)
  then show m: "unat ((f + of_nat k) mod 4) = k mod 4" by (simp add: unat_mod)
  then have "(f + of_nat k) mod 4 = of_nat (k mod 4)" using md by (simp add: word_unat_eq_iff)
  then show "(f + of_nat k) - (f + of_nat k) mod 4 = f + 4 * of_nat (k div 4)" unfolding fk by simp
qed

lemma frame_kbytes:
  assumes "translate (ram st) (cr3 st) x = Some (f + (x AND 0xFFF))" "frame_aligned f"
  shows "kbytes st x = Inr (frame_byte st f (off x))"
  unfolding kbytes_def assms(1) option.case and_off frame_address [OF assms(2) off_less] frame_byte_def word_byte_def ..

lemma maps_kbytes: "maps st x f \<Longrightarrow> kbytes st x = Inr (frame_byte st f (off x))"
  by (rule frame_kbytes) (simp_all add: maps_def data_frame_def)

text \<open>A word of a frame that holds no table is written.\<close>

definition put_word :: "u32 \<Rightarrow> nat \<Rightarrow> u32 \<Rightarrow> vm_state \<Rightarrow> vm_state" where
  "put_word f k w st = st\<lparr>ram := (ram st)(f + 4 * of_nat k := w)\<rparr>"

lemma put_word_tables:
  assumes inv: "pt_inv st" and f: "data_frame st f" "k < 1024"
  shows "pt_inv (put_word f k w st)" "data_frame (put_word f k w st) g \<longleftrightarrow> data_frame st g"
    "dir_index va \<noteq> 768 \<Longrightarrow> translate (ram (put_word f k w st)) (cr3 st) va = translate (ram st) (cr3 st) va"
proof -
  have rec: "recursive (ram st) (cr3 st)" "frame_aligned (cr3 st)" using pt_inv_recursive [OF inv] by simp_all
  have al: "frame_aligned f" "f \<noteq> cr3 st" using f(1) by (simp_all add: data_frame_def)
  have same: "pde (put_word f k w st) l = pde st l" if "l < 1024" for l
    unfolding put_word_def using pde_write [of f "cr3 st" k l "ram st" w] rec al f(2) that by simp
  have rec': "recursive (ram (put_word f k w st)) (cr3 (put_word f k w st))"
    unfolding put_word_def using recursive_write [of f k "cr3 st" "ram st" w] rec al f(2) by simp
  show "pt_inv (put_word f k w st)"
    using inv rec' same unfolding pt_inv_def by (simp add: put_word_def)
  show "data_frame (put_word f k w st) g \<longleftrightarrow> data_frame st g"
    using same by (simp add: data_frame_def put_word_def)
  assume d: "dir_index va \<noteq> 768"
  have pd: "pde_at (ram (put_word f k w st)) (cr3 st) (dir_index va) = pde st (dir_index va)"
    using same [of "dir_index va"] by (simp add: put_word_def)
  have "pte_at (ram (put_word f k w st)) (pde st (dir_index va)) (tab_index va) =
      pte_at (ram st) (pde st (dir_index va)) (tab_index va)" if "bit (pde st (dir_index va)) 0"
  proof -
    have "table_frame st (dir_index va) \<noteq> f" using f(1) d that by (simp add: data_frame_def)
    then show ?thesis
      using entry_eq_iff [of "table_frame st (dir_index va)" f "tab_index va" k] al(1) f(2)
      by (simp add: pte_at_def put_word_def)
  qed
  then show "translate (ram (put_word f k w st)) (cr3 st) va = translate (ram st) (cr3 st) va"
    using pd by (auto simp: translate_eq Let_def)
qed

lemma within_page:
  assumes "off x + i < 4096"
  shows "off (x + of_nat i) = off x + i" "frame_of (x + of_nat i) = frame_of x"
proof -
  have x: "unat x = 4096 * frame_of x + off x" by (simp add: off_def)
  have "frame_of x < 1048576" using unat_u32_less [of x] by (simp add: less_mult_imp_div_less)
  then have "unat x + i < 4294967296" using x assms by linarith
  then have u: "unat (x + of_nat i) = 4096 * frame_of x + (off x + i)"
    using x by (simp add: unat_word_ariths unat_of_nat)
  show "off (x + of_nat i) = off x + i" using assms unfolding off_def [of "x + of_nat i"] u by simp
  show "frame_of (x + of_nat i) = frame_of x" using assms unfolding u by simp
qed

lemma translate_same_page:
  assumes "translate m c x = Some (f + (x AND 0xFFF))" "frame_of y = frame_of x"
  shows "translate m c y = Some (f + (y AND 0xFFF))"
  using assms same_page [of y x] by (auto simp: translate_eq Let_def split: if_splits)

lemma maps_same_page: "maps st x f \<Longrightarrow> frame_of y = frame_of x \<Longrightarrow> maps st y f"
  using translate_same_page [of "ram st" "cr3 st" x f y] same_page [of y x] by (simp add: maps_def)

text \<open>From \<open>st\<close> to \<open>st'\<close> nothing changed that was mapped outside the page \<open>p\<close>.\<close>

definition keeps_pages :: "nat \<Rightarrow> vm_state \<Rightarrow> vm_state \<Rightarrow> bool" where
  "keeps_pages p st st' \<longleftrightarrow>
     (\<forall>x g. maps st x g \<longrightarrow> frame_of x \<noteq> p \<longrightarrow> maps st' x g \<and> kbytes st' x = kbytes st x)"

lemma new_page_keeps:
  assumes tr: "\<And>va. dir_index va \<noteq> 768 \<Longrightarrow> translate (ram st') (cr3 st') va =
       (if frame_of va = frame_of addr then Some (phys + (va AND 0xFFF)) else translate (ram st) (cr3 st) va)"
    and keep: "keeps_data st st'" and used: "used_below (pmem st) \<subseteq> used_below (pmem st')"
  shows "keeps_pages (frame_of addr) st st'"
  unfolding keeps_pages_def
proof (intro allI impI)
  fix x g assume x: "maps st x g" and p: "frame_of x \<noteq> frame_of addr"
  have g: "data_frame st g" "frame_of g \<in> used_below (pmem st)" "dir_index x \<noteq> 768" using x by (simp_all add: maps_def)
  have d: "data_frame st' g" "\<And>k. k < 1024 \<Longrightarrow> ram st' (g + 4 * of_nat k) = ram st (g + 4 * of_nat k)"
    using keep g(1,2) unfolding keeps_data_def by blast+
  have m: "maps st' x g" using x tr [OF g(3)] p d(1) used by (auto simp: maps_def)
  have "off x div 4 < 1024" by (simp add: less_mult_imp_div_less)
  then have "kbytes st' x = kbytes st x"
    using d(2) unfolding maps_kbytes [OF m] maps_kbytes [OF x] by (simp add: frame_byte_def)
  with m show "maps st' x g \<and> kbytes st' x = kbytes st x" ..
qed

section \<open>Several words\<close>

lemma fold_put_words:
  "pt_inv st \<Longrightarrow> data_frame st f \<Longrightarrow> \<forall>(k, w) \<in> set ws. k < 1024 \<Longrightarrow>
   pt_inv (fold (\<lambda>(k, w). put_word f k w) ws st) \<and> data_frame (fold (\<lambda>(k, w). put_word f k w) ws st) g = data_frame st g \<and>
   pmem (fold (\<lambda>(k, w). put_word f k w) ws st) = pmem st \<and> cr3 (fold (\<lambda>(k, w). put_word f k w) ws st) = cr3 st \<and>
   (dir_index va \<noteq> 768 \<longrightarrow>
     translate (ram (fold (\<lambda>(k, w). put_word f k w) ws st)) (cr3 st) va = translate (ram st) (cr3 st) va)"
proof (induction ws arbitrary: st)
  case (Cons p ws)
  obtain k w where p: "p = (k, w)" by (cases p)
  then have k: "k < 1024" using Cons.prems(3) by simp
  have "pt_inv (put_word f k w st)" "data_frame (put_word f k w st) f"
    using put_word_tables [OF Cons.prems(1,2) k] Cons.prems(2) by simp_all
  moreover have "cr3 (put_word f k w st) = cr3 st" "pmem (put_word f k w st) = pmem st" by (simp_all add: put_word_def)
  ultimately show ?case using Cons.IH [of "put_word f k w st"] Cons.prems(3) put_word_tables [OF Cons.prems(1,2) k]
    by (simp add: p)
qed simp

end
