(* ===== verification/Boot_Acpi.thy ===== *)
theory Boot_Acpi
  imports Acpi_Props Boot_Heap Page_Bytes
begin

text \<open>
  How \<^verbatim>\<open>kernel_entry\<close> finds out what the machine has: the firmware's tables are found, the page
  of the root table mapped, processors counted, tables for them allocated and filled in.
\<close>

unbundle bit_operations_syntax

section \<open>The code\<close>

text \<open>
  \<open>page\<close> is the page of the kernel's first heap, which holds none of the other data; \<open>data0\<close> and
  \<open>gdt0\<close> are what its memory held where the two tables go, \<open>junk\<close> what the stack held.
\<close>

definition setup_acpi :: "u32 \<Rightarrow> (nat \<Rightarrow> per_cpu_data) \<Rightarrow> (nat \<Rightarrow> gdt_entry) \<Rightarrow> per_cpu_data \<Rightarrow>
    vm_state \<Rightarrow> memory \<Rightarrow> gst \<Rightarrow> (u32 \<times> u32 \<times> u32 \<times> vm_state \<times> memory \<times> gst) res" where
  "setup_acpi page data0 gdt0 junk st hm g =
     res_bind (rsdp_find (kbytes st)) (\<lambda>rsdp.
     if rsdp = 0 then Inl (Panic ''RSDP could not be found.. TODO: Parse mp tables'')
     else
       let g = g\<lparr>RSDP_base := rsdp\<rparr> in
       res_bind (rsdp_first_parse rsdp st g) (\<lambda>(err, st, g).
       if err \<noteq> 0 then Inl (Panic ''error occured during first rsdp parsing!'')
       else
         res_bind (alloc_processor_tables page (processor_count g) hm) (\<lambda>(kheap, data, gdt, hm).
         let n = processor_count g;
             g = g\<lparr>per_cpu_data_base := map data0 [0..<unat n],
                   gst_gdt_entries := map gdt0 [0..<unat (GDT_GENERAL_ENTRIES + GDT_ENTRIES_PER_CPU * n)]\<rparr> in
         if ioapic_count g \<noteq> 1 then Inl (Panic ''ioapic count != 1. System not ready for this case'')
         else
           res_bind (rsdp_parse rsdp junk (kbytes st) g) (\<lambda>(err, g).
           if err \<noteq> 0 then Inl (Panic ''error occured during rsdp parsing!'')
           else Inr (kheap, data, gdt, st, hm, g)))))"

section \<open>Finding the root pointer\<close>

definition rsdp_here :: "kmem \<Rightarrow> u32 \<Rightarrow> bool res" where
  "rsdp_here m a =
     res_bind (same_bytes m a (ascii ''RSD PTR '')) (\<lambda>same.
       if same then res_bind (acpi_sum m a sizeof_rsdp) (\<lambda>s. Inr (s = 0)) else Inr False)"

lemma rsdp_find_step:
  "rsdp_find_loop m base len i =
     (if i < len
      then loop_bind (rsdp_here m (base + i)) (\<lambda>here. if here then Some (Inr (base + i)) else rsdp_find_loop m base len (i + 16))
      else Some (Inr 0))"
proof (cases "same_bytes m (base + i) (ascii ''RSD PTR '')")
  case (Inl e)
  then show ?thesis by (subst rsdp_find_loop.simps) (simp add: rsdp_here_def)
next
  case (Inr same)
  then show ?thesis
    by (cases "acpi_sum m (base + i) sizeof_rsdp") (subst rsdp_find_loop.simps, simp add: rsdp_here_def)+
qed

lemma rsdp_find_first:
  assumes here: "rsdp_here m (base + 16 * of_nat k) = Inr True" and before: "\<forall>j < k. rsdp_here m (base + 16 * of_nat j) = Inr False"
    and k: "16 * k < unat len" and i: "i \<le> k"
  shows "rsdp_find_loop m base len (16 * of_nat i) = Some (Inr (base + 16 * of_nat k))"
proof -
  have at: "16 * of_nat i < len" if "i \<le> k" for i
  proof -
    have "16 * i < 4294967296" using that k unat_u32_less [of len] by simp
    then have "unat (of_nat (16 * i) :: u32) = 16 * i" by (rule unat_of_nat_u32)
    then show ?thesis using that k by (simp add: word_less_nat_alt)
  qed
  show ?thesis using i
  proof (induction "k - i" arbitrary: i)
    case 0
    then have "16 * of_nat i < len" using at [of i] k by simp
    with 0 show ?case using here by (subst rsdp_find_step) simp
  next
    case (Suc n)
    then have i: "i < k" by simp
    have less: "16 * of_nat i < len" using at [of i] i by simp
    have next_i: "16 * of_nat i + 16 = (16 * of_nat (Suc i) :: u32)" by (simp add: algebra_simps)
    have "n = k - Suc i" "Suc i \<le> k" using Suc.hyps(2) i by simp_all
    note go = Suc.hyps(1) [OF this]
    show ?case
      using before i less go by (subst rsdp_find_step) (simp add: next_i del: of_nat_Suc)
  qed
qed

section \<open>The root table\<close>

text \<open>A text that ends: what \<open>%s\<close> prints.\<close>

definition c_string :: "kmem \<Rightarrow> u32 \<Rightarrow> bool" where
  "c_string m a \<longleftrightarrow> (\<exists>s. 0 \<notin> set s \<and> bytes_at m a (s @ [0]))"

lemma read_c_string: "c_string m a \<Longrightarrow> read_string m a = Some (Inr ())"
proof -
  have "0 \<notin> set s \<Longrightarrow> bytes_at m a (s @ [0]) \<Longrightarrow> read_string m a = Some (Inr ())" for s
    by (induction s arbitrary: a) (subst read_string.simps, simp)+
  then show "c_string m a \<Longrightarrow> read_string m a = Some (Inr ())" by (auto simp: c_string_def)
qed

text \<open>A table that is no MADT and that the first pass can look at.\<close>

definition other_table :: "kmem \<Rightarrow> u32 \<Rightarrow> bool" where
  "other_table m h \<longleftrightarrow> (\<exists>sig. length sig = 4 \<and> sig \<noteq> ACPI_MADT \<and> bytes_at m h sig \<and>
     (if sig = ACPI_HPET then (\<exists>w. bytes_at m (h + hpet_address) (le32 w)) \<and> (\<exists>b. m (h + hpet_comparators) = Inr b)
      else c_string m h))"

definition rsdt_at :: "kmem \<Rightarrow> u32 \<Rightarrow> u32 list \<Rightarrow> bool" where
  "rsdt_at m rsdt hs \<longleftrightarrow> bytes_at m (rsdt + dt_length) (le32 (sizeof_dt_header + 4 * of_nat (length hs))) \<and>
     bytes_at m (rsdt + rsdt_sdt_ptrs) (concat (map le32 hs)) \<and> length hs < 2 ^ 30"

lemma same_bytes_eq: "bytes_at m a xs \<Longrightarrow> length xs = length ys \<Longrightarrow> same_bytes m a ys = Inr (xs = ys)"
proof (induction ys arbitrary: a xs)
  case (Cons y ys)
  then obtain x xs' where "xs = x # xs'" by (cases xs) auto
  with Cons show ?case by simp
qed simp

lemma signature_length [simp]: "length ACPI_MADT = 4" "length ACPI_HPET = 4"
  by (simp_all add: ACPI_MADT_def ACPI_HPET_def ascii_def)

lemma rsdt_entry:
  assumes "bytes_at m (rsdt + rsdt_sdt_ptrs + 4 * i) (concat (map le32 (h # hs)))"
  shows "kload32 m (rsdt + rsdt_sdt_ptrs + 4 * i) = Inr h"
    "bytes_at m (rsdt + rsdt_sdt_ptrs + 4 * (i + 1)) (concat (map le32 hs))"
  using assms kload32_le32 by (simp_all add: bytes_at_append algebra_simps)

lemma first_loop_others:
  assumes "bytes_at m (rsdt + rsdt_sdt_ptrs + 4 * i) (concat (map le32 hs))" "\<forall>h \<in> set hs. other_table m h"
  shows "rsdt_first_loop (length hs + n) m rsdt i g = rsdt_first_loop n m rsdt (i + of_nat (length hs)) g"
  using assms
proof (induction hs arbitrary: i)
  case (Cons h hs)
  note e = rsdt_entry [OF Cons.prems(1)]
  obtain sig where s: "length sig = 4" "sig \<noteq> ACPI_MADT" "bytes_at m h sig" and
    k: "if sig = ACPI_HPET then (\<exists>w. bytes_at m (h + hpet_address) (le32 w)) \<and> (\<exists>b. m (h + hpet_comparators) = Inr b)
      else c_string m h"
    using Cons.prems(2) by (auto simp: other_table_def)
  have "same_bytes m h ACPI_MADT = Inr False" "same_bytes m h ACPI_HPET = Inr (sig = ACPI_HPET)"
    using same_bytes_eq [OF s(3)] s(1,2) by simp_all
  moreover have "rsdt_first_loop (length hs + n) m rsdt (i + 1) g = rsdt_first_loop n m rsdt (i + 1 + of_nat (length hs)) g"
    by (rule Cons.IH) (use e(2) Cons.prems(2) in simp_all)
  ultimately show ?case
    using e(1) k kload32_le32 read_c_string by (auto simp: returns_def add.assoc split: if_splits)
qed simp

lemma loop_others:
  assumes "bytes_at m (rsdt + rsdt_sdt_ptrs + 4 * i) (concat (map le32 hs))" "\<forall>h \<in> set hs. other_table m h"
  shows "rsdt_loop (length hs + n) m junk rsdt i g = rsdt_loop n m junk rsdt (i + of_nat (length hs)) g"
  using assms
proof (induction hs arbitrary: i)
  case (Cons h hs)
  note e = rsdt_entry [OF Cons.prems(1)]
  obtain sig where s: "length sig = 4" "sig \<noteq> ACPI_MADT" "bytes_at m h sig"
    using Cons.prems(2) by (auto simp: other_table_def)
  have "same_bytes m h ACPI_MADT = Inr False" using same_bytes_eq [OF s(3)] s(1,2) by simp
  moreover have "rsdt_loop (length hs + n) m junk rsdt (i + 1) g = rsdt_loop n m junk rsdt (i + 1 + of_nat (length hs)) g"
    by (rule Cons.IH) (use e(2) Cons.prems(2) in simp_all)
  ultimately show ?case using e(1) by (simp add: add.assoc)
qed simp

text \<open>The firmware: a root pointer, a root table, one MADT among other tables.\<close>

definition firmware :: "kmem \<Rightarrow> u32 \<Rightarrow> u32 \<Rightarrow> u32 \<Rightarrow> madt_entry list \<Rightarrow> bool" where
  "firmware m rsdp rsdt lapic_addr es \<longleftrightarrow>
     m (rsdp + rsdp_revision) = Inr 0 \<and> bytes_at m (rsdp + rsdp_rsdt_addr) (le32 rsdt) \<and>
     (\<exists>hs1 madt hs2. rsdt_at m rsdt (hs1 @ madt # hs2) \<and> bytes_at m madt ACPI_MADT \<and> madt_at m madt lapic_addr es \<and>
       (\<forall>h \<in> set hs1 \<union> set hs2. other_table m h))"

lemma rsdt_header:
  assumes "rsdt_at m rsdt hs"
  obtains len where "kload32 m (rsdt + dt_length) = Inr len" "unat ((len - sizeof_dt_header) div 4) = length hs"
proof
  show "kload32 m (rsdt + dt_length) = Inr (sizeof_dt_header + 4 * of_nat (length hs))"
    using assms by (intro kload32_le32) (simp add: rsdt_at_def)
  have "4 * length hs < 4294967296" using assms by (simp add: rsdt_at_def)
  then have "unat (of_nat (4 * length hs) :: u32) = 4 * length hs" by (rule unat_of_nat_u32)
  then show "unat ((sizeof_dt_header + 4 * of_nat (length hs) - sizeof_dt_header) div 4) = length hs"
    by (simp add: unat_div)
qed

lemma rsdt_loops:
  assumes f: "rsdt_at m rsdt (hs1 @ madt # hs2)" "bytes_at m madt ACPI_MADT" "madt_at m madt lapic_addr es"
    "\<forall>h \<in> set hs1 \<union> set hs2. other_table m h" and n: "n = length (hs1 @ madt # hs2)"
  shows "rsdt_first_loop n m rsdt 0 g = Inr (0, counted lapic_addr es g)"
    "rsdt_loop n m junk rsdt 0 g = res_bind (madt_parse m junk madt g) (\<lambda>(err, g). if err \<noteq> 0 then Inr (1, g) else Inr (0, g))"
proof -
  have "bytes_at m (rsdt + rsdt_sdt_ptrs) (concat (map le32 hs1) @ concat (map le32 (madt # hs2)))"
    using f(1) by (simp add: rsdt_at_def)
  moreover have "of_nat (length (concat (map le32 hs1))) = (4 * of_nat (length hs1) :: u32)"
    by (induction hs1) (simp_all add: algebra_simps)
  ultimately have b: "bytes_at m (rsdt + rsdt_sdt_ptrs + 4 * 0) (concat (map le32 hs1))"
    "bytes_at m (rsdt + rsdt_sdt_ptrs + 4 * of_nat (length hs1)) (concat (map le32 (madt # hs2)))"
    by (simp_all only: bytes_at_append) simp_all
  note e = rsdt_entry [OF b(2)]
  have o: "\<forall>h \<in> set hs1. other_table m h" "\<forall>h \<in> set hs2. other_table m h" using f(4) by auto
  have sig: "same_bytes m madt ACPI_MADT = Inr True" using same_bytes_eq [OF f(2)] by simp
  have n': "n = length hs1 + Suc (length hs2 + 0)" using n by simp
  show "rsdt_first_loop n m rsdt 0 g = Inr (0, counted lapic_addr es g)"
    unfolding n' first_loop_others [OF b(1) o(1)] using e(1) sig madt_first_pass [OF f(3)] first_loop_others [OF e(2) o(2), of 0]
    by simp
  show "rsdt_loop n m junk rsdt 0 g = res_bind (madt_parse m junk madt g) (\<lambda>(err, g). if err \<noteq> 0 then Inr (1, g) else Inr (0, g))"
    unfolding n' loop_others [OF b(1) o(1)] using e(1) sig loop_others [OF e(2) o(2), of 0 junk]
    by (simp add: case_prod_unfold cong: if_cong)
qed

section \<open>The page of the root table\<close>

text \<open>
  Memory once the page of \<open>t\<close> is mapped to the frame of the same address; elsewhere only what
  lies in frames in use.
\<close>

definition with_page :: "u32 \<Rightarrow> vm_state \<Rightarrow> kmem" where
  "with_page t st a =
     (if frame_of a = frame_of t then Inr (frame_byte st (t AND NOT 0xFFF) (off a))
      else if \<exists>f. maps st a f then kbytes st a else page_fault_handler 0)"

text \<open>The page of \<open>t\<close> may be mapped so: its frame holds no table and is not free.\<close>

definition mappable :: "vm_state \<Rightarrow> u32 \<Rightarrow> bool" where
  "mappable st t \<longleftrightarrow> (let page = t AND NOT 0xFFF in
     dir_index t \<noteq> 768 \<and> 0x101000 \<le> t \<and> spare (pmem st) \<noteq> {} \<and> data_frame st page \<and>
     (frame_of t < unat (phys_mem_max_blocks (pmem st)) \<longrightarrow> frame_of t \<in> used_below (pmem st)) \<and>
     translate (ram st) (cr3 st) page \<in> {None, Some page})"

lemma page_start:
  fixes t :: u32
  shows "frame_of (t AND NOT 0xFFF) = frame_of t" "off (t AND NOT 0xFFF) = 0" "frame_aligned (t AND NOT 0xFFF)"
    "frame_of a = frame_of t \<Longrightarrow> (t AND NOT 0xFFF) + (a AND 0xFFF) = a"
proof -
  have "(NOT 0xFFF :: u32) = NOT (mask 12)" by (simp add: mask_eq_exp_minus_1)
  moreover have "t AND NOT (mask 12) = push_bit 12 (drop_bit 12 t)"
    by (rule bit_word_eqI) (auto simp: bit_simps)
  moreover have "drop_bit 12 t = of_nat (frame_of t)"
    using unat_u32_less [of t] by (simp add: word_unat_eq_iff drop_bit_eq_div unat_div unat_of_nat)
  ultimately have p: "t AND NOT 0xFFF = of_nat (4096 * frame_of t)" by (simp add: push_bit_eq_mult)
  have "4096 * frame_of t < 4294967296" using unat_u32_less [of t] by (rule order.strict_trans1 [rotated]) simp
  then have u: "unat (t AND NOT 0xFFF) = 4096 * frame_of t" unfolding p by (rule unat_of_nat_u32)
  show "frame_of (t AND NOT 0xFFF) = frame_of t" "off (t AND NOT 0xFFF) = 0" "frame_aligned (t AND NOT 0xFFF)"
    using u by (simp_all add: off_def frame_aligned_mod)
  assume "frame_of a = frame_of t"
  then have a: "unat a = 4096 * frame_of t + off a" using div_mult_mod_eq [of "unat a" 4096] by (simp add: off_def)
  have "(t AND NOT 0xFFF) + (a AND 0xFFF) = of_nat (4096 * frame_of t) + of_nat (off a)" unfolding and_off p ..
  also have "\<dots> = of_nat (unat a)" by (simp only: a of_nat_add)
  finally show "(t AND NOT 0xFFF) + (a AND 0xFFF) = a" by simp
qed

text \<open>What is known of \<open>m\<close> is known of \<open>m'\<close>.\<close>

definition extends :: "kmem \<Rightarrow> kmem \<Rightarrow> bool" where
  "extends m m' \<longleftrightarrow> (\<forall>a b. m a = Inr b \<longrightarrow> m' a = Inr b)"

lemma bytes_at_extends: "extends m m' \<Longrightarrow> bytes_at m a bs \<Longrightarrow> bytes_at m' a bs"
  by (induction bs arbitrary: a) (simp_all add: extends_def)

lemma tables_extend:
  assumes "extends m m'"
  shows "other_table m h \<Longrightarrow> other_table m' h" "rsdt_at m rsdt hs \<Longrightarrow> rsdt_at m' rsdt hs"
    "madt_at m madt la es \<Longrightarrow> madt_at m' madt la es"
proof -
  note b = bytes_at_extends [OF assms]
  have one: "m a = Inr x \<Longrightarrow> m' a = Inr x" for a x using assms unfolding extends_def by blast
  have "c_string m a \<Longrightarrow> c_string m' a" for a unfolding c_string_def using b by blast
  then show "other_table m h \<Longrightarrow> other_table m' h"
    unfolding other_table_def using b one by (elim exE conjE, intro exI conjI) (auto split: if_splits)
  show "rsdt_at m rsdt hs \<Longrightarrow> rsdt_at m' rsdt hs" using b by (simp add: rsdt_at_def)
  show "madt_at m madt la es \<Longrightarrow> madt_at m' madt la es" using b by (simp add: madt_at_def)
qed

lemma firmware_extends: "firmware m rsdp rsdt la es \<Longrightarrow> extends m m' \<Longrightarrow> firmware m' rsdp rsdt la es"
  unfolding firmware_def
  by (elim conjE exE, intro conjI exI) (auto intro: tables_extend bytes_at_extends simp: extends_def)

lemma map_table_page:
  assumes inv: "pt_inv st" and t: "mappable st t"
  obtains err st' where
    "(if translate (ram st) (cr3 st) (t AND NOT 0xFFF) \<noteq> None then Inr (ERROR_OK, st)
      else virt_mem_map_page virt_mem_get_self_recursive_table (t AND NOT 0xFFF) (t AND NOT 0xFFF)
        VIRT_MEM_DEFAULT_PTE_FLAGS st) = Inr (err, st')"
    "pt_inv st'" "cr3 st' = cr3 st" "extends (with_page t st) (kbytes st')"
    "\<And>va. dir_index va \<noteq> 768 \<Longrightarrow> frame_of va \<noteq> frame_of t \<Longrightarrow>
      translate (ram st') (cr3 st) va = translate (ram st) (cr3 st) va"
proof -
  define page where "page = t AND NOT 0xFFF"
  note pg = page_start [of t, folded page_def]
  have m: "dir_index page \<noteq> 768" "spare (pmem st) \<noteq> {}" "data_frame st page"
    "frame_of t < unat (phys_mem_max_blocks (pmem st)) \<Longrightarrow> frame_of t \<in> used_below (pmem st)"
    "translate (ram st) (cr3 st) page \<in> {None, Some page}"
    using t same_page [of page t] pg(1) by (simp_all add: mappable_def page_def Let_def)
  have off0: "page AND 0xFFF = 0" using pg(2) by (simp add: and_off)
  have in_page: "kbytes s a = Inr (frame_byte s page (off a))"
    if "translate (ram s) (cr3 s) page = Some page" "frame_of a = frame_of t" for s a
    using translate_same_page [of "ram s" "cr3 s" page page a] that off0 pg(1,3) by (simp add: frame_kbytes)
  have wp: "with_page t st a = (if frame_of a = frame_of t then Inr (frame_byte st page (off a))
      else if \<exists>f. maps st a f then kbytes st a else page_fault_handler 0)" for a
    unfolding with_page_def page_def ..
  show ?thesis
  proof (cases "translate (ram st) (cr3 st) page = None")
    case False
    then have "translate (ram st) (cr3 st) page = Some page" using m(5) by auto
    then have "extends (with_page t st) (kbytes st)"
      using in_page by (auto simp: extends_def wp page_fault_handler_def split: if_splits)
    then show ?thesis using False inv by (intro that [of ERROR_OK st, folded page_def]) simp_all
  next
    case True
    obtain err st' where r: "virt_mem_map_page 0xC0000000 page page VIRT_MEM_DEFAULT_PTE_FLAGS st = Inr (err, st')" "cr3 st' = cr3 st"
      and c: "if err = ERROR_OK
       then pt_inv st' \<and> used_below (pmem st) \<subseteq> used_below (pmem st') \<and>
         (pmem st' = pmem st \<or> (\<exists>t. t \<noteq> 0 \<and> phys_mem_alloc_above_1mb (pmem st) = Inr (t, pmem st'))) \<and> keeps_data st st' \<and>
         (\<forall>va. dir_index va \<noteq> 768 \<longrightarrow> translate (ram st') (cr3 st) va =
           (if frame_of va = frame_of page then Some (page + (va AND 0xFFF)) else translate (ram st) (cr3 st) va))
       else err = ERROR_OCCUR \<and> ram st' = ram st \<and>
         phys_mem_alloc_above_1mb (pmem st) = Inr (0, pmem st') \<and> \<not> bit (pde st (dir_index page)) 0"
      using map_page_frames [OF inv m(1) pg(3) default_flags] by blast
    have ready: "pm_ready (pmem st)" using inv by (simp add: pt_inv_def)
    have "phys_mem_alloc_above_1mb (pmem st) \<noteq> Inr (0, x)" for x
      using take_spare [OF ready m(2)] by (metis Inr_inject prod.inject)
    then have "err = ERROR_OK" using c by metis
    with c have k: "pt_inv st'" "used_below (pmem st) \<subseteq> used_below (pmem st')" "keeps_data st st'"
      "pmem st' = pmem st \<or> (\<exists>t. t \<noteq> 0 \<and> phys_mem_alloc_above_1mb (pmem st) = Inr (t, pmem st'))"
      and tr: "\<And>va. dir_index va \<noteq> 768 \<Longrightarrow> translate (ram st') (cr3 st') va =
        (if frame_of va = frame_of page then Some (page + (va AND 0xFFF)) else translate (ram st) (cr3 st) va)"
      by (simp_all add: r(2))
    have "phys_mem_max_blocks (pmem st') = phys_mem_max_blocks (pmem st)" using k(4) alloc_keeps_max [OF ready] by auto
    then have "frame_of page \<notin> used_below (pmem st') - used_below (pmem st)" using m(4) pg(1) by (auto simp: used_below_def)
    then have same: "frame_byte st' page k = frame_byte st page k" if "k < 4096" for k
      using k(3) m(3) that unfolding keeps_data_def frame_byte_def by (simp add: less_mult_imp_div_less)
    have "kbytes st' a = Inr (frame_byte st page (off a))" if "frame_of a = frame_of t" for a
      using in_page [of st' a] tr [OF m(1)] that same [of "off a"] by (simp add: off0)
    moreover have "keeps_pages (frame_of page) st st'" by (rule new_page_keeps [OF _ k(3,2)], rule tr)
    then have "kbytes st' a = kbytes st a" if "maps st a f" "frame_of a \<noteq> frame_of t" for a f
      using that pg(1) unfolding keeps_pages_def by simp
    ultimately have "extends (with_page t st) (kbytes st')"
      by (auto simp: extends_def wp page_fault_handler_def split: if_splits)
    then show ?thesis
      using True r k(1) tr pg(1) by (intro that [of err st', folded page_def]) (simp_all add: virt_mem_get_self_recursive_table_def)
  qed
qed

section \<open>Both passes\<close>

text \<open>The root pointer at \<open>rsdp\<close> is the first in the area of the firmware that kernel_entry searches first.\<close>

definition rsdp_at :: "kmem \<Rightarrow> u32 \<Rightarrow> bool" where
  "rsdp_at m rsdp \<longleftrightarrow> (\<exists>k < 0x2000. rsdp = 0xE0000 + 16 * of_nat k \<and> rsdp_here m rsdp = Inr True \<and>
     (\<forall>j < k. rsdp_here m (0xE0000 + 16 * of_nat j) = Inr False))"

lemma rsdp_found:
  assumes "rsdp_at m rsdp"
  shows "rsdp_find m = Inr rsdp" "rsdp \<noteq> 0" "unat rsdp \<le> 0xFFFF0"
proof -
  obtain k where k: "k < 0x2000" "rsdp = 0xE0000 + 16 * of_nat k" "rsdp_here m rsdp = Inr True"
    "\<forall>j < k. rsdp_here m (0xE0000 + 16 * of_nat j) = Inr False"
    using assms by (auto simp: rsdp_at_def)
  have "unat (of_nat (0xE0000 + 16 * k) :: u32) = 0xE0000 + 16 * k" using k(1) by (intro unat_of_nat_u32) simp
  then have u: "unat rsdp = 0xE0000 + 16 * k" using k(2) by simp
  show nz: "rsdp \<noteq> 0" using u by auto
  show "unat rsdp \<le> 0xFFFF0" using u k(1) by simp
  have "rsdp_find_loop m 0xE0000 0x20000 (16 * of_nat 0) = Some (Inr (0xE0000 + 16 * of_nat k))"
    by (rule rsdp_find_first) (use k in simp_all)
  then show "rsdp_find m = Inr rsdp" using nz k(2) by (simp add: rsdp_find_def rsdp_find_in_def)
qed

lemma before_mapping:
  assumes "with_page t st a = Inr b" "0x101000 \<le> t" "unat a < 0x101000"
  shows "kbytes st a = Inr b"
proof -
  have "frame_of a < 257" using assms(3) by simp
  moreover have "257 \<le> frame_of t" using div_le_mono [of "unat (0x101000 :: u32)" "unat t" 4096] assms(2) by (simp add: word_le_nat_alt)
  ultimately have "frame_of a \<noteq> frame_of t" by linarith
  then show ?thesis using assms(1) by (simp add: with_page_def page_fault_handler_def split: if_splits)
qed

lemma rsdp_before_mapping:
  assumes f: "firmware (with_page rsdt st) rsdp rsdt la es" and t: "0x101000 \<le> rsdt" and r: "unat rsdp \<le> 0xFFFF0"
  shows "kbytes st (rsdp + rsdp_revision) = Inr 0" "kload32 (kbytes st) (rsdp + rsdp_rsdt_addr) = Inr rsdt"
proof -
  have u: "unat (rsdp + of_nat i) < 0x101000" if "i < 20" for i
    using that r by (simp add: unat_word_ariths unat_of_nat)
  have "kbytes st (rsdp + of_nat i) = Inr b" if "i < 20" "with_page rsdt st (rsdp + of_nat i) = Inr b" for i b
    by (rule before_mapping [OF that(2) t u [OF that(1)]])
  from this [of 15] this [of 16] this [of 17] this [of 18] this [of 19]
  have one: "with_page rsdt st (rsdp + 15) = Inr b \<Longrightarrow> kbytes st (rsdp + 15) = Inr b"
    "with_page rsdt st (rsdp + 16) = Inr b \<Longrightarrow> kbytes st (rsdp + 16) = Inr b"
    "with_page rsdt st (rsdp + 17) = Inr b \<Longrightarrow> kbytes st (rsdp + 17) = Inr b"
    "with_page rsdt st (rsdp + 18) = Inr b \<Longrightarrow> kbytes st (rsdp + 18) = Inr b"
    "with_page rsdt st (rsdp + 19) = Inr b \<Longrightarrow> kbytes st (rsdp + 19) = Inr b" for b
    by simp_all
  show "kbytes st (rsdp + rsdp_revision) = Inr 0" using f one by (simp add: firmware_def rsdp_revision_def)
  have "bytes_at (with_page rsdt st) (rsdp + 16) (le32 rsdt)" using f by (simp add: firmware_def rsdp_rsdt_addr_def)
  then have "bytes_at (kbytes st) (rsdp + 16) (le32 rsdt)" using one by (simp add: le32_def add.commute)
  then show "kload32 (kbytes st) (rsdp + rsdp_rsdt_addr) = Inr rsdt" using kload32_le32 by (simp add: rsdp_rsdt_addr_def)
qed

lemma first_pass:
  assumes inv: "pt_inv st" and t: "mappable st rsdt" and r: "rsdp_at (kbytes st) rsdp"
    and f: "firmware (with_page rsdt st) rsdp rsdt la es"
  obtains st' where "rsdp_first_parse rsdp st g = Inr (0, st', counted la es g)" "pt_inv st'" "cr3 st' = cr3 st"
    "firmware (kbytes st') rsdp rsdt la es"
    "\<And>va. dir_index va \<noteq> 768 \<Longrightarrow> frame_of va \<noteq> frame_of rsdt \<Longrightarrow>
      translate (ram st') (cr3 st) va = translate (ram st) (cr3 st) va"
proof -
  have big: "0x101000 \<le> rsdt" using t by (simp add: mappable_def Let_def)
  note b = rsdp_before_mapping [OF f big rsdp_found(3) [OF r]]
  obtain err st' where m:
    "(if translate (ram st) (cr3 st) (rsdt AND NOT 0xFFF) \<noteq> None then Inr (ERROR_OK, st)
      else virt_mem_map_page virt_mem_get_self_recursive_table (rsdt AND NOT 0xFFF) (rsdt AND NOT 0xFFF)
        VIRT_MEM_DEFAULT_PTE_FLAGS st) = Inr (err, st')"
    "pt_inv st'" "cr3 st' = cr3 st" "extends (with_page rsdt st) (kbytes st')"
    "\<And>va. dir_index va \<noteq> 768 \<Longrightarrow> frame_of va \<noteq> frame_of rsdt \<Longrightarrow>
      translate (ram st') (cr3 st) va = translate (ram st) (cr3 st) va"
    by (rule map_table_page [OF inv t]) (rule that, assumption+)
  have f': "firmware (kbytes st') rsdp rsdt la es" by (rule firmware_extends [OF f m(4)])
  then obtain hs1 madt hs2 where h: "rsdt_at (kbytes st') rsdt (hs1 @ madt # hs2)" "bytes_at (kbytes st') madt ACPI_MADT"
    "madt_at (kbytes st') madt la es" "\<forall>h \<in> set hs1 \<union> set hs2. other_table (kbytes st') h"
    unfolding firmware_def by blast
  obtain len where len: "kload32 (kbytes st') (rsdt + dt_length) = Inr len"
    "unat ((len - sizeof_dt_header) div 4) = length (hs1 @ madt # hs2)" by (rule rsdt_header [OF h(1)])
  have present: "virt_mem_is_page_present page st = Inr (translate (ram st) (cr3 st) page \<noteq> None)" for page
    by (rule is_page_present_eq) (use pt_inv_recursive [OF inv] in simp)
  have "rsdp_first_parse rsdp st g = Inr (0, st', counted la es g)"
    unfolding rsdp_first_parse_def Let_def present b res_bind_Inr m(1) len(1) prod.case rsdt_loops(1) [OF h len(2)]
    using rsdp_found(2) [OF r] by simp
  then show ?thesis using m(2,3,5) f' by (intro that)
qed

lemma second_pass:
  assumes r: "rsdp \<noteq> 0" and f: "firmware m rsdp rsdt la es"
    and g: "room g" "length (per_cpu_data_base g) = length (lapics_of es)"
  shows "if ids_match es \<and> irqs_legacy es then rsdp_parse rsdp junk m g = Inr (0, filled junk es g)
    else \<exists>e. rsdp_parse rsdp junk m g = Inl e"
proof -
  obtain hs1 madt hs2 where h: "m (rsdp + rsdp_revision) = Inr 0" "bytes_at m (rsdp + rsdp_rsdt_addr) (le32 rsdt)"
    "rsdt_at m rsdt (hs1 @ madt # hs2)" "bytes_at m madt ACPI_MADT"
    "madt_at m madt la es" "\<forall>h \<in> set hs1 \<union> set hs2. other_table m h"
    using f unfolding firmware_def by blast
  obtain len where len: "kload32 m (rsdt + dt_length) = Inr len"
    "unat ((len - sizeof_dt_header) div 4) = length (hs1 @ madt # hs2)" by (rule rsdt_header [OF h(3)])
  have "rsdp_parse rsdp junk m g = res_bind (madt_parse m junk madt g) (\<lambda>(err, g). if err \<noteq> 0 then Inr (1, g) else Inr (0, g))"
    using r h(1) kload32_le32 [OF h(2)] len rsdt_loops(2) [OF h(3-6) len(2)] by (simp add: rsdp_parse_def)
  then show ?thesis using madt_second_pass [OF h(5) g, of junk] by (auto split: if_splits)
qed

lemma ioapics_bound: "length (ioapics_of es) \<le> length (table_bytes es)"
  by (induction es rule: ioapics_of.induct) auto

section \<open>Properties\<close>

text \<open>
  C10. When the first root pointer in the firmware's area leads to a root table with one MADT, of
  up to 17 processors, and the page of the root table can be mapped, kernel_entry's part on ACPI
  panics if there is not exactly one I/O APIC, faults if a processor's two identifiers differ or
  an overridden interrupt is 16 or more, and else leaves page tables that translate every other
  page as before, two tables apart in the heap page, and every processor, the I/O APIC and the
  overrides of the MADT in the global system table.
\<close>

theorem setup_acpi_spec:
  assumes st: "pt_inv st" "mappable st rsdt"
    and fw: "rsdp_at (kbytes st) rsdp" "firmware (with_page rsdt st) rsdp rsdt lapic_addr es"
    and g: "processor_count g = 0" "ioapic_count g = 0" "length (per_cpu_ptrs g) = 256" "length (ioapic_overrides g) = 16"
    and page: "0 < unat page" "unat page mod 4096 = 0" "unat page + 4096 < 4294967296"
    and n: "n = length (lapics_of es)" "0 < n" "n \<le> 17"
  shows "if length (ioapics_of es) \<noteq> 1
    then setup_acpi page data0 gdt0 junk st hm g = Inl (Panic ''ioapic count != 1. System not ready for this case'')
    else if ids_match es \<and> irqs_legacy es
    then \<exists>data gdt st' hm' g'. setup_acpi page data0 gdt0 junk st hm g = Inr (page, data, gdt, st', hm', g') \<and>
      pt_inv st' \<and> cr3 st' = cr3 st \<and>
      (\<forall>va. dir_index va \<noteq> 768 \<longrightarrow> frame_of va \<noteq> frame_of rsdt \<longrightarrow>
        translate (ram st') (cr3 st) va = translate (ram st) (cr3 st) va) \<and>
      unat page \<le> unat data \<and> unat data + 204 * n \<le> unat gdt \<and> unat gdt + 8 * (5 + 3 * n) \<le> unat page + 4096 \<and>
      RSDP_base g' = rsdp \<and> lapic_base g' = lapic_addr \<and> processor_count g' = of_nat n \<and>
      per_cpu_data_base g' = cpus_of junk es \<and> length (gst_gdt_entries g') = 5 + 3 * n \<and> [ioapic_base g'] = ioapics_of es \<and>
      ioapic_overrides g' = set_overrides (overrides_of es) (ioapic_overrides g) \<and>
      (distinct (map fst (lapics_of es)) \<longrightarrow> (\<forall>j < n. per_cpu_ptrs g' ! unat (fst (lapics_of es ! j)) = Some j))
    else \<exists>e. setup_acpi page data0 gdt0 junk st hm g = Inl e"
proof -
  let ?g = "counted lapic_addr es (g\<lparr>RSDP_base := rsdp\<rparr>)" and ?n = "of_nat n :: u32"
  obtain st' where s: "rsdp_first_parse rsdp st (g\<lparr>RSDP_base := rsdp\<rparr>) = Inr (0, st', ?g)" "pt_inv st'" "cr3 st' = cr3 st"
    "firmware (kbytes st') rsdp rsdt lapic_addr es"
    "\<And>va. dir_index va \<noteq> 768 \<Longrightarrow> frame_of va \<noteq> frame_of rsdt \<Longrightarrow>
      translate (ram st') (cr3 st) va = translate (ram st) (cr3 st) va"
    by (rule first_pass [OF st fw]) (rule that, assumption+)
  have un: "unat ?n = n" using n(3) by (intro unat_of_nat_u32) simp
  have cnt: "processor_count ?g = ?n" using g(1) n(1) by (simp add: counted_def)
  obtain data gdt hm' where h: "alloc_processor_tables page ?n hm = Inr (page, data, gdt, hm')"
    "unat page \<le> unat data" "unat data + 204 * n \<le> unat gdt" "unat gdt + 8 * (5 + 3 * n) \<le> unat page + 4096"
    using processor_tables [OF page, of ?n hm] n(2,3) by (auto simp: un)
  define g1 where "g1 = ?g\<lparr>per_cpu_data_base := map data0 [0..<n],
    gst_gdt_entries := map gdt0 [0..<unat (GDT_GENERAL_ENTRIES + GDT_ENTRIES_PER_CPU * ?n)]\<rparr>"
  have "GDT_GENERAL_ENTRIES + GDT_ENTRIES_PER_CPU * ?n = of_nat (5 + 3 * n)"
    by (simp add: GDT_GENERAL_ENTRIES_def GDT_ENTRIES_PER_CPU_def)
  moreover have "unat (of_nat (5 + 3 * n) :: u32) = 5 + 3 * n" using n(3) by (intro unat_of_nat_u32) simp
  ultimately have gdts: "unat (GDT_GENERAL_ENTRIES + GDT_ENTRIES_PER_CPU * ?n) = 5 + 3 * n" by simp
  have "\<exists>madt. madt_at (kbytes st') madt lapic_addr es" using s(4) by (auto simp: firmware_def)
  then have few: "length (ioapics_of es) < 4294967296" using ioapics_bound [of es] by (auto simp: madt_at_def)
  have one: "ioapic_count ?g = 1 \<longleftrightarrow> length (ioapics_of es) = 1"
  proof -
    have "ioapic_count ?g = of_nat (length (ioapics_of es))" using g(2) by (simp add: counted_def)
    then show ?thesis using unat_of_nat_u32 [OF few] by (metis One_nat_def of_nat_1 unat_1)
  qed
  have room: "room g1" "length (per_cpu_data_base g1) = length (lapics_of es)"
    using g n cnt by (simp_all add: room_def g1_def counted_def)
  have code: "setup_acpi page data0 gdt0 junk st hm g =
      (if ioapic_count ?g \<noteq> 1 then Inl (Panic ''ioapic count != 1. System not ready for this case'')
       else res_bind (rsdp_parse rsdp junk (kbytes st') g1) (\<lambda>(err, g).
         if err \<noteq> 0 then Inl (Panic ''error occured during rsdp parsing!'') else Inr (page, data, gdt, st', hm', g)))"
    using rsdp_found(1,2) [OF fw(1)] s(1) h(1)
    by (simp add: setup_acpi_def Let_def cnt un g1_def)
  show ?thesis
  proof (cases "length (ioapics_of es) = 1 \<and> ids_match es \<and> irqs_legacy es")
    case True
    then obtain a where a: "ioapics_of es = [a]" by (auto simp: length_Suc_conv)
    have "rsdp_parse rsdp junk (kbytes st') g1 = Inr (0, filled junk es g1)"
      using second_pass [OF rsdp_found(2) [OF fw(1)] s(4) room, of junk] True by simp
    then have run: "setup_acpi page data0 gdt0 junk st hm g = Inr (page, data, gdt, st', hm', filled junk es g1)"
      using code one True by simp
    have ptrs: "distinct (map fst (lapics_of es)) \<longrightarrow>
        (\<forall>j < n. per_cpu_ptrs (filled junk es g1) ! unat (fst (lapics_of es ! j)) = Some j)"
      using set_ptrs_nth [of "map fst (lapics_of es)" _ "per_cpu_ptrs g" 0] g(3) n(1) by (simp add: filled_def g1_def counted_def)
    have "RSDP_base (filled junk es g1) = rsdp" "lapic_base (filled junk es g1) = lapic_addr"
      "processor_count (filled junk es g1) = ?n" "per_cpu_data_base (filled junk es g1) = cpus_of junk es"
      "length (gst_gdt_entries (filled junk es g1)) = 5 + 3 * n" "[ioapic_base (filled junk es g1)] = ioapics_of es"
      "ioapic_overrides (filled junk es g1) = set_overrides (overrides_of es) (ioapic_overrides g)"
      using g(1) n(1) a gdts by (simp_all add: filled_def g1_def counted_def)
    with run s(2,3,5) h(2-4) ptrs show ?thesis using True by auto
  next
    case False
    show ?thesis
    proof (cases "length (ioapics_of es) = 1")
      case True
      with False have bad: "(ids_match es \<and> irqs_legacy es) = False" by (simp only: simp_thms)
      have "\<exists>e. rsdp_parse rsdp junk (kbytes st') g1 = Inl e"
        using second_pass [OF rsdp_found(2) [OF fw(1)] s(4) room, of junk] by (simp only: bad if_False)
      then have "\<exists>e. setup_acpi page data0 gdt0 junk st hm g = Inl e" using code one True by auto
      then show ?thesis using True by (simp only: bad if_False simp_thms)
    next
      case False
      then show ?thesis using code one by simp
    qed
  qed
qed

section \<open>An example\<close>

text \<open>
  A root pointer in the page at 0xE0000, the root table and a MADT of two processors in the page at
  0x7FE0000, which is behind the counted blocks and not mapped.
\<close>

definition rsdp_words :: "(nat \<times> u32) list" where
  "rsdp_words = [(0, 0x20445352), (1, 0x20525450), (2, 0xDC), (4, 0x7FE0000)]"

definition table_words :: "(nat \<times> u32) list" where
  "table_words = [(1, 0x28), (9, 0x7FE0040), (16, 0x43495041),
     (17, 0x52), (25, 0xFEE00000), (26, 0x1), (27, 0x800), (28, 0x1), (29, 0x1010800), (30, 0x1), (31, 0xC01), (32, 0xFEC00000), (34, 0xA02), (35, 0x2)]"

definition acpi_machine :: vm_state where
  "acpi_machine = fold (\<lambda>(k, w). put_word 0x7FE0000 k w) table_words
     (fold (\<lambda>(k, w). put_word 0x102000 k w) rsdp_words (small_machine 0 0xE0))"

definition ex_madt :: "madt_entry list" where
  "ex_madt = [Lapic_entry 0 0 1, Lapic_entry 1 1 1, Ioapic_entry 0 0xFEC00000 0, Override_entry 0 0 2 0]"

lemma ex_madt_parts:
  "lapics_of ex_madt = [(0, 0, 1), (1, 1, 1)]" "ioapics_of ex_madt = [0xFEC00000]" "overrides_of ex_madt = [(0, 2)]"
  "length (table_bytes ex_madt) = 38" "\<forall>e \<in> set ex_madt. entry_ok e"
  by (simp_all add: ex_madt_def)

lemma small_machine_frame: "data_frame (small_machine 0 0xE0) 0x7FE0000"
proof -
  have "table_frame (small_machine 0 0xE0) l \<noteq> 0x7FE0000" if "l < 1024" "l \<noteq> 768" "bit (pde (small_machine 0 0xE0) l) 0" for l
    using small_machine_present(2) [OF _ _ _ that] by simp
  then show ?thesis by (simp add: data_frame_def frame_aligned_mod)
qed

lemma acpi_machine_tables:
  "pt_inv acpi_machine" "data_frame acpi_machine 0x102000" "data_frame acpi_machine 0x7FE0000"
  "pmem acpi_machine = pmem vm_machine" "cr3 acpi_machine = 0x100000"
  "dir_index va \<noteq> 768 \<Longrightarrow> translate (ram acpi_machine) 0x100000 va =
     (if dir_index va = 0 \<and> tab_index va = 0xE0 then Some (0x102000 + (va AND 0xFFF)) else None)"
proof -
  have small: "pt_inv (small_machine 0 0xE0)" "data_frame (small_machine 0 0xE0) 0x102000"
    by (rule small_machine_inv; simp)+
  have one: "\<forall>(k, w) \<in> set rsdp_words. k < 1024" by (simp add: rsdp_words_def)
  have two: "\<forall>(k, w) \<in> set table_words. k < 1024" by (simp add: table_words_def)
  let ?st = "fold (\<lambda>(k, w). put_word 0x102000 k w) rsdp_words (small_machine 0 0xE0)"
  note a = fold_put_words [OF small one]
  have st: "pt_inv ?st" "data_frame ?st 0x7FE0000" "cr3 ?st = 0x100000" "pmem ?st = pmem vm_machine"
    using a small_machine_frame by simp_all
  note b = fold_put_words [OF st(1,2) two, folded acpi_machine_def]
  show "pt_inv acpi_machine" "data_frame acpi_machine 0x102000" "data_frame acpi_machine 0x7FE0000"
    "pmem acpi_machine = pmem vm_machine" "cr3 acpi_machine = 0x100000"
    using a b st small(2) by simp_all
  assume d: "dir_index va \<noteq> 768"
  have "translate (ram acpi_machine) 0x100000 va = translate (ram ?st) 0x100000 va" using b d st(3) by simp
  also have "\<dots> = translate (ram (small_machine 0 0xE0)) (cr3 (small_machine 0 0xE0)) va" using a d by simp
  also have "\<dots> = (if dir_index va = 0 \<and> tab_index va = 0xE0 then Some (0x102000 + (va AND 0xFFF)) else None)"
    by (rule small_machine_translate) (use d in simp_all)
  finally show "translate (ram acpi_machine) 0x100000 va =
     (if dir_index va = 0 \<and> tab_index va = 0xE0 then Some (0x102000 + (va AND 0xFFF)) else None)" .
qed

lemma bytes_atI: "(\<And>i. i < length bs \<Longrightarrow> m (a + of_nat i) = Inr (bs ! i)) \<Longrightarrow> bytes_at m a bs"
proof (induction bs arbitrary: a)
  case (Cons b bs)
  have "m (a + 1 + of_nat i) = Inr (bs ! i)" if "i < length bs" for i
    using Cons.prems [of "Suc i"] that by (simp add: add.assoc)
  then show ?case using Cons.IH [of "a + 1"] Cons.prems [of 0] by simp
qed simp

lemma acpi_machine_pages:
  assumes k: "k < 4096"
  shows "kbytes acpi_machine (0xE0000 + of_nat k) = Inr (frame_byte acpi_machine 0x102000 k)"
    "with_page 0x7FE0000 acpi_machine (0xE0000 + of_nat k) = Inr (frame_byte acpi_machine 0x102000 k)"
    "with_page 0x7FE0000 acpi_machine (0x7FE0000 + of_nat k) = Inr (frame_byte acpi_machine 0x7FE0000 k)"
proof -
  have "off (0xE0000 :: u32) = 0" "frame_of (0xE0000 :: u32) = 0xE0" "off (0x7FE0000 :: u32) = 0" "frame_of (0x7FE0000 :: u32) = 0x7FE0"
    by (simp_all add: off_def)
  then have o: "off (0xE0000 + of_nat k :: u32) = k" "frame_of (0xE0000 + of_nat k :: u32) = 0xE0"
    "off (0x7FE0000 + of_nat k :: u32) = k" "frame_of (0x7FE0000 + of_nat k :: u32) = 0x7FE0"
    using within_page [of "0xE0000" k] within_page [of "0x7FE0000" k] k by simp_all
  have ix: "dir_index (0xE0000 + of_nat k) = 0" "tab_index (0xE0000 + of_nat k) = 0xE0"
    using o(2) same_page [of "0xE0000 + of_nat k" "0xE0000"] by (simp_all add: dir_index_def tab_index_def)
  have m: "maps acpi_machine (0xE0000 + of_nat k) 0x102000"
    using acpi_machine_tables(6) [of "0xE0000 + of_nat k"] by (simp add: maps_def ix acpi_machine_tables(2,4,5) vm_machine_used)
  show "kbytes acpi_machine (0xE0000 + of_nat k) = Inr (frame_byte acpi_machine 0x102000 k)"
    using maps_kbytes [OF m] o(1) by simp
  then show "with_page 0x7FE0000 acpi_machine (0xE0000 + of_nat k) = Inr (frame_byte acpi_machine 0x102000 k)"
    using m o(2) by (auto simp: with_page_def)
  have "(0x7FE0000 :: u32) AND NOT 0xFFF = 0x7FE0000" by simp
  then show "with_page 0x7FE0000 acpi_machine (0x7FE0000 + of_nat k) = Inr (frame_byte acpi_machine 0x7FE0000 k)"
    using o(3,4) unfolding with_page_def by (simp only:) simp
qed

lemma acpi_machine_bytes:
  assumes "k + length bs \<le> 4096"
  shows "map (frame_byte acpi_machine 0x102000) [k..<k + length bs] = bs \<Longrightarrow>
      bytes_at (kbytes acpi_machine) (0xE0000 + of_nat k) bs \<and> bytes_at (with_page 0x7FE0000 acpi_machine) (0xE0000 + of_nat k) bs"
    "map (frame_byte acpi_machine 0x7FE0000) [k..<k + length bs] = bs \<Longrightarrow>
      bytes_at (with_page 0x7FE0000 acpi_machine) (0x7FE0000 + of_nat k) bs"
proof -
  have nth: "f (k + i) = bs ! i" if "map f [k..<k + length bs] = bs" "i < length bs" for f :: "nat \<Rightarrow> u8" and i
    using arg_cong [OF that(1), of "\<lambda>xs. xs ! i"] that(2) by simp
  have a: "x + of_nat k + of_nat i = (x + of_nat (k + i) :: u32)" for x i by simp
  show "map (frame_byte acpi_machine 0x102000) [k..<k + length bs] = bs \<Longrightarrow>
      bytes_at (kbytes acpi_machine) (0xE0000 + of_nat k) bs \<and> bytes_at (with_page 0x7FE0000 acpi_machine) (0xE0000 + of_nat k) bs"
    by (intro conjI bytes_atI; unfold a; subst acpi_machine_pages) (use nth assms in simp_all)
  show "map (frame_byte acpi_machine 0x7FE0000) [k..<k + length bs] = bs \<Longrightarrow>
      bytes_at (with_page 0x7FE0000 acpi_machine) (0x7FE0000 + of_nat k) bs"
    by (intro bytes_atI; unfold a; subst acpi_machine_pages) (use nth assms in simp_all)
qed

lemma sum_bytes: "bytes_at m a bs \<Longrightarrow> sum_loop (length bs) m a s = Inr (s + sum_list bs)"
  by (induction bs arbitrary: a s) (simp_all add: add.assoc)

lemma acpi_machine_rsdp: "rsdp_at (kbytes acpi_machine) 0xE0000"
proof -
  let ?bs = "[0x52, 0x53, 0x44, 0x20, 0x50, 0x54, 0x52, 0x20] @ [0xDC, 0, 0, 0, 0, 0, 0, 0, 0, 0, 0xFE, 7] :: u8 list"
  have "map (frame_byte acpi_machine 0x102000) [0..<0 + length ?bs] = ?bs" by code_simp
  from acpi_machine_bytes(1) [OF _ this] have b: "bytes_at (kbytes acpi_machine) 0xE0000 ?bs" by simp
  then have "bytes_at (kbytes acpi_machine) 0xE0000 [0x52, 0x53, 0x44, 0x20, 0x50, 0x54, 0x52, 0x20]"
    unfolding bytes_at_append by (rule conjunct1)
  moreover have "ascii ''RSD PTR '' = [0x52, 0x53, 0x44, 0x20, 0x50, 0x54, 0x52, 0x20]" by code_simp
  ultimately have "same_bytes (kbytes acpi_machine) 0xE0000 (ascii ''RSD PTR '') = Inr True"
    using same_bytes_eq by fastforce
  moreover have "acpi_sum (kbytes acpi_machine) 0xE0000 sizeof_rsdp = Inr 0"
  proof -
    have len: "length ?bs = unat sizeof_rsdp" by (simp add: sizeof_rsdp_def)
    have sum: "0 + sum_list ?bs = 0" by code_simp
    show ?thesis using sum_bytes [OF b, of 0] unfolding len sum acpi_sum_def .
  qed
  ultimately show ?thesis by (simp add: rsdp_at_def rsdp_here_def exI [of _ 0])
qed

lemma acpi_machine_firmware: "firmware (with_page 0x7FE0000 acpi_machine) 0xE0000 0x7FE0000 0xFEE00000 ex_madt"
proof -
  let ?m = "with_page 0x7FE0000 acpi_machine"
  have table: "bytes_at ?m (0x7FE0000 + of_nat k) bs"
    if "map (frame_byte acpi_machine 0x7FE0000) [k..<k + length bs] = bs" "k + length bs \<le> 4096" for k bs
    by (rule acpi_machine_bytes(2) [OF that(2,1)])
  have "map (frame_byte acpi_machine 0x102000) [15..<15 + length [0, 0, 0, 0xFE, 7 :: u8]] = [0, 0, 0, 0xFE, 7]" by code_simp
  from acpi_machine_bytes(1) [OF _ this] have r: "?m (0xE0000 + rsdp_revision) = Inr 0"
    "bytes_at ?m (0xE0000 + rsdp_rsdt_addr) (le32 0x7FE0000)"
    by (simp_all add: rsdp_revision_def rsdp_rsdt_addr_def le32_def)
  have "map (frame_byte acpi_machine 0x7FE0000) [4..<4 + length (le32 40)] = le32 40"
    "map (frame_byte acpi_machine 0x7FE0000) [36..<36 + length (le32 0x7FE0040)] = le32 0x7FE0040"
    "map (frame_byte acpi_machine 0x7FE0000) [64..<64 + length ACPI_MADT] = ACPI_MADT"
    "map (frame_byte acpi_machine 0x7FE0000) [100..<100 + length (le32 0xFEE00000)] = le32 0xFEE00000"
    "map (frame_byte acpi_machine 0x7FE0000) [68..<68 + length (le32 82)] = le32 82"
    "map (frame_byte acpi_machine 0x7FE0000) [108..<108 + length (table_bytes ex_madt)] = table_bytes ex_madt"
    by code_simp+
  note t = this [THEN table]
  have "rsdt_at ?m 0x7FE0000 ([] @ 0x7FE0040 # [])"
    using t(1,2) by (simp add: rsdt_at_def dt_length_def rsdt_sdt_ptrs_def sizeof_dt_header_def)
  moreover have "bytes_at ?m 0x7FE0040 ACPI_MADT" using t(3) by simp
  moreover have "madt_at ?m 0x7FE0040 0xFEE00000 ex_madt"
    using t(4-6) ex_madt_parts(4,5)
    by (simp add: madt_at_def madt_lapic_addr_def dt_length_def sizeof_madt_def del: length_concat)
  ultimately show ?thesis using r unfolding firmware_def
    by (intro conjI exI [of _ "[] :: u32 list"] exI [of _ "0x7FE0040"]) simp_all
qed

lemma acpi_machine_mappable: "mappable acpi_machine 0x7FE0000"
proof -
  have "spare (pmem vm_machine) \<noteq> {}" using vm_machine_spare by force
  moreover have "translate (ram acpi_machine) 0x100000 0x7FE0000 = None"
    using acpi_machine_tables(6) [of "0x7FE0000"] by (simp add: dir_index_def)
  ultimately show ?thesis
    using acpi_machine_tables(3) by (simp add: mappable_def Let_def dir_index_def acpi_machine_tables(4,5) vm_machine_def)
qed

theorem setup_acpi_spec_witness:
  "\<exists>data gdt st' hm' g'. setup_acpi 0x103000 (\<lambda>_. blank_cpu) (\<lambda>_. \<lparr>gdt_limit_low = 0, gdt_base_low = 0,
       gdt_base_middle = 0, gdt_access = 0, gdt_flags = 0, gdt_base_high = 0\<rparr>) blank_cpu acpi_machine (\<lambda>_. 0) gst_zero =
     Inr (0x103000, data, gdt, st', hm', g') \<and> pt_inv st' \<and> unat data + 408 \<le> unat gdt \<and>
     RSDP_base g' = 0xE0000 \<and> lapic_base g' = 0xFEE00000 \<and> ioapic_base g' = 0xFEC00000 \<and> per_cpu_ptrs g' ! 1 = Some 1"
proof -
  have es: "length (ioapics_of ex_madt) = 1" "ids_match ex_madt \<and> irqs_legacy ex_madt"
    "distinct (map fst (lapics_of ex_madt))" "fst (lapics_of ex_madt ! 1) = 1" "length (lapics_of ex_madt) = 2"
    by (simp_all add: ex_madt_parts)
  have g: "processor_count gst_zero = 0" "ioapic_count gst_zero = 0" "length (per_cpu_ptrs gst_zero) = 256"
    "length (ioapic_overrides gst_zero) = 16" by (simp_all add: gst_zero_def)
  let ?gdt0 = "\<lambda>_ :: nat. \<lparr>gdt_limit_low = 0, gdt_base_low = 0, gdt_base_middle = 0, gdt_access = 0, gdt_flags = 0,
    gdt_base_high = 0\<rparr>"
  have page: "0 < unat (0x103000 :: u32)" "unat (0x103000 :: u32) mod 4096 = 0" "unat (0x103000 :: u32) + 4096 < 4294967296"
    and n: "2 = length (lapics_of ex_madt)" "(0::nat) < 2" "(2::nat) \<le> 17" using es(5) by simp_all
  have one: "(length (ioapics_of ex_madt) \<noteq> 1) = False" and ok: "(ids_match ex_madt \<and> irqs_legacy ex_madt) = True"
    using es(1,2) by (simp_all only: simp_thms)
  obtain data gdt st' hm' g' where r: "setup_acpi 0x103000 (\<lambda>_. blank_cpu) ?gdt0 blank_cpu acpi_machine (\<lambda>_. 0) gst_zero =
      Inr (0x103000, data, gdt, st', hm', g')" "pt_inv st'" "unat data + 204 * 2 \<le> unat gdt" "RSDP_base g' = 0xE0000"
    "lapic_base g' = 0xFEE00000" "[ioapic_base g'] = ioapics_of ex_madt"
    "\<forall>j < 2. per_cpu_ptrs g' ! unat (fst (lapics_of ex_madt ! j)) = Some j"
    using setup_acpi_spec [OF acpi_machine_tables(1) acpi_machine_mappable acpi_machine_rsdp acpi_machine_firmware g page n,
      of "\<lambda>_. blank_cpu" ?gdt0 blank_cpu "\<lambda>_. 0", unfolded one ok if_True if_False] es(3) by blast
  have "per_cpu_ptrs g' ! 1 = Some 1" using r(7) [rule_format, of 1] es(4) by simp
  moreover have "ioapic_base g' = 0xFEC00000" using r(6) ex_madt_parts(2) by simp
  moreover have "unat data + 408 \<le> unat gdt" using r(3) by simp
  ultimately show ?thesis using r(1,2,4,5) by blast
qed

end
