(* ===== verification/Elf.thy ===== *)
theory Elf
  imports Kernel_Memory Libk_Memory
begin

text \<open>
  Loading an ELF file that lies in memory, \<^verbatim>\<open>elf.c\<close>.  Headers and file are read, segments
  written through the page tables, byte for byte as the code does; the messages are left out.
\<close>

unbundle bit_operations_syntax

section \<open>Stores\<close>

definition put_byte :: "u32 \<Rightarrow> u8 \<Rightarrow> vm_state \<Rightarrow> vm_state res" where
  "put_byte a b st =
     (case translate (ram st) (cr3 st) a of
        None \<Rightarrow> page_fault_handler 2
      | Some pa \<Rightarrow>
          let w = pa - pa mod 4; i = 8 * unat (pa mod 4) in
          Inr (st\<lparr>ram := (ram st)(w := (ram st w AND NOT (push_bit i 0xFF)) OR push_bit i (ucast b))\<rparr>))"

definition kstore32 :: "u32 \<Rightarrow> u32 \<Rightarrow> vm_state \<Rightarrow> vm_state res" where
  "kstore32 a w st =
     res_bind (put_byte a (ucast w) st) (\<lambda>st.
     res_bind (put_byte (a + 1) (ucast (drop_bit 8 w)) st) (\<lambda>st.
     res_bind (put_byte (a + 2) (ucast (drop_bit 16 w)) st) (\<lambda>st.
       put_byte (a + 3) (ucast (drop_bit 24 w)) st)))"

text \<open>memset and memcpy, their loops over bytes and then over words.\<close>

primrec kset_bytes :: "nat \<Rightarrow> u32 \<Rightarrow> u8 \<Rightarrow> vm_state \<Rightarrow> vm_state res" where
  "kset_bytes 0 ptr v st = Inr st"
| "kset_bytes (Suc n) ptr v st = res_bind (put_byte ptr v st) (kset_bytes n (ptr + 1) v)"

primrec kset_words :: "nat \<Rightarrow> u32 \<Rightarrow> u32 \<Rightarrow> vm_state \<Rightarrow> vm_state res" where
  "kset_words 0 ptr w st = Inr st"
| "kset_words (Suc n) ptr w st = res_bind (kstore32 ptr w st) (kset_words n (ptr + 4) w)"

definition kmemset :: "u32 \<Rightarrow> u8 \<Rightarrow> u32 \<Rightarrow> vm_state \<Rightarrow> vm_state res" where
  "kmemset base v len st =
     (let index = len mod 4 in
      res_bind (kset_bytes (unat index) base v st)
        (kset_words (unat ((len - index) div 4)) (base + index) (spread32 v)))"

primrec kcopy_bytes :: "nat \<Rightarrow> u32 \<Rightarrow> u32 \<Rightarrow> vm_state \<Rightarrow> vm_state res" where
  "kcopy_bytes 0 d s st = Inr st"
| "kcopy_bytes (Suc n) d s st =
     res_bind (kbytes st s) (\<lambda>b. res_bind (put_byte d b st) (kcopy_bytes n (d + 1) (s + 1)))"

primrec kcopy_words :: "nat \<Rightarrow> u32 \<Rightarrow> u32 \<Rightarrow> vm_state \<Rightarrow> vm_state res" where
  "kcopy_words 0 d s st = Inr st"
| "kcopy_words (Suc n) d s st =
     res_bind (kload32 (kbytes st) s) (\<lambda>w. res_bind (kstore32 d w st) (kcopy_words n (d + 4) (s + 4)))"

definition kmemcpy :: "u32 \<Rightarrow> u32 \<Rightarrow> u32 \<Rightarrow> vm_state \<Rightarrow> vm_state res" where
  "kmemcpy dest source len st =
     (let index = len mod 4 in
      res_bind (kcopy_bytes (unat index) dest source st)
        (kcopy_words (unat ((len - index) div 4)) (dest + index) (source + index)))"

section \<open>Headers\<close>

definition PT_LOAD :: u32 where "PT_LOAD = 1"
definition PF_WRITE :: u32 where "PF_WRITE = 2"

text \<open>
  Offsets of the fields the code reads: in elf32_ehdr_t, where the field after the 15 bytes of
  the identification lies at 16, and in elf32_program_hdr_t.
\<close>

definition e_phoff :: u32 where "e_phoff = 28"
definition e_phentsize :: u32 where "e_phentsize = 42"
definition e_phnum :: u32 where "e_phnum = 44"

record elf32_program_hdr =
  ph_type :: u32
  ph_offset :: u32
  ph_vaddr :: u32
  ph_paddr :: u32
  ph_filesz :: u32
  ph_memsz :: u32
  ph_flags :: u32
  ph_align :: u32

definition phdr_p_type :: u32 where "phdr_p_type = 0"
definition phdr_p_offset :: u32 where "phdr_p_offset = 4"
definition phdr_p_vaddr :: u32 where "phdr_p_vaddr = 8"
definition phdr_p_filesz :: u32 where "phdr_p_filesz = 16"
definition phdr_p_memsz :: u32 where "phdr_p_memsz = 20"
definition phdr_p_flags :: u32 where "phdr_p_flags = 24"

section \<open>Loading\<close>

text \<open>The answer of virt_mem_alloc_page_f is not looked at.\<close>

definition elf_load_program_header :: "u32 \<Rightarrow> u32 \<Rightarrow> vm_state \<Rightarrow> (error_t \<times> vm_state) res" where
  "elf_load_program_header hdr phdr st =
     res_bind (kload32 (kbytes st) (phdr + phdr_p_type)) (\<lambda>ty.
     if ty AND PT_LOAD = 0 then Inr (ERROR_OCCUR, st)
     else
       res_bind (kload32 (kbytes st) (phdr + phdr_p_flags)) (\<lambda>fl.
       let flags = I86_PTE_USER OR I86_PTE_PRESENT;
           flags = (if fl AND PF_WRITE \<noteq> 0 then flags OR I86_PTE_WRITABLE else flags) in
       res_bind (kload32 (kbytes st) (phdr + phdr_p_vaddr)) (\<lambda>vaddr.
       res_bind (virt_mem_alloc_page_f vaddr flags st) (\<lambda>(_, st).
       res_bind (kload32 (kbytes st) (phdr + phdr_p_vaddr)) (\<lambda>vaddr.
       res_bind (kload32 (kbytes st) (phdr + phdr_p_memsz)) (\<lambda>memsz.
       res_bind (kmemset vaddr 0 memsz st) (\<lambda>st.
       res_bind (kload32 (kbytes st) (phdr + phdr_p_vaddr)) (\<lambda>vaddr.
       res_bind (kload32 (kbytes st) (phdr + phdr_p_offset)) (\<lambda>offset.
       res_bind (kload32 (kbytes st) (phdr + phdr_p_filesz)) (\<lambda>filesz.
       res_bind (kmemcpy vaddr (hdr + offset) filesz st) (\<lambda>st. Inr (ERROR_OK, st))))))))))))"

text \<open>
  The loop of elf_load from segment \<open>i\<close> on.  The number of segments is read again in every round,
  but it has 16 bits.
\<close>

function elf_load_from :: "u32 \<Rightarrow> nat \<Rightarrow> vm_state \<Rightarrow> (error_t \<times> vm_state) res" where
  "elf_load_from hdr i st =
     res_bind (kload16 (kbytes st) (hdr + e_phnum)) (\<lambda>phnum.
     if i < unat phnum then
       res_bind (kload32 (kbytes st) (hdr + e_phoff)) (\<lambda>phoff.
       res_bind (kload16 (kbytes st) (hdr + e_phentsize)) (\<lambda>phentsize.
       res_bind (elf_load_program_header hdr (hdr + phoff + of_nat i * ucast phentsize) st) (\<lambda>(err, st).
         if err \<noteq> ERROR_OK then Inr (ERROR_OCCUR, st) else elf_load_from hdr (Suc i) st)))
     else Inr (ERROR_OK, st))"
  by pat_completeness auto
termination
proof (relation "measure (\<lambda>(hdr, i, st). 65536 - i)", goal_cases)
  case (2 hdr i st phnum)
  then show ?case using unat_u16_less [of phnum] by simp
qed simp

declare elf_load_from.simps [simp del]

definition elf_load :: "u32 \<Rightarrow> vm_state \<Rightarrow> (error_t \<times> vm_state) res" where
  "elf_load hdr st = elf_load_from hdr 0 st"

end
