(* ===== verification/Elf_Props.thy ===== *)
theory Elf_Props
  imports Elf Page_Bytes
begin

text \<open>
  What loading an ELF file does to memory: each segment that fits in its page ends up at its
  address, zeros behind it, and nothing else that the tables map changes.  The loader goes through
  the program headers in order and stops at the first whose type has bit 0 clear.
\<close>

unbundle bit_operations_syntax

section \<open>Writing into a frame\<close>

text \<open>From \<open>st\<close> to \<open>st'\<close> only bytes of the frame \<open>f\<close> changed.\<close>

definition only_frame :: "u32 \<Rightarrow> vm_state \<Rightarrow> vm_state \<Rightarrow> bool" where
  "only_frame f st st' \<longleftrightarrow> pt_inv st' \<and> pmem st' = pmem st \<and> cr3 st' = cr3 st \<and>
     (\<forall>g. data_frame st' g = data_frame st g) \<and>
     (\<forall>va. dir_index va \<noteq> 768 \<longrightarrow> translate (ram st') (cr3 st) va = translate (ram st) (cr3 st) va) \<and>
     (\<forall>g k. frame_aligned g \<longrightarrow> g \<noteq> f \<longrightarrow> k < 4096 \<longrightarrow> frame_byte st' g k = frame_byte st g k)"

lemma only_frame_refl: "pt_inv st \<Longrightarrow> only_frame f st st"
  by (simp add: only_frame_def)

lemma only_frame_trans: "only_frame f st st1 \<Longrightarrow> only_frame f st1 st2 \<Longrightarrow> only_frame f st st2"
  by (simp add: only_frame_def)

lemma only_frame_maps: "only_frame f st st' \<Longrightarrow> maps st' x g \<longleftrightarrow> maps st x g"
  by (auto simp: only_frame_def maps_def)

lemma only_frame_kbytes:
  assumes "only_frame f st st'" "maps st x g" "g \<noteq> f"
  shows "kbytes st' x = kbytes st x"
  using maps_kbytes [OF assms(2)] maps_kbytes [of st' x g] only_frame_maps [OF assms(1), of x g] assms
  by (simp add: only_frame_def maps_def data_frame_def)

lemma put_byte_ok:
  assumes inv: "pt_inv st" and x: "maps st x f"
  shows "\<exists>st'. put_byte x b st = Inr st' \<and> only_frame f st st' \<and>
    (\<forall>k < 4096. frame_byte st' f k = (if k = off x then b else frame_byte st f k))"
proof -
  let ?k = "off x"
  let ?st = "put_word f (?k div 4) (set_word_byte (?k mod 4) b (ram st (f + 4 * of_nat (?k div 4)))) st"
  have f: "data_frame st f" "frame_aligned f" "?k div 4 < 1024"
    using x less_mult_imp_div_less [of ?k 1024 4] by (simp_all add: maps_def data_frame_def)
  note t = put_word_tables [OF inv f(1,3)]
  have tr: "translate (ram st) (cr3 st) x = Some (f + of_nat ?k)" using x by (simp add: maps_def and_off)
  have "put_byte x b st = Inr ?st"
    unfolding put_byte_def tr option.case Let_def frame_address [OF f(2) off_less] put_word_def set_word_byte_def ..
  moreover have word: "ram ?st (g + 4 * of_nat j) = (if g = f \<and> j = ?k div 4
      then set_word_byte (?k mod 4) b (ram st (f + 4 * of_nat (?k div 4))) else ram st (g + 4 * of_nat j))"
    if "frame_aligned g" "j < 1024" for g j
    using entry_eq_iff [OF that(1) f(2) that(2) f(3)] by (simp add: put_word_def)
  have "only_frame f st ?st"
    using t word by (simp add: only_frame_def frame_byte_def) (simp add: put_word_def)
  moreover have "frame_byte ?st f k = (if k = ?k then b else frame_byte st f k)" if "k < 4096" for k
  proof -
    have "k = ?k \<longleftrightarrow> k div 4 = ?k div 4 \<and> k mod 4 = ?k mod 4" by (metis mult_div_mod_eq)
    then show ?thesis using word [OF f(2), of "k div 4"] that by (auto simp: frame_byte_def word_byte_set)
  qed
  ultimately show ?thesis by blast
qed

section \<open>Many bytes\<close>

primrec put_list :: "u32 \<Rightarrow> u8 list \<Rightarrow> vm_state \<Rightarrow> vm_state res" where
  "put_list x [] st = Inr st"
| "put_list x (b # bs) st = res_bind (put_byte x b st) (put_list (x + 1) bs)"

lemma put_list_append:
  "put_list x (as @ bs) st = res_bind (put_list x as st) (put_list (x + of_nat (length as)) bs)"
proof (induction as arbitrary: x st)
  case (Cons a as)
  have "put_list (x + 1) (as @ bs) = (\<lambda>st. res_bind (put_list (x + 1) as st) (put_list (x + of_nat (length (a # as))) bs))"
    using Cons.IH [of "x + 1"] by (simp add: fun_eq_iff add.assoc)
  then show ?case by (simp add: res_bind_assoc)
qed simp

text \<open>The \<open>n\<close> addresses from \<open>x\<close> on are the bytes of \<open>f\<close> from \<open>k\<close> on.\<close>

definition covers :: "vm_state \<Rightarrow> u32 \<Rightarrow> nat \<Rightarrow> u32 \<Rightarrow> nat \<Rightarrow> bool" where
  "covers st x n f k \<longleftrightarrow> (\<forall>i < n. maps st (x + of_nat i) f \<and> off (x + of_nat i) = k + i)"

lemma covers_Suc:
  assumes "covers st x (Suc n) f k"
  shows "maps st x f" "off x = k" "covers st (x + 1) n f (Suc k)"
proof -
  show "maps st x f" "off x = k" using assms [unfolded covers_def, rule_format, of 0] by simp_all
  have "maps st (x + 1 + of_nat i) f \<and> off (x + 1 + of_nat i) = Suc k + i" if "i < n" for i
    using assms [unfolded covers_def, rule_format, of "Suc i"] that by (simp add: add.assoc)
  then show "covers st (x + 1) n f (Suc k)" by (simp add: covers_def)
qed

lemma covers_split:
  assumes "covers st x (m + n) f k"
  shows "covers st x m f k" "covers st (x + of_nat m) n f (k + m)"
proof -
  have "maps st (x + of_nat m + of_nat i) f \<and> off (x + of_nat m + of_nat i) = k + m + i" if "i < n" for i
    using assms [unfolded covers_def, rule_format, of "m + i"] that by (simp add: add.assoc)
  then show "covers st (x + of_nat m) n f (k + m)" by (simp add: covers_def)
qed (use assms in \<open>simp add: covers_def\<close>)

lemma covers_only_frame: "only_frame g st st' \<Longrightarrow> covers st' x n f k \<longleftrightarrow> covers st x n f k"
  by (simp add: covers_def only_frame_maps)

lemma maps_covers:
  assumes "maps st x f" "off x + n \<le> 4096"
  shows "covers st x n f (off x)"
  using within_page [of x] maps_same_page [OF assms(1)] assms(2) by (simp add: covers_def)

lemma put_list_ok:
  assumes "pt_inv st" "covers st x (length bs) f k"
  shows "\<exists>st'. put_list x bs st = Inr st' \<and> only_frame f st st' \<and>
    (\<forall>j < 4096. frame_byte st' f j = (if k \<le> j \<and> j < k + length bs then bs ! (j - k) else frame_byte st f j))"
  using assms
proof (induction bs arbitrary: x k st)
  case Nil
  then show ?case by (auto simp: only_frame_refl)
next
  case (Cons b bs)
  note c = covers_Suc [OF Cons.prems(2) [unfolded length_Cons]]
  obtain st1 where st1: "put_byte x b st = Inr st1" "only_frame f st st1"
    "\<And>j. j < 4096 \<Longrightarrow> frame_byte st1 f j = (if j = k then b else frame_byte st f j)"
    using put_byte_ok [OF Cons.prems(1) c(1), of b] c(2) by auto
  have "pt_inv st1" "covers st1 (x + 1) (length bs) f (Suc k)"
    using st1(2) c(3) by (simp_all add: covers_only_frame) (simp add: only_frame_def)
  from Cons.IH [OF this] obtain st2 where st2: "put_list (x + 1) bs st1 = Inr st2" "only_frame f st1 st2"
    "\<And>j. j < 4096 \<Longrightarrow> frame_byte st2 f j =
      (if Suc k \<le> j \<and> j < Suc k + length bs then bs ! (j - Suc k) else frame_byte st1 f j)" by blast
  have "frame_byte st2 f j = (if k \<le> j \<and> j < k + length (b # bs) then (b # bs) ! (j - k) else frame_byte st f j)"
    if "j < 4096" for j
  proof (cases "j \<le> k")
    case True
    then show ?thesis using st2(3) [OF that] st1(3) [OF that] by auto
  next
    case False
    then have "j - k = Suc (j - Suc k)" by simp
    with False show ?thesis using st2(3) [OF that] st1(3) [OF that] by auto
  qed
  then show ?case
    using st1(1) st2(1) only_frame_trans [OF st1(2) st2(2)] by auto
qed

section \<open>memset and memcpy\<close>

lemma kset_bytes_list: "kset_bytes n x v = put_list x (replicate n v)"
proof (induction n arbitrary: x)
  case (Suc n)
  show ?case by (rule ext) (simp add: Suc.IH)
qed (simp add: fun_eq_iff)

lemma kstore32_list:
  "kstore32 x w st = put_list x [ucast w, ucast (drop_bit 8 w), ucast (drop_bit 16 w), ucast (drop_bit 24 w)] st"
proof -
  have nil: "put_list y [] = Inr" for y by (rule ext) simp
  have id: "res_bind m Inr = m" for m :: "vm_state res" by (cases m) simp_all
  have "x + 1 + 1 = x + 2" "x + 2 + 1 = x + 3" by simp_all
  moreover have cons: "put_list y (b # bs) = (\<lambda>st. res_bind (put_byte y b st) (put_list (y + 1) bs))" for y b bs
    by (rule ext) simp
  ultimately show ?thesis by (simp only: kstore32_def nil cons id)
qed

lemma kset_words_list: "kset_words n x (spread32 v) = put_list x (replicate (4 * n) v)"
proof (induction n arbitrary: x)
  case (Suc n)
  have "replicate (4 * Suc n) v = [v, v, v, v] @ replicate (4 * n) v" by (simp add: numeral_eq_Suc)
  then have "put_list x (replicate (4 * Suc n) v) st = res_bind (put_list x [v, v, v, v] st) (put_list (x + 4) (replicate (4 * n) v))"
    for st by (simp only: put_list_append) simp
  moreover have "kstore32 x (spread32 v) st = put_list x [v, v, v, v] st" for st unfolding kstore32_list by simp
  ultimately show ?case by (intro ext) (simp only: kset_words.simps Suc.IH)
qed (simp add: fun_eq_iff)

lemma word_split:
  fixes len :: u32
  shows "unat len = unat (len mod 4) + 4 * unat ((len - len mod 4) div 4)"
proof -
  have le: "len mod 4 \<le> len" by (simp add: word_le_nat_alt unat_mod)
  have "unat (len - len mod 4) = unat len - unat len mod 4" using unat_sub [OF le] by (simp add: unat_mod)
  then have "unat ((len - len mod 4) div 4) = unat len div 4" by (simp add: unat_div minus_mod_eq_mult_div)
  then show ?thesis by (simp add: unat_mod)
qed

lemma kmemset_list: "kmemset x v len st = put_list x (replicate (unat len) v) st"
proof -
  let ?i = "unat (len mod 4)" and ?n = "unat ((len - len mod 4) div 4)"
  have "replicate (unat len) v = replicate ?i v @ replicate (4 * ?n) v"
    unfolding replicate_add [symmetric] word_split [of len, symmetric] ..
  then show ?thesis
    by (simp add: kmemset_def Let_def put_list_append kset_bytes_list kset_words_list)
qed

text \<open>The bytes \<open>bs\<close> can be read at \<open>s\<close>, from frames other than \<open>f\<close>.\<close>

definition source :: "vm_state \<Rightarrow> u32 \<Rightarrow> u32 \<Rightarrow> u8 list \<Rightarrow> bool" where
  "source st f s bs \<longleftrightarrow> (\<forall>i < length bs. \<exists>g. g \<noteq> f \<and> maps st (s + of_nat i) g \<and> kbytes st (s + of_nat i) = Inr (bs ! i))"

lemma source_Cons: "source st f s (b # bs) \<longleftrightarrow>
  (\<exists>g. g \<noteq> f \<and> maps st s g) \<and> kbytes st s = Inr b \<and> source st f (s + 1) bs"
proof -
  have "(\<forall>i < Suc n. P i) \<longleftrightarrow> P 0 \<and> (\<forall>i < n. P (Suc i))" for n and P :: "nat \<Rightarrow> bool"
    by (auto simp: less_Suc_eq_0_disj)
  then show ?thesis by (auto simp: source_def add.assoc)
qed

lemma source_only_frame: "only_frame f st st' \<Longrightarrow> source st f s bs \<Longrightarrow> source st' f s bs"
proof -
  assume o: "only_frame f st st'" and s: "source st f s bs"
  have "\<exists>g. g \<noteq> f \<and> maps st' (s + of_nat i) g \<and> kbytes st' (s + of_nat i) = Inr (bs ! i)" if i: "i < length bs" for i
  proof -
    obtain g where g: "g \<noteq> f" "maps st (s + of_nat i) g" "kbytes st (s + of_nat i) = Inr (bs ! i)"
      using s i unfolding source_def by blast
    then show ?thesis using only_frame_kbytes [OF o g(2,1)] only_frame_maps [OF o] by (intro exI [of _ g]) simp
  qed
  then show ?thesis by (simp add: source_def)
qed

lemma kcopy_bytes_list:
  assumes "pt_inv st" "covers st d (length bs) f k" "source st f s bs"
  shows "kcopy_bytes (length bs) d s st = put_list d bs st"
  using assms
proof (induction bs arbitrary: d s k st)
  case (Cons b bs)
  note c = covers_Suc [OF Cons.prems(2) [unfolded length_Cons]]
  have b: "kbytes st s = Inr b" and src: "source st f (s + 1) bs" using Cons.prems(3) by (simp_all add: source_Cons)
  obtain st1 where st1: "put_byte d b st = Inr st1" "only_frame f st st1" using put_byte_ok [OF Cons.prems(1) c(1)] by blast
  have "pt_inv st1" "covers st1 (d + 1) (length bs) f (Suc k)"
    using st1(2) c(3) by (simp_all add: covers_only_frame) (simp add: only_frame_def)
  from Cons.IH [OF this source_only_frame [OF st1(2) src]] show ?case using b st1(1) by simp
qed simp

lemma join_bytes:
  fixes b0 b1 b2 b3 :: u8
  defines "w \<equiv> (ucast b0 OR push_bit 8 (ucast b1) OR push_bit 16 (ucast b2) OR push_bit 24 (ucast b3) :: u32)"
  shows "ucast w = b0" "ucast (drop_bit 8 w) = b1" "ucast (drop_bit 16 w) = b2" "ucast (drop_bit 24 w) = b3"
  unfolding w_def by (rule bit_word_eqI; auto simp: bit_simps dest: bit_imp_le_length)+

lemma kcopy_words_list:
  assumes "pt_inv st" "covers st d (length bs) f k" "source st f s bs" "length bs = 4 * n"
  shows "kcopy_words n d s st = put_list d bs st"
  using assms
proof (induction n arbitrary: d s k st bs)
  case (Suc n)
  obtain b0 b1 b2 b3 cs where bs: "bs = [b0, b1, b2, b3] @ cs" "length cs = 4 * n"
    using Suc.prems(4) by (auto simp: numeral_eq_Suc length_Suc_conv)
  define w where "w = (ucast b0 OR push_bit 8 (ucast b1) OR push_bit 16 (ucast b2) OR push_bit 24 (ucast b3) :: u32)"
  have load: "kload32 (kbytes st) s = Inr w" and src: "source st f (s + 4) cs"
    using Suc.prems(3) by (simp_all add: bs source_Cons kload32_def w_def add.assoc)
  have "kstore32 d w st = put_list d [b0, b1, b2, b3] st"
    unfolding kstore32_list w_def join_bytes ..
  moreover have four: "covers st d (length [b0, b1, b2, b3]) f k" and rest: "covers st (d + 4) (length cs) f (k + 4)"
  proof -
    have cov: "covers st d (4 + 4 * n) f k" using Suc.prems(2) unfolding Suc.prems(4) by simp
    have "length [b0, b1, b2, b3] = 4" by simp
    with covers_split [OF cov] show "covers st d (length [b0, b1, b2, b3]) f k" "covers st (d + 4) (length cs) f (k + 4)"
      unfolding bs(2) by (simp_all only: of_nat_numeral)
  qed
  then obtain st1 where st1: "put_list d [b0, b1, b2, b3] st = Inr st1" "only_frame f st st1"
    using put_list_ok [OF Suc.prems(1) four] by blast
  have "pt_inv st1" "covers st1 (d + 4) (length cs) f (k + 4)"
    using st1(2) rest by (simp_all add: covers_only_frame) (simp add: only_frame_def)
  note ih = Suc.IH [OF this source_only_frame [OF st1(2) src] bs(2)]
  have "put_list d bs st = res_bind (put_list d [b0, b1, b2, b3] st) (put_list (d + 4) cs)"
    unfolding bs(1) put_list_append by simp
  ultimately show ?case using load st1(1) ih by simp
qed simp

lemma source_append:
  "source st f s (as @ bs) \<longleftrightarrow> source st f s as \<and> source st f (s + of_nat (length as)) bs"
proof -
  have "(\<forall>i < m + n. P i) \<longleftrightarrow> (\<forall>i < m. P i) \<and> (\<forall>i < n. P (m + i))" for m n and P :: "nat \<Rightarrow> bool"
    by (metis add_less_cancel_left le_Suc_ex linorder_not_le trans_less_add1)
  then show ?thesis by (simp add: source_def nth_append add.assoc)
qed

lemma kmemcpy_list:
  assumes inv: "pt_inv st" and d: "covers st d (length bs) f k" and s: "source st f s bs" and len: "length bs = unat len"
  shows "kmemcpy d s len st = put_list d bs st"
proof -
  let ?i = "unat (len mod 4)" and ?n = "unat ((len - len mod 4) div 4)"
  define as where "as = take ?i bs"
  define cs where "cs = drop ?i bs"
  have bs: "bs = as @ cs" and la: "length as = ?i" and lc: "length cs = 4 * ?n"
    using len word_split [of len] by (simp_all add: as_def cs_def)
  have d': "covers st d (length as) f k" "covers st (d + of_nat (length as)) (length cs) f (k + length as)"
    using covers_split [of st d "length as" "length cs" f k] d by (simp_all add: bs)
  have s': "source st f s as" "source st f (s + of_nat (length as)) cs" using s by (simp_all add: bs source_append)
  obtain st1 where st1: "put_list d as st = Inr st1" "only_frame f st st1" using put_list_ok [OF inv d'(1)] by blast
  have st1': "pt_inv st1" "covers st1 (d + of_nat (length as)) (length cs) f (k + length as)"
    using st1(2) d'(2) by (simp_all add: covers_only_frame) (simp add: only_frame_def)
  have "kcopy_bytes ?i d s st = Inr st1" using kcopy_bytes_list [OF inv d'(1) s'(1)] st1(1) la by simp
  moreover have "kcopy_words ?n (d + len mod 4) (s + len mod 4) st1 = put_list (d + len mod 4) cs st1"
    using kcopy_words_list [OF st1' source_only_frame [OF st1(2) s'(2)] lc] la by simp
  moreover have "put_list d bs st = put_list (d + len mod 4) cs st1"
    unfolding bs put_list_append using st1(1) la by simp
  ultimately show ?thesis by (simp add: kmemcpy_def Let_def)
qed

section \<open>What the loader reads\<close>

text \<open>The bytes \<open>bs\<close> lie at \<open>a\<close>, in mapped pages outside \<open>P\<close>.\<close>

definition readable :: "vm_state \<Rightarrow> nat set \<Rightarrow> u32 \<Rightarrow> u8 list \<Rightarrow> bool" where
  "readable st P a bs \<longleftrightarrow> (\<forall>i < length bs. frame_of (a + of_nat i) \<notin> P \<and> (\<exists>g. maps st (a + of_nat i) g) \<and>
     kbytes st (a + of_nat i) = Inr (bs ! i))"

lemma readable_Cons: "readable st P a (b # bs) \<longleftrightarrow>
  frame_of a \<notin> P \<and> (\<exists>g. maps st a g) \<and> kbytes st a = Inr b \<and> readable st P (a + 1) bs"
proof -
  have "(\<forall>i < Suc n. Q i) \<longleftrightarrow> Q 0 \<and> (\<forall>i < n. Q (Suc i))" for n and Q :: "nat \<Rightarrow> bool"
    by (auto simp: less_Suc_eq_0_disj)
  then show ?thesis by (auto simp: readable_def add.assoc)
qed

lemma readable_bytes_at: "readable st P a bs \<Longrightarrow> bytes_at (kbytes st) a bs"
  by (induction bs arbitrary: a) (simp_all add: readable_Cons)

lemma readable_load:
  "readable st P a (le32 w) \<Longrightarrow> kload32 (kbytes st) a = Inr w"
  "readable st P a (le16 h) \<Longrightarrow> kload16 (kbytes st) a = Inr h"
proof -
  show "readable st P a (le32 w) \<Longrightarrow> kload32 (kbytes st) a = Inr w"
    by (rule kload32_le32 [OF readable_bytes_at])
  assume "readable st P a (le16 h)"
  then have "kbytes st a = Inr (ucast h)" "kbytes st (a + 1) = Inr (ucast (drop_bit 8 h))"
    by (simp_all add: le16_def readable_Cons)
  moreover have "ucast (ucast h :: u8) OR push_bit 8 (ucast (ucast (drop_bit 8 h) :: u8)) = h"
    by (rule bit_word_eqI) (auto simp: bit_simps)
  ultimately show "kload16 (kbytes st) a = Inr h" by (simp add: kload16_def)
qed

lemma keeps_pages_trans: "keeps_pages p st st1 \<Longrightarrow> keeps_pages p st1 st2 \<Longrightarrow> keeps_pages p st st2"
  unfolding keeps_pages_def by metis

lemma keeps_readable: "keeps_pages p st st' \<Longrightarrow> p \<in> P \<Longrightarrow> readable st P a bs \<Longrightarrow> readable st' P a bs"
  unfolding readable_def keeps_pages_def by metis

definition phdr_at :: "vm_state \<Rightarrow> nat set \<Rightarrow> u32 \<Rightarrow> elf32_program_hdr \<Rightarrow> bool" where
  "phdr_at st P a ph \<longleftrightarrow> readable st P (a + phdr_p_type) (le32 (ph_type ph)) \<and> readable st P (a + phdr_p_offset) (le32 (ph_offset ph)) \<and>
     readable st P (a + phdr_p_vaddr) (le32 (ph_vaddr ph)) \<and> readable st P (a + phdr_p_filesz) (le32 (ph_filesz ph)) \<and>
     readable st P (a + phdr_p_memsz) (le32 (ph_memsz ph)) \<and> readable st P (a + phdr_p_flags) (le32 (ph_flags ph))"

lemma phdr_loads:
  assumes "phdr_at st P a ph"
  shows "kload32 (kbytes st) (a + phdr_p_type) = Inr (ph_type ph)" "kload32 (kbytes st) (a + phdr_p_offset) = Inr (ph_offset ph)"
    "kload32 (kbytes st) (a + phdr_p_vaddr) = Inr (ph_vaddr ph)" "kload32 (kbytes st) (a + phdr_p_filesz) = Inr (ph_filesz ph)"
    "kload32 (kbytes st) (a + phdr_p_memsz) = Inr (ph_memsz ph)" "kload32 (kbytes st) (a + phdr_p_flags) = Inr (ph_flags ph)"
  using assms readable_load(1) [of st P] unfolding phdr_at_def by blast+

lemma keeps_phdr: "keeps_pages p st st' \<Longrightarrow> p \<in> P \<Longrightarrow> phdr_at st P a ph \<Longrightarrow> phdr_at st' P a ph"
  by (simp add: phdr_at_def keeps_readable)

section \<open>One segment\<close>

text \<open>The segment can be loaded: it fits in its page, outside the recursive window.\<close>

definition good_segment :: "elf32_program_hdr \<Rightarrow> bool" where
  "good_segment ph \<longleftrightarrow> ph_type ph AND PT_LOAD \<noteq> 0 \<and> dir_index (ph_vaddr ph) \<noteq> 768 \<and>
     off (ph_vaddr ph) + unat (ph_memsz ph) \<le> 4096 \<and> ph_filesz ph \<le> ph_memsz ph"

text \<open>The file's bytes are at the segment's address, with zeros behind them.\<close>

definition loaded :: "vm_state \<Rightarrow> elf32_program_hdr \<Rightarrow> u8 list \<Rightarrow> bool" where
  "loaded st ph bs \<longleftrightarrow> (\<forall>i < unat (ph_memsz ph). (\<exists>g. maps st (ph_vaddr ph + of_nat i) g) \<and>
     kbytes st (ph_vaddr ph + of_nat i) = Inr (if i < length bs then bs ! i else 0))"

lemma frame_writes_keep:
  assumes keep: "keeps_pages p st st1" and o: "only_frame f st1 st2" and f: "frame_of f \<notin> used_below (pmem st)"
  shows "keeps_pages p st st2"
  unfolding keeps_pages_def
proof (intro allI impI)
  fix x g assume x: "maps st x g" "frame_of x \<noteq> p"
  then have m: "maps st1 x g" "kbytes st1 x = kbytes st x" using keep unfolding keeps_pages_def by blast+
  have "g \<noteq> f" using x(1) f by (auto simp: maps_def)
  then show "maps st2 x g \<and> kbytes st2 x = kbytes st x"
    using m only_frame_maps [OF o] only_frame_kbytes [OF o m(1)] by simp
qed

lemma readable_source:
  assumes "keeps_pages p st st1" "p \<in> P" "readable st P a bs" "frame_of f \<notin> used_below (pmem st)"
  shows "source st1 f a bs"
  unfolding source_def
proof (intro allI impI)
  fix i assume i: "i < length bs"
  obtain g where g: "maps st (a + of_nat i) g" "frame_of (a + of_nat i) \<noteq> p" "kbytes st (a + of_nat i) = Inr (bs ! i)"
    using assms(2,3) i unfolding readable_def by blast
  then have "maps st1 (a + of_nat i) g" "kbytes st1 (a + of_nat i) = Inr (bs ! i)"
    using assms(1) unfolding keeps_pages_def by simp_all
  moreover have "g \<noteq> f" using g(1) assms(4) by (auto simp: maps_def)
  ultimately show "\<exists>g. g \<noteq> f \<and> maps st1 (a + of_nat i) g \<and> kbytes st1 (a + of_nat i) = Inr (bs ! i)" by blast
qed

lemma segment_flags:
  "unat (if b then (I86_PTE_USER OR I86_PTE_PRESENT) OR I86_PTE_WRITABLE else I86_PTE_USER OR I86_PTE_PRESENT) < 4096"
  "bit (if b then (I86_PTE_USER OR I86_PTE_PRESENT) OR I86_PTE_WRITABLE else I86_PTE_USER OR I86_PTE_PRESENT) 0"
  by (simp_all add: I86_PTE_USER_def I86_PTE_PRESENT_def I86_PTE_WRITABLE_def)

lemma load_segment:
  assumes inv: "pt_inv st" and two: "2 \<le> card (spare (pmem st))" and seg: "good_segment ph"
    and P: "frame_of (ph_vaddr ph) \<in> P" and at: "phdr_at st P phdr ph"
    and src: "readable st P (eh + ph_offset ph) bs" "length bs = unat (ph_filesz ph)"
  shows "\<exists>st'. elf_load_program_header eh phdr st = Inr (ERROR_OK, st') \<and> pt_inv st' \<and>
    card (spare (pmem st)) - 2 \<le> card (spare (pmem st')) \<and> loaded st' ph bs \<and> keeps_pages (frame_of (ph_vaddr ph)) st st'"
proof -
  let ?va = "ph_vaddr ph" and ?p = "frame_of (ph_vaddr ph)" and ?n = "unat (ph_memsz ph)"
  let ?fl = "if ph_flags ph AND PF_WRITE \<noteq> 0 then (I86_PTE_USER OR I86_PTE_PRESENT) OR I86_PTE_WRITABLE
    else I86_PTE_USER OR I86_PTE_PRESENT"
  have g: "ph_type ph AND PT_LOAD \<noteq> 0" "dir_index ?va \<noteq> 768" "off ?va + ?n \<le> 4096" "length bs \<le> ?n"
    using seg src(2) by (simp_all add: good_segment_def word_le_nat_alt)
  obtain phys st1 where a: "virt_mem_alloc_page_f ?va ?fl st = Inr (ERROR_OK, st1)" "pt_inv st1" "cr3 st1 = cr3 st"
    "keeps_data st st1" "data_frame st1 phys"
    "card (spare (pmem st)) - 2 \<le> card (spare (pmem st1))" "used_below (pmem st) \<subseteq> used_below (pmem st1)"
    "unat phys mod 4096 = 0" "frame_of phys \<in> used_below (pmem st1) - used_below (pmem st)"
    "\<And>va. dir_index va \<noteq> 768 \<Longrightarrow> translate (ram st1) (cr3 st1) va =
       (if frame_of va = frame_of ?va then Some (phys + (va AND 0xFFF)) else translate (ram st) (cr3 st) va)"
    by (rule alloc_page_f_succeeds [OF inv g(2) two segment_flags]) (rule that, assumption+)
  have fresh: "frame_of phys \<notin> used_below (pmem st)" using a(9) by simp
  have keep1: "keeps_pages ?p st st1" by (rule new_page_keeps [OF a(10,4,7)])
  have map1: "maps st1 ?va phys" using a(5,9,10) g(2) by (simp add: maps_def)
  have cov1: "covers st1 ?va ?n phys (off ?va)" by (rule maps_covers [OF map1 g(3)])
  have "covers st1 ?va (length (replicate ?n (0::u8))) phys (off ?va)" using cov1 by simp
  from put_list_ok [OF a(2) this] obtain st2 where st2: "put_list ?va (replicate ?n 0) st1 = Inr st2" "only_frame phys st1 st2"
    "\<And>j. j < 4096 \<Longrightarrow> frame_byte st2 phys j = (if off ?va \<le> j \<and> j < off ?va + ?n then replicate ?n 0 ! (j - off ?va) else frame_byte st1 phys j)"
    unfolding length_replicate by blast
  have inv2: "pt_inv st2" "pmem st2 = pmem st1" using st2(2) by (simp_all add: only_frame_def)
  have keep2: "keeps_pages ?p st st2" by (rule frame_writes_keep [OF keep1 st2(2) fresh])
  have cov2: "covers st2 ?va ?n phys (off ?va)" using cov1 by (simp add: covers_only_frame [OF st2(2)])
  have "covers st2 ?va (length bs + (?n - length bs)) phys (off ?va)" using cov2 g(4) by simp
  note cov3 = covers_split(1) [OF this]
  from put_list_ok [OF inv2(1) cov3] obtain st3 where st3: "put_list ?va bs st2 = Inr st3" "only_frame phys st2 st3"
    "\<And>j. j < 4096 \<Longrightarrow> frame_byte st3 phys j = (if off ?va \<le> j \<and> j < off ?va + length bs then bs ! (j - off ?va) else frame_byte st2 phys j)"
    by blast
  have copy: "kmemcpy ?va (eh + ph_offset ph) (ph_filesz ph) st2 = Inr st3"
    using kmemcpy_list [OF inv2(1) cov3 readable_source [OF keep2 P src(1) fresh] src(2)] st3(1) by simp
  have set: "kmemset ?va 0 (ph_memsz ph) st1 = Inr st2" unfolding kmemset_list by (rule st2(1))
  note ld = phdr_loads [OF at] phdr_loads [OF keeps_phdr [OF keep1 P at]] phdr_loads [OF keeps_phdr [OF keep2 P at]]
  have run: "elf_load_program_header eh phdr st = Inr (ERROR_OK, st3)"
    using ld a(1) set copy g(1) by (simp add: elf_load_program_header_def Let_def)
  have o: "only_frame phys st1 st3" by (rule only_frame_trans [OF st2(2) st3(2)])
  have "kbytes st3 (?va + of_nat i) = Inr (if i < length bs then bs ! i else 0) \<and> maps st3 (?va + of_nat i) phys" if i: "i < ?n" for i
  proof -
    have m: "maps st3 (?va + of_nat i) phys" "off (?va + of_nat i) = off ?va + i"
      using cov1 i only_frame_maps [OF o] by (auto simp: covers_def)
    have "off ?va + i < 4096" using g(3) i by simp
    then show ?thesis using maps_kbytes [OF m(1)] m st3(3) st2(3) i by simp
  qed
  then have "loaded st3 ph bs" by (auto simp: loaded_def)
  moreover have "keeps_pages ?p st st3" by (rule frame_writes_keep [OF keep1 o fresh])
  moreover have "pt_inv st3" "pmem st3 = pmem st1" using o by (simp_all add: only_frame_def)
  ultimately show ?thesis using run a(6) by (intro exI [of _ st3]) simp
qed

section \<open>The whole file\<close>

text \<open>The headers in front of the first whose type has bit 0 clear.\<close>

definition loadable :: "elf32_program_hdr \<Rightarrow> bool" where
  "loadable ph \<longleftrightarrow> ph_type ph AND PT_LOAD \<noteq> 0"

definition leading :: "elf32_program_hdr list \<Rightarrow> elf32_program_hdr list" where
  "leading phs = takeWhile loadable phs"

lemma leading_nth:
  "i < length (leading phs) \<Longrightarrow> leading phs ! i = phs ! i" "i < length (leading phs) \<Longrightarrow> i < length phs"
  "length (leading phs) \<le> length phs"
  unfolding leading_def using length_takeWhile_le [of loadable phs] by (auto simp: takeWhile_nth)

lemma leading_all: "length (leading phs) = length phs \<longleftrightarrow> (\<forall>ph \<in> set phs. loadable ph)"
  unfolding leading_def by (metis takeWhile_eq_all_conv takeWhile_eq_take take_all order.refl)

text \<open>
  The file at \<open>eh\<close> has the program headers \<open>phs\<close>, and the first segments have the contents \<open>bss\<close>;
  none of this lies in the pages \<open>P\<close>, where the segments go.
\<close>

definition elf_file :: "vm_state \<Rightarrow> nat set \<Rightarrow> u32 \<Rightarrow> elf32_program_hdr list \<Rightarrow> u8 list list \<Rightarrow> bool" where
  "elf_file st P eh phs bss \<longleftrightarrow> length phs < 65536 \<and>
     readable st P (eh + e_phnum) (le16 (of_nat (length phs))) \<and>
     (\<exists>phoff entsize. readable st P (eh + e_phoff) (le32 phoff) \<and> readable st P (eh + e_phentsize) (le16 entsize) \<and>
       (\<forall>i < length phs. phdr_at st P (eh + phoff + of_nat i * ucast entsize) (phs ! i))) \<and>
     (\<forall>i < length bss. readable st P (eh + ph_offset (phs ! i)) (bss ! i) \<and> length (bss ! i) = unat (ph_filesz (phs ! i)))"

lemma keeps_elf_file: "keeps_pages p st st' \<Longrightarrow> p \<in> P \<Longrightarrow> elf_file st P eh phs bss \<Longrightarrow> elf_file st' P eh phs bss"
  unfolding elf_file_def
  by (elim conjE exE, intro conjI exI allI impI) (auto intro: keeps_readable keeps_phdr)

lemma keeps_loaded:
  assumes keep: "keeps_pages p st st'" and ph: "p \<noteq> frame_of (ph_vaddr ph)" "good_segment ph" and l: "loaded st ph bs"
  shows "loaded st' ph bs"
  unfolding loaded_def
proof (intro allI impI)
  fix i assume i: "i < unat (ph_memsz ph)"
  then have "off (ph_vaddr ph) + i < 4096" using ph(2) by (simp add: good_segment_def)
  then have "frame_of (ph_vaddr ph + of_nat i) \<noteq> p" using within_page(2) ph(1) by metis
  with l i keep show "(\<exists>g. maps st' (ph_vaddr ph + of_nat i) g) \<and>
      kbytes st' (ph_vaddr ph + of_nat i) = Inr (if i < length bs then bs ! i else 0)"
    unfolding loaded_def keeps_pages_def by metis
qed

lemma elf_file_loads:
  assumes "elf_file st P eh phs bss"
  obtains phoff entsize where "kload16 (kbytes st) (eh + e_phnum) = Inr (of_nat (length phs))"
    "unat (of_nat (length phs) :: u16) = length phs" "kload32 (kbytes st) (eh + e_phoff) = Inr phoff"
    "kload16 (kbytes st) (eh + e_phentsize) = Inr entsize"
    "\<forall>i < length phs. phdr_at st P (eh + phoff + of_nat i * ucast entsize) (phs ! i)"
  using assms readable_load unfolding elf_file_def by (auto simp: unat_of_nat)

text \<open>From the \<open>i\<close>-th header on: the loader gets to the end, or to the first header it rejects.\<close>

lemma elf_load_from_end:
  assumes "elf_file st P eh phs bss"
  shows "elf_load_from eh (length (leading phs)) st =
    Inr (if \<forall>ph \<in> set phs. loadable ph then ERROR_OK else ERROR_OCCUR, st)"
proof -
  let ?n = "length (leading phs)"
  obtain phoff entsize where f: "kload16 (kbytes st) (eh + e_phnum) = Inr (of_nat (length phs))"
    "unat (of_nat (length phs) :: u16) = length phs" "kload32 (kbytes st) (eh + e_phoff) = Inr phoff"
    "kload16 (kbytes st) (eh + e_phentsize) = Inr entsize"
    "\<forall>i < length phs. phdr_at st P (eh + phoff + of_nat i * ucast entsize) (phs ! i)"
    using elf_file_loads [OF assms] by blast
  show ?thesis
  proof (cases "?n = length phs")
    case True
    then show ?thesis using f(1,2) leading_all [of phs] by (subst elf_load_from.simps) simp
  next
    case False
    then have n: "?n < length phs" using leading_nth(3) [of phs] by simp
    then have "\<not> loadable (phs ! ?n)" unfolding leading_def by (rule nth_length_takeWhile)
    then have "elf_load_program_header eh (eh + phoff + of_nat ?n * ucast entsize) st = Inr (ERROR_OCCUR, st)"
      using phdr_loads(1) [OF f(5) [rule_format, OF n]] by (simp add: elf_load_program_header_def loadable_def)
    then show ?thesis using f(1-4) n False leading_all [of phs] by (subst elf_load_from.simps) simp
  qed
qed

lemma elf_load_from_ok:
  assumes "pt_inv st" "elf_file st P eh phs bss" "length bss = length (leading phs)"
    "\<forall>ph \<in> set (leading phs). good_segment ph \<and> frame_of (ph_vaddr ph) \<in> P"
    "distinct (map (\<lambda>ph. frame_of (ph_vaddr ph)) (leading phs))" "i \<le> length bss"
    "2 * (length bss - i) \<le> card (spare (pmem st))" "\<forall>j < i. loaded st (phs ! j) (bss ! j)"
  shows "\<exists>st'. elf_load_from eh i st = Inr (if \<forall>ph \<in> set phs. loadable ph then ERROR_OK else ERROR_OCCUR, st') \<and>
    pt_inv st' \<and> (\<forall>j < length bss. loaded st' (phs ! j) (bss ! j)) \<and>
    (\<forall>x g. maps st x g \<longrightarrow> frame_of x \<notin> P \<longrightarrow> maps st' x g \<and> kbytes st' x = kbytes st x)"
  using assms
proof (induction "length bss - i" arbitrary: i st)
  case (0 i)
  then have i: "i = length bss" by simp
  show ?case using elf_load_from_end [OF 0(3)] 0 i by auto
next
  case (Suc n i)
  note st = Suc.prems
  have i: "i < length bss" "i < length (leading phs)" using Suc.hyps(2) st(3) by simp_all
  note lead = leading_nth(1,2) [OF i(2)]
  obtain phoff entsize where f: "kload16 (kbytes st) (eh + e_phnum) = Inr (of_nat (length phs))"
    "unat (of_nat (length phs) :: u16) = length phs" "kload32 (kbytes st) (eh + e_phoff) = Inr phoff"
    "kload16 (kbytes st) (eh + e_phentsize) = Inr entsize"
    "\<forall>i < length phs. phdr_at st P (eh + phoff + of_nat i * ucast entsize) (phs ! i)"
    using elf_file_loads [OF st(2)] by blast
  have src: "readable st P (eh + ph_offset (phs ! i)) (bss ! i)" "length (bss ! i) = unat (ph_filesz (phs ! i))"
    using st(2) i(1) unfolding elf_file_def by simp_all
  let ?ph = "phs ! i" and ?p = "frame_of (ph_vaddr (phs ! i))"
  have seg: "good_segment (phs ! j)" "frame_of (ph_vaddr (phs ! j)) \<in> P" if "j \<le> i" for j
    using st(4) i(2) that nth_mem [of j "leading phs"] leading_nth(1) [of j phs] by auto
  have two: "2 \<le> card (spare (pmem st))" using st(7) i by linarith
  obtain st1 where s1: "elf_load_program_header eh (eh + phoff + of_nat i * ucast entsize) st = Inr (ERROR_OK, st1)" "pt_inv st1"
    "card (spare (pmem st)) - 2 \<le> card (spare (pmem st1))" "loaded st1 ?ph (bss ! i)" "keeps_pages ?p st st1"
    using load_segment [OF st(1) two seg [of i] f(5) [rule_format, OF lead(2)] src] by blast
  have "loaded st1 (phs ! j) (bss ! j)" if "j < Suc i" for j
  proof (cases "j = i")
    case True
    then show ?thesis using s1(4) by simp
  next
    case False
    then have j: "j < i" using that by simp
    then have "?p \<noteq> frame_of (ph_vaddr (phs ! j))"
      using st(5) i nth_eq_iff_index_eq [of "map (\<lambda>ph. frame_of (ph_vaddr ph)) (leading phs)" i j]
        leading_nth(1) [of j phs] lead by simp
    then show ?thesis using keeps_loaded [OF s1(5)] st(8) j seg(1) [of j] by simp
  qed
  moreover have "n = length bss - Suc i" "Suc i \<le> length bss" using Suc.hyps(2) by simp_all
  moreover have "2 * (length bss - Suc i) \<le> card (spare (pmem st1))" using st(7) s1(3) i by simp
  ultimately obtain st' where s':
    "elf_load_from eh (Suc i) st1 = Inr (if \<forall>ph \<in> set phs. loadable ph then ERROR_OK else ERROR_OCCUR, st')" "pt_inv st'"
    "\<forall>j < length bss. loaded st' (phs ! j) (bss ! j)"
    "\<forall>x g. maps st1 x g \<longrightarrow> frame_of x \<notin> P \<longrightarrow> maps st' x g \<and> kbytes st' x = kbytes st1 x"
    using Suc.hyps(1) [of "Suc i" st1] s1(2) keeps_elf_file [OF s1(5) seg(2) [OF order.refl] st(2)] st(3-5) by blast
  have "elf_load_from eh i st = elf_load_from eh (Suc i) st1"
    using f(1-4) lead(2) s1(1) by (subst elf_load_from.simps) simp
  moreover have "maps st' x g \<and> kbytes st' x = kbytes st x" if "maps st x g" "frame_of x \<notin> P" for x g
  proof -
    have "frame_of x \<noteq> ?p" using that(2) seg(2) [of i] by auto
    with that s1(5) s'(4) show ?thesis unfolding keeps_pages_def by metis
  qed
  ultimately show ?case using s' by simp
qed

section \<open>Properties\<close>


section \<open>An example\<close>

text \<open>
  The machine of the page table example with a file in its page at 0x400000: one segment of 5 bytes
  and 11 in memory, for 0x800004.
\<close>

definition elf_words :: "(nat \<times> u32) list" where
  "elf_words = [(7, 52), (10, 0x200034), (11, 1), (13, 1), (14, 84), (15, 0x800004), (17, 5), (18, 11), (19, 6),
     (21, 0x44434241), (22, 0x45)]"

definition elf_machine :: vm_state where
  "elf_machine = fold (\<lambda>(k, w). put_word 0x102000 k w) elf_words vm_machine"

definition elf_segment :: elf32_program_hdr where
  "elf_segment = \<lparr>ph_type = 1, ph_offset = 84, ph_vaddr = 0x800004, ph_paddr = 0, ph_filesz = 5, ph_memsz = 11,
     ph_flags = 6, ph_align = 0\<rparr>"

lemma elf_machine_tables:
  "pt_inv elf_machine" "data_frame elf_machine 0x102000" "pmem elf_machine = pmem vm_machine" "cr3 elf_machine = cr3 vm_machine"
  "dir_index va \<noteq> 768 \<Longrightarrow> translate (ram elf_machine) (cr3 vm_machine) va = translate (ram vm_machine) (cr3 vm_machine) va"
proof -
  have "\<forall>(k, w) \<in> set elf_words. k < 1024" by (simp add: elf_words_def)
  note f = fold_put_words [OF vm_machine_inv this]
  show "pt_inv elf_machine" "data_frame elf_machine 0x102000" "pmem elf_machine = pmem vm_machine" "cr3 elf_machine = cr3 vm_machine"
    using f vm_machine_inv(2) by (simp_all add: elf_machine_def)
  show "dir_index va \<noteq> 768 \<Longrightarrow> translate (ram elf_machine) (cr3 vm_machine) va = translate (ram vm_machine) (cr3 vm_machine) va"
    using f by (simp add: elf_machine_def)
qed

lemma elf_machine_maps:
  assumes k: "k < 4096"
  shows "maps elf_machine (0x400000 + of_nat k) 0x102000" "off (0x400000 + of_nat k) = k" "frame_of (0x400000 + of_nat k) = 1024"
proof -
  let ?x = "0x400000 + of_nat k :: u32"
  have "off (0x400000 :: u32) = 0" "frame_of (0x400000 :: u32) = 1024" by (simp_all add: off_def)
  then show o: "off ?x = k" "frame_of ?x = 1024" using within_page [of "0x400000" k] k by simp_all
  have ix: "dir_index ?x = 1" "tab_index ?x = 0" using o(2) by (simp_all add: dir_index_def tab_index_def)
  have "translate (ram vm_machine) (cr3 vm_machine) ?x = Some (0x102000 + (?x AND 0xFFF))"
    by (rule vm_machine_translate [OF ix])
  then show "maps elf_machine ?x 0x102000"
    by (simp add: maps_def ix elf_machine_tables vm_machine_used)
qed

lemma elf_machine_readable:
  assumes "k + length bs \<le> 4096" "map (frame_byte elf_machine 0x102000) [k..<k + length bs] = bs" "1024 \<notin> P"
  shows "readable elf_machine P (0x400000 + of_nat k) bs"
  unfolding readable_def
proof (intro allI impI)
  fix i assume i: "i < length bs"
  then have "k + i < 4096" using assms(1) by simp
  note m = elf_machine_maps [OF this]
  have a: "0x400000 + of_nat k + of_nat i = (0x400000 + of_nat (k + i) :: u32)" by simp
  have "frame_byte elf_machine 0x102000 (k + i) = bs ! i"
    using arg_cong [OF assms(2), of "\<lambda>xs. xs ! i"] i by simp
  then show "frame_of (0x400000 + of_nat k + of_nat i :: u32) \<notin> P \<and>
      (\<exists>g. maps elf_machine (0x400000 + of_nat k + of_nat i) g) \<and>
      kbytes elf_machine (0x400000 + of_nat k + of_nat i) = Inr (bs ! i)"
    unfolding a using maps_kbytes [OF m(1)] m assms(3) by auto
qed

lemma elf_machine_file: "elf_file elf_machine {2048} 0x400000 [elf_segment] [[0x41, 0x42, 0x43, 0x44, 0x45]]"
proof -
  have bytes:
    "map (frame_byte elf_machine 0x102000) [28..<28 + 4] = le32 52"
    "map (frame_byte elf_machine 0x102000) [42..<42 + 2] = le16 32"
    "map (frame_byte elf_machine 0x102000) [44..<44 + 2] = le16 1"
    "map (frame_byte elf_machine 0x102000) [52..<52 + 4] = le32 1"
    "map (frame_byte elf_machine 0x102000) [56..<56 + 4] = le32 84"
    "map (frame_byte elf_machine 0x102000) [60..<60 + 4] = le32 0x800004"
    "map (frame_byte elf_machine 0x102000) [68..<68 + 4] = le32 5"
    "map (frame_byte elf_machine 0x102000) [72..<72 + 4] = le32 11"
    "map (frame_byte elf_machine 0x102000) [76..<76 + 4] = le32 6"
    "map (frame_byte elf_machine 0x102000) [84..<84 + 5] = [0x41, 0x42, 0x43, 0x44, 0x45]"
    by code_simp+
  have len: "length (le32 w) = 4" "length (le16 h) = 2" for w h by (simp_all add: le32_def le16_def)
  have words: "readable elf_machine {2048} (0x400000 + of_nat k) (le32 w)"
    if "k + 4 \<le> 4096" "map (frame_byte elf_machine 0x102000) [k..<k + 4] = le32 w" for k w
    by (rule elf_machine_readable) (use that len in simp_all)
  have halves: "readable elf_machine {2048} (0x400000 + of_nat k) (le16 w)"
    if "k + 2 \<le> 4096" "map (frame_byte elf_machine 0x102000) [k..<k + 2] = le16 w" for k w
    by (rule elf_machine_readable) (use that len in simp_all)
  have "readable elf_machine {2048} (0x400000 + of_nat 84) [0x41, 0x42, 0x43, 0x44, 0x45]"
    by (rule elf_machine_readable) (use bytes(10) in simp_all)
  moreover have "phdr_at elf_machine {2048} 0x400034 elf_segment"
    unfolding phdr_at_def elf_segment_def elf32_program_hdr.simps
    using words [OF _ bytes(4)] words [OF _ bytes(5)] words [OF _ bytes(6)] words [OF _ bytes(7)]
      words [OF _ bytes(8)] words [OF _ bytes(9)]
    by (simp add: phdr_p_type_def phdr_p_offset_def phdr_p_vaddr_def phdr_p_filesz_def phdr_p_memsz_def phdr_p_flags_def)
  ultimately show ?thesis
    using words [OF _ bytes(1)] halves [OF _ bytes(2)] halves [OF _ bytes(3)] unfolding elf_file_def
    by (intro conjI exI [of _ "52"] exI [of _ "32"])
      (simp_all add: e_phnum_def e_phoff_def e_phentsize_def, simp add: elf_segment_def)
qed


end
