(* ===== verification/Spec2Isabelle.thy ===== *)
theory Spec2Isabelle
  imports Libk_Props Phys_Mem Heap_Props Vm_Props Virt_Props Descriptors Sched_Props Kernel_Props Process_Props Ipc_Props Calendar Acpi_Props Boot_Paging Console_Props Device_Props Boot_Memory Isr_Props Startup_Run Boot_Acpi Elf_Props
begin

text \<open>
  A model of the RadixOS kernel, a small multiprocessor kernel for 32-bit x86, with the theorems
  that make it correct.  All paths are under \<^verbatim>\<open>src/kernel/\<close>.

  \<^bold>\<open>The program.\<close>  \<^verbatim>\<open>kernel_init.c\<close> builds the first page tables and jumps to
  \<^verbatim>\<open>kernel_entry\<close> (\<^verbatim>\<open>kernel.c\<close>), which sets up physical memory from the boot loader's map,
  finds processors and interrupt controllers in the firmware's tables, writes the descriptor
  tables and wakes the other processors.  Every processor then creates a clock and an idle thread
  and starts scheduling: the timer interrupt switches threads, semaphores and mailboxes block and
  wake them with messages that processors send to each other as interrupts.

  \<^bold>\<open>How code is modelled.\<close>  A C structure is a record, a machine integer a word of its width, a
  function a definition of the same name.  A function that changes state takes the state and
  answers the new one.  \<open>'a res\<close> is a sum: \<open>Inl\<close> is a \<open>fault\<close> (a panic with its message, a null
  pointer, an index out of bounds, a lock that is never freed, a loop that never ends), \<open>Inr\<close> the
  result; \<open>res_bind\<close> goes on after a result (theory \<open>Prelude\<close>).  A table slot is named by its
  index.  Code that cannot be read here is a parameter: what a device register answers given the
  history of accesses, what lies in memory, the linker's addresses, the assembly stubs.

  \<^bold>\<open>Memory.\<close>
  \<^item> \<open>Phys_Mem\<close> (\<^verbatim>\<open>mem_manager_phys.c\<close>): the bitmap of page frames as its list of words, the
    counter and the lock.  It fulfils the contract \<open>frame_allocator\<close> of \<open>Frame_Allocator\<close> twice
    (interpretations \<open>pmem\<close>, \<open>pmem_1mb\<close>): a frame handed out was free and is now in use.
    \<open>Boot_Memory\<close>: the loop of \<^verbatim>\<open>kernel_entry\<close> over the boot loader's map, whose regions end
    beyond the blocks the loader's totals count; which blocks are free at its end, and when the
    manager is ready.
  \<^item> \<open>Paging\<close>, \<open>Virt_Mem\<close> (\<^verbatim>\<open>vmmngr_pte.c\<close>, \<^verbatim>\<open>vmmngr_pde.c\<close>, \<^verbatim>\<open>mem_manager_virt*.c\<close>,
    \<^verbatim>\<open>mem_alloc.c\<close>): a \<open>vm_state\<close> is physical memory word by word, cr3 and the frame manager.
    \<open>translate\<close> is the walk of the processor; the code's accesses through the recursive window
    use it too.  \<open>Virt_Props\<close> has the invariant \<open>pt_inv\<close> of the tables and what mapping, allocating
    and freeing a page do to the translation of every address; \<open>Kernel_Pages\<close> that pages are
    allocated for as long as enough frames are free, \<open>Page_Bytes\<close> what the pages hold.  \<open>Boot_Paging\<close> (\<^verbatim>\<open>kernel_init.c\<close>): the first
    tables translate as intended, and which memory making them may clear.  \<open>Kernel_Memory\<close>: bytes read through the tables.
  \<^item> \<open>Heap_Manager\<close>, \<open>Heap_Props\<close> (\<^verbatim>\<open>heap_manager.c\<close>): block headers in byte-addressed memory,
    related by \<open>heap_ok\<close> to a list of blocks on which every operation is a short function.  The
    contract \<open>block_heap\<close> of \<open>Block_Heap\<close> (interpretation \<open>kheap\<close>): live blocks do not overlap
    and keep their contents.  \<open>Boot_Heap\<close>: the two tables \<^verbatim>\<open>kernel_entry\<close> takes from a heap of
    one page, which suffices for 17 processors.
  \<^item> \<open>Vm_Area\<close>, \<open>Vm_Tree\<close>, \<open>Vm_Contract\<close>, \<open>Vm_Props\<close> (\<^verbatim>\<open>vm_area.c\<close>, \<^verbatim>\<open>vm_contract.c\<close>): the AVL
    interval tree of a process's areas with its nodes in the kernel heap; balance and stored heights are
    preserved by any sequence of calls and the tree answers as the set of its areas does.
  \<^item> \<open>Elf\<close>, \<open>Elf_Props\<close> (\<^verbatim>\<open>elf.c\<close>): the segments in front of the first header that is not
    loadable are copied through the page tables to their addresses and nothing else changes.

  \<^bold>\<open>Threads.\<close>
  \<^item> \<open>Kernel_State\<close> is the state processors share (\<open>kstate\<close>: thread, process and mailbox slots,
    the global system table with the processors' data, semaphores, interrupts under way).
    \<open>Trap_Frame\<close>: saved registers and what \<^verbatim>\<open>iret\<close> restores from them.
  \<^item> \<open>Thread_Sched\<close> (\<^verbatim>\<open>thread_sched.c\<close>): ready queues as linked threads.  \<open>Thread_Queues\<close> relates
    them to lists and interprets the contract \<open>fifo_queue\<close> of \<open>Fifo_Queue\<close> for ready and wait
    queues.  \<open>Sched_View\<close>, \<open>Sched_Block\<close>, \<open>Sched_Switch\<close> refine every scheduling operation to the
    abstract \<open>view\<close>, in which each thread is in one place; \<open>Sched_Props\<close> rests on this.
  \<^item> \<open>Spinlock\<close> (\<^verbatim>\<open>sync/_spinlock.asm\<close>), \<open>Ipc\<close> (\<^verbatim>\<open>sync/semaphore.c\<close>, \<^verbatim>\<open>ipc/*.c\<close>), \<open>Process\<close>
    (\<^verbatim>\<open>process/*.c\<close>), \<open>Clock\<close> (\<^verbatim>\<open>clock/clock.c\<close>), \<open>Isr\<close> (\<^verbatim>\<open>isr.c\<close>).  The three slot tables
    interpret \<open>slot_table\<close> of \<open>Slot_Table\<close> in \<open>Process_Props\<close>.
  \<^item> \<open>Kernel_Steps\<close> is the kernel as an inductive relation of interleaved steps (timer, messages,
    waits, signals, new threads); \<open>Kernel_Deliver\<close> shows that each keeps the invariant \<open>kernel_inv\<close>
    and the threads, \<open>Kernel_Props\<close> that no reachable state has lost or doubled one.
    \<open>Kernel_Example\<close> is the small system the witnesses run on.
  \<^item> \<open>Startup\<close> (\<^verbatim>\<open>processor_startup.c\<close>): waking processors and setting each up.  \<open>Startup_Props\<close>,
    \<open>Startup_Run\<close>: whatever the order of the processors, the result is a state in \<open>kernel_inv\<close>
    with every clock task running, from which the steps go on.

  \<^bold>\<open>Machine and library.\<close>
  \<^item> \<open>Descriptors\<close> (\<^verbatim>\<open>gdt.c\<close>, \<^verbatim>\<open>tss.c\<close>, \<^verbatim>\<open>idt.c\<close>) and \<open>Kernel_Entry\<close> (the descriptors
    \<^verbatim>\<open>kernel_entry\<close> writes): read back the way the processor reads them.
  \<^item> \<open>Devices\<close>, \<open>Lapic\<close>, \<open>Device_Props\<close> (\<^verbatim>\<open>pic.c\<close>, \<^verbatim>\<open>pit.c\<close>, \<^verbatim>\<open>ioapic.c\<close>, \<^verbatim>\<open>lapic.c\<close>): code
    extends a history of accesses; the properties say what the device's registers hold after it.
  \<^item> \<open>Acpi\<close>, \<open>Acpi_Props\<close> (\<^verbatim>\<open>acpi.c\<close>, \<^verbatim>\<open>gst.c\<close>): both passes over the firmware's tables.
    \<open>Boot_Acpi\<close>: the part of \<^verbatim>\<open>kernel_entry\<close> that finds them, maps the page of the root table,
    allocates the processors' tables and fills them in.
    \<open>Calendar\<close> (\<^verbatim>\<open>time.c\<close>, \<^verbatim>\<open>rtc.c\<close>).
  \<^item> \<open>Libk_Memory\<close>, \<open>Libk_Utility\<close>, \<open>Libk_Digits\<close>, \<open>Libk_String\<close>, \<open>Libk_Props\<close>, \<open>Console\<close>,
    \<open>Console_Props\<close> (\<^verbatim>\<open>libk/\<close>): memory routines equal byte loops, numbers survive printing and
    reading, formatted output equals a reference rendering and stays on the screen.

  \<^bold>\<open>Bounds and loops.\<close>  A loop that may not end (following heap headers, table entries of length
  0, waiting for a device) is a \<open>partial_function\<close> in \<open>option\<close>, and its properties say when it
  returns.  The recursion between \<^verbatim>\<open>send\<close> and the semaphores has a fuel argument; two levels are
  enough where the mailboxes numbered like processors belong to processors, which is part of the
  invariant.  The start of the processors is stated for at most 16 of them, 3712 pages of tables
  and the pages of each processor's stacks and threads.

  \<^bold>\<open>Modelling decisions.\<close>  A processor's set-up, and the handler of an interrupt, is one step; the
  instructions of the spinlock are interleaved.  \<^verbatim>\<open>semaphore_wait\<close> sends and returns, as in the
  code; whether the interrupt it has sent to its own processor is taken before the caller goes on
  is the argument \<open>now\<close> of the functions that wait (\<open>left_at_wait\<close> in \<open>Ipc\<close>).  \<^verbatim>\<open>alloc_perm\<close> takes no lock, so its calls on two
  processors at a time are outside the theorems.  The translation cache is not part of the state.
  Output on the screen is left out except in \<open>Console\<close> and \<open>Isr\<close>.

  \<^bold>\<open>Not modelled.\<close>  Assembly glue (\<^verbatim>\<open>boot.s\<close>, \<^verbatim>\<open>ap_boot.fasm\<close>, loading of registers); the functions
  named \<^verbatim>\<open>*_print\<close>, which only print; the endless printing loop of the clock task; the user
  mode test program, which no code loads; headers of the compiler and of tables no file reads.
  Between the parts of \<^verbatim>\<open>kernel_entry\<close> that are modelled only the stack is moved, devices are
  switched and messages are printed.
\<close>

end
